(* ===== verification/Duty_Prelude.thy ===== *)
theory Duty_Prelude
  imports Main "HOL-Library.Char_ord" "HOL-Library.List_Lexorder" "HOL-Library.Multiset" "HOL-Library.AList"
begin

section \<open>Shared vocabulary\<close>

text \<open>
  What the component theories share: the functions of the Go standard library the source
  calls (packages \<open>strings\<close>, \<open>strconv\<close>, \<open>sort\<close>), the result type of fallible code, and
  generic facts about lists. A Go string is a list of bytes, written as a HOL \<open>string\<close>;
  \<open>strings.TrimSpace\<close> and \<open>strings.ToLower\<close> are written for ASCII input. A Go map that the code
  iterates over is an association list with distinct keys whose order stands for the iteration
  order the runtime happens to choose; a map that is only looked up is a partial function.
\<close>

named_theorems go_strings \<open>characterisations of the Go string functions\<close>

subsection \<open>Fallible code\<close>

text \<open>\<open>Inl\<close> is the error return, \<open>Inr\<close> the value; \<open>and_then\<close> is the early return
  \<^verbatim>\<open>if err != nil { return err }\<close>.\<close>

fun and_then :: "'e + 'a \<Rightarrow> ('a \<Rightarrow> 'e + 'b) \<Rightarrow> 'e + 'b" where
  "and_then (Inl e) f = Inl e"
| "and_then (Inr x) f = f x"

lemma and_then_Inr_iff: "and_then r f = Inr y \<longleftrightarrow> (\<exists>x. r = Inr x \<and> f x = Inr y)"
  by (cases r) auto

lemma and_then_Inl_iff: "and_then r f = Inl e \<longleftrightarrow> r = Inl e \<or> (\<exists>x. r = Inr x \<and> f x = Inl e)"
  by (cases r) auto

lemma and_then_cong [fundef_cong]:
  "r = r' \<Longrightarrow> (\<And>x. r' = Inr x \<Longrightarrow> f x = g x) \<Longrightarrow> and_then r f = and_then r' g"
  by (cases r') auto

subsection \<open>Package strings\<close>

definition has_prefix :: "string \<Rightarrow> string \<Rightarrow> bool" where
  "has_prefix p s \<longleftrightarrow> take (length p) s = p"

definition has_suffix :: "string \<Rightarrow> string \<Rightarrow> bool" where
  "has_suffix p s \<longleftrightarrow> length p \<le> length s \<and> drop (length s - length p) s = p"

definition trim_prefix :: "string \<Rightarrow> string \<Rightarrow> string" where
  "trim_prefix p s = (if has_prefix p s then drop (length p) s else s)"

definition trim_suffix :: "string \<Rightarrow> string \<Rightarrow> string" where
  "trim_suffix p s = (if has_suffix p s then take (length s - length p) s else s)"

definition is_space :: "char \<Rightarrow> bool" where
  "is_space c \<longleftrightarrow> c \<in> {CHR '' '', CHR 0x09, CHR 0x0A, CHR 0x0B, CHR 0x0C, CHR 0x0D}"

definition trim_where :: "(char \<Rightarrow> bool) \<Rightarrow> string \<Rightarrow> string" where
  "trim_where p s = rev (dropWhile p (rev (dropWhile p s)))"

abbreviation trim_space :: "string \<Rightarrow> string" where
  "trim_space \<equiv> trim_where is_space"

text \<open>\<open>strings.Split\<close> and \<open>strings.SplitSeq\<close> with a one byte separator.\<close>

fun split_char :: "char \<Rightarrow> string \<Rightarrow> string list" where
  "split_char c [] = [[]]"
| "split_char c (x # xs) =
     (if x = c then [] # split_char c xs
      else (case split_char c xs of [] \<Rightarrow> [[x]] | y # ys \<Rightarrow> (x # y) # ys))"

fun join :: "string \<Rightarrow> string list \<Rightarrow> string" where
  "join sep [] = []"
| "join sep [x] = x"
| "join sep (x # y # ys) = x @ sep @ join sep (y # ys)"

fun contains :: "string \<Rightarrow> string \<Rightarrow> bool" where
  "contains sub [] \<longleftrightarrow> sub = []"
| "contains sub (x # xs) \<longleftrightarrow> has_prefix sub (x # xs) \<or> contains sub xs"

text \<open>\<open>strings.ReplaceAll\<close> of a one byte pattern.\<close>

definition replace_char :: "char \<Rightarrow> string \<Rightarrow> string \<Rightarrow> string" where
  "replace_char c new s = concat (map (\<lambda>x. if x = c then new else [x]) s)"

definition lower_char :: "char \<Rightarrow> char" where
  "lower_char c = (let n = of_char c :: nat in
     if 65 \<le> n \<and> n \<le> 90 then char_of (n + 32) else c)"

definition to_lower :: "string \<Rightarrow> string" where
  "to_lower = map lower_char"

lemma has_prefix_append [simp]: "has_prefix p (p @ s)"
  by (simp add: has_prefix_def)

lemma has_prefix_iff [go_strings]: "has_prefix p s \<longleftrightarrow> (\<exists>t. s = p @ t)"
  by (metis append_eq_conv_conj has_prefix_def)

lemma has_prefix_Nil [simp]: "has_prefix [] s"
  by (simp add: has_prefix_def)

lemma has_prefix_Cons [simp]:
  "has_prefix (c # p) [] = False"
  "has_prefix (c # p) (x # s) = (c = x \<and> has_prefix p s)"
  by (auto simp: has_prefix_def)

lemma has_suffix_iff [go_strings]: "has_suffix p s \<longleftrightarrow> (\<exists>t. s = t @ p)"
  by (metis append_eq_append_conv append_take_drop_id diff_le_self has_suffix_def le_add2
      length_append length_drop diff_diff_cancel)

lemma has_suffix_append [simp]: "has_suffix p (s @ p)"
  by (auto simp: has_suffix_iff)

lemma trim_prefix_append [simp]: "trim_prefix p (p @ s) = s"
  by (simp add: trim_prefix_def)

lemma trim_suffix_append [simp]: "trim_suffix p (s @ p) = s"
  by (simp add: trim_suffix_def)

lemma split_char_ne [simp]: "split_char c s \<noteq> []"
  by (cases s) (auto split: list.splits)

lemma join_Cons: "join sep (x # xs) = (if xs = [] then x else x @ sep @ join sep xs)"
  by (cases xs) auto

lemma join_split_char [go_strings]: "join [c] (split_char c s) = s"
proof (induction s)
  case Nil
  then show ?case by simp
next
  case (Cons x xs)
  obtain y ys where "split_char c xs = y # ys"
    by (meson neq_Nil_conv split_char_ne)
  with Cons show ?case by (auto simp: join_Cons split: if_splits)
qed

lemma split_char_no_sep [go_strings]: "c \<notin> set s \<Longrightarrow> split_char c s = [s]"
  by (induction s) auto

lemma split_char_parts: "p \<in> set (split_char c s) \<Longrightarrow> c \<notin> set p"
proof (induction s arbitrary: p)
  case Nil
  then show ?case by simp
next
  case (Cons x xs)
  obtain y ys where s: "split_char c xs = y # ys"
    by (meson neq_Nil_conv split_char_ne)
  with Cons show ?case by (auto split: if_splits)
qed

lemma split_char_sep: "c \<notin> set x \<Longrightarrow> split_char c (x @ c # s) = x # split_char c s"
  by (induction x) auto

lemma split_char_join [go_strings]:
  "xs \<noteq> [] \<Longrightarrow> \<forall>x \<in> set xs. c \<notin> set x \<Longrightarrow> split_char c (join [c] xs) = xs"
proof (induction xs)
  case Nil
  then show ?case by simp
next
  case (Cons x xs)
  then show ?case
    by (cases "xs = []") (auto simp: join_Cons split_char_sep split_char_no_sep)
qed

lemma dropWhile_id: "s = [] \<or> \<not> p (hd s) \<Longrightarrow> dropWhile p s = s"
  by (cases s) auto

lemma trim_where_id:
  "s = [] \<or> (\<not> p (hd s) \<and> \<not> p (last s)) \<Longrightarrow> trim_where p s = s"
  by (auto simp: trim_where_def dropWhile_id hd_rev)

lemma trim_where_no: "\<forall>x \<in> set s. \<not> p x \<Longrightarrow> trim_where p s = s"
  by (rule trim_where_id) (use hd_in_set last_in_set in blast)

text \<open>\<open>strings.Cut\<close>: what is before and after the first occurrence of a character.\<close>

definition cut_char :: "char \<Rightarrow> string \<Rightarrow> (string \<times> string) option" where
  "cut_char c s = (if c \<in> set s then Some (takeWhile (\<lambda>x. x \<noteq> c) s, drop 1 (dropWhile (\<lambda>x. x \<noteq> c) s)) else None)"

lemma while_cut: "c \<notin> set a \<Longrightarrow> takeWhile (\<lambda>x. x \<noteq> c) (a @ c # b) = a \<and> dropWhile (\<lambda>x. x \<noteq> c) (a @ c # b) = c # b"
  by (induction a) auto

lemma cut_char_Some: "cut_char c s = Some (a, b) \<longleftrightarrow> c \<notin> set a \<and> s = a @ c # b"
proof
  assume "cut_char c s = Some (a, b)"
  then have c: "c \<in> set s" and ab: "a = takeWhile (\<lambda>x. x \<noteq> c) s" "b = drop 1 (dropWhile (\<lambda>x. x \<noteq> c) s)"
    by (auto simp: cut_char_def split: if_splits)
  have ne: "dropWhile (\<lambda>x. x \<noteq> c) s \<noteq> []" using c by (auto simp: dropWhile_eq_Nil_conv)
  then obtain d ds where d: "dropWhile (\<lambda>x. x \<noteq> c) s = d # ds" by (cases "dropWhile (\<lambda>x. x \<noteq> c) s") auto
  have "d = c" using hd_dropWhile [OF ne] by (simp add: d)
  moreover have "s = takeWhile (\<lambda>x. x \<noteq> c) s @ d # ds" using takeWhile_dropWhile_id [of "\<lambda>x. x \<noteq> c" s] d by simp
  moreover have "c \<notin> set a" using ab(1) by (auto dest: set_takeWhileD)
  ultimately show "c \<notin> set a \<and> s = a @ c # b" using ab d by simp
next
  assume "c \<notin> set a \<and> s = a @ c # b"
  then show "cut_char c s = Some (a, b)"
    by (auto simp: cut_char_def while_cut)
qed

subsection \<open>Package strconv\<close>

definition is_digit :: "char \<Rightarrow> bool" where
  "is_digit c \<longleftrightarrow> CHR ''0'' \<le> c \<and> c \<le> CHR ''9''"

definition digit_val :: "char \<Rightarrow> int" where
  "digit_val c = of_char c - 48"

fun digits_val :: "int \<Rightarrow> string \<Rightarrow> int" where
  "digits_val acc [] = acc"
| "digits_val acc (c # cs) = digits_val (10 * acc + digit_val c) cs"

definition parse_digits :: "string \<Rightarrow> int option" where
  "parse_digits s = (if s \<noteq> [] \<and> list_all is_digit s then Some (digits_val 0 s) else None)"

text \<open>\<open>strconv.ParseInt(s, 10, 64)\<close>: an optional sign, at least one digit, and a value in the
  range of \<open>int64\<close>; \<open>None\<close> is the error return.\<close>

definition parse_int64 :: "string \<Rightarrow> int option" where
  "parse_int64 s =
     (case (case s of
              [] \<Rightarrow> None
            | c # cs \<Rightarrow> if c = CHR ''-'' then map_option uminus (parse_digits cs)
                       else if c = CHR ''+'' then parse_digits cs
                       else parse_digits s) of
        None \<Rightarrow> None
      | Some n \<Rightarrow> if - (2 ^ 63) \<le> n \<and> n < 2 ^ 63 then Some n else None)"

lemma parse_int64_range: "parse_int64 s = Some n \<Longrightarrow> - (2 ^ 63) \<le> n \<and> n < 2 ^ 63"
  by (auto simp: parse_int64_def split: option.splits if_splits list.splits)

lemma parse_int64_Nil [simp]: "parse_int64 [] = None"
  by (simp add: parse_int64_def)
text \<open>\<open>strconv.Itoa\<close>, \<open>strconv.FormatInt(n, 10)\<close> and \<open>%d\<close>.\<close>

definition digit_char :: "nat \<Rightarrow> char" where
  "digit_char n = char_of (48 + n)"

fun nat_text :: "nat \<Rightarrow> string" where
  "nat_text n = (if n < 10 then [digit_char n] else nat_text (n div 10) @ [digit_char (n mod 10)])"

declare nat_text.simps [simp del]

definition int_text :: "int \<Rightarrow> string" where
  "int_text n = (if n < 0 then CHR ''-'' # nat_text (nat (- n)) else nat_text (nat n))"

lemma digit_char_val [simp]: "n < 10 \<Longrightarrow> is_digit (digit_char n) \<and> digit_val (digit_char n) = int n"
proof -
  assume n: "n < 10"
  have "\<forall>n \<in> {0,1,2,3,4,5,6,7,8,9::nat}. is_digit (digit_char n) \<and> digit_val (digit_char n) = int n"
    by code_simp
  moreover have "n \<in> {0,1,2,3,4,5,6,7,8,9::nat}" using n by auto
  ultimately show ?thesis by blast
qed

lemma digits_val_append: "digits_val acc (xs @ [c]) = 10 * digits_val acc xs + digit_val c"
  by (induction xs arbitrary: acc) auto

lemma nat_text_digits: "nat_text n \<noteq> [] \<and> list_all is_digit (nat_text n) \<and> digits_val 0 (nat_text n) = int n"
proof (induction n rule: nat_text.induct)
  case (1 n)
  show ?case
  proof (cases "n < 10")
    case True
    then show ?thesis by (simp add: nat_text.simps)
  next
    case False
    have "10 * int (n div 10) + int (n mod 10) = int n"
      by (metis mult_div_mod_eq of_nat_add of_nat_mult of_nat_numeral)
    then show ?thesis
      using 1 False by (subst (1 2 3) nat_text.simps) (simp add: digits_val_append)
  qed
qed

lemma parse_digits_nat_text [simp]: "parse_digits (nat_text n) = Some (int n)"
  using nat_text_digits [of n] by (simp add: parse_digits_def)

lemma parse_int_text:
  assumes "- (2 ^ 63) \<le> n" "n < 2 ^ 63"
  shows "parse_int64 (int_text n) = Some n"
proof (cases "n < 0")
  case True
  then show ?thesis using assms by (simp add: parse_int64_def int_text_def)
next
  case False
  obtain c cs where c: "nat_text (nat n) = c # cs" "is_digit c"
    using nat_text_digits [of "nat n"] by (cases "nat_text (nat n)") auto
  then have "c \<noteq> CHR ''-''" "c \<noteq> CHR ''+''" by (auto simp: is_digit_def less_eq_char_def)
  then show ?thesis
    using False assms c parse_digits_nat_text [of "nat n"] by (simp add: parse_int64_def int_text_def)
qed

text \<open>\<open>%q\<close>: a double quoted literal. Bytes from 128 on are kept: the strings that reach it are
  valid UTF-8 whose letters are printable.\<close>

definition hex_digit :: "nat \<Rightarrow> char" where
  "hex_digit n = (if n < 10 then char_of (48 + n) else char_of (87 + n))"

definition quote_char :: "char \<Rightarrow> string" where
  "quote_char c =
     (if c = CHR 0x22 then [CHR 0x5C, CHR 0x22]
      else if c = CHR 0x5C then [CHR 0x5C, CHR 0x5C]
      else if c = CHR 0x07 then [CHR 0x5C, CHR ''a'']
      else if c = CHR 0x08 then [CHR 0x5C, CHR ''b'']
      else if c = CHR 0x0C then [CHR 0x5C, CHR ''f'']
      else if c = CHR 0x0A then [CHR 0x5C, CHR ''n'']
      else if c = CHR 0x0D then [CHR 0x5C, CHR ''r'']
      else if c = CHR 0x09 then [CHR 0x5C, CHR ''t'']
      else if c = CHR 0x0B then [CHR 0x5C, CHR ''v'']
      else if of_char c < (32 :: nat) \<or> c = CHR 0x7F
      then [CHR 0x5C, CHR ''x'', hex_digit (of_char c div 16), hex_digit (of_char c mod 16)]
      else [c])"

definition go_quote :: "string \<Rightarrow> string" where
  "go_quote s = [CHR 0x22] @ concat (map quote_char s) @ [CHR 0x22]"

subsection \<open>Package sort\<close>

text \<open>
  \<open>sort.Sort\<close> and \<open>sort.Slice\<close> are not stable: the order of elements with equal keys is not
  specified. A definition that uses them takes the sort as a parameter; the law it relies on is
  that the result is a sorted permutation. \<open>sort.Stable\<close>, \<open>sort.SliceStable\<close> are \<^const>\<open>sort_key\<close>,
  and \<open>sort.Strings\<close> is \<^const>\<open>sort\<close> (equal strings are indistinguishable).
\<close>

definition sorts_by :: "('a \<Rightarrow> 'k::linorder) \<Rightarrow> ('a list \<Rightarrow> 'a list) \<Rightarrow> bool" where
  "sorts_by key srt \<longleftrightarrow> (\<forall>xs. mset (srt xs) = mset xs \<and> sorted (map key (srt xs)))"

lemma sorts_by_sort_key: "sorts_by key (sort_key key)"
  by (simp add: sorts_by_def)

locale unstable_sort =
  fixes key :: "'a \<Rightarrow> 'k::linorder" and srt :: "'a list \<Rightarrow> 'a list"
  assumes srt_mset: "mset (srt xs) = mset xs"
    and srt_sorted: "sorted (map key (srt xs))"
begin

lemma srt_set [simp]: "set (srt xs) = set xs"
  by (metis set_mset_mset srt_mset)

lemma srt_Nil [simp]: "srt [] = []"
  using srt_mset [of "[]"] by simp

lemma srt_length [simp]: "length (srt xs) = length xs"
  by (metis size_mset srt_mset)

lemma srt_singleton [simp]: "srt [x] = [x]"
  using srt_mset [of "[x]"] by simp

text \<open>On distinct keys the result does not depend on the algorithm.\<close>

lemma srt_unique:
  assumes "distinct (map key xs)" "mset ys = mset xs" "sorted (map key ys)"
  shows "srt xs = ys"
proof -
  have inj: "inj_on key (set (srt xs) \<union> set ys)"
    using assms by (metis distinct_map mset_eq_setD srt_set sup.idem)
  have "mset (map key (srt xs)) = mset (map key ys)"
    using assms(2) by (simp add: srt_mset)
  then have "map key (srt xs) = map key ys"
    by (metis assms(3) properties_for_sort srt_sorted)
  then show ?thesis using inj map_inj_on by blast
qed

lemma srt_sorted_id:
  "distinct (map key xs) \<Longrightarrow> sorted (map key xs) \<Longrightarrow> srt xs = xs"
  by (rule srt_unique) auto

end

lemma unstable_sort_iff: "unstable_sort key srt \<longleftrightarrow> sorts_by key srt"
  by (auto simp: unstable_sort_def sorts_by_def)

interpretation stable: unstable_sort key "sort_key key" for key :: "'a \<Rightarrow> 'k::linorder"
  by unfold_locales auto

text \<open>\<open>sort.Slice\<close> with a comparison function, and the case where the comparison compares a key.\<close>

definition sorts_less :: "('a \<Rightarrow> 'a \<Rightarrow> bool) \<Rightarrow> ('a list \<Rightarrow> 'a list) \<Rightarrow> bool" where
  "sorts_less lt srt \<longleftrightarrow> (\<forall>xs. mset (srt xs) = mset xs \<and> sorted_wrt (\<lambda>a b. \<not> lt b a) (srt xs))"

lemma sorts_less_key:
  assumes "\<And>a b. lt a b \<longleftrightarrow> key a < (key b :: 'k::linorder)"
  shows "sorts_less lt srt \<longleftrightarrow> sorts_by key srt"
  by (simp add: sorts_less_def sorts_by_def assms sorted_map not_less)

subsection \<open>Maps iterated in an arbitrary order\<close>

type_synonym ('k, 'v) gomap = "('k \<times> 'v) list"

definition gomap_ok :: "('k, 'v) gomap \<Rightarrow> bool" where
  "gomap_ok m \<longleftrightarrow> distinct (map fst m)"

lemma gomap_ok_simps [simp]:
  "gomap_ok []" "gomap_ok ((k, v) # m) \<longleftrightarrow> k \<notin> fst ` set m \<and> gomap_ok m"
  by (auto simp: gomap_ok_def)

lemma gomap_lookup: "gomap_ok m \<Longrightarrow> map_of m k = Some v \<longleftrightarrow> (k, v) \<in> set m"
  by (simp add: gomap_ok_def)

lemma gomap_unique: "gomap_ok m \<Longrightarrow> (k, v) \<in> set m \<Longrightarrow> (k, w) \<in> set m \<Longrightarrow> v = w"
  by (metis gomap_lookup option.inject)

text \<open>\<open>maps.Copy\<close>, and a loop that copies one map over another.\<close>

definition merge_maps :: "('k, 'v) gomap \<Rightarrow> ('k, 'v) gomap \<Rightarrow> ('k, 'v) gomap" where
  "merge_maps m n = foldl (\<lambda>m (k, v). AList.update k v m) m n"

lemma merge_maps_lookup: "gomap_ok n \<Longrightarrow> map_of (merge_maps m n) = map_of m ++ map_of n"
proof (induction n arbitrary: m)
  case (Cons kv n)
  obtain k v where kv: "kv = (k, v)" by (cases kv)
  have "map_of (merge_maps m (kv # n)) = map_of (AList.update k v m) ++ map_of n"
    using Cons kv by (simp add: merge_maps_def)
  moreover have "map_of n k = None" using Cons.prems kv by (simp add: map_of_eq_None_iff)
  ultimately show ?case using kv by (auto simp: update_conv' map_add_def fun_eq_iff split: option.splits)
qed (simp add: merge_maps_def)

end
