(* ===== verification/Label_Set.thy ===== *)
theory Label_Set
  imports Duty_Prelude
begin

section \<open>Label sets\<close>

text \<open>
  \<^verbatim>\<open>pkg/kube/labels/labels.go\<close>: the \<open>Labels\<close> interface (two accessors), its implementation by
  the map type \<open>Set\<close>, and the operations on sets of labels. A \<open>Set\<close> is a Go map and the code
  ranges over it, so it is an association list with distinct keys in iteration order.
  \<open>validateLabelKey\<close> and \<open>validateLabelValue\<close> call the Kubernetes validation package, which is a
  parameter. The selector conversions of the file are in \<open>Label_Selector\<close>.
\<close>

subsection \<open>The interface\<close>

record label_view =
  has_label :: "string \<Rightarrow> bool"
  get_label :: "string \<Rightarrow> string"

text \<open>What clients of the interface rely on: both accessors read one partial map, and an absent
  label reads as the empty string.\<close>

locale label_source =
  fixes view_of :: "'l \<Rightarrow> label_view" and content :: "'l \<Rightarrow> string \<rightharpoonup> string"
  assumes has_content: "has_label (view_of l) k \<longleftrightarrow> content l k \<noteq> None"
    and get_content: "get_label (view_of l) k = (case content l k of None \<Rightarrow> [] | Some v \<Rightarrow> v)"
begin

lemma get_present: "content l k = Some v \<Longrightarrow> get_label (view_of l) k = v"
  by (simp add: get_content)

lemma value_iff:
  "has_label (view_of l) k \<and> P (get_label (view_of l) k) \<longleftrightarrow> (\<exists>v. content l k = Some v \<and> P v)"
  by (auto simp: has_content get_content)

end

subsection \<open>Set\<close>

type_synonym label_set = "(string, string) gomap"

definition set_has :: "label_set \<Rightarrow> string \<Rightarrow> bool" where
  "set_has ls label = (map_of ls label \<noteq> None)"

definition set_get :: "label_set \<Rightarrow> string \<Rightarrow> string" where
  "set_get ls label = (case map_of ls label of None \<Rightarrow> [] | Some v \<Rightarrow> v)"

definition set_view :: "label_set \<Rightarrow> label_view" where
  "set_view ls = \<lparr>has_label = set_has ls, get_label = set_get ls\<rparr>"

interpretation label_set: label_source set_view map_of
  by unfold_locales (auto simp: set_view_def set_has_def set_get_def)

definition set_string :: "label_set \<Rightarrow> string" where
  "set_string ls = join '','' (sort (map (\<lambda>(k, v). k @ ''='' @ v) ls))"

definition format_labels :: "label_set \<Rightarrow> string" where
  "format_labels m = (let l = set_string m in if l = [] then ''<none>'' else l)"

fun conflicts_loop :: "(string \<rightharpoonup> string) \<Rightarrow> label_set \<Rightarrow> bool" where
  "conflicts_loop big [] = False"
| "conflicts_loop big ((k, v) # small) =
     (case big k of
        Some val \<Rightarrow> if val \<noteq> v then True else conflicts_loop big small
      | None \<Rightarrow> conflicts_loop big small)"

definition conflicts :: "label_set \<Rightarrow> label_set \<Rightarrow> bool" where
  "conflicts labels1 labels2 =
     (if length labels2 < length labels1 then conflicts_loop (map_of labels1) labels2
      else conflicts_loop (map_of labels2) labels1)"

definition merge_labels :: "label_set \<Rightarrow> label_set \<Rightarrow> (string \<rightharpoonup> string)" where
  "merge_labels labels1 labels2 =
     (let merged = foldl (\<lambda>m (k, v). m(k \<mapsto> v)) Map.empty labels1
      in foldl (\<lambda>m (k, v). m(k \<mapsto> v)) merged labels2)"

fun equals_loop :: "(string \<rightharpoonup> string) \<Rightarrow> label_set \<Rightarrow> bool" where
  "equals_loop m [] = True"
| "equals_loop m ((k, v) # ls) =
     (case m k of
        None \<Rightarrow> False
      | Some value \<Rightarrow> if value \<noteq> v then False else equals_loop m ls)"

definition equals_labels :: "label_set \<Rightarrow> label_set \<Rightarrow> bool" where
  "equals_labels labels1 labels2 =
     (if length labels1 \<noteq> length labels2 then False
      else equals_loop (map_of labels2) labels1)"

text \<open>\<open>ConvertSelectorToLabelsMap\<close> returns the map built so far together with the error.\<close>

datatype 'v convert_error = InvalidSelector "string list" | InvalidKey 'v | InvalidValue 'v

fun convert_loop ::
  "(string \<Rightarrow> 'v option) \<Rightarrow> (string \<Rightarrow> string \<Rightarrow> 'v option) \<Rightarrow> (string \<rightharpoonup> string) \<Rightarrow> string list
   \<Rightarrow> (string \<rightharpoonup> string) \<times> 'v convert_error option" where
  "convert_loop vkey vval m [] = (m, None)"
| "convert_loop vkey vval m (label # labels) =
     (let l = split_char (CHR ''='') label in
      if length l \<noteq> 2 then (m, Some (InvalidSelector l))
      else let key = trim_space (l ! 0) in
        case vkey key of
          Some e \<Rightarrow> (m, Some (InvalidKey e))
        | None \<Rightarrow>
            let v = trim_space (l ! 1) in
            case vval key v of
              Some e \<Rightarrow> (m, Some (InvalidValue e))
            | None \<Rightarrow> convert_loop vkey vval (m(key \<mapsto> v)) labels)"

definition convert_selector ::
  "(string \<Rightarrow> 'v option) \<Rightarrow> (string \<Rightarrow> string \<Rightarrow> 'v option) \<Rightarrow> string
   \<Rightarrow> (string \<rightharpoonup> string) \<times> 'v convert_error option" where
  "convert_selector vkey vval selector =
     (if selector = [] then (Map.empty, None)
      else convert_loop vkey vval Map.empty (split_char (CHR '','') selector))"

subsection \<open>Lemmas\<close>

lemma conflicts_loop_iff:
  "conflicts_loop big small \<longleftrightarrow> (\<exists>(k, v) \<in> set small. \<exists>w. big k = Some w \<and> w \<noteq> v)"
  by (induction small) (auto split: option.splits)

lemma equals_loop_iff: "equals_loop m ls \<longleftrightarrow> (\<forall>(k, v) \<in> set ls. m k = Some v)"
  by (induction ls) (auto split: option.splits if_splits)

lemma Ball_gomap: "gomap_ok m \<Longrightarrow> (\<forall>(k, v) \<in> set m. P k v) \<longleftrightarrow> (\<forall>k v. map_of m k = Some v \<longrightarrow> P k v)"
  by (auto simp: gomap_lookup)

lemma Bex_gomap: "gomap_ok m \<Longrightarrow> (\<exists>(k, v) \<in> set m. P k v) \<longleftrightarrow> (\<exists>k v. map_of m k = Some v \<and> P k v)"
  by (auto simp: gomap_lookup)

lemma foldl_upd: "foldl (\<lambda>m (k, v). m(k \<mapsto> v)) m ls = m ++ map_of (rev ls)"
  by (induction ls arbitrary: m) (auto simp: map_add_def split: option.splits)

lemma map_of_rev: "gomap_ok ls \<Longrightarrow> map_of (rev ls) = map_of ls"
  by (rule map_of_inject_set [THEN iffD2]) (auto simp: gomap_ok_def rev_map [symmetric])

lemma gomap_length_dom: "gomap_ok m \<Longrightarrow> length m = card (dom (map_of m))"
  by (metis distinct_card dom_map_of_conv_image_fst gomap_ok_def length_map list.set_map)

lemma conflicts_iff:
  "gomap_ok a \<Longrightarrow> gomap_ok b \<Longrightarrow>
   conflicts a b \<longleftrightarrow> (\<exists>k v w. map_of a k = Some v \<and> map_of b k = Some w \<and> v \<noteq> w)"
  by (auto simp: conflicts_def conflicts_loop_iff Bex_gomap)

text \<open>\<open>Conflicts\<close> is true exactly when some label is in both sets with different values: the
  choice of the smaller set to iterate over, and the iteration order, do not matter.\<close>
theorem conflicts_correct:
  assumes "gomap_ok a" "gomap_ok b"
  shows "conflicts a b \<longleftrightarrow> (\<exists>k v w. map_of a k = Some v \<and> map_of b k = Some w \<and> v \<noteq> w)"
  using assms by (rule conflicts_iff)

theorem conflicts_correct_witness:
  "conflicts [(''a'', ''1''), (''b'', ''2'')] [(''b'', ''3'')]"
  using conflicts_correct [of "[(''a'', ''1''), (''b'', ''2'')]" "[(''b'', ''3'')]"] by auto

lemma merge_labels_eq: "gomap_ok a \<Longrightarrow> gomap_ok b \<Longrightarrow> merge_labels a b = map_of a ++ map_of b"
  by (simp add: merge_labels_def foldl_upd map_of_rev)

text \<open>\<open>Merge\<close> gives the labels of the second set priority, and when \<open>Conflicts\<close> reports no
  conflict the two argument orders give the same map.\<close>
theorem merge_labels_correct:
  assumes "gomap_ok a" "gomap_ok b"
  shows "merge_labels a b = map_of a ++ map_of b \<and>
    (conflicts a b \<or> merge_labels a b = merge_labels b a)"
proof -
  have "merge_labels a b = merge_labels b a" if "\<not> conflicts a b"
    using assms that
    by (force simp: merge_labels_eq conflicts_iff map_add_def fun_eq_iff split: option.splits)
  then show ?thesis using assms by (auto simp: merge_labels_eq)
qed

theorem merge_labels_correct_witness:
  "merge_labels [(''a'', ''1'')] [(''b'', ''3'')] = [''a'' \<mapsto> ''1'', ''b'' \<mapsto> ''3'']"
  using merge_labels_correct [of "[(''a'', ''1'')]" "[(''b'', ''3'')]"]
  by (simp add: map_add_def fun_eq_iff)

text \<open>\<open>Equals\<close> decides equality of the two maps.\<close>
theorem equals_labels_correct:
  assumes "gomap_ok a" "gomap_ok b"
  shows "equals_labels a b \<longleftrightarrow> map_of a = map_of b"
proof
  assume "equals_labels a b"
  then have len: "length a = length b" and sub: "map_of a \<subseteq>\<^sub>m map_of b"
    using assms by (auto simp: equals_labels_def equals_loop_iff map_le_def Ball_gomap
        split: if_splits)
  then have "dom (map_of a) = dom (map_of b)"
    using assms by (metis card_subset_eq finite_dom_map_of gomap_length_dom map_le_implies_dom_le)
  with sub show "map_of a = map_of b"
    by (metis map_le_antisym map_le_def)
next
  assume eq: "map_of a = map_of b"
  then have "length a = length b" using assms by (metis gomap_length_dom)
  with eq assms show "equals_labels a b"
    by (auto simp: equals_labels_def equals_loop_iff Ball_gomap)
qed

theorem equals_labels_correct_witness:
  "equals_labels [(''a'', ''1''), (''b'', ''2'')] [(''b'', ''2''), (''a'', ''1'')]"
  using equals_labels_correct [of "[(''a'', ''1''), (''b'', ''2'')]" "[(''b'', ''2''), (''a'', ''1'')]"]
  by (auto simp: fun_eq_iff)

text \<open>Parsing the printed form of a set.\<close>

definition plain_label :: "string \<times> string \<Rightarrow> bool" where
  "plain_label = (\<lambda>(k, v). list_all (\<lambda>c. c \<notin> {CHR '','', CHR ''='' } \<and> \<not> is_space c) (k @ v))"

lemma plain_labelD:
  assumes "plain_label (k, v)"
  shows "CHR ''='' \<notin> set k" "CHR ''='' \<notin> set v" "CHR '','' \<notin> set (k @ CHR ''='' # v)"
    and "trim_space k = k" "trim_space v = v"
  using assms by (auto simp: plain_label_def list_all_iff intro!: trim_where_no)

lemma plain_label_split:
  "plain_label (k, v) \<Longrightarrow> split_char (CHR ''='') (k @ CHR ''='' # v) = [k, v]"
  by (simp add: plain_labelD split_char_sep split_char_no_sep)

definition printed :: "label_set \<Rightarrow> string list \<Rightarrow> string \<Rightarrow> bool" where
  "printed ls xs k \<longleftrightarrow> (\<exists>v. (k, v) \<in> set ls \<and> k @ ''='' @ v \<in> set xs)"

lemma convert_loop_prints:
  assumes "gomap_ok ls" "list_all plain_label ls"
    and "\<And>k v. (k, v) \<in> set ls \<Longrightarrow> vkey k = None \<and> vval k v = None"
    and "\<forall>x \<in> set xs. \<exists>k v. (k, v) \<in> set ls \<and> x = k @ ''='' @ v"
  shows "convert_loop vkey vval m xs =
    (\<lambda>k. if printed ls xs k then map_of ls k else m k, None)"
  using assms(4)
proof (induction xs arbitrary: m)
  case Nil
  then show ?case by (simp add: printed_def)
next
  case (Cons x xs)
  then obtain k v where kv: "(k, v) \<in> set ls" "x = k @ ''='' @ v" by auto
  from kv assms(2) have pl: "plain_label (k, v)" by (auto simp: list_all_iff)
  have key: "x = k' @ ''='' @ v' \<longleftrightarrow> k' = k \<and> v' = v" if "(k', v') \<in> set ls" for k' v'
  proof
    assume "x = k' @ ''='' @ v'"
    then have eq: "k @ CHR ''='' # v = k' @ CHR ''='' # v'" using kv(2) by simp
    have "plain_label (k', v')" using that assms(2) by (auto simp: list_all_iff)
    from plain_label_split [OF this, folded eq] have "[k, v] = [k', v']"
      unfolding plain_label_split [OF pl] .
    then show "k' = k \<and> v' = v" by simp
  qed (use kv(2) in simp)
  from kv assms(1) have lk: "map_of ls k = Some v" by (simp add: gomap_lookup)
  have step: "convert_loop vkey vval m (x # xs) = convert_loop vkey vval (m(k \<mapsto> v)) xs"
    using kv pl assms(3) by (simp add: plain_label_split plain_labelD)
  have pr: "printed ls (x # xs) k' \<longleftrightarrow> k' = k \<or> printed ls xs k'" for k'
    unfolding printed_def using key kv by (metis list.set_intros(1) list.set_intros(2) set_ConsD)
  have rest: "\<forall>x \<in> set xs. \<exists>k v. (k, v) \<in> set ls \<and> x = k @ ''='' @ v"
    using Cons.prems by simp
  show ?case
    unfolding step Cons.IH [OF rest] pr by (auto simp: lk fun_eq_iff)
qed

text \<open>\<open>ConvertSelectorToLabelsMap\<close> reads back what \<open>Set.String\<close> prints: a set of labels that the
  validators accept and that hold no separator and no white space survives the round trip.\<close>
theorem convert_set_string_roundtrip:
  assumes "gomap_ok ls" "list_all plain_label ls"
    and "\<And>k v. (k, v) \<in> set ls \<Longrightarrow> vkey k = None \<and> vval k v = None"
  shows "convert_selector vkey vval (set_string ls) = (map_of ls, None)"
proof (cases "ls = []")
  case True
  then show ?thesis by (simp add: set_string_def convert_selector_def)
next
  case False
  let ?xs = "sort (map (\<lambda>(k, v). k @ ''='' @ v) ls)"
  have ne: "?xs \<noteq> []" using False by (metis length_0_conv length_map length_sort)
  have form: "\<forall>x \<in> set ?xs. \<exists>k v. (k, v) \<in> set ls \<and> x = k @ ''='' @ v" by force
  have nocomma: "\<forall>x \<in> set ?xs. CHR '','' \<notin> set x"
    using form assms(2) plain_labelD(3) by (fastforce simp: list_all_iff)
  have split: "split_char CHR '','' (set_string ls) = ?xs"
    using split_char_join [OF ne nocomma] by (simp add: set_string_def)
  have "set_string ls \<noteq> []"
  proof
    assume "set_string ls = []"
    with split have "?xs = [[]]" by simp
    then have "[] \<in> set ?xs" by (simp only: list.set_intros)
    with form show False by blast
  qed
  with split have conv: "convert_selector vkey vval (set_string ls) =
      (\<lambda>k. if printed ls ?xs k then map_of ls k else None, None)"
    using convert_loop_prints [OF assms form, where m = Map.empty] by (simp add: convert_selector_def)
  have "printed ls ?xs k \<longleftrightarrow> map_of ls k \<noteq> None" for k
    using assms(1) by (force simp: printed_def gomap_lookup)
  then show ?thesis by (auto simp: conv fun_eq_iff)
qed

theorem convert_set_string_roundtrip_witness:
  "convert_selector (\<lambda>k. if k = [] then Some () else None) (\<lambda>k v. None)
     (set_string [(''b'', ''2''), (''a'', [])]) = (map_of [(''b'', ''2''), (''a'', [])], None)"
  by (rule convert_set_string_roundtrip) (auto simp: plain_label_def is_space_def)

end
