(* ===== verification/Label_Selector.thy ===== *)
theory Label_Selector
  imports Label_Set
begin

section \<open>Label selectors\<close>

text \<open>
  \<^verbatim>\<open>pkg/kube/labels/selector.go\<close>, first half: requirements (construction, matching, printing) and
  the three implementations of the \<open>Selector\<close> interface, which are the constructors of one
  datatype. \<open>selection.Operator\<close> is a string type of the Kubernetes API; its constants are
  constructors and \<open>OpOther\<close> is any other string, so the default branches are reachable. The
  error of \<open>NewRequirement\<close> is the list of the errors it collects. \<open>sort.Sort\<close> is the parameter
  \<open>srt\<close>. A nil selector and an empty one behave alike in every method and are the empty list.
\<close>

subsection \<open>Requirements\<close>

datatype operator =
    OpIn | OpNotIn | OpEquals | OpDoubleEquals | OpNotEquals
  | OpGreaterThan | OpLessThan | OpExists | OpDoesNotExist | OpOther string

record requirement =
  req_key :: string
  req_op :: operator
  req_vals :: "string list"

datatype req_error =
    ValuesEmpty | ValuesNotSingle | ValuesNotEmpty | ValuesNotOne | ValueNotInteger nat
  | OperatorNotSupported operator

definition req_errors :: "operator \<Rightarrow> string list \<Rightarrow> req_error list" where
  "req_errors op vals =
     (case op of
        OpIn \<Rightarrow> if length vals = 0 then [ValuesEmpty] else []
      | OpNotIn \<Rightarrow> if length vals = 0 then [ValuesEmpty] else []
      | OpEquals \<Rightarrow> if length vals \<noteq> 1 then [ValuesNotSingle] else []
      | OpDoubleEquals \<Rightarrow> if length vals \<noteq> 1 then [ValuesNotSingle] else []
      | OpNotEquals \<Rightarrow> if length vals \<noteq> 1 then [ValuesNotSingle] else []
      | OpExists \<Rightarrow> if length vals \<noteq> 0 then [ValuesNotEmpty] else []
      | OpDoesNotExist \<Rightarrow> if length vals \<noteq> 0 then [ValuesNotEmpty] else []
      | OpOther _ \<Rightarrow> [OperatorNotSupported op]
      | _ \<Rightarrow> \<comment> \<open>GreaterThan, LessThan\<close>
          (if length vals \<noteq> 1 then [ValuesNotOne] else []) @
          [ValueNotInteger i. i \<leftarrow> [0..<length vals], parse_int64 (vals ! i) = None])"

definition new_requirement :: "string \<Rightarrow> operator \<Rightarrow> string list \<Rightarrow> requirement \<times> req_error list" where
  "new_requirement key op vals =
     (\<lparr>req_key = key, req_op = op, req_vals = vals\<rparr>, req_errors op vals)"

fun has_value :: "string list \<Rightarrow> string \<Rightarrow> bool" where
  "has_value [] value = False"
| "has_value (x # xs) value = (if x = value then True else has_value xs value)"

definition req_matches :: "requirement \<Rightarrow> label_view \<Rightarrow> bool" where
  "req_matches r ls =
     (if req_op r \<in> {OpIn, OpEquals, OpDoubleEquals} then
        (if \<not> has_label ls (req_key r) then False
         else has_value (req_vals r) (get_label ls (req_key r)))
      else if req_op r \<in> {OpNotIn, OpNotEquals} then
        (if \<not> has_label ls (req_key r) then True
         else \<not> has_value (req_vals r) (get_label ls (req_key r)))
      else if req_op r = OpExists then has_label ls (req_key r)
      else if req_op r = OpDoesNotExist then \<not> has_label ls (req_key r)
      else if req_op r \<in> {OpGreaterThan, OpLessThan} then
        (if \<not> has_label ls (req_key r) then False
         else case parse_int64 (get_label ls (req_key r)) of
             None \<Rightarrow> False
           | Some ls_value \<Rightarrow>
               if length (req_vals r) \<noteq> 1 then False
               else case parse_int64 (req_vals r ! 0) of
                   None \<Rightarrow> False
                 | Some r_value \<Rightarrow>
                     (req_op r = OpGreaterThan \<and> ls_value > r_value) \<or>
                     (req_op r = OpLessThan \<and> ls_value < r_value))
      else False)"

definition req_equal :: "requirement \<Rightarrow> requirement \<Rightarrow> bool" where
  "req_equal r x =
     (if req_key r \<noteq> req_key x then False
      else if req_op r \<noteq> req_op x then False
      else req_vals r = req_vals x)"

definition safe_sort :: "string list \<Rightarrow> string list" where
  "safe_sort xs = (if sorted xs then xs else sort xs)"

definition req_values_string :: "string list \<Rightarrow> string" where
  "req_values_string vals =
     (if length vals = 1 then vals ! 0 else join '','' (safe_sort vals))"

definition op_symbol :: "operator \<Rightarrow> string" where
  "op_symbol op =
     (case op of
        OpEquals \<Rightarrow> ''='' | OpDoubleEquals \<Rightarrow> ''=='' | OpNotEquals \<Rightarrow> ''!=''
      | OpIn \<Rightarrow> '' in '' | OpNotIn \<Rightarrow> '' notin ''
      | OpGreaterThan \<Rightarrow> ''>'' | OpLessThan \<Rightarrow> ''<'' | _ \<Rightarrow> [])"

definition req_string :: "requirement \<Rightarrow> string" where
  "req_string r =
     (let op = req_op r;
          s = (if op = OpDoesNotExist then ''!'' else []) @ req_key r @ op_symbol op
      in if op \<in> {OpExists, OpDoesNotExist} then s
         else s @ (if op \<in> {OpIn, OpNotIn} then ''('' else [])
                @ req_values_string (req_vals r)
                @ (if op \<in> {OpIn, OpNotIn} then '')'' else []))"

subsection \<open>Selectors\<close>

datatype selector =
    NothingSel
  | InternalSel "requirement list"
  | SetSel label_set

definition everything :: selector where
  "everything = InternalSel []"

fun internal_matches :: "requirement list \<Rightarrow> label_view \<Rightarrow> bool" where
  "internal_matches [] l = True"
| "internal_matches (r # rs) l = (if \<not> req_matches r l then False else internal_matches rs l)"

fun set_matches :: "label_set \<Rightarrow> label_view \<Rightarrow> bool" where
  "set_matches [] l = True"
| "set_matches ((k, v) # s) l =
     (if \<not> has_label l k \<or> v \<noteq> get_label l k then False else set_matches s l)"

fun sel_matches :: "selector \<Rightarrow> label_view \<Rightarrow> bool" where
  "sel_matches NothingSel l = False"
| "sel_matches (InternalSel rs) l = internal_matches rs l"
| "sel_matches (SetSel s) l = set_matches s l"

fun sel_empty :: "selector \<Rightarrow> bool" where
  "sel_empty NothingSel = False"
| "sel_empty (InternalSel rs) = (length rs = 0)"
| "sel_empty (SetSel s) = (length s = 0)"

text \<open>\<open>SelectorFromValidatedSet\<close> and, with the errors, \<open>ValidatedSelectorFromSet\<close>.\<close>

definition selector_from_validated_set ::
  "(requirement list \<Rightarrow> requirement list) \<Rightarrow> label_set \<Rightarrow> requirement list" where
  "selector_from_validated_set srt ls =
     (if length ls = 0 then []
      else srt (map (\<lambda>(label, value). \<lparr>req_key = label, req_op = OpEquals, req_vals = [value]\<rparr>) ls))"

fun validated_requirements :: "label_set \<Rightarrow> req_error list + requirement list" where
  "validated_requirements [] = Inr []"
| "validated_requirements ((label, value) # ls) =
     (case new_requirement label OpEquals [value] of
        (r, []) \<Rightarrow> and_then (validated_requirements ls) (\<lambda>rs. Inr (r # rs))
      | (r, errs) \<Rightarrow> Inl errs)"

definition validated_selector_from_set ::
  "(requirement list \<Rightarrow> requirement list) \<Rightarrow> label_set \<Rightarrow> req_error list + selector" where
  "validated_selector_from_set srt ls =
     (if length ls = 0 then Inr (InternalSel [])
      else and_then (validated_requirements ls) (\<lambda>rs. Inr (InternalSel (srt rs))))"

definition internal_string :: "requirement list \<Rightarrow> string" where
  "internal_string rs = join '','' (map req_string rs)"

fun set_sel_print :: "(string \<rightharpoonup> string) \<Rightarrow> bool \<Rightarrow> string list \<Rightarrow> string" where
  "set_sel_print m first [] = []"
| "set_sel_print m first (key # keys) =
     (if first then [] else '','') @ key @ ''='' @ (case m key of Some v \<Rightarrow> v | None \<Rightarrow> [])
     @ set_sel_print m False keys"

definition set_sel_string :: "label_set \<Rightarrow> string" where
  "set_sel_string s = set_sel_print (map_of s) True (sort (map fst s))"

fun sel_string :: "selector \<Rightarrow> string" where
  "sel_string NothingSel = []"
| "sel_string (InternalSel rs) = internal_string rs"
| "sel_string (SetSel s) = set_sel_string s"

fun sel_add :: "(requirement list \<Rightarrow> requirement list) \<Rightarrow> selector \<Rightarrow> requirement list \<Rightarrow> selector" where
  "sel_add srt NothingSel reqs = NothingSel"
| "sel_add srt (InternalSel rs) reqs = InternalSel (srt (rs @ reqs))"
| "sel_add srt (SetSel s) reqs =
     InternalSel (srt (selector_from_validated_set srt s @ reqs))"

fun sel_requirements ::
  "(requirement list \<Rightarrow> requirement list) \<Rightarrow> selector \<Rightarrow> requirement list \<times> bool" where
  "sel_requirements srt NothingSel = ([], False)"
| "sel_requirements srt (InternalSel rs) = (rs, True)"
| "sel_requirements srt (SetSel s) = (selector_from_validated_set srt s, True)"

fun internal_exact :: "requirement list \<Rightarrow> string \<Rightarrow> string option" where
  "internal_exact [] label = None"
| "internal_exact (r # rs) label =
     (if req_key r = label then
        (if req_op r \<in> {OpEquals, OpDoubleEquals, OpIn} \<and> length (req_vals r) = 1
         then Some (req_vals r ! 0) else None)
      else internal_exact rs label)"

fun sel_requires_exact :: "selector \<Rightarrow> string \<Rightarrow> string option" where
  "sel_requires_exact NothingSel label = None"
| "sel_requires_exact (InternalSel rs) label = internal_exact rs label"
| "sel_requires_exact (SetSel s) label = map_of s label"

subsection \<open>What a requirement means\<close>

text \<open>The documented meaning of a requirement, over the partial map the labels stand for.\<close>

definition req_holds :: "requirement \<Rightarrow> (string \<rightharpoonup> string) \<Rightarrow> bool" where
  "req_holds r m \<longleftrightarrow>
     (case req_op r of
        OpIn \<Rightarrow> m (req_key r) \<in> Some ` set (req_vals r)
      | OpEquals \<Rightarrow> m (req_key r) \<in> Some ` set (req_vals r)
      | OpDoubleEquals \<Rightarrow> m (req_key r) \<in> Some ` set (req_vals r)
      | OpNotIn \<Rightarrow> m (req_key r) \<notin> Some ` set (req_vals r)
      | OpNotEquals \<Rightarrow> m (req_key r) \<notin> Some ` set (req_vals r)
      | OpExists \<Rightarrow> req_key r \<in> dom m
      | OpDoesNotExist \<Rightarrow> req_key r \<notin> dom m
      | OpGreaterThan \<Rightarrow> (\<exists>v a w b. m (req_key r) = Some v \<and> parse_int64 v = Some a
          \<and> req_vals r = [w] \<and> parse_int64 w = Some b \<and> a > b)
      | OpLessThan \<Rightarrow> (\<exists>v a w b. m (req_key r) = Some v \<and> parse_int64 v = Some a
          \<and> req_vals r = [w] \<and> parse_int64 w = Some b \<and> a < b)
      | OpOther _ \<Rightarrow> False)"

lemma has_value_iff [simp]: "has_value xs v \<longleftrightarrow> v \<in> set xs"
  by (induction xs) auto

lemma internal_matches_iff: "internal_matches rs l \<longleftrightarrow> (\<forall>r \<in> set rs. req_matches r l)"
  by (induction rs) auto

lemma set_matches_iff:
  "set_matches s l \<longleftrightarrow> (\<forall>(k, v) \<in> set s. has_label l k \<and> get_label l k = v)"
  by (induction s) (auto split: if_splits)

lemma length_one_iff: "length xs = Suc 0 \<longleftrightarrow> (\<exists>x. xs = [x])"
  by (cases xs) auto

context label_source
begin

lemma req_matches_holds: "req_matches r (view_of l) \<longleftrightarrow> req_holds r (content l)"
proof (cases "content l (req_key r)")
  case None
  then show ?thesis
    by (cases "req_op r") (auto simp: req_matches_def req_holds_def has_content get_content)
next
  case (Some v)
  then show ?thesis
    by (cases "req_op r")
      (auto simp: req_matches_def req_holds_def has_content get_content length_one_iff
        split: option.splits)
qed

lemma internal_matches_holds:
  "internal_matches rs (view_of l) \<longleftrightarrow> (\<forall>r \<in> set rs. req_holds r (content l))"
  by (simp add: internal_matches_iff req_matches_holds)

lemma set_matches_holds:
  "gomap_ok s \<Longrightarrow> set_matches s (view_of l) \<longleftrightarrow> map_of s \<subseteq>\<^sub>m content l"
  by (fastforce simp: set_matches_iff has_content get_content map_le_def Ball_gomap dom_def)

end

text \<open>C8: \<open>Requirement.Matches\<close> on a \<open>Set\<close> computes the documented meaning of every operator: membership
  of the value for the equality operators, its complement (an absent label included) for the
  negated ones, presence and absence, and integer comparison for \<open>Gt\<close> and \<open>Lt\<close>; an unknown operator
  matches nothing.\<close>
theorem req_matches_correct: "req_matches r (set_view ls) \<longleftrightarrow> req_holds r (map_of ls)"
  by (rule label_set.req_matches_holds)

lemma eq_requirement_holds:
  "req_holds \<lparr>req_key = k, req_op = OpEquals, req_vals = [v]\<rparr> m \<longleftrightarrow> m k = Some v"
  by (auto simp: req_holds_def)

lemma validated_requirements_eq:
  "validated_requirements ls =
     Inr (map (\<lambda>(label, value). \<lparr>req_key = label, req_op = OpEquals, req_vals = [value]\<rparr>) ls)"
  by (induction ls) (auto simp: new_requirement_def req_errors_def)

lemma validated_selector_from_set_eq:
  "validated_selector_from_set srt ls = Inr (InternalSel (selector_from_validated_set srt ls))"
  by (auto simp: validated_selector_from_set_def selector_from_validated_set_def
      validated_requirements_eq)

subsection \<open>The two selectors built from a set\<close>

text \<open>\<open>SelectorFromValidatedSet\<close> copies the set into requirements; \<open>ValidatedSetSelector\<close> wraps the set
  instead. The comments in the code call the second an optimisation of the first.\<close>

lemma from_set_keys:
  assumes "sorts_by req_key srt" "gomap_ok ls"
  shows "map req_key (selector_from_validated_set srt ls) = sort (map fst ls)"
proof -
  let ?rs = "map (\<lambda>(k, v). \<lparr>req_key = k, req_op = OpEquals, req_vals = [v]\<rparr>) ls"
  from assms(1) have m: "mset (srt ?rs) = mset ?rs" and so: "sorted (map req_key (srt ?rs))"
    by (auto simp: sorts_by_def)
  have keys: "map req_key ?rs = map fst ls" by auto
  from m have "mset (map req_key (srt ?rs)) = mset (map req_key ?rs)"
    by (simp only: mset_map)
  then have "mset (map req_key (srt ?rs)) = mset (map fst ls)"
    by (simp only: keys)
  with so have "sort (map fst ls) = map req_key (srt ?rs)"
    by (intro properties_for_sort) auto
  then show ?thesis by (cases "ls = []") (auto simp: selector_from_validated_set_def)
qed

lemma from_set_members:
  assumes "sorts_by req_key srt"
  shows "set (selector_from_validated_set srt ls) =
    (\<lambda>(k, v). \<lparr>req_key = k, req_op = OpEquals, req_vals = [v]\<rparr>) ` set ls"
proof -
  have "set (srt xs) = set xs" for xs
    using assms unfolding sorts_by_def by (metis mset_eq_setD)
  then show ?thesis by (simp add: selector_from_validated_set_def)
qed

lemma set_sel_print_False:
  "keys \<noteq> [] \<Longrightarrow> set_sel_print m False keys = '','' @ set_sel_print m True keys"
  by (cases keys) auto

lemma set_sel_print_join:
  "set_sel_print m True keys =
     join '','' (map (\<lambda>k. k @ ''='' @ (case m k of Some v \<Rightarrow> v | None \<Rightarrow> [])) keys)"
  by (induction keys) (auto simp: join_Cons set_sel_print_False)

lemma internal_exact_lookup:
  assumes "\<forall>r \<in> set rs. req_op r = OpEquals \<and> (\<exists>v. req_vals r = [v] \<and> m (req_key r) = Some v)"
    and "dom m = req_key ` set rs"
  shows "internal_exact rs label = m label"
proof (cases "label \<in> dom m")
  case True
  with assms(2) have "label \<in> req_key ` set rs" by simp
  then show ?thesis using assms(1) by (induction rs) auto
next
  case False
  then have "label \<notin> req_key ` set rs" using assms(2) by simp
  then have "internal_exact rs label = None" by (induction rs) auto
  with False show ?thesis by (simp add: domIff)
qed

lemma from_set_matches:
  assumes "sorts_by req_key srt" "gomap_ok ls"
  shows "internal_matches (selector_from_validated_set srt ls) (set_view l) \<longleftrightarrow>
    map_of ls \<subseteq>\<^sub>m map_of l"
  using assms(2)
  by (simp add: label_set.internal_matches_holds from_set_members [OF assms(1)] map_le_def
      case_prod_unfold eq_requirement_holds Ball_gomap [where P = "\<lambda>k v. map_of l k = Some v",
        unfolded case_prod_unfold] dom_def) (metis option.inject)

lemma from_set_string:
  assumes "sorts_by req_key srt" "gomap_ok ls"
  shows "internal_string (selector_from_validated_set srt ls) = set_sel_string ls"
proof -
  let ?rs = "selector_from_validated_set srt ls"
  have "req_string r = req_key r @ ''='' @ (case map_of ls (req_key r) of Some v \<Rightarrow> v | None \<Rightarrow> [])"
    if "r \<in> set ?rs" for r
    using that assms(2) by (auto simp: from_set_members [OF assms(1)] req_string_def op_symbol_def
        req_values_string_def gomap_lookup split: option.splits dest: gomap_lookup [THEN iffD2] gomap_unique)
  then have "map req_string ?rs =
      map (\<lambda>k. k @ ''='' @ (case map_of ls k of Some v \<Rightarrow> v | None \<Rightarrow> [])) (map req_key ?rs)"
    by simp
  then show ?thesis
    by (simp add: internal_string_def set_sel_string_def set_sel_print_join
        from_set_keys [OF assms] del: map_map)
qed

lemma from_set_exact:
  assumes "sorts_by req_key srt" "gomap_ok ls"
  shows "internal_exact (selector_from_validated_set srt ls) label = map_of ls label"
  by (rule internal_exact_lookup)
    (use assms(2) in \<open>auto simp: from_set_members [OF assms(1)] gomap_lookup image_image
      case_prod_unfold dom_map_of_conv_image_fst\<close>)

text \<open>C9: The wrapping selector \<open>ValidatedSetSelector\<close> and the copying \<open>SelectorFromValidatedSet\<close> are
  interchangeable: on every set they match the same labels, print the same string, are empty
  together and require the same exact values, whatever order the runtime iterates the map in
  and however the sort breaks ties.\<close>
theorem set_selector_equivalent:
  assumes "sorts_by req_key srt" "gomap_ok ls"
  shows "sel_matches (SetSel ls) (set_view l)
      = sel_matches (InternalSel (selector_from_validated_set srt ls)) (set_view l)
    \<and> sel_string (SetSel ls) = sel_string (InternalSel (selector_from_validated_set srt ls))
    \<and> sel_empty (SetSel ls) = sel_empty (InternalSel (selector_from_validated_set srt ls))
    \<and> sel_requires_exact (SetSel ls) k
      = sel_requires_exact (InternalSel (selector_from_validated_set srt ls)) k"
proof -
  have "length (selector_from_validated_set srt ls) = length ls"
    by (metis from_set_keys [OF assms] length_map length_sort)
  then show ?thesis
    using assms by (simp add: from_set_matches from_set_string from_set_exact
        label_set.set_matches_holds)
qed

theorem set_selector_equivalent_witness:
  "sel_string (SetSel [(''b'', ''2''), (''a'', ''1'')]) = ''a=1,b=2'' \<and>
   sel_string (InternalSel (selector_from_validated_set (sort_key req_key)
     [(''b'', ''2''), (''a'', ''1'')])) = ''a=1,b=2''"
proof -
  have "sel_string (SetSel [(''b'', ''2''), (''a'', ''1'')]) = ''a=1,b=2''" by code_simp
  then show ?thesis
    using set_selector_equivalent [OF sorts_by_sort_key, of "[(''b'', ''2''), (''a'', ''1'')]"]
    by simp
qed

text \<open>\<open>Add\<close> narrows a selector by exactly the added requirements, for each of the three selector
  types and every sort.\<close>
theorem sel_add_matches:
  assumes "sorts_by req_key srt" "case sel of SetSel s \<Rightarrow> gomap_ok s | _ \<Rightarrow> True"
  shows "sel_matches (sel_add srt sel reqs) (set_view l) \<longleftrightarrow>
    sel_matches sel (set_view l) \<and> (\<forall>r \<in> set reqs. req_holds r (map_of l))"
proof -
  have set: "set (srt xs) = set xs" for xs
    using assms(1) unfolding sorts_by_def by (metis mset_eq_setD)
  show ?thesis
  proof (cases sel)
    case (SetSel s)
    then have "gomap_ok s" using assms(2) by simp
    from from_set_matches [OF assms(1) this, of l] show ?thesis
      using SetSel \<open>gomap_ok s\<close>
      by (auto simp: label_set.internal_matches_holds set label_set.set_matches_holds)
  qed (auto simp: label_set.internal_matches_holds set)
qed

theorem sel_add_matches_witness:
  "sel_matches (sel_add (sort_key req_key) (SetSel [(''a'', ''1'')])
     [\<lparr>req_key = ''b'', req_op = OpExists, req_vals = []\<rparr>]) (set_view [(''a'', ''1''), (''b'', [])])"
  using sel_add_matches [OF sorts_by_sort_key, of "SetSel [(''a'', ''1'')]"
    "[\<lparr>req_key = ''b'', req_op = OpExists, req_vals = []\<rparr>]" "[(''a'', ''1''), (''b'', [])]"]
  by (simp add: req_holds_def set_view_def set_has_def set_get_def)

end
