(* ===== verification/Label_Parser.thy ===== *)
theory Label_Parser
  imports Label_Selector
begin

section \<open>The selector parser\<close>

text \<open>
  \<^verbatim>\<open>pkg/kube/labels/selector.go\<close>, second half: the byte-wise lexer and the recursive descent
  parser. The lexer's state is its record, passed through every read. The parser's token array
  does not change once it is scanned, so only the position is threaded; an access outside the
  array, which is a panic in Go, is the error \<open>IndexPanic\<close>. Error messages are constructors with
  the literal they report. Loops are functions with a termination proof.
\<close>

subsection \<open>Lexer\<close>

datatype token =
    ErrorToken | EndOfStringToken | ClosedParToken | CommaToken | DoesNotExistToken
  | DoubleEqualsToken | EqualsToken | GreaterThanToken | IdentifierToken | InToken
  | LessThanToken | NotEqualsToken | NotInToken | OpenParToken

definition string2token :: "string \<rightharpoonup> token" where
  "string2token = map_of [('')'', ClosedParToken), ('','', CommaToken), (''!'', DoesNotExistToken),
     (''=='', DoubleEqualsToken), (''='', EqualsToken), (''>'', GreaterThanToken),
     (''in'', InToken), (''<'', LessThanToken), (''!='', NotEqualsToken),
     (''notin'', NotInToken), (''('', OpenParToken)]"

type_synonym scanned_item = "token \<times> string"

definition is_whitespace :: "char \<Rightarrow> bool" where
  "is_whitespace ch \<longleftrightarrow>
     ch = CHR '' '' \<or> ch = CHR 0x09 \<or> ch = CHR 0x0D \<or> ch = CHR 0x0A"

definition is_special :: "char \<Rightarrow> bool" where
  "is_special ch \<longleftrightarrow> ch \<in> {CHR ''='', CHR ''!'', CHR ''('', CHR '')'', CHR '','', CHR ''>'', CHR ''<''}"

definition nul :: char where
  "nul = CHR 0x00"

record lexer =
  lex_s :: string
  lex_pos :: nat

definition lex_read :: "lexer \<Rightarrow> char \<times> lexer" where
  "lex_read l =
     (if lex_pos l < length (lex_s l)
      then (lex_s l ! lex_pos l, l\<lparr>lex_pos := lex_pos l + 1\<rparr>)
      else (nul, l))"

definition lex_unread :: "lexer \<Rightarrow> lexer" where
  "lex_unread l = l\<lparr>lex_pos := lex_pos l - 1\<rparr>"

definition lex_left :: "lexer \<Rightarrow> nat" where
  "lex_left l = length (lex_s l) - lex_pos l"

lemma lex_read_left: "(ch, l') = lex_read l \<Longrightarrow> ch \<noteq> nul \<Longrightarrow> lex_left l' < lex_left l"
  by (auto simp: lex_read_def lex_left_def split: if_splits)

function scan_id_loop :: "lexer \<Rightarrow> string \<Rightarrow> string \<times> lexer" where
  "scan_id_loop l buffer =
     (case lex_read l of (ch, l') \<Rightarrow>
        if ch = nul then (buffer, l')
        else if is_special ch \<or> is_whitespace ch then (buffer, lex_unread l')
        else scan_id_loop l' (buffer @ [ch]))"
  by pat_completeness auto
termination
  by (relation "measure (\<lambda>(l, b). lex_left l)") (auto simp: lex_read_left)

definition scan_id_or_keyword :: "lexer \<Rightarrow> scanned_item \<times> lexer" where
  "scan_id_or_keyword l =
     (case scan_id_loop l [] of (s, l') \<Rightarrow>
        case string2token s of
          Some val \<Rightarrow> ((val, s), l')
        | None \<Rightarrow> ((IdentifierToken, s), l'))"

function scan_special_loop :: "lexer \<Rightarrow> string \<Rightarrow> scanned_item \<Rightarrow> string \<times> scanned_item \<times> lexer" where
  "scan_special_loop l buffer item =
     (case lex_read l of (ch, l') \<Rightarrow>
        if ch = nul then (buffer, item, l')
        else if is_special ch then
          (let buffer' = buffer @ [ch] in
           case string2token buffer' of
             Some token \<Rightarrow> scan_special_loop l' buffer' (token, buffer')
           | None \<Rightarrow>
               if fst item \<noteq> ErrorToken then (buffer', item, lex_unread l')
               else scan_special_loop l' buffer' item)
        else (buffer, item, lex_unread l'))"
  by pat_completeness auto
termination
  by (relation "measure (\<lambda>(l, b, i). lex_left l)") (auto simp: lex_read_left)

definition scan_special_symbol :: "lexer \<Rightarrow> scanned_item \<times> lexer" where
  "scan_special_symbol l =
     (case scan_special_loop l [] (ErrorToken, []) of (buffer, item, l') \<Rightarrow>
        if fst item = ErrorToken
        then ((ErrorToken, ''error expected: keyword found '' @ [CHR 0x27] @ buffer @ [CHR 0x27]), l')
        else (item, l'))"

function skip_whitespaces :: "char \<Rightarrow> lexer \<Rightarrow> char \<times> lexer" where
  "skip_whitespaces ch l =
     (if \<not> is_whitespace ch then (ch, l)
      else case lex_read l of (ch', l') \<Rightarrow> skip_whitespaces ch' l')"
  by pat_completeness auto
termination
  by (relation "measure (\<lambda>(ch, l). lex_left l + (if is_whitespace ch then 1 else 0))")
    (auto simp: lex_read_def lex_left_def nul_def is_whitespace_def split: if_splits)

declare scan_id_loop.simps [simp del] scan_special_loop.simps [simp del] skip_whitespaces.simps [simp del]

definition lex :: "lexer \<Rightarrow> scanned_item \<times> lexer" where
  "lex l =
     (case lex_read l of (c, l0) \<Rightarrow>
      case skip_whitespaces c l0 of (ch, l1) \<Rightarrow>
        if ch = nul then ((EndOfStringToken, []), l1)
        else if is_special ch then scan_special_symbol (lex_unread l1)
        else scan_id_or_keyword (lex_unread l1))"

subsection \<open>The lexer on the rest of the input\<close>

text \<open>
  The same lexer as a function of the bytes not read yet. It is what the proofs about the
  parser use; \<open>lex_rest\<close> shows that the indexed lexer computes it.
\<close>

definition is_id_char :: "char \<Rightarrow> bool" where
  "is_id_char c \<longleftrightarrow> c \<noteq> nul \<and> \<not> is_special c \<and> \<not> is_whitespace c"

definition lex_rest :: "lexer \<Rightarrow> string" where
  "lex_rest l = drop (lex_pos l) (lex_s l)"

definition at_rest :: "lexer \<Rightarrow> string \<Rightarrow> bool" where
  "at_rest l t \<longleftrightarrow> (\<exists>p. lex_s l = p @ t \<and> lex_pos l = length p)"

lemma at_rest_read:
  "at_rest l [] \<Longrightarrow> lex_read l = (nul, l)"
  "at_rest l (c # t) \<Longrightarrow> \<exists>l'. lex_read l = (c, l') \<and> at_rest l' t \<and> at_rest (lex_unread l') (c # t)"
  by (auto simp: at_rest_def lex_read_def lex_unread_def intro: exI [of _ "_ @ [c]"])

text \<open>Reading past a NUL byte consumes it, as the code does.\<close>

definition drop_nul :: "string \<Rightarrow> string" where
  "drop_nul t = (case t of c # t' \<Rightarrow> if c = nul then t' else t | [] \<Rightarrow> [])"

lemma scan_id_loop_rest:
  "at_rest l t \<Longrightarrow> \<exists>l'. scan_id_loop l b = (b @ takeWhile is_id_char t, l')
     \<and> at_rest l' (drop_nul (dropWhile is_id_char t))"
proof (induction t arbitrary: l b)
  case Nil
  then show ?case
    by (subst scan_id_loop.simps) (simp add: at_rest_read drop_nul_def)
next
  case (Cons c t)
  from at_rest_read(2) [OF Cons.prems] obtain l' where l': "lex_read l = (c, l')" "at_rest l' t"
    "at_rest (lex_unread l') (c # t)" by blast
  then show ?case
    using Cons.IH [OF l'(2), of "b @ [c]"]
    by (subst scan_id_loop.simps) (auto simp: is_id_char_def [of c] drop_nul_def)
qed

lemma string2token_special:
  "is_special c \<Longrightarrow> \<exists>tok. string2token [c] = Some tok \<and> tok \<noteq> ErrorToken"
  by (auto simp: is_special_def string2token_def)

lemma string2token_two:
  "is_special c \<Longrightarrow> is_special d \<Longrightarrow>
   string2token [c, d] = (if [c, d] = ''=='' then Some DoubleEqualsToken
     else if [c, d] = ''!='' then Some NotEqualsToken else None)"
  by (auto simp: is_special_def string2token_def)

lemma string2token_three: "string2token [c, d, e] = None"
  by (auto simp: string2token_def)

text \<open>The symbol at the head of the input: two bytes for \<open>==\<close> and \<open>!=\<close>, one byte otherwise.\<close>

definition symbol_len :: "string \<Rightarrow> nat" where
  "symbol_len t = (if has_prefix ''=='' t \<or> has_prefix ''!='' t then 2 else 1)"

definition symbol_token :: "string \<Rightarrow> scanned_item" where
  "symbol_token t = (the (string2token (take (symbol_len t) t)), take (symbol_len t) t)"

lemma special_not_nul [simp]: "is_special c \<Longrightarrow> c \<noteq> nul"
  by (auto simp: is_special_def nul_def)

lemma not_special_nul [simp]: "\<not> is_special nul"
  using special_not_nul by blast

lemma special_not_ws: "is_special c \<Longrightarrow> \<not> is_whitespace c"
  by (auto simp: is_special_def is_whitespace_def)

lemma ws_not_nul [simp]: "\<not> is_whitespace nul"
  by (auto simp: nul_def is_whitespace_def)

lemma drop_nul_id: "c \<noteq> nul \<Longrightarrow> drop_nul (c # t) = c # t"
  by (simp add: drop_nul_def)

text \<open>One step of the loop on a buffer that already is a token.\<close>

lemma scan_special_step:
  assumes "at_rest l t" "fst item \<noteq> ErrorToken"
    and "\<And>c t'. t = c # t' \<Longrightarrow> is_special c \<Longrightarrow> string2token (b @ [c]) = None"
  shows "\<exists>l' b'. scan_special_loop l b item = (b', item, l') \<and> at_rest l' (drop_nul t)"
proof (cases t)
  case Nil
  then show ?thesis
    using assms by (subst scan_special_loop.simps) (simp add: at_rest_read drop_nul_def)
next
  case (Cons c t')
  with at_rest_read(2) assms(1) obtain l' where "lex_read l = (c, l')" "at_rest l' t'"
    "at_rest (lex_unread l') (c # t')" by blast
  with Cons assms show ?thesis
    by (subst scan_special_loop.simps) (auto simp: drop_nul_def)
qed

lemma scan_special_rest:
  assumes "at_rest l (c # t)" "is_special c"
  shows "\<exists>l'. scan_special_symbol l = (symbol_token (c # t), l')
    \<and> at_rest l' (drop_nul (drop (symbol_len (c # t)) (c # t)))"
proof -
  obtain tok where tok: "string2token [c] = Some tok" "tok \<noteq> ErrorToken"
    using string2token_special [OF assms(2)] by blast
  from at_rest_read(2) [OF assms(1)] obtain l1 where l1: "lex_read l = (c, l1)" "at_rest l1 t"
    by blast
  have first: "scan_special_loop l [] (ErrorToken, []) = scan_special_loop l1 [c] (tok, [c])"
    using l1 tok assms(2) by (subst scan_special_loop.simps) (simp add: Let_def)
  show ?thesis
  proof (cases "has_prefix ''=='' (c # t) \<or> has_prefix ''!='' (c # t)")
    case True
    then obtain t' where t: "t = CHR ''='' # t'" and c: "c = CHR ''='' \<or> c = CHR ''!''"
      by (cases t) auto
    obtain tok2 where tok2: "string2token [c, CHR ''=''] = Some tok2" "tok2 \<noteq> ErrorToken"
      using c by (auto simp: string2token_def)
    from at_rest_read(2) [OF l1(2) [unfolded t]] obtain l2 where
      l2: "lex_read l1 = (CHR ''='', l2)" "at_rest l2 t'" by blast
    have "scan_special_loop l1 [c] (tok, [c]) = scan_special_loop l2 [c, CHR ''=''] (tok2, [c, CHR ''=''])"
      using l2 tok2 by (subst scan_special_loop.simps) (simp add: is_special_def Let_def)
    then show ?thesis
      using scan_special_step [OF l2(2), of "(tok2, [c, CHR ''=''])" "[c, CHR ''='']"]
        first tok2 True t
      by (auto simp: scan_special_symbol_def symbol_token_def symbol_len_def string2token_three)
  next
    case False
    then have one: "string2token ([c] @ [d]) = None" if "t = d # t'" "is_special d" for d t'
      using that assms(2) by (auto simp: string2token_two)
    have "\<exists>l' b'. scan_special_loop l1 [c] (tok, [c]) = (b', (tok, [c]), l') \<and> at_rest l' (drop_nul t)"
      by (rule scan_special_step [OF l1(2)]) (use tok(2) one in auto)
    then obtain l' b' where "scan_special_loop l1 [c] (tok, [c]) = (b', (tok, [c]), l')"
      "at_rest l' (drop_nul t)" by blast
    moreover have "symbol_len (c # t) = 1" using False by (simp add: symbol_len_def)
    ultimately show ?thesis
      using first tok by (simp add: scan_special_symbol_def symbol_token_def)
  qed
qed

lemma skip_rest:
  "at_rest l t \<Longrightarrow> \<exists>l'. (case lex_read l of (c, l0) \<Rightarrow> skip_whitespaces c l0)
      = (case dropWhile is_whitespace t of [] \<Rightarrow> nul | c # _ \<Rightarrow> c, l')
     \<and> (case dropWhile is_whitespace t of [] \<Rightarrow> at_rest l' []
        | c # t' \<Rightarrow> at_rest l' t' \<and> at_rest (lex_unread l') (c # t'))"
proof (induction t arbitrary: l)
  case Nil
  then show ?case by (simp add: at_rest_read skip_whitespaces.simps)
next
  case (Cons c t)
  from at_rest_read(2) [OF Cons.prems] obtain l' where l': "lex_read l = (c, l')" "at_rest l' t"
    "at_rest (lex_unread l') (c # t)" by blast
  then show ?case
    using Cons.IH [OF l'(2)] by (auto simp: skip_whitespaces.simps [of c])
qed

definition word_token :: "string \<Rightarrow> scanned_item" where
  "word_token w = (case string2token w of Some val \<Rightarrow> (val, w) | None \<Rightarrow> (IdentifierToken, w))"

definition lex_step :: "string \<Rightarrow> scanned_item \<times> string" where
  "lex_step t =
     (let t1 = dropWhile is_whitespace t in
      case t1 of
        [] \<Rightarrow> ((EndOfStringToken, []), [])
      | c # t2 \<Rightarrow>
          if c = nul then ((EndOfStringToken, []), t2)
          else if is_special c then (symbol_token t1, drop_nul (drop (symbol_len t1) t1))
          else (word_token (takeWhile is_id_char t1), drop_nul (dropWhile is_id_char t1)))"

lemma lex_at_rest:
  assumes "at_rest l t"
  shows "\<exists>l'. lex l = (fst (lex_step t), l') \<and> at_rest l' (snd (lex_step t))"
proof -
  from skip_rest [OF assms] obtain l1 where
    skip: "(case lex_read l of (c, l0) \<Rightarrow> skip_whitespaces c l0)
      = (case dropWhile is_whitespace t of [] \<Rightarrow> nul | c # _ \<Rightarrow> c, l1)"
    and rest: "case dropWhile is_whitespace t of [] \<Rightarrow> at_rest l1 []
        | c # t' \<Rightarrow> at_rest l1 t' \<and> at_rest (lex_unread l1) (c # t')"
    by blast
  obtain c0 l0 where rd: "lex_read l = (c0, l0)" by fastforce
  show ?thesis
  proof (cases "dropWhile is_whitespace t")
    case Nil
    show ?thesis
      using skip [unfolded Nil] rest [unfolded Nil] rd unfolding lex_def lex_step_def Nil Let_def
      by simp
  next
    case (Cons c t2)
    then have ws: "\<not> is_whitespace c" by (metis dropWhile_eq_Cons_conv)
    from Cons rest have r: "at_rest l1 t2" "at_rest (lex_unread l1) (c # t2)" by auto
    show ?thesis
      using skip [unfolded Cons] rd r scan_special_rest [OF r(2)]
        scan_id_loop_rest [OF r(2), of "[]"]
      unfolding lex_def lex_step_def Cons Let_def
      by (auto simp: scan_id_or_keyword_def word_token_def split: option.splits)
  qed
qed

lemma symbol_token_ok:
  assumes "is_special c"
  shows "fst (symbol_token (c # t)) \<notin> {ErrorToken, EndOfStringToken, IdentifierToken, InToken, NotInToken}"
  using assms by (cases t) (auto simp: symbol_token_def symbol_len_def is_special_def string2token_def)

lemma word_token_ok: "fst (word_token w) \<notin> {ErrorToken, EndOfStringToken}"
  by (auto simp: word_token_def string2token_def split: option.splits if_splits)

lemma lex_step_ok: "fst (fst (lex_step t)) \<noteq> ErrorToken"
  using symbol_token_ok word_token_ok
  by (auto simp: lex_step_def Let_def split: list.splits)

lemma lex_step_end:
  assumes "fst (fst (lex_step t)) = EndOfStringToken"
  shows "fst (lex_step t) = (EndOfStringToken, [])"
proof (cases "dropWhile is_whitespace t")
  case Nil
  show ?thesis unfolding lex_step_def Nil by simp
next
  case (Cons c t2)
  then show ?thesis
    using assms symbol_token_ok [of c t2] word_token_ok
    by (auto simp: lex_step_def Let_def split: if_splits)
qed

lemma length_drop_nul: "length (drop_nul t) \<le> length t"
  by (cases t) (auto simp: drop_nul_def)

lemma lex_step_shorter:
  assumes "fst (fst (lex_step t)) \<noteq> EndOfStringToken"
  shows "length (snd (lex_step t)) < length t"
proof -
  let ?t1 = "dropWhile is_whitespace t"
  from assms obtain c t2 where t1: "?t1 = c # t2"
    by (cases ?t1) (auto simp: lex_step_def)
  have le: "length ?t1 \<le> length t" by (rule length_dropWhile_le)
  have "length (drop_nul (drop (symbol_len (c # t2)) (c # t2))) < length (c # t2)"
    using length_drop_nul [of "drop (symbol_len (c # t2)) (c # t2)"]
    by (auto simp: symbol_len_def split: if_splits)
  moreover have "length (drop_nul (dropWhile is_id_char (c # t2))) < length (c # t2)"
    if "is_id_char c"
    using that length_drop_nul [of "dropWhile is_id_char (c # t2)"]
      length_dropWhile_le [of is_id_char t2] by simp
  moreover have "\<not> is_whitespace c" using t1 by (metis dropWhile_eq_Cons_conv)
  ultimately show ?thesis
    using assms t1 le by (auto simp: lex_step_def is_id_char_def Let_def split: if_splits)
qed

lemma lex_left_rest: "at_rest l t \<Longrightarrow> lex_left l = length t"
  by (auto simp: at_rest_def lex_left_def)

lemma at_rest_lex_rest: "lex_pos l \<le> length (lex_s l) \<Longrightarrow> at_rest l (lex_rest l)"
  by (auto simp: at_rest_def lex_rest_def intro: exI [of _ "take (lex_pos l) (lex_s l)"])

lemma lex_past_end: "\<not> lex_pos l \<le> length (lex_s l) \<Longrightarrow> lex l = ((EndOfStringToken, []), l)"
  by (simp add: lex_def lex_read_def skip_whitespaces.simps)

lemma lex_progress:
  assumes "lex l = (item, l')" "fst item \<noteq> EndOfStringToken"
  shows "lex_left l' < lex_left l"
proof (cases "lex_pos l \<le> length (lex_s l)")
  case True
  note r = at_rest_lex_rest [OF this]
  from lex_at_rest [OF r] assms have "item = fst (lex_step (lex_rest l))"
    "at_rest l' (snd (lex_step (lex_rest l)))" by auto
  then show ?thesis
    using assms(2) r lex_step_shorter lex_left_rest by metis
next
  case False
  then show ?thesis using assms by (auto simp: lex_past_end)
qed

function scan :: "lexer \<Rightarrow> scanned_item list" where
  "scan l =
     (case lex l of (item, l') \<Rightarrow>
        item # (if fst item = EndOfStringToken then [] else scan l'))"
  by pat_completeness auto
termination
  by (relation "measure lex_left") (auto dest: lex_progress [OF sym])

declare scan.simps [simp del]

function tokens :: "string \<Rightarrow> scanned_item list" where
  "tokens t =
     (fst (lex_step t) #
        (if fst (fst (lex_step t)) = EndOfStringToken then [] else tokens (snd (lex_step t))))"
  by pat_completeness auto
termination
  by (relation "measure length") (auto dest: lex_step_shorter)

declare tokens.simps [simp del]

lemma scan_tokens: "at_rest l t \<Longrightarrow> scan l = tokens t"
proof (induction t arbitrary: l rule: tokens.induct)
  case (1 t)
  from lex_at_rest [OF "1.prems"] obtain l' where
    "lex l = (fst (lex_step t), l')" "at_rest l' (snd (lex_step t))" by blast
  with "1.IH" show ?case by (subst scan.simps, subst tokens.simps) simp
qed

lemma scan_tokens_shape:
  "\<exists>items. scan \<lparr>lex_s = s, lex_pos = 0\<rparr> = items @ [(EndOfStringToken, [])]
     \<and> (\<forall>item \<in> set items. fst item \<notin> {EndOfStringToken, ErrorToken})"
proof -
  have "\<exists>items. tokens t = items @ [(EndOfStringToken, [])]
     \<and> (\<forall>item \<in> set items. fst item \<notin> {EndOfStringToken, ErrorToken})" for t
  proof (induction t rule: tokens.induct)
    case (1 t)
    show ?case
    proof (cases "fst (fst (lex_step t)) = EndOfStringToken")
      case True
      then have "fst (lex_step t) = (EndOfStringToken, [])"
        using lex_step_end by blast
      then show ?thesis by (subst tokens.simps) auto
    next
      case False
      with 1 obtain items where "tokens (snd (lex_step t)) = items @ [(EndOfStringToken, [])]"
        "\<forall>item \<in> set items. fst item \<notin> {EndOfStringToken, ErrorToken}" by blast
      with False show ?thesis
        using lex_step_ok by (subst tokens.simps)
          (auto intro!: exI [of _ "fst (lex_step t) # items"])
    qed
  qed
  moreover have "scan \<lparr>lex_s = s, lex_pos = 0\<rparr> = tokens s"
    by (rule scan_tokens) (simp add: at_rest_def)
  ultimately show ?thesis by simp
qed

text \<open>The lexer on its whole input: it stops, the token list ends in the end-of-string token and
  holds it nowhere else, and no input makes it produce an error token, so the error branch of
  \<open>scanSpecialSymbol\<close> is never taken.\<close>
theorem scan_shape:
  "\<exists>items. scan \<lparr>lex_s = s, lex_pos = 0\<rparr> = items @ [(EndOfStringToken, [])]
     \<and> list_all (\<lambda>item. fst item \<notin> {EndOfStringToken, ErrorToken}) items"
  using scan_tokens_shape [of s] by (simp add: list_all_iff)

subsection \<open>Parser\<close>

datatype parse_error =
    IndexPanic
  | UnableToParse parse_error
  | FoundExpectedIdentifier string
  | FoundExpectedIdentifierAfterComma string
  | FoundExpectedCommaOrEnd string
  | FoundExpectedStart string
  | FoundExpectedOperator string
  | FoundExpectedOpenPar string
  | FoundExpectedClosedPar string
  | FoundExpectedCommaParOrIdentifier string
  | FoundExpectedCommaOrClosedPar string
  | FoundExpectedCommaOrIdentifier string
  | InvalidRequirement "req_error list"

datatype parser_context = KeyAndOperator | Values

definition in_context :: "parser_context \<Rightarrow> token \<Rightarrow> token" where
  "in_context context tok =
     (if context = Values then
        (if tok = InToken \<or> tok = NotInToken then IdentifierToken else tok)
      else tok)"

definition lookahead ::
  "scanned_item list \<Rightarrow> nat \<Rightarrow> parser_context \<Rightarrow> parse_error + scanned_item" where
  "lookahead items pos context =
     (if pos < length items
      then Inr (in_context context (fst (items ! pos)), snd (items ! pos))
      else Inl IndexPanic)"

definition consume ::
  "scanned_item list \<Rightarrow> nat \<Rightarrow> parser_context \<Rightarrow> parse_error + (scanned_item \<times> nat)" where
  "consume items pos context =
     and_then (lookahead items pos context) (\<lambda>item. Inr (item, pos + 1))"

text \<open>\<open>sets.String\<close>: insertion into a duplicate-free list; \<open>List()\<close> sorts it.\<close>

definition string_set_insert :: "string \<Rightarrow> string list \<Rightarrow> string list" where
  "string_set_insert x s = (if x \<in> set s then s else s @ [x])"

definition parse_key_and_infer_operator ::
  "scanned_item list \<Rightarrow> nat \<Rightarrow> parse_error + (string \<times> operator \<times> nat)" where
  "parse_key_and_infer_operator items pos =
     and_then (consume items pos Values) (\<lambda>((tok, literal), pos1).
     and_then (if tok = DoesNotExistToken
               then and_then (consume items pos1 Values) (\<lambda>(item, pos2). Inr (OpDoesNotExist, item, pos2))
               else Inr (OpOther [], (tok, literal), pos1)) (\<lambda>(operator, (tok, literal), pos2).
       if tok \<noteq> IdentifierToken then Inl (FoundExpectedIdentifier literal)
       else and_then (lookahead items pos2 Values) (\<lambda>(t, _).
         Inr (literal,
              (if (t = EndOfStringToken \<or> t = CommaToken) \<and> operator \<noteq> OpDoesNotExist
               then OpExists else operator),
              pos2))))"

definition parse_operator ::
  "scanned_item list \<Rightarrow> nat \<Rightarrow> parse_error + (operator \<times> nat)" where
  "parse_operator items pos =
     and_then (consume items pos KeyAndOperator) (\<lambda>((tok, lit), pos1).
       case tok of
         InToken \<Rightarrow> Inr (OpIn, pos1)
       | EqualsToken \<Rightarrow> Inr (OpEquals, pos1)
       | DoubleEqualsToken \<Rightarrow> Inr (OpDoubleEquals, pos1)
       | GreaterThanToken \<Rightarrow> Inr (OpGreaterThan, pos1)
       | LessThanToken \<Rightarrow> Inr (OpLessThan, pos1)
       | NotInToken \<Rightarrow> Inr (OpNotIn, pos1)
       | NotEqualsToken \<Rightarrow> Inr (OpNotEquals, pos1)
       | _ \<Rightarrow> Inl (FoundExpectedOperator lit))"

lemma lookahead_Inr: "lookahead items pos c = Inr item \<longleftrightarrow>
    pos < length items \<and> item = (in_context c (fst (items ! pos)), snd (items ! pos))"
  by (auto simp: lookahead_def)

lemma consume_Inr: "consume items pos c = Inr (item, pos') \<longleftrightarrow>
    lookahead items pos c = Inr item \<and> pos' = pos + 1"
  by (cases item) (auto simp: consume_def and_then_Inr_iff)

lemma consume_less: "consume items pos c = Inr (item, pos') \<Longrightarrow> pos' = pos + 1 \<and> pos < length items"
  by (auto simp: consume_def lookahead_def split: if_splits)

function parse_identifiers_list ::
  "scanned_item list \<Rightarrow> nat \<Rightarrow> string list \<Rightarrow> parse_error + (string list \<times> nat)" where
  "parse_identifiers_list items pos s =
     (case consume items pos Values of
        Inl e \<Rightarrow> Inl e
      | Inr ((tok, lit), pos1) \<Rightarrow>
          if tok = IdentifierToken then
            (let s1 = string_set_insert lit s in
             and_then (lookahead items pos1 Values) (\<lambda>(tok2, lit2).
               if tok2 = CommaToken then parse_identifiers_list items pos1 s1
               else if tok2 = ClosedParToken then Inr (s1, pos1)
               else Inl (FoundExpectedCommaOrClosedPar lit2)))
          else if tok = CommaToken then
            (let s1 = (if length s = 0 then string_set_insert [] s else s) in
             and_then (lookahead items pos1 Values) (\<lambda>(tok2, _).
               if tok2 = ClosedParToken then Inr (string_set_insert [] s1, pos1)
               else if tok2 = CommaToken
                 then parse_identifiers_list items (pos1 + 1) (string_set_insert [] s1)
               else parse_identifiers_list items pos1 s1))
          else Inl (FoundExpectedCommaOrIdentifier lit))"
  by pat_completeness auto
termination
  by (relation "measure (\<lambda>(items, pos, s). length items - pos)") (auto dest: consume_less)

declare parse_identifiers_list.simps [simp del]

definition parse_values ::
  "scanned_item list \<Rightarrow> nat \<Rightarrow> parse_error + (string list \<times> nat)" where
  "parse_values items pos =
     and_then (consume items pos Values) (\<lambda>((tok, lit), pos1).
       if tok \<noteq> OpenParToken then Inl (FoundExpectedOpenPar lit)
       else and_then (lookahead items pos1 Values) (\<lambda>(tok, lit).
         if tok = IdentifierToken \<or> tok = CommaToken then
           and_then (parse_identifiers_list items pos1 []) (\<lambda>(s, pos2).
           and_then (consume items pos2 Values) (\<lambda>((tok3, _), pos3).
             if tok3 \<noteq> ClosedParToken then Inl (FoundExpectedClosedPar lit) else Inr (s, pos3)))
         else if tok = ClosedParToken then
           and_then (consume items pos1 Values) (\<lambda>(_, pos2). Inr ([[]], pos2))
         else Inl (FoundExpectedCommaParOrIdentifier lit)))"

definition parse_exact_value ::
  "scanned_item list \<Rightarrow> nat \<Rightarrow> parse_error + (string list \<times> nat)" where
  "parse_exact_value items pos =
     and_then (lookahead items pos Values) (\<lambda>(tok, _).
       if tok = EndOfStringToken \<or> tok = CommaToken then Inr ([[]], pos)
       else and_then (consume items pos Values) (\<lambda>((tok, lit), pos1).
         if tok = IdentifierToken then Inr ([lit], pos1)
         else Inl (FoundExpectedIdentifier lit)))"

definition checked_requirement ::
  "string \<Rightarrow> operator \<Rightarrow> string list \<Rightarrow> nat \<Rightarrow> parse_error + (requirement \<times> nat)" where
  "checked_requirement key op vals pos =
     (case new_requirement key op vals of
        (r, []) \<Rightarrow> Inr (r, pos)
      | (_, errs) \<Rightarrow> Inl (InvalidRequirement errs))"

definition parse_requirement ::
  "scanned_item list \<Rightarrow> nat \<Rightarrow> parse_error + (requirement \<times> nat)" where
  "parse_requirement items pos =
     and_then (parse_key_and_infer_operator items pos) (\<lambda>(key, operator, pos1).
       if operator = OpExists \<or> operator = OpDoesNotExist
       then checked_requirement key operator [] pos1
       else and_then (parse_operator items pos1) (\<lambda>(operator, pos2).
         and_then (if operator \<in> {OpIn, OpNotIn} then parse_values items pos2
                   else if operator \<in> {OpEquals, OpDoubleEquals, OpNotEquals,
                          OpGreaterThan, OpLessThan} then parse_exact_value items pos2
                   else Inr ([], pos2)) (\<lambda>(values, pos3).
           checked_requirement key operator (sort values) pos3)))"

lemma lookahead_consume: "lookahead items pos c = Inr item \<Longrightarrow> consume items pos c = Inr (item, pos + 1)"
  by (simp add: consume_def)

lemma parse_key_pos:
  "parse_key_and_infer_operator items pos = Inr (k, op, pos') \<Longrightarrow> pos < pos'"
  by (auto simp: parse_key_and_infer_operator_def and_then_Inr_iff consume_Inr split: if_splits)

text \<open>The list parser, with its two reads resolved at a valid position.\<close>

lemma parse_identifiers_list_at:
  assumes "pos < length items"
  shows "parse_identifiers_list items pos s =
     (let tok = in_context Values (fst (items ! pos)); lit = snd (items ! pos);
          tok2 = in_context Values (fst (items ! Suc pos)); lit2 = snd (items ! Suc pos) in
      if tok \<notin> {IdentifierToken, CommaToken} then Inl (FoundExpectedCommaOrIdentifier lit)
      else if \<not> Suc pos < length items then Inl IndexPanic
      else if tok = IdentifierToken then
        (let s1 = string_set_insert lit s in
         if tok2 = CommaToken then parse_identifiers_list items (Suc pos) s1
         else if tok2 = ClosedParToken then Inr (s1, Suc pos)
         else Inl (FoundExpectedCommaOrClosedPar lit2))
      else
        (let s1 = (if s = [] then [[]] else s) in
         if tok2 = ClosedParToken then Inr (string_set_insert [] s1, Suc pos)
         else if tok2 = CommaToken
           then parse_identifiers_list items (Suc (Suc pos)) (string_set_insert [] s1)
         else parse_identifiers_list items (Suc pos) s1))"
  using assms
  by (subst parse_identifiers_list.simps)
    (simp add: consume_def lookahead_def Let_def string_set_insert_def)

lemma parse_identifiers_list_off: "\<not> pos < length items \<Longrightarrow> parse_identifiers_list items pos s = Inl IndexPanic"
  by (subst parse_identifiers_list.simps) (simp add: consume_def lookahead_def)

lemma parse_identifiers_list_pos:
  "parse_identifiers_list items pos s = Inr (r, pos') \<Longrightarrow> pos < pos' \<and> pos' < length items"
proof (induction "length items - pos" arbitrary: pos s rule: less_induct)
  case less
  have pos: "pos < length items"
    using less.prems parse_identifiers_list_off by (cases "pos < length items") auto
  have IH1: "Suc pos < pos' \<and> pos' < length items"
    if "parse_identifiers_list items (Suc pos) s' = Inr (r, pos')" for s'
    using less.hyps [OF _ that] pos by simp
  have IH2: "Suc (Suc pos) < pos' \<and> pos' < length items"
    if "parse_identifiers_list items (Suc (Suc pos)) s' = Inr (r, pos')" for s'
    using less.hyps [OF _ that] pos by simp
  show ?case
    using less.prems pos
    by (auto simp: parse_identifiers_list_at [OF pos] Let_def split: if_splits dest!: IH1 IH2)
qed

lemma parse_values_pos: "parse_values items pos = Inr (r, pos') \<Longrightarrow> pos < pos'"
  by (auto simp: parse_values_def and_then_Inr_iff consume_Inr split: if_splits
      dest!: parse_identifiers_list_pos)

lemma parse_exact_value_pos: "parse_exact_value items pos = Inr (r, pos') \<Longrightarrow> pos \<le> pos'"
  by (auto simp: parse_exact_value_def and_then_Inr_iff consume_Inr split: if_splits)

lemma parse_operator_pos: "parse_operator items pos = Inr (op, pos') \<Longrightarrow> pos < pos'"
  by (auto simp: parse_operator_def and_then_Inr_iff consume_Inr split: token.splits)
    (metis token.exhaust)

lemma checked_requirement_Inr: "checked_requirement k op vs pos = Inr (r, pos') \<longleftrightarrow>
    r = \<lparr>req_key = k, req_op = op, req_vals = vs\<rparr> \<and> pos' = pos \<and> req_errors op vs = []"
  by (auto simp: checked_requirement_def new_requirement_def split: list.splits)

lemma parse_requirement_pos: "parse_requirement items pos = Inr (r, pos') \<Longrightarrow> pos < pos'"
  by (auto simp: parse_requirement_def and_then_Inr_iff checked_requirement_Inr split: if_splits
      dest!: parse_key_pos parse_operator_pos parse_values_pos parse_exact_value_pos)

text \<open>The main loop. A panic inside \<open>parseRequirement\<close> is not an error value, so it is not wrapped.\<close>

definition unable_to_parse :: "parse_error \<Rightarrow> parse_error" where
  "unable_to_parse e = (if e = IndexPanic then IndexPanic else UnableToParse e)"

function parse_loop ::
  "scanned_item list \<Rightarrow> nat \<Rightarrow> requirement list \<Rightarrow> parse_error + requirement list" where
  "parse_loop items pos requirements =
     and_then (lookahead items pos Values) (\<lambda>(tok, lit).
       if tok = IdentifierToken \<or> tok = DoesNotExistToken then
         (case parse_requirement items pos of
            Inl e \<Rightarrow> Inl (unable_to_parse e)
          | Inr (r, pos1) \<Rightarrow>
              and_then (consume items pos1 Values) (\<lambda>(item, pos2).
                if fst item = EndOfStringToken then Inr (requirements @ [r])
                else if fst item = CommaToken then
                  and_then (lookahead items pos2 Values) (\<lambda>(t2, l2).
                    if t2 \<noteq> IdentifierToken \<and> t2 \<noteq> DoesNotExistToken
                    then Inl (FoundExpectedIdentifierAfterComma l2)
                    else parse_loop items pos2 (requirements @ [r]))
                else Inl (FoundExpectedCommaOrEnd (snd item))))
       else if tok = EndOfStringToken then Inr requirements
       else Inl (FoundExpectedStart lit))"
  by pat_completeness auto
termination
  by (relation "measure (\<lambda>(items, pos, rs). length items - pos)")
    (auto dest!: parse_requirement_pos consume_less)

declare parse_loop.simps [simp del]

definition parse ::
  "(requirement list \<Rightarrow> requirement list) \<Rightarrow> string \<Rightarrow> parse_error + requirement list" where
  "parse srt selector =
     and_then (parse_loop (scan \<lparr>lex_s = selector, lex_pos = 0\<rparr>) 0 [])
       (\<lambda>items. Inr (srt items))"

text \<open>\<open>Parse\<close> and \<open>ParseToRequirements\<close>.\<close>

definition parse_selector ::
  "(requirement list \<Rightarrow> requirement list) \<Rightarrow> string \<Rightarrow> parse_error + selector" where
  "parse_selector srt selector = and_then (parse srt selector) (\<lambda>rs. Inr (InternalSel rs))"

subsection \<open>Every parse ends without a panic in well-formed requirements\<close>

text \<open>What the lexer's output guarantees, and what every parser function keeps: the position stays
  inside the array because reading the end-of-string token is always followed by a return.\<close>

definition eos_ended :: "scanned_item list \<Rightarrow> bool" where
  "eos_ended items \<longleftrightarrow> items \<noteq> [] \<and>
     (\<forall>i < length items. fst (items ! i) = EndOfStringToken \<longleftrightarrow> i = length items - 1)"

lemma eos_ended_scan: "eos_ended (scan \<lparr>lex_s = s, lex_pos = 0\<rparr>)"
proof -
  obtain items where "scan \<lparr>lex_s = s, lex_pos = 0\<rparr> = items @ [(EndOfStringToken, [])]"
    "\<forall>item \<in> set items. fst item \<notin> {EndOfStringToken, ErrorToken}"
    using scan_tokens_shape by blast
  then show ?thesis by (auto simp: eos_ended_def nth_append)
qed

lemma in_context_eos: "in_context c t = EndOfStringToken \<longleftrightarrow> t = EndOfStringToken"
  by (auto simp: in_context_def)

lemma eos_next:
  "eos_ended items \<Longrightarrow> pos < length items \<Longrightarrow> in_context c (fst (items ! pos)) \<noteq> EndOfStringToken
   \<Longrightarrow> Suc pos < length items"
  by (fastforce simp: eos_ended_def in_context_eos)

definition in_bounds :: "scanned_item list \<Rightarrow> parse_error + ('a \<times> nat) \<Rightarrow> bool" where
  "in_bounds items r \<longleftrightarrow>
     (case r of Inl e \<Rightarrow> e \<noteq> IndexPanic | Inr (_, pos) \<Rightarrow> pos < length items)"

lemma lookahead_in: "pos < length items \<Longrightarrow> lookahead items pos c =
    Inr (in_context c (fst (items ! pos)), snd (items ! pos))"
  by (simp add: lookahead_def)

lemma consume_in: "pos < length items \<Longrightarrow> consume items pos c =
    Inr ((in_context c (fst (items ! pos)), snd (items ! pos)), Suc pos)"
  by (simp add: consume_def lookahead_def)

lemmas reads = lookahead_in consume_in

lemma parse_identifiers_list_in_bounds:
  assumes "eos_ended items"
  shows "pos < length items \<Longrightarrow> in_bounds items (parse_identifiers_list items pos s)"
proof (induction "length items - pos" arbitrary: pos s rule: less_induct)
  case less
  note pos = less.prems
  note next1 = eos_next [OF assms pos, of Values]
  show ?case
  proof (cases "Suc pos < length items")
    case True
    have IH1: "in_bounds items (parse_identifiers_list items (Suc pos) s')" for s'
      using less.hyps [of "Suc pos"] True by simp
    have IH2: "in_bounds items (parse_identifiers_list items (Suc (Suc pos)) s')"
      if "in_context Values (fst (items ! Suc pos)) = CommaToken" for s'
      using less.hyps [of "Suc (Suc pos)"] True eos_next [OF assms True, of Values] that by simp
    show ?thesis
      using IH1 IH2 True
      by (simp add: parse_identifiers_list_at [OF pos] Let_def) (simp add: in_bounds_def)
  next
    case False
    with next1 have "in_context Values (fst (items ! pos)) = EndOfStringToken" by blast
    then show ?thesis by (simp add: parse_identifiers_list_at [OF pos] in_bounds_def Let_def)
  qed
qed

lemma parse_values_in_bounds:
  assumes eos: "eos_ended items" and pos: "pos < length items"
  shows "in_bounds items (parse_values items pos)"
proof (cases "in_context Values (fst (items ! pos)) = OpenParToken")
  case True
  then have pos1: "Suc pos < length items" using eos_next [OF eos pos, of Values] by simp
  have list: "in_bounds items (parse_identifiers_list items (Suc pos) [])"
    by (rule parse_identifiers_list_in_bounds [OF eos pos1])
  have closed: "Suc p < length items"
    if "p < length items" "in_context Values (fst (items ! p)) = ClosedParToken" for p
    using eos_next [OF eos that(1), of Values] that(2) by simp
  show ?thesis
    using True pos pos1 list closed
    by (cases "parse_identifiers_list items (Suc pos) []")
      (auto simp: parse_values_def reads in_bounds_def)
next
  case False
  then show ?thesis using pos by (simp add: parse_values_def reads in_bounds_def)
qed

lemma parse_exact_value_in_bounds:
  assumes "eos_ended items" "pos < length items"
  shows "in_bounds items (parse_exact_value items pos)"
  using assms eos_next [OF assms, of Values]
  by (auto simp: parse_exact_value_def reads in_bounds_def)

lemma parse_key_in_bounds:
  assumes eos: "eos_ended items" and pos: "pos < length items"
  shows "case parse_key_and_infer_operator items pos of
     Inl e \<Rightarrow> e \<noteq> IndexPanic | Inr (k, op, pos') \<Rightarrow> pos' < length items"
proof -
  note n1 = eos_next [OF eos pos, of Values]
  have n2: "Suc (Suc pos) < length items"
    if "Suc pos < length items" "in_context Values (fst (items ! Suc pos)) = IdentifierToken"
    using eos_next [OF eos that(1), of Values] that(2) by simp
  show ?thesis
    using n1 n2 pos
    by (cases "in_context Values (fst (items ! pos)) = DoesNotExistToken")
      (auto simp: parse_key_and_infer_operator_def reads)
qed

lemma parse_operator_in_bounds:
  assumes "eos_ended items" "pos < length items"
  shows "in_bounds items (parse_operator items pos)"
  using assms eos_next [OF assms, of KeyAndOperator]
  by (cases "in_context KeyAndOperator (fst (items ! pos))")
    (auto simp: parse_operator_def reads in_bounds_def)

lemma in_bounds_Inl: "in_bounds items r \<Longrightarrow> r = Inl e \<Longrightarrow> e \<noteq> IndexPanic"
  and in_bounds_Inr: "in_bounds items r \<Longrightarrow> r = Inr (x, pos) \<Longrightarrow> pos < length items"
  by (auto simp: in_bounds_def)

lemma checked_requirement_in_bounds:
  "pos < length items \<Longrightarrow> in_bounds items (checked_requirement k op vs pos)"
  by (auto simp: checked_requirement_def new_requirement_def in_bounds_def split: list.splits)

lemma in_bounds_bind:
  assumes "in_bounds items r" "\<And>x pos. pos < length items \<Longrightarrow> in_bounds items (f (x, pos))"
  shows "in_bounds items (and_then r f)"
  using assms by (cases r) (auto simp: in_bounds_def)

lemma parse_requirement_in_bounds:
  assumes eos: "eos_ended items" and pos: "pos < length items"
  shows "in_bounds items (parse_requirement items pos)"
proof -
  have vals: "in_bounds items (if op \<in> {OpIn, OpNotIn} then parse_values items p
      else if op \<in> {OpEquals, OpDoubleEquals, OpNotEquals, OpGreaterThan, OpLessThan}
      then parse_exact_value items p else Inr ([], p))" if "p < length items" for op p
  proof -
    have "in_bounds items (Inr ([] :: string list, p))" using that by (simp add: in_bounds_def)
    then show ?thesis
      using parse_values_in_bounds [OF eos that] parse_exact_value_in_bounds [OF eos that]
      by presburger
  qed
  have bin: "in_bounds items (and_then (parse_operator items p) (\<lambda>(operator, pos2).
         and_then (if operator \<in> {OpIn, OpNotIn} then parse_values items pos2
                   else if operator \<in> {OpEquals, OpDoubleEquals, OpNotEquals,
                          OpGreaterThan, OpLessThan} then parse_exact_value items pos2
                   else Inr ([], pos2)) (\<lambda>(values, pos3).
           checked_requirement k operator (sort values) pos3)))" if "p < length items" for k p
  proof (rule in_bounds_bind [OF parse_operator_in_bounds [OF eos that]], goal_cases)
    case (1 op p2)
    show ?case
      unfolding prod.case
      by (rule in_bounds_bind [OF vals [OF 1]]) (simp only: prod.case checked_requirement_in_bounds)
  qed
  show ?thesis
  proof (cases "parse_key_and_infer_operator items pos")
    case (Inl e)
    then show ?thesis
      using parse_key_in_bounds [OF eos pos] by (simp add: parse_requirement_def in_bounds_def)
  next
    case (Inr x)
    obtain k op p where x: "x = (k, op, p)" by (cases x)
    with Inr have p: "p < length items" using parse_key_in_bounds [OF eos pos] by simp
    show ?thesis
      unfolding parse_requirement_def Inr x and_then.simps prod.case
      using bin [OF p] checked_requirement_in_bounds [OF p] by presburger
  qed
qed

lemma parse_loop_no_panic:
  assumes "eos_ended items"
  shows "pos < length items \<Longrightarrow> parse_loop items pos rs \<noteq> Inl IndexPanic"
proof (induction "length items - pos" arbitrary: pos rs rule: less_induct)
  case less
  note req = parse_requirement_in_bounds [OF assms less.prems]
  show ?case
  proof (cases "parse_requirement items pos")
    case (Inl e)
    with req have "e \<noteq> IndexPanic" by (rule in_bounds_Inl)
    with Inl show ?thesis
      using less.prems by (subst parse_loop.simps) (auto simp: reads unable_to_parse_def)
  next
    case (Inr x)
    obtain r p where x: "x = (r, p)" by (cases x)
    with Inr req have p: "p < length items" by (auto simp: in_bounds_def)
    have "pos < p" using Inr x parse_requirement_pos by simp
    have rest: "Suc p < length items \<and> parse_loop items (Suc p) rs' \<noteq> Inl IndexPanic"
      if "in_context Values (fst (items ! p)) = CommaToken" for rs'
      using less.hyps [of "Suc p"] eos_next [OF assms p, of Values] that p \<open>pos < p\<close> by simp
    show ?thesis
      using less.prems Inr x p rest by (subst parse_loop.simps) (auto simp: reads)
  qed
qed

subsubsection \<open>What a parsed requirement looks like\<close>

definition req_ok :: "requirement \<Rightarrow> bool" where
  "req_ok r \<longleftrightarrow> req_errors (req_op r) (req_vals r) = [] \<and> sorted (req_vals r) \<and> distinct (req_vals r)"

lemma parse_identifiers_list_distinct:
  "parse_identifiers_list items pos s = Inr (r, pos') \<Longrightarrow> distinct s \<Longrightarrow> distinct r"
proof (induction "length items - pos" arbitrary: pos s rule: less_induct)
  case less
  have pos: "pos < length items"
    using less.prems parse_identifiers_list_off by (cases "pos < length items") auto
  have IH1: "distinct r" if "parse_identifiers_list items (Suc pos) s' = Inr (r, pos')" "distinct s'" for s'
    using less.hyps [OF _ that] pos by simp
  have IH2: "distinct r"
    if "parse_identifiers_list items (Suc (Suc pos)) s' = Inr (r, pos')" "distinct s'" for s'
    using less.hyps [OF _ that] pos by simp
  show ?case
    using less.prems pos
    by (auto simp: parse_identifiers_list_at [OF pos] Let_def string_set_insert_def
        split: if_splits dest!: IH1 IH2)
qed

lemma parse_requirement_ok: "parse_requirement items pos = Inr (r, pos') \<Longrightarrow> req_ok r"
  by (auto simp: parse_requirement_def and_then_Inr_iff checked_requirement_Inr req_ok_def
      parse_values_def parse_exact_value_def consume_Inr split: if_splits
      dest: parse_identifiers_list_distinct)

lemma parse_loop_ok:
  "parse_loop items pos rs = Inr out \<Longrightarrow> \<forall>r \<in> set rs. req_ok r \<Longrightarrow> \<forall>r \<in> set out. req_ok r"
proof (induction "length items - pos" arbitrary: pos rs rule: less_induct)
  case less
  have IH: "\<forall>r \<in> set out. req_ok r"
    if "parse_loop items p rs' = Inr out" "pos < p" "pos < length items" "\<forall>r \<in> set rs'. req_ok r"
    for p rs'
    using less.hyps [OF _ that(1) that(4)] that by simp
  show ?case
  proof (cases "parse_requirement items pos")
    case (Inl e)
    from less.prems(1) show ?thesis
      by (subst (asm) parse_loop.simps)
        (auto simp: Inl and_then_Inr_iff less.prems(2) split: if_splits)
  next
    case (Inr x)
    obtain r p where x: "x = (r, p)" by (cases x)
    have r: "req_ok r" "pos < p" using Inr x parse_requirement_ok parse_requirement_pos by auto
    from less.prems(1) show ?thesis
      by (subst (asm) parse_loop.simps)
        (auto simp: Inr x r less.prems(2) and_then_Inr_iff consume_Inr lookahead_Inr
          less_SucI split: if_splits dest!: IH)
  qed
qed

text \<open>C2: \<open>Parse\<close> never reads outside its token array, on any input; when it succeeds, its requirements
  are sorted by key and each of them passes the checks of \<open>NewRequirement\<close> and holds its values
  sorted and without duplicates.\<close>
theorem parse_total:
  assumes "sorts_by req_key srt"
  shows "case parse srt s of
      Inl e \<Rightarrow> e \<noteq> IndexPanic
    | Inr rs \<Rightarrow> sorted (map req_key rs) \<and> list_all req_ok rs"
proof -
  let ?items = "scan \<lparr>lex_s = s, lex_pos = 0\<rparr>"
  have eos: "eos_ended ?items" by (rule eos_ended_scan)
  then have "0 < length ?items" by (simp add: eos_ended_def)
  note no_panic = parse_loop_no_panic [OF eos this, of "[]"]
  show ?thesis
  proof (cases "parse_loop ?items 0 []")
    case (Inl e)
    then show ?thesis using no_panic by (simp add: parse_def)
  next
    case (Inr rs)
    then have "\<forall>r \<in> set rs. req_ok r" using parse_loop_ok by fastforce
    moreover have "set (srt rs) = set rs" "sorted (map req_key (srt rs))"
      using assms unfolding sorts_by_def by (metis mset_eq_setD)+
    ultimately show ?thesis using Inr by (simp add: parse_def list_all_iff)
  qed
qed

theorem parse_total_witness:
  "parse (sort_key req_key) ''b notin (y,,x),a'' =
     Inr [\<lparr>req_key = ''a'', req_op = OpExists, req_vals = []\<rparr>,
          \<lparr>req_key = ''b'', req_op = OpNotIn, req_vals = [[], ''x'', ''y'']\<rparr>]
   \<and> list_all req_ok [\<lparr>req_key = ''a'', req_op = OpExists, req_vals = []\<rparr>,
          \<lparr>req_key = ''b'', req_op = OpNotIn, req_vals = [[], ''x'', ''y'']\<rparr>]"
proof -
  have p: "parse (sort_key req_key) ''b notin (y,,x),a'' =
     Inr [\<lparr>req_key = ''a'', req_op = OpExists, req_vals = []\<rparr>,
          \<lparr>req_key = ''b'', req_op = OpNotIn, req_vals = [[], ''x'', ''y'']\<rparr>]"
    by code_simp
  show ?thesis
    using parse_total [OF sorts_by_sort_key, of "''b notin (y,,x),a''"] by (simp add: p)
qed

end
