(* ===== verification/Label_Roundtrip.thy ===== *)
theory Label_Roundtrip
  imports Label_Parser
begin

section \<open>Printing and parsing selectors\<close>

text \<open>
  \<open>Parse\<close> inverts \<open>String\<close>. The proof goes through the token list of a printed selector: the lexer
  lemmas give the tokens of each part of the text, the parser lemmas read them back. The
  parser's position is described by what is left of the array (\<open>drop pos items\<close>).
\<close>

definition id_string :: "string \<Rightarrow> bool" where
  "id_string w \<longleftrightarrow> list_all is_id_char w"

text \<open>A requirement the grammar can express: it passes the checks, its key is not empty, and key and
  values hold no white space, NUL or operator character.\<close>

definition printable :: "requirement \<Rightarrow> bool" where
  "printable r \<longleftrightarrow> req_ok r \<and> req_key r \<noteq> [] \<and> id_string (req_key r)
     \<and> list_all id_string (req_vals r)"

subsection \<open>Tokens of a text\<close>

definition delimited :: "string \<Rightarrow> bool" where
  "delimited t \<longleftrightarrow> t = [] \<or> is_special (hd t) \<or> is_whitespace (hd t)"

lemma delimited_simps [simp]:
  "delimited []" "delimited (c # t) \<longleftrightarrow> is_special c \<or> is_whitespace c"
  by (auto simp: delimited_def)

lemma delimited_stop: "delimited t \<Longrightarrow> takeWhile is_id_char t = [] \<and> dropWhile is_id_char t = t \<and> drop_nul t = t"
  by (cases t) (auto simp: is_id_char_def drop_nul_def)

lemma lex_step_word:
  assumes "w \<noteq> []" "id_string w" "delimited t"
  shows "lex_step (w @ t) = (word_token w, t)"
proof -
  obtain c w' where w: "w = c # w'" "is_id_char c" using assms by (cases w) (auto simp: id_string_def)
  have all: "\<forall>x \<in> set w. is_id_char x" using assms(2) by (auto simp: id_string_def list_all_iff)
  have ws: "dropWhile is_whitespace (w @ t) = w @ t" using w by (auto simp: is_id_char_def)
  have c: "c \<noteq> nul" "\<not> is_special c" using w by (auto simp: is_id_char_def)
  have tw: "takeWhile is_id_char (w @ t) = w" "dropWhile is_id_char (w @ t) = t"
    using all delimited_stop [OF assms(3)] by (auto simp: takeWhile_append dropWhile_append)
  show ?thesis
    unfolding lex_step_def Let_def ws tw using w c delimited_stop [OF assms(3)] by simp
qed

lemma tokens_word:
  "w \<noteq> [] \<Longrightarrow> id_string w \<Longrightarrow> delimited t \<Longrightarrow> tokens (w @ t) = word_token w # tokens t"
  using word_token_ok by (subst tokens.simps) (auto simp: lex_step_word)

lemma tokens_Nil: "tokens [] = [(EndOfStringToken, [])]"
  by (subst tokens.simps) (simp add: lex_step_def)

lemma lex_step_space: "is_whitespace c \<Longrightarrow> lex_step (c # t) = lex_step t"
  by (simp add: lex_step_def)

lemma tokens_space: "is_whitespace c \<Longrightarrow> tokens (c # t) = tokens t"
  unfolding tokens.simps [of "c # t"] tokens.simps [of t] by (simp only: lex_step_space)

text \<open>A symbol of one byte; \<open>=\<close> and \<open>!\<close> must not be followed by \<open>=\<close>.\<close>

lemma tokens_symbol:
  assumes "is_special c" "t = [] \<or> hd t \<noteq> nul" "c \<in> {CHR ''='', CHR ''!''} \<Longrightarrow> t = [] \<or> hd t \<noteq> CHR ''=''"
  shows "tokens (c # t) = (the (string2token [c]), [c]) # tokens t"
proof -
  have len: "symbol_len (c # t) = 1" using assms(3) by (cases t) (auto simp: symbol_len_def)
  have dn: "drop_nul t = t" using assms(2) by (cases t) (auto simp: drop_nul_def)
  have "lex_step (c # t) = ((the (string2token [c]), [c]), t)"
    using assms(1) len dn by (simp add: lex_step_def Let_def special_not_ws symbol_token_def)
  then show ?thesis
    using string2token_special [OF assms(1)] assms(1)
    by (subst tokens.simps) (auto simp: is_special_def string2token_def)
qed

lemma tokens_symbol2:
  assumes "c \<in> {CHR ''='', CHR ''!''}" "t = [] \<or> hd t \<noteq> nul"
  shows "tokens (c # CHR ''='' # t) =
    (if c = CHR ''='' then (DoubleEqualsToken, ''=='') else (NotEqualsToken, ''!='')) # tokens t"
proof -
  have len: "symbol_len (c # CHR ''='' # t) = 2" using assms(1) by (auto simp: symbol_len_def)
  have dn: "drop_nul t = t" using assms(2) by (cases t) (auto simp: drop_nul_def)
  have c: "is_special c" using assms(1) by (auto simp: is_special_def)
  have tok: "symbol_token (c # CHR ''='' # t) =
      (if c = CHR ''='' then (DoubleEqualsToken, ''=='') else (NotEqualsToken, ''!=''))"
    using assms(1) unfolding symbol_token_def len by (auto simp: string2token_def)
  have "lex_step (c # CHR ''='' # t) = (symbol_token (c # CHR ''='' # t), t)"
    unfolding lex_step_def Let_def using c len dn by (simp add: special_not_ws)
  then show ?thesis unfolding tokens.simps [of "c # CHR ''='' # t"] by (simp add: tok)
qed

text \<open>A value may be empty; it then leaves no token.\<close>

definition value_tokens :: "string \<Rightarrow> scanned_item list" where
  "value_tokens v = (if v = [] then [] else [word_token v])"

fun list_tokens :: "string list \<Rightarrow> scanned_item list" where
  "list_tokens [] = []"
| "list_tokens [v] = value_tokens v"
| "list_tokens (v # w # vs) = value_tokens v @ (CommaToken, '','') # list_tokens (w # vs)"

lemma comma_special [simp]: "is_special (CHR '','')" "is_special (CHR '')'')" "is_special (CHR ''('')"
  "is_special (CHR ''='')" "is_special (CHR ''!'')" "is_special (CHR ''>'')" "is_special (CHR ''<'')"
  by (auto simp: is_special_def)

lemma is_id_charD: "is_id_char c \<Longrightarrow> c \<noteq> nul \<and> \<not> is_special c \<and> \<not> is_whitespace c"
  by (simp add: is_id_char_def)

lemma value_head: "id_string v \<Longrightarrow> delimited t \<Longrightarrow> v @ t = [] \<or> hd (v @ t) \<noteq> nul"
  by (cases v; cases t) (auto simp: id_string_def is_id_char_def delimited_def)

lemma value_head_eq: "id_string v \<Longrightarrow> v \<noteq> [] \<Longrightarrow> hd (v @ t) \<noteq> CHR ''=''"
  by (cases v) (auto simp: id_string_def is_id_char_def)

lemma tokens_value: "id_string v \<Longrightarrow> delimited t \<Longrightarrow> tokens (v @ t) = value_tokens v @ tokens t"
  by (simp add: value_tokens_def tokens_word)

lemma tokens_comma:
  "t = [] \<or> hd t \<noteq> nul \<Longrightarrow> tokens (CHR '','' # t) = (CommaToken, '','') # tokens t"
  using tokens_symbol [of "CHR '',''" t] by (simp add: string2token_def)

lemma tokens_list:
  "list_all id_string vs \<Longrightarrow> vs \<noteq> [] \<Longrightarrow>
   tokens (join '','' vs @ CHR '')'' # t) = list_tokens vs @ tokens (CHR '')'' # t)"
proof (induction vs rule: list_tokens.induct)
  case (3 v w vs)
  let ?rest = "join '','' (w # vs) @ CHR '')'' # t"
  have hd: "?rest = [] \<or> hd ?rest \<noteq> nul"
    using "3.prems" value_head [of w "CHR '')'' # t"] value_head [of w "CHR '','' # join '','' vs @ CHR '')'' # t"]
    by (cases vs) auto
  show ?case
    using 3 tokens_value [of v "CHR '','' # ?rest"] tokens_comma [OF hd] by simp
qed (auto simp: tokens_value)

subsection \<open>Tokens of a requirement\<close>

definition op_token :: "operator \<Rightarrow> scanned_item list" where
  "op_token op =
     (case op of
        OpEquals \<Rightarrow> [(EqualsToken, ''='')] | OpDoubleEquals \<Rightarrow> [(DoubleEqualsToken, ''=='')]
      | OpNotEquals \<Rightarrow> [(NotEqualsToken, ''!='')] | OpIn \<Rightarrow> [(InToken, ''in'')]
      | OpNotIn \<Rightarrow> [(NotInToken, ''notin'')] | OpGreaterThan \<Rightarrow> [(GreaterThanToken, ''>'')]
      | OpLessThan \<Rightarrow> [(LessThanToken, ''<'')] | _ \<Rightarrow> [])"

definition req_tokens :: "requirement \<Rightarrow> scanned_item list" where
  "req_tokens r =
     (if req_op r = OpDoesNotExist then [(DoesNotExistToken, ''!'')] else [])
     @ [word_token (req_key r)] @ op_token (req_op r)
     @ (if req_op r \<in> {OpIn, OpNotIn}
        then (OpenParToken, ''('') # list_tokens (req_vals r) @ [(ClosedParToken, '')'')]
        else if req_op r \<in> {OpExists, OpDoesNotExist} then []
        else value_tokens (req_vals r ! 0))"

definition req_end :: "string \<Rightarrow> bool" where
  "req_end t \<longleftrightarrow> t = [] \<or> (\<exists>t'. t = CHR '','' # t')"

lemma req_end_delimited: "req_end t \<Longrightarrow> delimited t \<and> (t = [] \<or> hd t \<noteq> nul \<and> hd t \<noteq> CHR ''='')"
  by (auto simp: req_end_def nul_def)

lemma printable_cases [consumes 1, case_names exact set exists not_exists]:
  assumes "printable r"
  obtains (exact) v where "req_vals r = [v]" "id_string v"
      "req_op r \<in> {OpEquals, OpDoubleEquals, OpNotEquals, OpGreaterThan, OpLessThan}"
    | (set) "req_vals r \<noteq> []" "list_all id_string (req_vals r)" "req_op r \<in> {OpIn, OpNotIn}"
    | (exists) "req_vals r = []" "req_op r = OpExists"
    | (not_exists) "req_vals r = []" "req_op r = OpDoesNotExist"
  using assms
  by (cases "req_op r")
    (auto simp: printable_def req_ok_def req_errors_def length_one_iff split: if_splits)

lemma tokens_set_list:
  assumes "list_all id_string vs" "vs \<noteq> []"
  shows "tokens (CHR ''('' # join '','' vs @ CHR '')'' # t) =
    (OpenParToken, ''('') # list_tokens vs @ tokens (CHR '')'' # t)"
proof -
  have "hd (join '','' vs @ CHR '')'' # t) \<noteq> nul"
    using assms value_head [of "hd vs" "CHR '')'' # t"]
      value_head [of "hd vs" "CHR '','' # join '','' (tl vs) @ CHR '')'' # t"]
    by (cases vs rule: list_tokens.cases) (auto simp: join_Cons)
  then show ?thesis
    using tokens_symbol [of "CHR ''(''" "join '','' vs @ CHR '')'' # t"] tokens_list [OF assms]
    by (simp add: string2token_def)
qed

lemma tokens_requirement:
  assumes "printable r" "req_end t"
  shows "tokens (req_string r @ t) = req_tokens r @ tokens t"
proof -
  let ?k = "req_key r"
  note t = req_end_delimited [OF assms(2)]
  from assms(1) have k: "?k \<noteq> []" "id_string ?k" by (auto simp: printable_def)
  note word = tokens_word [OF k]
  from assms(1) show ?thesis
  proof (cases rule: printable_cases)
    case (exact v)
    have del: "delimited t" using t by blast
    have nn: "v @ t = [] \<or> hd (v @ t) \<noteq> nul" by (rule value_head [OF exact(2) del])
    have eq: "v @ t = [] \<or> hd (v @ t) \<noteq> CHR ''=''"
      using value_head_eq [OF exact(2)] t by (cases "v = []") auto
    have val: "tokens (v @ t) = value_tokens v @ tokens t" by (rule tokens_value [OF exact(2) del])
    have syms: "tokens (CHR ''='' # v @ t) = (EqualsToken, ''='') # value_tokens v @ tokens t"
      "tokens (CHR ''>'' # v @ t) = (GreaterThanToken, ''>'') # value_tokens v @ tokens t"
      "tokens (CHR ''<'' # v @ t) = (LessThanToken, ''<'') # value_tokens v @ tokens t"
      using tokens_symbol [OF comma_special(4) nn eq] tokens_symbol [OF comma_special(6) nn]
        tokens_symbol [OF comma_special(7) nn] val
      by (simp_all add: string2token_def)
    have syms2: "tokens (CHR ''='' # CHR ''='' # v @ t) = (DoubleEqualsToken, ''=='') # value_tokens v @ tokens t"
      "tokens (CHR ''!'' # CHR ''='' # v @ t) = (NotEqualsToken, ''!='') # value_tokens v @ tokens t"
      using tokens_symbol2 [OF _ nn, of "CHR ''=''"] tokens_symbol2 [OF _ nn, of "CHR ''!''"] val
      by simp_all
    show ?thesis
      using exact(1,3) word syms syms2
      by (auto simp: req_string_def req_tokens_def op_symbol_def op_token_def Let_def
          req_values_string_def)
  next
    case set
    let ?l = "join '','' (req_vals r) @ CHR '')'' # t"
    have vs: "req_values_string (req_vals r) = join '','' (req_vals r)"
      using assms(1) by (cases "req_vals r" rule: list_tokens.cases)
        (auto simp: req_values_string_def safe_sort_def printable_def req_ok_def)
    have par: "tokens (CHR ''('' # ?l) = (OpenParToken, ''('') # list_tokens (req_vals r) @ (ClosedParToken, '')'') # tokens t"
      using tokens_set_list [OF set(2,1)] tokens_symbol [of "CHR '')''" t] t
      by (auto simp: string2token_def)
    have kw: "tokens ('' in '' @ CHR ''('' # ?l) = (InToken, ''in'') # tokens (CHR ''('' # ?l)"
      "tokens ('' notin '' @ CHR ''('' # ?l) = (NotInToken, ''notin'') # tokens (CHR ''('' # ?l)"
      using tokens_word [of "''in''" "CHR '' '' # CHR ''('' # ?l"]
        tokens_word [of "''notin''" "CHR '' '' # CHR ''('' # ?l"]
      by (auto simp: tokens_space is_whitespace_def id_string_def is_id_char_def is_special_def
          nul_def word_token_def string2token_def)
    show ?thesis
      using set word [of "'' in '' @ CHR ''('' # ?l"] word [of "'' notin '' @ CHR ''('' # ?l"] kw par
      by (auto simp: req_string_def req_tokens_def op_symbol_def op_token_def Let_def vs
          is_whitespace_def)
  next
    case exists
    then show ?thesis using t word
      by (simp add: req_string_def req_tokens_def op_symbol_def op_token_def Let_def)
  next
    case not_exists
    have "tokens (CHR ''!'' # ?k @ t) = (DoesNotExistToken, ''!'') # tokens (?k @ t)"
      using tokens_symbol [of "CHR ''!''" "?k @ t"] k value_head [OF k(2), of t] t
        value_head_eq [OF k(2,1)]
      by (simp add: string2token_def)
    with not_exists show ?thesis using t word
      by (simp add: req_string_def req_tokens_def op_symbol_def op_token_def Let_def)
  qed
qed

fun reqs_tokens :: "requirement list \<Rightarrow> scanned_item list" where
  "reqs_tokens [] = [(EndOfStringToken, [])]"
| "reqs_tokens [r] = req_tokens r @ [(EndOfStringToken, [])]"
| "reqs_tokens (r # x # rs) = req_tokens r @ (CommaToken, '','') # reqs_tokens (x # rs)"

lemma req_string_head: "printable r \<Longrightarrow> req_string r @ t \<noteq> [] \<and> hd (req_string r @ t) \<noteq> nul"
  by (cases "req_key r") (auto simp: printable_def req_string_def Let_def nul_def id_string_def
      is_id_char_def)

lemma tokens_internal_string:
  "list_all printable rs \<Longrightarrow> tokens (internal_string rs) = reqs_tokens rs"
proof (induction rs rule: reqs_tokens.induct)
  case 1
  then show ?case by (simp add: internal_string_def tokens_Nil)
next
  case (2 r)
  then show ?case
    using tokens_requirement [of r "[]"] by (simp add: internal_string_def tokens_Nil req_end_def)
next
  case (3 r x rs)
  have "internal_string (x # rs) = req_string x @ (if rs = [] then [] else '','' @ internal_string rs)"
    by (simp add: internal_string_def join_Cons)
  then have "hd (internal_string (x # rs)) \<noteq> nul"
    using "3.prems" req_string_head [of x] by simp
  then have "tokens (CHR '','' # internal_string (x # rs)) = (CommaToken, '','') # reqs_tokens (x # rs)"
    using 3 tokens_comma [of "internal_string (x # rs)"] by simp
  moreover have "internal_string (r # x # rs) = req_string r @ CHR '','' # internal_string (x # rs)"
    by (simp add: internal_string_def)
  ultimately show ?case
    using "3.prems" tokens_requirement [of r "CHR '','' # internal_string (x # rs)"]
    by (simp add: req_end_def)
qed

subsection \<open>Reading the tokens back\<close>

lemma drop_read:
  assumes "drop pos items = x # xs"
  shows "pos < length items" "items ! pos = x" "drop (Suc pos) items = xs"
    and "lookahead items pos c = Inr (in_context c (fst x), snd x)"
    and "consume items pos c = Inr ((in_context c (fst x), snd x), Suc pos)"
proof -
  show l: "pos < length items" using assms by (metis drop_all leI list.distinct(1))
  show x: "items ! pos = x" using assms l by (simp add: nth_via_drop)
  show "drop (Suc pos) items = xs" using assms by (simp add: drop_Suc tl_drop [symmetric])
  show "lookahead items pos c = Inr (in_context c (fst x), snd x)"
    "consume items pos c = Inr ((in_context c (fst x), snd x), Suc pos)"
    using l x by (simp_all add: reads)
qed

lemma drop_append_read: "drop pos items = xs @ ys \<Longrightarrow> drop (pos + length xs) items = ys"
  by (metis append_eq_conv_conj drop_drop add.commute)

lemma parse_operator_token:
  "op_token op = [x] \<Longrightarrow> drop pos items = x # xs \<Longrightarrow> parse_operator items pos = Inr (op, Suc pos)"
  by (cases op) (auto simp: op_token_def parse_operator_def drop_read(5) in_context_def)

lemma word_token_value: "id_string w \<Longrightarrow> w \<noteq> [] \<Longrightarrow>
    in_context Values (fst (word_token w)) = IdentifierToken \<and> snd (word_token w) = w"
  by (cases w) (auto simp: word_token_def in_context_def id_string_def is_id_char_def is_special_def
      string2token_def split: option.splits if_splits)

lemma identifiers_words:
  assumes "list_all id_string ws" "[] \<notin> set ws" "ws \<noteq> []"
  shows "drop pos items = list_tokens ws @ (ClosedParToken, '')'') # post \<Longrightarrow> distinct (s @ ws) \<Longrightarrow>
    parse_identifiers_list items pos s = Inr (s @ ws, pos + length (list_tokens ws))"
  using assms
proof (induction ws arbitrary: pos s rule: list_tokens.induct)
  case (2 v)
  then have w: "in_context Values (fst (word_token v)) = IdentifierToken" "snd (word_token v) = v"
    using word_token_value [of v] by auto
  from 2 have "drop pos items = word_token v # (ClosedParToken, '')'') # post"
    by (simp add: value_tokens_def)
  note r1 = drop_read [OF this]
  note r2 = drop_read [OF r1(3)]
  show ?case
    using 2 w r1(2) r2(1,2)
    by (simp add: parse_identifiers_list_at [OF r1(1)] Let_def string_set_insert_def
        value_tokens_def in_context_def)
next
  case (3 v x ws)
  then have w: "in_context Values (fst (word_token v)) = IdentifierToken" "snd (word_token v) = v"
    using word_token_value [of v] by auto
  have "v \<noteq> []" using "3.prems" by auto
  with 3 have "drop pos items = word_token v # (CommaToken, '','') #
      list_tokens (x # ws) @ (ClosedParToken, '')'') # post"
    by (simp add: value_tokens_def)
  note r1 = drop_read [OF this]
  note r2 = drop_read [OF r1(3)]
  obtain post' where "drop (Suc (Suc pos)) items = word_token x # post'"
    using "3.prems" r2(3) by (cases ws) (auto simp: value_tokens_def)
  note r3 = drop_read [OF this]
  have x: "in_context Values (fst (word_token x)) = IdentifierToken"
    using "3.prems" word_token_value [of x] by auto
  have "parse_identifiers_list items pos s = parse_identifiers_list items (Suc (Suc pos)) (s @ [v])"
    using "3.prems" w r1(2) r2(1,2) r3(1,2) x
    by (simp add: parse_identifiers_list_at [OF r1(1)] parse_identifiers_list_at [OF r2(1)]
        Let_def string_set_insert_def in_context_def)
  then show ?case
    using "3.prems" "3.IH" [OF r2(3), of "s @ [v]"] \<open>v \<noteq> []\<close> by (simp add: value_tokens_def)
qed simp

lemma sorted_empty_first:
  assumes "sorted (v # ws)" "distinct (v # ws)"
  shows "[] \<notin> set (ws :: string list)"
  using assms by (cases v) auto

text \<open>The value list of a printed \<open>in\<close> or \<open>notin\<close> requirement.\<close>

lemma parse_values_printed:
  assumes vs: "list_all id_string vs" "vs \<noteq> []" "sorted vs" "distinct vs"
    and d: "drop pos items = (OpenParToken, ''('') # list_tokens vs @ (ClosedParToken, '')'') # post"
  shows "parse_values items pos = Inr (vs, pos + length (list_tokens vs) + 2)"
proof -
  note r1 = drop_read [OF d]
  show ?thesis
  proof (cases "vs = [[]]")
    case True
    then have "drop (Suc pos) items = (ClosedParToken, '')'') # post"
      using r1(3) by (simp add: value_tokens_def)
    note r2 = drop_read [OF this]
    show ?thesis
      using True by (simp add: parse_values_def r1 r2 in_context_def value_tokens_def)
  next
    case False
    have pil: "parse_identifiers_list items (Suc pos) [] = Inr (vs, Suc pos + length (list_tokens vs))
      \<and> (\<exists>t. in_context Values (fst (items ! Suc pos)) = t \<and> t \<in> {IdentifierToken, CommaToken})"
    proof (cases "[] \<in> set vs")
      case True
      obtain v0 vs0 where v0: "vs = v0 # vs0" using vs(2) by (cases vs) auto
      have ne0: "[] \<notin> set vs0" using sorted_empty_first [of v0 vs0] vs(3,4) v0 by simp
      with True v0 have "v0 = []" by auto
      with v0 False obtain w ws where v: "vs = [] # w # ws" by (cases vs0) auto
      with ne0 v0 have ne: "[] \<notin> set (w # ws)" by simp
      have "drop (Suc pos) items = (CommaToken, '','') # list_tokens (w # ws) @ (ClosedParToken, '')'') # post"
        using r1(3) v by (simp add: value_tokens_def)
      note r2 = drop_read [OF this]
      obtain post' where "drop (Suc (Suc pos)) items = word_token w # post'"
        using r2(3) ne by (cases ws) (auto simp: value_tokens_def)
      note r3 = drop_read [OF this]
      have w: "in_context Values (fst (word_token w)) = IdentifierToken"
        using vs(1) ne v word_token_value [of w] by auto
      have "parse_identifiers_list items (Suc pos) [] = parse_identifiers_list items (Suc (Suc pos)) [[]]"
        using r2(2) r3(1,2) w
        by (simp add: parse_identifiers_list_at [OF r2(1)] Let_def in_context_def)
      then show ?thesis
        using identifiers_words [OF _ ne _ r2(3), of "[[]]"] vs v r2(2)
        by (simp add: value_tokens_def in_context_def)
    next
      case False
      obtain w ws where v: "vs = w # ws" using vs(2) by (cases vs) auto
      obtain post' where "drop (Suc pos) items = word_token w # post'"
        using r1(3) False v by (cases ws) (auto simp: value_tokens_def)
      note r2 = drop_read [OF this]
      have "in_context Values (fst (word_token w)) = IdentifierToken"
        using vs(1) False v word_token_value [of w] by auto
      then show ?thesis
        using identifiers_words [OF vs(1) False vs(2) r1(3), of "[]"] vs(4) r2(2) by simp
    qed
    have "drop (Suc pos + length (list_tokens vs)) items = (ClosedParToken, '')'') # post"
      using drop_append_read [OF r1(3)] by simp
    note r4 = drop_read [OF this]
    have "Suc pos < length items"
      using r4(1) by simp
    then show ?thesis
      using pil r4(5) [of Values]
      by (auto simp: parse_values_def r1 lookahead_in in_context_def)
  qed
qed

text \<open>A requirement is followed by a comma or the end of the text.\<close>

definition stops :: "scanned_item \<Rightarrow> bool" where
  "stops t \<longleftrightarrow> fst t = CommaToken \<or> fst t = EndOfStringToken"

lemma parse_requirement_printed:
  assumes pr: "printable r" and d: "drop pos items = req_tokens r @ t # post" and t: "stops t"
  shows "parse_requirement items pos = Inr (r, pos + length (req_tokens r))"
proof -
  let ?k = "req_key r"
  from pr have k: "in_context Values (fst (word_token ?k)) = IdentifierToken" "snd (word_token ?k) = ?k"
    using word_token_value by (auto simp: printable_def)
  have ok: "req_errors (req_op r) (req_vals r) = []" "sorted (req_vals r)" "distinct (req_vals r)"
    using pr by (auto simp: printable_def req_ok_def)
  have cr: "checked_requirement (req_key r) (req_op r) (req_vals r) p = Inr (r, p)" for p
    by (simp add: checked_requirement_Inr ok(1))
  have ctx: "in_context c (fst t) = fst t" for c
    using t by (auto simp: stops_def in_context_def)
  obtain tt tl where tp: "t = (tt, tl)" by (cases t)
  from pr show ?thesis
  proof (cases rule: printable_cases)
    case exists
    then have "drop pos items = word_token ?k # t # post"
      using d by (simp add: req_tokens_def op_token_def)
    note r1 = drop_read [OF this]
    note r2 = drop_read [OF r1(3)]
    show ?thesis
      using k t exists cr ctx tp
      by (auto simp: parse_requirement_def parse_key_and_infer_operator_def r1 r2 stops_def
          req_tokens_def op_token_def)
  next
    case not_exists
    then have "drop pos items = (DoesNotExistToken, ''!'') # word_token ?k # t # post"
      using d by (simp add: req_tokens_def op_token_def)
    note r1 = drop_read [OF this]
    note r2 = drop_read [OF r1(3)]
    note r3 = drop_read [OF r2(3)]
    show ?thesis
      using k t not_exists cr ctx tp
      by (auto simp: parse_requirement_def parse_key_and_infer_operator_def r1 r2 r3 stops_def
          req_tokens_def op_token_def in_context_def [of _ DoesNotExistToken])
  next
    case (exact v)
    obtain o1 where o1: "op_token (req_op r) = [o1]" using exact(3) by (auto simp: op_token_def)
    have op: "in_context Values (fst o1) \<notin> {EndOfStringToken, CommaToken, DoesNotExistToken}"
      using exact(3) o1 by (auto simp: op_token_def in_context_def)
    have d1: "drop pos items = word_token ?k # o1 # value_tokens v @ t # post"
      using d exact o1 by (auto simp: req_tokens_def)
    note r1 = drop_read [OF d1]
    note r2 = drop_read [OF r1(3)]
    have po: "parse_operator items (Suc pos) = Inr (req_op r, Suc (Suc pos))"
      by (rule parse_operator_token [OF o1 r1(3)])
    have pv: "parse_exact_value items (Suc (Suc pos)) = Inr ([v], Suc (Suc pos) + length (value_tokens v))"
    proof (cases "v = []")
      case True
      then have "drop (Suc (Suc pos)) items = t # post" using r2(3) by (simp add: value_tokens_def)
      note r3 = drop_read [OF this]
      show ?thesis using True t ctx tp by (auto simp: parse_exact_value_def r3 stops_def value_tokens_def)
    next
      case False
      then have "drop (Suc (Suc pos)) items = word_token v # t # post"
        using r2(3) by (simp add: value_tokens_def)
      note r3 = drop_read [OF this]
      show ?thesis
        using False word_token_value [OF exact(2) False]
        by (auto simp: parse_exact_value_def r3 value_tokens_def)
    qed
    show ?thesis
      using k op po pv exact cr o1
      by (auto simp: parse_requirement_def parse_key_and_infer_operator_def r1 r2
          req_tokens_def)
  next
    case set
    obtain o1 where o1: "op_token (req_op r) = [o1]" using set(3) by (auto simp: op_token_def)
    have op: "in_context Values (fst o1) \<notin> {EndOfStringToken, CommaToken, DoesNotExistToken}"
      using set(3) o1 by (auto simp: op_token_def in_context_def)
    have d1: "drop pos items = word_token ?k # o1 # (OpenParToken, ''('') #
        list_tokens (req_vals r) @ (ClosedParToken, '')'') # t # post"
      using d set o1 by (auto simp: req_tokens_def)
    note r1 = drop_read [OF d1]
    note r2 = drop_read [OF r1(3)]
    have po: "parse_operator items (Suc pos) = Inr (req_op r, Suc (Suc pos))"
      by (rule parse_operator_token [OF o1 r1(3)])
    note pv = parse_values_printed [OF set(2,1) ok(2,3) r2(3)]
    show ?thesis
      using k op po pv set cr o1 ok(2)
      by (auto simp: parse_requirement_def parse_key_and_infer_operator_def r1 r2
          req_tokens_def sort_key_id_if_sorted)
  qed
qed

lemma req_tokens_head:
  "printable r \<Longrightarrow> \<exists>x xs. req_tokens r = x # xs \<and> in_context Values (fst x) \<in> {IdentifierToken, DoesNotExistToken}"
proof (cases "req_op r = OpDoesNotExist")
  case True
  then show ?thesis by (simp add: req_tokens_def in_context_def)
next
  case False
  moreover assume "printable r"
  then have "in_context Values (fst (word_token (req_key r))) = IdentifierToken"
    using word_token_value by (simp add: printable_def)
  ultimately show ?thesis by (simp add: req_tokens_def)
qed

lemma parse_loop_printed:
  "list_all printable rs \<Longrightarrow> rs \<noteq> [] \<Longrightarrow> drop pos items = reqs_tokens rs \<Longrightarrow>
   parse_loop items pos acc = Inr (acc @ rs)"
proof (induction rs arbitrary: pos acc rule: reqs_tokens.induct)
  case (2 r)
  then have pr: "printable r" and d: "drop pos items = req_tokens r @ [(EndOfStringToken, [])]" by auto
  obtain x xs where x: "req_tokens r = x # xs" "in_context Values (fst x) \<in> {IdentifierToken, DoesNotExistToken}"
    using req_tokens_head [OF pr] by blast
  have r0: "lookahead items pos Values = Inr (in_context Values (fst x), snd x)"
    using drop_read(4) [of pos items x] d x(1) by simp
  note req = parse_requirement_printed [OF pr d]
  note r1 = drop_read [OF drop_append_read [OF d]]
  show ?case
    using x(2) req r1(5) [of Values]
    by (subst parse_loop.simps) (auto simp: r0 stops_def in_context_def [of _ EndOfStringToken])
next
  case (3 r y rs)
  then have pr: "printable r" and d: "drop pos items = req_tokens r @ (CommaToken, '','') # reqs_tokens (y # rs)"
    by auto
  obtain x xs where x: "req_tokens r = x # xs" "in_context Values (fst x) \<in> {IdentifierToken, DoesNotExistToken}"
    using req_tokens_head [OF pr] by blast
  have r0: "lookahead items pos Values = Inr (in_context Values (fst x), snd x)"
    using drop_read(4) [of pos items x] d x(1) by simp
  note req = parse_requirement_printed [OF pr d]
  note r1 = drop_read [OF drop_append_read [OF d]]
  obtain z zs where z: "reqs_tokens (y # rs) = z # zs" "in_context Values (fst z) \<in> {IdentifierToken, DoesNotExistToken}"
    using req_tokens_head [of y] "3.prems"(1) by (cases rs) auto
  have r2: "lookahead items (Suc (pos + length (req_tokens r))) Values = Inr (in_context Values (fst z), snd z)"
    using drop_read(4) r1(3) z(1) by metis
  have "parse_loop items (Suc (pos + length (req_tokens r))) (acc @ [r]) = Inr ((acc @ [r]) @ y # rs)"
    using 3 r1(3) by simp
  then show ?case
    using x(2) z(2) req r1(5) [of Values]
    by (subst parse_loop.simps) (auto simp: r0 r2 stops_def in_context_def [of _ CommaToken])
qed simp

text \<open>The text of any list of expressible requirements parses to that list, sorted.\<close>

lemma parse_printed:
  assumes "list_all printable rs"
  shows "parse srt (internal_string rs) = Inr (srt rs)"
proof -
  have scan: "scan \<lparr>lex_s = internal_string rs, lex_pos = 0\<rparr> = reqs_tokens rs"
    using tokens_internal_string [OF assms]
    by (simp add: scan_tokens [where t = "internal_string rs"] at_rest_def)
  have "parse_loop (reqs_tokens rs) 0 [] = Inr rs"
  proof (cases "rs = []")
    case True
    then show ?thesis
      by (subst parse_loop.simps) (simp add: lookahead_def in_context_def)
  qed (simp add: parse_loop_printed [OF assms])
  then show ?thesis by (simp add: parse_def scan)
qed

text \<open>C1: \<open>Parse\<close> inverts \<open>String\<close>: parsing the text of any selector whose requirements the grammar
  can express, in the order of their distinct keys, gives back exactly that selector, with the
  in, notin, equality, integer and existence operators, empty values, and keys or values that
  spell the keywords \<open>in\<close> and \<open>notin\<close> included.\<close>
theorem parse_string_roundtrip:
  assumes "sorts_by req_key srt" "list_all printable rs"
    and "sorted (map req_key rs)" "distinct (map req_key rs)"
  shows "parse srt (sel_string (InternalSel rs)) = Inr rs"
  using parse_printed [OF assms(2)]
    unstable_sort.srt_sorted_id [OF unstable_sort_iff [THEN iffD2, OF assms(1)] assms(4,3)]
  by simp

theorem parse_string_roundtrip_witness:
  "let rs = [\<lparr>req_key = ''a'', req_op = OpDoesNotExist, req_vals = []\<rparr>,
             \<lparr>req_key = ''in'', req_op = OpNotIn, req_vals = [[], ''notin'', ''x'']\<rparr>,
             \<lparr>req_key = ''n'', req_op = OpGreaterThan, req_vals = [''10'']\<rparr>]
   in sel_string (InternalSel rs) = ''!a,in notin (,notin,x),n>10''
    \<and> parse (sort_key req_key) ''!a,in notin (,notin,x),n>10'' = Inr rs"
proof -
  let ?rs = "[\<lparr>req_key = ''a'', req_op = OpDoesNotExist, req_vals = []\<rparr>,
             \<lparr>req_key = ''in'', req_op = OpNotIn, req_vals = [[], ''notin'', ''x'']\<rparr>,
             \<lparr>req_key = ''n'', req_op = OpGreaterThan, req_vals = [''10'']\<rparr>]"
  have s: "sel_string (InternalSel ?rs) = ''!a,in notin (,notin,x),n>10''" by code_simp
  have p: "list_all printable ?rs" by code_simp
  show ?thesis
    using parse_string_roundtrip [OF sorts_by_sort_key p] s by simp
qed

end
