(* ===== verification/Label_Normal.thy ===== *)
theory Label_Normal
  imports Label_Roundtrip
begin

section \<open>Parsed selectors are printable\<close>

text \<open>
  The converse of the round trip: whatever text \<open>Parse\<close> accepts, the requirements it returns are
  ones the grammar can express, so printing and parsing again gives them back. The lemmas carry
  a second predicate \<open>P\<close> on the characters of keys and values, for clients that need to know
  that a character missing from the input is missing from the result.
\<close>

definition word_of :: "(char \<Rightarrow> bool) \<Rightarrow> string \<Rightarrow> bool" where
  "word_of P w \<longleftrightarrow> (\<forall>c \<in> set w. is_id_char c \<and> P c)"

definition word_item :: "(char \<Rightarrow> bool) \<Rightarrow> scanned_item \<Rightarrow> bool" where
  "word_item P item \<longleftrightarrow>
     (fst item \<in> {IdentifierToken, InToken, NotInToken} \<longrightarrow> snd item \<noteq> [] \<and> word_of P (snd item))"

lemma word_of_Nil [simp]: "word_of P []"
  by (simp add: word_of_def)

lemma drop_nul_set: "set (drop_nul t) \<subseteq> set t"
  by (auto simp: drop_nul_def split: list.splits if_splits)

lemma lex_step_word_item: "\<forall>c \<in> set t. P c \<Longrightarrow> word_item P (fst (lex_step t))"
  and lex_step_set: "set (snd (lex_step t)) \<subseteq> set t"
proof -
  let ?t1 = "dropWhile is_whitespace t"
  have sub: "set ?t1 \<subseteq> set t" by (auto dest: set_dropWhileD)
  have tw: "\<forall>c \<in> set (takeWhile is_id_char ?t1). is_id_char c" by (auto dest: set_takeWhileD)
  have tws: "set (takeWhile is_id_char ?t1) \<subseteq> set t" using sub by (auto dest: set_takeWhileD)
  show "word_item P (fst (lex_step t))" if P: "\<forall>c \<in> set t. P c"
  proof (cases ?t1)
    case Nil
    show ?thesis unfolding lex_step_def Nil by (simp add: word_item_def)
  next
    case (Cons c t2)
    then have ws: "\<not> is_whitespace c" by (metis dropWhile_eq_Cons_conv)
    have "takeWhile is_id_char ?t1 \<noteq> []" if "c \<noteq> nul" "\<not> is_special c"
      using that ws Cons by (simp add: is_id_char_def)
    moreover have "snd (word_token w) = w" for w
      by (simp add: word_token_def split: option.splits)
    moreover have "word_of P (takeWhile is_id_char ?t1)"
      unfolding word_of_def using tw tws P by blast
    ultimately show ?thesis
      using symbol_token_ok [of c t2] unfolding lex_step_def Let_def Cons
      by (simp add: word_item_def)
  qed
  have a: "set (drop_nul (drop n ?t1)) \<subseteq> set t" for n
    using drop_nul_set [of "drop n ?t1"] set_drop_subset [of n ?t1] sub by blast
  have b: "set (drop_nul (dropWhile is_id_char ?t1)) \<subseteq> set t"
    using drop_nul_set [of "dropWhile is_id_char ?t1"] set_dropWhileD [of _ is_id_char ?t1] sub by blast
  show "set (snd (lex_step t)) \<subseteq> set t"
  proof (cases ?t1)
    case Nil
    show ?thesis unfolding lex_step_def Nil by simp
  next
    case (Cons c t2)
    have "set t2 \<subseteq> set t" using sub unfolding Cons by auto
    with a [of "symbol_len ?t1"] b show ?thesis
      unfolding lex_step_def Let_def Cons by (simp only: list.case split: if_split) simp
  qed
qed

lemma tokens_word_items: "\<forall>c \<in> set t. P c \<Longrightarrow> \<forall>item \<in> set (tokens t). word_item P item"
proof (induction t rule: tokens.induct)
  case (1 t)
  have "\<forall>c \<in> set (snd (lex_step t)). P c" using 1 lex_step_set by blast
  with 1 show ?case by (subst tokens.simps) (auto simp: lex_step_word_item)
qed

lemma scan_word_items:
  "\<forall>c \<in> set s. P c \<Longrightarrow> \<forall>item \<in> set (scan \<lparr>lex_s = s, lex_pos = 0\<rparr>). word_item P item"
  using tokens_word_items [of s P] by (simp add: scan_tokens [where t = s] at_rest_def)

lemma read_word:
  assumes "\<forall>item \<in> set items. word_item P item" "pos < length items"
    and "in_context Values (fst (items ! pos)) = IdentifierToken"
  shows "snd (items ! pos) \<noteq> []" "word_of P (snd (items ! pos))"
proof -
  have "word_item P (items ! pos)" using assms by auto
  moreover have "fst (items ! pos) \<in> {IdentifierToken, InToken, NotInToken}"
    using assms(3) by (auto simp: in_context_def split: if_splits)
  ultimately show "snd (items ! pos) \<noteq> []" "word_of P (snd (items ! pos))"
    by (auto simp: word_item_def)
qed

lemma string_set_insert_all: "(\<forall>x \<in> set (string_set_insert v s). Q x) \<longleftrightarrow> Q v \<and> (\<forall>x \<in> set s. Q x)"
  by (auto simp: string_set_insert_def)

lemma parse_identifiers_list_words:
  assumes items: "\<forall>item \<in> set items. word_item P item"
  shows "parse_identifiers_list items pos s = Inr (r, pos') \<Longrightarrow> \<forall>v \<in> set s. word_of P v
    \<Longrightarrow> \<forall>v \<in> set r. word_of P v"
proof (induction "length items - pos" arbitrary: pos s rule: less_induct)
  case less
  have pos: "pos < length items"
    using less.prems parse_identifiers_list_off by (cases "pos < length items") auto
  note rd = read_word [OF items pos]
  have IH1: "\<forall>v \<in> set r. word_of P v" if "parse_identifiers_list items (Suc pos) s' = Inr (r, pos')"
    "\<forall>v \<in> set s'. word_of P v" for s'
    using less.hyps [OF _ that] pos by simp
  have IH2: "\<forall>v \<in> set r. word_of P v"
    if "parse_identifiers_list items (Suc (Suc pos)) s' = Inr (r, pos')" "\<forall>v \<in> set s'. word_of P v" for s'
    using less.hyps [OF _ that] pos by simp
  have ins: "\<forall>v \<in> set (string_set_insert [] s'). word_of P v" if "\<forall>v \<in> set s'. word_of P v" for s'
    using that by (simp add: string_set_insert_all)
  have one: "\<forall>v \<in> set (if s = [] then [[]] else s). word_of P v" using less.prems(2) by simp
  show ?case
  proof (cases "in_context Values (fst (items ! pos)) = IdentifierToken")
    case True
    then have "\<forall>v \<in> set (string_set_insert (snd (items ! pos)) s). word_of P v"
      using rd less.prems(2) by (simp add: string_set_insert_all)
    then show ?thesis
      using less.prems(1) IH1 True by (auto simp: parse_identifiers_list_at [OF pos] Let_def split: if_splits)
  next
    case False
    then show ?thesis
      using less.prems(1) IH1 [OF _ one] IH2 [OF _ ins [OF one]] ins [OF one]
      by (simp add: parse_identifiers_list_at [OF pos] Let_def split: if_splits)
  qed
qed

definition word_req :: "(char \<Rightarrow> bool) \<Rightarrow> requirement \<Rightarrow> bool" where
  "word_req P r \<longleftrightarrow> req_key r \<noteq> [] \<and> word_of P (req_key r) \<and> (\<forall>v \<in> set (req_vals r). word_of P v)"

lemma parse_key_word:
  assumes items: "\<forall>item \<in> set items. word_item P item"
    and "parse_key_and_infer_operator items pos = Inr (k, op, pos')"
  shows "k \<noteq> [] \<and> word_of P k"
  using assms(2) read_word [OF items]
  by (auto simp: parse_key_and_infer_operator_def and_then_Inr_iff consume_Inr lookahead_Inr split: if_splits)

lemma parse_values_words:
  assumes items: "\<forall>item \<in> set items. word_item P item"
    and "parse_values items pos = Inr (vs, pos')"
  shows "\<forall>v \<in> set vs. word_of P v"
  using assms(2) parse_identifiers_list_words [OF items]
  by (fastforce simp: parse_values_def and_then_Inr_iff consume_Inr split: if_splits)

lemma parse_exact_value_words:
  assumes items: "\<forall>item \<in> set items. word_item P item"
    and "parse_exact_value items pos = Inr (vs, pos')"
  shows "\<forall>v \<in> set vs. word_of P v"
  using assms(2) read_word [OF items]
  by (auto simp: parse_exact_value_def and_then_Inr_iff consume_Inr lookahead_Inr split: if_splits)

lemma parse_requirement_words:
  assumes items: "\<forall>item \<in> set items. word_item P item"
    and "parse_requirement items pos = Inr (r, pos')"
  shows "word_req P r"
proof -
  from assms(2) obtain k op p1 where k: "parse_key_and_infer_operator items pos = Inr (k, op, p1)"
    unfolding parse_requirement_def and_then_Inr_iff by auto
  note key = parse_key_word [OF items k]
  show ?thesis
  proof (cases "op = OpExists \<or> op = OpDoesNotExist")
    case True
    then have "r = \<lparr>req_key = k, req_op = op, req_vals = []\<rparr>"
      using assms(2) by (simp add: parse_requirement_def k checked_requirement_Inr)
    then show ?thesis using key by (simp add: word_req_def)
  next
    case False
    let ?vals = "\<lambda>op2 p2. if op2 \<in> {OpIn, OpNotIn} then parse_values items p2
              else if op2 \<in> {OpEquals, OpDoubleEquals, OpNotEquals, OpGreaterThan, OpLessThan}
              then parse_exact_value items p2 else Inr ([], p2)"
    from False have "and_then (parse_operator items p1) (\<lambda>(op2, p2). and_then (?vals op2 p2)
        (\<lambda>(vs, p3). checked_requirement k op2 (sort vs) p3)) = Inr (r, pos')"
      using assms(2) unfolding parse_requirement_def k and_then.simps prod.case by presburger
    then obtain x where x: "(case x of (op2, p2) \<Rightarrow> and_then (?vals op2 p2)
        (\<lambda>(vs, p3). checked_requirement k op2 (sort vs) p3)) = Inr (r, pos')"
      unfolding and_then_Inr_iff by (elim exE conjE)
    obtain op2 p2 where op2: "x = (op2, p2)" by (cases x)
    from x obtain y where y: "?vals op2 p2 = Inr y" "(case y of (vs, p3) \<Rightarrow> checked_requirement k op2 (sort vs) p3) = Inr (r, pos')"
      unfolding op2 prod.case and_then_Inr_iff by (elim exE conjE)
    obtain vs p3 where "y = (vs, p3)" by (cases y)
    with y have
      vals: "(if op2 \<in> {OpIn, OpNotIn} then parse_values items p2
              else if op2 \<in> {OpEquals, OpDoubleEquals, OpNotEquals, OpGreaterThan, OpLessThan}
              then parse_exact_value items p2 else Inr ([], p2)) = Inr (vs, p3)"
      and r: "r = \<lparr>req_key = k, req_op = op2, req_vals = sort vs\<rparr>"
      by (simp_all only: prod.case checked_requirement_Inr)
    from vals have "parse_values items p2 = Inr (vs, p3) \<or> parse_exact_value items p2 = Inr (vs, p3) \<or> vs = []"
      by (simp only: split: if_splits) simp_all
    then have "\<forall>v \<in> set vs. word_of P v"
      using parse_values_words [OF items] parse_exact_value_words [OF items] by auto
    then show ?thesis using key r by (simp add: word_req_def)
  qed
qed

lemma parse_loop_words:
  assumes items: "\<forall>item \<in> set items. word_item P item"
  shows "parse_loop items pos rs = Inr out \<Longrightarrow> \<forall>r \<in> set rs. word_req P r \<Longrightarrow> \<forall>r \<in> set out. word_req P r"
proof (induction "length items - pos" arbitrary: pos rs rule: less_induct)
  case less
  have IH: "\<forall>r \<in> set out. word_req P r"
    if "parse_loop items p rs' = Inr out" "pos < p" "pos < length items" "\<forall>r \<in> set rs'. word_req P r"
    for p rs'
    using less.hyps [OF _ that(1) that(4)] that by simp
  show ?case
  proof (cases "parse_requirement items pos")
    case (Inl e)
    from less.prems(1) show ?thesis
      by (subst (asm) parse_loop.simps)
        (auto simp: Inl and_then_Inr_iff less.prems(2) split: if_splits)
  next
    case (Inr x)
    obtain r p where x: "x = (r, p)" by (cases x)
    have r: "word_req P r" "pos < p"
      using Inr x parse_requirement_words [OF items] parse_requirement_pos by auto
    from less.prems(1) show ?thesis
      by (subst (asm) parse_loop.simps)
        (auto simp: Inr x r less.prems(2) and_then_Inr_iff consume_Inr lookahead_Inr
          less_SucI split: if_splits dest!: IH)
  qed
qed

text \<open>What every successful parse returns.\<close>

lemma parse_Inr:
  assumes "parse srt s = Inr rs" "sorts_by req_key srt"
  shows "list_all printable rs" and "\<forall>c \<in> set s. P c \<Longrightarrow> list_all (word_req P) rs"
    and "sorted (map req_key rs)"
proof -
  from assms(1) obtain out where out: "parse_loop (scan \<lparr>lex_s = s, lex_pos = 0\<rparr>) 0 [] = Inr out"
    and rs: "rs = srt out" by (auto simp: parse_def and_then_Inr_iff)
  have set: "set rs = set out" using assms(2) rs unfolding sorts_by_def by (metis mset_eq_setD)
  have words: "\<forall>c \<in> set s. Q c \<Longrightarrow> \<forall>r \<in> set out. word_req Q r" for Q
    using parse_loop_words [OF scan_word_items out] by simp
  from words [of P] show "\<forall>c \<in> set s. P c \<Longrightarrow> list_all (word_req P) rs"
    by (simp add: list_all_iff set)
  have "\<forall>r \<in> set out. req_ok r" using parse_loop_ok [OF out] by simp
  with words [of "\<lambda>_. True"] show "list_all printable rs"
    by (auto simp: list_all_iff set printable_def word_req_def word_of_def id_string_def)
  show "sorted (map req_key rs)" using assms(2) rs by (simp add: sorts_by_def)
qed

text \<open>The sorts of package \<open>sort\<close> leave a sorted slice as it is.\<close>

definition keeps_sorted :: "(requirement list \<Rightarrow> requirement list) \<Rightarrow> bool" where
  "keeps_sorted srt \<longleftrightarrow> (\<forall>rs. sorted (map req_key rs) \<longrightarrow> srt rs = rs)"

lemma keeps_sorted_stable: "keeps_sorted (sort_key req_key)"
  by (auto simp: keeps_sorted_def intro: properties_for_sort_key)

text \<open>Printing a parsed selector gives a normal form: for any text \<open>Parse\<close> accepts, parsing the printed
  form of the result returns exactly the same requirements.\<close>
theorem parse_print_normal:
  assumes "sorts_by req_key srt" "keeps_sorted srt" "parse srt s = Inr rs"
  shows "parse srt (sel_string (InternalSel rs)) = Inr rs"
  using parse_printed [OF parse_Inr(1) [OF assms(3,1)], of srt] parse_Inr(3) [OF assms(3,1)] assms(2)
  by (simp add: keeps_sorted_def)

theorem parse_print_normal_witness:
  "parse (sort_key req_key) ''b==2 , a in(,y, x)''
     = Inr [\<lparr>req_key = ''a'', req_op = OpIn, req_vals = [[], ''x'', ''y'']\<rparr>,
            \<lparr>req_key = ''b'', req_op = OpDoubleEquals, req_vals = [''2'']\<rparr>]
   \<and> parse (sort_key req_key) ''a in (,x,y),b==2''
     = Inr [\<lparr>req_key = ''a'', req_op = OpIn, req_vals = [[], ''x'', ''y'']\<rparr>,
            \<lparr>req_key = ''b'', req_op = OpDoubleEquals, req_vals = [''2'']\<rparr>]"
proof -
  let ?rs = "[\<lparr>req_key = ''a'', req_op = OpIn, req_vals = [[], ''x'', ''y'']\<rparr>,
            \<lparr>req_key = ''b'', req_op = OpDoubleEquals, req_vals = [''2'']\<rparr>]"
  have p: "parse (sort_key req_key) ''b==2 , a in(,y, x)'' = Inr ?rs" by code_simp
  have s: "sel_string (InternalSel ?rs) = ''a in (,x,y),b==2''" by code_simp
  show ?thesis using parse_print_normal [OF sorts_by_sort_key keeps_sorted_stable p] p s by simp
qed

end
