(* ===== verification/Filters.thy ===== *)
theory Filters
  imports Label_Selector
begin

section \<open>Filtering queries and SQL clauses\<close>

text \<open>
  \<^verbatim>\<open>query/grammar/filters.go\<close>, \<^verbatim>\<open>query/grammar/query.go\<close>, the node builders of
  \<^verbatim>\<open>query/grammar/grammar_parser.go\<close>, and the JSON column clauses of
  \<^verbatim>\<open>query/resource_selector.go\<close>: a comma separated filter (\<open>a,!b,c*,*d,*e*\<close>) is sorted into
  buckets and rendered as gorm clauses. A gorm clause is a datatype: the text of the SQL with its
  variables, or one of the connectives and comparisons the code builds. What PostgreSQL makes of
  a clause is not code of the repository: \<open>text_sql\<close> states the documented behaviour of the four
  templates used for text columns.
\<close>

subsection \<open>Clauses\<close>

record column =
  col_name :: string
  col_raw :: bool

datatype qvalue = QNil | QStr string | QOther string  \<comment> \<open>any other value, by its \<open>fmt.Sprint\<close> text\<close>

datatype sql_arg =
    ArgColumn column | ArgString string | ArgStrings "string list"
  | ArgTextArray "string list" | ArgExpr string | ArgMap string string | ArgNil

datatype clause =
    Expr string "sql_arg list"
  | CNot clause
  | COr "clause list"
  | CLt string qvalue
  | CGt string qvalue
  | CIsNotNull string
  | CIsNull string

datatype field_type = FieldTypeUnknown | FieldTypeJsonbArray | FieldTypeTextArray

record expressions =
  e_in :: "string list"
  e_prefix :: "string list"
  e_suffix :: "string list"
  e_glob :: "string list"

record filtering_query =
  fq_pos :: expressions
  fq_not :: expressions

definition no_expressions :: expressions where
  "no_expressions = \<lparr>e_in = [], e_prefix = [], e_suffix = [], e_glob = []\<rparr>"

subsection \<open>Rendering\<close>

definition text_array_like_expression :: "column \<Rightarrow> string \<Rightarrow> clause" where
  "text_array_like_expression column pattern =
     Expr ''EXISTS (SELECT 1 FROM unnest(?) AS value WHERE value LIKE ?)''
       [ArgColumn column, ArgString pattern]"

definition text_array_field_expression :: "expressions \<Rightarrow> string \<Rightarrow> clause list" where
  "text_array_field_expression e field =
     (let col = \<lparr>col_name = field, col_raw = False\<rparr>;
          values = map trim_space (e_in e);
          operator = (if length values > 1 then ''&&'' else ''@>'')
      in (if length (e_in e) > 0
          then [Expr (''? '' @ operator @ '' ?::text[]'') [ArgColumn col, ArgTextArray values]] else [])
       @ map (\<lambda>v. text_array_like_expression col (v @ ''%'')) (e_prefix e)
       @ map (\<lambda>v. text_array_like_expression col (''%'' @ v @ ''%'')) (e_glob e)
       @ map (\<lambda>v. text_array_like_expression col (''%'' @ v)) (e_suffix e))"

definition like_regex_expression :: "string \<Rightarrow> string \<Rightarrow> clause" where
  "like_regex_expression field regexp =
     Expr (''jsonb_path_exists(?, '' @ [CHR 0x27] @ ''$[*] ? (@ like_regex '' @ [CHR 0x22] @ regexp
           @ [CHR 0x22] @ '')'' @ [CHR 0x27] @ '')'')
       [ArgColumn \<lparr>col_name = field, col_raw = False\<rparr>, ArgExpr ''?'']"

definition jsonb_list_field_expression :: "expressions \<Rightarrow> string \<Rightarrow> clause list" where
  "jsonb_list_field_expression e field =
     (if length (e_in e) > 0
      then [Expr (field @ '' ? ?'') [ArgExpr ''?'', ArgStrings (e_in e)]] else [])
     @ map (\<lambda>g. like_regex_expression field (''.*'' @ g @ ''.*'')) (e_glob e)
     @ map (\<lambda>p. like_regex_expression field (''^'' @ p @ ''.*'')) (e_prefix e)
     @ map (\<lambda>s. like_regex_expression field (''.*'' @ s @ ''$'')) (e_suffix e)"

definition text_eq_sql :: string where "text_eq_sql = ''LOWER(CAST(? AS TEXT)) = ?''"
definition text_in_sql :: string where "text_in_sql = ''LOWER(CAST(? AS TEXT)) IN ?''"
definition text_like_sql :: string where "text_like_sql = ''LOWER(CAST(? AS TEXT)) LIKE ?''"

definition lower_any_slice :: "string list \<Rightarrow> string list" where
  "lower_any_slice items = map to_lower items"

definition text_field_expression :: "expressions \<Rightarrow> string \<Rightarrow> clause list" where
  "text_field_expression e field =
     (let col = \<lparr>col_name = field, col_raw = contains ''->'' field\<rparr>
      in (if length (e_in e) = 1
          then [Expr text_eq_sql [ArgColumn col, ArgString (to_lower (e_in e ! 0))]]
          else if length (e_in e) > 1
          then [Expr text_in_sql [ArgColumn col, ArgStrings (lower_any_slice (e_in e))]]
          else [])
       @ map (\<lambda>p. Expr text_like_sql [ArgColumn col, ArgString (to_lower p @ ''%'')]) (e_prefix e)
       @ map (\<lambda>g. Expr text_like_sql [ArgColumn col, ArgString (''%'' @ to_lower g @ ''%'')]) (e_glob e)
       @ map (\<lambda>s. Expr text_like_sql [ArgColumn col, ArgString (''%'' @ to_lower s)]) (e_suffix e))"

fun to_expression :: "expressions \<Rightarrow> string \<Rightarrow> field_type \<Rightarrow> clause list" where
  "to_expression e field FieldTypeJsonbArray = jsonb_list_field_expression e field"
| "to_expression e field FieldTypeTextArray = text_array_field_expression e field"
| "to_expression e field FieldTypeUnknown = text_field_expression e field"

fun negate_expr :: "clause \<Rightarrow> clause" where
  "negate_expr (Expr sql vars) = Expr (''NOT ('' @ sql @ '')'') vars"
| "negate_expr c = CNot c"

definition fq_to_expression :: "filtering_query \<Rightarrow> string \<Rightarrow> field_type \<Rightarrow> clause list" where
  "fq_to_expression fq field ft =
     (if length (to_expression (fq_pos fq) field ft) > 0
      then to_expression (fq_pos fq) field ft else [])
     @ map negate_expr (to_expression (fq_not fq) field ft)"

subsection \<open>Parsing\<close>

text \<open>\<open>url.QueryUnescape\<close>: \<open>+\<close> is a space, \<open>%XX\<close> a byte; \<open>None\<close> is the error return.\<close>

definition hex_val :: "char \<Rightarrow> nat option" where
  "hex_val c = (let n = of_char c :: nat in
     if 48 \<le> n \<and> n \<le> 57 then Some (n - 48)
     else if 97 \<le> n \<and> n \<le> 102 then Some (n - 87)
     else if 65 \<le> n \<and> n \<le> 70 then Some (n - 55) else None)"

fun query_unescape :: "string \<Rightarrow> string option" where
  "query_unescape [] = Some []"
| "query_unescape (c # s) =
     (if c = CHR ''%'' then
        (case s of
           h # l # s' \<Rightarrow>
             (case (hex_val h, hex_val l) of
                (Some a, Some b) \<Rightarrow> map_option ((#) (char_of (16 * a + b))) (query_unescape s')
              | _ \<Rightarrow> None)
         | _ \<Rightarrow> None)
      else map_option ((#) (if c = CHR ''+'' then CHR '' '' else c)) (query_unescape s))"

definition is_star :: "char \<Rightarrow> bool" where
  "is_star c \<longleftrightarrow> c = CHR ''*''"

definition classify :: "string \<Rightarrow> expressions \<Rightarrow> expressions" where
  "classify item q =
     (if has_prefix ''*'' item \<and> has_suffix ''*'' item
      then q\<lparr>e_glob := e_glob q @ [trim_where is_star item]\<rparr>
      else if has_prefix ''*'' item then q\<lparr>e_suffix := e_suffix q @ [trim_prefix ''*'' item]\<rparr>
      else if has_suffix ''*'' item then q\<lparr>e_prefix := e_prefix q @ [trim_suffix ''*'' item]\<rparr>
      else q\<lparr>e_in := e_in q @ [item]\<rparr>)"

definition add_item :: "string \<Rightarrow> filtering_query \<Rightarrow> filtering_query" where
  "add_item item fq =
     (if has_prefix ''!'' item then fq\<lparr>fq_not := classify (trim_prefix ''!'' item) (fq_not fq)\<rparr>
      else fq\<lparr>fq_pos := classify item (fq_pos fq)\<rparr>)"

fun parse_items :: "bool \<Rightarrow> filtering_query \<Rightarrow> string list \<Rightarrow> string + filtering_query" where
  "parse_items decode_url result [] = Inr result"
| "parse_items decode_url result (item # items) =
     (case (if decode_url then query_unescape item else Some item) of
        None \<Rightarrow> Inl ''failed to unescape query''
      | Some item' \<Rightarrow> parse_items decode_url (add_item item' result) items)"

definition parse_filtering_query_v2 :: "string \<Rightarrow> bool \<Rightarrow> string + filtering_query" where
  "parse_filtering_query_v2 query decode_url =
     (let result = \<lparr>fq_pos = no_expressions, fq_not = no_expressions\<rparr> in
      if query = [] then Inr result
      else parse_items decode_url result (split_char (CHR '','') query))"

subsection \<open>Query fields\<close>

datatype query_op =
    QEq | QNeq | QGt | QLt | QIn | QNotIn | QExists | QNotExists | QOpOther string

definition to_selection_operator :: "query_op \<Rightarrow> operator" where
  "to_selection_operator op =
     (case op of
        QEq \<Rightarrow> OpEquals | QNeq \<Rightarrow> OpNotEquals | QIn \<Rightarrow> OpIn | QNotIn \<Rightarrow> OpNotIn
      | QExists \<Rightarrow> OpExists | QNotExists \<Rightarrow> OpDoesNotExist | _ \<Rightarrow> OpEquals)"

datatype query_field =
  QueryField (qf_field: string) (qf_type: field_type) (qf_value: qvalue) (qf_op: query_op)
    (qf_fields: "query_field list")

fun sprint :: "qvalue \<Rightarrow> string" where
  "sprint QNil = ''<nil>''"
| "sprint (QStr s) = s"
| "sprint (QOther s) = s"

datatype clause_error = UnescapeFailed string | InvalidOperator query_op

definition to_clauses :: "query_field \<Rightarrow> clause_error + clause list" where
  "to_clauses q =
     (case parse_filtering_query_v2 (sprint (qf_value q)) False of
        Inl e \<Rightarrow> Inl (UnescapeFailed e)
      | Inr filters \<Rightarrow>
          (case qf_op q of
             QEq \<Rightarrow> Inr (fq_to_expression filters (qf_field q) (qf_type q))
           | QNeq \<Rightarrow>
               (case fq_to_expression filters (qf_field q) (qf_type q) of
                  [] \<Rightarrow> Inr []
                | [e] \<Rightarrow> Inr [CNot e]
                | es \<Rightarrow> Inr [CNot (COr es)])
           | QLt \<Rightarrow> Inr [CLt (qf_field q) (qf_value q)]
           | QGt \<Rightarrow> Inr [CGt (qf_field q) (qf_value q)]
           | QExists \<Rightarrow> Inr [CIsNotNull (qf_field q)]
           | QNotExists \<Rightarrow> Inr [CIsNull (qf_field q)]
           | _ \<Rightarrow> Inl (InvalidOperator (qf_op q))))"

fun flat_fields :: "query_field \<Rightarrow> string list" where
  "flat_fields (QueryField field ft v op subs) =
     (if field \<noteq> [] then [field] else []) @ concat (map flat_fields subs)"

text \<open>The values the generated parser passes to the node builders.\<close>

datatype peg_value = PField query_field | PList "peg_value list" | PString string | PUnknown

definition list_fields :: "peg_value list \<Rightarrow> query_field list" where
  "list_fields vs = concat (map (\<lambda>v. case v of PField f \<Rightarrow> [f] | _ \<Rightarrow> []) vs)"

definition make_and_query :: "peg_value \<Rightarrow> peg_value \<Rightarrow> query_field" where
  "make_and_query a b =
     QueryField [] FieldTypeUnknown QNil (QOpOther ''and'')
       ((case a of PField v \<Rightarrow> [v] | _ \<Rightarrow> [])
        @ (case b of PField v \<Rightarrow> [v] | PList vs \<Rightarrow> list_fields vs | _ \<Rightarrow> []))"

definition make_query :: "peg_value \<Rightarrow> peg_value \<Rightarrow> query_field" where
  "make_query a b =
     QueryField [] FieldTypeUnknown QNil (QOpOther ''or'')
       ((case a of PField v \<Rightarrow> [v] | _ \<Rightarrow> [])
        @ (case b of PField v \<Rightarrow> [v] | PList vs \<Rightarrow> list_fields vs | _ \<Rightarrow> []))"

text \<open>\<open>makeSource\<close>: the first segment and the others, each given with the dot that precedes it.\<close>

definition make_source :: "string \<Rightarrow> (string \<times> string list) list \<Rightarrow> string" where
  "make_source name path = join ''.'' (name # concat (map snd path))"

subsection \<open>Label and tag requirements on a JSON column\<close>

definition json_arrow :: "string \<Rightarrow> string \<Rightarrow> string" where
  "json_arrow column key = column @ ''->>'' @ [CHR 0x27] @ key @ [CHR 0x27]"

definition json_column_clauses :: "string \<Rightarrow> requirement \<Rightarrow> clause list" where
  "json_column_clauses column r =
     (let k = req_key r; vs = remdups (req_vals r) in
      case req_op r of
        OpEquals \<Rightarrow> map (\<lambda>v. Expr (column @ '' @> ?'') [ArgMap k v]) vs
      | OpDoubleEquals \<Rightarrow> map (\<lambda>v. Expr (column @ '' @> ?'') [ArgMap k v]) vs
      | OpNotEquals \<Rightarrow> map (\<lambda>v. Expr (json_arrow column k @ '' != ?'')
            [if v = ''nil'' then ArgNil else ArgString v]) vs
      | OpIn \<Rightarrow> [Expr (json_arrow column k @ '' IN ?'') [ArgStrings vs]]
      | OpNotIn \<Rightarrow> [Expr (json_arrow column k @ '' NOT IN ?'') [ArgStrings vs]]
      | OpDoesNotExist \<Rightarrow> [Expr (json_arrow column k @ '' IS NULL'') []]
      | OpExists \<Rightarrow> [Expr (column @ '' ? ?'') [ArgExpr ''?'', ArgString k]]
      | OpGreaterThan \<Rightarrow> map (\<lambda>v. Expr (json_arrow column k @ '' > ?'') [ArgString v]) vs
      | OpLessThan \<Rightarrow> map (\<lambda>v. Expr (json_arrow column k @ '' < ?'') [ArgString v]) vs
      | OpOther _ \<Rightarrow> [])"

subsection \<open>What a filter on a text column means\<close>

text \<open>\<open>LIKE\<close> with its two metacharacters and the default escape character.\<close>

fun sql_like :: "string \<Rightarrow> string \<Rightarrow> bool" where
  "sql_like [] s \<longleftrightarrow> s = []"
| "sql_like (p # ps) [] \<longleftrightarrow> p = CHR ''%'' \<and> sql_like ps []"
| "sql_like (p # ps) (c # s) \<longleftrightarrow>
     (if p = CHR ''%'' then sql_like ps (c # s) \<or> sql_like (p # ps) s
      else if p = CHR ''_'' then sql_like ps s
      else if p = CHR 0x5C then (case ps of [] \<Rightarrow> False | e # ps' \<Rightarrow> e = c \<and> sql_like ps' s)
      else p = c \<and> sql_like ps s)"

text \<open>The documented behaviour of the four templates on a row whose column is not NULL; \<open>val\<close> is the
  text of the column.\<close>

definition text_sql :: "('row \<Rightarrow> clause \<Rightarrow> bool) \<Rightarrow> ('row \<Rightarrow> column \<Rightarrow> string) \<Rightarrow> bool" where
  "text_sql holds val \<longleftrightarrow>
     (\<forall>row col s. holds row (Expr text_eq_sql [ArgColumn col, ArgString s]) = (to_lower (val row col) = s)) \<and>
     (\<forall>row col ss. holds row (Expr text_in_sql [ArgColumn col, ArgStrings ss]) = (to_lower (val row col) \<in> set ss)) \<and>
     (\<forall>row col s. holds row (Expr text_like_sql [ArgColumn col, ArgString s]) = sql_like s (to_lower (val row col))) \<and>
     (\<forall>row sql vars. holds row (Expr (''NOT ('' @ sql @ '')'') vars) = (\<not> holds row (Expr sql vars))) \<and>
     (\<forall>row c. holds row (CNot c) = (\<not> holds row c)) \<and>
     (\<forall>row cs. holds row (COr cs) = (\<exists>c \<in> set cs. holds row c))"

definition like_plain :: "string \<Rightarrow> bool" where
  "like_plain = list_all (\<lambda>c. c \<notin> {CHR ''%'', CHR ''_'', CHR 0x5C})"

lemma sql_like_percent: "sql_like (CHR ''%'' # ps) s \<longleftrightarrow> (\<exists>t u. s = t @ u \<and> sql_like ps u)"
proof (induction s)
  case Nil
  then show ?case by simp
next
  case (Cons c s)
  have "(\<exists>t u. c # s = t @ u \<and> sql_like ps u) \<longleftrightarrow>
      sql_like ps (c # s) \<or> (\<exists>t u. s = t @ u \<and> sql_like ps u)"
    by (auto simp: Cons_eq_append_conv)
  with Cons show ?case by simp
qed

lemma sql_like_plain_append:
  "like_plain p \<Longrightarrow> sql_like (p @ ps) s \<longleftrightarrow> (\<exists>u. s = p @ u \<and> sql_like ps u)"
proof (induction p arbitrary: s)
  case (Cons c p)
  then show ?case by (cases s) (auto simp: like_plain_def)
qed simp

lemma sql_like_plain: "like_plain p \<Longrightarrow> sql_like p s \<longleftrightarrow> s = p"
  using sql_like_plain_append [of p "[]" s] by auto

lemma contains_iff: "contains sub s \<longleftrightarrow> (\<exists>t u. s = t @ sub @ u)"
proof (induction s)
  case (Cons c s)
  have "(\<exists>t u. c # s = t @ sub @ u) \<longleftrightarrow> (\<exists>u. c # s = sub @ u) \<or> (\<exists>t u. s = t @ sub @ u)"
    by (auto simp: Cons_eq_append_conv intro: exI [of _ "[]"])
  with Cons show ?case by (simp add: has_prefix_iff)
qed auto

lemma sql_like_shapes:
  assumes "like_plain p"
  shows "sql_like (p @ ''%'') s \<longleftrightarrow> has_prefix p s"
    and "sql_like (CHR ''%'' # p) s \<longleftrightarrow> has_suffix p s"
    and "sql_like (CHR ''%'' # p @ ''%'') s \<longleftrightarrow> contains p s"
  using assms
  by (auto simp: sql_like_plain_append sql_like_percent sql_like_plain has_prefix_iff has_suffix_iff
      contains_iff)

text \<open>What one item of a filter accepts, written over the item itself.\<close>

definition is_wild :: "string \<Rightarrow> bool" where
  "is_wild item \<longleftrightarrow> has_prefix ''*'' item \<or> has_suffix ''*'' item"

definition item_matches :: "string \<Rightarrow> string \<Rightarrow> bool" where
  "item_matches item v =
     (if has_prefix ''*'' item \<and> has_suffix ''*'' item
      then contains (to_lower (trim_where is_star item)) v
      else if has_prefix ''*'' item then has_suffix (to_lower (tl item)) v
      else if has_suffix ''*'' item then has_prefix (to_lower (butlast item)) v
      else v = to_lower item)"

definition is_negated :: "string \<Rightarrow> bool" where
  "is_negated item \<longleftrightarrow> has_prefix ''!'' item"

text \<open>The buckets of a parsed filter, item by item.\<close>

definition globs :: "string list \<Rightarrow> string list" where
  "globs items = map (trim_where is_star) (filter (\<lambda>i. has_prefix ''*'' i \<and> has_suffix ''*'' i) items)"

definition suffixes_of :: "string list \<Rightarrow> string list" where
  "suffixes_of items = map tl (filter (\<lambda>i. has_prefix ''*'' i \<and> \<not> has_suffix ''*'' i) items)"

definition prefixes_of :: "string list \<Rightarrow> string list" where
  "prefixes_of items = map butlast (filter (\<lambda>i. \<not> has_prefix ''*'' i \<and> has_suffix ''*'' i) items)"

definition plains :: "string list \<Rightarrow> string list" where
  "plains items = filter (\<lambda>i. \<not> is_wild i) items"

definition buckets :: "string list \<Rightarrow> expressions" where
  "buckets items = \<lparr>e_in = plains items, e_prefix = prefixes_of items,
     e_suffix = suffixes_of items, e_glob = globs items\<rparr>"

lemma trim_star:
  "has_prefix ''*'' i \<Longrightarrow> trim_prefix ''*'' i = tl i"
  "has_suffix ''*'' i \<Longrightarrow> trim_suffix ''*'' i = butlast i"
  by (cases i; simp add: trim_prefix_def)
    (auto simp: trim_suffix_def has_suffix_iff)

lemma classify_buckets: "classify i (buckets is) = buckets (is @ [i])"
  by (auto simp: classify_def buckets_def plains_def prefixes_of_def suffixes_of_def globs_def
      is_wild_def trim_star)

definition positives :: "string list \<Rightarrow> string list" where
  "positives items = filter (\<lambda>i. \<not> is_negated i) items"

definition negatives :: "string list \<Rightarrow> string list" where
  "negatives items = map tl (filter is_negated items)"

lemma add_item_buckets:
  "add_item i \<lparr>fq_pos = buckets (positives is), fq_not = buckets (negatives is)\<rparr> =
   \<lparr>fq_pos = buckets (positives (is @ [i])), fq_not = buckets (negatives (is @ [i]))\<rparr>"
  by (cases i) (auto simp: add_item_def positives_def negatives_def is_negated_def classify_buckets
      trim_prefix_def)

lemma parse_items_buckets:
  "parse_items False \<lparr>fq_pos = buckets (positives is), fq_not = buckets (negatives is)\<rparr> items =
   Inr \<lparr>fq_pos = buckets (positives (is @ items)), fq_not = buckets (negatives (is @ items))\<rparr>"
proof (induction items arbitrary: "is")
  case (Cons i items)
  then show ?case using Cons.IH [of "is @ [i]"] by (simp add: add_item_buckets)
qed simp

definition filter_items :: "string \<Rightarrow> string list" where
  "filter_items query = (if query = [] then [] else split_char (CHR '','') query)"

lemma parse_filtering_buckets:
  "parse_filtering_query_v2 query False =
   Inr \<lparr>fq_pos = buckets (positives (filter_items query)), fq_not = buckets (negatives (filter_items query))\<rparr>"
proof -
  have none: "no_expressions = buckets []"
    by (simp add: no_expressions_def buckets_def plains_def prefixes_of_def suffixes_of_def globs_def)
  show ?thesis
    using parse_items_buckets [of "[]" "split_char (CHR '','') query"]
    by (simp add: parse_filtering_query_v2_def filter_items_def none positives_def negatives_def)
qed

lemma text_clauses_hold:
  assumes "text_sql holds val" "list_all like_plain (map to_lower (e_prefix e @ e_glob e @ e_suffix e))"
  shows "(\<forall>c \<in> set (text_field_expression e f). holds row c) \<longleftrightarrow>
    (let v = to_lower (val row \<lparr>col_name = f, col_raw = contains ''->'' f\<rparr>) in
     (e_in e = [] \<or> v \<in> to_lower ` set (e_in e)) \<and> (\<forall>p \<in> set (e_prefix e). has_prefix (to_lower p) v)
     \<and> (\<forall>g \<in> set (e_glob e). contains (to_lower g) v) \<and> (\<forall>s \<in> set (e_suffix e). has_suffix (to_lower s) v))"
    (is ?all)
  and "(\<exists>c \<in> set (text_field_expression e f). holds row c) \<longleftrightarrow>
    (let v = to_lower (val row \<lparr>col_name = f, col_raw = contains ''->'' f\<rparr>) in
     v \<in> to_lower ` set (e_in e) \<or> (\<exists>p \<in> set (e_prefix e). has_prefix (to_lower p) v)
     \<or> (\<exists>g \<in> set (e_glob e). contains (to_lower g) v) \<or> (\<exists>s \<in> set (e_suffix e). has_suffix (to_lower s) v))"
    (is ?ex)
proof -
  let ?col = "\<lparr>col_name = f, col_raw = contains ''->'' f\<rparr>"
  note sql = assms(1) [unfolded text_sql_def]
  have eq: "holds row (Expr text_eq_sql [ArgColumn ?col, ArgString s]) = (to_lower (val row ?col) = s)"
    and inn: "holds row (Expr text_in_sql [ArgColumn ?col, ArgStrings ss]) = (to_lower (val row ?col) \<in> set ss)"
    and lk: "holds row (Expr text_like_sql [ArgColumn ?col, ArgString s]) = sql_like s (to_lower (val row ?col))"
    for s ss
    using sql by blast+
  have pl: "p \<in> set (e_prefix e) \<union> set (e_glob e) \<union> set (e_suffix e) \<Longrightarrow> like_plain (to_lower p)" for p
    using assms(2) by (auto simp: list_all_iff)
  have likes: "p \<in> set (e_prefix e) \<Longrightarrow> holds row (Expr text_like_sql [ArgColumn ?col, ArgString (to_lower p @ ''%'')])
      = has_prefix (to_lower p) (to_lower (val row ?col))"
    "p \<in> set (e_suffix e) \<Longrightarrow> holds row (Expr text_like_sql [ArgColumn ?col, ArgString (CHR ''%'' # to_lower p)])
      = has_suffix (to_lower p) (to_lower (val row ?col))"
    "p \<in> set (e_glob e) \<Longrightarrow> holds row (Expr text_like_sql [ArgColumn ?col, ArgString (CHR ''%'' # to_lower p @ ''%'')])
      = contains (to_lower p) (to_lower (val row ?col))" for p
    by (simp_all add: lk sql_like_shapes pl)
  let ?ins = "(if length (e_in e) = 1
          then [Expr text_eq_sql [ArgColumn ?col, ArgString (to_lower (e_in e ! 0))]]
          else if length (e_in e) > 1
          then [Expr text_in_sql [ArgColumn ?col, ArgStrings (lower_any_slice (e_in e))]]
          else [])"
  have ins: "(\<forall>c \<in> set ?ins. holds row c) \<longleftrightarrow> e_in e = [] \<or> to_lower (val row ?col) \<in> to_lower ` set (e_in e)"
    "(\<exists>c \<in> set ?ins. holds row c) \<longleftrightarrow> to_lower (val row ?col) \<in> to_lower ` set (e_in e)"
    by (cases "e_in e" rule: remdups_adj.cases; simp add: eq inn lower_any_slice_def; blast)+
  show ?all
    using ins(1) likes unfolding text_field_expression_def Let_def set_append ball_Un
    by (simp only: set_map ball_simps append_Cons append_Nil) (auto simp: likes)
  show ?ex
    using ins(2) likes unfolding text_field_expression_def Let_def set_append bex_Un
    by (simp only: set_map bex_simps append_Cons append_Nil) (auto simp: likes)
qed

lemma negate_text_holds:
  assumes "text_sql holds val" "c \<in> set (text_field_expression e f)"
  shows "holds row (negate_expr c) \<longleftrightarrow> \<not> holds row c"
proof -
  obtain sql vars where "c = Expr sql vars"
    using assms(2) by (auto simp: text_field_expression_def Let_def split: if_splits)
  then show ?thesis using assms(1) by (simp add: text_sql_def)
qed

lemma fq_text_holds:
  assumes "text_sql holds val"
  shows "(\<forall>c \<in> set (fq_to_expression fq f FieldTypeUnknown). holds row c) \<longleftrightarrow>
      (\<forall>c \<in> set (text_field_expression (fq_pos fq) f). holds row c)
      \<and> \<not> (\<exists>c \<in> set (text_field_expression (fq_not fq) f). holds row c)"
    and "(\<exists>c \<in> set (fq_to_expression fq f FieldTypeUnknown). holds row c) \<longleftrightarrow>
      (\<exists>c \<in> set (text_field_expression (fq_pos fq) f). holds row c)
      \<or> \<not> (\<forall>c \<in> set (text_field_expression (fq_not fq) f). holds row c)"
  using negate_text_holds [OF assms, of _ "fq_not fq" f row]
  by (auto simp: fq_to_expression_def)

text \<open>The buckets and the items.\<close>

lemma tl_butlast_sub: "set (tl i) \<subseteq> set i" "set (butlast i) \<subseteq> set i" "set (trim_where p i) \<subseteq> set i"
proof -
  show "set (tl i) \<subseteq> set i" by (cases i) auto
  show "set (butlast i) \<subseteq> set i" by (auto dest: in_set_butlastD)
  have "set (dropWhile p xs) \<subseteq> set xs" for xs :: string by (auto dest: set_dropWhileD)
  from this [of "rev (dropWhile p i)"] this [of i] show "set (trim_where p i) \<subseteq> set i"
    by (auto simp: trim_where_def)
qed

lemma split_char_sub: "p \<in> set (split_char c s) \<Longrightarrow> set p \<subseteq> set s"
proof (induction s arbitrary: p)
  case (Cons x xs)
  obtain y ys where s: "split_char c xs = y # ys"
    by (meson neq_Nil_conv split_char_ne)
  with Cons have "p' \<in> set (y # ys) \<Longrightarrow> set p' \<subseteq> set xs" for p' by simp
  with s Cons.prems show ?case by (fastforce split: if_splits)
qed simp

lemma lower_plain_char:
  assumes "c \<notin> {CHR ''%'', CHR ''_'', CHR 0x5C}"
  shows "lower_char c \<notin> {CHR ''%'', CHR ''_'', CHR 0x5C}"
proof (cases "65 \<le> (of_char c :: nat) \<and> (of_char c :: nat) \<le> 90")
  case True
  then have "(of_char (lower_char c) :: nat) = of_char c + 32" by (simp add: lower_char_def Let_def)
  moreover have "(of_char (CHR ''%'') :: nat) = 37" "(of_char (CHR ''_'') :: nat) = 95"
    "(of_char (CHR 0x5C) :: nat) = 92" by simp_all
  ultimately show ?thesis using True by auto
next
  case False
  then have "lower_char c = c" by (simp only: lower_char_def Let_def if_False)
  then show ?thesis using assms by simp
qed

lemma like_plain_iff: "like_plain s \<longleftrightarrow> (\<forall>c \<in> set s. c \<notin> {CHR ''%'', CHR ''_'', CHR 0x5C})"
  by (auto simp: like_plain_def list_all_iff)

lemma like_plain_lower: "like_plain s \<Longrightarrow> set i \<subseteq> set s \<Longrightarrow> like_plain (to_lower i)"
proof -
  assume "like_plain s" "set i \<subseteq> set s"
  then have "c \<in> set i \<Longrightarrow> lower_char c \<notin> {CHR ''%'', CHR ''_'', CHR 0x5C}" for c
    using lower_plain_char [of c] unfolding like_plain_iff by blast
  then show "like_plain (to_lower i)" unfolding like_plain_iff to_lower_def set_map ball_simps by (rule ballI)
qed

lemma filter_items_sub: "i \<in> set (positives (filter_items q)) \<union> set (negatives (filter_items q)) \<Longrightarrow> set i \<subseteq> set q"
  using split_char_sub [of _ "CHR '',''" q] tl_butlast_sub(1)
  by (fastforce simp: positives_def negatives_def filter_items_def split: if_splits)

lemma buckets_plain:
  assumes "like_plain q" "\<forall>i \<in> set items. set i \<subseteq> set q"
  shows "list_all like_plain (map to_lower
    (e_prefix (buckets items) @ e_glob (buckets items) @ e_suffix (buckets items)))"
  using assms(2) tl_butlast_sub
  by (fastforce simp: list_all_iff buckets_def prefixes_of_def globs_def suffixes_of_def
      intro!: like_plain_lower [OF assms(1)])

lemma buckets_all:
  "(e_in (buckets items) = [] \<or> v \<in> to_lower ` set (e_in (buckets items)))
   \<and> (\<forall>p \<in> set (e_prefix (buckets items)). has_prefix (to_lower p) v)
   \<and> (\<forall>g \<in> set (e_glob (buckets items)). contains (to_lower g) v)
   \<and> (\<forall>s \<in> set (e_suffix (buckets items)). has_suffix (to_lower s) v)
   \<longleftrightarrow> (plains items = [] \<or> (\<exists>i \<in> set (plains items). item_matches i v))
   \<and> (\<forall>i \<in> set items. is_wild i \<longrightarrow> item_matches i v)"
  by (auto simp: buckets_def prefixes_of_def globs_def suffixes_of_def plains_def is_wild_def
      item_matches_def image_iff)

lemma buckets_any:
  "v \<in> to_lower ` set (e_in (buckets items)) \<or> (\<exists>p \<in> set (e_prefix (buckets items)). has_prefix (to_lower p) v)
   \<or> (\<exists>g \<in> set (e_glob (buckets items)). contains (to_lower g) v)
   \<or> (\<exists>s \<in> set (e_suffix (buckets items)). has_suffix (to_lower s) v)
   \<longleftrightarrow> (\<exists>i \<in> set items. item_matches i v)"
  by (auto simp: buckets_def prefixes_of_def globs_def suffixes_of_def plains_def is_wild_def
      item_matches_def image_iff)

definition text_column :: "string \<Rightarrow> column" where
  "text_column f = \<lparr>col_name = f, col_raw = contains ''->'' f\<rparr>"

lemma text_bucket_holds:
  assumes "text_sql holds val" "like_plain q" "\<forall>i \<in> set items. set i \<subseteq> set q"
  shows "(\<forall>c \<in> set (text_field_expression (buckets items) f). holds row c) \<longleftrightarrow>
      (plains items = [] \<or> (\<exists>i \<in> set (plains items). item_matches i (to_lower (val row (text_column f)))))
      \<and> (\<forall>i \<in> set items. is_wild i \<longrightarrow> item_matches i (to_lower (val row (text_column f))))"
    and "(\<exists>c \<in> set (text_field_expression (buckets items) f). holds row c) \<longleftrightarrow>
      (\<exists>i \<in> set items. item_matches i (to_lower (val row (text_column f))))"
proof -
  note pl = buckets_plain [OF assms(2,3)]
  show "(\<forall>c \<in> set (text_field_expression (buckets items) f). holds row c) \<longleftrightarrow>
      (plains items = [] \<or> (\<exists>i \<in> set (plains items). item_matches i (to_lower (val row (text_column f)))))
      \<and> (\<forall>i \<in> set items. is_wild i \<longrightarrow> item_matches i (to_lower (val row (text_column f))))"
    by (rule trans [OF text_clauses_hold(1) [OF assms(1) pl, unfolded Let_def, folded text_column_def] buckets_all])
  show "(\<exists>c \<in> set (text_field_expression (buckets items) f). holds row c) \<longleftrightarrow>
      (\<exists>i \<in> set items. item_matches i (to_lower (val row (text_column f))))"
    by (rule trans [OF text_clauses_hold(2) [OF assms(1) pl, unfolded Let_def, folded text_column_def] buckets_any])
qed

text \<open>The clauses of an equality and of an inequality filter, as the buckets of the items.\<close>

lemma eq_filter_holds:
  assumes "text_sql holds val" "like_plain q"
    and cs: "to_clauses (QueryField f FieldTypeUnknown (QStr q) QEq subs) = Inr cs"
  shows "(\<forall>c \<in> set cs. holds row c) \<longleftrightarrow>
    (let v = to_lower (val row (text_column f)); pos = positives (filter_items q) in
      (plains pos = [] \<or> (\<exists>i \<in> set (plains pos). item_matches i v))
      \<and> (\<forall>i \<in> set pos. is_wild i \<longrightarrow> item_matches i v)
      \<and> (\<forall>i \<in> set (negatives (filter_items q)). \<not> item_matches i v))"
proof -
  let ?pos = "positives (filter_items q)" and ?neg = "negatives (filter_items q)"
  have cs: "cs = fq_to_expression \<lparr>fq_pos = buckets ?pos, fq_not = buckets ?neg\<rparr> f FieldTypeUnknown"
    using cs by (simp add: to_clauses_def parse_filtering_buckets)
  have sub: "\<forall>i \<in> set ?pos. set i \<subseteq> set q" "\<forall>i \<in> set ?neg. set i \<subseteq> set q"
    using filter_items_sub by auto
  show ?thesis
    unfolding cs fq_text_holds [OF assms(1)] filtering_query.simps Let_def
      text_bucket_holds(1) [OF assms(1,2) sub(1)] text_bucket_holds(2) [OF assms(1,2) sub(2)]
    by blast
qed

lemma neq_filter_holds:
  assumes "text_sql holds val" "like_plain q"
    and cs: "to_clauses (QueryField f FieldTypeUnknown (QStr q) QNeq subs) = Inr cs"
  shows "(\<forall>c \<in> set cs. holds row c) \<longleftrightarrow>
    (let v = to_lower (val row (text_column f)); neg = negatives (filter_items q) in
      (\<forall>i \<in> set (positives (filter_items q)). \<not> item_matches i v)
      \<and> (plains neg = [] \<or> (\<exists>i \<in> set (plains neg). item_matches i v))
      \<and> (\<forall>i \<in> set neg. is_wild i \<longrightarrow> item_matches i v))"
proof -
  let ?pos = "positives (filter_items q)" and ?neg = "negatives (filter_items q)"
  let ?es = "fq_to_expression \<lparr>fq_pos = buckets ?pos, fq_not = buckets ?neg\<rparr> f FieldTypeUnknown"
  have "cs = (case ?es of [] \<Rightarrow> [] | [e] \<Rightarrow> [CNot e] | es \<Rightarrow> [CNot (COr es)])"
    using cs by (simp add: to_clauses_def parse_filtering_buckets split: list.splits)
  then have cs: "(\<forall>c \<in> set cs. holds row c) \<longleftrightarrow> \<not> (\<exists>c \<in> set ?es. holds row c)"
    using assms(1) by (cases ?es rule: remdups_adj.cases) (auto simp: text_sql_def)
  have sub: "\<forall>i \<in> set ?pos. set i \<subseteq> set q" "\<forall>i \<in> set ?neg. set i \<subseteq> set q"
    using filter_items_sub by auto
  show ?thesis
    unfolding cs fq_text_holds [OF assms(1)] filtering_query.simps Let_def
      text_bucket_holds(2) [OF assms(1,2) sub(1)] text_bucket_holds(1) [OF assms(1,2) sub(2)]
    by blast
qed

text \<open>C7: The rows an equality filter on a text column selects, read off its comma separated items: the
  value, in lower case, is one of the plain items if there are any, it satisfies every item with a
  \<open>*\<close> at an end, and it satisfies no item negated with \<open>!\<close>.\<close>
theorem eq_filter_meaning:
  assumes "text_sql holds val" "like_plain q"
    and "to_clauses (QueryField f FieldTypeUnknown (QStr q) QEq subs) = Inr cs"
  shows "(\<forall>c \<in> set cs. holds row c) \<longleftrightarrow>
    (let v = to_lower (val row (text_column f)); pos = positives (filter_items q) in
      (plains pos = [] \<or> (\<exists>i \<in> set (plains pos). item_matches i v))
      \<and> (\<forall>i \<in> set pos. is_wild i \<longrightarrow> item_matches i v)
      \<and> (\<forall>i \<in> set (negatives (filter_items q)). \<not> item_matches i v))"
  using assms by (rule eq_filter_holds)

text \<open>The inequality filter selects the rows none of the clauses of the equality filter holds on:
  no positive item is satisfied, and the negated ones are, the plain ones as alternatives.\<close>
theorem neq_filter_meaning:
  assumes "text_sql holds val" "like_plain q"
    and "to_clauses (QueryField f FieldTypeUnknown (QStr q) QNeq subs) = Inr cs"
  shows "(\<forall>c \<in> set cs. holds row c) \<longleftrightarrow>
    (let v = to_lower (val row (text_column f)); neg = negatives (filter_items q) in
      (\<forall>i \<in> set (positives (filter_items q)). \<not> item_matches i v)
      \<and> (plains neg = [] \<or> (\<exists>i \<in> set (plains neg). item_matches i v))
      \<and> (\<forall>i \<in> set neg. is_wild i \<longrightarrow> item_matches i v))"
  using assms by (rule neq_filter_holds)

subsection \<open>A concrete evaluator\<close>

text \<open>An evaluator of the four templates on rows that are themselves the column's text; it meets
  \<open>text_sql\<close>, so the two properties above are about something.\<close>

definition eval_base :: "string \<Rightarrow> string \<Rightarrow> sql_arg list \<Rightarrow> bool" where
  "eval_base row sql vars =
     (case vars of
        [ArgColumn c, ArgString s] \<Rightarrow>
          if sql = text_eq_sql then to_lower row = s
          else if sql = text_like_sql then sql_like s (to_lower row) else False
      | [ArgColumn c, ArgStrings ss] \<Rightarrow> sql = text_in_sql \<and> to_lower row \<in> set ss
      | _ \<Rightarrow> False)"

text \<open>The number of \<open>NOT ( ... )\<close> wrappers is at most the length of the text.\<close>

fun eval_sql :: "nat \<Rightarrow> string \<Rightarrow> string \<Rightarrow> sql_arg list \<Rightarrow> bool" where
  "eval_sql 0 row sql vars = eval_base row sql vars"
| "eval_sql (Suc n) row sql vars =
     (if has_prefix ''NOT ('' sql \<and> has_suffix '')'' sql
      then \<not> eval_sql n row (butlast (drop 5 sql)) vars else eval_base row sql vars)"

fun eval_clause :: "string \<Rightarrow> clause \<Rightarrow> bool" where
  "eval_clause row (Expr sql vars) = eval_sql (length sql) row sql vars"
| "eval_clause row (CNot c) = (\<not> eval_clause row c)"
| "eval_clause row (COr cs) = list_ex (eval_clause row) cs"
| "eval_clause row _ = False"

lemma eval_sql_fuel:
  "length sql \<le> n \<Longrightarrow> length sql \<le> m \<Longrightarrow> eval_sql n row sql vars = eval_sql m row sql vars"
proof (induction n arbitrary: m sql)
  case 0
  then show ?case by (cases m) auto
next
  case (Suc n)
  show ?case
  proof (cases m)
    case 0
    then show ?thesis using Suc.prems by simp
  next
    case (Suc m')
    show ?thesis
      using Suc.IH [of "butlast (drop 5 sql)" m'] Suc.prems Suc by simp
  qed
qed

lemma eval_sql_not:
  "eval_clause row (Expr (''NOT ('' @ sql @ '')'') vars) = (\<not> eval_clause row (Expr sql vars))"
proof -
  have len: "length (''NOT ('' @ sql @ '')'') = Suc (length sql + 5)" by simp
  have shape: "has_prefix ''NOT ('' (''NOT ('' @ sql @ '')'') = True" "has_suffix '')'' (''NOT ('' @ sql @ '')'') = True"
    "butlast (drop 5 (''NOT ('' @ sql @ '')'')) = sql"
    by (simp_all add: has_suffix_iff)
  show ?thesis
    unfolding eval_clause.simps len eval_sql.simps(2) shape
    using eval_sql_fuel [of sql "length sql + 5" "length sql" row vars] by simp
qed

lemma eval_text_sql: "text_sql eval_clause (\<lambda>row c. row)"
proof -
  have "eval_sql n row sql vars = eval_base row sql vars" if "\<not> has_prefix ''NOT ('' sql" for n row sql vars
    using that by (cases n) auto
  then have "eval_clause row (Expr sql vars) = eval_base row sql vars"
    if "\<not> has_prefix ''NOT ('' sql" for row sql vars using that by simp
  then show ?thesis
    unfolding text_sql_def eval_sql_not
    by (simp add: text_eq_sql_def text_like_sql_def text_in_sql_def eval_base_def list_ex_iff
        del: eval_clause.simps(1))
qed

theorem eq_filter_meaning_witness:
  "\<exists>cs. to_clauses (QueryField ''name'' FieldTypeUnknown (QStr ''Web*,!*Test'') QEq []) = Inr cs
     \<and> (\<forall>c \<in> set cs. eval_clause ''WEB-1'' c)"
proof -
  obtain cs where cs: "to_clauses (QueryField ''name'' FieldTypeUnknown (QStr ''Web*,!*Test'') QEq []) = Inr cs"
    by (simp add: to_clauses_def parse_filtering_buckets)
  have pl: "like_plain ''Web*,!*Test''" by code_simp
  have "let v = to_lower ''WEB-1''; pos = positives (filter_items ''Web*,!*Test'') in
      (plains pos = [] \<or> (\<exists>i \<in> set (plains pos). item_matches i v))
      \<and> (\<forall>i \<in> set pos. is_wild i \<longrightarrow> item_matches i v)
      \<and> (\<forall>i \<in> set (negatives (filter_items ''Web*,!*Test'')). \<not> item_matches i v)"
    by code_simp
  then show ?thesis using eq_filter_meaning [OF eval_text_sql pl cs, of "''WEB-1''"] cs by blast
qed

theorem neq_filter_meaning_witness:
  "\<exists>cs. to_clauses (QueryField ''name'' FieldTypeUnknown (QStr ''Web*,!*Test'') QNeq []) = Inr cs
     \<and> (\<forall>c \<in> set cs. eval_clause ''api-TEST'' c)"
proof -
  obtain cs where cs: "to_clauses (QueryField ''name'' FieldTypeUnknown (QStr ''Web*,!*Test'') QNeq []) = Inr cs"
    by (cases "fq_to_expression (\<lparr>fq_pos = buckets (positives (filter_items ''Web*,!*Test'')),
      fq_not = buckets (negatives (filter_items ''Web*,!*Test''))\<rparr>) ''name'' FieldTypeUnknown" rule: remdups_adj.cases)
      (simp_all add: to_clauses_def parse_filtering_buckets)
  have pl: "like_plain ''Web*,!*Test''" by code_simp
  have "let v = to_lower ''api-TEST''; neg = negatives (filter_items ''Web*,!*Test'') in
      (\<forall>i \<in> set (positives (filter_items ''Web*,!*Test'')). \<not> item_matches i v)
      \<and> (plains neg = [] \<or> (\<exists>i \<in> set (plains neg). item_matches i v))
      \<and> (\<forall>i \<in> set neg. is_wild i \<longrightarrow> item_matches i v)"
    by code_simp
  then show ?thesis using neq_filter_meaning [OF eval_text_sql pl cs, of "''api-TEST''"] cs by blast
qed

end
