(* ===== verification/Resource_Canonical.thy ===== *)
theory Resource_Canonical
  imports Label_Normal Filters
begin

section \<open>Resource selectors and their canonical form\<close>

text \<open>
  The record and the field-level operations of \<^verbatim>\<open>types/resource_selector.go\<close> that do not look at a
  resource (expansion, emptiness, the wildcard test, the Kubernetes list and get options,
  cacheability), the item lists of \<^verbatim>\<open>types/common.go\<close>, and \<^verbatim>\<open>types/resource_selector_canonical.go\<close>:
  \<open>Canonical\<close> removes the wildcards of a selector. Its label selectors are parsed and printed by
  the modelled package, so its lemmas rest on those of \<open>Label_Normal\<close>.
\<close>

subsection \<open>Items\<close>

definition items_contains :: "string list \<Rightarrow> string \<Rightarrow> bool" where
  "items_contains items item =
     (if length items = 0 then True
      else if list_ex (\<lambda>i. has_prefix ''!'' i \<and> item = trim_prefix ''!'' i) items then False
      else if length (filter (has_prefix ''!'') items) = length items then True
      else list_ex (\<lambda>i. \<not> has_prefix ''!'' i \<and> (i = ''*'' \<or> to_lower item = to_lower i)) items)"

definition with_negation :: "string list \<Rightarrow> string list" where
  "with_negation items = map tl (filter (has_prefix ''!'') items)"

definition without_negation :: "string list \<Rightarrow> string list" where
  "without_negation items = filter (\<lambda>i. \<not> has_prefix ''!'' i) items"

text \<open>\<open>Sort\<close>: the local \<open>copy := items\<close> is another header of the same backing array, so the
  receiver's elements are sorted too. The pair is the returned slice and the array afterwards.\<close>

definition items_sort :: "string list \<Rightarrow> string list \<times> string list" where
  "items_sort items = (sort items, sort items)"

definition items_string :: "string list \<Rightarrow> string" where
  "items_string items = join '','' items"

subsection \<open>The selector\<close>

record resource_selector =
  rs_agent :: string
  rs_scope :: string
  rs_cache :: string
  rs_search :: string
  rs_limit :: int
  rs_include_deleted :: bool
  rs_id :: string
  rs_name :: string
  rs_namespace :: string
  rs_tag_selector :: string
  rs_label_selector :: string
  rs_field_selector :: string
  rs_health :: string
  rs_types :: "string list"
  rs_statuses :: "string list"

definition empty_selector :: resource_selector where
  "empty_selector = \<lparr>rs_agent = [], rs_scope = [], rs_cache = [], rs_search = [], rs_limit = 0,
     rs_include_deleted = False, rs_id = [], rs_name = [], rs_namespace = [], rs_tag_selector = [],
     rs_label_selector = [], rs_field_selector = [], rs_health = [], rs_types = [], rs_statuses = []\<rparr>"

fun expand_loop :: "resource_selector \<Rightarrow> string list \<Rightarrow> resource_selector list" where
  "expand_loop rs [] = []"
| "expand_loop rs (seg # segs) =
     (let seg = trim_space seg in
      if seg = [] then expand_loop rs segs
      else rs\<lparr>rs_search := seg\<rparr> # expand_loop rs segs)"

definition expand :: "resource_selector \<Rightarrow> resource_selector list" where
  "expand rs =
     (if \<not> contains '';'' (rs_search rs) then [rs]
      else (let result = expand_loop rs (split_char (CHR '';'') (rs_search rs)) in
            if length result = 0 then [rs] else result))"

definition all_empty_but_name :: "resource_selector \<Rightarrow> bool" where
  "all_empty_but_name c \<longleftrightarrow>
     rs_id c = [] \<and> rs_namespace c = [] \<and> rs_agent c = [] \<and> rs_scope c = [] \<and> rs_search c = [] \<and>
     length (rs_types c) = 0 \<and> length (rs_statuses c) = 0 \<and> length (rs_health c) = 0 \<and>
     length (rs_tag_selector c) = 0 \<and> length (rs_label_selector c) = 0 \<and>
     length (rs_field_selector c) = 0"

definition wildcard :: "resource_selector \<Rightarrow> bool" where
  "wildcard c \<longleftrightarrow> all_empty_but_name c \<and> rs_name c = ''*''"

definition is_empty_selector :: "resource_selector \<Rightarrow> bool" where
  "is_empty_selector c \<longleftrightarrow> all_empty_but_name c \<and> rs_name c = []"

definition is_match_item :: "string \<Rightarrow> bool" where
  "is_match_item q = list_ex (\<lambda>c. c \<in> {CHR ''*'', CHR ''!'', CHR '',''}) q"

record list_options =
  lo_label_selector :: string
  lo_field_selector :: string

definition to_list_options :: "resource_selector \<Rightarrow> list_options \<times> bool" where
  "to_list_options c =
     (let opts = \<lparr>lo_label_selector = rs_label_selector c, lo_field_selector = rs_field_selector c\<rparr> in
      if rs_search c \<noteq> [] \<or> is_match_item (rs_name c) then (opts, False) else (opts, True))"

definition to_get_options :: "resource_selector \<Rightarrow> string \<times> bool" where
  "to_get_options c =
     (if rs_name c \<noteq> [] \<and> rs_search c = [] \<and> \<not> is_match_item (rs_name c)
         \<and> (rs_namespace c \<noteq> [] \<or> items_contains (rs_types c) ''namespace'')
      then (rs_name c, True) else ([], False))"

definition immutable :: "resource_selector \<Rightarrow> bool" where
  "immutable c =
     (if rs_id c \<noteq> [] then True
      else if rs_name c = [] then False
      else if rs_search c = [] then False
      else if rs_namespace c = [] then False
      else if length (rs_tag_selector c) \<noteq> 0 \<or> length (rs_label_selector c) \<noteq> 0
           \<or> length (rs_field_selector c) \<noteq> 0 \<or> length (rs_statuses c) \<noteq> 0 \<or> length (rs_health c) \<noteq> 0
      then False else True)"

definition with_type :: "resource_selector \<Rightarrow> string \<Rightarrow> resource_selector" where
  "with_type rs t = rs\<lparr>rs_types := rs_types rs @ [t]\<rparr>"

definition metadata_only :: "resource_selector \<Rightarrow> resource_selector" where
  "metadata_only rs = rs\<lparr>rs_cache := ''metadata''\<rparr>"

definition is_metadata_only :: "resource_selector \<Rightarrow> bool" where
  "is_metadata_only rs \<longleftrightarrow> rs_cache rs = ''metadata''"

text \<open>The strings \<open>Hash\<close> digests, with the receiver after the two in-place sorts.
  \<open>sorted_map\<close> is \<open>collections.SortedMap(collections.SelectorToMap(...))\<close> of the commons module.\<close>

definition hash_items :: "(string \<Rightarrow> string) \<Rightarrow> resource_selector \<Rightarrow> string \<times> resource_selector" where
  "hash_items sorted_map c =
     (let (types, types_after) = items_sort (rs_types c);
          (statuses, statuses_after) = items_sort (rs_statuses c);
          items = [rs_id c, rs_name c, rs_namespace c, rs_agent c, rs_scope c,
            join '','' types, join '','' statuses, rs_health c,
            sorted_map (rs_tag_selector c), sorted_map (rs_label_selector c),
            sorted_map (rs_field_selector c),
            (if rs_include_deleted c then ''true'' else ''false''), rs_search c]
      in (join ''|'' items, c\<lparr>rs_types := types_after, rs_statuses := statuses_after\<rparr>))"

subsection \<open>Canonical form\<close>

definition wildcard_value :: string where "wildcard_value = ''*''"
definition wildcard_sentinel :: string where "wildcard_sentinel = ''__duty_wildcard__''"

datatype wildcard_behavior = WildcardIgnore | WildcardExists

definition is_wildcard_value :: "string \<Rightarrow> bool" where
  "is_wildcard_value v \<longleftrightarrow> trim_space v = wildcard_value"

definition filter_wildcard_items :: "string list \<Rightarrow> string list" where
  "filter_wildcard_items items =
     (if length items = 0 then []
      else filter (\<lambda>item. let trimmed = trim_space item in
             \<not> (trimmed = wildcard_value \<or> trim_prefix ''!'' trimmed = wildcard_value)) items)"

definition filter_wildcard_csv :: "string \<Rightarrow> string" where
  "filter_wildcard_csv v =
     (if v = [] then []
      else join '','' (filter (\<lambda>part. \<not> (part = [] \<or> part = wildcard_value))
                         (map trim_space (split_char (CHR '','') v))))"

definition requirement_has_wildcard :: "requirement \<Rightarrow> bool" where
  "requirement_has_wildcard r = list_ex (contains wildcard_sentinel) (req_vals r)"

definition wildcard_supports_exists :: "operator \<Rightarrow> bool" where
  "wildcard_supports_exists op \<longleftrightarrow> op = OpEquals \<or> op = OpDoubleEquals \<or> op = OpIn"

text \<open>The loop of \<open>canonicalizeSelector\<close>; \<open>None\<close> is the return of the selector as it came.\<close>

fun canonical_requirements :: "wildcard_behavior \<Rightarrow> requirement list \<Rightarrow> requirement list option" where
  "canonical_requirements behavior [] = Some []"
| "canonical_requirements behavior (r # rs) =
     (if requirement_has_wildcard r then
        (if behavior = WildcardExists \<and> wildcard_supports_exists (req_op r) then
           (case new_requirement (req_key r) OpExists [] of
              (converted, []) \<Rightarrow> map_option ((#) converted) (canonical_requirements behavior rs)
            | _ \<Rightarrow> None)
         else canonical_requirements behavior rs)
      else map_option ((#) r) (canonical_requirements behavior rs))"

definition canonicalize_selector ::
  "(requirement list \<Rightarrow> requirement list) \<Rightarrow> string \<Rightarrow> wildcard_behavior \<Rightarrow> string" where
  "canonicalize_selector srt selector behavior =
     (let trimmed = trim_space selector in
      if trimmed = [] \<or> trimmed = wildcard_value then []
      else
       (case parse_selector srt (replace_char (CHR ''*'') wildcard_sentinel selector) of
          Inl _ \<Rightarrow> selector
        | Inr parsed \<Rightarrow>
            (case sel_requirements srt parsed of (requirements, selectable) \<Rightarrow>
               if \<not> selectable then []
               else (case canonical_requirements behavior requirements of
                       None \<Rightarrow> selector
                     | Some canonical \<Rightarrow>
                         if length canonical = 0 then []
                         else sel_string (sel_add srt (InternalSel []) canonical)))))"

definition canonical :: "(requirement list \<Rightarrow> requirement list) \<Rightarrow> resource_selector \<Rightarrow> resource_selector" where
  "canonical srt rs = rs\<lparr>
     rs_id := (if is_wildcard_value (rs_id rs) then [] else rs_id rs),
     rs_namespace := (if is_wildcard_value (rs_namespace rs) then [] else rs_namespace rs),
     rs_scope := (if is_wildcard_value (rs_scope rs) then [] else rs_scope rs),
     rs_agent := (if is_wildcard_value (rs_agent rs) then ''all'' else rs_agent rs),
     rs_types := filter_wildcard_items (rs_types rs),
     rs_statuses := filter_wildcard_items (rs_statuses rs),
     rs_health := filter_wildcard_csv (rs_health rs),
     rs_tag_selector := canonicalize_selector srt (rs_tag_selector rs) WildcardExists,
     rs_label_selector := canonicalize_selector srt (rs_label_selector rs) WildcardExists,
     rs_field_selector := canonicalize_selector srt (rs_field_selector rs) WildcardIgnore\<rparr>"

subsection \<open>What canonicalisation does to a selector\<close>

definition wildcard_image :: "wildcard_behavior \<Rightarrow> requirement \<Rightarrow> requirement list" where
  "wildcard_image behavior r =
     (if requirement_has_wildcard r then
        (if behavior = WildcardExists \<and> wildcard_supports_exists (req_op r)
         then [\<lparr>req_key = req_key r, req_op = OpExists, req_vals = []\<rparr>] else [])
      else [r])"

definition without_wildcards :: "wildcard_behavior \<Rightarrow> requirement list \<Rightarrow> requirement list" where
  "without_wildcards behavior rs = concat (map (wildcard_image behavior) rs)"

lemma canonical_requirements_eq: "canonical_requirements b rs = Some (without_wildcards b rs)"
  by (induction rs)
    (auto simp: without_wildcards_def wildcard_image_def new_requirement_def req_errors_def)

lemma wildcard_image_cases:
  "q \<in> set (wildcard_image b r) \<Longrightarrow> q = r \<and> \<not> requirement_has_wildcard r
     \<or> q = \<lparr>req_key = req_key r, req_op = OpExists, req_vals = []\<rparr>"
  by (auto simp: wildcard_image_def split: if_splits)

lemma without_wildcards_cases:
  "q \<in> set (without_wildcards b rs) \<Longrightarrow> \<exists>r \<in> set rs. q = r \<and> \<not> requirement_has_wildcard r
     \<or> q = \<lparr>req_key = req_key r, req_op = OpExists, req_vals = []\<rparr>"
  unfolding without_wildcards_def using wildcard_image_cases by fastforce

lemma without_wildcards_printable: "list_all printable rs \<Longrightarrow> list_all printable (without_wildcards b rs)"
  unfolding list_all_iff
proof
  fix q
  assume rs: "\<forall>r \<in> set rs. printable r" and "q \<in> set (without_wildcards b rs)"
  then obtain r where "r \<in> set rs" "q = r \<or> q = \<lparr>req_key = req_key r, req_op = OpExists, req_vals = []\<rparr>"
    using without_wildcards_cases by blast
  moreover have "req_errors OpExists [] = []" by (simp add: req_errors_def)
  ultimately show "printable q" using rs by (auto simp: printable_def req_ok_def)
qed

lemma without_wildcards_words: "list_all (word_req P) rs \<Longrightarrow> list_all (word_req P) (without_wildcards b rs)"
  by (fastforce simp: list_all_iff word_req_def dest!: without_wildcards_cases)

lemma without_wildcards_none: "\<forall>q \<in> set (without_wildcards b rs). \<not> requirement_has_wildcard q"
  by (auto dest!: without_wildcards_cases simp: requirement_has_wildcard_def)

lemma without_wildcards_id: "\<forall>q \<in> set rs. \<not> requirement_has_wildcard q \<Longrightarrow> without_wildcards b rs = rs"
  by (induction rs) (auto simp: without_wildcards_def wildcard_image_def)

lemma without_wildcards_idem: "without_wildcards b (without_wildcards b rs) = without_wildcards b rs"
  by (rule without_wildcards_id) (rule without_wildcards_none)

lemma without_wildcards_sorted:
  assumes "sorted (map req_key rs)"
  shows "sorted (map req_key (without_wildcards b rs))"
  using assms
proof (induction rs)
  case (Cons r rs)
  have "\<forall>q \<in> set (without_wildcards b rs). req_key r \<le> req_key q"
    using Cons.prems by (auto dest!: without_wildcards_cases)
  moreover have "without_wildcards b (r # rs) = wildcard_image b r @ without_wildcards b rs"
    by (simp add: without_wildcards_def)
  ultimately show ?case using Cons by (auto simp: wildcard_image_def)
qed (simp add: without_wildcards_def)

text \<open>The three ways out of \<open>canonicalizeSelector\<close>.\<close>

lemma canonicalize_selector_eq:
  assumes "sorts_by req_key srt" "keeps_sorted srt"
  shows "canonicalize_selector srt s b =
    (if trim_space s = [] \<or> trim_space s = ''*'' then []
     else case parse srt (replace_char (CHR ''*'') wildcard_sentinel s) of
         Inl _ \<Rightarrow> s
       | Inr rs \<Rightarrow> internal_string (without_wildcards b rs))"
proof (cases "parse srt (replace_char (CHR ''*'') wildcard_sentinel s)")
  case (Inr rs)
  have "srt (without_wildcards b rs) = without_wildcards b rs"
    using assms(2) without_wildcards_sorted [OF parse_Inr(3) [OF Inr assms(1)]]
    by (simp add: keeps_sorted_def)
  with Inr show ?thesis
    by (simp add: canonicalize_selector_def parse_selector_def canonical_requirements_eq wildcard_value_def
        internal_string_def Let_def)
qed (simp add: canonicalize_selector_def parse_selector_def wildcard_value_def Let_def)

text \<open>Reading the canonical text back.\<close>

lemma canonicalize_selector_parse:
  assumes srt: "sorts_by req_key srt" "keeps_sorted srt"
    and s: "trim_space s \<notin> {[], ''*''}" "parse srt (replace_char (CHR ''*'') wildcard_sentinel s) = Inr rs"
  shows "parse srt (canonicalize_selector srt s b) = Inr (without_wildcards b rs)"
proof -
  note rs = parse_Inr [OF s(2) srt(1)]
  have "srt (without_wildcards b rs) = without_wildcards b rs"
    using srt(2) without_wildcards_sorted [OF rs(3)] by (simp add: keeps_sorted_def)
  then show ?thesis
    using parse_printed [OF without_wildcards_printable [OF rs(1)], of srt] s
    by (simp add: canonicalize_selector_eq [OF srt])
qed

subsubsection \<open>Idempotence\<close>

lemma trim_where_ends: "trim_where p s = [] \<or> (\<not> p (hd (trim_where p s)) \<and> \<not> p (last (trim_where p s)))"
proof -
  let ?d = "dropWhile p s" and ?u = "dropWhile p (rev (dropWhile p s))"
  have "\<not> p (hd ?u) \<and> \<not> p (last ?u)" if ne: "?u \<noteq> []"
  proof
    show "\<not> p (hd ?u)" using ne by (rule hd_dropWhile)
    obtain x where x: "x \<in> set (rev ?d)" "\<not> p x" using ne by (auto simp: dropWhile_eq_Nil_conv)
    then have "?d \<noteq> []" unfolding set_rev by (metis empty_iff empty_set)
    then have "\<not> p (hd ?d)" by (rule hd_dropWhile)
    moreover have "last ?u = hd ?d" using dropWhile_last [of x "rev ?d" p] x \<open>?d \<noteq> []\<close> by (simp add: last_rev)
    ultimately show "\<not> p (last ?u)" by simp
  qed
  then show ?thesis by (auto simp: trim_where_def hd_rev last_rev)
qed

lemma trim_where_idem [simp]: "trim_where p (trim_where p s) = trim_where p s"
  by (rule trim_where_id) (rule trim_where_ends)

lemma trim_where_sub: "set (trim_where p s) \<subseteq> set s"
  by (auto simp: trim_where_def dest!: set_dropWhileD)

lemma trim_where_Nil: "trim_where p s = [] \<Longrightarrow> \<forall>c \<in> set s. p c"
proof -
  assume "trim_where p s = []"
  then have "\<forall>c \<in> set (dropWhile p s). p c" by (auto simp: trim_where_def)
  then have "dropWhile p s = []" using hd_dropWhile [of p s] hd_in_set by metis
  then show ?thesis by (simp add: dropWhile_eq_Nil_conv)
qed

lemma filter_wildcard_items_idem:
  "filter_wildcard_items (filter_wildcard_items items) = filter_wildcard_items items"
  by (simp add: filter_wildcard_items_def Let_def)

lemma join_ne: "xs \<noteq> [] \<Longrightarrow> \<forall>x \<in> set xs. x \<noteq> [] \<Longrightarrow> join sep xs \<noteq> []"
  by (cases xs) (auto simp: join_Cons)

lemma filter_wildcard_csv_idem: "filter_wildcard_csv (filter_wildcard_csv v) = filter_wildcard_csv v"
proof -
  let ?ok = "\<lambda>part. \<not> (part = [] \<or> part = wildcard_value)"
  define ps where "ps = filter ?ok (map trim_space (split_char (CHR '','') v))"
  have comma: "\<forall>x \<in> set ps. CHR '','' \<notin> set x"
    using split_char_parts trim_where_sub by (fastforce simp: ps_def)
  have parts: "\<forall>x \<in> set ps. ?ok x \<and> trim_space x = x" by (auto simp: ps_def)
  have "filter_wildcard_csv (join '','' ps) = join '','' ps"
  proof (cases "ps = []")
    case False
    then have "split_char (CHR '','') (join '','' ps) = ps" using comma by (rule split_char_join)
    moreover have "map trim_space ps = ps" using parts by (simp add: map_idI)
    moreover have "filter ?ok ps = ps" using parts by (simp add: filter_id_conv)
    moreover have "join '','' ps \<noteq> []" using False parts by (intro join_ne) auto
    ultimately show ?thesis by (simp only: filter_wildcard_csv_def if_False)
  qed (simp add: filter_wildcard_csv_def)
  then show ?thesis by (cases "v = []") (simp_all add: filter_wildcard_csv_def ps_def)
qed

lemma replace_char_id: "c \<notin> set s \<Longrightarrow> replace_char c t s = s"
  by (induction s) (auto simp: replace_char_def)

lemma replace_char_set: "set (replace_char c t s) \<subseteq> (set s - {c}) \<union> set t"
  by (auto simp: replace_char_def)

text \<open>The characters of a printed requirement: those of its key and values, and the operators'.\<close>

lemma join_chars: "set (join sep xs) \<subseteq> set sep \<union> \<Union> (set ` set xs)"
  by (induction sep xs rule: join.induct) auto

lemma req_values_string_chars: "set (req_values_string vs) \<subseteq> {CHR '',''} \<union> \<Union> (set ` set vs)"
proof (cases "length vs = 1")
  case True
  then show ?thesis by (cases vs) (auto simp: req_values_string_def)
next
  case False
  then show ?thesis using join_chars [of "'',''" "safe_sort vs"]
    by (auto simp: req_values_string_def safe_sort_def)
qed

lemma op_symbol_no_star: "CHR ''*'' \<notin> set (op_symbol op)"
  by (cases op) (auto simp: op_symbol_def)

lemma req_string_no_star:
  assumes "word_req (\<lambda>c. c \<noteq> CHR ''*'' \<and> Q c) r"
  shows "CHR ''*'' \<notin> set (req_string r)"
  using assms req_values_string_chars [of "req_vals r"] op_symbol_no_star [of "req_op r"]
  by (auto simp: req_string_def word_req_def word_of_def Let_def)

lemma internal_string_no_star:
  "list_all (word_req (\<lambda>c. c \<noteq> CHR ''*'' \<and> Q c)) rs \<Longrightarrow> CHR ''*'' \<notin> set (internal_string rs)"
  using join_chars [of "'',''" "map req_string rs"] req_string_no_star [of Q]
  by (fastforce simp: internal_string_def list_all_iff)

lemma req_string_key: "set (req_key r) \<subseteq> set (req_string r)"
  by (auto simp: req_string_def Let_def)

lemma internal_string_nonspace:
  assumes "list_all (word_req (\<lambda>c. c \<noteq> CHR ''*'' \<and> \<not> is_space c)) rs" "rs \<noteq> []"
  shows "trim_space (internal_string rs) \<notin> {[], ''*''}"
proof -
  from assms obtain r rs' where rs: "rs = r # rs'" by (cases rs) auto
  with assms obtain c where c: "c \<in> set (req_key r)" "\<not> is_space c"
    by (cases "req_key r") (auto simp: word_req_def word_of_def)
  have "set (req_string r) \<subseteq> set (internal_string rs)"
    by (auto simp: internal_string_def rs join_Cons)
  with c req_string_key have "c \<in> set (internal_string rs)" by blast
  then have "trim_space (internal_string rs) \<noteq> []" using c(2) trim_where_Nil by blast
  moreover have "trim_space (internal_string rs) \<noteq> ''*''"
    using internal_string_no_star [OF assms(1)] trim_where_sub [of is_space "internal_string rs"]
    by (metis list.set_intros(1) subsetD)
  ultimately show ?thesis by simp
qed

text \<open>The lexer's white space is narrower than \<open>TrimSpace\<close>'s: a vertical tab or a form feed can be
  part of a key. Away from those two bytes the canonical form is a fixed point.\<close>

definition plain_space :: "string \<Rightarrow> bool" where
  "plain_space = list_all (\<lambda>c. c \<notin> {CHR 0x0B, CHR 0x0C})"

lemma id_char_not_space: "is_id_char c \<Longrightarrow> c \<notin> {CHR 0x0B, CHR 0x0C} \<Longrightarrow> \<not> is_space c"
  by (auto simp: is_id_char_def is_whitespace_def is_space_def)

lemma canonicalize_selector_idem:
  assumes srt: "sorts_by req_key srt" "keeps_sorted srt" and sp: "plain_space s"
  shows "canonicalize_selector srt (canonicalize_selector srt s b) b = canonicalize_selector srt s b"
proof -
  note eq = canonicalize_selector_eq [OF srt]
  have Nil: "canonicalize_selector srt [] b = []" by (simp add: eq trim_where_def)
  show ?thesis
  proof (cases "trim_space s \<in> {[], ''*''}")
    case True
    then have "canonicalize_selector srt s b = []" by (auto simp: eq)
    then show ?thesis by (simp add: Nil)
  next
    case ne: False
    let ?n = "replace_char (CHR ''*'') wildcard_sentinel s"
    show ?thesis
    proof (cases "parse srt ?n")
      case (Inl e)
      with ne have "canonicalize_selector srt s b = s" by (simp add: eq)
      then show ?thesis by simp
    next
      case (Inr rs)
      let ?rs = "without_wildcards b rs" and ?P = "\<lambda>c. c \<noteq> CHR ''*'' \<and> c \<notin> {CHR 0x0B, CHR 0x0C}"
      have t: "canonicalize_selector srt s b = internal_string ?rs" using ne Inr by (simp add: eq)
      have "\<forall>c \<in> set ?n. ?P c"
        using sp replace_char_set [of "CHR ''*''" wildcard_sentinel s]
        by (fastforce simp: plain_space_def list_all_iff wildcard_sentinel_def)
      then have "list_all (word_req ?P) rs" by (rule parse_Inr(2) [OF Inr srt(1)])
      then have "list_all (word_req ?P) ?rs" by (rule without_wildcards_words)
      then have words: "list_all (word_req (\<lambda>c. c \<noteq> CHR ''*'' \<and> \<not> is_space c)) ?rs"
        using id_char_not_space by (auto simp: list_all_iff word_req_def word_of_def)
      show ?thesis
      proof (cases "?rs = []")
        case True
        then show ?thesis by (simp add: t internal_string_def Nil)
      next
        case False
        note tr = internal_string_nonspace [OF words False]
        have "parse srt (replace_char (CHR ''*'') wildcard_sentinel (internal_string ?rs)) = Inr ?rs"
          using canonicalize_selector_parse [OF srt ne Inr, of b] internal_string_no_star [OF words]
          by (simp add: t replace_char_id)
        then show ?thesis using tr by (simp add: t eq [of "internal_string ?rs"] without_wildcards_idem)
      qed
    qed
  qed
qed

text \<open>\<open>Canonical\<close> is idempotent: applying it to its own result changes nothing, in any field, for
  selectors whose label texts hold no vertical tab or form feed.\<close>
theorem canonical_idempotent:
  assumes "sorts_by req_key srt" "keeps_sorted srt"
    and "plain_space (rs_tag_selector rs)" "plain_space (rs_label_selector rs)"
      "plain_space (rs_field_selector rs)"
  shows "canonical srt (canonical srt rs) = canonical srt rs"
proof -
  have w: "\<not> is_wildcard_value []" "\<not> is_wildcard_value ''all''" by code_simp+
  show ?thesis
    using w assms
    by (simp add: canonical_def canonicalize_selector_idem filter_wildcard_items_idem filter_wildcard_csv_idem)
qed

theorem canonical_idempotent_witness:
  "let rs = empty_selector\<lparr>rs_agent := ''*'', rs_health := ''a, *'', rs_label_selector := ''b=x*,a!=1''\<rparr>
   in canonical (sort_key req_key) (canonical (sort_key req_key) rs) = canonical (sort_key req_key) rs"
proof -
  let ?rs = "empty_selector\<lparr>rs_agent := ''*'', rs_health := ''a, *'', rs_label_selector := ''b=x*,a!=1''\<rparr>"
  have "plain_space (rs_tag_selector ?rs)" "plain_space (rs_label_selector ?rs)"
    "plain_space (rs_field_selector ?rs)" by code_simp+
  then show ?thesis unfolding Let_def
    by (rule canonical_idempotent [OF sorts_by_sort_key keeps_sorted_stable])
qed

text \<open>C14: What a canonical label selector selects: the canonical text parses, and a set of labels matches
  it exactly when it satisfies every requirement without a wildcard and carries the key of every
  equality or \<open>in\<close> requirement with one. Wildcards in any other operator are dropped.\<close>
theorem canonical_label_meaning:
  assumes "sorts_by req_key srt" "keeps_sorted srt"
    and "trim_space (rs_label_selector rs) \<notin> {[], ''*''}"
    and "parse srt (replace_char (CHR ''*'') wildcard_sentinel (rs_label_selector rs)) = Inr reqs"
  shows "\<exists>out. parse srt (rs_label_selector (canonical srt rs)) = Inr out
    \<and> (internal_matches out (set_view ls) \<longleftrightarrow>
        (\<forall>r \<in> set reqs. if requirement_has_wildcard r
           then (wildcard_supports_exists (req_op r) \<longrightarrow> req_key r \<in> dom (map_of ls))
           else req_holds r (map_of ls)))"
proof -
  have "internal_matches (without_wildcards WildcardExists rs) (set_view ls) \<longleftrightarrow>
        (\<forall>r \<in> set rs. if requirement_has_wildcard r
           then (wildcard_supports_exists (req_op r) \<longrightarrow> req_key r \<in> dom (map_of ls))
           else req_holds r (map_of ls))" for rs
    by (induction rs)
      (auto simp: label_set.internal_matches_holds without_wildcards_def wildcard_image_def req_holds_def)
  then show ?thesis
    using canonicalize_selector_parse [OF assms, of WildcardExists] by (simp add: canonical_def)
qed

theorem canonical_label_meaning_witness:
  "\<exists>out. parse (sort_key req_key)
       (rs_label_selector (canonical (sort_key req_key) (empty_selector\<lparr>rs_label_selector := ''b=x*,a!=1''\<rparr>))) = Inr out
     \<and> internal_matches out (set_view [(''b'', ''y'')])"
proof -
  let ?rs = "empty_selector\<lparr>rs_label_selector := ''b=x*,a!=1''\<rparr>"
  let ?reqs = "[\<lparr>req_key = ''a'', req_op = OpNotEquals, req_vals = [''1'']\<rparr>,
    \<lparr>req_key = ''b'', req_op = OpEquals, req_vals = [''x__duty_wildcard__'']\<rparr>]"
  have p: "trim_space (rs_label_selector ?rs) \<notin> {[], ''*''}"
    "parse (sort_key req_key) (replace_char (CHR ''*'') wildcard_sentinel (rs_label_selector ?rs)) = Inr ?reqs"
    by code_simp+
  have "\<forall>r \<in> set ?reqs. if requirement_has_wildcard r
           then (wildcard_supports_exists (req_op r) \<longrightarrow> req_key r \<in> dom (map_of [(''b'', ''y'')]))
           else req_holds r (map_of [(''b'', ''y'')])"
    by (simp add: requirement_has_wildcard_def wildcard_sentinel_def wildcard_supports_exists_def
        req_holds_def dom_def)
  then show ?thesis
    using canonical_label_meaning [OF sorts_by_sort_key keeps_sorted_stable p, of "[(''b'', ''y'')]"] by blast
qed

subsection \<open>Filtering queries of the types package\<close>

record filter_lists =
  fl_in :: "string list"
  fl_not_in :: "string list"
  fl_prefix :: "string list"
  fl_suffix :: "string list"

fun filter_lists_loop :: "bool \<Rightarrow> string list \<Rightarrow> filter_lists \<Rightarrow> string + filter_lists" where
  "filter_lists_loop decode_url [] acc = Inr acc"
| "filter_lists_loop decode_url (item # items) acc =
     (case (if decode_url then query_unescape item else Some item) of
        None \<Rightarrow> Inl ''failed to unescape query''
      | Some item \<Rightarrow>
          filter_lists_loop decode_url items
            (if has_prefix ''!'' item then acc\<lparr>fl_not_in := fl_not_in acc @ [trim_prefix ''!'' item]\<rparr>
             else if has_prefix ''*'' item then acc\<lparr>fl_suffix := fl_suffix acc @ [trim_prefix ''*'' item]\<rparr>
             else if has_suffix ''*'' item then acc\<lparr>fl_prefix := fl_prefix acc @ [trim_suffix ''*'' item]\<rparr>
             else acc\<lparr>fl_in := fl_in acc @ [item]\<rparr>))"

definition parse_filtering_query :: "string \<Rightarrow> bool \<Rightarrow> string + filter_lists" where
  "parse_filtering_query query decode_url =
     (let none = \<lparr>fl_in = [], fl_not_in = [], fl_prefix = [], fl_suffix = []\<rparr> in
      if query = [] then Inr none
      else filter_lists_loop decode_url (split_char (CHR '','') query) none)"

subsection \<open>Expansion\<close>

lemma expand_loop_eq:
  "expand_loop rs segs = map (\<lambda>s. rs\<lparr>rs_search := s\<rparr>) (filter (\<lambda>s. s \<noteq> []) (map trim_space segs))"
  by (induction segs) (auto simp: Let_def)

lemma contains_char: "contains [c] s \<longleftrightarrow> c \<in> set s"
  by (induction s) auto

text \<open>\<open>Expand\<close> gives at least one selector, each of them the receiver with another search; when some
  segment between semicolons is not blank, the searches are exactly the trimmed non-blank segments,
  and none of them can be expanded further.\<close>
theorem expand_correct:
  "expand rs \<noteq> []
   \<and> map (\<lambda>r. r\<lparr>rs_search := []\<rparr>) (expand rs) = replicate (length (expand rs)) (rs\<lparr>rs_search := []\<rparr>)
   \<and> (let parts = filter (\<lambda>s. s \<noteq> []) (map trim_space (split_char (CHR '';'') (rs_search rs))) in
      map rs_search (expand rs) = (if CHR '';'' \<in> set (rs_search rs) \<and> parts \<noteq> [] then parts else [rs_search rs]))"
  by (auto simp: expand_def contains_char expand_loop_eq Let_def comp_def map_replicate_const)

text \<open>\<open>Hash\<close> sorts the caller's type and status lists in place, so the receiver is changed by hashing
  it; the text it digests is that of the sorted receiver, and hashing twice gives the same text.\<close>
theorem hash_sorts_receiver:
  "rs_types (snd (hash_items sorted_map c)) = sort (rs_types c)
   \<and> rs_statuses (snd (hash_items sorted_map c)) = sort (rs_statuses c)
   \<and> fst (hash_items sorted_map (snd (hash_items sorted_map c))) = fst (hash_items sorted_map c)
   \<and> snd (hash_items sorted_map c) = c\<lparr>rs_types := sort (rs_types c), rs_statuses := sort (rs_statuses c)\<rparr>"
  by (simp add: hash_items_def items_sort_def sorted_sort_id)

end
