(* ===== verification/Properties.thy ===== *)
theory Properties
  imports Duty_Prelude
begin

section \<open>Properties of a component\<close>

text \<open>
  \<^verbatim>\<open>types/properties.go\<close>: the \<open>Property\<close> record, its lookup, value, text and merge. A Go pointer
  field is an option; \<open>Merge\<close> copies the pointer and nothing writes through it. The slice \<open>Links\<close>
  is an option because \<open>Merge\<close> distinguishes a nil slice from an empty one.
\<close>

record link_text =
  lt_tooltip :: string
  lt_icon :: string
  lt_text :: string
  lt_label :: string

record link =
  lk_type :: string
  lk_url :: string
  lk_text :: link_text

record property =
  p_type :: string
  p_label :: string
  p_name :: string
  p_tooltip :: string
  p_icon :: string
  p_color :: string
  p_order :: int
  p_headline :: bool
  p_hidden :: bool
  p_text :: string
  p_value :: "int option"
  p_unit :: string
  p_max :: "int option"
  p_min :: "int option"
  p_status :: string
  p_last_transition :: string
  p_links :: "link list option"

definition empty_property :: property where
  "empty_property = \<lparr>p_type = [], p_label = [], p_name = [], p_tooltip = [], p_icon = [], p_color = [],
     p_order = 0, p_headline = False, p_hidden = False, p_text = [], p_value = None, p_unit = [],
     p_max = None, p_min = None, p_status = [], p_last_transition = [], p_links = None\<rparr>"

fun find_property :: "property list \<Rightarrow> string \<Rightarrow> property option" where
  "find_property [] name = None"
| "find_property (p # ps) name = (if p_name p = name then Some p else find_property ps name)"

datatype property_value = NoValue | TextValue string | IntValue int

definition get_value :: "property \<Rightarrow> property_value" where
  "get_value p =
     (if p_text p \<noteq> [] then TextValue (p_text p)
      else case p_value p of Some v \<Rightarrow> IntValue v | None \<Rightarrow> NoValue)"

text \<open>\<open>AsMap\<close>: a later property of the same name replaces an earlier one.\<close>

definition properties_as_map :: "property list \<Rightarrow> string \<rightharpoonup> property_value" where
  "properties_as_map ps = foldl (\<lambda>m p. m(p_name p \<mapsto> get_value p)) Map.empty ps"

text \<open>\<open>String\<close>. The value is printed with \<open>%d\<close> from the pointer, not from what it points to, so
  the text holds an address: \<open>address\<close> is that number.\<close>

definition opt_text :: "string \<Rightarrow> string option \<Rightarrow> string" where
  "opt_text label v = (case v of Some s \<Rightarrow> label @ s @ '' '' | None \<Rightarrow> [])"

definition nonempty :: "string \<Rightarrow> string option" where
  "nonempty s = (if s = [] then None else Some s)"

definition trim_right_space :: "string \<Rightarrow> string" where
  "trim_right_space s = rev (dropWhile (\<lambda>c. c = CHR '' '') (rev s))"

definition property_string :: "int \<Rightarrow> property \<Rightarrow> string" where
  "property_string address p =
     trim_right_space (p_name p @ ''[''
       @ opt_text ''text='' (nonempty (p_text p))
       @ opt_text ''value='' (map_option (\<lambda>_. int_text address) (p_value p))
       @ opt_text ''unit='' (nonempty (p_unit p))
       @ opt_text ''max='' (map_option int_text (p_max p))
       @ opt_text ''min='' (map_option int_text (p_min p))
       @ opt_text ''status='' (nonempty (p_status p))
       @ opt_text ''lastTransition='' (nonempty (p_last_transition p))) @ '']''"

definition merge_property :: "property \<Rightarrow> property \<Rightarrow> property" where
  "merge_property p other = p\<lparr>
     p_text := (if p_text other \<noteq> [] then p_text other else p_text p),
     p_value := (if p_value other \<noteq> None then p_value other else p_value p),
     p_unit := (if p_unit other \<noteq> [] then p_unit other else p_unit p),
     p_max := (if p_max other \<noteq> None then p_max other else p_max p),
     p_min := (if p_min other \<noteq> None then p_min other else p_min p),
     p_order := (if p_order other > 0 then p_order other else p_order p),
     p_status := (if p_status other \<noteq> [] then p_status other else p_status p),
     p_last_transition := (if p_last_transition other \<noteq> [] then p_last_transition other else p_last_transition p),
     p_links := (if p_links other \<noteq> None then p_links other else p_links p),
     p_type := (if p_type other \<noteq> [] then p_type other else p_type p),
     p_color := (if p_color other \<noteq> [] then p_color other else p_color p)\<rparr>"

subsection \<open>Lookup\<close>

lemma find_property_find: "find_property ps name = find (\<lambda>p. p_name p = name) ps"
  by (induction ps) auto

lemma find_property_name: "find_property ps name = Some p \<Longrightarrow> p_name p = name \<and> p \<in> set ps"
  by (auto simp: find_property_find find_Some_iff)

lemma find_property_None: "find_property ps name = None \<longleftrightarrow> name \<notin> p_name ` set ps"
  by (auto simp: find_property_find find_None_iff)

lemma properties_as_map_snoc:
  "properties_as_map (ps @ [p]) = (properties_as_map ps)(p_name p \<mapsto> get_value p)"
  by (simp add: properties_as_map_def)

lemma properties_as_map_find:
  "properties_as_map ps name = map_option get_value (find_property (rev ps) name)"
  by (induction ps rule: rev_induct) (auto simp: properties_as_map_snoc, simp add: properties_as_map_def)

lemma find_property_unique:
  "distinct (map p_name ps) \<Longrightarrow> p \<in> set ps \<Longrightarrow> find_property ps (p_name p) = Some p"
  by (induction ps) (auto simp: rev_image_eqI)

lemma find_property_rev:
  assumes "distinct (map p_name ps)"
  shows "find_property (rev ps) name = find_property ps name"
proof (cases "find_property ps name")
  case None
  then have "find_property (rev ps) name = None" unfolding find_property_None by simp
  with None show ?thesis by simp
next
  case (Some p)
  then have "p_name p = name" "p \<in> set (rev ps)" using find_property_name by auto
  moreover have "distinct (map p_name (rev ps))" using assms by (simp add: rev_map [symmetric])
  ultimately show ?thesis using find_property_unique Some by metis
qed

text \<open>The map of a property list and \<open>Find\<close> tell the same: with distinct names, \<open>AsMap\<close> holds for each
  name the value of the property \<open>Find\<close> returns, and nothing else.\<close>
theorem properties_map_find:
  assumes "distinct (map p_name ps)"
  shows "properties_as_map ps name = map_option get_value (find_property ps name)"
  using find_property_rev [OF assms] by (simp add: properties_as_map_find)

theorem properties_map_find_witness:
  "properties_as_map [empty_property\<lparr>p_name := ''a'', p_value := Some 3\<rparr>, empty_property\<lparr>p_name := ''b''\<rparr>] ''a''
     = Some (IntValue 3)"
  using properties_map_find [of "[empty_property\<lparr>p_name := ''a'', p_value := Some 3\<rparr>, empty_property\<lparr>p_name := ''b''\<rparr>]" "''a''"]
  by (simp add: empty_property_def get_value_def)

subsection \<open>Merge\<close>

text \<open>\<open>Merge\<close> is an idempotent, associative overlay: merging a property into itself changes nothing,
  merging two updates one after the other is merging their merge, and identity, label and
  visibility of the receiver are kept.\<close>
theorem merge_property_overlay:
  "merge_property p p = p
   \<and> merge_property (merge_property p q) r = merge_property p (merge_property q r)
   \<and> p_name (merge_property p q) = p_name p \<and> p_label (merge_property p q) = p_label p
   \<and> p_hidden (merge_property p q) = p_hidden p \<and> p_headline (merge_property p q) = p_headline p"
proof (intro conjI)
  show "merge_property p p = p"
    by (rule property.equality) (simp_all add: merge_property_def)
  show "merge_property (merge_property p q) r = merge_property p (merge_property q r)"
    by (rule property.equality) (auto simp: merge_property_def)
qed (simp_all add: merge_property_def)

end
