(* ===== verification/Resource_Matching.thy ===== *)
theory Resource_Matching
  imports Resource_Canonical Filters Properties
begin

section \<open>Matching a resource in memory\<close>

text \<open>
  The rest of \<^verbatim>\<open>types/resource_selector.go\<close>: the rendering of a selector as a search query
  (\<open>ToPeg\<close>), the evaluation of a parsed query on a resource (\<open>matchGrammar\<close>) and the operations
  built on it. A resource is what the \<open>ResourceSelectable\<close> interface, the optional tag and agent
  interfaces and the field matcher return. \<open>None\<close> as the outcome of an evaluation is a panic:
  a nil label matcher or a number comparison with a value that is not a string.

  Parameters, gathered in \<open>externals\<close>: \<open>collections.MatchItems\<close> of the commons module, the
  generated PEG parser, \<open>labels.Parse\<close> of the Kubernetes package (this file imports that one, not
  the repository's copy), the JSON decoding of a property list, and the parsing and order of
  64-bit floats.
\<close>

record 'f externals =
  match_items :: "string \<Rightarrow> string list \<Rightarrow> bool"
  parse_peg :: "string \<Rightarrow> string + query_field"
  k8s_parse :: "string \<Rightarrow> string + selector"
  decode_properties :: "string \<Rightarrow> string + property list"
  parse_float :: "string \<Rightarrow> 'f option"
  float_less :: "'f \<Rightarrow> 'f \<Rightarrow> bool"

subsection \<open>Label matchers\<close>

record k8s_labels = label_view +
  lookup_label :: "string \<Rightarrow> string \<times> bool"

definition generic_labels_matcher :: "label_set \<Rightarrow> k8s_labels" where
  "generic_labels_matcher m =
     \<lparr>has_label = set_has m, get_label = set_get m,
      lookup_label = (\<lambda>k. (set_get m k, set_has m k))\<rparr>"

text \<open>A value of type \<open>any\<close>, by what \<open>%v\<close> and \<open>json.Marshal\<close> make of it.\<close>

datatype any_value = AnyString string | AnyLabels label_set | AnyMap "(string \<times> any_value) list" | AnyOther string string

definition any_text :: "(any_value \<Rightarrow> string) \<Rightarrow> any_value option \<Rightarrow> string" where
  "any_text sprintv v = (case v of None \<Rightarrow> ''<nil>'' | Some (AnyString s) \<Rightarrow> s | Some x \<Rightarrow> sprintv x)"

definition generic_labels_matcher_any ::
  "(any_value \<Rightarrow> string) \<Rightarrow> (string, any_value) gomap \<Rightarrow> k8s_labels" where
  "generic_labels_matcher_any sprintv m =
     \<lparr>has_label = (\<lambda>k. map_of m k \<noteq> None), get_label = (\<lambda>k. any_text sprintv (map_of m k)),
      lookup_label = (\<lambda>k. case map_of m k of None \<Rightarrow> ([], False) | Some v \<Rightarrow> (any_text sprintv (Some v), True))\<rparr>"

text \<open>\<open>GenericFieldMatcher\<close>: a missing field is the nil value, whose JSON is \<open>null\<close>.\<close>

definition generic_field_get :: "(any_value \<Rightarrow> string) \<Rightarrow> (string, any_value) gomap \<Rightarrow> string \<Rightarrow> string" where
  "generic_field_get marshal m k =
     (case map_of m k of None \<Rightarrow> ''null'' | Some (AnyString s) \<Rightarrow> s | Some v \<Rightarrow> marshal v)"

subsection \<open>Resources\<close>

record resource =
  r_id :: "string option"            \<comment> \<open>\<open>None\<close>: the accessor panics\<close>
  r_name :: "string option"
  r_namespace :: string
  r_type :: string
  r_status :: "string + string"
  r_health :: "string + string"
  r_agent :: "string option"         \<comment> \<open>\<open>None\<close>: not an \<open>AgentProvider\<close>\<close>
  r_labels :: "k8s_labels option"    \<comment> \<open>\<open>None\<close>: a nil matcher\<close>
  r_tags :: "k8s_labels option"      \<comment> \<open>\<open>None\<close>: not \<open>TagsMatchable\<close>, or a nil matcher\<close>
  r_field :: "string \<Rightarrow> string"

definition any_string :: "any_value option \<Rightarrow> string option" where
  "any_string v = (case v of Some (AnyString s) \<Rightarrow> Some s | _ \<Rightarrow> None)"

definition any_labels :: "(any_value \<Rightarrow> string) \<Rightarrow> any_value option \<Rightarrow> k8s_labels option" where
  "any_labels sprintv v =
     (case v of Some (AnyLabels m) \<Rightarrow> Some (generic_labels_matcher m)
      | Some (AnyMap m) \<Rightarrow> Some (generic_labels_matcher_any sprintv m)
      | _ \<Rightarrow> None)"

text \<open>\<open>ResourceSelectableMap\<close>.\<close>

definition selectable_map ::
  "(any_value \<Rightarrow> string) \<Rightarrow> (any_value \<Rightarrow> string) \<Rightarrow> (string, any_value) gomap \<Rightarrow> resource" where
  "selectable_map sprintv marshal t =
     \<lparr>r_id = any_string (map_of t ''id''),
      r_name = any_string (map_of t ''name''),
      r_namespace =
        (case any_string (map_of t ''namespace'') of
           Some (c # ns) \<Rightarrow> c # ns
         | _ \<Rightarrow> (case map_of t ''tags'' of Some (AnyLabels m) \<Rightarrow> set_get m ''namespace'' | _ \<Rightarrow> [])),
      r_type = (case any_string (map_of t ''type'') of Some s \<Rightarrow> s | None \<Rightarrow> []),
      r_status = Inr (case any_string (map_of t ''status'') of Some s \<Rightarrow> s | None \<Rightarrow> []),
      r_health = Inr (case any_string (map_of t ''health'') of Some s \<Rightarrow> s | None \<Rightarrow> []),
      r_agent = None,
      r_labels = any_labels sprintv (map_of t ''labels''),
      r_tags = any_labels sprintv (map_of t ''tags''),
      r_field = generic_field_get marshal t\<rparr>"

subsection \<open>Fields of a resource\<close>

definition field_key :: "string \<Rightarrow> string \<Rightarrow> string" where
  "field_key prefix field = trim_space (trim_prefix prefix field)"

definition resource_field_exists :: "'f externals \<Rightarrow> resource \<Rightarrow> string \<Rightarrow> string + bool" where
  "resource_field_exists env rs field =
     (if has_prefix ''labels.'' field then
        (case r_labels rs of None \<Rightarrow> Inr False
         | Some l \<Rightarrow> Inr (snd (lookup_label l (field_key ''labels.'' field))))
      else if has_prefix ''tags.'' field then
        (case r_tags rs of Some l \<Rightarrow> Inr (snd (lookup_label l (field_key ''tags.'' field)))
         | None \<Rightarrow> Inr False)
      else if has_prefix ''properties.'' field then
        (let properties_json = r_field rs ''properties'' in
         if properties_json = [] then Inr False
         else (case decode_properties env properties_json of
                 Inl e \<Rightarrow> Inl (''failed to unmarshall properties: '' @ e)
               | Inr ps \<Rightarrow> Inr (find_property ps (field_key ''properties.'' field) \<noteq> None)))
      else Inr False)"

text \<open>The loop over the properties: \<open>None\<close> when it ends without a return.\<close>

fun property_field :: "string \<Rightarrow> property list \<Rightarrow> string option" where
  "property_field name [] = None"
| "property_field name (p # ps) =
     (if p_name p \<noteq> name then property_field name ps
      else if p_text p \<noteq> [] then Some (p_text p)
      else case p_value p of Some v \<Rightarrow> Some (int_text v) | None \<Rightarrow> property_field name ps)"

definition extract_field_value ::
  "'f externals \<Rightarrow> resource \<Rightarrow> string \<Rightarrow> (string + string) option" where
  "extract_field_value env rs field =
     (if field = ''name'' then map_option Inr (r_name rs)
      else if field = ''namespace'' then Some (Inr (r_namespace rs))
      else if field = ''id'' then map_option Inr (r_id rs)
      else if field = ''type'' then Some (Inr (r_type rs))
      else if field = ''status'' then
        Some (case r_status rs of Inl e \<Rightarrow> Inl (''failed to get status: '' @ e) | Inr v \<Rightarrow> Inr v)
      else if field = ''health'' then
        Some (case r_health rs of Inl e \<Rightarrow> Inl (''failed to get health: '' @ e) | Inr v \<Rightarrow> Inr v)
      else if field = ''agent'' then
        Some (Inr (case r_agent rs of Some a \<Rightarrow> a | None \<Rightarrow> []))
      else if has_prefix ''labels.'' field then
        (case r_labels rs of None \<Rightarrow> None
         | Some l \<Rightarrow> Some (Inr (get_label l (field_key ''labels.'' field))))
      else if has_prefix ''tags.'' field \<and> r_tags rs \<noteq> None then
        (case r_tags rs of Some l \<Rightarrow> Some (Inr (get_label l (field_key ''tags.'' field))) | None \<Rightarrow> None)
      else if has_prefix ''properties.'' field then
        (case decode_properties env (r_field rs ''properties'') of
           Inl e \<Rightarrow> Some (Inl (''failed to unmarshall properties: '' @ e))
         | Inr ps \<Rightarrow>
             (case property_field (field_key ''properties.'' field) ps of
                Some v \<Rightarrow> Some (Inr v)
              | None \<Rightarrow> Some (Inr (r_field rs (trim_space field)))))
      else Some (Inr (r_field rs (trim_space field))))"

subsection \<open>Evaluation of a query\<close>

definition match_leaf :: "'f externals \<Rightarrow> query_field \<Rightarrow> resource \<Rightarrow> bool option" where
  "match_leaf env qf s =
     (if qf_op qf = QExists \<or> qf_op qf = QNotExists then
        (case resource_field_exists env s (qf_field qf) of
           Inl _ \<Rightarrow> Some False
         | Inr exists \<Rightarrow> Some (if qf_op qf = QExists then exists else \<not> exists))
      else
       (case extract_field_value env s (qf_field qf) of
          None \<Rightarrow> None
        | Some (Inl _) \<Rightarrow> Some False
        | Some (Inr value) \<Rightarrow>
            (let patterns = (case qf_value qf of QStr q \<Rightarrow> split_char (CHR '','') q | _ \<Rightarrow> []) in
             case qf_op qf of
               QEq \<Rightarrow>
                 (if qf_field qf = ''agent'' \<and> patterns = [''all''] then Some True
                  else Some (match_items env value patterns))
             | QNeq \<Rightarrow> Some (\<not> match_items env value patterns)
             | QGt \<Rightarrow>
                 (case parse_float env value of
                    None \<Rightarrow> Some False
                  | Some pv \<Rightarrow>
                      (case qf_value qf of
                         QStr q \<Rightarrow> (case parse_float env q of None \<Rightarrow> Some False
                                     | Some qv \<Rightarrow> Some (float_less env qv pv))
                       | _ \<Rightarrow> None))
             | QLt \<Rightarrow>
                 (case parse_float env value of
                    None \<Rightarrow> Some False
                  | Some pv \<Rightarrow>
                      (case qf_value qf of
                         QStr q \<Rightarrow> (case parse_float env q of None \<Rightarrow> Some False
                                     | Some qv \<Rightarrow> Some (float_less env pv qv))
                       | _ \<Rightarrow> None))
             | _ \<Rightarrow> Some False)))"

fun match_grammar :: "'f externals \<Rightarrow> query_field \<Rightarrow> resource \<Rightarrow> bool option"
  and match_fields :: "'f externals \<Rightarrow> query_op \<Rightarrow> query_field list \<Rightarrow> resource \<Rightarrow> bool \<Rightarrow> bool option" where
  "match_grammar env (QueryField field ft v op subs) s =
     (if field \<noteq> [] then match_leaf env (QueryField field ft v op subs) s
      else match_fields env op subs s False)"
| "match_fields env op [] s match_any = Some match_any"
| "match_fields env op (q # qs) s match_any =
     (case match_grammar env q s of
        None \<Rightarrow> None
      | Some m \<Rightarrow>
          if op = QOpOther ''and'' \<and> \<not> m then Some False
          else match_fields env op qs s (match_any \<or> m))"

subsection \<open>The search query of a selector\<close>

definition peg_field :: "string \<Rightarrow> string \<Rightarrow> string list" where
  "peg_field name v = (if v \<noteq> [] then [name @ ''='' @ go_quote v] else [])"

definition query_op_text :: "query_op \<Rightarrow> string" where
  "query_op_text op =
     (case op of QEq \<Rightarrow> ''='' | QNeq \<Rightarrow> ''!='' | QGt \<Rightarrow> ''>'' | QLt \<Rightarrow> ''<'' | QIn \<Rightarrow> ''in''
      | QNotIn \<Rightarrow> ''notin'' | QExists \<Rightarrow> ''exists'' | QNotExists \<Rightarrow> ''notexists'' | QOpOther s \<Rightarrow> s)"

definition requirement_peg :: "string \<Rightarrow> requirement \<Rightarrow> string" where
  "requirement_peg field_prefix r =
     (if req_op r = OpExists then field_prefix @ req_key r
      else if req_op r = OpDoesNotExist then ''!'' @ field_prefix @ req_key r
      else
       (let operator =
          (if req_op r = OpEquals \<or> req_op r = OpIn then QEq
           else if req_op r = OpNotEquals \<or> req_op r = OpNotIn then QNeq
           else if req_op r = OpGreaterThan then QGt
           else if req_op r = OpLessThan then QLt else QEq)
        in field_prefix @ req_key r @ '' '' @ query_op_text operator @ '' ''
             @ go_quote (join '','' (sort (remdups (req_vals r))))))"

definition selector_to_peg :: "'f externals \<Rightarrow> string \<Rightarrow> string \<Rightarrow> string + string list" where
  "selector_to_peg env field_prefix selector =
     and_then (k8s_parse env selector) (\<lambda>parsed.
       case sel_requirements id parsed of (requirements, selectable) \<Rightarrow>
         if \<not> selectable then Inl ''not selectable''
         else Inr (map (requirement_peg field_prefix) requirements))"

definition peg_selector :: "'f externals \<Rightarrow> string \<Rightarrow> string \<Rightarrow> string \<Rightarrow> string + string list" where
  "peg_selector env what field_prefix selector =
     (if selector \<noteq> [] then
        (case selector_to_peg env field_prefix selector of
           Inl e \<Rightarrow> Inl (''failed to convert '' @ what @ '' to selector: '' @ e)
         | Inr s \<Rightarrow> Inr s)
      else Inr [])"

definition peg_fields :: "resource_selector \<Rightarrow> string list" where
  "peg_fields rs =
     peg_field ''id'' (rs_id rs) @ peg_field ''name'' (rs_name rs)
     @ peg_field ''namespace'' (rs_namespace rs) @ peg_field ''health'' (rs_health rs)
     @ (if length (rs_types rs) > 0 then [''type='' @ go_quote (join '','' (rs_types rs))] else [])
     @ (if length (rs_statuses rs) > 0 then [''status='' @ go_quote (join '','' (rs_statuses rs))] else [])
     @ peg_field ''agent'' (rs_agent rs)"

definition to_peg :: "'f externals \<Rightarrow> bool \<Rightarrow> resource_selector \<Rightarrow> string + string" where
  "to_peg env convert_selectors rs =
     and_then
       (if convert_selectors then
          and_then (peg_selector env ''labels'' ''labels.'' (rs_label_selector rs)) (\<lambda>ls.
          and_then (peg_selector env ''tags'' ''tags.'' (rs_tag_selector rs)) (\<lambda>ts.
          and_then (peg_selector env ''fields'' [] (rs_field_selector rs)) (\<lambda>fs. Inr (ls @ ts @ fs))))
        else Inr [])
       (\<lambda>sels.
          let search_conditions = peg_fields rs @ sels in
          Inr (if length search_conditions > 0
               then rs_search rs @ '' '' @ join '' '' search_conditions else rs_search rs))"

definition selector_text :: "'f externals \<Rightarrow> resource_selector \<Rightarrow> string" where
  "selector_text env rs =
     trim_where (\<lambda>c. c = CHR '' '') (case to_peg env True rs of Inl _ \<Rightarrow> [] | Inr s \<Rightarrow> s)"

subsection \<open>Selecting resources\<close>

text \<open>The result with the error return; the outer \<open>None\<close> is a panic.\<close>

definition rs_matches ::
  "'f externals \<Rightarrow> (requirement list \<Rightarrow> requirement list) \<Rightarrow> resource_selector \<Rightarrow> resource
   \<Rightarrow> (bool \<times> string option) option" where
  "rs_matches env srt rs s =
     (if is_empty_selector rs then Some (False, None)
      else if wildcard rs then Some (True, None)
      else
       (let peg = to_peg env True (canonical srt rs) in
        if (case peg of Inl _ \<Rightarrow> [] | Inr p \<Rightarrow> p) = []
        then Some (False, case peg of Inl e \<Rightarrow> Some e | Inr _ \<Rightarrow> None)
        else (case parse_peg env (case peg of Inl _ \<Rightarrow> [] | Inr p \<Rightarrow> p) of
                Inl e \<Rightarrow> Some (False, Some e)
              | Inr qf \<Rightarrow> map_option (\<lambda>b. (b, None)) (match_grammar env qf s))))"

fun any_selector_matches ::
  "'f externals \<Rightarrow> (requirement list \<Rightarrow> requirement list) \<Rightarrow> resource_selector list \<Rightarrow> resource \<Rightarrow> bool option" where
  "any_selector_matches env srt [] s = Some False"
| "any_selector_matches env srt (rs # rss) s =
     (case rs_matches env srt rs s of
        None \<Rightarrow> None
      | Some (ok, _) \<Rightarrow> if ok then Some True else any_selector_matches env srt rss s)"

definition selectors_match ::
  "'f externals \<Rightarrow> (requirement list \<Rightarrow> requirement list) \<Rightarrow> resource_selector list \<Rightarrow> resource \<Rightarrow> bool option" where
  "selectors_match env srt rss s =
     (if length rss = 0 then Some True else any_selector_matches env srt rss s)"

fun match_loop ::
  "'f externals \<Rightarrow> (requirement list \<Rightarrow> requirement list) \<Rightarrow> resource list \<Rightarrow> resource_selector list
   \<Rightarrow> resource list option" where
  "match_loop env srt [] selectors = Some []"
| "match_loop env srt (s # ss) selectors =
     (case any_selector_matches env srt selectors s of
        None \<Rightarrow> None
      | Some ok \<Rightarrow> map_option (\<lambda>ms. if ok then s # ms else ms) (match_loop env srt ss selectors))"

definition match_selectables ::
  "'f externals \<Rightarrow> (requirement list \<Rightarrow> requirement list) \<Rightarrow> resource list \<Rightarrow> resource_selector list
   \<Rightarrow> resource list option" where
  "match_selectables env srt selectables selectors =
     (if length selectors = 0 then Some [] else match_loop env srt selectables selectors)"

subsection \<open>What an evaluation returns\<close>

text \<open>The meaning of a query tree over a valuation of its leaves: a node with a field is a leaf, an
  \<open>and\<close> node holds when it has parts and all of them do, any other node when one part does.\<close>

fun qf_leaves :: "query_field \<Rightarrow> query_field list" where
  "qf_leaves (QueryField field ft v op subs) =
     (if field \<noteq> [] then [QueryField field ft v op subs] else concat (map qf_leaves subs))"

fun qf_holds :: "(query_field \<Rightarrow> bool) \<Rightarrow> query_field \<Rightarrow> bool" where
  "qf_holds leaf (QueryField field ft v op subs) =
     (if field \<noteq> [] then leaf (QueryField field ft v op subs)
      else if op = QOpOther ''and'' then subs \<noteq> [] \<and> list_all (qf_holds leaf) subs
      else list_ex (qf_holds leaf) subs)"

lemma match_grammar_holds:
  "\<forall>q \<in> set (qf_leaves qf). match_leaf env q s = Some (leaf q)
    \<Longrightarrow> match_grammar env qf s = Some (qf_holds leaf qf)"
  "\<forall>q \<in> set (concat (map qf_leaves subs)). match_leaf env q s = Some (leaf q)
    \<Longrightarrow> match_fields env op subs s match_any = Some
      (if op = QOpOther ''and'' then (match_any \<or> subs \<noteq> []) \<and> list_all (qf_holds leaf) subs
       else match_any \<or> list_ex (qf_holds leaf) subs)"
  by (induction env qf s and env op subs s match_any rule: match_grammar_match_fields.induct) auto

text \<open>Evaluating a query tree on a resource: when no leaf panics, the evaluation returns, and its
  result is the boolean meaning of the tree; an \<open>and\<close> node without parts is false.\<close>
theorem match_grammar_correct:
  assumes "\<forall>q \<in> set (qf_leaves qf). match_leaf env q s = Some (leaf q)"
  shows "match_grammar env qf s = Some (qf_holds leaf qf)"
  using assms by (rule match_grammar_holds)

definition sample_env :: "unit externals" where
  "sample_env = \<lparr>match_items = (\<lambda>v ps. v \<in> set ps), parse_peg = (\<lambda>s. Inl s), k8s_parse = (\<lambda>s. Inl s),
     decode_properties = (\<lambda>s. Inr []), parse_float = (\<lambda>s. None), float_less = (\<lambda>_ _. False)\<rparr>"

definition sample_resource :: resource where
  "sample_resource = selectable_map (\<lambda>_. []) (\<lambda>_. [])
     [(''id'', AnyString ''1''), (''name'', AnyString ''web''), (''type'', AnyString ''Pod'')]"

theorem match_grammar_correct_witness:
  "match_grammar sample_env (QueryField [] FieldTypeUnknown QNil (QOpOther ''and'')
     [QueryField ''name'' FieldTypeUnknown (QStr ''web,api'') QEq [],
      QueryField ''type'' FieldTypeUnknown (QStr ''Node'') QNeq []]) sample_resource = Some True"
proof -
  let ?qf = "QueryField [] FieldTypeUnknown QNil (QOpOther ''and'')
     [QueryField ''name'' FieldTypeUnknown (QStr ''web,api'') QEq [],
      QueryField ''type'' FieldTypeUnknown (QStr ''Node'') QNeq []]"
  have "\<forall>q \<in> set (qf_leaves ?qf). match_leaf sample_env q sample_resource = Some ((\<lambda>_. True) q)"
    by code_simp
  from match_grammar_correct [OF this] show ?thesis by simp
qed

text \<open>A resource without labels: the interface returns a nil matcher, on which an equality query on any
  label panics, while the existence query answers that the label does not exist.\<close>
theorem nil_labels_panic:
  "match_grammar env (QueryField (''labels.'' @ k) ft v QEq subs) (s\<lparr>r_labels := None\<rparr>) = None
   \<and> match_grammar env (QueryField (''labels.'' @ k) ft v QExists subs) (s\<lparr>r_labels := None\<rparr>) = Some False
   \<and> r_labels (selectable_map sprintv marshal [(''id'', AnyString i), (''name'', AnyString n)]) = None"
  by (simp add: match_leaf_def extract_field_value_def resource_field_exists_def selectable_map_def any_labels_def)

text \<open>The matcher over \<open>map[string]string\<close> meets the laws of the label interface.\<close>

interpretation generic_labels: label_source "\<lambda>m. label_view.truncate (generic_labels_matcher m)" map_of
  by unfold_locales (auto simp: label_view.truncate_def generic_labels_matcher_def set_has_def set_get_def)

text \<open>The matcher over \<open>map[string]any\<close> does not behave as a set of labels: no contents satisfy the laws
  of the label interface for it, because \<open>Get\<close> of an absent label is not the empty string but
  \<open><nil>\<close>.\<close>
theorem generic_any_not_labels:
  "\<not> label_source (\<lambda>m. label_view.truncate (generic_labels_matcher_any sprintv m)) content
   \<and> get_label (generic_labels_matcher_any sprintv []) k = ''<nil>''
   \<and> lookup_label (generic_labels_matcher_any sprintv []) k = ([], False)"
proof -
  have "\<not> label_source (\<lambda>m. label_view.truncate (generic_labels_matcher_any sprintv m)) content"
  proof
    assume l: "label_source (\<lambda>m. label_view.truncate (generic_labels_matcher_any sprintv m)) content"
    show False
      using label_source.has_content [OF l, of "[]" "[]"] label_source.get_content [OF l, of "[]" "[]"]
      by (simp add: label_view.truncate_def generic_labels_matcher_any_def any_text_def)
  qed
  then show ?thesis by (simp add: generic_labels_matcher_any_def any_text_def)
qed

subsection \<open>Lists of selectors\<close>

definition selects :: "'f externals \<Rightarrow> (requirement list \<Rightarrow> requirement list) \<Rightarrow> resource_selector \<Rightarrow> resource \<Rightarrow> bool" where
  "selects env srt rs s = (case rs_matches env srt rs s of Some (ok, _) \<Rightarrow> ok | None \<Rightarrow> False)"

lemma any_selector_matches_eq:
  "\<forall>rs \<in> set rss. rs_matches env srt rs s \<noteq> None
    \<Longrightarrow> any_selector_matches env srt rss s = Some (\<exists>rs \<in> set rss. selects env srt rs s)"
  by (induction rss) (auto simp: selects_def)

lemma match_loop_eq:
  "\<forall>s \<in> set ss. \<forall>rs \<in> set rss. rs_matches env srt rs s \<noteq> None
    \<Longrightarrow> match_loop env srt ss rss = Some (filter (\<lambda>s. \<exists>rs \<in> set rss. selects env srt rs s) ss)"
  by (induction ss) (auto simp: any_selector_matches_eq)

text \<open>\<open>MatchSelectables\<close> keeps, in order, the resources one of the selectors selects, and agrees with
  \<open>ResourceSelectors.Matches\<close> on each of them, except on the empty list of selectors: that selects
  every resource in one and none in the other.\<close>
theorem match_selectables_filter:
  assumes "\<forall>s \<in> set ss. \<forall>rs \<in> set rss. rs_matches env srt rs s \<noteq> None"
  shows "match_selectables env srt ss rss = Some (filter (\<lambda>s. \<exists>rs \<in> set rss. selects env srt rs s) ss)
    \<and> (rss \<noteq> [] \<longrightarrow> match_selectables env srt ss rss = Some (filter (\<lambda>s. selectors_match env srt rss s = Some True) ss))
    \<and> selectors_match env srt [] s = Some True \<and> match_selectables env srt ss [] = Some []"
proof -
  have "selectors_match env srt rss s = Some (\<exists>rs \<in> set rss. selects env srt rs s)" if "s \<in> set ss" "rss \<noteq> []" for s
    using that assms by (simp add: selectors_match_def any_selector_matches_eq)
  then have "rss \<noteq> [] \<Longrightarrow> filter (\<lambda>s. \<exists>rs \<in> set rss. selects env srt rs s) ss
      = filter (\<lambda>s. selectors_match env srt rss s = Some True) ss"
    by (intro filter_cong) auto
  then show ?thesis
    using match_loop_eq [OF assms] by (auto simp: match_selectables_def selectors_match_def)
qed

theorem match_selectables_filter_witness:
  "match_selectables sample_env (sort_key req_key) [sample_resource] [empty_selector\<lparr>rs_name := ''*''\<rparr>, empty_selector]
     = Some [sample_resource]"
proof -
  have m: "rs_matches sample_env (sort_key req_key) (empty_selector\<lparr>rs_name := ''*''\<rparr>) sample_resource = Some (True, None)"
    "rs_matches sample_env (sort_key req_key) empty_selector sample_resource = Some (False, None)"
    by (simp_all add: rs_matches_def is_empty_selector_def wildcard_def all_empty_but_name_def empty_selector_def)
  have "\<forall>s \<in> set [sample_resource]. \<forall>rs \<in> set [empty_selector\<lparr>rs_name := ''*''\<rparr>, empty_selector].
      rs_matches sample_env (sort_key req_key) rs s \<noteq> None"
    using m by (auto intro: exI [of _ True] exI [of _ False])
  from match_selectables_filter [OF this, of sample_resource, THEN conjunct1] show ?thesis
    using m by (simp add: selects_def)
qed

text \<open>A selector whose fields are all wildcards, other than the name, selects nothing: its canonical form
  has no condition left, and \<open>Matches\<close> takes that for no match; the name wildcard selects everything.\<close>
theorem only_wildcards_select_nothing:
  assumes "all_empty_but_name (canonical srt rs)" "rs_name rs = []"
  shows "rs_matches env srt rs s = Some (False, None)
    \<and> rs_matches env srt (empty_selector\<lparr>rs_name := ''*''\<rparr>) s = Some (True, None)"
proof -
  have "rs_name (canonical srt rs) = []" using assms(2) by (simp add: canonical_def)
  then have "to_peg env True (canonical srt rs) = Inr []"
    using assms(1) by (simp add: to_peg_def peg_fields_def peg_field_def peg_selector_def all_empty_but_name_def)
  moreover have "\<not> wildcard rs" using assms(2) by (simp add: wildcard_def)
  moreover have "rs_matches env srt (empty_selector\<lparr>rs_name := ''*''\<rparr>) s = Some (True, None)"
    by (simp add: rs_matches_def is_empty_selector_def wildcard_def all_empty_but_name_def empty_selector_def)
  ultimately show ?thesis by (simp add: rs_matches_def)
qed

theorem only_wildcards_select_nothing_witness:
  "rs_matches sample_env (sort_key req_key)
     (empty_selector\<lparr>rs_namespace := ''*'', rs_types := [''*''], rs_health := ''*''\<rparr>) sample_resource = Some (False, None)"
proof -
  have "all_empty_but_name (canonical (sort_key req_key)
      (empty_selector\<lparr>rs_namespace := ''*'', rs_types := [''*''], rs_health := ''*''\<rparr>))" by code_simp
  from only_wildcards_select_nothing [OF this, of sample_env sample_resource] show ?thesis
    by (simp add: empty_selector_def)
qed

end
