(* ===== verification/Config_Merge.thy ===== *)
theory Config_Merge
  imports Label_Set
begin

section \<open>Merging configuration trees\<close>

text \<open>
  The first half of \<^verbatim>\<open>query/config_tree.go\<close>: \<open>MergeConfigTrees\<close> and \<open>OutgoingIDs\<close>. The inputs are
  trees (\<open>toConfigTreeNode\<close> allocates every node it returns). The output shares nodes: every node
  the merge allocates is entered in \<open>byID\<close> under its own id and no entry is ever replaced, so a
  pointer to a merged node is the id of its entry, and the heap is that map. An append to the
  children of a node whose argument is a call reads the slice after the call.
\<close>

subsection \<open>Nodes\<close>

type_synonym uuid = string

record config_item =
  ci_id :: uuid
  ci_type :: "string option"
  ci_name :: "string option"
  ci_parent_id :: "uuid option"
  ci_path :: string
  ci_tags :: label_set
  ci_status :: "string option"
  ci_health :: "string option"
  ci_created_at :: int
  ci_updated_at :: "int option"
  ci_deleted_at :: "int option"
  ci_agent_id :: uuid

datatype config_tree =
  ConfigTree (ct_item: config_item) (ct_edge: string) (ct_relation: string) (ct_children: "config_tree list")

abbreviation ct_id :: "config_tree \<Rightarrow> uuid" where
  "ct_id t \<equiv> ci_id (ct_item t)"

subsection \<open>Outgoing ids\<close>

fun collect_outgoing :: "config_tree \<Rightarrow> uuid list \<Rightarrow> uuid set \<Rightarrow> uuid list \<times> uuid set"
  and collect_children :: "config_tree list \<Rightarrow> uuid list \<Rightarrow> uuid set \<Rightarrow> uuid list \<times> uuid set" where
  "collect_outgoing (ConfigTree item edge rel cs) ids seen =
     (if ci_id item \<in> seen then (ids, seen)
      else collect_children cs (if edge \<noteq> ''parent'' then ids @ [ci_id item] else ids)
             (insert (ci_id item) seen))"
| "collect_children [] ids seen = (ids, seen)"
| "collect_children (c # cs) ids seen =
     (case collect_outgoing c ids seen of (ids1, seen1) \<Rightarrow> collect_children cs ids1 seen1)"

definition outgoing_ids :: "config_tree \<Rightarrow> uuid list" where
  "outgoing_ids n = fst (collect_outgoing n [] {})"

subsection \<open>The merge\<close>

record merged_node =
  mn_item :: config_item
  mn_edge :: string
  mn_relation :: string
  mn_children :: "uuid list"

type_synonym merge_heap = "uuid \<rightharpoonup> merged_node"

definition add_child :: "uuid \<Rightarrow> uuid \<Rightarrow> merge_heap \<Rightarrow> merge_heap" where
  "add_child p c h =
     (case h p of Some n \<Rightarrow> h(p \<mapsto> n\<lparr>mn_children := mn_children n @ [c]\<rparr>) | None \<Rightarrow> h)"

definition merge_fields :: "uuid \<Rightarrow> config_tree \<Rightarrow> merge_heap \<Rightarrow> merge_heap" where
  "merge_fields dst src h =
     (case h dst of
        Some n \<Rightarrow> h(dst \<mapsto> n\<lparr>mn_edge := (if ct_edge src = ''target'' then ''target'' else mn_edge n),
          mn_relation := (if mn_relation n = [] \<and> ct_relation src \<noteq> [] then ct_relation src else mn_relation n)\<rparr>)
      | None \<Rightarrow> h)"

definition children_of :: "merge_heap \<Rightarrow> uuid \<Rightarrow> uuid list" where
  "children_of h x = (case h x of Some n \<Rightarrow> mn_children n | None \<Rightarrow> [])"

text \<open>\<open>existing\<close> is the keys of the local map of \<open>mergeConfigTreeInto\<close>, filled once from the children
  the destination has on entry and extended by the loop.\<close>

lemma ct_children_size: "size_list size (ct_children n) < size n"
  by (cases n) simp

function clone_tree :: "config_tree \<Rightarrow> merge_heap \<Rightarrow> merge_heap"
  and clone_children :: "uuid \<Rightarrow> config_tree list \<Rightarrow> merge_heap \<Rightarrow> merge_heap"
  and merge_into :: "config_tree \<Rightarrow> merge_heap \<Rightarrow> merge_heap"
  and merge_children :: "uuid \<Rightarrow> uuid set \<Rightarrow> config_tree list \<Rightarrow> merge_heap \<Rightarrow> merge_heap" where
  "clone_tree n h =
     (if h (ct_id n) \<noteq> None then merge_into n h
      else clone_children (ct_id n) (ct_children n)
             (h(ct_id n \<mapsto> \<lparr>mn_item = ct_item n, mn_edge = ct_edge n, mn_relation = ct_relation n, mn_children = []\<rparr>)))"
| "clone_children out [] h = h"
| "clone_children out (c # cs) h = clone_children out cs (add_child out (ct_id c) (clone_tree c h))"
| "merge_into src h =
     merge_children (ct_id src) (set (children_of h (ct_id src))) (ct_children src)
       (merge_fields (ct_id src) src h)"
| "merge_children dst existing [] h = h"
| "merge_children dst existing (c # cs) h =
     (if ct_id c \<in> existing then merge_children dst existing cs (merge_into c h)
      else merge_children dst (insert (ct_id c) existing) cs (add_child dst (ct_id c) (clone_tree c h)))"
  by pat_completeness auto
termination
  by (relation "measure (\<lambda>x. case x of
       Inl (Inl (n, h)) \<Rightarrow> 2 * size n + 1
     | Inl (Inr (out, cs, h)) \<Rightarrow> 2 * size_list size cs
     | Inr (Inl (n, h)) \<Rightarrow> 2 * size n
     | Inr (Inr (dst, ex, cs, h)) \<Rightarrow> 2 * size_list size cs)")
    (auto simp: ct_children_size [THEN less_imp_le] mult_less_mono2 ct_children_size
      intro: le_less_trans [OF mult_le_mono2 [OF ct_children_size [THEN less_imp_le]]])

declare clone_tree.simps [simp del] merge_into.simps [simp del]

text \<open>\<open>MergeConfigTrees\<close>; a nil entry of the input is \<open>None\<close>.\<close>

fun merge_trees_loop :: "config_tree option list \<Rightarrow> uuid list \<Rightarrow> merge_heap \<Rightarrow> uuid list \<times> merge_heap" where
  "merge_trees_loop [] roots h = (roots, h)"
| "merge_trees_loop (None # ts) roots h = merge_trees_loop ts roots h"
| "merge_trees_loop (Some t # ts) roots h =
     (if h (ct_id t) \<noteq> None then merge_trees_loop ts roots (merge_into t h)
      else merge_trees_loop ts (roots @ [ct_id t]) (clone_tree t h))"

definition merge_config_trees :: "config_tree option list \<Rightarrow> uuid list \<times> merge_heap" where
  "merge_config_trees trees = merge_trees_loop trees [] Map.empty"

subsection \<open>What a merge does to the heap\<close>

fun subtrees :: "config_tree \<Rightarrow> config_tree list" where
  "subtrees (ConfigTree item edge rel cs) = ConfigTree item edge rel cs # concat (map subtrees cs)"

lemma subtrees_eq: "subtrees t = t # concat (map subtrees (ct_children t))"
  by (cases t) simp

definition forest :: "config_tree list \<Rightarrow> config_tree set" where
  "forest ts = set (concat (map subtrees ts))"

definition tree_edges :: "config_tree set \<Rightarrow> (uuid \<times> uuid) set" where
  "tree_edges S = {(ct_id s, ct_id c) | s c. s \<in> S \<and> c \<in> set (ct_children s)}"

definition tree_targets :: "config_tree set \<Rightarrow> uuid set" where
  "tree_targets S = ct_id ` {s \<in> S. ct_edge s = ''target''}"

definition heap_edges :: "merge_heap \<Rightarrow> (uuid \<times> uuid) set" where
  "heap_edges h = {(x, y). y \<in> set (children_of h x)}"

definition heap_targets :: "merge_heap \<Rightarrow> uuid set" where
  "heap_targets h = {x. \<exists>n. h x = Some n \<and> mn_edge n = ''target''}"

lemma forest_simps [simp]:
  "forest [] = {}" "forest (t # ts) = set (subtrees t) \<union> forest ts"
  by (auto simp: forest_def)

lemma set_subtrees: "set (subtrees t) = insert t (forest (ct_children t))"
  by (cases t) (auto simp: forest_def)

lemma tree_edges_Un [simp]: "tree_edges {} = {}" "tree_edges (A \<union> B) = tree_edges A \<union> tree_edges B"
  "tree_edges (insert t A) = (\<lambda>c. (ct_id t, ct_id c)) ` set (ct_children t) \<union> tree_edges A"
  by (auto simp: tree_edges_def)

lemma tree_targets_Un [simp]: "tree_targets {} = {}" "tree_targets (A \<union> B) = tree_targets A \<union> tree_targets B"
  "tree_targets (insert t A) = (if ct_edge t = ''target'' then {ct_id t} else {}) \<union> tree_targets A"
  by (auto simp: tree_targets_def)

text \<open>From \<open>h\<close> to \<open>h'\<close> the occurrences \<open>S\<close> have been entered, with the edges \<open>E\<close>.\<close>

definition entered :: "config_tree set \<Rightarrow> (uuid \<times> uuid) set \<Rightarrow> merge_heap \<Rightarrow> merge_heap \<Rightarrow> bool" where
  "entered S E h h' \<longleftrightarrow>
     dom h' = dom h \<union> ct_id ` S \<and> heap_edges h' = heap_edges h \<union> E
     \<and> heap_targets h' = heap_targets h \<union> tree_targets S
     \<and> (\<forall>x n'. h' x = Some n' \<longrightarrow> (\<exists>n. h x = Some n \<and> mn_item n = mn_item n')
          \<or> (\<exists>s \<in> S. ct_id s = x \<and> ct_item s = mn_item n'))
     \<and> (\<forall>x. x \<notin> fst ` E \<longrightarrow> children_of h' x = children_of h x)"

lemma entered_refl: "entered {} {} h h"
  by (auto simp: entered_def)

lemma entered_trans:
  "entered A E h h1 \<Longrightarrow> entered B F h1 h2 \<Longrightarrow> entered (A \<union> B) (E \<union> F) h h2"
proof -
  assume 1: "entered A E h h1" and 2: "entered B F h1 h2"
  have "dom h2 = dom h \<union> ct_id ` (A \<union> B)" "heap_edges h2 = heap_edges h \<union> (E \<union> F)"
    "heap_targets h2 = heap_targets h \<union> tree_targets (A \<union> B)"
    using 1 2 by (simp_all add: entered_def image_Un Un_assoc)
  moreover have "(\<exists>n. h x = Some n \<and> mn_item n = mn_item n'') \<or> (\<exists>s \<in> A \<union> B. ct_id s = x \<and> ct_item s = mn_item n'')"
    if "h2 x = Some n''" for x n''
  proof -
    from 2 that consider n' where "h1 x = Some n'" "mn_item n' = mn_item n''"
      | s where "s \<in> B" "ct_id s = x" "ct_item s = mn_item n''"
      unfolding entered_def by blast
    then show ?thesis
    proof cases
      case 1
      then show ?thesis using \<open>entered A E h h1\<close> unfolding entered_def by (metis UnI1)
    qed blast
  qed
  moreover have "children_of h2 x = children_of h x" if "x \<notin> fst ` (E \<union> F)" for x
    using 1 2 that by (simp add: entered_def image_Un)
  ultimately show ?thesis unfolding entered_def by blast
qed

lemma entered_step:
  "entered A E h h1 \<Longrightarrow> entered B F h1 h2 \<Longrightarrow> C = A \<union> B \<Longrightarrow> G = E \<union> F \<Longrightarrow> entered C G h h2"
  using entered_trans by blast

lemma entered_alloc:
  assumes "h (ct_id n) = None"
  shows "entered {n} {} h
    (h(ct_id n \<mapsto> \<lparr>mn_item = ct_item n, mn_edge = ct_edge n, mn_relation = ct_relation n, mn_children = []\<rparr>))"
  using assms by (auto simp: entered_def heap_edges_def heap_targets_def children_of_def tree_targets_def split: if_splits)

lemma entered_fields:
  assumes "ct_id src \<in> dom h"
  shows "entered {src} {} h (merge_fields (ct_id src) src h)"
  using assms
  by (auto simp: entered_def merge_fields_def heap_edges_def heap_targets_def children_of_def tree_targets_def
      split: if_splits)

lemma entered_add_child:
  assumes "p \<in> dom h"
  shows "entered {} {(p, c)} h (add_child p c h)"
  using assms
  by (auto simp: entered_def add_child_def heap_edges_def heap_targets_def children_of_def
      split: if_splits)

definition closed_heap :: "merge_heap \<Rightarrow> bool" where
  "closed_heap h \<longleftrightarrow> heap_edges h \<subseteq> UNIV \<times> dom h"

lemma entered_closed:
  "entered S E h h' \<Longrightarrow> closed_heap h \<Longrightarrow> snd ` E \<subseteq> dom h' \<Longrightarrow> closed_heap h'"
proof -
  assume "entered S E h h'" "closed_heap h" "snd ` E \<subseteq> dom h'"
  then have "dom h \<subseteq> dom h'" "heap_edges h' = heap_edges h \<union> E" "heap_edges h \<subseteq> UNIV \<times> dom h"
    "snd ` E \<subseteq> dom h'" by (simp_all add: entered_def closed_heap_def)
  then show ?thesis unfolding closed_heap_def by force
qed

lemma entered_dom: "entered S E h h' \<Longrightarrow> dom h' = dom h \<union> ct_id ` S"
  by (simp add: entered_def)

lemma children_in_forest: "c \<in> set cs \<Longrightarrow> c \<in> forest cs"
  by (induction cs) (auto simp: set_subtrees)

lemma subtrees_children: "s \<in> set (subtrees t) \<Longrightarrow> c \<in> set (ct_children s) \<Longrightarrow> c \<in> set (subtrees t)"
proof (induction t)
  case (ConfigTree item edge rel cs)
  show ?case
  proof (cases "s = ConfigTree item edge rel cs")
    case True
    with ConfigTree.prems have "c \<in> forest cs" by (simp add: children_in_forest)
    then show ?thesis unfolding set_subtrees by simp
  next
    case False
    with ConfigTree.prems(1) obtain t where t: "t \<in> set cs" "s \<in> set (subtrees t)"
      unfolding subtrees.simps by auto
    with ConfigTree have "c \<in> set (subtrees t)" by blast
    with t(1) show ?thesis unfolding subtrees.simps by auto
  qed
qed

lemma tree_edges_subtrees: "snd ` tree_edges (set (subtrees t)) \<subseteq> ct_id ` set (subtrees t)"
  using subtrees_children unfolding tree_edges_def by force

lemma tree_edges_forest: "snd ` tree_edges (forest cs) \<subseteq> ct_id ` forest cs"
proof (induction cs)
  case (Cons t cs)
  then show ?case using tree_edges_subtrees [of t]
    unfolding forest_simps(2) tree_edges_Un(2) image_Un by blast
qed simp

lemma entered_closed_tree:
  assumes "entered (set (subtrees t)) (tree_edges (set (subtrees t))) h h'" "closed_heap h"
  shows "closed_heap h'"
  using entered_closed [OF assms] tree_edges_subtrees [of t] entered_dom [OF assms(1)] by blast

lemma self_subtree: "t \<in> set (subtrees t)"
  by (simp add: set_subtrees)

lemma merge_entered:
  "closed_heap h \<Longrightarrow> entered (set (subtrees n)) (tree_edges (set (subtrees n))) h (clone_tree n h)"
  "closed_heap h \<Longrightarrow> out \<in> dom h \<Longrightarrow>
     entered (forest cs) ((\<lambda>c. (out, ct_id c)) ` set cs \<union> tree_edges (forest cs)) h (clone_children out cs h)"
  "closed_heap h \<Longrightarrow> ct_id src \<in> dom h \<Longrightarrow>
     entered (set (subtrees src)) (tree_edges (set (subtrees src))) h (merge_into src h)"
  "closed_heap h \<Longrightarrow> dst \<in> dom h \<Longrightarrow> existing \<subseteq> set (children_of h dst) \<Longrightarrow>
     entered (forest cs) ((\<lambda>c. (dst, ct_id c)) ` set cs \<union> tree_edges (forest cs)) h (merge_children dst existing cs h)"
proof (induction n h and out cs h and src h and dst existing cs h
    rule: clone_tree_clone_children_merge_into_merge_children.induct)
  case (1 n h)
  show ?case
  proof (cases "h (ct_id n)")
    case None
    let ?h1 = "h(ct_id n \<mapsto> \<lparr>mn_item = ct_item n, mn_edge = ct_edge n, mn_relation = ct_relation n, mn_children = []\<rparr>)"
    have e1: "entered {n} {} h ?h1" using None by (rule entered_alloc)
    then have "closed_heap ?h1" using 1(3) by (rule entered_closed) simp
    moreover have "\<not> h (ct_id n) \<noteq> None" "ct_id n \<in> dom ?h1" using None by (simp_all only: dom_fun_upd) auto
    ultimately have e2: "entered (forest (ct_children n)) ((\<lambda>c. (ct_id n, ct_id c)) ` set (ct_children n)
        \<union> tree_edges (forest (ct_children n))) ?h1 (clone_children (ct_id n) (ct_children n) ?h1)"
      by (intro 1(2))
    show ?thesis
      using entered_step [OF e1 e2] None by (simp add: clone_tree.simps [of n] set_subtrees)
  next
    case (Some m)
    then show ?thesis using 1 by (simp add: clone_tree.simps [of n] domI)
  qed
next
  case (2 out h)
  show ?case by (simp add: entered_refl)
next
  case (3 out c cs h)
  note e1 = 3(1) [OF 3(3)]
  have d1: "out \<in> dom (clone_tree c h)" "ct_id c \<in> dom (clone_tree c h)"
    using entered_dom [OF e1] 3(4) self_subtree by auto
  note e2 = entered_add_child [OF d1(1), of "ct_id c"]
  have c1: "closed_heap (clone_tree c h)"
    by (rule entered_closed_tree [OF e1 3(3)])
  have c2: "closed_heap (add_child out (ct_id c) (clone_tree c h))"
    using entered_closed [OF e2 c1] d1(2) entered_dom [OF e2] by simp
  have d2: "out \<in> dom (add_child out (ct_id c) (clone_tree c h))" using d1 entered_dom [OF e2] by simp
  note e3 = 3(2) [OF c2 d2]
  show ?case
    unfolding clone_children.simps
    by (rule entered_step [OF e1 entered_step [OF e2 e3 refl refl]]) auto
next
  case (4 src h)
  note e1 = entered_fields [OF 4(3)]
  have c1: "closed_heap (merge_fields (ct_id src) src h)" using entered_closed [OF e1 4(2)] by simp
  have "children_of (merge_fields (ct_id src) src h) (ct_id src) = children_of h (ct_id src)"
    using e1 by (simp add: entered_def)
  then have e2: "entered (forest (ct_children src)) ((\<lambda>c. (ct_id src, ct_id c)) ` set (ct_children src)
      \<union> tree_edges (forest (ct_children src))) (merge_fields (ct_id src) src h) (merge_into src h)"
    using 4(1) [OF c1] 4(3) entered_dom [OF e1] by (simp add: merge_into.simps [of src])
  show ?case using entered_step [OF e1 e2] by (simp add: set_subtrees)
next
  case (5 dst existing h)
  show ?case by (simp add: entered_refl)
next
  case (6 dst existing c cs h)
  show ?case
  proof (cases "ct_id c \<in> existing")
    case True
    then have edge: "(dst, ct_id c) \<in> heap_edges h" using 6(7) by (auto simp: heap_edges_def)
    then have d: "ct_id c \<in> dom h" using 6(5) by (auto simp: closed_heap_def)
    note e1 = 6(1) [OF True 6(5) d]
    have c1: "closed_heap (merge_into c h)"
      by (rule entered_closed_tree [OF e1 6(5)])
    have "existing \<subseteq> set (children_of (merge_into c h) dst)"
      using e1 6(7) unfolding entered_def heap_edges_def by fastforce
    then have e2: "entered (forest cs) ((\<lambda>c. (dst, ct_id c)) ` set cs \<union> tree_edges (forest cs))
        (merge_into c h) (merge_children dst existing cs (merge_into c h))"
      using 6(2) [OF True c1] 6(6) entered_dom [OF e1] by blast
    have e0: "entered {} {(dst, ct_id c)} h h" using edge by (auto simp: entered_def)
    show ?thesis
      using True entered_step [OF e0 entered_step [OF e1 e2 refl refl]] by (simp add: Un_ac)
  next
    case False
    note e1 = 6(3) [OF False 6(5)]
    have d1: "dst \<in> dom (clone_tree c h)" "ct_id c \<in> dom (clone_tree c h)"
      using entered_dom [OF e1] 6(6) self_subtree by auto
    note e2 = entered_add_child [OF d1(1), of "ct_id c"]
    have c1: "closed_heap (clone_tree c h)"
      by (rule entered_closed_tree [OF e1 6(5)])
    have c2: "closed_heap (add_child dst (ct_id c) (clone_tree c h))"
      using entered_closed [OF e2 c1] d1(2) entered_dom [OF e2] by simp
    have d2: "dst \<in> dom (add_child dst (ct_id c) (clone_tree c h))" using d1 entered_dom [OF e2] by simp
    have "insert (ct_id c) existing \<subseteq> set (children_of (add_child dst (ct_id c) (clone_tree c h)) dst)"
      using entered_trans [OF e1 e2] 6(7) unfolding entered_def heap_edges_def by fastforce
    note e3 = 6(4) [OF False c2 d2 this]
    show ?thesis
      unfolding merge_children.simps if_not_P [OF False]
      by (rule entered_step [OF e1 entered_step [OF e2 e3 refl refl]]) auto
  qed
qed

lemma entered_frame: "entered S E h h' \<Longrightarrow> x \<notin> fst ` E \<Longrightarrow> children_of h' x = children_of h x"
  by (simp add: entered_def)

lemma tree_edges_fst: "fst ` tree_edges S \<subseteq> ct_id ` S"
  by (auto simp: tree_edges_def)

subsection \<open>The merged forest\<close>

definition present :: "'a option list \<Rightarrow> 'a list" where
  "present xs = map the (filter (\<lambda>x. x \<noteq> None) xs)"

lemma present_simps [simp]: "present [] = []" "present (None # xs) = present xs" "present (Some x # xs) = x # present xs"
  by (simp_all add: present_def)

lemma rtrancl_add: "r \<subseteq> s \<Longrightarrow> (x, y) \<in> r\<^sup>* \<Longrightarrow> (x, y) \<in> s\<^sup>*"
  by (meson rtrancl_mono subsetD)

lemma subtrees_reached: "s \<in> set (subtrees t) \<Longrightarrow> (ct_id t, ct_id s) \<in> (tree_edges (set (subtrees t)))\<^sup>*"
proof (induction t)
  case (ConfigTree item edge rel cs)
  let ?t = "ConfigTree item edge rel cs"
  show ?case
  proof (cases "s = ?t")
    case False
    with ConfigTree.prems obtain c where c: "c \<in> set cs" "s \<in> set (subtrees c)"
      unfolding subtrees.simps by auto
    have "set (subtrees c) \<subseteq> set (subtrees ?t)" using c(1) unfolding subtrees.simps by auto
    then have "tree_edges (set (subtrees c)) \<subseteq> tree_edges (set (subtrees ?t))" by (auto simp only: tree_edges_def)
    with ConfigTree.IH [OF c] have "(ct_id c, ct_id s) \<in> (tree_edges (set (subtrees ?t)))\<^sup>*" by (rule rtrancl_add [rotated])
    moreover have "(ct_id ?t, ct_id c) \<in> tree_edges (set (subtrees ?t))" using c(1) by (simp add: set_subtrees)
    ultimately show ?thesis by (rule converse_rtrancl_into_rtrancl [rotated])
  qed simp
qed

definition rooted :: "uuid list \<times> merge_heap \<Rightarrow> bool" where
  "rooted out \<longleftrightarrow> (case out of (roots, h) \<Rightarrow> closed_heap h \<and> distinct roots \<and> set roots \<subseteq> dom h
     \<and> dom h \<subseteq> (heap_edges h)\<^sup>* `` set roots)"

lemma rooted_step:
  assumes "rooted (roots, h)" "entered (set (subtrees t)) (tree_edges (set (subtrees t))) h h'"
    and "if h (ct_id t) \<noteq> None then roots' = roots else roots' = roots @ [ct_id t]"
  shows "rooted (roots', h')"
proof -
  let ?E = "tree_edges (set (subtrees t))"
  have dom: "dom h' = dom h \<union> ct_id ` set (subtrees t)" and edges: "heap_edges h' = heap_edges h \<union> ?E"
    using assms(2) by (simp_all add: entered_def)
  have "closed_heap h'"
    using assms(1) entered_closed_tree [OF assms(2)] by (simp add: rooted_def)
  moreover have "distinct roots'" "set roots' \<subseteq> dom h'"
    using assms(1,3) dom self_subtree [of t] by (auto simp: rooted_def split: if_splits)
  moreover have "x \<in> (heap_edges h')\<^sup>* `` set roots'" if x: "x \<in> dom h'" for x
  proof -
    have old: "y \<in> (heap_edges h')\<^sup>* `` set roots'" if "y \<in> dom h" for y
    proof -
      from assms(1) that obtain r where "r \<in> set roots" "(r, y) \<in> (heap_edges h)\<^sup>*"
        by (auto simp: rooted_def)
      moreover have "heap_edges h \<subseteq> heap_edges h'" using edges by simp
      ultimately have "(r, y) \<in> (heap_edges h')\<^sup>*" using rtrancl_add by metis
      moreover have "r \<in> set roots'" using \<open>r \<in> set roots\<close> assms(3) by (auto split: if_splits)
      ultimately show ?thesis by blast
    qed
    have root: "ct_id t \<in> (heap_edges h')\<^sup>* `` set roots'"
    proof (cases "h (ct_id t)")
      case None
      then show ?thesis using assms(3) by auto
    next
      case (Some n)
      then show ?thesis by (intro old domI)
    qed
    show ?thesis
    proof (cases "x \<in> dom h")
      case False
      then obtain s where "s \<in> set (subtrees t)" "x = ct_id s" using x dom by auto
      then have "(ct_id t, x) \<in> ?E\<^sup>*" using subtrees_reached by simp
      moreover have "?E \<subseteq> heap_edges h'" using edges by simp
      ultimately have "(ct_id t, x) \<in> (heap_edges h')\<^sup>*" using rtrancl_add by metis
      then show ?thesis using root by (auto intro: rtrancl_trans)
    qed (rule old)
  qed
  ultimately show ?thesis by (auto simp: rooted_def)
qed

lemma merge_trees_loop_entered:
  "rooted (roots, h) \<Longrightarrow> merge_trees_loop ts roots h = (roots', h') \<Longrightarrow>
     rooted (roots', h') \<and> entered (forest (present ts)) (tree_edges (forest (present ts))) h h'
     \<and> set roots' \<subseteq> set roots \<union> ct_id ` set (present ts)"
proof (induction ts roots h rule: merge_trees_loop.induct)
  case (1 roots h)
  then show ?case by (simp add: entered_refl)
next
  case (2 ts roots h)
  then show ?case by simp
next
  case (3 t ts roots h)
  have cl: "closed_heap h" using 3(3) by (simp add: rooted_def)
  let ?h1 = "if h (ct_id t) \<noteq> None then merge_into t h else clone_tree t h"
  let ?r1 = "if h (ct_id t) \<noteq> None then roots else roots @ [ct_id t]"
  have e1: "entered (set (subtrees t)) (tree_edges (set (subtrees t))) h ?h1"
    using merge_entered(1) [OF cl, of t] merge_entered(3) [OF cl, of t] by auto
  have r1: "rooted (?r1, ?h1)" by (rule rooted_step [OF 3(3) e1]) simp
  have run: "merge_trees_loop ts ?r1 ?h1 = (roots', h')" using 3(4) by (simp split: if_splits)
  have "rooted (roots', h') \<and> entered (forest (present ts)) (tree_edges (forest (present ts))) ?h1 h'
     \<and> set roots' \<subseteq> set ?r1 \<union> ct_id ` set (present ts)"
    using 3(1,2) r1 run by (cases "h (ct_id t)") (simp_all add: domIff)
  moreover from this have "entered (forest (present (Some t # ts))) (tree_edges (forest (present (Some t # ts)))) h h'"
    using entered_trans [OF e1] unfolding present_simps forest_simps(2) tree_edges_Un(2) by blast
  ultimately show ?case by (auto split: if_splits)
qed

lemma rooted_empty: "rooted ([], Map.empty)"
  by (simp add: rooted_def closed_heap_def heap_edges_def children_of_def)

text \<open>C15: The merge loses and invents nothing: the merged heap has one node for every id that occurs in the
  input trees, its edges are the parent-child pairs of the inputs, a node is a target exactly when
  one of its occurrences is, every node holds the item of one of its occurrences, and every node is
  reachable from the returned roots, which are distinct root ids of the inputs.\<close>
theorem merge_config_trees_correct:
  "case merge_config_trees trees of (roots, h) \<Rightarrow>
     dom h = ct_id ` forest (present trees)
     \<and> heap_edges h = tree_edges (forest (present trees))
     \<and> heap_targets h = tree_targets (forest (present trees))
     \<and> mn_item ` ran h \<subseteq> ct_item ` forest (present trees)
     \<and> distinct roots \<and> set roots \<subseteq> ct_id ` set (present trees)
     \<and> dom h \<subseteq> (heap_edges h)\<^sup>* `` set roots"
proof -
  obtain roots h where run: "merge_trees_loop trees [] Map.empty = (roots, h)" by fastforce
  from merge_trees_loop_entered [OF rooted_empty run]
  have r: "rooted (roots, h)" and e: "entered (forest (present trees)) (tree_edges (forest (present trees))) Map.empty h"
    and s: "set roots \<subseteq> ct_id ` set (present trees)" by auto
  have none: "heap_edges Map.empty = {}" "heap_targets Map.empty = {}"
    by (auto simp: heap_edges_def heap_targets_def children_of_def)
  have "mn_item ` ran h \<subseteq> ct_item ` forest (present trees)"
  proof -
    have "\<exists>s \<in> forest (present trees). ct_item s = mn_item n" if "h x = Some n" for x n
      using e that unfolding entered_def by fastforce
    then show ?thesis unfolding ran_def by (auto simp: image_iff) metis
  qed
  then show ?thesis
    using r e s none run by (simp add: merge_config_trees_def rooted_def entered_def)
qed

subsubsection \<open>No child is listed twice\<close>

definition proper_tree :: "config_tree \<Rightarrow> bool" where
  "proper_tree t \<longleftrightarrow> list_all (\<lambda>s. distinct (map ct_id (ct_children s))
     \<and> ct_id s \<notin> ct_id ` forest (ct_children s)) (subtrees t)"

lemma proper_tree_step:
  "proper_tree t \<longleftrightarrow> distinct (map ct_id (ct_children t)) \<and> ct_id t \<notin> ct_id ` forest (ct_children t)
     \<and> (\<forall>c \<in> set (ct_children t). proper_tree c)"
  by (subst proper_tree_def, subst subtrees_eq) (auto simp: proper_tree_def list_all_iff)

definition no_repeats :: "merge_heap \<Rightarrow> bool" where
  "no_repeats h \<longleftrightarrow> (\<forall>x. distinct (children_of h x))"

lemma no_repeats_add:
  "no_repeats h \<Longrightarrow> c \<notin> set (children_of h p) \<Longrightarrow> no_repeats (add_child p c h)"
  by (auto simp: no_repeats_def add_child_def children_of_def split: option.splits)

lemma add_child_children:
  "p \<in> dom h \<Longrightarrow> children_of (add_child p c h) p = children_of h p @ [c]"
  by (auto simp: add_child_def children_of_def)

lemma merge_no_repeats:
  "closed_heap h \<Longrightarrow> no_repeats h \<Longrightarrow> proper_tree n \<Longrightarrow> no_repeats (clone_tree n h)"
  "closed_heap h \<Longrightarrow> no_repeats h \<Longrightarrow> \<forall>c \<in> set cs. proper_tree c \<Longrightarrow> out \<in> dom h \<Longrightarrow> out \<notin> ct_id ` forest cs
    \<Longrightarrow> distinct (map ct_id cs) \<Longrightarrow> set (children_of h out) \<inter> ct_id ` set cs = {}
    \<Longrightarrow> no_repeats (clone_children out cs h)"
  "closed_heap h \<Longrightarrow> no_repeats h \<Longrightarrow> proper_tree src \<Longrightarrow> ct_id src \<in> dom h \<Longrightarrow> no_repeats (merge_into src h)"
  "closed_heap h \<Longrightarrow> no_repeats h \<Longrightarrow> \<forall>c \<in> set cs. proper_tree c \<Longrightarrow> dst \<in> dom h \<Longrightarrow> dst \<notin> ct_id ` forest cs
    \<Longrightarrow> existing = set (children_of h dst) \<Longrightarrow> no_repeats (merge_children dst existing cs h)"
proof (induction n h and out cs h and src h and dst existing cs h
    rule: clone_tree_clone_children_merge_into_merge_children.induct)
  case (1 n h)
  note n = 1(5) [unfolded proper_tree_step [of n]]
  show ?case
  proof (cases "h (ct_id n)")
    case None
    let ?h1 = "h(ct_id n \<mapsto> \<lparr>mn_item = ct_item n, mn_edge = ct_edge n, mn_relation = ct_relation n, mn_children = []\<rparr>)"
    have cl: "closed_heap ?h1" by (rule entered_closed [OF entered_alloc [of h n] 1(3)]) (simp_all add: None)
    have ch: "children_of ?h1 (ct_id n) = []" by (simp add: children_of_def)
    have nr: "no_repeats ?h1" using 1(4) by (simp add: no_repeats_def children_of_def)
    have "no_repeats (clone_children (ct_id n) (ct_children n) ?h1)"
      by (rule 1(2)) (use None cl ch nr n in \<open>simp_all only: dom_fun_upd\<close>, auto)
    then show ?thesis using None by (simp add: clone_tree.simps [of n])
  next
    case (Some m)
    then show ?thesis using 1 by (simp add: clone_tree.simps [of n] domI)
  qed
next
  case (3 out c cs h)
  note e1 = merge_entered(1) [OF 3(3), of c]
  let ?h1 = "clone_tree c h" and ?h2 = "add_child out (ct_id c) (clone_tree c h)"
  have d1: "out \<in> dom ?h1" "ct_id c \<in> dom ?h1" using entered_dom [OF e1] 3(6) self_subtree by auto
  have c1: "closed_heap ?h1"
    by (rule entered_closed_tree [OF e1 3(3)])
  note e2 = entered_add_child [OF d1(1), of "ct_id c"]
  have c2: "closed_heap ?h2" using entered_closed [OF e2 c1] d1(2) entered_dom [OF e2] by simp
  have "out \<notin> fst ` tree_edges (set (subtrees c))"
    using tree_edges_fst [of "set (subtrees c)"] 3(7) by auto
  then have ch1: "children_of ?h1 out = children_of h out" by (rule entered_frame [OF e1])
  have n1: "no_repeats ?h1" using 3(1) [OF 3(3,4)] 3(5) by simp
  have "ct_id c \<notin> set (children_of ?h1 out)" using ch1 3(9) by simp
  then have n2: "no_repeats ?h2" using n1 by (rule no_repeats_add [rotated])
  have "set (children_of ?h2 out) \<inter> ct_id ` set cs = {}"
    using 3(8,9) by (auto simp: add_child_children [OF d1(1)] ch1)
  then show ?case
    using 3(2) [OF c2 n2] 3(5,7,8) d1(1) entered_dom [OF e2] by auto
next
  case (4 src h)
  note src = 4(4) [unfolded proper_tree_step [of src]]
  note e1 = entered_fields [OF 4(5)]
  have c1: "closed_heap (merge_fields (ct_id src) src h)" using entered_closed [OF e1 4(2)] by simp
  have ch: "children_of (merge_fields (ct_id src) src h) x = children_of h x" for x
    using entered_frame [OF e1] by simp
  then have "no_repeats (merge_fields (ct_id src) src h)" using 4(3) by (simp add: no_repeats_def)
  then show ?case
    unfolding merge_into.simps [of src]
    using 4(1) [OF c1] src 4(5) entered_dom [OF e1] ch by simp
next
  case (6 dst existing c cs h)
  have out: "dst \<notin> fst ` tree_edges (set (subtrees c))"
    using tree_edges_fst [of "set (subtrees c)"] 6(9) by auto
  show ?case
  proof (cases "ct_id c \<in> existing")
    case True
    then have d: "ct_id c \<in> dom h" using 6(5,10) unfolding closed_heap_def heap_edges_def by auto
    note e1 = merge_entered(3) [OF 6(5) d]
    have c1: "closed_heap (merge_into c h)"
      by (rule entered_closed_tree [OF e1 6(5)])
    have "no_repeats (merge_into c h)" using 6(1) [OF True 6(5,6) _ d] 6(7) by simp
    then show ?thesis
      using True 6(2) [OF True c1] 6(7,8,9,10) entered_dom [OF e1] entered_frame [OF e1 out]
      by auto
  next
    case False
    note e1 = merge_entered(1) [OF 6(5), of c]
    let ?h1 = "clone_tree c h" and ?h2 = "add_child dst (ct_id c) (clone_tree c h)"
    have d1: "dst \<in> dom ?h1" "ct_id c \<in> dom ?h1" using entered_dom [OF e1] 6(8) self_subtree by auto
    have c1: "closed_heap ?h1"
      by (rule entered_closed_tree [OF e1 6(5)])
    note e2 = entered_add_child [OF d1(1), of "ct_id c"]
    have c2: "closed_heap ?h2" using entered_closed [OF e2 c1] d1(2) entered_dom [OF e2] by simp
    note ch1 = entered_frame [OF e1 out]
    have n1: "no_repeats ?h1" using 6(3) [OF False 6(5,6)] 6(7) by simp
    have n2: "no_repeats ?h2" by (rule no_repeats_add [OF n1]) (use False 6(10) ch1 in simp)
    show ?thesis
      using False 6(4) [OF False c2 n2] 6(7,8,9,10) d1(1) entered_dom [OF e2]
      by (auto simp: add_child_children [OF d1(1)] ch1)
  qed
qed simp_all

lemma merge_trees_loop_no_repeats:
  "closed_heap h \<Longrightarrow> no_repeats h \<Longrightarrow> \<forall>t \<in> set (present ts). proper_tree t
    \<Longrightarrow> no_repeats (snd (merge_trees_loop ts roots h))"
proof (induction ts roots h rule: merge_trees_loop.induct)
  case (3 t ts roots h)
  note e = merge_entered(1) [OF 3(3), of t] merge_entered(3) [OF 3(3), of t]
  have "closed_heap (clone_tree t h)" "h (ct_id t) \<noteq> None \<Longrightarrow> closed_heap (merge_into t h)"
    using entered_closed_tree [OF e(1) 3(3)] entered_closed_tree [OF e(2) 3(3)] by blast+
  then show ?case
    using 3 merge_no_repeats(1) [OF 3(3,4)] merge_no_repeats(3) [OF 3(3,4)]
    by (cases "h (ct_id t)") (auto simp: domIff)
qed simp_all

text \<open>No node of the merged forest lists a child twice, when in each input siblings have distinct ids and
  no config is its own descendant, however much the inputs overlap.\<close>
theorem merge_config_trees_no_repeats:
  assumes "list_all proper_tree (present trees)"
  shows "distinct (children_of (snd (merge_config_trees trees)) x)"
  using merge_trees_loop_no_repeats [of Map.empty trees "[]"] rooted_empty assms
  by (simp add: merge_config_trees_def no_repeats_def rooted_def list_all_iff children_of_def)

definition sample_item :: "uuid \<Rightarrow> config_item" where
  "sample_item i = \<lparr>ci_id = i, ci_type = None, ci_name = None, ci_parent_id = None, ci_path = [], ci_tags = [],
     ci_status = None, ci_health = None, ci_created_at = 0, ci_updated_at = None, ci_deleted_at = None, ci_agent_id = []\<rparr>"

definition sample_node :: "uuid \<Rightarrow> string \<Rightarrow> config_tree list \<Rightarrow> config_tree" where
  "sample_node i edge cs = ConfigTree (sample_item i) edge [] cs"

theorem merge_config_trees_no_repeats_witness:
  "children_of (snd (merge_config_trees
      [Some (sample_node ''r'' ''parent'' [sample_node ''a'' ''target'' []]),
       Some (sample_node ''r'' ''parent'' [sample_node ''a'' ''child'' [], sample_node ''b'' ''target'' []])])) ''r''
     = [''a'', ''b'']
   \<and> distinct (children_of (snd (merge_config_trees
      [Some (sample_node ''r'' ''parent'' [sample_node ''a'' ''target'' []]),
       Some (sample_node ''r'' ''parent'' [sample_node ''a'' ''child'' [], sample_node ''b'' ''target'' []])])) ''r'')"
proof -
  let ?ts = "[Some (sample_node ''r'' ''parent'' [sample_node ''a'' ''target'' []]),
       Some (sample_node ''r'' ''parent'' [sample_node ''a'' ''child'' [], sample_node ''b'' ''target'' []])]"
  have "list_all proper_tree (present ?ts)"
    by (simp add: proper_tree_def sample_node_def sample_item_def forest_def)
  from merge_config_trees_no_repeats [OF this, of "''r''"] show ?thesis
    by (simp add: merge_config_trees_def sample_node_def sample_item_def clone_tree.simps merge_into.simps
        add_child_def merge_fields_def children_of_def)
qed

subsection \<open>Outgoing ids\<close>

lemma collect_outgoing_sound:
  "collect_outgoing t ids seen = (ids', seen') \<Longrightarrow> distinct ids \<Longrightarrow> set ids \<subseteq> seen \<Longrightarrow>
     distinct ids' \<and> set ids' \<subseteq> seen' \<and> seen \<subseteq> seen'
     \<and> set ids' \<subseteq> set ids \<union> {ct_id s | s. s \<in> set (subtrees t) \<and> ct_edge s \<noteq> ''parent''}"
  "collect_children ts ids seen = (ids', seen') \<Longrightarrow> distinct ids \<Longrightarrow> set ids \<subseteq> seen \<Longrightarrow>
     distinct ids' \<and> set ids' \<subseteq> seen' \<and> seen \<subseteq> seen'
     \<and> set ids' \<subseteq> set ids \<union> {ct_id s | s. s \<in> forest ts \<and> ct_edge s \<noteq> ''parent''}"
proof (induction t ids seen and ts ids seen arbitrary: ids' seen' and ids' seen'
    rule: collect_outgoing_collect_children.induct)
  case (1 item edge rel cs ids seen)
  show ?case
  proof (cases "ci_id item \<in> seen")
    case False
    let ?ids = "if edge \<noteq> ''parent'' then ids @ [ci_id item] else ids"
    have d: "distinct ?ids" "set ?ids \<subseteq> insert (ci_id item) seen" using 1(3,4) False by auto
    have run: "collect_children cs ?ids (insert (ci_id item) seen) = (ids', seen')" using 1(2) False by simp
    have sub: "set (subtrees (ConfigTree item edge rel cs)) = insert (ConfigTree item edge rel cs) (forest cs)"
      by (simp only: set_subtrees config_tree.sel)
    let ?new = "{ct_id s | s. s \<in> insert (ConfigTree item edge rel cs) (forest cs) \<and> ct_edge s \<noteq> ''parent''}"
    have "edge \<noteq> ''parent'' \<Longrightarrow> ci_id item \<in> ?new"
      by (rule CollectI, rule exI [of _ "ConfigTree item edge rel cs"]) simp
    moreover have "{ct_id s | s. s \<in> forest cs \<and> ct_edge s \<noteq> ''parent''} \<subseteq> ?new" by blast
    ultimately have "set ?ids \<union> {ct_id s | s. s \<in> forest cs \<and> ct_edge s \<noteq> ''parent''} \<subseteq> set ids \<union> ?new"
      by auto
    with 1(1) [OF False run d] show ?thesis unfolding sub by (meson insert_subset order_trans)
  qed (use 1 in auto)
next
  case (3 c cs ids seen)
  obtain ids1 seen1 where r1: "collect_outgoing c ids seen = (ids1, seen1)" by fastforce
  have r2: "collect_children cs ids1 seen1 = (ids', seen')" using 3(3) r1 by simp
  note i1 = 3(1) [OF r1 3(4,5)]
  have "distinct ids' \<and> set ids' \<subseteq> seen' \<and> seen1 \<subseteq> seen'
     \<and> set ids' \<subseteq> set ids1 \<union> {ct_id s | s. s \<in> forest cs \<and> ct_edge s \<noteq> ''parent''}"
    using 3(2) [OF r1 [symmetric] r2] i1 by blast
  with i1 show ?case unfolding forest_simps(2) by blast
qed simp

definition not_parents :: "config_tree list \<Rightarrow> uuid list" where
  "not_parents ts = map ct_id (filter (\<lambda>s. ct_edge s \<noteq> ''parent'') ts)"

lemma collect_outgoing_unique:
  "distinct (map ct_id (subtrees t)) \<Longrightarrow> ct_id ` set (subtrees t) \<inter> seen = {} \<Longrightarrow>
     collect_outgoing t ids seen = (ids @ not_parents (subtrees t), seen \<union> ct_id ` set (subtrees t))"
  "distinct (map ct_id (concat (map subtrees ts))) \<Longrightarrow> ct_id ` forest ts \<inter> seen = {} \<Longrightarrow>
     collect_children ts ids seen = (ids @ not_parents (concat (map subtrees ts)), seen \<union> ct_id ` forest ts)"
proof (induction t ids seen and ts ids seen rule: collect_outgoing_collect_children.induct)
  case (1 item edge rel cs ids seen)
  then show ?case by (auto simp: not_parents_def forest_def)
next
  case (3 c cs ids seen)
  have d: "distinct (map ct_id (subtrees c))" "distinct (map ct_id (concat (map subtrees cs)))"
    "ct_id ` set (subtrees c) \<inter> ct_id ` forest cs = {}" using 3(3) by (auto simp: forest_def)
  have s: "ct_id ` set (subtrees c) \<inter> seen = {}" "ct_id ` forest cs \<inter> seen = {}" using 3(4) by auto
  have "ct_id ` forest cs \<inter> (seen \<union> ct_id ` set (subtrees c)) = {}" using d(3) s(2) by blast
  then show ?case
    using 3(1) [OF d(1) s(1)] 3(2) [OF _ d(2)] by (simp add: not_parents_def image_Un Un_assoc)
qed (simp add: not_parents_def)

text \<open>\<open>OutgoingIDs\<close> lists each id at most once and only ids of nodes that are not parents; on a tree
  whose ids are distinct it lists exactly those, in pre-order.\<close>
theorem outgoing_ids_correct:
  "distinct (outgoing_ids t)
   \<and> set (outgoing_ids t) \<subseteq> ct_id ` {s \<in> set (subtrees t). ct_edge s \<noteq> ''parent''}
   \<and> (distinct (map ct_id (subtrees t)) \<longrightarrow>
        outgoing_ids t = map ct_id (filter (\<lambda>s. ct_edge s \<noteq> ''parent'') (subtrees t)))"
proof -
  obtain ids seen where r: "collect_outgoing t [] {} = (ids, seen)" by fastforce
  from collect_outgoing_sound(1) [OF r] have "distinct ids"
    "set ids \<subseteq> ct_id ` {s \<in> set (subtrees t). ct_edge s \<noteq> ''parent''}" by auto
  then show ?thesis
    using r collect_outgoing_unique(1) [of t "{}" "[]"] by (simp add: outgoing_ids_def not_parents_def)
qed

theorem outgoing_ids_correct_witness:
  "outgoing_ids (sample_node ''r'' ''parent'' [sample_node ''a'' ''target'' [sample_node ''c'' ''child'' []], sample_node ''b'' ''related'' []])
     = [''a'', ''c'', ''b'']"
proof -
  let ?t = "sample_node ''r'' ''parent'' [sample_node ''a'' ''target'' [sample_node ''c'' ''child'' []], sample_node ''b'' ''related'' []]"
  have "distinct (map ct_id (subtrees ?t))" by (simp add: sample_node_def sample_item_def)
  with outgoing_ids_correct [of ?t] have "outgoing_ids ?t = map ct_id (filter (\<lambda>s. ct_edge s \<noteq> ''parent'') (subtrees ?t))"
    by blast
  then show ?thesis by (simp add: sample_node_def sample_item_def)
qed

end
