(* ===== verification/Config_Build.thy ===== *)
theory Config_Build
  imports Config_Merge "HOL-Library.Product_Lexorder"
begin

section \<open>Building the tree of a configuration\<close>

text \<open>
  The second half of \<^verbatim>\<open>query/config_tree.go\<close>: \<open>buildConfigTree\<close> and what it calls. Its nodes are
  mutated through pointers kept in a map by id, and a later node of the same id replaces the entry
  of an earlier one whose pointer is already in a child list, so the heap is explicit: a list of
  nodes, a pointer being an index into it. \<open>uuid.Parse\<close> is a parameter. The functions that read
  the database (\<open>ConfigTree\<close>, \<open>ExpandConfigChildren\<close>) are not modelled; their results are the
  arguments of \<open>buildConfigTree\<close>.
\<close>

subsection \<open>Pointers\<close>

type_synonym ptr = nat

record ptr_node =
  pn_item :: config_item
  pn_edge :: string
  pn_relation :: string
  pn_children :: "ptr list"

record related_config =
  rc_id :: uuid
  rc_relation :: string
  rc_related_ids :: "string list"
  rc_name :: string
  rc_type :: string
  rc_tags :: label_set
  rc_status :: "string option"
  rc_health :: "string option"
  rc_path :: string
  rc_created_at :: int
  rc_updated_at :: int
  rc_deleted_at :: "int option"
  rc_agent_id :: uuid

definition related_to_config_item :: "related_config \<Rightarrow> config_item" where
  "related_to_config_item rc =
     \<lparr>ci_id = rc_id rc, ci_type = Some (rc_type rc), ci_name = Some (rc_name rc), ci_parent_id = None,
      ci_path = rc_path rc, ci_tags = rc_tags rc, ci_status = rc_status rc, ci_health = rc_health rc,
      ci_created_at = rc_created_at rc, ci_updated_at = Some (rc_updated_at rc),
      ci_deleted_at = rc_deleted_at rc, ci_agent_id = rc_agent_id rc\<rparr>"

record build =
  b_heap :: "ptr_node list"
  b_nodes :: "(uuid \<times> ptr) list"
  b_wired :: "uuid set"

definition node_ptr :: "build \<Rightarrow> uuid \<Rightarrow> ptr option" where
  "node_ptr b i = map_of (b_nodes b) i"

definition set_node :: "ptr_node \<Rightarrow> build \<Rightarrow> build" where
  "set_node n b = b\<lparr>b_heap := b_heap b @ [n],
     b_nodes := (ci_id (pn_item n), length (b_heap b)) # filter (\<lambda>e. fst e \<noteq> ci_id (pn_item n)) (b_nodes b)\<rparr>"

definition append_child :: "ptr \<Rightarrow> ptr \<Rightarrow> build \<Rightarrow> build" where
  "append_child p c b = b\<lparr>b_heap := (b_heap b)[p := (b_heap b ! p)\<lparr>pn_children := pn_children (b_heap b ! p) @ [c]\<rparr>]\<rparr>"

text \<open>\<open>nodes[p].children = append(nodes[p].children, nodes[c])\<close>, both ids being in the map.\<close>

definition append_by_id :: "uuid \<Rightarrow> uuid \<Rightarrow> build \<Rightarrow> build" where
  "append_by_id p c b =
     (case (node_ptr b p, node_ptr b c) of (Some pp, Some cp) \<Rightarrow> append_child pp cp b | _ \<Rightarrow> b)"

definition wire :: "uuid \<Rightarrow> build \<Rightarrow> build" where
  "wire i b = b\<lparr>b_wired := insert i (b_wired b)\<rparr>"

subsection \<open>The parent of a descendant\<close>

definition nil_uuid :: uuid where
  "nil_uuid = ''00000000-0000-0000-0000-000000000000''"

text \<open>The loop over the path from its end; \<open>target_match\<close> is its local variable.\<close>

fun path_parent :: "(string \<Rightarrow> uuid option) \<Rightarrow> config_item \<Rightarrow> build \<Rightarrow> uuid \<Rightarrow> string list \<Rightarrow> ptr option \<Rightarrow> ptr option" where
  "path_parent parse_uuid c b target_id [] target_match = target_match"
| "path_parent parse_uuid c b target_id (seg # segs) target_match =
     (case parse_uuid seg of
        None \<Rightarrow> path_parent parse_uuid c b target_id segs target_match
      | Some pid \<Rightarrow>
          if pid = ci_id c then path_parent parse_uuid c b target_id segs target_match
          else (case node_ptr b pid of
                  None \<Rightarrow> path_parent parse_uuid c b target_id segs target_match
                | Some parent \<Rightarrow>
                    if pid = target_id then path_parent parse_uuid c b target_id segs (Some parent)
                    else Some parent))"

definition resolve_child_parent :: "(string \<Rightarrow> uuid option) \<Rightarrow> config_item \<Rightarrow> build \<Rightarrow> uuid \<Rightarrow> ptr option" where
  "resolve_child_parent parse_uuid c b target_id =
     (let parent_id = (case ci_parent_id c of Some i \<Rightarrow> i | None \<Rightarrow> nil_uuid);
          by_path = (if ci_path c = [] then None
                     else path_parent parse_uuid c b target_id (rev (split_char (CHR ''.'') (ci_path c))) None)
      in if parent_id \<noteq> nil_uuid then
           (case node_ptr b parent_id of
              Some parent \<Rightarrow> if ci_id (pn_item (b_heap b ! parent)) \<noteq> ci_id c then Some parent else by_path
            | None \<Rightarrow> by_path)
         else by_path)"

subsection \<open>Related nodes\<close>

text \<open>\<open>outgoing\<close>, and the test \<open>len(incoming[id]) == 0\<close>: the reverse map has an entry for an id
  exactly when some list of \<open>outgoing\<close> holds it.\<close>

definition rc_outgoing :: "(string \<Rightarrow> uuid option) \<Rightarrow> related_config \<Rightarrow> uuid list" where
  "rc_outgoing parse_uuid rc =
     concat (map (\<lambda>s. case parse_uuid s of None \<Rightarrow> [] | Some child \<Rightarrow> if child = rc_id rc then [] else [child])
       (rc_related_ids rc))"

definition outgoing_map :: "(string \<Rightarrow> uuid option) \<Rightarrow> related_config list \<Rightarrow> uuid \<Rightarrow> uuid list" where
  "outgoing_map parse_uuid related =
     foldl (\<lambda>m rc. m(rc_id rc := m (rc_id rc) @ rc_outgoing parse_uuid rc)) (\<lambda>_. []) related"

definition no_incoming :: "(string \<Rightarrow> uuid option) \<Rightarrow> related_config list \<Rightarrow> uuid \<Rightarrow> bool" where
  "no_incoming parse_uuid related i = list_all (\<lambda>rc. i \<notin> set (outgoing_map parse_uuid related (rc_id rc))) related"

definition is_related :: "build \<Rightarrow> uuid \<Rightarrow> bool" where
  "is_related b i =
     (case node_ptr b i of None \<Rightarrow> False | Some p \<Rightarrow> pn_edge (b_heap b ! p) = ''related'')"

definition attach :: "uuid set \<Rightarrow> uuid \<Rightarrow> ptr \<Rightarrow> uuid \<Rightarrow> build \<Rightarrow> build \<times> bool" where
  "attach parent_ids target_id parent child_id b =
     (if child_id \<in> b_wired b \<or> child_id \<in> parent_ids \<or> child_id = target_id then (b, False)
      else (case node_ptr b child_id of
              None \<Rightarrow> (b, False)
            | Some node \<Rightarrow>
                if pn_edge (b_heap b ! node) \<noteq> ''related'' then (b, False)
                else (wire child_id (append_child parent node b), True)))"

fun attach_each :: "uuid set \<Rightarrow> uuid \<Rightarrow> ptr \<Rightarrow> uuid list \<Rightarrow> build \<Rightarrow> build \<times> uuid list" where
  "attach_each parent_ids target_id parent [] b = (b, [])"
| "attach_each parent_ids target_id parent (c # cs) b =
     (case attach parent_ids target_id parent c b of (b1, ok) \<Rightarrow>
      case attach_each parent_ids target_id parent cs b1 of (b2, pushed) \<Rightarrow>
        (b2, if ok then c # pushed else pushed))"

definition unwired :: "build \<Rightarrow> nat" where
  "unwired b = length (filter (\<lambda>e. fst e \<notin> b_wired b) (b_nodes b))"

lemma attach_unwired:
  "attach ps t p c b = (b', ok) \<Longrightarrow> b_nodes b' = b_nodes b \<and> unwired b' + (if ok then 1 else 0) \<le> unwired b"
proof -
  assume a: "attach ps t p c b = (b', ok)"
  show ?thesis
  proof (cases ok)
    case True
    with a obtain node where node: "map_of (b_nodes b) c = Some node" "c \<notin> b_wired b"
      and b': "b' = wire c (append_child p node b)"
      by (auto simp: attach_def node_ptr_def split: if_splits option.splits)
    then have in_nodes: "(c, node) \<in> set (b_nodes b)" by (simp add: map_of_SomeD)
    have "filter (\<lambda>e. fst e \<notin> b_wired b') (b_nodes b)
        = filter (\<lambda>e. fst e \<noteq> c) (filter (\<lambda>e. fst e \<notin> b_wired b) (b_nodes b))"
      by (auto simp: b' wire_def append_child_def intro: filter_cong)
    moreover have "(c, node) \<in> set (filter (\<lambda>e. fst e \<notin> b_wired b) (b_nodes b))" using in_nodes node(2) by simp
    ultimately have "unwired b' < unwired b"
      using length_filter_less [of "(c, node)" "filter (\<lambda>e. fst e \<notin> b_wired b) (b_nodes b)" "\<lambda>e. fst e \<noteq> c"] b'
      by (simp add: unwired_def wire_def append_child_def)
    then show ?thesis using True b' by (simp add: wire_def append_child_def)
  qed (use a in \<open>auto simp: attach_def split: if_splits option.splits\<close>)
qed

lemma attach_each_unwired:
  "attach_each ps t p cs b = (b', pushed) \<Longrightarrow> b_nodes b' = b_nodes b \<and> unwired b' + length pushed \<le> unwired b"
proof (induction cs arbitrary: b b' pushed)
  case (Cons c cs)
  obtain b1 ok where a: "attach ps t p c b = (b1, ok)" by fastforce
  obtain b2 pu where e: "attach_each ps t p cs b1 = (b2, pu)" by fastforce
  from Cons.prems a e have "b' = b2" "pushed = (if ok then c # pu else pu)" by auto
  with Cons.IH [OF e] attach_unwired [OF a] show ?case by auto
qed simp

function bfs :: "(uuid \<Rightarrow> uuid list) \<Rightarrow> uuid set \<Rightarrow> uuid \<Rightarrow> uuid list \<Rightarrow> build \<Rightarrow> build" where
  "bfs outgoing parent_ids target_id [] b = b"
| "bfs outgoing parent_ids target_id (parent_id # queue) b =
     (case node_ptr b parent_id of
        None \<Rightarrow> bfs outgoing parent_ids target_id queue b
      | Some parent \<Rightarrow>
          (case attach_each parent_ids target_id parent (outgoing parent_id) b of (b1, pushed) \<Rightarrow>
             bfs outgoing parent_ids target_id (queue @ pushed) b1))"
  by pat_completeness auto
termination
  by (relation "measure (\<lambda>(outgoing, parent_ids, target_id, queue, b). length queue + unwired b)")
    (auto dest!: attach_each_unwired [OF sym])

definition skip_related :: "uuid set \<Rightarrow> uuid \<Rightarrow> build \<Rightarrow> uuid \<Rightarrow> bool" where
  "skip_related parent_ids target_id b i \<longleftrightarrow>
     (i \<in> parent_ids \<or> i = target_id \<or> i \<in> b_wired b) \<or> \<not> is_related b i"

fun attach_rest :: "uuid set \<Rightarrow> uuid \<Rightarrow> ptr \<Rightarrow> uuid list \<Rightarrow> build \<Rightarrow> build" where
  "attach_rest parent_ids target_id target [] b = b"
| "attach_rest parent_ids target_id target (i # ids) b =
     (if skip_related parent_ids target_id b i then attach_rest parent_ids target_id target ids b
      else attach_rest parent_ids target_id target ids (fst (attach parent_ids target_id target i b)))"

definition attach_related ::
  "(string \<Rightarrow> uuid option) \<Rightarrow> ptr \<Rightarrow> related_config list \<Rightarrow> uuid set \<Rightarrow> uuid \<Rightarrow> build \<Rightarrow> build" where
  "attach_related parse_uuid target related parent_ids target_id b =
     (let outgoing = outgoing_map parse_uuid related;
          queue = filter (\<lambda>i. \<not> skip_related parent_ids target_id b i \<and> no_incoming parse_uuid related i)
                    (map rc_id related);
          b1 = fst (attach_each parent_ids target_id target queue b);
          b2 = bfs outgoing parent_ids target_id queue b1
      in attach_rest parent_ids target_id target (map rc_id related) b2)"

subsection \<open>The whole construction\<close>

fun chain_parents :: "config_item list \<Rightarrow> build \<Rightarrow> build" where
  "chain_parents (p # q # ps) b = chain_parents (q # ps) (append_by_id (ci_id p) (ci_id q) b)"
| "chain_parents ps b = b"

fun attach_children :: "(string \<Rightarrow> uuid option) \<Rightarrow> ptr \<Rightarrow> uuid \<Rightarrow> config_item list \<Rightarrow> build \<Rightarrow> build" where
  "attach_children parse_uuid target target_id [] b = b"
| "attach_children parse_uuid target target_id (c # cs) b =
     (if ci_id c \<in> b_wired b then attach_children parse_uuid target target_id cs b
      else
       (let parent = (case resolve_child_parent parse_uuid c b target_id of Some p \<Rightarrow> p | None \<Rightarrow> target);
            b1 = (case node_ptr b (ci_id c) of Some node \<Rightarrow> append_child parent node b | None \<Rightarrow> b)
        in attach_children parse_uuid target target_id cs (wire (ci_id c) b1)))"

fun add_related :: "uuid set \<Rightarrow> uuid \<Rightarrow> related_config list \<Rightarrow> build \<Rightarrow> build" where
  "add_related parent_ids target_id [] b = b"
| "add_related parent_ids target_id (rc # rcs) b =
     (if rc_id rc \<in> parent_ids \<or> rc_id rc = target_id then add_related parent_ids target_id rcs b
      else if node_ptr b (rc_id rc) \<noteq> None then add_related parent_ids target_id rcs b
      else add_related parent_ids target_id rcs
        (set_node \<lparr>pn_item = related_to_config_item rc, pn_edge = ''related'', pn_relation = rc_relation rc,
           pn_children = []\<rparr> b))"

definition plain_node :: "string \<Rightarrow> config_item \<Rightarrow> ptr_node" where
  "plain_node edge item = \<lparr>pn_item = item, pn_edge = edge, pn_relation = [], pn_children = []\<rparr>"

definition build_nodes ::
  "(string \<Rightarrow> uuid option) \<Rightarrow> config_item \<Rightarrow> config_item list \<Rightarrow> config_item list \<Rightarrow> related_config list
   \<Rightarrow> ptr \<times> build" where
  "build_nodes parse_uuid config parents children related =
     (let b = \<lparr>b_heap = [], b_nodes = [], b_wired = {}\<rparr>;
          b = foldl (\<lambda>b p. set_node (plain_node ''parent'' p) b) b parents;
          target = length (b_heap b);
          b = set_node (plain_node ''target'' config) b;
          b = (if length parents > 0 then
                 (let b = chain_parents parents b in
                  case node_ptr b (ci_id (last parents)) of
                    Some p \<Rightarrow> append_child p target b | None \<Rightarrow> b)
               else b);
          b = foldl (\<lambda>b c. set_node (plain_node ''child'' c) b) b children;
          parent_ids = ci_id ` set parents;
          b = attach_children parse_uuid target (ci_id config) children b;
          b = add_related parent_ids (ci_id config) related b;
          b = attach_related parse_uuid target related parent_ids (ci_id config) b;
          root = (if length parents > 0
                  then (case node_ptr b (ci_id (hd parents)) of Some p \<Rightarrow> p | None \<Rightarrow> target)
                  else target)
      in (root, b))"

text \<open>\<open>toConfigTreeNode\<close>. The recursion goes one level deeper only after marking a new pointer, so the
  fuel is a bound on its depth; \<open>None\<close> is running out of it (or a dangling pointer).\<close>

definition sort_children :: "config_tree list \<Rightarrow> config_tree list" where
  "sort_children = sort_key (\<lambda>t.
     ((case ci_type (ct_item t) of Some s \<Rightarrow> s | None \<Rightarrow> []),
      (case ci_name (ct_item t) of Some s \<Rightarrow> s | None \<Rightarrow> [])))"

fun to_tree :: "nat \<Rightarrow> ptr_node list \<Rightarrow> ptr \<Rightarrow> ptr set \<Rightarrow> (config_tree \<times> ptr set) option"
  and to_trees :: "nat \<Rightarrow> ptr_node list \<Rightarrow> ptr list \<Rightarrow> ptr set \<Rightarrow> (config_tree list \<times> ptr set) option" where
  "to_tree 0 heap p visited = None"
| "to_tree (Suc fuel) heap p visited =
     (if \<not> p < length heap then None
      else
       (let n = heap ! p in
        if p \<in> visited then Some (ConfigTree (pn_item n) (pn_edge n) (pn_relation n) [], visited)
        else (case to_trees fuel heap (pn_children n) (insert p visited) of
                None \<Rightarrow> None
              | Some (cs, visited1) \<Rightarrow>
                  Some (ConfigTree (pn_item n) (pn_edge n) (pn_relation n) (sort_children cs), visited1))))"
| "to_trees fuel heap [] visited = Some ([], visited)"
| "to_trees fuel heap (p # ps) visited =
     (case to_tree fuel heap p visited of
        None \<Rightarrow> None
      | Some (c, visited1) \<Rightarrow>
          (case to_trees fuel heap ps visited1 of
             None \<Rightarrow> None
           | Some (cs, visited2) \<Rightarrow> Some (c # cs, visited2)))"

definition build_config_tree ::
  "(string \<Rightarrow> uuid option) \<Rightarrow> config_item \<Rightarrow> config_item list \<Rightarrow> config_item list \<Rightarrow> related_config list
   \<Rightarrow> config_tree option" where
  "build_config_tree parse_uuid config parents children related =
     (case build_nodes parse_uuid config parents children related of (root, b) \<Rightarrow>
        map_option fst (to_tree (length (b_heap b) + 1) (b_heap b) root {}))"

subsection \<open>The construction always returns\<close>

definition heap_ok :: "ptr_node list \<Rightarrow> bool" where
  "heap_ok heap \<longleftrightarrow> (\<forall>n \<in> set heap. \<forall>c \<in> set (pn_children n). c < length heap)"

lemma to_tree_fuel:
  "heap_ok heap \<Longrightarrow> visited \<subseteq> {..<length heap} \<Longrightarrow> p < length heap
    \<Longrightarrow> card ({..<length heap} - visited) < fuel
    \<Longrightarrow> \<exists>t v. to_tree fuel heap p visited = Some (t, v) \<and> visited \<subseteq> v \<and> v \<subseteq> {..<length heap}"
  "heap_ok heap \<Longrightarrow> visited \<subseteq> {..<length heap} \<Longrightarrow> \<forall>q \<in> set ps. q < length heap
    \<Longrightarrow> card ({..<length heap} - visited) < fuel
    \<Longrightarrow> \<exists>ts v. to_trees fuel heap ps visited = Some (ts, v) \<and> visited \<subseteq> v \<and> v \<subseteq> {..<length heap}"
proof (induction fuel heap p visited and fuel heap ps visited rule: to_tree_to_trees.induct)
  case (2 fuel heap p visited)
  show ?case
  proof (cases "p \<in> visited")
    case False
    have "{..<length heap} - insert p visited = ({..<length heap} - visited) - {p}" by auto
    then have "card ({..<length heap} - insert p visited) < card ({..<length heap} - visited)"
      using False "2.prems"(3) by (metis DiffI card_Diff1_less finite_Diff finite_lessThan lessThan_iff)
    then have "card ({..<length heap} - insert p visited) < fuel" using "2.prems"(4) by simp
    moreover have "\<forall>q \<in> set (pn_children (heap ! p)). q < length heap"
      using "2.prems"(1,3) by (auto simp: heap_ok_def)
    moreover have "insert p visited \<subseteq> {..<length heap}" using "2.prems"(2,3) by simp
    ultimately obtain ts v where "to_trees fuel heap (pn_children (heap ! p)) (insert p visited) = Some (ts, v)"
      "insert p visited \<subseteq> v" "v \<subseteq> {..<length heap}"
      using "2.IH" [OF _ refl False] "2.prems"(1,3) by blast
    then show ?thesis using "2.prems"(3) False by (simp add: Let_def)
  qed (use "2.prems" in \<open>simp add: Let_def\<close>)
next
  case (4 fuel heap p ps visited)
  from 4(1) [OF 4(3,4) _ 4(6)] 4(5) obtain t v where
    t: "to_tree fuel heap p visited = Some (t, v)" "visited \<subseteq> v" "v \<subseteq> {..<length heap}" by auto
  have "card ({..<length heap} - v) \<le> card ({..<length heap} - visited)"
    using t(2) by (intro card_mono) auto
  then have "card ({..<length heap} - v) < fuel" using 4(6) by simp
  with 4(2) [OF t(1) refl 4(3) t(3)] 4(5) obtain ts w where
    "to_trees fuel heap ps v = Some (ts, w)" "v \<subseteq> w" "w \<subseteq> {..<length heap}" by auto
  with t show ?case by auto
qed auto

subsection \<open>Every related node has one parent\<close>

definition indegree :: "ptr_node list \<Rightarrow> ptr \<Rightarrow> nat" where
  "indegree heap p = sum_list (map (\<lambda>n. count_list (pn_children n) p) heap)"

definition edge_of :: "build \<Rightarrow> ptr \<Rightarrow> string" where
  "edge_of b p = pn_edge (b_heap b ! p)"

text \<open>What every step keeps: pointers stay inside the heap, the map has one entry per id and per
  pointer, and a related node is in one child list if its id is wired and in none otherwise.\<close>

definition b_inv :: "build \<Rightarrow> bool" where
  "b_inv b \<longleftrightarrow> heap_ok (b_heap b) \<and> (\<forall>(i, p) \<in> set (b_nodes b). p < length (b_heap b))
     \<and> distinct (map fst (b_nodes b)) \<and> distinct (map snd (b_nodes b)) \<and> b_wired b \<subseteq> fst ` set (b_nodes b)
     \<and> (\<forall>(i, p) \<in> set (b_nodes b). edge_of b p = ''related''
          \<longrightarrow> indegree (b_heap b) p = (if i \<in> b_wired b then 1 else 0))"

lemma b_inv_ptr: "b_inv b \<Longrightarrow> node_ptr b i = Some p \<Longrightarrow> p < length (b_heap b) \<and> (i, p) \<in> set (b_nodes b)"
  unfolding b_inv_def node_ptr_def by (auto dest: map_of_SomeD)

lemma count_list_set: "x \<notin> set xs \<Longrightarrow> count_list xs x = 0"
  by (induction xs) auto

lemma indegree_append_child:
  assumes "parent < length (b_heap b)"
  shows "indegree (b_heap (append_child parent c b)) p = indegree (b_heap b) p + (if p = c then 1 else 0)"
proof -
  let ?h = "b_heap b" and ?n = "(b_heap b ! parent)\<lparr>pn_children := pn_children (b_heap b ! parent) @ [c]\<rparr>"
  let ?f = "\<lambda>n. count_list (pn_children n) p"
  have "sum_list (map ?f (?h[parent := ?n])) + ?f (?h ! parent) = sum_list (map ?f ?h) + ?f ?n"
    using assms by (simp add: map_update sum_list_update)
  moreover have "?f ?n = ?f (?h ! parent) + (if p = c then 1 else 0)" by (simp add: count_list_append)
  ultimately show ?thesis by (simp add: indegree_def append_child_def)
qed

lemma append_child_simps [simp]:
  "b_nodes (append_child p c b) = b_nodes b" "b_wired (append_child p c b) = b_wired b"
  "length (b_heap (append_child p c b)) = length (b_heap b)"
  "edge_of (append_child p c b) q = edge_of b q"
  by (simp_all add: append_child_def edge_of_def) (cases "p < length (b_heap b)"; cases "q = p"; simp add: list_update_beyond)

lemma heap_ok_append_child:
  assumes "heap_ok (b_heap b)" "c < length (b_heap b)"
  shows "heap_ok (b_heap (append_child p c b))"
proof (cases "p < length (b_heap b)")
  case True
  show ?thesis
    unfolding heap_ok_def append_child_simps
  proof (intro ballI)
    fix n x
    assume n: "n \<in> set (b_heap (append_child p c b))" and x: "x \<in> set (pn_children n)"
    from n have "n = (b_heap b ! p)\<lparr>pn_children := pn_children (b_heap b ! p) @ [c]\<rparr> \<or> n \<in> set (b_heap b)"
      by (auto simp: append_child_def dest: set_update_subset_insert [THEN subsetD])
    moreover have "b_heap b ! p \<in> set (b_heap b)" using True by simp
    ultimately show "x < length (b_heap b)" using assms x by (auto simp: heap_ok_def)
  qed
qed (use assms in \<open>simp add: append_child_def list_update_beyond\<close>)

text \<open>Appending a pointer that is not a related node, and attaching one that is.\<close>

lemma b_inv_append_other:
  assumes "b_inv b" "parent < length (b_heap b)" "c < length (b_heap b)" "edge_of b c \<noteq> ''related''"
  shows "b_inv (append_child parent c b)"
  using assms heap_ok_append_child [of b c parent]
  by (fastforce simp: b_inv_def indegree_append_child)

lemma b_inv_attach:
  assumes "b_inv b" "parent < length (b_heap b)" "attach ps t parent i b = (b', ok)"
  shows "b_inv b'"
proof (cases ok)
  case True
  with assms(3) obtain c where c: "node_ptr b i = Some c" "i \<notin> b_wired b" "edge_of b c = ''related''"
    and b': "b' = wire i (append_child parent c b)"
    by (auto simp: attach_def edge_of_def split: if_splits option.splits)
  note cp = b_inv_ptr [OF assms(1) c(1)]
  have heap: "heap_ok (b_heap (append_child parent c b))"
    using assms(1) cp by (intro heap_ok_append_child) (auto simp: b_inv_def)
  have same: "j = i \<longleftrightarrow> p = c" if "(j, p) \<in> set (b_nodes b)" for j p
    using that cp assms(1) unfolding b_inv_def
    by (metis (no_types, lifting) eq_key_imp_eq_value fst_conv snd_conv distinct_map inj_on_def)
  have "\<forall>(j, p) \<in> set (b_nodes b). edge_of b p = ''related''
      \<longrightarrow> indegree (b_heap (append_child parent c b)) p = (if j \<in> insert i (b_wired b) then 1 else 0)"
  proof safe
    fix j p
    assume jp: "(j, p) \<in> set (b_nodes b)" and "edge_of b p = ''related''"
    with assms(1) have "indegree (b_heap b) p = (if j \<in> b_wired b then 1 else 0)" by (auto simp: b_inv_def)
    then show "indegree (b_heap (append_child parent c b)) p = (if j \<in> insert i (b_wired b) then 1 else 0)"
      using same [OF jp] c(2) indegree_append_child [OF assms(2), of c p] by auto
  qed
  moreover have "i \<in> fst ` set (b_nodes b)" using cp by force
  ultimately show ?thesis using assms(1) heap unfolding b' b_inv_def
    by (auto simp: wire_def edge_of_def append_child_simps(4) [unfolded edge_of_def])
qed (use assms in \<open>auto simp: attach_def split: if_splits option.splits\<close>)

text \<open>What an attach leaves alone.\<close>

definition same_nodes :: "build \<Rightarrow> build \<Rightarrow> bool" where
  "same_nodes b b' \<longleftrightarrow> b_nodes b' = b_nodes b \<and> length (b_heap b') = length (b_heap b)
     \<and> (\<forall>p. edge_of b' p = edge_of b p) \<and> b_wired b \<subseteq> b_wired b'"

lemma same_nodes_refl [simp]: "same_nodes b b"
  by (simp add: same_nodes_def)

lemma same_nodes_trans: "same_nodes a b \<Longrightarrow> same_nodes b c \<Longrightarrow> same_nodes a c"
  by (auto simp: same_nodes_def)

lemma attach_same: "attach ps t parent i b = (b', ok) \<Longrightarrow> same_nodes b b'"
  by (auto simp: attach_def same_nodes_def wire_def edge_of_def append_child_simps(4) [unfolded edge_of_def]
      split: if_splits option.splits)

lemma attach_each_inv:
  "attach_each ps t parent cs b = (b', pushed) \<Longrightarrow> b_inv b \<Longrightarrow> parent < length (b_heap b)
    \<Longrightarrow> b_inv b' \<and> same_nodes b b'"
proof (induction cs arbitrary: b b' pushed)
  case (Cons c cs)
  obtain b1 ok where a: "attach ps t parent c b = (b1, ok)" by fastforce
  obtain b2 pu where e: "attach_each ps t parent cs b1 = (b2, pu)" by fastforce
  have "b' = b2" using Cons.prems(1) a e by auto
  moreover have "parent < length (b_heap b1)" using attach_same [OF a] Cons.prems(3) by (simp add: same_nodes_def)
  ultimately show ?case
    using Cons.IH [OF e b_inv_attach [OF Cons.prems(2,3) a]] attach_same [OF a] same_nodes_trans by blast
qed auto

lemma bfs_inv: "b_inv b \<Longrightarrow> b_inv (bfs outgoing ps t queue b) \<and> same_nodes b (bfs outgoing ps t queue b)"
proof (induction outgoing ps t queue b rule: bfs.induct)
  case (2 outgoing ps t i queue b)
  show ?case
  proof (cases "node_ptr b i")
    case None
    then show ?thesis using 2 by simp
  next
    case (Some parent)
    obtain b1 pushed where e: "attach_each ps t parent (outgoing i) b = (b1, pushed)" by fastforce
    have i1: "b_inv b1" "same_nodes b b1"
      using attach_each_inv [OF e 2(3)] b_inv_ptr [OF 2(3) Some] by auto
    have "bfs outgoing ps t (i # queue) b = bfs outgoing ps t (queue @ pushed) b1" using Some e by simp
    then show ?thesis using 2(2) [OF Some e [symmetric] i1(1)] same_nodes_trans [OF i1(2)] by simp
  qed
qed simp

lemma attach_rest_inv:
  "b_inv b \<Longrightarrow> target < length (b_heap b) \<Longrightarrow>
     b_inv (attach_rest ps t target ids b) \<and> same_nodes b (attach_rest ps t target ids b)
     \<and> (\<forall>i \<in> set ids. i \<notin> ps \<and> i \<noteq> t \<and> is_related b i \<longrightarrow> i \<in> b_wired (attach_rest ps t target ids b))"
proof (induction ids arbitrary: b)
  case (Cons i ids)
  obtain b1 ok where a: "attach ps t target i b = (b1, ok)" by fastforce
  let ?b1 = "if skip_related ps t b i then b else b1"
  have b1: "b_inv ?b1" "same_nodes b ?b1"
    using b_inv_attach [OF Cons.prems a] Cons.prems(1) attach_same [OF a] by auto
  have wired: "i \<in> b_wired ?b1" if "i \<notin> ps" "i \<noteq> t" "is_related b i"
    using that a by (auto simp: skip_related_def attach_def is_related_def wire_def split: option.splits if_splits)
  have rel: "is_related ?b1 j = is_related b j" for j
    using b1(2) by (auto simp: same_nodes_def is_related_def node_ptr_def edge_of_def split: option.splits)
  have len: "target < length (b_heap ?b1)" using b1(2) Cons.prems(2) by (simp add: same_nodes_def)
  have step: "attach_rest ps t target (i # ids) b = attach_rest ps t target ids ?b1" using a by simp
  note ih = Cons.IH [OF b1(1) len, unfolded rel]
  show ?case unfolding step
  proof (intro conjI ballI impI)
    show "b_inv (attach_rest ps t target ids ?b1)" using ih by blast
    show "same_nodes b (attach_rest ps t target ids ?b1)" using ih b1(2) same_nodes_trans by blast
    fix j
    assume j: "j \<in> set (i # ids)" "j \<notin> ps \<and> j \<noteq> t \<and> is_related b j"
    have "b_wired ?b1 \<subseteq> b_wired (attach_rest ps t target ids ?b1)" using ih by (simp only: same_nodes_def)
    then show "j \<in> b_wired (attach_rest ps t target ids ?b1)" using j ih wired by (cases "j = i") auto
  qed
qed simp

lemma attach_related_inv:
  assumes inv: "b_inv b" and target: "target < length (b_heap b)"
    and b': "b' = attach_related parse_uuid target related ps t b"
  shows "b_inv b' \<and> same_nodes b b'
    \<and> (\<forall>i \<in> rc_id ` set related. i \<notin> ps \<and> i \<noteq> t \<and> is_related b i \<longrightarrow> i \<in> b_wired b')"
proof -
  define queue where "queue = filter (\<lambda>i. \<not> skip_related ps t b i \<and> no_incoming parse_uuid related i) (map rc_id related)"
  obtain b1 pushed where e: "attach_each ps t target queue b = (b1, pushed)" by fastforce
  define b2 where "b2 = bfs (outgoing_map parse_uuid related) ps t queue b1"
  have b'_eq: "b' = attach_rest ps t target (map rc_id related) b2"
    using b' e by (simp add: attach_related_def Let_def b2_def queue_def)
  have i1: "b_inv b1" "same_nodes b b1" using attach_each_inv [OF e inv target] by auto
  have i2: "b_inv b2" "same_nodes b1 b2" using bfs_inv [OF i1(1)] by (auto simp: b2_def)
  have b2: "same_nodes b b2" by (rule same_nodes_trans [OF i1(2) i2(2)])
  have rel: "is_related b2 j = is_related b j" for j
    using b2 by (auto simp: same_nodes_def is_related_def node_ptr_def edge_of_def split: option.splits)
  have "target < length (b_heap b2)" using b2 target by (simp add: same_nodes_def)
  from attach_rest_inv [OF i2(1) this, of ps t "map rc_id related"]
  show ?thesis using same_nodes_trans [OF b2] by (simp add: b'_eq rel)
qed

text \<open>The phases before: no node is related yet.\<close>

definition b_start :: "build \<Rightarrow> bool" where
  "b_start b \<longleftrightarrow> heap_ok (b_heap b) \<and> (\<forall>(i, p) \<in> set (b_nodes b). p < length (b_heap b))
     \<and> distinct (map fst (b_nodes b)) \<and> distinct (map snd (b_nodes b)) \<and> b_wired b \<subseteq> fst ` set (b_nodes b)
     \<and> (\<forall>p < length (b_heap b). edge_of b p \<noteq> ''related'')"

lemma b_start_ptr: "b_start b \<Longrightarrow> node_ptr b i = Some p \<Longrightarrow> p < length (b_heap b)"
  unfolding b_start_def node_ptr_def by (auto dest: map_of_SomeD)

lemma heap_ok_set_node: "heap_ok (b_heap b) \<Longrightarrow> heap_ok (b_heap (set_node (n\<lparr>pn_children := []\<rparr>) b))"
  by (fastforce simp: heap_ok_def set_node_def)

lemma set_node_maps:
  assumes "\<forall>(i, p) \<in> set (b_nodes b). p < length (b_heap b)" "distinct (map fst (b_nodes b))" "distinct (map snd (b_nodes b))"
  shows "\<forall>(i, p) \<in> set (b_nodes (set_node n b)). p < length (b_heap (set_node n b))"
    "distinct (map fst (b_nodes (set_node n b)))" "distinct (map snd (b_nodes (set_node n b)))"
    "fst ` set (b_nodes b) \<subseteq> fst ` set (b_nodes (set_node n b))" "b_wired (set_node n b) = b_wired b"
proof -
  show "\<forall>(i, p) \<in> set (b_nodes (set_node n b)). p < length (b_heap (set_node n b))"
    using assms(1) by (auto simp: set_node_def)
  show "distinct (map fst (b_nodes (set_node n b)))" using assms(2) by (auto simp: set_node_def distinct_map_filter)
  show "distinct (map snd (b_nodes (set_node n b)))" using assms(1,3) by (auto simp: set_node_def distinct_map_filter)
  show "fst ` set (b_nodes b) \<subseteq> fst ` set (b_nodes (set_node n b))" by (force simp: set_node_def)
  show "b_wired (set_node n b) = b_wired b" by (simp add: set_node_def)
qed

lemma b_start_set_node: "b_start b \<Longrightarrow> edge \<noteq> ''related'' \<Longrightarrow> b_start (set_node (plain_node edge c) b)"
  using set_node_maps [of b "plain_node edge c"] heap_ok_set_node [of b "plain_node edge c"]
  unfolding b_start_def
  by (auto simp: plain_node_def) (auto simp: set_node_def edge_of_def nth_append split: if_splits)

lemma b_start_append: "b_start b \<Longrightarrow> c < length (b_heap b) \<Longrightarrow> b_start (append_child p c b)"
  using heap_ok_append_child [of b c p] unfolding b_start_def append_child_simps by blast

lemma b_start_foldl: "b_start b \<Longrightarrow> edge \<noteq> ''related''
    \<Longrightarrow> b_start (foldl (\<lambda>b p. set_node (plain_node edge p) b) b cs)
      \<and> length (b_heap b) \<le> length (b_heap (foldl (\<lambda>b p. set_node (plain_node edge p) b) b cs))"
proof (induction cs arbitrary: b)
  case (Cons c cs)
  have "length (b_heap b) \<le> length (b_heap (set_node (plain_node edge c) b))" by (simp add: set_node_def)
  then show ?case using Cons.IH [OF b_start_set_node [OF Cons.prems]] Cons.prems(2) by (auto intro: le_trans)
qed simp

lemma b_start_by_id: "b_start b \<Longrightarrow> b_start (append_by_id p c b) \<and> length (b_heap (append_by_id p c b)) = length (b_heap b)"
  using b_start_append b_start_ptr by (auto simp: append_by_id_def split: option.splits)

lemma b_start_chain: "b_start b \<Longrightarrow> b_start (chain_parents cs b) \<and> length (b_heap (chain_parents cs b)) = length (b_heap b)"
proof (induction cs b rule: chain_parents.induct)
  case (1 p q ps b)
  then show ?case using b_start_by_id [OF 1(2), of "ci_id p" "ci_id q"] by simp
qed simp_all

lemma b_start_wire: "b_start b \<Longrightarrow> node_ptr b i \<noteq> None \<Longrightarrow> b_start (wire i b)"
proof -
  assume b: "b_start b" and i: "node_ptr b i \<noteq> None"
  then have "i \<in> fst ` set (b_nodes b)" unfolding node_ptr_def by (force dest: map_of_SomeD)
  then show ?thesis using b by (simp add: b_start_def wire_def edge_of_def)
qed

lemma b_start_children:
  "b_start b \<Longrightarrow> \<forall>c \<in> set cs. node_ptr b (ci_id c) \<noteq> None
    \<Longrightarrow> b_start (attach_children parse_uuid target t cs b)
      \<and> length (b_heap (attach_children parse_uuid target t cs b)) = length (b_heap b)"
proof (induction cs arbitrary: b)
  case (Cons c cs)
  show ?case
  proof (cases "ci_id c \<in> b_wired b")
    case False
    obtain node where node: "node_ptr b (ci_id c) = Some node" using Cons.prems(2) by auto
    define parent where "parent = (case resolve_child_parent parse_uuid c b t of Some p \<Rightarrow> p | None \<Rightarrow> target)"
    let ?b1 = "wire (ci_id c) (append_child parent node b)"
    have same: "node_ptr ?b1 i = node_ptr b i" for i by (simp add: node_ptr_def wire_def)
    have "b_start (append_child parent node b)" by (rule b_start_append [OF Cons.prems(1) b_start_ptr [OF Cons.prems(1) node]])
    moreover have "node_ptr (append_child parent node b) (ci_id c) \<noteq> None" using node by (simp add: node_ptr_def)
    ultimately have "b_start ?b1" by (rule b_start_wire)
    moreover have "attach_children parse_uuid target t (c # cs) b = attach_children parse_uuid target t cs ?b1"
      using False node by (simp add: parent_def)
    moreover have "length (b_heap ?b1) = length (b_heap b)" by (simp add: wire_def)
    ultimately show ?thesis using Cons.IH [of ?b1] Cons.prems(2) same by simp
  qed (use Cons in simp)
qed simp

lemma foldl_nodes_dom:
  "fst ` set (b_nodes b) \<subseteq> fst ` set (b_nodes (foldl (\<lambda>b p. set_node (plain_node edge p) b) b cs))
   \<and> ci_id ` set cs \<subseteq> fst ` set (b_nodes (foldl (\<lambda>b p. set_node (plain_node edge p) b) b cs))"
proof (induction cs arbitrary: b)
  case (Cons c cs)
  have "fst ` set (b_nodes b) \<union> {ci_id c} \<subseteq> fst ` set (b_nodes (set_node (plain_node edge c) b))"
    by (force simp: set_node_def plain_node_def)
  then show ?case using Cons.IH [of "set_node (plain_node edge c) b"] by auto
qed simp

lemma b_start_inv: "b_start b \<Longrightarrow> b_inv b"
  by (auto simp: b_start_def b_inv_def)

lemma indegree_fresh: "heap_ok heap \<Longrightarrow> length heap \<le> p \<Longrightarrow> indegree heap p = 0"
proof -
  assume "heap_ok heap" "length heap \<le> p"
  then have "\<forall>n \<in> set heap. count_list (pn_children n) p = 0"
    by (intro ballI count_list_set) (fastforce simp: heap_ok_def)
  then show ?thesis by (simp add: indegree_def sum_list_eq_0_iff)
qed

definition related_from :: "uuid set \<Rightarrow> uuid set \<Rightarrow> uuid \<Rightarrow> build \<Rightarrow> bool" where
  "related_from S ps t b \<longleftrightarrow>
     (\<forall>(i, p) \<in> set (b_nodes b). edge_of b p = ''related'' \<longrightarrow> i \<in> S \<and> i \<notin> ps \<and> i \<noteq> t)"

lemma add_related_step:
  assumes inv: "b_inv b" and none: "node_ptr b (rc_id rc) = None"
  defines "n \<equiv> \<lparr>pn_item = related_to_config_item rc, pn_edge = ''related'', pn_relation = rc_relation rc, pn_children = []\<rparr>"
  shows "b_inv (set_node n b)"
proof -
  have ok: "heap_ok (b_heap b)" and wired: "b_wired b \<subseteq> fst ` set (b_nodes b)" using inv by (auto simp: b_inv_def)
  have new: "rc_id rc \<notin> fst ` set (b_nodes b)" using none by (simp add: node_ptr_def map_of_eq_None_iff)
  have fresh: "rc_id rc \<notin> b_wired b" using new wired by blast
  have id: "ci_id (pn_item n) = rc_id rc" by (simp add: n_def related_to_config_item_def)
  have nodes: "b_nodes (set_node n b) = (rc_id rc, length (b_heap b)) # b_nodes b"
    using new by (force simp: set_node_def id intro!: filter_True)
  have heap: "b_heap (set_node n b) = b_heap b @ [n]" by (simp add: set_node_def)
  have indeg: "indegree (b_heap b @ [n]) p = indegree (b_heap b) p" for p
    by (simp add: indegree_def n_def)
  have edge: "edge_of (set_node n b) p = edge_of b p" if "p < length (b_heap b)" for p
    using that by (simp add: edge_of_def heap nth_append)
  have bound: "\<forall>(i, p) \<in> set (b_nodes b). p < length (b_heap b)" using inv by (simp add: b_inv_def)
  have "heap_ok (b_heap b @ [n])" using ok by (fastforce simp: heap_ok_def n_def)
  moreover have "\<forall>(i, p) \<in> set (b_nodes (set_node n b)). edge_of (set_node n b) p = ''related''
      \<longrightarrow> indegree (b_heap (set_node n b)) p = (if i \<in> b_wired b then 1 else 0)"
  proof -
    have "indegree (b_heap b) p = (if i \<in> b_wired b then 1 else 0)"
      if "(i, p) \<in> set (b_nodes b)" "edge_of (set_node n b) p = ''related''" for i p
    proof -
      have "p < length (b_heap b)" using bound that(1) by blast
      then have e: "edge_of b p = ''related''" using that(2) edge by simp
      from inv have "\<forall>(i, p) \<in> set (b_nodes b). edge_of b p = ''related''
          \<longrightarrow> indegree (b_heap b) p = (if i \<in> b_wired b then 1 else 0)" by (simp add: b_inv_def)
      with that(1) e show ?thesis by blast
    qed
    then show ?thesis
      unfolding nodes heap indeg using fresh indegree_fresh [OF ok order_refl] by auto
  qed
  moreover have "b_wired b \<subseteq> fst ` set (b_nodes (set_node n b))" using wired by (auto simp: nodes)
  moreover have "\<forall>(i, p) \<in> set (b_nodes (set_node n b)). p < length (b_heap b @ [n])"
    "distinct (map fst (b_nodes (set_node n b)))" "distinct (map snd (b_nodes (set_node n b)))"
    using set_node_maps(1-3) [of b n] inv unfolding b_inv_def heap by blast+
  moreover have "b_wired (set_node n b) = b_wired b" by (simp add: set_node_def)
  ultimately show ?thesis unfolding b_inv_def heap by simp
qed

lemma add_related_inv:
  "b_inv b \<Longrightarrow> related_from S ps t b \<Longrightarrow> rc_id ` set rcs \<subseteq> S \<Longrightarrow>
     b_inv (add_related ps t rcs b) \<and> related_from S ps t (add_related ps t rcs b)
     \<and> length (b_heap b) \<le> length (b_heap (add_related ps t rcs b))"
proof (induction rcs arbitrary: b)
  case (Cons rc rcs)
  let ?n = "\<lparr>pn_item = related_to_config_item rc, pn_edge = ''related'', pn_relation = rc_relation rc, pn_children = []\<rparr>"
  show ?case
  proof (cases "rc_id rc \<in> ps \<or> rc_id rc = t \<or> node_ptr b (rc_id rc) \<noteq> None")
    case True
    then show ?thesis using Cons by auto
  next
    case False
    then have none: "node_ptr b (rc_id rc) = None" by simp
    have bound: "\<forall>(i, p) \<in> set (b_nodes b). p < length (b_heap b)" using Cons.prems(1) by (simp add: b_inv_def)
    have "related_from S ps t (set_node ?n b)"
    proof -
      have "i \<in> S \<and> i \<notin> ps \<and> i \<noteq> t"
        if ip: "(i, p) \<in> set (b_nodes (set_node ?n b))" and e: "edge_of (set_node ?n b) p = ''related''" for i p
      proof -
      from ip consider "i = rc_id rc" | "(i, p) \<in> set (b_nodes b)"
        by (auto simp: set_node_def related_to_config_item_def)
      then show ?thesis
      proof cases
        case 1
        then show ?thesis using Cons.prems(3) False by simp
      next
        case 2
        then have "p < length (b_heap b)" using bound by blast
        then have "edge_of b p = ''related''" using e by (simp add: edge_of_def set_node_def nth_append)
        then show ?thesis using 2 Cons.prems(2) unfolding related_from_def by blast
      qed
      qed
      then show ?thesis unfolding related_from_def by blast
    qed
    moreover have "length (b_heap b) \<le> length (b_heap (set_node ?n b))" by (simp add: set_node_def)
    ultimately show ?thesis
      using Cons.IH [OF add_related_step [OF Cons.prems(1) none]] False Cons.prems(3) by auto
  qed
qed simp

lemma build_nodes_inv:
  assumes "build_nodes parse_uuid config parents children related = (root, b)"
  shows "b_inv b \<and> root < length (b_heap b)
    \<and> (\<forall>(i, p) \<in> set (b_nodes b). edge_of b p = ''related'' \<longrightarrow> i \<in> b_wired b)"
proof -
  let ?t = "ci_id config" and ?ps = "ci_id ` set parents"
  define b0 where "b0 = \<lparr>b_heap = [], b_nodes = [], b_wired = {}\<rparr>"
  define b1 where "b1 = foldl (\<lambda>b p. set_node (plain_node ''parent'' p) b) b0 parents"
  define target where "target = length (b_heap b1)"
  define b2 where "b2 = set_node (plain_node ''target'' config) b1"
  define b3 where "b3 = (if length parents > 0 then
      (case node_ptr (chain_parents parents b2) (ci_id (last parents)) of
         Some p \<Rightarrow> append_child p target (chain_parents parents b2) | None \<Rightarrow> chain_parents parents b2) else b2)"
  define b4 where "b4 = foldl (\<lambda>b c. set_node (plain_node ''child'' c) b) b3 children"
  define b5 where "b5 = attach_children parse_uuid target ?t children b4"
  define b6 where "b6 = add_related ?ps ?t related b5"
  define b7 where "b7 = attach_related parse_uuid target related ?ps ?t b6"
  have res: "b = b7" "root = (if length parents > 0
      then (case node_ptr b7 (ci_id (hd parents)) of Some p \<Rightarrow> p | None \<Rightarrow> target) else target)"
  proof -
    have "build_nodes parse_uuid config parents children related = ((if length parents > 0
        then (case node_ptr b7 (ci_id (hd parents)) of Some p \<Rightarrow> p | None \<Rightarrow> target) else target), b7)"
      unfolding b7_def b6_def b5_def b4_def b3_def b2_def target_def b1_def b0_def build_nodes_def Let_def by (rule refl)
    from trans [OF this [symmetric] assms] have eq: "(if length parents > 0
        then (case node_ptr b7 (ci_id (hd parents)) of Some p \<Rightarrow> p | None \<Rightarrow> target) else target) = root \<and> b7 = b"
      by (rule prod.inject [THEN iffD1])
    show "b = b7" by (rule conjunct2 [OF eq, symmetric])
    show "root = (if length parents > 0
        then (case node_ptr b7 (ci_id (hd parents)) of Some p \<Rightarrow> p | None \<Rightarrow> target) else target)"
      by (rule conjunct1 [OF eq, symmetric])
  qed
  have "b_start b0" by (simp add: b0_def b_start_def heap_ok_def)
  then have s1: "b_start b1" unfolding b1_def by (rule b_start_foldl [THEN conjunct1]) simp
  have s2: "b_start b2" unfolding b2_def by (rule b_start_set_node [OF s1]) simp
  have t2: "target < length (b_heap b2)" by (simp add: b2_def set_node_def target_def)
  have s3: "b_start b3 \<and> length (b_heap b3) = length (b_heap b2)"
    using s2 t2 b_start_chain [OF s2, of parents] b_start_append by (auto simp: b3_def split: option.splits)
  have s4: "b_start b4" and t4: "length (b_heap b3) \<le> length (b_heap b4)"
    using b_start_foldl [of b3 "''child''" children] s3 unfolding b4_def by auto
  have "\<forall>c \<in> set children. node_ptr b4 (ci_id c) \<noteq> None"
    using foldl_nodes_dom [of b3 "''child''" children] unfolding b4_def [symmetric] node_ptr_def map_of_eq_None_iff by blast
  then have s5: "b_start b5 \<and> length (b_heap b5) = length (b_heap b4)"
    unfolding b5_def by (rule b_start_children [OF s4])
  have "related_from (rc_id ` set related) ?ps ?t b5"
  proof -
    have "edge_of b5 p \<noteq> ''related''" if "(i, p) \<in> set (b_nodes b5)" for i p
      using s5 that unfolding b_start_def by blast
    then show ?thesis unfolding related_from_def by blast
  qed
  from add_related_inv [OF b_start_inv this order_refl] s5
  have s6: "b_inv b6" "related_from (rc_id ` set related) ?ps ?t b6" "length (b_heap b5) \<le> length (b_heap b6)"
    unfolding b6_def by blast+
  have t6: "target < length (b_heap b6)" using t2 s3 t4 s5 s6(3) by simp
  note s7 = attach_related_inv [OF s6(1) t6 b7_def]
  have "i \<in> b_wired b7" if "(i, p) \<in> set (b_nodes b7)" "edge_of b7 p = ''related''" for i p
  proof -
    have "(i, p) \<in> set (b_nodes b6)" "edge_of b6 p = ''related''" using that s7 by (auto simp: same_nodes_def)
    moreover from this have "i \<in> rc_id ` set related" "i \<notin> ?ps" "i \<noteq> ?t" using s6(2) by (auto simp: related_from_def)
    moreover have "node_ptr b6 i = Some p"
      using calculation(1) s6(1) by (simp add: node_ptr_def b_inv_def)
    ultimately show ?thesis using s7 by (auto simp: is_related_def edge_of_def)
  qed
  moreover have "root < length (b_heap b7)"
    using b_inv_ptr [of b7] s7 t6 by (auto simp: res(2) same_nodes_def split: option.splits)
  ultimately show ?thesis using s7 res(1) by auto
qed

text \<open>\<open>buildConfigTree\<close> returns a tree on every input, cyclic paths, parents and relations included: the
  depth of the conversion never exceeds the number of nodes built, no pointer dangles and the root of
  the result is the node of the first parent or of the config itself.\<close>
theorem build_config_tree_returns:
  "\<exists>t. build_config_tree parse_uuid config parents children related = Some t"
proof -
  obtain root b where r: "build_nodes parse_uuid config parents children related = (root, b)" by fastforce
  from build_nodes_inv [OF r] have "heap_ok (b_heap b)" "root < length (b_heap b)" by (auto simp: b_inv_def)
  from to_tree_fuel(1) [OF this(1) empty_subsetI this(2), of "length (b_heap b) + 1"]
  obtain t v where "to_tree (length (b_heap b) + 1) (b_heap b) root {} = Some (t, v)" by auto
  then show ?thesis unfolding build_config_tree_def r prod.case by simp
qed

text \<open>Every related config has exactly one place in the graph of nodes: it is in the child list of one
  node, once, whatever the adjacency of the related configs (cycles, several parents, orphans).\<close>
theorem related_attached_once:
  assumes "build_nodes parse_uuid config parents children related = (root, b)"
    and "(i, p) \<in> set (b_nodes b)" "pn_edge (b_heap b ! p) = ''related''"
  shows "indegree (b_heap b) p = 1"
proof -
  have "i \<in> b_wired b" using build_nodes_inv [OF assms(1)] assms(2,3) unfolding edge_of_def by blast
  moreover have "indegree (b_heap b) p = (if i \<in> b_wired b then 1 else 0)"
    using build_nodes_inv [OF assms(1)] assms(2,3) unfolding b_inv_def edge_of_def by blast
  ultimately show ?thesis by simp
qed

definition sample_related :: "uuid \<Rightarrow> string list \<Rightarrow> related_config" where
  "sample_related i out = \<lparr>rc_id = i, rc_relation = ''rel'', rc_related_ids = out, rc_name = i, rc_type = ''T'', rc_tags = [],
     rc_status = None, rc_health = None, rc_path = [], rc_created_at = 0, rc_updated_at = 0, rc_deleted_at = None, rc_agent_id = []\<rparr>"

theorem related_attached_once_witness:
  "\<exists>root b p. build_nodes Some (sample_item ''t'') [sample_item ''p''] [sample_item ''c'']
       [sample_related ''x'' [''y''], sample_related ''y'' [''x'']] = (root, b)
     \<and> (''y'', p) \<in> set (b_nodes b) \<and> indegree (b_heap b) p = 1"
proof -
  let ?r = "build_nodes Some (sample_item ''t'') [sample_item ''p''] [sample_item ''c'']
       [sample_related ''x'' [''y''], sample_related ''y'' [''x'']]"
  obtain root b where r: "?r = (root, b)" by fastforce
  have "map_of (b_nodes (snd ?r)) ''y'' = Some 4 \<and> pn_edge (b_heap (snd ?r) ! 4) = ''related''" by code_simp
  then have p: "(''y'', 4) \<in> set (b_nodes b)" "pn_edge (b_heap b ! 4) = ''related''"
    by (simp_all add: r map_of_SomeD)
  show ?thesis using related_attached_once [OF r p] r p(1) by blast
qed

subsection \<open>From the database\<close>

datatype lookup_error = RecordNotFound | LookupFailed string

record tree_db =
  cached_config :: "uuid \<Rightarrow> string + config_item option"
  config_from_cache :: "uuid \<Rightarrow> lookup_error + config_item"
  children_rows :: "uuid \<Rightarrow> string + uuid list"
  related_rows :: "uuid \<Rightarrow> string \<Rightarrow> string \<Rightarrow> string \<Rightarrow> string + related_config list"

fun existing_configs :: "tree_db \<Rightarrow> uuid list \<Rightarrow> string + config_item list" where
  "existing_configs db [] = Inr []"
| "existing_configs db (i # ids) =
     (case config_from_cache db i of
        Inl RecordNotFound \<Rightarrow> existing_configs db ids
      | Inl (LookupFailed e) \<Rightarrow> Inl e
      | Inr config \<Rightarrow> and_then (existing_configs db ids) (\<lambda>cs. Inr (config # cs)))"

text \<open>\<open>byID\<close> keeps the last item of an id.\<close>

definition resolve_parents :: "(string \<Rightarrow> uuid option) \<Rightarrow> tree_db \<Rightarrow> config_item \<Rightarrow> string + config_item list" where
  "resolve_parents parse_uuid db config =
     (if ci_path config = [] then Inr []
      else
       (let parent_ids = concat (map (\<lambda>seg. case parse_uuid seg of
              None \<Rightarrow> [] | Some i \<Rightarrow> if i = ci_id config then [] else [i]) (split_char (CHR ''.'') (ci_path config)))
        in if length parent_ids = 0 then Inr []
           else (case existing_configs db parent_ids of
                   Inl e \<Rightarrow> Inl (''resolving parents from path: '' @ e)
                 | Inr items \<Rightarrow>
                     if length items = 0 then Inr []
                     else (let by_id = foldl (\<lambda>m ci. m(ci_id ci \<mapsto> ci)) Map.empty items
                           in Inr (concat (map (\<lambda>i. case by_id i of Some ci \<Rightarrow> [ci] | None \<Rightarrow> []) parent_ids))))))"

fun expand_children_loop :: "tree_db \<Rightarrow> uuid list \<Rightarrow> uuid set \<Rightarrow> string + uuid set" where
  "expand_children_loop db [] all_ids = Inr all_ids"
| "expand_children_loop db (i # ids) all_ids =
     (case children_rows db i of
        Inl e \<Rightarrow> Inl e
      | Inr children \<Rightarrow> expand_children_loop db ids (all_ids \<union> set children))"

text \<open>\<open>key_order\<close> is the order \<open>lo.Keys\<close> gives the keys of the set.\<close>

definition expand_config_children :: "(uuid set \<Rightarrow> uuid list) \<Rightarrow> tree_db \<Rightarrow> uuid list \<Rightarrow> string + uuid list" where
  "expand_config_children key_order db ids =
     and_then (expand_children_loop db ids (set ids)) (\<lambda>all_ids. Inr (key_order all_ids))"

record tree_options =
  to_direction :: string
  to_incoming :: string
  to_outgoing :: string

definition config_tree_of ::
  "(string \<Rightarrow> uuid option) \<Rightarrow> (uuid set \<Rightarrow> uuid list) \<Rightarrow> tree_db \<Rightarrow> uuid \<Rightarrow> tree_options
   \<Rightarrow> string + config_tree option" where
  "config_tree_of parse_uuid key_order db config_id opts =
     (case cached_config db config_id of
        Inl e \<Rightarrow> Inl e
      | Inr None \<Rightarrow> Inr None
      | Inr (Some config) \<Rightarrow>
          and_then (resolve_parents parse_uuid db config) (\<lambda>parents.
          and_then (expand_config_children key_order db [ci_id config]) (\<lambda>child_ids0.
            (let child_ids = filter (\<lambda>i. i \<noteq> ci_id config) child_ids0 in
             and_then (if length child_ids > 0 then existing_configs db child_ids else Inr []) (\<lambda>children.
             and_then (related_rows db (ci_id config)
                 (if to_direction opts = [] then ''all'' else to_direction opts)
                 (if to_incoming opts \<noteq> [] then to_incoming opts else ''hard'')
                 (if to_outgoing opts \<noteq> [] then to_outgoing opts else ''both'')) (\<lambda>related.
               Inr (build_config_tree parse_uuid config parents children related)))))))"

end
