(* ===== verification/Event_Queue.thy ===== *)
theory Event_Queue
  imports Label_Set
begin

section \<open>The event queue\<close>

text \<open>
  \<^verbatim>\<open>models/event_queue.go\<close> and \<^verbatim>\<open>postq/*.go\<close>: events are rows of a table; a consumer deletes a batch
  of them in a transaction, calls its handlers and commits, or rolls the deletion back. The table is a
  list of rows. What \<open>fetchEvents\<close> selects is the query it holds in its text; \<open>SKIP LOCKED\<close> makes it
  pass over the rows of other open transactions. Times are nanoseconds. The outcomes of the database
  calls, the handlers, the ids and the clock are arguments. Listening to notifications and the
  goroutines that call \<open>ConsumeUntilEmpty\<close> are not modelled; the interleaving of several consumers is
  the step relation at the end.
\<close>

subsection \<open>Rows\<close>

record event =
  ev_id :: string
  ev_event_id :: string
  ev_name :: string
  ev_created_at :: int
  ev_properties :: label_set
  ev_delay :: "int option"
  ev_error :: "string option"
  ev_attempts :: int
  ev_last_attempt :: "int option"
  ev_priority :: int

text \<open>\<open>Recreate\<close>: the rows it inserts. The database fills the id and the creation time, which the
  code leaves unset.\<close>

definition recreate_event :: "string \<Rightarrow> int \<Rightarrow> event \<Rightarrow> event" where
  "recreate_event new_id now e =
     \<lparr>ev_id = new_id, ev_event_id = ev_event_id e, ev_name = ev_name e, ev_created_at = now,
      ev_properties = ev_properties e, ev_delay = None, ev_error = ev_error e,
      ev_attempts = ev_attempts e + 1, ev_last_attempt = ev_last_attempt e,
      ev_priority = ev_priority e - 1\<rparr>"

definition recreate :: "string list \<Rightarrow> int \<Rightarrow> event list \<Rightarrow> event list" where
  "recreate ids now events = map (\<lambda>(i, e). recreate_event i now e) (zip ids events)"

definition set_event_error :: "string \<Rightarrow> event \<Rightarrow> event" where
  "set_event_error err e = e\<lparr>ev_error := Some err\<rparr>"

subsection \<open>Fetching\<close>

record fetcher_option =
  fo_max_attempts :: int
  fo_base_delay :: int
  fo_exponent :: int

record event_args =
  ea_events :: "string list"
  ea_batch_size :: int
  ea_max_attempts :: int
  ea_base_delay :: int
  ea_exponent :: int

definition fetch_args :: "string list \<Rightarrow> int \<Rightarrow> fetcher_option option \<Rightarrow> event_args" where
  "fetch_args watch batch_size opts =
     (let args = \<lparr>ea_events = watch, ea_batch_size = (if batch_size = 0 then 1 else batch_size),
            ea_max_attempts = 3, ea_base_delay = 60, ea_exponent = 5\<rparr>
      in case opts of
           None \<Rightarrow> args
         | Some o' \<Rightarrow> args\<lparr>
             ea_max_attempts := (if fo_max_attempts o' > 0 then fo_max_attempts o' else ea_max_attempts args),
             ea_base_delay := (if fo_base_delay o' > 0 then fo_base_delay o' else ea_base_delay args),
             ea_exponent := (if fo_exponent o' > 0 then fo_exponent o' else ea_exponent args)\<rparr>)"

definition second :: int where "second = 1000000000"

text \<open>The wait before the next attempt, \<open>INTERVAL '1 SECOND' * @BaseDelay * POWER(attempts, @Exponent)\<close>.\<close>

definition retry_delay :: "event_args \<Rightarrow> int \<Rightarrow> int" where
  "retry_delay args attempts = second * ea_base_delay args * attempts ^ nat (ea_exponent args)"

definition eligible :: "int \<Rightarrow> event_args \<Rightarrow> event \<Rightarrow> bool" where
  "eligible now args e \<longleftrightarrow>
     (case ev_delay e of None \<Rightarrow> True | Some d \<Rightarrow> ev_created_at e + d \<le> now)
     \<and> ev_attempts e \<le> ea_max_attempts args
     \<and> ev_name e \<in> set (ea_events args)
     \<and> (case ev_last_attempt e of None \<Rightarrow> True | Some t \<Rightarrow> t \<le> now - retry_delay args (ev_attempts e))"

text \<open>\<open>order\<close> is \<open>ORDER BY priority DESC, created_at ASC\<close>, which leaves the order of ties open.
  \<open>RETURNING\<close> promises no order within the batch; no property below depends on it.\<close>

definition queue_order :: "(event list \<Rightarrow> event list) \<Rightarrow> bool" where
  "queue_order order \<longleftrightarrow> (\<forall>es. mset (order es) = mset es \<and>
     sorted_wrt (\<lambda>a b. ev_priority a > ev_priority b
       \<or> (ev_priority a = ev_priority b \<and> ev_created_at a \<le> ev_created_at b)) (order es))"

definition fetch_events ::
  "(event list \<Rightarrow> event list) \<Rightarrow> int \<Rightarrow> event_args \<Rightarrow> string set \<Rightarrow> event list \<Rightarrow> event list" where
  "fetch_events order now args locked rows =
     take (nat (ea_batch_size args)) (order (filter (\<lambda>e. eligible now args e \<and> ev_id e \<notin> locked) rows))"

definition delete_rows :: "event list \<Rightarrow> event list \<Rightarrow> event list" where
  "delete_rows batch rows = filter (\<lambda>e. ev_id e \<notin> ev_id ` set batch) rows"

subsection \<open>The log of events\<close>

text \<open>\<open>container/ring\<close>: the values from the current position on. Writing stores at the current
  position and moves to the next.\<close>

type_synonym event_log = "event option list"

definition new_log :: "int \<Rightarrow> event_log option" where
  "new_log n = (if n \<le> 0 then None else Some (replicate (nat n) None))"

definition log_event :: "event_log option \<Rightarrow> event \<Rightarrow> event_log option" where
  "log_event l e = map_option (\<lambda>r. tl r @ [Some e]) l"

definition log_events :: "event_log option \<Rightarrow> event list \<Rightarrow> event_log option" where
  "log_events l es = foldl log_event l es"

definition get_records :: "event_log \<Rightarrow> event list" where
  "get_records r = map the (filter (\<lambda>v. v \<noteq> None) r)"

definition consumer_records :: "event_log option \<Rightarrow> string + event list" where
  "consumer_records l = (case l of None \<Rightarrow> Inl ''event log is not initialized'' | Some r \<Rightarrow> Inr (get_records r))"

subsection \<open>The asynchronous consumer\<close>

text \<open>How the insertion of the failed events can end: it succeeds; it fails and the transaction is
  aborted, so that committing it rolls it back; or it fails inside a savepoint of the driver and the
  rest of the transaction can still be committed.\<close>

datatype insert_outcome = Inserted | Aborted | RolledToSavepoint

record tx_outcomes =
  tx_begin :: "string option"
  tx_fetch :: "string option"
  tx_insert :: insert_outcome
  tx_commit :: "string option"

record queue_state =
  qu_rows :: "event list"
  qu_log :: "event_log option"

definition async_handle ::
  "(event list \<Rightarrow> event list) \<Rightarrow> tx_outcomes \<Rightarrow> int \<Rightarrow> string list \<Rightarrow> (event list \<Rightarrow> event list)
   \<Rightarrow> event_args \<Rightarrow> string set \<Rightarrow> queue_state \<Rightarrow> (nat \<times> string option) \<times> queue_state" where
  "async_handle order tx now ids consumer args locked s =
     (case tx_begin tx of
        Some e \<Rightarrow> ((0, Some (''error starting transaction: '' @ e)), s)
      | None \<Rightarrow>
          (case tx_fetch tx of
             Some e \<Rightarrow> ((0, Some (''error fetching events: '' @ e)), s)
           | None \<Rightarrow>
               (let events = fetch_events order now args locked (qu_rows s);
                    s1 = s\<lparr>qu_log := log_events (qu_log s) events\<rparr>;
                    failed = consumer events;
                    outcome = (if length failed = 0 then Inserted else tx_insert tx);
                    kept = delete_rows events (qu_rows s);
                    committed = (case outcome of Inserted \<Rightarrow> kept @ recreate ids now failed
                                 | Aborted \<Rightarrow> qu_rows s | RolledToSavepoint \<Rightarrow> kept);
                    err = (case outcome of Aborted \<Rightarrow> Some ''commit unexpectedly resulted in rollback'' | _ \<Rightarrow> tx_commit tx)
                in ((length events, err), if err = None then s1\<lparr>qu_rows := committed\<rparr> else s1))))"

subsection \<open>The synchronous consumer\<close>

fun run_sync :: "(event \<Rightarrow> string option) list \<Rightarrow> event \<Rightarrow> string option" where
  "run_sync [] e = None"
| "run_sync (c # cs) e = (case c e of Some err \<Rightarrow> Some err | None \<Rightarrow> run_sync cs e)"

text \<open>\<open>consumeEvent\<close>: the event, the error and the state once the transaction is over.\<close>

definition consume_event ::
  "(event list \<Rightarrow> event list) \<Rightarrow> tx_outcomes \<Rightarrow> int \<Rightarrow> (event \<Rightarrow> string option) list
   \<Rightarrow> event_args \<Rightarrow> string set \<Rightarrow> queue_state \<Rightarrow> (event option \<times> string option) \<times> queue_state" where
  "consume_event order tx now consumers args locked s =
     (case tx_begin tx of
        Some e \<Rightarrow> ((None, Some (''error starting transaction: '' @ e)), s)
      | None \<Rightarrow>
          (case tx_fetch tx of
             Some e \<Rightarrow> ((None, Some (''error fetching events: '' @ e)), s)
           | None \<Rightarrow>
               (case fetch_events order now (args\<lparr>ea_batch_size := 1\<rparr>) locked (qu_rows s) of
                  [] \<Rightarrow> ((None, None), s)
                | event # _ \<Rightarrow>
                    (let s1 = s\<lparr>qu_log := log_event (qu_log s) event\<rparr> in
                     case run_sync consumers event of
                       Some err \<Rightarrow> ((Some event, Some err), s1)
                     | None \<Rightarrow>
                         (case tx_commit tx of
                            Some err \<Rightarrow> ((Some event, Some err), s1)
                          | None \<Rightarrow> ((Some event, None), s1\<lparr>qu_rows := delete_rows [event] (qu_rows s1)\<rparr>))))))"

text \<open>The \<open>UPDATE\<close> of a failed event, by id.\<close>

definition update_failed :: "event \<Rightarrow> string \<Rightarrow> int \<Rightarrow> event list \<Rightarrow> event list" where
  "update_failed event err now rows =
     map (\<lambda>r. if ev_id r = ev_id event
              then r\<lparr>ev_error := Some err, ev_attempts := ev_attempts event + 1, ev_last_attempt := Some now\<rparr>
              else r) rows"

definition sync_handle ::
  "(event list \<Rightarrow> event list) \<Rightarrow> tx_outcomes \<Rightarrow> bool \<Rightarrow> int \<Rightarrow> (event \<Rightarrow> string option) list
   \<Rightarrow> event_args \<Rightarrow> string set \<Rightarrow> queue_state \<Rightarrow> (nat \<times> string option) \<times> queue_state" where
  "sync_handle order tx update_ok now consumers args locked s =
     (case consume_event order tx now consumers args locked s of
        ((None, err), s1) \<Rightarrow> ((0, err), s1)
      | ((Some event, None), s1) \<Rightarrow> ((1, None), s1)
      | ((Some event, Some err), s1) \<Rightarrow>
          ((1, Some err),
           if update_ok then s1\<lparr>qu_rows := update_failed event err now (qu_rows s1)\<rparr> else s1))"

subsection \<open>The consumer loop\<close>

record consumer_option =
  co_num_consumers :: int
  co_timeout :: int
  co_has_handler :: bool

record pg_consumer =
  pc_num_consumers :: int
  pc_timeout :: int
  pc_default_handler :: bool

definition new_pg_consumer :: "bool \<Rightarrow> consumer_option option \<Rightarrow> string + pg_consumer" where
  "new_pg_consumer has_func opt =
     (if \<not> has_func then Inl ''consumer func cannot be nil''
      else
       (let ec = \<lparr>pc_num_consumers = 1, pc_timeout = 60 * second, pc_default_handler = True\<rparr> in
        Inr (case opt of
               None \<Rightarrow> ec
             | Some o' \<Rightarrow> ec\<lparr>
                 pc_timeout := (if co_timeout o' \<noteq> 0 then co_timeout o' else pc_timeout ec),
                 pc_num_consumers := (if co_num_consumers o' > 0 then co_num_consumers o' else pc_num_consumers ec),
                 pc_default_handler := (if co_has_handler o' then False else pc_default_handler ec)\<rparr>)))"

text \<open>\<open>ConsumeUntilEmpty\<close>: it may not end, so it takes fuel; \<open>None\<close> is running out of it.\<close>

fun consume_until_empty ::
  "nat \<Rightarrow> ('s \<Rightarrow> (nat \<times> string option) \<times> 's) \<Rightarrow> (string \<Rightarrow> bool) \<Rightarrow> 's \<Rightarrow> 's option" where
  "consume_until_empty 0 consume retry s = None"
| "consume_until_empty (Suc fuel) consume retry s =
     (case consume s of
        ((n, Some err), s1) \<Rightarrow> if \<not> retry err then Some s1 else consume_until_empty fuel consume retry s1
      | ((n, None), s1) \<Rightarrow> if n = 0 then Some s1 else consume_until_empty fuel consume retry s1)"

subsection \<open>Metrics\<close>

definition event_metric_label :: "string list \<Rightarrow> string" where
  "event_metric_label events =
     (if length events = 0 then ''unknown''
      else if length events = 1 then events ! 0
      else join ''|'' (sort events))"

definition classify_pre_handler_error :: "string option \<Rightarrow> string" where
  "classify_pre_handler_error err =
     (case err of
        None \<Rightarrow> ''unknown''
      | Some msg \<Rightarrow>
          (let e = to_lower msg in
           if contains ''scan error'' e \<or> contains ''cannot unmarshal'' e \<or> contains ''unsupported scan'' e
           then ''scan_decode''
           else if contains ''error starting transaction'' e then ''tx_begin''
           else if contains ''error fetching events'' e then ''fetch'' else ''other''))"

subsection \<open>Nothing is lost\<close>

lemma fetch_events_set:
  assumes "queue_order order"
  shows "set (fetch_events order now args locked rows) \<subseteq> {e \<in> set rows. eligible now args e \<and> ev_id e \<notin> locked}"
proof -
  have "mset (order es) = mset es" for es using assms by (simp add: queue_order_def)
  then have "set (order es) = set es" for es by (metis set_mset_mset)
  then show ?thesis unfolding fetch_events_def using set_take_subset by fastforce
qed

lemma log_event_rows [simp]: "qu_rows (s\<lparr>qu_log := l\<rparr>) = qu_rows s"
  by simp


lemma delete_rows_frame: "e \<in> set rows \<Longrightarrow> ev_id e \<notin> ev_id ` set batch \<Longrightarrow> e \<in> set (delete_rows batch rows)"
  by (simp add: delete_rows_def)

text \<open>The fields of a row that a failed synchronous attempt changes.\<close>

definition failed_row :: "int \<Rightarrow> string \<Rightarrow> event \<Rightarrow> event" where
  "failed_row now err e = e\<lparr>ev_error := Some err, ev_attempts := ev_attempts e + 1, ev_last_attempt := Some now\<rparr>"

lemma update_failed_eq:
  assumes "e \<in> set rows" "distinct (map ev_id rows)"
  shows "update_failed e err now rows = map (\<lambda>r. if r = e then failed_row now err r else r) rows"
  unfolding update_failed_def failed_row_def
proof (rule map_cong [OF refl])
  fix r
  assume "r \<in> set rows"
  then have "ev_id r = ev_id e \<longleftrightarrow> r = e" using assms by (metis distinct_map inj_onD)
  then show "(if ev_id r = ev_id e then r\<lparr>ev_error := Some err, ev_attempts := ev_attempts e + 1, ev_last_attempt := Some now\<rparr> else r)
    = (if r = e then r\<lparr>ev_error := Some err, ev_attempts := ev_attempts r + 1, ev_last_attempt := Some now\<rparr> else r)"
    by auto
qed


definition sample_event :: event where
  "sample_event = \<lparr>ev_id = ''1'', ev_event_id = ''x'', ev_name = ''check'', ev_created_at = 0, ev_properties = [],
     ev_delay = None, ev_error = None, ev_attempts = 0, ev_last_attempt = None, ev_priority = 100\<rparr>"

definition sample_order :: "event list \<Rightarrow> event list" where
  "sample_order = sort_key (\<lambda>e. - ev_priority e) \<circ> sort_key ev_created_at"

lemma sample_order_ok: "queue_order sample_order"
proof -
  have "sorted_wrt (\<lambda>a b. ev_priority a > ev_priority b
       \<or> (ev_priority a = ev_priority b \<and> ev_created_at a \<le> ev_created_at b)) (sample_order es)" for es
  proof -
    let ?ys = "sort_key ev_created_at es"
    let ?zs = "sort_key (\<lambda>e. - ev_priority e) ?ys"
    have "ev_priority (?zs ! i) > ev_priority (?zs ! j) \<or>
      (ev_priority (?zs ! i) = ev_priority (?zs ! j) \<and> ev_created_at (?zs ! i) \<le> ev_created_at (?zs ! j))"
      if ij: "i < j" "j < length ?zs" for i j
    proof -
      have "sorted (map (\<lambda>e. - ev_priority e) ?zs)" by simp
      then have le: "- ev_priority (?zs ! i) \<le> - ev_priority (?zs ! j)"
        using ij by (metis (no_types, lifting) length_map less_imp_le_nat nth_map order.strict_trans sorted_iff_nth_mono)
      show ?thesis
      proof (cases "ev_priority (?zs ! i) = ev_priority (?zs ! j)")
        case True
        let ?P = "\<lambda>e. - ev_priority e = - ev_priority (?zs ! j)"
        have st: "filter ?P ?zs = filter ?P ?ys" by (rule sort_key_stable)
        have "sorted (map ev_created_at (filter ?P ?ys))" by (rule sorted_filter) simp
        then have so: "sorted (map ev_created_at (filter ?P ?zs))" using st by simp
        have split: "?zs = take j ?zs @ drop j ?zs" by simp
        have "?zs ! i \<in> set (filter ?P (take j ?zs))" using ij True by (auto simp: in_set_conv_nth)
        moreover have "?zs ! j \<in> set (filter ?P (drop j ?zs))"
          using ij by (simp add: Cons_nth_drop_Suc [symmetric])
        moreover have "filter ?P ?zs = filter ?P (take j ?zs) @ filter ?P (drop j ?zs)"
          by (metis append_take_drop_id filter_append)
        ultimately have "ev_created_at (?zs ! i) \<le> ev_created_at (?zs ! j)"
          using so by (simp add: sorted_append)
        then show ?thesis using True by simp
      qed (use le in simp)
    qed
    then show ?thesis by (simp add: sample_order_def sorted_wrt_iff_nth_less)
  qed
  then show ?thesis by (simp add: queue_order_def sample_order_def)
qed

definition sample_tx :: tx_outcomes where
  "sample_tx = \<lparr>tx_begin = None, tx_fetch = None, tx_insert = Inserted, tx_commit = None\<rparr>"


subsection \<open>Attempts and delays\<close>

text \<open>After a failed synchronous attempt the event waits: it is fetched again exactly when it is below
  the limit of attempts and the base delay times the attempts to the power of the exponent has
  passed. With the defaults it is tried four times, with waits of 1, 32 and 243 minutes between.\<close>
theorem sync_backoff:
  assumes "eligible now args e" "ev_delay e = None"
  shows "(eligible t args (failed_row now err e) \<longleftrightarrow>
      ev_attempts e + 1 \<le> ea_max_attempts args \<and> now + retry_delay args (ev_attempts e + 1) \<le> t)
    \<and> map (retry_delay (fetch_args w b None)) [1, 2, 3] = map (\<lambda>m. m * 60 * second) [1, 32, 243]
    \<and> ea_max_attempts (fetch_args w b None) = 3"
proof -
  have "map (retry_delay (fetch_args w b None)) [1, 2, 3] = map (\<lambda>m. m * 60 * second) [1, 32, 243]"
    by (simp add: retry_delay_def fetch_args_def second_def)
  then show ?thesis using assms by (auto simp: eligible_def failed_row_def fetch_args_def)
qed

theorem sync_backoff_witness:
  "\<not> eligible (59 * second) (fetch_args [''check''] 1 None) (failed_row 0 ''boom'' sample_event)
   \<and> eligible (60 * second) (fetch_args [''check''] 1 None) (failed_row 0 ''boom'' sample_event)"
proof -
  have "eligible 0 (fetch_args [''check''] 1 None) sample_event" "ev_delay sample_event = None"
    by (simp_all add: eligible_def fetch_args_def sample_event_def)
  note b = sync_backoff [OF this, of _ "''boom''"]
  show ?thesis
    using b [of "59 * second"] b [of "60 * second"]
    by (simp add: retry_delay_def fetch_args_def second_def sample_event_def)
qed

text \<open>The asynchronous consumer has no delay between attempts: an event it takes that was never
  attempted synchronously and whose handler fails is eligible again at once, until its attempts pass
  the limit.\<close>
theorem async_no_backoff:
  assumes "eligible now args e" "ev_last_attempt e = None"
  shows "eligible now args (recreate_event i now e) \<longleftrightarrow> ev_attempts e + 1 \<le> ea_max_attempts args"
  using assms by (auto simp: eligible_def recreate_event_def)

theorem async_no_backoff_witness:
  "eligible 0 (fetch_args [''check''] 1 None) (recreate_event ''2'' 0 sample_event)"
proof -
  have "eligible 0 (fetch_args [''check''] 1 None) sample_event" "ev_last_attempt sample_event = None"
    by (simp_all add: eligible_def fetch_args_def sample_event_def)
  from async_no_backoff [OF this, of "''2''"] show ?thesis by (simp add: sample_event_def fetch_args_def)
qed

subsection \<open>Draining the queue\<close>

definition good_tx :: "tx_outcomes \<Rightarrow> bool" where
  "good_tx tx \<longleftrightarrow> tx_begin tx = None \<and> tx_fetch tx = None \<and> tx_commit tx = None"

lemma async_handle_success:
  assumes "good_tx tx"
  shows "async_handle order tx now ids (\<lambda>_. []) args locked s =
    ((length (fetch_events order now args locked (qu_rows s)), None),
     \<lparr>qu_rows = delete_rows (fetch_events order now args locked (qu_rows s)) (qu_rows s),
      qu_log = log_events (qu_log s) (fetch_events order now args locked (qu_rows s))\<rparr>)"
  using assms by (simp add: async_handle_def good_tx_def Let_def recreate_def)

lemma fetch_empty:
  assumes "queue_order order" "ea_batch_size args > 0" "fetch_events order now args {} rows = []"
  shows "filter (\<lambda>e. \<not> eligible now args e) rows = rows"
proof -
  let ?el = "filter (\<lambda>e. eligible now args e \<and> ev_id e \<notin> {}) rows"
  have "order ?el = []" using assms(2,3) by (simp add: fetch_events_def)
  moreover have "mset (order ?el) = mset ?el" using assms(1) by (simp add: queue_order_def)
  ultimately have "?el = []" by simp
  then show ?thesis by (auto simp: filter_empty_conv intro: filter_True)
qed

lemma delete_ineligible:
  assumes "distinct (map ev_id rows)" "set batch \<subseteq> {e \<in> set rows. eligible now args e}"
  shows "filter (\<lambda>e. \<not> eligible now args e) (delete_rows batch rows) = filter (\<lambda>e. \<not> eligible now args e) rows"
proof -
  have "ev_id e \<notin> ev_id ` set batch" if "e \<in> set rows" "\<not> eligible now args e" for e
    using assms that by (auto simp: distinct_map inj_on_def subset_iff)
  then show ?thesis by (auto simp: delete_rows_def intro: filter_cong)
qed

lemma delete_shorter:
  assumes "batch \<noteq> []" "set batch \<subseteq> set rows"
  shows "length (delete_rows batch rows) < length rows"
proof -
  obtain e where "e \<in> set batch" "e \<in> set rows" using assms by (cases batch) auto
  then show ?thesis unfolding delete_rows_def by (intro length_filter_less [of e]) auto
qed

lemma drain:
  assumes "queue_order order" "good_tx tx" "ea_batch_size args > 0"
  shows "distinct (map ev_id (qu_rows s)) \<Longrightarrow> length (qu_rows s) < fuel \<Longrightarrow>
    \<exists>log. consume_until_empty fuel (async_handle order tx now ids (\<lambda>_. []) args {}) retry s =
      Some \<lparr>qu_rows = filter (\<lambda>e. \<not> eligible now args e) (qu_rows s), qu_log = log\<rparr>"
proof (induction fuel arbitrary: s)
  case (Suc fuel)
  let ?b = "fetch_events order now args {} (qu_rows s)"
  let ?s1 = "\<lparr>qu_rows = delete_rows ?b (qu_rows s), qu_log = log_events (qu_log s) ?b\<rparr>"
  note step = async_handle_success [OF assms(2), of order now ids args "{}" s]
  have sub: "set ?b \<subseteq> {e \<in> set (qu_rows s). eligible now args e}"
    using fetch_events_set [OF assms(1), of now args "{}" "qu_rows s"] by auto
  then have sub2: "set ?b \<subseteq> set (qu_rows s)" by auto
  show ?case
  proof (cases "?b = []")
    case True
    then have "delete_rows ?b (qu_rows s) = qu_rows s" by (simp add: delete_rows_def)
    with True show ?thesis using step fetch_empty [OF assms(1,3) True] by simp
  next
    case False
    have "distinct (map ev_id (qu_rows ?s1))" using Suc.prems(1) by (simp add: delete_rows_def distinct_map_filter)
    moreover have "length (qu_rows ?s1) < fuel"
      using delete_shorter [OF False sub2] Suc.prems(2) by simp
    ultimately obtain log where "consume_until_empty fuel (async_handle order tx now ids (\<lambda>_. []) args {}) retry ?s1 =
      Some \<lparr>qu_rows = filter (\<lambda>e. \<not> eligible now args e) (qu_rows ?s1), qu_log = log\<rparr>"
      using Suc.IH by blast
    then show ?thesis
      using step False delete_ineligible [OF Suc.prems(1) sub] by simp
  qed
qed simp

text \<open>C10: \<open>ConsumeUntilEmpty\<close> drains the queue: with a handler that fails no event and a database that
  answers, it returns after at most one round more than there are rows, for any positive batch size,
  and what is left of the table is exactly the rows that were not eligible, in their order.\<close>
theorem consume_until_empty_drains:
  assumes "queue_order order" "tx_begin tx = None \<and> tx_fetch tx = None \<and> tx_commit tx = None"
    and "ea_batch_size args > 0" "distinct (map ev_id (qu_rows s))" "length (qu_rows s) < fuel"
  shows "map_option qu_rows (consume_until_empty fuel (async_handle order tx now ids (\<lambda>_. []) args {}) retry s) =
    Some (filter (\<lambda>e. \<not> eligible now args e) (qu_rows s))"
  using drain [OF assms(1) _ assms(3,4,5), of tx now ids retry] assms(2) by (auto simp: good_tx_def)

theorem consume_until_empty_drains_witness:
  "map_option qu_rows (consume_until_empty 3 (async_handle sample_order sample_tx 0 [] (\<lambda>_. [])
       (fetch_args [''check''] 1 None) {}) (\<lambda>_. False)
       \<lparr>qu_rows = [sample_event, sample_event\<lparr>ev_id := ''2'', ev_name := ''other''\<rparr>], qu_log = None\<rparr>)
    = Some [sample_event\<lparr>ev_id := ''2'', ev_name := ''other''\<rparr>]"
  using consume_until_empty_drains [OF sample_order_ok, of sample_tx "fetch_args [''check''] 1 None"
    "\<lparr>qu_rows = [sample_event, sample_event\<lparr>ev_id := ''2'', ev_name := ''other''\<rparr>], qu_log = None\<rparr>" 3 0 "[]" "\<lambda>_. False"]
  by (simp add: sample_tx_def fetch_args_def sample_event_def eligible_def)

subsection \<open>Several consumers\<close>

text \<open>The steps of consumers that share the table: a consumer without a transaction fetches a batch of
  rows no other transaction holds; it commits, putting failed events back under new ids, or rolls
  back; a row that is not held can be updated by a failed synchronous consumer; a producer adds a
  row.\<close>

record shared_queue =
  sq_rows :: "event list"
  sq_tx :: "nat \<Rightarrow> event list option"

definition held_ids :: "shared_queue \<Rightarrow> string set" where
  "held_ids s = {i. \<exists>c batch. sq_tx s c = Some batch \<and> i \<in> ev_id ` set batch}"

inductive queue_step :: "(event list \<Rightarrow> event list) \<Rightarrow> event_args \<Rightarrow> shared_queue \<Rightarrow> shared_queue \<Rightarrow> bool"
  for order args where
  fetch: "sq_tx s c = None \<Longrightarrow>
    queue_step order args s (s\<lparr>sq_tx := (sq_tx s)(c := Some (fetch_events order now args (held_ids s) (sq_rows s)))\<rparr>)"
| commit: "sq_tx s c = Some batch \<Longrightarrow> length ids = length failed \<Longrightarrow> distinct ids \<Longrightarrow>
    set ids \<inter> ev_id ` set (sq_rows s) = {} \<Longrightarrow>
    queue_step order args s \<lparr>sq_rows = delete_rows batch (sq_rows s) @ recreate ids now failed, sq_tx = (sq_tx s)(c := None)\<rparr>"
| rollback: "sq_tx s c = Some batch \<Longrightarrow> queue_step order args s (s\<lparr>sq_tx := (sq_tx s)(c := None)\<rparr>)"
| update: "ev_id e \<notin> held_ids s \<Longrightarrow>
    queue_step order args s (s\<lparr>sq_rows := update_failed e err now (sq_rows s)\<rparr>)"
| insert: "ev_id e \<notin> ev_id ` set (sq_rows s) \<Longrightarrow> queue_step order args s (s\<lparr>sq_rows := sq_rows s @ [e]\<rparr>)"

definition queue_inv :: "shared_queue \<Rightarrow> bool" where
  "queue_inv s \<longleftrightarrow> distinct (map ev_id (sq_rows s))
     \<and> (\<forall>c batch. sq_tx s c = Some batch \<longrightarrow> set batch \<subseteq> set (sq_rows s))
     \<and> (\<forall>c d b1 b2. c \<noteq> d \<and> sq_tx s c = Some b1 \<and> sq_tx s d = Some b2 \<longrightarrow> ev_id ` set b1 \<inter> ev_id ` set b2 = {})"

lemma recreate_ids: "length ids = length failed \<Longrightarrow> map ev_id (recreate ids now failed) = ids"
  by (induction ids failed rule: list_induct2) (auto simp: recreate_def recreate_event_def)

lemma queue_step_inv:
  assumes "queue_order order" "queue_step order args s s'" "queue_inv s"
  shows "queue_inv s'"
  using assms(2)
proof cases
  case (fetch c now)
  let ?b = "fetch_events order now args (held_ids s) (sq_rows s)"
  have b: "set ?b \<subseteq> set (sq_rows s)" "ev_id ` set ?b \<inter> held_ids s = {}"
    using fetch_events_set [OF assms(1), of now args "held_ids s" "sq_rows s"] by auto
  have "ev_id ` set b2 \<subseteq> held_ids s" if "sq_tx s d = Some b2" for d b2
    using that unfolding held_ids_def by blast
  then show ?thesis using assms(3) b unfolding fetch(1) queue_inv_def by (auto split: if_splits) blast+
next
  case (commit c batch ids failed now)
  have keep: "set b2 \<subseteq> set (delete_rows batch (sq_rows s))" if "sq_tx s d = Some b2" "d \<noteq> c" for d b2
  proof
    fix e
    assume e: "e \<in> set b2"
    have "ev_id ` set b2 \<inter> ev_id ` set batch = {}" using assms(3) that commit(2) unfolding queue_inv_def by blast
    then have "ev_id e \<notin> ev_id ` set batch" using e by blast
    moreover have "e \<in> set (sq_rows s)" using assms(3) that e unfolding queue_inv_def by blast
    ultimately show "e \<in> set (delete_rows batch (sq_rows s))" by (simp add: delete_rows_def)
  qed
  have "distinct (map ev_id (delete_rows batch (sq_rows s) @ recreate ids now failed))"
    using assms(3) commit(3,4,5) unfolding queue_inv_def map_append recreate_ids [OF commit(3)]
    by (auto simp: delete_rows_def distinct_map_filter)
  then show ?thesis using assms(3) keep unfolding commit(1) queue_inv_def by (auto split: if_splits)
next
  case (rollback c batch)
  then show ?thesis using assms(3) unfolding queue_inv_def by (auto split: if_splits)
next
  case (update e err now)
  have ids: "map ev_id (update_failed e err now rows) = map ev_id rows" for rows
    by (induction rows) (auto simp: update_failed_def)
  have "set b2 \<subseteq> set (update_failed e err now (sq_rows s))" if "sq_tx s d = Some b2" for d b2
  proof
    fix r
    assume r: "r \<in> set b2"
    then have "ev_id r \<in> held_ids s" using that by (auto simp: held_ids_def)
    then have "ev_id r \<noteq> ev_id e" using update(2) by metis
    moreover have "r \<in> set (sq_rows s)" using assms(3) that r unfolding queue_inv_def by blast
    ultimately show "r \<in> set (update_failed e err now (sq_rows s))" by (force simp: update_failed_def)
  qed
  then show ?thesis using assms(3) ids unfolding update(1) queue_inv_def by auto
next
  case (insert e)
  then show ?thesis using assms(3) unfolding queue_inv_def by (auto; blast)
qed

text \<open>C3: Mutual exclusion: starting from a table with distinct ids and no open transaction, in every
  interleaving of fetches, commits, rollbacks, updates and insertions no event is held by two
  consumers at once, every held event is still in the table, and ids stay distinct.\<close>
theorem queue_exclusive:
  assumes "queue_order order" "distinct (map ev_id rows)"
    and "(queue_step order args)\<^sup>*\<^sup>* \<lparr>sq_rows = rows, sq_tx = (\<lambda>_. None)\<rparr> s"
  shows "distinct (map ev_id (sq_rows s))
    \<and> (\<forall>c batch. sq_tx s c = Some batch \<longrightarrow> set batch \<subseteq> set (sq_rows s))
    \<and> (\<forall>c d b1 b2. c \<noteq> d \<and> sq_tx s c = Some b1 \<and> sq_tx s d = Some b2 \<longrightarrow> ev_id ` set b1 \<inter> ev_id ` set b2 = {})"
proof -
  have "queue_inv s"
    using assms(3)
  proof (induction rule: rtranclp_induct)
    case base
    then show ?case using assms(2) by (simp add: queue_inv_def)
  next
    case (step y z)
    then show ?case using queue_step_inv [OF assms(1)] by blast
  qed
  then show ?thesis unfolding queue_inv_def .
qed

theorem queue_exclusive_witness:
  "\<exists>s. (queue_step sample_order (fetch_args [''check''] 1 None))\<^sup>*\<^sup>*
         \<lparr>sq_rows = [sample_event, sample_event\<lparr>ev_id := ''2''\<rparr>], sq_tx = (\<lambda>_. None)\<rparr> s
     \<and> sq_tx s 0 = Some [sample_event] \<and> sq_tx s 1 \<noteq> None
     \<and> (\<forall>b. sq_tx s 1 = Some b \<longrightarrow> ev_id ` set [sample_event] \<inter> ev_id ` set b = {})"
proof -
  let ?a = "fetch_args [''check''] 1 None"
  let ?s0 = "\<lparr>sq_rows = [sample_event, sample_event\<lparr>ev_id := ''2''\<rparr>], sq_tx = (\<lambda>_. None)\<rparr>"
  let ?s1 = "?s0\<lparr>sq_tx := (sq_tx ?s0)(0 := Some (fetch_events sample_order 0 ?a (held_ids ?s0) (sq_rows ?s0)))\<rparr>"
  let ?s2 = "?s1\<lparr>sq_tx := (sq_tx ?s1)(1 := Some (fetch_events sample_order 0 ?a (held_ids ?s1) (sq_rows ?s1)))\<rparr>"
  have f: "fetch_events sample_order 0 ?a (held_ids ?s0) (sq_rows ?s0) = [sample_event]"
    by (simp add: held_ids_def fetch_events_def fetch_args_def eligible_def sample_event_def sample_order_def insort_key.simps)
  have "queue_step sample_order ?a ?s0 ?s1" by (rule queue_step.fetch) simp
  moreover have "queue_step sample_order ?a ?s1 ?s2" by (rule queue_step.fetch) simp
  ultimately have run: "(queue_step sample_order ?a)\<^sup>*\<^sup>* ?s0 ?s2" by (meson converse_rtranclp_into_rtranclp rtranclp.rtrancl_refl)
  have d: "distinct (map ev_id (sq_rows ?s0))" by (simp add: sample_event_def)
  have ex: "\<forall>c d b1 b2. c \<noteq> d \<and> sq_tx ?s2 c = Some b1 \<and> sq_tx ?s2 d = Some b2 \<longrightarrow> ev_id ` set b1 \<inter> ev_id ` set b2 = {}"
    using queue_exclusive [OF sample_order_ok, of "sq_rows ?s0"] d run by auto
  have held: "sq_tx ?s2 0 = Some [sample_event]" using f by simp
  have "\<forall>b. sq_tx ?s2 1 = Some b \<longrightarrow> ev_id ` set [sample_event] \<inter> ev_id ` set b = {}"
    using ex [THEN spec, of 0, THEN spec, of 1, THEN spec, of "[sample_event]"] held by simp
  moreover have "sq_tx ?s2 1 \<noteq> None" by simp
  ultimately show ?thesis using run held by blast
qed

end
