(* ===== verification/Change_Dedup.thy ===== *)
theory Change_Dedup
  imports Duty_Prelude "HOL-Library.AList"
begin

section \<open>Deduplication of config changes\<close>

text \<open>
  \<^verbatim>\<open>models/config_change_dedupe.go\<close>: \<open>DedupConfigChanges\<close> looks up the fingerprint of each change in
  a process wide cache and splits the batch into changes to insert and counts to add to existing
  ones. The changes are pointers and the code overwrites the id of a repeated one, so a change is an
  index into an array. The cache is a third-party module used through \<open>Get\<close> and \<open>Set\<close>; the loop is
  proved over any cache with the laws of the locale \<open>change_cache\<close>, which a map with expiry times
  meets. The database query that fills it is an argument.
\<close>

subsection \<open>The interface of the cache\<close>

locale change_cache =
  fixes get :: "'c \<Rightarrow> string \<Rightarrow> string option" and put :: "string \<Rightarrow> string \<Rightarrow> 'c \<Rightarrow> 'c"
  assumes get_put: "get (put k v c) k' = (if k' = k then Some v else get c k')"

record change =
  ch_id :: string
  ch_config_id :: string
  ch_fingerprint :: "string option"
  ch_summary :: string
  ch_count :: int

record change_update =
  cu_change :: nat
  cu_increment :: nat
  cu_first :: bool

definition fingerprint_key :: "string \<Rightarrow> string \<Rightarrow> string" where
  "fingerprint_key config_id fingerprint = config_id @ '':'' @ fingerprint"

record 'c dedup_state =
  ds_cache :: 'c
  ds_changes :: "change list"
  ds_non_duped :: "nat list"
  ds_fingerprinted :: "(string \<times> change_update) list"

definition change_key :: "change \<Rightarrow> string option" where
  "change_key c = (case ch_fingerprint c of None \<Rightarrow> None
     | Some f \<Rightarrow> if f = [] then None else Some (fingerprint_key (ch_config_id c) f))"

text \<open>One round of the loop, on the change at index \<open>i\<close>.\<close>

definition dedup_step ::
  "('c \<Rightarrow> string \<Rightarrow> string option) \<Rightarrow> (string \<Rightarrow> string \<Rightarrow> 'c \<Rightarrow> 'c) \<Rightarrow> nat \<Rightarrow> 'c dedup_state \<Rightarrow> 'c dedup_state" where
  "dedup_step get put i s =
     (let c = ds_changes s ! i in
      case change_key c of
        None \<Rightarrow> s\<lparr>ds_non_duped := ds_non_duped s @ [i]\<rparr>
      | Some key \<Rightarrow>
          (case get (ds_cache s) key of
             None \<Rightarrow> s\<lparr>ds_cache := put key (ch_id c) (ds_cache s),
               ds_fingerprinted := AList.update (ch_id c)
                 \<lparr>cu_change = i, cu_increment = 0, cu_first = True\<rparr> (ds_fingerprinted s)\<rparr>
           | Some existing_id \<Rightarrow>
               s\<lparr>ds_changes := (ds_changes s)[i := c\<lparr>ch_id := existing_id\<rparr>],
                 ds_cache := put key existing_id (ds_cache s),
                 ds_fingerprinted := AList.update existing_id
                   (case map_of (ds_fingerprinted s) existing_id of
                      Some existing \<Rightarrow> \<lparr>cu_change = cu_change existing, cu_increment = cu_increment existing + 1,
                        cu_first = cu_first existing\<rparr>
                    | None \<Rightarrow> \<lparr>cu_change = i, cu_increment = 1, cu_first = False\<rparr>) (ds_fingerprinted s)\<rparr>))"

text \<open>The final range over the map \<open>fingerprinted\<close> sees its entries in an arbitrary order.\<close>

definition inserted_in_batch :: "change_update \<Rightarrow> bool" where
  "inserted_in_batch v \<longleftrightarrow> cu_first v \<or> cu_increment v = 0"

definition dedup_changes ::
  "('c \<Rightarrow> string \<Rightarrow> string option) \<Rightarrow> (string \<Rightarrow> string \<Rightarrow> 'c \<Rightarrow> 'c)
   \<Rightarrow> ((string \<times> change_update) list \<Rightarrow> (string \<times> change_update) list) \<Rightarrow> 'c \<Rightarrow> change list
   \<Rightarrow> nat list \<times> change_update list \<times> change list \<times> 'c" where
  "dedup_changes get put range_order cache changes =
     (let s = foldl (\<lambda>s i. dedup_step get put i s)
            \<lparr>ds_cache = cache, ds_changes = changes, ds_non_duped = [], ds_fingerprinted = []\<rparr>
            [0..<length changes];
          entries = map snd (range_order (ds_fingerprinted s))
      in (ds_non_duped s @ map cu_change (filter inserted_in_batch entries),
          filter (\<lambda>v. \<not> inserted_in_batch v) entries, ds_changes s, ds_cache s))"

text \<open>Filling the cache from the rows of the window: every row with a fingerprint is set to expire at the
  end of its window; \<open>set\<close> is the cache's \<open>Set\<close>, given the duration.\<close>

record fingerprint_row =
  fr_id :: string
  fr_config_id :: string
  fr_fingerprint :: string
  fr_created_at :: int

definition init_fingerprint_cache ::
  "(int \<Rightarrow> string \<Rightarrow> string \<Rightarrow> 'c \<Rightarrow> 'c) \<Rightarrow> int \<Rightarrow> int \<Rightarrow> string + fingerprint_row list \<Rightarrow> 'c \<Rightarrow> string + 'c" where
  "init_fingerprint_cache set_for now window rows c =
     and_then rows (\<lambda>rs. Inr (foldl (\<lambda>c r.
        if fr_fingerprint r = [] then c
        else set_for (fr_created_at r + window - now)
               (fingerprint_key (fr_config_id r) (fr_fingerprint r)) (fr_id r) c) c rs))"

subsection \<open>A cache that meets the interface\<close>

text \<open>A map with expiry times, the lookup ignoring an entry after its time; a duration that is not positive
  means no expiry. Within one batch, at one instant, \<open>Get\<close> and \<open>Set\<close> on it meet the laws.\<close>

type_synonym timed_cache = "string \<rightharpoonup> string \<times> int option"

definition cache_set :: "int \<Rightarrow> int \<Rightarrow> string \<Rightarrow> string \<Rightarrow> timed_cache \<Rightarrow> timed_cache" where
  "cache_set now d k v c = c(k \<mapsto> (v, if d > 0 then Some (now + d) else None))"

definition cache_get :: "int \<Rightarrow> timed_cache \<Rightarrow> string \<Rightarrow> string option" where
  "cache_get now c k =
     (case c k of None \<Rightarrow> None
      | Some (v, None) \<Rightarrow> Some v
      | Some (v, Some e) \<Rightarrow> if now > e then None else Some v)"

interpretation timed: change_cache "cache_get now" "cache_set now window" for now window :: int
  by unfold_locales (auto simp: cache_get_def cache_set_def split: option.splits)

subsection \<open>What a batch becomes\<close>

text \<open>The changes of a batch with a given key, and the id the batch ends up using for the key: the cached
  one, or the id of the first change that has it.\<close>

definition with_key :: "change list \<Rightarrow> nat \<Rightarrow> string \<Rightarrow> nat list" where
  "with_key changes n k = filter (\<lambda>i. change_key (changes ! i) = Some k) [0..<n]"

definition batch_keys :: "change list \<Rightarrow> nat \<Rightarrow> string set" where
  "batch_keys changes n = {k. with_key changes n k \<noteq> []}"

definition id_of_key :: "(string \<Rightarrow> string option) \<Rightarrow> change list \<Rightarrow> string \<Rightarrow> string" where
  "id_of_key cached changes k =
     (case cached k of Some i \<Rightarrow> i | None \<Rightarrow> ch_id (changes ! hd (with_key changes (length changes) k)))"

definition update_of_key :: "(string \<Rightarrow> string option) \<Rightarrow> change list \<Rightarrow> nat \<Rightarrow> string \<Rightarrow> change_update" where
  "update_of_key cached changes n k =
     (let occ = with_key changes n k in
      if cached k = None then \<lparr>cu_change = hd occ, cu_increment = length occ - 1, cu_first = True\<rparr>
      else \<lparr>cu_change = hd occ, cu_increment = length occ, cu_first = False\<rparr>)"

lemma with_key_Suc: "with_key changes (Suc n) k =
    with_key changes n k @ (if change_key (changes ! n) = Some k then [n] else [])"
  by (simp add: with_key_def)

lemma with_key_hd:
  assumes "with_key changes n k \<noteq> []" "n \<le> m"
  shows "hd (with_key changes m k) = hd (with_key changes n k)"
proof -
  have "[0..<m] = [0..<n] @ [n..<m]" using assms(2) upt_add_eq_append [of 0 n "m - n"] by simp
  then have "with_key changes m k = with_key changes n k @ filter (\<lambda>i. change_key (changes ! i) = Some k) [n..<m]"
    unfolding with_key_def by simp
  then show ?thesis using assms(1) by simp
qed

context change_cache
begin

definition dedup_inv :: "'c \<Rightarrow> change list \<Rightarrow> nat \<Rightarrow> 'c dedup_state \<Rightarrow> bool" where
  "dedup_inv cache changes n s \<longleftrightarrow>
     length (ds_changes s) = length changes
     \<and> (\<forall>i. n \<le> i \<longrightarrow> ds_changes s ! i = changes ! i)
     \<and> (\<forall>i. change_key (ds_changes s ! i) = change_key (changes ! i))
     \<and> (\<forall>k. get (ds_cache s) k = (if k \<in> batch_keys changes n then Some (id_of_key (get cache) changes k) else get cache k))
     \<and> ds_non_duped s = filter (\<lambda>i. change_key (changes ! i) = None) [0..<n]
     \<and> distinct (map fst (ds_fingerprinted s))
     \<and> set (ds_fingerprinted s) = (\<lambda>k. (id_of_key (get cache) changes k, update_of_key (get cache) changes n k)) ` batch_keys changes n"

lemma fingerprinted_lookup:
  assumes "dedup_inv cache changes n s" "inj_on (id_of_key (get cache) changes) (batch_keys changes (length changes))"
    and "k \<in> batch_keys changes (length changes)" "n \<le> length changes"
  shows "map_of (ds_fingerprinted s) (id_of_key (get cache) changes k) =
    (if k \<in> batch_keys changes n then Some (update_of_key (get cache) changes n k) else None)"
proof -
  let ?id = "id_of_key (get cache) changes"
  have sub: "batch_keys changes n \<subseteq> batch_keys changes (length changes)"
    using assms(4) by (auto simp: batch_keys_def with_key_def filter_empty_conv)
  have dist: "distinct (map fst (ds_fingerprinted s))"
    and ent: "set (ds_fingerprinted s) = (\<lambda>k. (?id k, update_of_key (get cache) changes n k)) ` batch_keys changes n"
    using assms(1) by (simp_all add: dedup_inv_def)
  show ?thesis
  proof (cases "k \<in> batch_keys changes n")
    case True
    then show ?thesis using dist ent by (auto intro!: map_of_is_SomeI)
  next
    case False
    have "?id k \<notin> fst ` set (ds_fingerprinted s)"
    proof
      assume "?id k \<in> fst ` set (ds_fingerprinted s)"
      then obtain k' where "k' \<in> batch_keys changes n" "?id k = ?id k'" using ent by auto
      then show False using assms(2,3) sub False by (metis inj_onD subsetD)
    qed
    then show ?thesis using False by (simp add: map_of_eq_None_iff)
  qed
qed

lemma dedup_inv_start: "dedup_inv cache changes 0
    \<lparr>ds_cache = cache, ds_changes = changes, ds_non_duped = [], ds_fingerprinted = []\<rparr>"
  by (simp add: dedup_inv_def batch_keys_def with_key_def)

lemma update_entries:
  assumes "distinct (map fst al)"
  shows "set (AList.update k v al) = {(a, b). ((map_of al)(k \<mapsto> v)) a = Some b}"
proof -
  have "distinct (map fst (AList.update k v al))" using assms by (rule distinct_update)
  then have "(a, b) \<in> set (AList.update k v al) \<longleftrightarrow> map_of (AList.update k v al) a = Some b" for a b
    by simp
  then show ?thesis by (auto simp: update_conv')
qed

lemma entries_insert:
  assumes inv: "dedup_inv cache changes n s" and inj: "inj_on (id_of_key (get cache) changes) (batch_keys changes (length changes))"
    and n: "n < length changes" and key: "change_key (changes ! n) = Some k"
  shows "set (AList.update (id_of_key (get cache) changes k) (update_of_key (get cache) changes (Suc n) k) (ds_fingerprinted s))
    = (\<lambda>k. (id_of_key (get cache) changes k, update_of_key (get cache) changes (Suc n) k)) ` batch_keys changes (Suc n)"
proof -
  let ?id = "id_of_key (get cache) changes" and ?u = "update_of_key (get cache) changes"
  have keys: "batch_keys changes (Suc n) = insert k (batch_keys changes n)"
    using key by (auto simp: batch_keys_def with_key_Suc split: if_splits)
  have sub: "batch_keys changes (Suc n) \<subseteq> batch_keys changes (length changes)"
    using n by (auto simp: batch_keys_def with_key_def filter_empty_conv)
  have dist: "distinct (map fst (ds_fingerprinted s))"
    and ent: "set (ds_fingerprinted s) = (\<lambda>k. (?id k, ?u n k)) ` batch_keys changes n"
    using inv by (simp_all add: dedup_inv_def)
  have same: "?u (Suc n) k' = ?u n k'" if "k' \<noteq> k" for k'
    using key that by (simp add: update_of_key_def with_key_Suc Let_def)
  have neq: "?id k' \<noteq> ?id k" if "k' \<in> batch_keys changes n" "k' \<noteq> k" for k'
    using that inj sub keys by (metis inj_onD insertI1 insertI2 subsetD)
  have "(a, b) \<in> set (AList.update (?id k) (?u (Suc n) k) (ds_fingerprinted s))
      \<longleftrightarrow> (a, b) = (?id k, ?u (Suc n) k) \<or> (a \<noteq> ?id k \<and> (a, b) \<in> set (ds_fingerprinted s))" for a b
    using update_entries [OF dist, of "?id k" "?u (Suc n) k"] dist by (auto split: if_splits)
  moreover have "a \<noteq> ?id k \<and> (a, b) \<in> set (ds_fingerprinted s)
      \<longleftrightarrow> (\<exists>k' \<in> batch_keys changes n. k' \<noteq> k \<and> (a, b) = (?id k', ?u (Suc n) k'))" for a b
  proof
    assume "a \<noteq> ?id k \<and> (a, b) \<in> set (ds_fingerprinted s)"
    then obtain k' where k': "k' \<in> batch_keys changes n" "a = ?id k'" "b = ?u n k'" "?id k' \<noteq> ?id k"
      unfolding ent by blast
    then have "k' \<noteq> k" by blast
    then show "\<exists>k' \<in> batch_keys changes n. k' \<noteq> k \<and> (a, b) = (?id k', ?u (Suc n) k')"
      using k' same [of k'] by auto
  next
    assume "\<exists>k' \<in> batch_keys changes n. k' \<noteq> k \<and> (a, b) = (?id k', ?u (Suc n) k')"
    then show "a \<noteq> ?id k \<and> (a, b) \<in> set (ds_fingerprinted s)" unfolding ent using neq same by auto
  qed
  ultimately have "p \<in> set (AList.update (?id k) (?u (Suc n) k) (ds_fingerprinted s))
      \<longleftrightarrow> p = (?id k, ?u (Suc n) k) \<or> (\<exists>k' \<in> batch_keys changes n. k' \<noteq> k \<and> p = (?id k', ?u (Suc n) k'))" for p
    by (cases p) simp
  moreover have "p \<in> (\<lambda>k. (?id k, ?u (Suc n) k)) ` batch_keys changes (Suc n)
      \<longleftrightarrow> p = (?id k, ?u (Suc n) k) \<or> (\<exists>k' \<in> batch_keys changes n. k' \<noteq> k \<and> p = (?id k', ?u (Suc n) k'))" for p
    by (auto simp: keys)
  ultimately show ?thesis by blast
qed

lemma dedup_step_inv:
  assumes inv: "dedup_inv cache changes n s" and inj: "inj_on (id_of_key (get cache) changes) (batch_keys changes (length changes))"
    and n: "n < length changes"
  shows "dedup_inv cache changes (Suc n) (dedup_step get put n s)"
proof -
  let ?id = "id_of_key (get cache) changes" and ?u = "update_of_key (get cache) changes"
  have c: "ds_changes s ! n = changes ! n" using inv by (simp add: dedup_inv_def)
  show ?thesis
  proof (cases "change_key (changes ! n)")
    case None
    then have "batch_keys changes (Suc n) = batch_keys changes n" "?u (Suc n) k = ?u n k" for k
      by (simp_all add: batch_keys_def with_key_Suc update_of_key_def)
    then show ?thesis using inv c None by (simp add: dedup_inv_def dedup_step_def Let_def)
  next
    case (Some k)
    have keys: "batch_keys changes (Suc n) = insert k (batch_keys changes n)"
      using Some by (auto simp: batch_keys_def with_key_Suc split: if_splits)
    have occ: "with_key changes (Suc n) k = with_key changes n k @ [n]" using Some by (simp add: with_key_Suc)
    have kall: "k \<in> batch_keys changes (length changes)"
      using Some n by (auto simp: batch_keys_def with_key_def filter_empty_conv)
    note lookup = fingerprinted_lookup [OF inv inj kall less_imp_le [OF n]]
    note entries = entries_insert [OF inv inj n Some]
    have got: "get (ds_cache s) k = (if k \<in> batch_keys changes n then Some (?id k) else get cache k)"
      using inv by (simp add: dedup_inv_def)
    have dist: "distinct (map fst (AList.update i v (ds_fingerprinted s)))" for i v
      using inv by (simp add: dedup_inv_def distinct_update)
    show ?thesis
    proof (cases "get (ds_cache s) k")
      case None
      then have k: "k \<notin> batch_keys changes n" "get cache k = None" using got by (auto split: if_splits)
      then have "with_key changes (Suc n) k = [n]" using occ by (simp add: batch_keys_def)
      then have "hd (with_key changes (length changes) k) = n"
        using with_key_hd [of changes "Suc n" k "length changes"] n by simp
      then have id: "?id k = ch_id (changes ! n)" using k(2) by (simp add: id_of_key_def)
      have u: "?u (Suc n) k = \<lparr>cu_change = n, cu_increment = 0, cu_first = True\<rparr>"
        using k \<open>with_key changes (Suc n) k = [n]\<close> by (simp add: update_of_key_def)
      show ?thesis
        using inv c Some None entries dist keys
        by (auto simp: dedup_inv_def dedup_step_def Let_def id u get_put)
    next
      case (Some i)
      have id: "i = ?id k"
      proof (cases "k \<in> batch_keys changes n")
        case True
        then show ?thesis using got Some by simp
      next
        case False
        then have "get cache k = Some i" using got Some by simp
        then show ?thesis by (simp add: id_of_key_def)
      qed
      have u: "?u (Suc n) k = (case map_of (ds_fingerprinted s) i of
                      Some existing \<Rightarrow> \<lparr>cu_change = cu_change existing, cu_increment = cu_increment existing + 1,
                        cu_first = cu_first existing\<rparr>
                    | None \<Rightarrow> \<lparr>cu_change = n, cu_increment = 1, cu_first = False\<rparr>)"
      proof (cases "k \<in> batch_keys changes n")
        case True
        then have "with_key changes n k \<noteq> []" by (simp add: batch_keys_def)
        then show ?thesis using True lookup id occ by (auto simp: update_of_key_def Let_def Suc_diff_le)
      next
        case False
        then have "with_key changes n k = []" "get cache k = Some i" using got Some by (auto simp: batch_keys_def)
        then show ?thesis using False lookup id occ by (simp add: update_of_key_def)
      qed
      have ck: "change_key (c\<lparr>ch_id := j\<rparr>) = change_key c" for c j by (simp add: change_key_def split: option.split)
      have step: "dedup_step get put n s = s\<lparr>ds_changes := (ds_changes s)[n := (changes ! n)\<lparr>ch_id := i\<rparr>],
          ds_cache := put k i (ds_cache s), ds_fingerprinted := AList.update (?id k) (?u (Suc n) k) (ds_fingerprinted s)\<rparr>"
        using \<open>change_key (changes ! n) = Some k\<close> Some c by (simp add: dedup_step_def Let_def u id)
      have chs: "\<forall>j. change_key ((ds_changes s)[n := (changes ! n)\<lparr>ch_id := i\<rparr>] ! j) = change_key (changes ! j)"
        using inv n by (auto simp: dedup_inv_def nth_list_update ck)
      show ?thesis
        using inv entries dist keys chs \<open>change_key (changes ! n) = Some k\<close> unfolding step
        by (auto simp: dedup_inv_def get_put id)
    qed
  qed
qed

lemma dedup_fold_inv:
  assumes "inj_on (id_of_key (get cache) changes) (batch_keys changes (length changes))" "n \<le> length changes"
  shows "dedup_inv cache changes n (foldl (\<lambda>s i. dedup_step get put i s)
    \<lparr>ds_cache = cache, ds_changes = changes, ds_non_duped = [], ds_fingerprinted = []\<rparr> [0..<n])"
  using assms(2)
proof (induction n)
  case 0
  show ?case using dedup_inv_start by simp
next
  case (Suc n)
  then show ?case using dedup_step_inv [OF _ assms(1), of n] by simp
qed

lemma dedup_changes_split:
  assumes inj: "inj_on (id_of_key (get cache) changes) (batch_keys changes (length changes))"
    and order: "\<And>xs. mset (range_order xs) = mset xs"
    and run: "dedup_changes get put range_order cache changes = (non_duped, deduped, changes', cache')"
  shows "set non_duped = {i. i < length changes \<and> change_key (changes ! i) = None}
      \<union> (\<lambda>k. hd (with_key changes (length changes) k)) ` {k \<in> batch_keys changes (length changes). get cache k = None}"
    and "set deduped = (\<lambda>k. \<lparr>cu_change = hd (with_key changes (length changes) k),
      cu_increment = length (with_key changes (length changes) k), cu_first = False\<rparr>)
      ` {k \<in> batch_keys changes (length changes). get cache k \<noteq> None}"
proof -
  let ?s = "foldl (\<lambda>s i. dedup_step get put i s)
    \<lparr>ds_cache = cache, ds_changes = changes, ds_non_duped = [], ds_fingerprinted = []\<rparr> [0..<length changes]"
  let ?keys = "batch_keys changes (length changes)" and ?u = "update_of_key (get cache) changes (length changes)"
  note inv = dedup_fold_inv [OF inj order_refl]
  have "set (range_order (ds_fingerprinted ?s)) = set (ds_fingerprinted ?s)" by (metis order set_mset_mset)
  then have vals: "snd ` set (range_order (ds_fingerprinted ?s)) = ?u ` ?keys"
    using inv by (simp add: dedup_inv_def image_image)
  have ins: "inserted_in_batch (?u k) \<longleftrightarrow> get cache k = None" if "k \<in> ?keys" for k
    using that by (auto simp: inserted_in_batch_def update_of_key_def batch_keys_def Let_def)
  have chg: "cu_change (?u k) = hd (with_key changes (length changes) k)" for k
    by (simp add: update_of_key_def Let_def)
  have cached: "?u k = \<lparr>cu_change = hd (with_key changes (length changes) k),
      cu_increment = length (with_key changes (length changes) k), cu_first = False\<rparr>" if "get cache k \<noteq> None" for k
    using that by (simp add: update_of_key_def Let_def)
  have res: "non_duped = ds_non_duped ?s @ map cu_change (filter inserted_in_batch (map snd (range_order (ds_fingerprinted ?s))))"
    "deduped = filter (\<lambda>v. \<not> inserted_in_batch v) (map snd (range_order (ds_fingerprinted ?s)))"
    using run by (simp_all add: dedup_changes_def Let_def)
  have plain: "set (ds_non_duped ?s) = {i. i < length changes \<and> change_key (changes ! i) = None}"
    using inv by (auto simp: dedup_inv_def)
  have "cu_change ` {v \<in> ?u ` ?keys. inserted_in_batch v} = (\<lambda>k. hd (with_key changes (length changes) k)) ` {k \<in> ?keys. get cache k = None}"
    using ins chg by (force simp: image_iff)
  then show "set non_duped = {i. i < length changes \<and> change_key (changes ! i) = None}
      \<union> (\<lambda>k. hd (with_key changes (length changes) k)) ` {k \<in> ?keys. get cache k = None}"
    by (simp only: res(1) set_append plain set_map set_filter vals)
  have "{v \<in> ?u ` ?keys. \<not> inserted_in_batch v} = ?u ` {k \<in> ?keys. get cache k \<noteq> None}" by (auto simp: ins)
  also have "\<dots> = (\<lambda>k. \<lparr>cu_change = hd (with_key changes (length changes) k),
      cu_increment = length (with_key changes (length changes) k), cu_first = False\<rparr>) ` {k \<in> ?keys. get cache k \<noteq> None}"
    by (rule image_cong [OF refl]) (use cached in simp)
  finally show "set deduped = (\<lambda>k. \<lparr>cu_change = hd (with_key changes (length changes) k),
      cu_increment = length (with_key changes (length changes) k), cu_first = False\<rparr>) ` {k \<in> ?keys. get cache k \<noteq> None}"
    by (simp only: res(2) set_map set_filter vals)
qed

end

text \<open>C11: The result of a batch, over any cache that returns what was set, when no two fingerprints share an id: a change is
  inserted exactly when it has no fingerprint or is the first of the batch with a fingerprint that is
  not cached; every cached fingerprint of the batch gives one update, whose increment is the number of
  its changes. The repeats of a new fingerprint appear in neither list.\<close>
theorem dedup_changes_correct:
  assumes "change_cache get put" "\<forall>xs. mset (range_order xs) = mset xs"
    and "inj_on (id_of_key (get cache) changes) (batch_keys changes (length changes))"
  shows "case dedup_changes get put range_order cache changes of (non_duped, deduped, _, _) \<Rightarrow>
     set non_duped = {i. i < length changes \<and> change_key (changes ! i) = None}
       \<union> (\<lambda>k. hd (with_key changes (length changes) k))
           ` {k \<in> batch_keys changes (length changes). get cache k = None}
   \<and> set deduped = (\<lambda>k. \<lparr>cu_change = hd (with_key changes (length changes) k),
        cu_increment = length (with_key changes (length changes) k), cu_first = False\<rparr>)
           ` {k \<in> batch_keys changes (length changes). get cache k \<noteq> None}"
proof -
  obtain nd dd cs c where run: "dedup_changes get put range_order cache changes = (nd, dd, cs, c)"
    by (metis surj_pair)
  show ?thesis
    using change_cache.dedup_changes_split [OF assms(1,3) _ run] assms(2) run by simp
qed

definition sample_change :: "string \<Rightarrow> string \<Rightarrow> change" where
  "sample_change i f = \<lparr>ch_id = i, ch_config_id = ''c'', ch_fingerprint = Some f, ch_summary = [], ch_count = 1\<rparr>"

theorem dedup_changes_correct_witness:
  "case dedup_changes (cache_get 0) (cache_set 0 5) id [''c:abc'' \<mapsto> (''8'', Some 5)]
      [sample_change ''8'' ''abc'', sample_change ''n1'' ''abc'', sample_change ''01'' ''xyz'', sample_change ''n3'' ''xyz'']
    of (non_duped, deduped, _, _) \<Rightarrow>
      set non_duped = {2} \<and> set deduped = {\<lparr>cu_change = 0, cu_increment = 2, cu_first = False\<rparr>}"
proof -
  let ?cs = "[sample_change ''8'' ''abc'', sample_change ''n1'' ''abc'', sample_change ''01'' ''xyz'', sample_change ''n3'' ''xyz'']"
  let ?c = "[''c:abc'' \<mapsto> (''8'', Some 5)] :: timed_cache"
  have ks: "with_key ?cs 4 k = (if k = ''c:abc'' then [0, 1] else if k = ''c:xyz'' then [2, 3] else [])" for k
    by (simp add: with_key_def sample_change_def change_key_def fingerprint_key_def upt_rec numeral_nat)
  have keys: "batch_keys ?cs 4 = {''c:abc'', ''c:xyz''}" by (auto simp: batch_keys_def ks)
  have got: "cache_get 0 ?c k = (if k = ''c:abc'' then Some ''8'' else None)" for k by (simp add: cache_get_def)
  have len: "length ?cs = 4" by simp
  have ids: "id_of_key (cache_get 0 ?c) ?cs ''c:abc'' = ''8''" "id_of_key (cache_get 0 ?c) ?cs ''c:xyz'' = ''01''"
    unfolding id_of_key_def len ks got by (simp_all add: sample_change_def)
  have inj: "inj_on (id_of_key (cache_get 0 ?c) ?cs) (batch_keys ?cs (length ?cs))"
    unfolding len keys by (simp add: ids)
  have unc: "{k \<in> batch_keys ?cs 4. cache_get 0 ?c k = None} = {''c:xyz''}"
    and cac: "{k \<in> batch_keys ?cs 4. cache_get 0 ?c k \<noteq> None} = {''c:abc''}"
    unfolding keys got by auto
  have "change_key (?cs ! i) \<noteq> None" if "i < 4" for i
  proof -
    from that have "i = 0 \<or> i = 1 \<or> i = 2 \<or> i = 3" by linarith
    then show ?thesis by (elim disjE) (simp_all add: sample_change_def change_key_def)
  qed
  then have plain: "{i. i < 4 \<and> change_key (?cs ! i) = None} = {}" by blast
  show ?thesis
    using dedup_changes_correct [of "cache_get 0" "cache_set 0 5" id ?c ?cs, OF timed.change_cache_axioms _ inj]
    unfolding len unc cac plain ks by (simp add: numeral_2_eq_2)
qed

text \<open>The map of a batch is keyed by change id, so two changes whose ids are not set yet, with different
  fingerprints, overwrite each other's entry and one of them is neither inserted nor counted.\<close>
theorem dedup_unset_ids_lose_change:
  "case dedup_changes (cache_get 0) (cache_set 0 5) id Map.empty [sample_change [] ''a'', sample_change [] ''b'']
    of (non_duped, deduped, _, _) \<Rightarrow> non_duped = [1] \<and> deduped = []"
  by (simp add: dedup_changes_def dedup_step_def sample_change_def change_key_def fingerprint_key_def cache_get_def
      cache_set_def inserted_in_batch_def Let_def)

text \<open>Filling an empty cache: a key then holds the id of the last row of the result that has the key and
  a fingerprint, and nothing else is in the cache, whatever the durations.\<close>
theorem init_fingerprint_cache_lookup:
  assumes "\<forall>d. change_cache get (set_for d)" "\<forall>k. get start k = None"
  shows "\<exists>c. init_fingerprint_cache set_for now window (Inr rows) start = Inr c
    \<and> (\<forall>k. get c k = map_option fr_id (find (\<lambda>r. fr_fingerprint r \<noteq> []
         \<and> fingerprint_key (fr_config_id r) (fr_fingerprint r) = k) (rev rows)))"
proof -
  let ?f = "\<lambda>c r. if fr_fingerprint r = [] then c else set_for (fr_created_at r + window - now)
      (fingerprint_key (fr_config_id r) (fr_fingerprint r)) (fr_id r) c"
  have "get (foldl ?f start rows) k = map_option fr_id (find (\<lambda>r. fr_fingerprint r \<noteq> []
         \<and> fingerprint_key (fr_config_id r) (fr_fingerprint r) = k) (rev rows))" for k
    by (induction rows rule: rev_induct) (use assms in \<open>auto simp: change_cache.get_put\<close>)
  then show ?thesis by (simp add: init_fingerprint_cache_def)
qed

theorem init_fingerprint_cache_lookup_witness:
  "\<exists>c. init_fingerprint_cache (cache_set 10) 10 5 (Inr [\<lparr>fr_id = ''1'', fr_config_id = ''c'', fr_fingerprint = ''f'', fr_created_at = 8\<rparr>,
      \<lparr>fr_id = ''2'', fr_config_id = ''c'', fr_fingerprint = ''f'', fr_created_at = 9\<rparr>]) Map.empty = Inr c
    \<and> cache_get 10 c ''c:f'' = Some ''2''"
proof -
  have "\<forall>d. change_cache (cache_get 10) (cache_set 10 d)" by (simp add: timed.change_cache_axioms)
  from init_fingerprint_cache_lookup [OF this, where start = Map.empty and now = 10 and window = 5
      and rows = "[\<lparr>fr_id = ''1'', fr_config_id = ''c'', fr_fingerprint = ''f'', fr_created_at = 8\<rparr>,
      \<lparr>fr_id = ''2'', fr_config_id = ''c'', fr_fingerprint = ''f'', fr_created_at = 9\<rparr>]"]
  obtain c where "init_fingerprint_cache (cache_set 10) 10 5 (Inr [\<lparr>fr_id = ''1'', fr_config_id = ''c'', fr_fingerprint = ''f'', fr_created_at = 8\<rparr>,
      \<lparr>fr_id = ''2'', fr_config_id = ''c'', fr_fingerprint = ''f'', fr_created_at = 9\<rparr>]) Map.empty = Inr c"
    "\<forall>k. cache_get 10 c k = map_option fr_id (find (\<lambda>r. fr_fingerprint r \<noteq> []
         \<and> fingerprint_key (fr_config_id r) (fr_fingerprint r) = k) (rev [\<lparr>fr_id = ''1'', fr_config_id = ''c'', fr_fingerprint = ''f'', fr_created_at = 8\<rparr>,
      \<lparr>fr_id = ''2'', fr_config_id = ''c'', fr_fingerprint = ''f'', fr_created_at = 9\<rparr>]))"
    by (auto simp: cache_get_def)
  then show ?thesis by (simp add: fingerprint_key_def)
qed

end
