(* ===== verification/Model_Labels.thy ===== *)
theory Model_Labels
  imports Label_Set "HOL-Library.AList" "HOL-Library.Product_Lexorder"
begin

section \<open>Labels shown for a resource\<close>

text \<open>
  \<^verbatim>\<open>models/labels.go\<close>: the tags of a resource, without those whose value is a prefix of another tag's
  value, and the labels a whitelist admits, sorted by a configured order. The code fills slices by
  ranging over maps and sorts them with an unstable sort; the maps are association lists, the range
  over the trimmed labels and the two sorts are parameters. The property listener that replaces the two
  defaults is not modelled.
\<close>

subsection \<open>The code\<close>

record label =
  lb_key :: string
  lb_value :: string

definition label_of :: "string \<times> string \<Rightarrow> label" where
  "label_of kv = \<lparr>lb_key = fst kv, lb_value = snd kv\<rparr>"

text \<open>\<open>TrimLabels\<close>: the first key of each group that the labels have.\<close>

definition group_match :: "label_set \<Rightarrow> string \<Rightarrow> string option" where
  "group_match labels members =
     find (\<lambda>key. map_of labels key \<noteq> None) (map trim_space (split_char (CHR ''|'') members))"

definition trim_labels :: "string \<Rightarrow> label_set \<Rightarrow> label_set" where
  "trim_labels whitelist labels =
     foldl (\<lambda>matched members. case group_match labels members of
              None \<Rightarrow> matched | Some key \<Rightarrow> AList.update key (the (map_of labels key)) matched)
       [] (split_char (CHR '';'') whitelist)"

definition longer_value :: "label \<Rightarrow> label \<Rightarrow> bool" where
  "longer_value a b \<longleftrightarrow>
     (if length (lb_value a) = length (lb_value b) then lb_key a < lb_key b
      else length (lb_value a) > length (lb_value b))"

text \<open>The marks the double loop leaves after its first \<open>n\<close> rounds.\<close>

definition skip_round :: "label list \<Rightarrow> nat \<Rightarrow> nat set \<Rightarrow> nat set" where
  "skip_round labels i skip =
     (if i \<in> skip then skip
      else skip \<union> set (filter (\<lambda>j. has_prefix (lb_value (labels ! j)) (lb_value (labels ! i))) [Suc i..<length labels]))"

definition labels_to_skip :: "label list \<Rightarrow> nat \<Rightarrow> nat set" where
  "labels_to_skip labels n = foldl (\<lambda>skip i. skip_round labels i skip) {} [0..<n]"

definition dedup_by_value_prefix :: "(label list \<Rightarrow> label list) \<Rightarrow> label list \<Rightarrow> label list" where
  "dedup_by_value_prefix srt labels =
     (if length labels \<le> 1 then labels
      else (let labels = srt labels; skip = labels_to_skip labels (length labels) in
            map (\<lambda>i. labels ! i) (filter (\<lambda>i. i \<notin> skip) [0..<length labels])))"

text \<open>\<open>lo.UniqBy\<close> on the key keeps the first of each, \<open>lo.IndexOf\<close> is -1 for a missing element.\<close>

fun uniq_by_key :: "string list \<Rightarrow> label list \<Rightarrow> label list" where
  "uniq_by_key seen [] = []"
| "uniq_by_key seen (l # ls) =
     (if lb_key l \<in> set seen then uniq_by_key seen ls else l # uniq_by_key (lb_key l # seen) ls)"

fun index_of :: "string list \<Rightarrow> string \<Rightarrow> int" where
  "index_of [] x = - 1"
| "index_of (y # ys) x = (if y = x then 0 else if index_of ys x = - 1 then - 1 else index_of ys x + 1)"

definition listed_before :: "string list \<Rightarrow> label \<Rightarrow> label \<Rightarrow> bool" where
  "listed_before order_list a b =
     (let i = index_of order_list (lb_key a); j = index_of order_list (lb_key b) in
      if i = - 1 \<and> j = - 1 then lb_key a < lb_key b
      else if i = - 1 then False
      else if j = - 1 then True
      else i < j)"

definition sorted_trimmed_labels ::
  "(label list \<Rightarrow> label list) \<Rightarrow> (label list \<Rightarrow> label list) \<Rightarrow> (label_set \<Rightarrow> label_set)
   \<Rightarrow> string \<Rightarrow> string \<Rightarrow> label_set \<Rightarrow> label_set \<Rightarrow> label list" where
  "sorted_trimmed_labels srt_value srt_listed range_order whitelist order tags labels =
     (let output = dedup_by_value_prefix srt_value (map label_of tags);
          trimmed = trim_labels whitelist labels;
          output = uniq_by_key [] (output @ map label_of (range_order trimmed))
      in srt_listed output)"

subsection \<open>The two orders\<close>

definition value_rank :: "label \<Rightarrow> int \<times> string" where
  "value_rank l = (- int (length (lb_value l)), lb_key l)"

definition listed_rank :: "string list \<Rightarrow> label \<Rightarrow> int \<times> int \<times> string" where
  "listed_rank order_list l = (let i = index_of order_list (lb_key l) in if i = - 1 then (1, 0, lb_key l) else (0, i, []))"

lemma longer_value_rank: "longer_value a b \<longleftrightarrow> value_rank a < value_rank b"
  by (auto simp: longer_value_def value_rank_def less_prod_simp)

lemma index_of_range: "index_of xs x \<ge> - 1"
  by (induction xs) (auto)

lemma index_of_inj: "index_of xs x = index_of xs y \<Longrightarrow> index_of xs x \<noteq> - 1 \<Longrightarrow> x = y"
proof (induction xs)
  case (Cons z xs)
  show ?case using Cons index_of_range [of xs x] index_of_range [of xs y] by (auto split: if_splits)
qed simp

lemma listed_before_rank: "listed_before ord a b \<longleftrightarrow> listed_rank ord a < listed_rank ord b"
  by (auto simp: listed_before_def listed_rank_def Let_def less_prod_simp)

lemma listed_rank_inj: "listed_rank ord a = listed_rank ord b \<Longrightarrow> lb_key a = lb_key b"
  by (auto simp: listed_rank_def Let_def split: if_splits intro: index_of_inj)

lemma distinct_listed_rank: "distinct (map lb_key ls) \<Longrightarrow> distinct (map (listed_rank ord) ls)"
proof (induction ls)
  case (Cons l ls)
  have "listed_rank ord l \<noteq> listed_rank ord x" if "x \<in> set ls" for x
    using Cons.prems that listed_rank_inj [of ord l x] by (auto simp: image_iff)
  then show ?case using Cons by auto
qed simp

lemma sorted_strictly:
  assumes "sorts_by key srt" "distinct (map key xs)"
  shows "sorted_wrt (\<lambda>a b. key a < key b) (srt xs) \<and> set (srt xs) = set xs"
proof -
  have ms: "mset (srt xs) = mset xs" and so: "sorted (map key (srt xs))" using assms(1) by (auto simp: sorts_by_def)
  have "mset (map key (srt xs)) = mset (map key xs)" using ms by simp
  then have "distinct (map key (srt xs))" using assms(2) by (metis mset_eq_imp_distinct_iff)
  then have "sorted_wrt (<) (map key (srt xs))" using so by (simp add: strict_sorted_iff)
  then show ?thesis using ms by (metis sorted_wrt_map set_mset_mset)
qed

subsection \<open>The marks\<close>

lemma has_prefix_trans: "has_prefix a b \<Longrightarrow> has_prefix b c \<Longrightarrow> has_prefix a c"
  by (auto simp: has_prefix_iff)

lemma labels_to_skip_eq:
  "n \<le> length ls \<Longrightarrow> labels_to_skip ls n =
    {j. j < length ls \<and> (\<exists>i < n. i < j \<and> has_prefix (lb_value (ls ! j)) (lb_value (ls ! i)))}"
proof (induction n)
  case 0
  then show ?case by (simp add: labels_to_skip_def)
next
  case (Suc n)
  have step: "labels_to_skip ls (Suc n) = skip_round ls n (labels_to_skip ls n)"
    by (simp add: labels_to_skip_def)
  show ?case
  proof (cases "n \<in> labels_to_skip ls n")
    case True
    then obtain i where i: "i < n" "has_prefix (lb_value (ls ! n)) (lb_value (ls ! i))" using Suc by auto
    then have "\<exists>i < n. i < j \<and> has_prefix (lb_value (ls ! j)) (lb_value (ls ! i))"
      if "n < j" "has_prefix (lb_value (ls ! j)) (lb_value (ls ! n))" for j
      using that has_prefix_trans [of "lb_value (ls ! j)" "lb_value (ls ! n)" "lb_value (ls ! i)"] by (intro exI [of _ i]) auto
    then show ?thesis using True Suc step by (auto simp: skip_round_def less_Suc_eq)
  next
    case False
    then show ?thesis using Suc step by (auto simp: skip_round_def less_Suc_eq)
  qed
qed

text \<open>The tags that stay: no other tag has a longer value that starts with theirs, and of the tags with
  the same value the first by key.\<close>

definition kept_tag :: "label_set \<Rightarrow> label \<Rightarrow> bool" where
  "kept_tag tags l \<longleftrightarrow> (lb_key l, lb_value l) \<in> set tags \<and>
     \<not> (\<exists>(k, v) \<in> set tags. has_prefix (lb_value l) v \<and> (length v > length (lb_value l) \<or> (v = lb_value l \<and> k < lb_key l)))"

lemma label_of_simps [simp]: "lb_key (label_of kv) = fst kv" "lb_value (label_of kv) = snd kv"
  by (simp_all add: label_of_def)

lemma in_label_of: "l \<in> set (map label_of m) \<longleftrightarrow> (lb_key l, lb_value l) \<in> set m"
  by (force simp: label_of_def)

lemma longer_iff:
  "value_rank l' < value_rank l \<and> has_prefix (lb_value l) (lb_value l') \<longleftrightarrow>
   has_prefix (lb_value l) (lb_value l') \<and>
     (length (lb_value l') > length (lb_value l) \<or> (lb_value l' = lb_value l \<and> lb_key l' < lb_key l))"
proof (cases "has_prefix (lb_value l) (lb_value l')")
  case True
  then obtain t where t: "lb_value l' = lb_value l @ t" by (auto simp: has_prefix_iff)
  show ?thesis using True t by (cases "t = []") (simp_all add: value_rank_def less_prod_simp)
qed simp

lemma dedup_set:
  assumes srt: "sorts_by value_rank srt" and ok: "gomap_ok tags"
  shows "set (dedup_by_value_prefix srt (map label_of tags)) = {l. kept_tag tags l}
    \<and> distinct (map lb_key (dedup_by_value_prefix srt (map label_of tags)))"
proof (cases "length tags \<le> 1")
  case True
  then consider "tags = []" | k v where "tags = [(k, v)]" by (cases tags) auto
  then show ?thesis
    by cases (auto simp: dedup_by_value_prefix_def kept_tag_def label_of_def)
next
  case False
  let ?ls = "srt (map label_of tags)" and ?n = "length (srt (map label_of tags))"
  have keys: "distinct (map lb_key (map label_of tags))" using ok by (simp add: gomap_ok_def comp_def)
  then have ranks: "distinct (map value_rank (map label_of tags))"
  proof -
    have "map lb_key (map label_of tags) = map snd (map value_rank (map label_of tags))"
      by (simp add: value_rank_def)
    then show ?thesis using keys by (metis distinct_map)
  qed
  have strict: "sorted_wrt (\<lambda>a b. value_rank a < value_rank b) ?ls" and elems: "set ?ls = set (map label_of tags)"
    using sorted_strictly [OF srt ranks] by auto
  have "mset ?ls = mset (map label_of tags)" using srt by (simp add: sorts_by_def)
  then have "mset (map lb_key ?ls) = mset (map lb_key (map label_of tags))" by (metis mset_map)
  then have dist: "distinct (map lb_key ?ls)" using keys by (metis mset_eq_imp_distinct_iff)
  have before: "i < j \<longleftrightarrow> value_rank (?ls ! i) < value_rank (?ls ! j)" if "i < ?n" "j < ?n" for i j
  proof (cases i j rule: linorder_cases)
    case less
    then show ?thesis using strict that by (simp add: sorted_wrt_iff_nth_less)
  next
    case greater
    then show ?thesis using strict that by (auto simp: sorted_wrt_iff_nth_less dest: less_asym)
  qed simp
  let ?keep = "filter (\<lambda>i. i \<notin> labels_to_skip ?ls ?n) [0..<?n]"
  have res: "dedup_by_value_prefix srt (map label_of tags) = map (\<lambda>i. ?ls ! i) ?keep"
    using False by (simp add: dedup_by_value_prefix_def Let_def)
  have keep: "j \<in> set ?keep \<longleftrightarrow> kept_tag tags (?ls ! j)" if j: "j < ?n" for j
  proof -
    have "j \<in> set ?keep \<longleftrightarrow> \<not> (\<exists>i < ?n. i < j \<and> has_prefix (lb_value (?ls ! j)) (lb_value (?ls ! i)))"
      using j by (auto simp: labels_to_skip_eq)
    also have "\<dots> \<longleftrightarrow> \<not> (\<exists>i < ?n. value_rank (?ls ! i) < value_rank (?ls ! j) \<and> has_prefix (lb_value (?ls ! j)) (lb_value (?ls ! i)))"
      using before [OF _ j] by auto
    also have "\<dots> \<longleftrightarrow> \<not> (\<exists>l \<in> set ?ls. value_rank l < value_rank (?ls ! j) \<and> has_prefix (lb_value (?ls ! j)) (lb_value l))"
      by (metis in_set_conv_nth)
    also have "\<dots> \<longleftrightarrow> \<not> (\<exists>kv \<in> set tags. value_rank (label_of kv) < value_rank (?ls ! j) \<and> has_prefix (lb_value (?ls ! j)) (lb_value (label_of kv)))"
      unfolding elems by simp
    also have "\<dots> \<longleftrightarrow> kept_tag tags (?ls ! j)"
    proof -
      have "?ls ! j \<in> set (map label_of tags)" using j elems by (metis nth_mem)
      then have "(lb_key (?ls ! j), lb_value (?ls ! j)) \<in> set tags" by (simp only: in_label_of)
      then show ?thesis unfolding longer_iff kept_tag_def by auto
    qed
    finally show ?thesis .
  qed
  have "l \<in> set (map (\<lambda>i. ?ls ! i) ?keep) \<longleftrightarrow> kept_tag tags l" for l
  proof
    assume "l \<in> set (map (\<lambda>i. ?ls ! i) ?keep)"
    then obtain j where "j \<in> set ?keep" "l = ?ls ! j" by auto
    then show "kept_tag tags l" using keep [of j] by simp
  next
    assume k: "kept_tag tags l"
    then have "l \<in> set ?ls" unfolding elems in_label_of by (simp add: kept_tag_def)
    then obtain j where "j < ?n" "l = ?ls ! j" by (metis in_set_conv_nth)
    then show "l \<in> set (map (\<lambda>i. ?ls ! i) ?keep)" using keep [of j] k by auto
  qed
  moreover have "distinct (map lb_key (map (\<lambda>i. ?ls ! i) ?keep))"
  proof -
    have "lb_key (?ls ! i) = lb_key (?ls ! j) \<Longrightarrow> i = j" if "i < ?n" "j < ?n" for i j
      using dist that by (simp add: distinct_conv_nth) blast
    then have "inj_on (\<lambda>i. lb_key (?ls ! i)) (set ?keep)" by (auto simp: inj_on_def)
    then show ?thesis by (simp add: distinct_map comp_def)
  qed
  ultimately show ?thesis unfolding res by auto
qed

subsection \<open>The whole list\<close>

lemma uniq_seen_cong: "set s = set t \<Longrightarrow> uniq_by_key s ls = uniq_by_key t ls"
proof (induction ls arbitrary: s t)
  case (Cons l ls)
  have "uniq_by_key s ls = uniq_by_key t ls" "uniq_by_key (lb_key l # s) ls = uniq_by_key (lb_key l # t) ls"
    using Cons.prems by (auto intro!: Cons.IH simp del: set_eq_subset)
  then show ?case using Cons.prems by simp
qed simp

lemma uniq_by_key_append:
  "uniq_by_key seen (xs @ ys) = uniq_by_key seen xs @ uniq_by_key (rev (map lb_key xs) @ seen) ys"
proof (induction xs arbitrary: seen)
  case (Cons x xs)
  have "uniq_by_key (rev (map lb_key xs) @ seen) ys = uniq_by_key (rev (map lb_key xs) @ lb_key x # seen) ys"
    if "lb_key x \<in> set seen"
    using that by (intro uniq_seen_cong) auto
  then show ?case using Cons by auto
qed simp

lemma uniq_by_key_distinct:
  "distinct (map lb_key ls) \<Longrightarrow> uniq_by_key seen ls = filter (\<lambda>l. lb_key l \<notin> set seen) ls"
proof (induction ls arbitrary: seen)
  case (Cons l ls)
  then have "filter (\<lambda>x. lb_key x \<notin> set (lb_key l # seen)) ls = filter (\<lambda>x. lb_key x \<notin> set seen) ls"
    by (intro filter_cong) (auto simp: image_iff)
  moreover have "lb_key l \<notin> set seen \<Longrightarrow> uniq_by_key seen (l # ls) = l # filter (\<lambda>x. lb_key x \<notin> set (lb_key l # seen)) ls"
    using Cons by simp
  ultimately show ?case using Cons by simp
qed simp

lemma uniq_two:
  assumes "distinct (map lb_key xs)" "distinct (map lb_key ys)"
  shows "uniq_by_key [] (xs @ ys) = xs @ filter (\<lambda>l. lb_key l \<notin> lb_key ` set xs) ys"
  using assms by (simp add: uniq_by_key_append uniq_by_key_distinct)

lemma distinct_two:
  "distinct (map f xs) \<Longrightarrow> distinct (map f ys) \<Longrightarrow> distinct (map f (xs @ filter (\<lambda>l. f l \<notin> f ` set xs) ys))"
  by (auto simp: distinct_map_filter image_iff)

lemma group_match_present:
  "group_match labels members = Some k \<Longrightarrow> map_of labels k \<noteq> None"
  by (auto simp: group_match_def find_Some_iff)

lemma trim_labels_lookup:
  "map_of (trim_labels whitelist labels) k =
     (if \<exists>members \<in> set (split_char (CHR '';'') whitelist). group_match labels members = Some k
      then map_of labels k else None)
   \<and> distinct (map fst (trim_labels whitelist labels))"
proof -
  let ?f = "\<lambda>matched members. case group_match labels members of
      None \<Rightarrow> matched | Some key \<Rightarrow> AList.update key (the (map_of labels key)) matched"
  have "map_of (foldl ?f m gs) k = (if \<exists>g \<in> set gs. group_match labels g = Some k then map_of labels k else map_of m k)
      \<and> distinct (map fst (foldl ?f m gs))" if "distinct (map fst m)" for m gs
    using that
  proof (induction gs arbitrary: m)
    case (Cons g gs)
    show ?case
    proof (cases "group_match labels g")
      case None
      then show ?thesis using Cons.IH [OF Cons.prems] by simp
    next
      case (Some key)
      then obtain v where v: "map_of labels key = Some v" using group_match_present by blast
      have "distinct (map fst (AList.update key v m))" using Cons.prems by (rule distinct_update)
      from Cons.IH [OF this] show ?thesis using Some v by (simp add: update_conv')
    qed
  qed simp
  from this [of "[]"] show ?thesis by (simp add: trim_labels_def)
qed

text \<open>The labels shown for a resource do not depend on the order maps are iterated in or on how ties
  are sorted: the list is strictly sorted by the configured order and holds exactly the tags that are
  not covered by a longer one and, for keys that are not such tags, the first label of each group
  of the whitelist. This determines the list.\<close>
theorem sorted_trimmed_labels_correct:
  assumes "sorts_less longer_value srt_value" "sorts_less (listed_before (split_char (CHR '';'') listing)) srt_listed"
    and "\<forall>m. mset (range_order m) = mset m" "gomap_ok tags"
  shows "sorted_wrt (listed_before (split_char (CHR '';'') listing))
      (sorted_trimmed_labels srt_value srt_listed range_order whitelist listing tags labels)
   \<and> set (sorted_trimmed_labels srt_value srt_listed range_order whitelist listing tags labels) =
       {l. kept_tag tags l}
       \<union> {l. (\<exists>members \<in> set (split_char (CHR '';'') whitelist). group_match labels members = Some (lb_key l))
            \<and> map_of labels (lb_key l) = Some (lb_value l) \<and> (\<nexists>v. kept_tag tags \<lparr>lb_key = lb_key l, lb_value = v\<rparr>)}"
proof -
  let ?ord = "split_char (CHR '';'') listing" and ?t = "range_order (trim_labels whitelist labels)"
  let ?kept = "dedup_by_value_prefix srt_value (map label_of tags)"
  let ?out = "uniq_by_key [] (?kept @ map label_of ?t)"
  have sv: "sorts_by value_rank srt_value" using assms(1) longer_value_rank by (simp add: sorts_less_key)
  have sl: "sorts_by (listed_rank ?ord) srt_listed"
    using assms(2) sorts_less_key [where lt = "listed_before ?ord" and key = "listed_rank ?ord", OF listed_before_rank] by blast
  note kept = dedup_set [OF sv assms(4)]
  have tr: "set ?t = set (trim_labels whitelist labels)" using assms(3) by (metis set_mset_mset)
  have "mset (map fst ?t) = mset (map fst (trim_labels whitelist labels))" using assms(3) by (metis mset_map)
  then have "distinct (map fst ?t)" using trim_labels_lookup by (metis mset_eq_imp_distinct_iff)
  then have td: "distinct (map lb_key (map label_of ?t))" by (simp add: comp_def)
  have out: "?out = ?kept @ filter (\<lambda>l. lb_key l \<notin> lb_key ` set ?kept) (map label_of ?t)"
    using kept td by (intro uniq_two) blast+
  have "distinct (map lb_key ?out)" unfolding out using kept td by (intro distinct_two) blast+
  then have "distinct (map (listed_rank ?ord) ?out)"
    by (rule distinct_listed_rank)
  from sorted_strictly [OF sl this]
  have res: "sorted_wrt (\<lambda>a b. listed_rank ?ord a < listed_rank ?ord b) (srt_listed ?out) \<and> set (srt_listed ?out) = set ?out" .
  have def: "sorted_trimmed_labels srt_value srt_listed range_order whitelist listing tags labels = srt_listed ?out"
    by (simp add: sorted_trimmed_labels_def Let_def)
  have trl: "l \<in> set (map label_of ?t) \<longleftrightarrow> (\<exists>members \<in> set (split_char (CHR '';'') whitelist).
      group_match labels members = Some (lb_key l)) \<and> map_of labels (lb_key l) = Some (lb_value l)" for l
  proof -
    have "l \<in> set (map label_of ?t) \<longleftrightarrow> map_of (trim_labels whitelist labels) (lb_key l) = Some (lb_value l)"
      unfolding in_label_of tr using trim_labels_lookup by (metis map_of_eq_Some_iff)
    then show ?thesis by (simp add: trim_labels_lookup)
  qed
  have nokey: "lb_key l \<notin> lb_key ` set ?kept \<longleftrightarrow> (\<nexists>v. kept_tag tags \<lparr>lb_key = lb_key l, lb_value = v\<rparr>)" for l
  proof -
    have "lb_key l \<in> lb_key ` {l. kept_tag tags l} \<longleftrightarrow> (\<exists>v. kept_tag tags \<lparr>lb_key = lb_key l, lb_value = v\<rparr>)"
    proof
      assume "lb_key l \<in> lb_key ` {l. kept_tag tags l}"
      then obtain x where "kept_tag tags x" "lb_key x = lb_key l" by auto
      then have "kept_tag tags \<lparr>lb_key = lb_key l, lb_value = lb_value x\<rparr>" by (simp add: kept_tag_def)
      then show "\<exists>v. kept_tag tags \<lparr>lb_key = lb_key l, lb_value = v\<rparr>" by blast
    qed (force simp: image_iff)
    then show ?thesis using kept by simp
  qed
  have "set ?out = {l. kept_tag tags l} \<union> {l \<in> set (map label_of ?t). lb_key l \<notin> lb_key ` set ?kept}"
    unfolding out using kept by auto
  then have "set ?out = {l. kept_tag tags l}
       \<union> {l. (\<exists>members \<in> set (split_char (CHR '';'') whitelist). group_match labels members = Some (lb_key l))
            \<and> map_of labels (lb_key l) = Some (lb_value l) \<and> (\<nexists>v. kept_tag tags \<lparr>lb_key = lb_key l, lb_value = v\<rparr>)}"
    by (simp only: trl nokey conj_assoc)
  moreover have "listed_before ?ord = (\<lambda>a b. listed_rank ?ord a < listed_rank ?ord b)"
    by (intro ext) (rule listed_before_rank)
  ultimately show ?thesis unfolding def using res by (metis (no_types))
qed

theorem sorted_trimmed_labels_correct_witness:
  "sorted_wrt (listed_before [''zone''])
      (sorted_trimmed_labels (sort_key value_rank) (sort_key (listed_rank [''zone''])) id ''app'' ''zone''
        [(''region'', ''eu''), (''zone'', ''eu-1'')] [(''app'', ''web'')])
   \<and> \<lparr>lb_key = ''app'', lb_value = ''web''\<rparr> \<in> set (sorted_trimmed_labels (sort_key value_rank) (sort_key (listed_rank [''zone''])) id ''app'' ''zone''
        [(''region'', ''eu''), (''zone'', ''eu-1'')] [(''app'', ''web'')])
   \<and> \<lparr>lb_key = ''region'', lb_value = ''eu''\<rparr> \<notin> set (sorted_trimmed_labels (sort_key value_rank) (sort_key (listed_rank [''zone''])) id ''app'' ''zone''
        [(''region'', ''eu''), (''zone'', ''eu-1'')] [(''app'', ''web'')])"
proof -
  have s: "split_char (CHR '';'') ''zone'' = [''zone'']" "split_char (CHR '';'') ''app'' = [''app'']"
    "split_char (CHR ''|'') ''app'' = [''app'']" by simp_all
  have one: "sorts_less longer_value (sort_key value_rank)"
    unfolding sorts_less_key [where lt = longer_value and key = value_rank, OF longer_value_rank] by (rule sorts_by_sort_key)
  have two: "sorts_less (listed_before (split_char (CHR '';'') ''zone'')) (sort_key (listed_rank [''zone'']))"
    unfolding s(1) sorts_less_key [where lt = "listed_before [''zone'']" and key = "listed_rank [''zone'']", OF listed_before_rank]
    by (rule sorts_by_sort_key)
  have tags: "gomap_ok [(''region'', ''eu''), (''zone'', ''eu-1'')]" by simp
  have match: "group_match [(''app'', ''web'')] ''app'' = Some ''app''"
    by (simp add: group_match_def s trim_where_def is_space_def)
  show ?thesis
    using sorted_trimmed_labels_correct [OF one two _ tags, of id "''app''" "[(''app'', ''web'')]"]
    unfolding s by (simp add: match kept_tag_def)
qed

end
