(* ===== verification/Context_Properties.thy ===== *)
theory Context_Properties
  imports Label_Set "HOL-Library.AList"
begin

section \<open>Properties of a context\<close>

text \<open>
  \<^verbatim>\<open>context/properties.go\<close>: a property is looked up in the process wide store (command line and
  environment), then in the annotations of the objects of the context from the innermost outwards,
  then in the rows of the database. The store belongs to a third-party package and is an argument,
  \<open>cli\<close>, as are the rows, the outcome of a write and the parsers of durations and log levels. Maps
  that the code ranges over are association lists. What the getters record about the properties
  they were asked for is only shown to users and is not modelled.
\<close>

subsection \<open>Lookup\<close>

datatype hprops = HProps (hp_local: label_set) (hp_parent: "hprops option") (hp_global: label_set)

text \<open>\<open>properties.Get\<close> is the empty text for a key that is not set.\<close>

definition cli_get :: "label_set \<Rightarrow> string \<Rightarrow> string" where
  "cli_get cli key = (case map_of cli key of Some v \<Rightarrow> v | None \<Rightarrow> [])"

fun hierarchy_lookup :: "hprops \<Rightarrow> string \<Rightarrow> string option" where
  "hierarchy_lookup (HProps l None g) key = (case map_of l key of Some v \<Rightarrow> Some v | None \<Rightarrow> map_of g key)"
| "hierarchy_lookup (HProps l (Some p) g) key = (case map_of l key of Some v \<Rightarrow> Some v | None \<Rightarrow> hierarchy_lookup p key)"

text \<open>The code consults the store again at every level of the chain, with the same result.\<close>

fun get_property :: "label_set \<Rightarrow> hprops \<Rightarrow> string \<Rightarrow> string option" where
  "get_property cli (HProps l p g) key =
     (if cli_get cli key \<noteq> [] then Some (cli_get cli key)
      else case map_of l key of
        Some v \<Rightarrow> Some v
      | None \<Rightarrow> (case p of Some q \<Rightarrow> get_property cli q key | None \<Rightarrow> map_of g key))"

definition truthy :: "string \<Rightarrow> bool" where
  "truthy k \<longleftrightarrow> k = ''true'' \<or> k = ''enabled'' \<or> k = ''on''"

text \<open>\<open>On\<close> stops at the first of its keys that is set.\<close>

fun prop_on :: "label_set \<Rightarrow> hprops \<Rightarrow> bool \<Rightarrow> string list \<Rightarrow> bool" where
  "prop_on cli h def [] = def"
| "prop_on cli h def (key # keys) =
     (case get_property cli h key of Some k \<Rightarrow> truthy k | None \<Rightarrow> prop_on cli h def keys)"

definition prop_off :: "label_set \<Rightarrow> hprops \<Rightarrow> string \<Rightarrow> bool \<Rightarrow> bool" where
  "prop_off cli h key def =
     (case get_property cli h key of Some k \<Rightarrow> k = ''false'' \<or> k = ''disabled'' \<or> k = ''off'' | None \<Rightarrow> def)"

definition prop_string :: "label_set \<Rightarrow> hprops \<Rightarrow> string \<Rightarrow> string \<Rightarrow> string" where
  "prop_string cli h key def = (case get_property cli h key of Some d \<Rightarrow> d | None \<Rightarrow> def)"

definition prop_int :: "label_set \<Rightarrow> hprops \<Rightarrow> string \<Rightarrow> int \<Rightarrow> int" where
  "prop_int cli h key def =
     (case get_property cli h key of
        None \<Rightarrow> def
      | Some v \<Rightarrow> (case parse_int64 v of Some i \<Rightarrow> i | None \<Rightarrow> def))"

definition prop_duration :: "label_set \<Rightarrow> hprops \<Rightarrow> (string \<Rightarrow> int option) \<Rightarrow> string \<Rightarrow> int \<Rightarrow> int" where
  "prop_duration cli h parse_duration key def =
     (case get_property cli h key of
        None \<Rightarrow> def
      | Some d \<Rightarrow> (case parse_duration d of Some dur \<Rightarrow> dur | None \<Rightarrow> def))"

subsection \<open>All properties with a prefix\<close>

definition put_stripped :: "string \<Rightarrow> label_set \<Rightarrow> label_set \<Rightarrow> label_set" where
  "put_stripped prefix out m =
     foldl (\<lambda>out (k, v). if has_prefix prefix k then AList.update (drop (length prefix) k) v out else out) out m"

fun prop_chain :: "hprops \<Rightarrow> hprops list" where
  "prop_chain (HProps l None g) = [HProps l None g]"
| "prop_chain (HProps l (Some p) g) = HProps l (Some p) g # prop_chain p"

definition with_prefix :: "label_set \<Rightarrow> hprops \<Rightarrow> string \<Rightarrow> label_set" where
  "with_prefix cli h prefix =
     (let out = put_stripped prefix [] (hp_global h);
          out = foldl (\<lambda>out n. put_stripped prefix out (hp_local n)) out (rev (prop_chain h))
      in put_stripped prefix out cli)"

subsection \<open>The properties of the objects of a context\<close>

record object_meta =
  om_namespace :: string
  om_name :: string
  om_annotations :: label_set

definition annotation_prefixes :: "string list" where
  "annotation_prefixes = [[], ''mission-control/'', ''canary-checker/'']"

fun annotation_value_loop :: "label_set \<Rightarrow> string \<Rightarrow> string list \<Rightarrow> string" where
  "annotation_value_loop annotations key [] = []"
| "annotation_value_loop annotations key (prefix # prefixes) =
     (case map_of annotations (prefix @ key) of
        Some v \<Rightarrow> v | None \<Rightarrow> annotation_value_loop annotations key prefixes)"

definition annotation_value :: "label_set \<Rightarrow> string \<Rightarrow> string" where
  "annotation_value annotations key = annotation_value_loop annotations key annotation_prefixes"

definition extract_annotations :: "label_set \<Rightarrow> label_set" where
  "extract_annotations annotations =
     foldl (\<lambda>out (key, val).
       foldl (\<lambda>out prefix.
           if prefix = [] then out
           else if has_prefix prefix key then AList.update (drop (length prefix) key) val out else out)
         out annotation_prefixes) [] annotations"

text \<open>The cache of the package: the global properties, and the hierarchy of a list of objects under
  their names.\<close>

record property_cache =
  pc_global :: "label_set option"
  pc_hierarchies :: "(string \<times> hprops) list"

definition empty_cache :: property_cache where
  "empty_cache = \<lparr>pc_global = None, pc_hierarchies = []\<rparr>"

definition global_properties :: "label_set \<Rightarrow> string + label_set \<Rightarrow> property_cache \<Rightarrow> label_set \<times> property_cache" where
  "global_properties cli rows cache =
     (case pc_global cache of
        Some g \<Rightarrow> (g, cache)
      | None \<Rightarrow>
          (case rows of
             Inl e \<Rightarrow> ([], cache)
           | Inr rs \<Rightarrow> (let props = merge_maps (merge_maps [] rs) cli in (props, cache\<lparr>pc_global := Some props\<rparr>))))"

fun build_chain :: "hprops \<Rightarrow> object_meta list \<Rightarrow> hprops \<times> string list" where
  "build_chain current [] = (current, [])"
| "build_chain current (meta # objects) =
     (let local = extract_annotations (om_annotations meta) in
      if length local = 0 then build_chain current objects
      else (case build_chain (HProps local (Some current) []) objects of
              (h, parts) \<Rightarrow> (h, (om_namespace meta @ ''/'' @ om_name meta) # parts)))"

definition context_properties ::
  "label_set \<Rightarrow> string + label_set \<Rightarrow> object_meta list \<Rightarrow> property_cache \<Rightarrow> hprops \<times> property_cache" where
  "context_properties cli rows objects cache =
     (case global_properties cli rows cache of
        (global, cache) \<Rightarrow>
          (case build_chain (HProps [] None global) objects of
             (current, parts) \<Rightarrow>
               if length parts = 0 then (HProps [] None global, cache)
               else (let key = ''properties/'' @ join '','' parts in
                     case map_of (pc_hierarchies cache) key of
                       Some h \<Rightarrow> (h, cache)
                     | None \<Rightarrow> (current, cache\<lparr>pc_hierarchies := AList.update key current (pc_hierarchies cache)\<rparr>))))"

text \<open>Writing: an upsert of the rows, after which the cache is dropped whatever its outcome.\<close>

definition update_property ::
  "string option \<Rightarrow> string \<Rightarrow> string \<Rightarrow> label_set \<Rightarrow> property_cache \<Rightarrow> string option \<times> label_set \<times> property_cache" where
  "update_property exec key value rows cache =
     (case exec of
        Some e \<Rightarrow> (Some e, rows, empty_cache)
      | None \<Rightarrow> (None, AList.update key value rows, empty_cache))"

definition update_properties ::
  "string option \<Rightarrow> label_set \<Rightarrow> label_set \<Rightarrow> property_cache \<Rightarrow> string option \<times> label_set \<times> property_cache" where
  "update_properties exec props rows cache =
     (if length props = 0 then (None, rows, cache)
      else (case exec of
              Some e \<Rightarrow> (Some e, rows, empty_cache)
            | None \<Rightarrow> (None, merge_maps rows props, empty_cache)))"

subsection \<open>The log level of a feature\<close>

text \<open>The levels of the logger package, of which the code uses four, and its parser of level names.\<close>

record log_levels =
  ll_silent :: int
  ll_info :: int
  ll_debug :: int
  ll_trace :: int
  ll_parse :: "string \<Rightarrow> int"

definition normalize_feature_level :: "log_levels \<Rightarrow> int \<Rightarrow> int" where
  "normalize_feature_level ll level = (if level = ll_silent ll \<or> level < ll_info ll then ll_info ll else level)"

definition max_level :: "log_levels \<Rightarrow> int \<Rightarrow> int \<Rightarrow> int" where
  "max_level ll a b =
     (let a = normalize_feature_level ll a; b = normalize_feature_level ll b in if a > b then a else b)"

definition feature_level_keys :: "string \<Rightarrow> string list" where
  "feature_level_keys feature =
     (if feature = ''http'' then []
      else if feature = ''kubernetes'' then [''kubernetes'', ''kubectl'', ''k8s'']
      else [feature])"

definition raise_level :: "log_levels \<Rightarrow> int \<times> string \<Rightarrow> int \<times> string \<Rightarrow> int \<times> string" where
  "raise_level ll cand s =
     (let candidate = normalize_feature_level ll (fst cand) in
      if candidate > fst s then (candidate, snd cand) else s)"

definition raise_by_property :: "log_levels \<Rightarrow> label_set \<Rightarrow> hprops \<Rightarrow> string \<Rightarrow> int \<times> string \<Rightarrow> int \<times> string" where
  "raise_by_property ll cli props key s =
     (let v = prop_string cli props key [] in if v \<noteq> [] then raise_level ll (ll_parse ll v, key) s else s)"

definition raise_by_annotation :: "log_levels \<Rightarrow> object_meta list \<Rightarrow> string \<Rightarrow> int \<times> string \<Rightarrow> int \<times> string" where
  "raise_by_annotation ll objects key s =
     foldl (\<lambda>s o'.
       if length (om_annotations o') = 0 then s
       else (let v = annotation_value (om_annotations o') key in
             if v \<noteq> [] then raise_level ll (ll_parse ll v, ''annotation:'' @ key) s else s)) s objects"

definition raise_by_flags :: "log_levels \<Rightarrow> object_meta list \<Rightarrow> int \<times> string \<Rightarrow> int \<times> string" where
  "raise_by_flags ll objects s =
     foldl (\<lambda>s o'.
       if length (om_annotations o') = 0 then s
       else if annotation_value (om_annotations o') ''trace'' = ''true'' then raise_level ll (ll_trace ll, ''annotation:trace'') s
       else if annotation_value (om_annotations o') ''debug'' = ''true'' then raise_level ll (ll_debug ll, ''annotation:debug'') s
       else s) s objects"

definition feature_of :: "string \<Rightarrow> string" where
  "feature_of feature = (let f = trim_space (to_lower feature) in if f = [] then ''http'' else f)"

definition effective_level ::
  "log_levels \<Rightarrow> int option \<Rightarrow> int option \<Rightarrow> label_set \<Rightarrow> hprops \<Rightarrow> object_meta list \<Rightarrow> string \<Rightarrow> bool \<Rightarrow> int \<times> string" where
  "effective_level ll context_level standard_level cli props objects feature har_capture =
     (let feature = feature_of feature;
          level = (case context_level of Some l \<Rightarrow> normalize_feature_level ll l | None \<Rightarrow> 0);
          level = (case standard_level of Some l \<Rightarrow> max_level ll level l | None \<Rightarrow> level);
          s = (level, ''logger'');
          s = raise_by_property ll cli props ''log.level'' s;
          s = raise_by_annotation ll objects ''log.level'' s;
          s = raise_by_flags ll objects s;
          suffix = (if har_capture then ''.har'' else []);
          base = ''log.level.http'' @ suffix;
          keys = map (\<lambda>f. ''log.level.'' @ f @ suffix) (feature_level_keys feature);
          s = raise_by_property ll cli props base s;
          s = foldl (\<lambda>s key. raise_by_property ll cli props key s) s keys;
          s = raise_by_annotation ll objects base s
      in foldl (\<lambda>s key. raise_by_annotation ll objects key s) s keys)"

definition http_logging_content :: "log_levels \<Rightarrow> int \<times> string \<Rightarrow> bool \<times> bool" where
  "http_logging_content ll level_source = (let (level, source) = level_source in (level \<ge> ll_debug ll, level \<ge> ll_trace ll))"

definition split_csv :: "string \<Rightarrow> string list" where
  "split_csv s = filter (\<lambda>part. part \<noteq> []) (map trim_space (split_char (CHR '','') s))"

subsection \<open>Facts about lookups\<close>

lemma get_property_cli: "cli_get cli key = [] \<Longrightarrow> get_property cli h key = hierarchy_lookup h key"
  by (induction cli h key rule: get_property.induct) (auto split: option.splits)

lemma get_property_eq:
  "get_property cli h key = (if cli_get cli key \<noteq> [] then Some (cli_get cli key) else hierarchy_lookup h key)"
proof (cases "cli_get cli key = []")
  case True
  then show ?thesis by (simp add: get_property_cli)
next
  case False
  then show ?thesis by (cases h) simp
qed

lemma put_stripped_lookup:
  "gomap_ok m \<Longrightarrow> map_of (put_stripped prefix out m) s =
    (case map_of m (prefix @ s) of Some v \<Rightarrow> Some v | None \<Rightarrow> map_of out s)"
proof (induction m arbitrary: out)
  case (Cons kv m)
  obtain k v where kv: "kv = (k, v)" by (cases kv)
  let ?out = "if has_prefix prefix k then AList.update (drop (length prefix) k) v out else out"
  have step: "map_of (put_stripped prefix out (kv # m)) s =
      (case map_of m (prefix @ s) of Some v \<Rightarrow> Some v | None \<Rightarrow> map_of ?out s)"
    using Cons kv by (simp add: put_stripped_def)
  show ?case
  proof (cases "k = prefix @ s")
    case True
    then have "map_of m (prefix @ s) = None" using Cons.prems kv by (simp add: map_of_eq_None_iff)
    then show ?thesis using step kv True by (simp add: update_conv')
  next
    case False
    then have "has_prefix prefix k \<Longrightarrow> drop (length prefix) k \<noteq> s" by (auto simp: has_prefix_iff)
    then show ?thesis using step kv False by (auto simp: update_conv' split: option.splits)
  qed
qed (simp add: put_stripped_def)

text \<open>The maps of a hierarchy have distinct keys.\<close>

fun hprops_ok :: "hprops \<Rightarrow> bool" where
  "hprops_ok (HProps l None g) \<longleftrightarrow> gomap_ok l \<and> gomap_ok g"
| "hprops_ok (HProps l (Some p) g) \<longleftrightarrow> gomap_ok l \<and> gomap_ok g \<and> hprops_ok p"

text \<open>The hierarchy with the global map of its root replaced.\<close>

fun with_root_global :: "label_set \<Rightarrow> hprops \<Rightarrow> hprops" where
  "with_root_global g (HProps l None g') = HProps l None g"
| "with_root_global g (HProps l (Some p) g') = HProps l (Some (with_root_global g p)) g'"

lemma prefix_chain_lookup:
  "hprops_ok h \<Longrightarrow> map_of (foldl (\<lambda>out n. put_stripped prefix out (hp_local n)) (put_stripped prefix [] g) (rev (prop_chain h))) s =
    hierarchy_lookup (with_root_global g h) (prefix @ s)"
  if "gomap_ok g"
  using that
proof (induction h rule: hprops_ok.induct)
  case (1 l g')
  then show ?case by (simp add: put_stripped_lookup split: option.splits)
next
  case (2 l p g')
  then show ?case by (simp add: put_stripped_lookup split: option.splits)
qed

text \<open>WithPrefix on any node, against getProperty: it gives for a suffix what getProperty gives for the
  whole key on the same chain, except that the database properties are those of the node itself and
  not those of the root of its chain.\<close>
theorem with_prefix_lookup:
  assumes "hprops_ok h" "gomap_ok cli" "\<forall>(k, v) \<in> set cli. v \<noteq> []"
  shows "map_of (with_prefix cli h prefix) s = get_property cli (with_root_global (hp_global h) h) (prefix @ s)"
proof -
  have g: "gomap_ok (hp_global h)" using assms(1) by (cases h rule: hprops_ok.cases) auto
  have "map_of cli (prefix @ s) \<noteq> Some []" using assms(3) by (auto dest: map_of_SomeD)
  then show ?thesis
    using prefix_chain_lookup [OF g assms(1), of prefix s] assms(2)
    by (auto simp: with_prefix_def Let_def put_stripped_lookup get_property_eq cli_get_def split: option.splits)
qed

theorem with_prefix_lookup_witness:
  "map_of (with_prefix [] (HProps [(''a.x'', ''1'')] (Some (HProps [] None [(''a.y'', ''2'')])) []) ''a.'') ''x'' = Some ''1''
   \<and> map_of (with_prefix [] (HProps [(''a.x'', ''1'')] (Some (HProps [] None [(''a.y'', ''2'')])) []) ''a.'') ''y'' = None
   \<and> get_property [] (HProps [(''a.x'', ''1'')] (Some (HProps [] None [(''a.y'', ''2'')])) []) ''a.y'' = Some ''2''"
proof -
  have ok: "hprops_ok (HProps [(''a.x'', ''1'')] (Some (HProps [] None [(''a.y'', ''2'')])) [])" by simp
  note l = with_prefix_lookup [OF ok, of "[]" "''a.''"]
  show ?thesis using l [of "''x''"] l [of "''y''"] by (simp add: cli_get_def)
qed

subsection \<open>Writes and the cache\<close>

lemma build_chain_lookup:
  "\<forall>o' \<in> set objects. map_of (extract_annotations (om_annotations o')) key = None \<Longrightarrow>
    hierarchy_lookup (fst (build_chain current objects)) key = hierarchy_lookup current key"
proof (induction objects arbitrary: current)
  case (Cons a objects)
  let ?local = "extract_annotations (om_annotations a)"
  obtain h parts where b: "build_chain (HProps ?local (Some current) []) objects = (h, parts)" by (metis surj_pair)
  have "hierarchy_lookup h key = hierarchy_lookup current key"
    using Cons.IH [of "HProps ?local (Some current) []"] Cons.prems b by simp
  then show ?case using Cons.IH [of current] Cons.prems b by (simp add: Let_def)
qed simp

lemma build_chain_no_parts: "snd (build_chain current objects) = [] \<Longrightarrow> fst (build_chain current objects) = current"
  by (induction objects arbitrary: current) (auto simp: Let_def split: prod.splits if_splits)

lemma context_properties_fresh:
  "fst (context_properties cli rows objects empty_cache) =
    fst (build_chain (HProps [] None (fst (global_properties cli rows empty_cache))) objects)"
proof -
  let ?base = "HProps [] None (fst (global_properties cli rows empty_cache))"
  have "pc_hierarchies (snd (global_properties cli rows empty_cache)) = []"
    by (simp add: global_properties_def empty_cache_def Let_def split: sum.split)
  then show ?thesis
    using build_chain_no_parts [of ?base objects]
    by (auto simp: context_properties_def Let_def split: prod.splits)
qed

text \<open>A property that is written is read back by the next lookup in any context, unless the process
  wide store or an annotation of one of its objects has the key.\<close>
theorem update_property_visible:
  assumes "gomap_ok rows" "gomap_ok cli" "map_of cli key = None"
    and "\<forall>o' \<in> set objects. map_of (extract_annotations (om_annotations o')) key = None"
  shows "case update_property None key value rows cache of (err, rows', cache') \<Rightarrow>
    err = None \<and> get_property cli (fst (context_properties cli (Inr rows') objects cache')) key = Some value"
proof -
  have "distinct (map fst (AList.update key value rows))"
    using assms(1) unfolding gomap_ok_def by (rule distinct_update)
  then have ok: "gomap_ok (AList.update key value rows)" by (simp add: gomap_ok_def)
  let ?g = "fst (global_properties cli (Inr (AList.update key value rows)) empty_cache)"
  have "map_of ?g = (map_of [] ++ map_of (AList.update key value rows)) ++ map_of cli"
    using ok assms(2) by (simp add: global_properties_def empty_cache_def Let_def merge_maps_lookup)
  then have "map_of ?g key = Some value" using assms(3) by (simp add: update_conv' map_add_def)
  then have "hierarchy_lookup (fst (context_properties cli (Inr (AList.update key value rows)) objects empty_cache)) key = Some value"
    using build_chain_lookup [OF assms(4), of "HProps [] None ?g"] by (simp add: context_properties_fresh)
  then show ?thesis using assms(3) by (simp add: update_property_def get_property_eq cli_get_def)
qed

theorem update_property_visible_witness:
  "case update_property None ''job'' ''off'' [(''job'', ''on'')] \<lparr>pc_global = Some [(''job'', ''on'')], pc_hierarchies = []\<rparr> of
    (err, rows', cache') \<Rightarrow>
      err = None \<and> get_property [] (fst (context_properties [] (Inr rows') [] cache')) ''job'' = Some ''off''"
  using update_property_visible [of "[(''job'', ''on'')]" "[]" "''job''" "[]" "''off''"] by simp

text \<open>The hierarchy of a context is cached under the namespaces and names of its objects alone: while the
  entry lives, another context whose objects have the same names reads the annotations of the first,
  whatever its own say.\<close>
theorem hierarchy_cached_by_name:
  assumes "snd (build_chain (HProps [] None g) objects1) = snd (build_chain (HProps [] None g) objects2)"
    and "snd (build_chain (HProps [] None g) objects1) \<noteq> []" "g = fst (global_properties cli rows empty_cache)"
    and "pc_global (snd (global_properties cli rows empty_cache)) = Some g"
  shows "fst (context_properties cli rows' objects2 (snd (context_properties cli rows objects1 empty_cache)))
    = fst (build_chain (HProps [] None g) objects1)"
proof -
  obtain cur parts where one: "build_chain (HProps [] None g) objects1 = (cur, parts)" by (metis surj_pair)
  obtain cur2 where two: "build_chain (HProps [] None g) objects2 = (cur2, parts)"
    using assms(1) one by (metis prod.exhaust_sel snd_conv)
  have ne: "parts \<noteq> []" using assms(2) one by simp
  obtain c where glob: "global_properties cli rows empty_cache = (g, c)" using assms(3) by (metis prod.exhaust_sel)
  then have c: "pc_global c = Some g" "pc_hierarchies c = []"
    using assms(4) by (auto simp: global_properties_def empty_cache_def Let_def split: sum.splits)
  have "snd (context_properties cli rows objects1 empty_cache) =
      c\<lparr>pc_hierarchies := AList.update (''properties/'' @ join '','' parts) cur []\<rparr>"
    using glob one ne c by (simp add: context_properties_def Let_def)
  then show ?thesis
    using two one ne c by (simp add: context_properties_def global_properties_def Let_def)
qed

definition web_object :: "string \<Rightarrow> object_meta" where
  "web_object v = \<lparr>om_namespace = ''ns'', om_name = ''web'', om_annotations = [(''mission-control/size'', v)]\<rparr>"

lemma web_object_annotations [simp]: "extract_annotations (om_annotations (web_object v)) = [(''size'', v)]"
  by (simp add: web_object_def extract_annotations_def annotation_prefixes_def)

theorem hierarchy_cached_by_name_witness:
  "fst (context_properties [] (Inr []) [web_object ''2''] (snd (context_properties [] (Inr []) [web_object ''1''] empty_cache)))
    = HProps [(''size'', ''1'')] (Some (HProps [] None [])) []"
proof -
  have g: "global_properties [] (Inr []) empty_cache = ([], empty_cache\<lparr>pc_global := Some []\<rparr>)"
    by (simp add: global_properties_def empty_cache_def merge_maps_def)
  have parts: "snd (build_chain (HProps [] None []) [web_object ''1'']) = [''ns/web'']"
    "snd (build_chain (HProps [] None []) [web_object ''2'']) = [''ns/web'']"
    by (simp_all add: Let_def) (simp_all add: web_object_def)
  show ?thesis
    using hierarchy_cached_by_name [of "[]" "[web_object ''1'']" "[web_object ''2'']" "[]" "Inr []" "Inr []"]
    unfolding g parts by (simp add: Let_def)
qed

subsection \<open>Levels only rise\<close>

definition property_candidates :: "log_levels \<Rightarrow> label_set \<Rightarrow> hprops \<Rightarrow> string \<Rightarrow> (int \<times> string) list" where
  "property_candidates ll cli props key =
     (let v = prop_string cli props key [] in if v \<noteq> [] then [(ll_parse ll v, key)] else [])"

definition annotation_candidates :: "log_levels \<Rightarrow> object_meta list \<Rightarrow> string \<Rightarrow> (int \<times> string) list" where
  "annotation_candidates ll objects key =
     map (\<lambda>o'. (ll_parse ll (annotation_value (om_annotations o') key), ''annotation:'' @ key))
       (filter (\<lambda>o'. om_annotations o' \<noteq> [] \<and> annotation_value (om_annotations o') key \<noteq> []) objects)"

definition flag_candidates :: "log_levels \<Rightarrow> object_meta list \<Rightarrow> (int \<times> string) list" where
  "flag_candidates ll objects = concat (map (\<lambda>o'.
     if om_annotations o' = [] then []
     else if annotation_value (om_annotations o') ''trace'' = ''true'' then [(ll_trace ll, ''annotation:trace'')]
     else if annotation_value (om_annotations o') ''debug'' = ''true'' then [(ll_debug ll, ''annotation:debug'')] else []) objects)"

text \<open>Every setting that can bear on the level of a feature: the general log level, the flags, and the
  level of \<^verbatim>\<open>http\<close> and of each name of the feature.\<close>

definition level_candidates :: "log_levels \<Rightarrow> label_set \<Rightarrow> hprops \<Rightarrow> object_meta list \<Rightarrow> string \<Rightarrow> bool \<Rightarrow> (int \<times> string) list" where
  "level_candidates ll cli props objects feature har_capture =
     (let suffix = (if har_capture then ''.har'' else []);
          keys = map (\<lambda>f. ''log.level.'' @ f @ suffix) (''http'' # feature_level_keys (feature_of feature))
      in property_candidates ll cli props ''log.level'' @ annotation_candidates ll objects ''log.level''
         @ flag_candidates ll objects
         @ concat (map (property_candidates ll cli props) keys) @ concat (map (annotation_candidates ll objects) keys))"

definition level_floor :: "log_levels \<Rightarrow> int option \<Rightarrow> int option \<Rightarrow> int" where
  "level_floor ll context_level standard_level =
     (let level = (case context_level of Some l \<Rightarrow> normalize_feature_level ll l | None \<Rightarrow> 0)
      in case standard_level of Some l \<Rightarrow> max (normalize_feature_level ll level) (normalize_feature_level ll l) | None \<Rightarrow> level)"

definition raise_all :: "log_levels \<Rightarrow> (int \<times> string) list \<Rightarrow> int \<times> string \<Rightarrow> int \<times> string" where
  "raise_all ll cs s = foldl (\<lambda>s c. raise_level ll c s) s cs"

lemma raise_all_append [simp]: "raise_all ll (cs @ ds) s = raise_all ll ds (raise_all ll cs s)"
  by (simp add: raise_all_def)

lemma raise_all_max: "fst (raise_all ll cs s) = Max (insert (fst s) ((\<lambda>c. normalize_feature_level ll (fst c)) ` set cs))"
proof (induction cs rule: rev_induct)
  case (snoc c cs)
  have "fst (raise_all ll (cs @ [c]) s) = max (normalize_feature_level ll (fst c)) (fst (raise_all ll cs s))"
    by (simp add: raise_all_def raise_level_def Let_def)
  moreover have "insert (fst s) ((\<lambda>c. normalize_feature_level ll (fst c)) ` set (cs @ [c])) =
      insert (normalize_feature_level ll (fst c)) (insert (fst s) ((\<lambda>c. normalize_feature_level ll (fst c)) ` set cs))"
    by auto
  moreover have "Max (insert (normalize_feature_level ll (fst c)) (insert (fst s) ((\<lambda>c. normalize_feature_level ll (fst c)) ` set cs)))
      = max (normalize_feature_level ll (fst c)) (Max (insert (fst s) ((\<lambda>c. normalize_feature_level ll (fst c)) ` set cs)))"
    by (rule Max_insert) auto
  ultimately show ?case using snoc by metis
qed (simp add: raise_all_def)

lemma raise_by_property_all: "raise_by_property ll cli props key s = raise_all ll (property_candidates ll cli props key) s"
  by (simp add: raise_by_property_def property_candidates_def raise_all_def Let_def)

lemma raise_by_annotation_all: "raise_by_annotation ll objects key s = raise_all ll (annotation_candidates ll objects key) s"
  by (induction objects arbitrary: s) (simp_all add: raise_by_annotation_def annotation_candidates_def raise_all_def Let_def)

lemma raise_by_flags_all: "raise_by_flags ll objects s = raise_all ll (flag_candidates ll objects) s"
  by (induction objects arbitrary: s) (simp_all add: raise_by_flags_def flag_candidates_def raise_all_def)

lemma raise_each: "foldl (\<lambda>s key. raise_all ll (f key) s) s keys = raise_all ll (concat (map f keys)) s"
  by (induction keys arbitrary: s) (simp_all add: raise_all_def)

text \<open>The log level of a feature is the highest of the loggers' levels and of every setting that bears on
  the feature: an override can only raise it, and their order does not matter.\<close>
theorem effective_level_max:
  "fst (effective_level ll context_level standard_level cli props objects feature har_capture) =
    Max (insert (level_floor ll context_level standard_level)
      ((\<lambda>c. normalize_feature_level ll (fst c)) ` set (level_candidates ll cli props objects feature har_capture)))"
proof -
  have max: "max_level ll a b = max (normalize_feature_level ll a) (normalize_feature_level ll b)" for a b
    by (simp add: max_level_def Let_def)
  have "effective_level ll context_level standard_level cli props objects feature har_capture =
      raise_all ll (level_candidates ll cli props objects feature har_capture)
        (level_floor ll context_level standard_level, ''logger'')"
    unfolding effective_level_def level_candidates_def level_floor_def Let_def raise_by_property_all
      raise_by_annotation_all raise_by_flags_all raise_each max
    by simp
  then show ?thesis by (simp add: raise_all_max)
qed

end
