(* ===== verification/Job_History.thy ===== *)
theory Job_History
  imports Duty_Prelude "HOL-Library.AList"
begin

section \<open>The history of a job\<close>

text \<open>
  \<^verbatim>\<open>models/job_history.go\<close>: a run of a job records its successes and errors and ends with a status.
  Adding an error also logs the history, and formatting a history that belongs to a resource calls
  \<open>End\<close> on it, so logging is part of the state change; whether the logger formats the message is an
  argument. The clock is an argument; the counters are unbounded.
\<close>

subsection \<open>Statuses and the record\<close>

definition status_running :: string where "status_running = ''RUNNING''"
definition status_success :: string where "status_success = ''SUCCESS''"
definition status_warning :: string where "status_warning = ''WARNING''"
definition status_failed :: string where "status_failed = ''FAILED''"
definition status_stale :: string where "status_stale = ''STALE''"
definition status_skipped :: string where "status_skipped = ''SKIPPED''"

named_theorems job_statuses \<open>the texts of the statuses\<close>
declare status_running_def [job_statuses] status_success_def [job_statuses] status_warning_def [job_statuses]
  status_failed_def [job_statuses] status_stale_def [job_statuses] status_skipped_def [job_statuses]

datatype detail = ErrorList "string list" | OtherDetail string

record history =
  jh_id :: string
  jh_name :: string
  jh_success_count :: int
  jh_error_count :: int
  jh_duration :: int
  jh_resource_type :: string
  jh_resource_id :: string
  jh_details :: "(string \<times> detail) list option"
  jh_status :: string
  jh_time_start :: int
  jh_time_end :: "int option"
  jh_errors :: "string list"

definition new_history :: "string \<Rightarrow> string \<Rightarrow> string \<Rightarrow> history" where
  "new_history name resource_type resource_id =
     \<lparr>jh_id = [], jh_name = name, jh_success_count = 0, jh_error_count = 0, jh_duration = 0,
      jh_resource_type = resource_type, jh_resource_id = resource_id, jh_details = None, jh_status = [],
      jh_time_start = 0, jh_time_end = None, jh_errors = []\<rparr>"

definition start_history :: "int \<Rightarrow> history \<Rightarrow> history" where
  "start_history now h = h\<lparr>jh_time_start := now, jh_status := status_running\<rparr>"

definition evaluate_status :: "history \<Rightarrow> history" where
  "evaluate_status h =
     (if jh_status h \<noteq> status_running then h
      else if jh_error_count h > 0 \<and> jh_success_count h > 0 then h\<lparr>jh_status := status_warning\<rparr>
      else if jh_error_count h > 0 \<and> jh_success_count h = 0 then h\<lparr>jh_status := status_failed\<rparr>
      else h\<lparr>jh_status := status_success\<rparr>)"

definition add_details :: "string \<Rightarrow> detail \<Rightarrow> history \<Rightarrow> history" where
  "add_details key val h =
     h\<lparr>jh_details := Some (AList.update key val (case jh_details h of None \<Rightarrow> [] | Some d \<Rightarrow> d))\<rparr>"

definition millisecond :: int where "millisecond = 1000000"

definition end_history :: "int \<Rightarrow> history \<Rightarrow> history" where
  "end_history now h =
     (let h = h\<lparr>jh_time_end := Some now, jh_duration := (now - jh_time_start h) div millisecond\<rparr>;
          h = (if length (jh_errors h) > 0 then add_details ''errors'' (ErrorList (jh_errors h)) h else h)
      in evaluate_status h)"

text \<open>\<open>String\<close>, which formatting with \<^verbatim>\<open>%s\<close> calls: the text and the history it leaves.\<close>

definition history_string :: "int \<Rightarrow> history \<Rightarrow> string \<times> history" where
  "history_string now h =
     (if jh_resource_id h \<noteq> []
      then (let h' = end_history now h in (jh_name h @ ''{'' @ jh_resource_id h' @ ''}'', h'))
      else (jh_name h, h))"

definition log_history :: "bool \<Rightarrow> int \<Rightarrow> history \<Rightarrow> history" where
  "log_history formats now h = (if formats then snd (history_string now h) else h)"

datatype error_value = ErrorValue string | TextValue string | OtherValue

definition add_error :: "bool \<Rightarrow> int \<Rightarrow> error_value \<Rightarrow> history \<Rightarrow> history" where
  "add_error formats now err h =
     (let h = h\<lparr>jh_error_count := jh_error_count h + 1\<rparr>;
          h = (case err of ErrorValue v \<Rightarrow> h\<lparr>jh_errors := jh_errors h @ [v]\<rparr>
                | TextValue v \<Rightarrow> h\<lparr>jh_errors := jh_errors h @ [v]\<rparr> | OtherValue \<Rightarrow> h)
      in log_history formats now h)"

text \<open>\<open>AddErrorf\<close> and \<open>AddErrorWithSkipReportLevel\<close>, given the formatted message.\<close>

definition add_error_text :: "bool \<Rightarrow> int \<Rightarrow> string \<Rightarrow> history \<Rightarrow> history" where
  "add_error_text formats now err h =
     (let h = h\<lparr>jh_error_count := jh_error_count h + 1\<rparr>;
          h = (if err \<noteq> [] then h\<lparr>jh_errors := jh_errors h @ [err]\<rparr> else h)
      in log_history formats now h)"

definition incr_success :: "history \<Rightarrow> history" where
  "incr_success h = h\<lparr>jh_success_count := jh_success_count h + 1\<rparr>"

definition as_error :: "history \<Rightarrow> string option" where
  "as_error h = (if length (jh_errors h) = 0 then None else Some (join '','' (jh_errors h)))"

subsection \<open>The status a run ends with\<close>

datatype job_event = JobError string | JobSuccess

fun apply_event :: "bool \<Rightarrow> job_event \<times> int \<Rightarrow> history \<Rightarrow> history" where
  "apply_event formats (JobError e, now) h = add_error_text formats now e h"
| "apply_event formats (JobSuccess, now) h = incr_success h"

definition is_job_error :: "job_event \<times> int \<Rightarrow> bool" where
  "is_job_error e \<longleftrightarrow> (\<exists>m now. e = (JobError m, now))"

definition is_job_success :: "job_event \<times> int \<Rightarrow> bool" where
  "is_job_success e \<longleftrightarrow> (\<exists>now. e = (JobSuccess, now))"

lemma job_event_kinds [simp]:
  "is_job_error (JobError m, t)" "\<not> is_job_error (JobSuccess, t)"
  "is_job_success (JobSuccess, t)" "\<not> is_job_success (JobError m, t)"
  by (auto simp: is_job_error_def is_job_success_def)

text \<open>The status by the counts of errors and successes.\<close>

definition status_of :: "bool \<Rightarrow> bool \<Rightarrow> string" where
  "status_of errors successes =
     (if errors \<and> successes then status_warning else if errors then status_failed else status_success)"

definition counted :: "(job_event \<times> int) list \<Rightarrow> history \<Rightarrow> bool" where
  "counted es h \<longleftrightarrow> jh_error_count h = int (length (filter is_job_error es))
     \<and> jh_success_count h = int (length (filter is_job_success es))"

lemma end_history_fields [simp]:
  "jh_error_count (end_history now h) = jh_error_count h" "jh_success_count (end_history now h) = jh_success_count h"
  "jh_resource_id (end_history now h) = jh_resource_id h" "jh_errors (end_history now h) = jh_errors h"
  "jh_id (end_history now h) = jh_id h" "jh_name (end_history now h) = jh_name h"
  by (simp_all add: end_history_def evaluate_status_def add_details_def Let_def)

lemma end_history_status:
  "jh_status (end_history now h) =
    (if jh_status h \<noteq> status_running then jh_status h
     else if jh_error_count h > 0 \<and> jh_success_count h > 0 then status_warning
     else if jh_error_count h > 0 \<and> jh_success_count h = 0 then status_failed else status_success)"
  by (simp add: end_history_def evaluate_status_def add_details_def Let_def)

lemma log_history_fields [simp]:
  "jh_error_count (log_history f now h) = jh_error_count h" "jh_success_count (log_history f now h) = jh_success_count h"
  "jh_resource_id (log_history f now h) = jh_resource_id h" "jh_errors (log_history f now h) = jh_errors h"
  "jh_id (log_history f now h) = jh_id h"
  by (simp_all add: log_history_def history_string_def Let_def)

lemma log_history_status:
  "jh_status (log_history f now h) = (if f \<and> jh_resource_id h \<noteq> [] then jh_status (end_history now h) else jh_status h)"
  by (simp add: log_history_def history_string_def Let_def)

lemma apply_event_counted:
  "counted es h \<Longrightarrow> counted (es @ [e]) (apply_event f e h) \<and> jh_resource_id (apply_event f e h) = jh_resource_id h"
  by (cases "(f, e, h)" rule: apply_event.cases)
    (simp_all add: counted_def add_error_text_def incr_success_def Let_def)

definition run_events :: "bool \<Rightarrow> (job_event \<times> int) list \<Rightarrow> history \<Rightarrow> history" where
  "run_events formats es h = foldl (\<lambda>h e. apply_event formats e h) h es"

lemma run_events_counted:
  "counted [] h \<Longrightarrow> counted es (run_events f es h) \<and> jh_resource_id (run_events f es h) = jh_resource_id h"
proof (induction es rule: rev_induct)
  case (snoc e es)
  then show ?case using apply_event_counted [of es "run_events f es h" e f] by (simp add: run_events_def)
qed (simp add: run_events_def)

text \<open>The successes before the first error.\<close>

definition early_success :: "(job_event \<times> int) list \<Rightarrow> bool" where
  "early_success es \<longleftrightarrow> (\<exists>e \<in> set (takeWhile (\<lambda>e. \<not> is_job_error e) es). is_job_success e)"

lemma takeWhile_snoc:
  "takeWhile P (xs @ [x]) = (if \<forall>y \<in> set xs. P y then xs @ (if P x then [x] else []) else takeWhile P xs)"
  by (induction xs) auto

lemma status_while_running:
  assumes "counted [] h" "jh_status h = status_running"
  shows "jh_status (run_events f es h) =
    (if f \<and> jh_resource_id h \<noteq> [] \<and> (\<exists>e \<in> set es. is_job_error e)
     then status_of True (early_success es) else status_running)"
proof (induction es rule: rev_induct)
  case Nil
  then show ?case using assms by (simp add: run_events_def)
next
  case (snoc e es)
  let ?h = "run_events f es h"
  have step: "run_events f (es @ [e]) h = apply_event f e ?h" by (simp add: run_events_def)
  have cnt: "counted es ?h" and rid: "jh_resource_id ?h = jh_resource_id h" using run_events_counted [OF assms(1)] by blast+
  have ne: "status_of True b \<noteq> status_running" "status_running \<noteq> status_of True b" for b
    by (simp_all add: status_of_def job_statuses)
  show ?case
  proof (cases "(f, e, h)" rule: apply_event.cases)
    case (2 g now k)
    then have "early_success (es @ [e]) = early_success es" if "\<exists>e \<in> set es. is_job_error e"
      using that by (auto simp: early_success_def takeWhile_snoc)
    then show ?thesis using 2 snoc step by (auto simp: incr_success_def)
  next
    case (1 g m now k)
    let ?grown = "(if m \<noteq> [] then ?h\<lparr>jh_error_count := jh_error_count ?h + 1, jh_errors := jh_errors ?h @ [m]\<rparr>
      else ?h\<lparr>jh_error_count := jh_error_count ?h + 1\<rparr>)"
    have new: "apply_event f e ?h = log_history f now ?grown"
      using 1 by (simp add: add_error_text_def Let_def)
    have h1: "jh_status ?grown = jh_status ?h" "jh_resource_id ?grown = jh_resource_id h"
      "jh_error_count ?grown = jh_error_count ?h + 1" "jh_success_count ?grown = jh_success_count ?h"
      using rid by simp_all
    show ?thesis
    proof (cases "\<exists>e \<in> set es. is_job_error e")
      case True
      then have es: "early_success (es @ [e]) = early_success es" by (auto simp: early_success_def takeWhile_snoc)
      show ?thesis unfolding step new log_history_status end_history_status h1 using True snoc es ne by auto
    next
      case False
      then have tw: "early_success (es @ [e]) = (\<exists>e \<in> set es. is_job_success e)"
        using 1 by (auto simp: early_success_def takeWhile_snoc)
      have "(\<exists>e \<in> set es. is_job_success e) \<longleftrightarrow> jh_success_count ?h > 0"
        using cnt by (auto simp: counted_def filter_empty_conv)
      moreover have "jh_error_count ?h = 0" "jh_success_count ?h \<ge> 0" using cnt False by (auto simp: counted_def)
      ultimately show ?thesis unfolding step new log_history_status end_history_status h1 tw using False snoc 1
        by (auto simp: status_of_def)
    qed
  qed
qed

text \<open>The status a started run ends with. When logging does not format the history, or it belongs to no
  resource, the status is by the totals: success without errors, failed without successes, warning with
  both. Otherwise the first error ends the history while it is being logged: the status then depends
  only on whether a success came before it, and later successes do not count.\<close>
theorem history_status_correct:
  "jh_status (end_history t (run_events formats es (start_history s (new_history name rtype rid)))) =
    status_of (\<exists>e \<in> set es. is_job_error e)
      (if formats \<and> rid \<noteq> [] then early_success es else (\<exists>e \<in> set es. is_job_success e))"
proof -
  let ?start = "start_history s (new_history name rtype rid)" and ?h = "run_events formats es (start_history s (new_history name rtype rid))"
  have c0: "counted [] ?start" "jh_status ?start = status_running" "jh_resource_id ?start = rid"
    by (simp_all add: counted_def start_history_def new_history_def)
  have cnt: "counted es ?h" using run_events_counted [OF c0(1)] by blast
  have pos: "jh_error_count ?h > 0 \<longleftrightarrow> (\<exists>e \<in> set es. is_job_error e)" "jh_success_count ?h > 0 \<longleftrightarrow> (\<exists>e \<in> set es. is_job_success e)"
    using cnt by (auto simp: counted_def filter_empty_conv)
  have ge: "jh_success_count ?h \<ge> 0" using cnt by (simp add: counted_def)
  have zero: "jh_success_count ?h = 0 \<longleftrightarrow> \<not> (\<exists>e \<in> set es. is_job_success e)" using ge pos(2) by linarith
  have ne: "status_of True b \<noteq> status_running" "status_running \<noteq> status_of True b" for b
    by (simp_all add: status_of_def job_statuses)
  show ?thesis
  proof (cases "formats \<and> rid \<noteq> [] \<and> (\<exists>e \<in> set es. is_job_error e)")
    case True
    then show ?thesis unfolding end_history_status using status_while_running [OF c0(1,2), of formats es] c0(3) ne by auto
  next
    case False
    then have "jh_status ?h = status_running" using status_while_running [OF c0(1,2), of formats es] c0(3) by auto
    then show ?thesis unfolding end_history_status pos zero using False by (auto simp: status_of_def)
  qed
qed

end
