(* ===== verification/Status_Ring.thy ===== *)
theory Status_Ring
  imports Job_History
begin

section \<open>Retention of job histories\<close>

text \<open>
  \<^verbatim>\<open>job/job.go\<close> (\<open>StatusRing\<close>, \<open>Retention\<close>) and \<^verbatim>\<open>upstream/agent_status_ring.go\<close>: for every status a ring
  holds the ids of the latest histories, and an id that falls out is sent to the eviction channel. A
  ring is the list of its slots from the current position on. The channel is the list of what was
  sent; that a full channel blocks the sender is not modelled. \<open>None\<close> is the panic of a nil ring. The
  rings refine the specification \<open>retained\<close>: per status a queue cut to its limit.
\<close>

subsection \<open>The interface of a store that retains a limited history\<close>

text \<open>What a store of histories promises its clients: adding an id to a queue keeps the latest ones, up to
  the limit of the queue, and hands out the others; no other queue changes.\<close>

locale retaining =
  fixes invar :: "'s \<Rightarrow> bool" and add :: "'s \<Rightarrow> history \<Rightarrow> 's option"
    and kept :: "'s \<Rightarrow> string \<Rightarrow> string list" and evicted :: "'s \<Rightarrow> string list" and limit :: "'s \<Rightarrow> string \<Rightarrow> nat"
  assumes add_ok: "invar s \<Longrightarrow> \<exists>s'. add s h = Some s'"
    and add_law: "invar s \<Longrightarrow> add s h = Some s' \<Longrightarrow> invar s' \<and> limit s' = limit s
      \<and> kept s' = (kept s)(jh_status h := drop (length (kept s (jh_status h)) + 1 - limit s (jh_status h)) (kept s (jh_status h) @ [jh_id h]))
      \<and> evicted s' = evicted s @ take (length (kept s (jh_status h)) + 1 - limit s (jh_status h)) (kept s (jh_status h) @ [jh_id h])"

text \<open>The last elements of a list.\<close>

definition last_n :: "nat \<Rightarrow> 'a list \<Rightarrow> 'a list" where
  "last_n n xs = drop (length xs - n) xs"

lemma last_n_append: "last_n n (drop (length xs - n) xs @ ys) = last_n n (xs @ ys)"
  by (cases "n \<le> length xs") (simp_all add: last_n_def add.commute)

fun add_all :: "('s \<Rightarrow> history \<Rightarrow> 's option) \<Rightarrow> 's \<Rightarrow> history list \<Rightarrow> 's option" where
  "add_all add s [] = Some s"
| "add_all add s (h # hs) = (case add s h of None \<Rightarrow> None | Some s' \<Rightarrow> add_all add s' hs)"

definition ids_with :: "string \<Rightarrow> history list \<Rightarrow> string list" where
  "ids_with status hs = map jh_id (filter (\<lambda>h. jh_status h = status) hs)"

lemma ids_with_simps [simp]:
  "ids_with k [] = []" "ids_with k (h # hs) = (if jh_status h = k then jh_id h # ids_with k hs else ids_with k hs)"
  by (simp_all add: ids_with_def)

context retaining
begin

lemma kept_add:
  assumes "invar s" "add s h = Some s'" "\<forall>k. length (kept s k) \<le> limit s k"
  shows "\<forall>k. length (kept s' k) \<le> limit s' k"
  using add_law [OF assms(1,2)] assms(3) by auto

text \<open>Adding many: each queue holds the last ids up to its limit, and nothing is lost.\<close>

lemma add_all_kept:
  assumes "invar s" "\<forall>k. length (kept s k) \<le> limit s k"
  shows "\<exists>s'. add_all add s hs = Some s' \<and> invar s' \<and> limit s' = limit s
    \<and> (\<forall>k. kept s' k = last_n (limit s k) (kept s k @ ids_with k hs))"
  using assms
proof (induction hs arbitrary: s)
  case Nil
  then show ?case by (auto simp: last_n_def)
next
  case (Cons h hs)
  obtain s1 where s1: "add s h = Some s1" using add_ok [OF Cons.prems(1)] by blast
  note law = add_law [OF Cons.prems(1) s1]
  from Cons.IH [of s1] obtain s' where s': "add_all add s1 hs = Some s'" "invar s'" "limit s' = limit s1"
    "\<forall>k. kept s' k = last_n (limit s1 k) (kept s1 k @ ids_with k hs)"
    using law kept_add [OF Cons.prems(1) s1 Cons.prems(2)] by blast
  have "last_n (limit s k) (kept s1 k @ ids_with k hs) = last_n (limit s k) (kept s k @ ids_with k (h # hs))" for k
  proof (cases "jh_status h = k")
    case True
    have "length (kept s k @ [jh_id h]) = length (kept s k) + 1" by simp
    then have "kept s1 k = drop (length (kept s k @ [jh_id h]) - limit s k) (kept s k @ [jh_id h])" using law True by simp
    then have "last_n (limit s k) (kept s1 k @ ids_with k hs) = last_n (limit s k) ((kept s k @ [jh_id h]) @ ids_with k hs)"
      by (simp only: last_n_append)
    then show ?thesis using True by simp
  next
    case False
    then show ?thesis using law by simp
  qed
  then show ?case using s1 s' law by auto
qed

lemma add_all_conserves:
  assumes "invar s" "add_all add s hs = Some s'" "finite K" "\<forall>h \<in> set hs. jh_status h \<in> K"
  shows "mset (evicted s') + (\<Sum>k \<in> K. mset (kept s' k)) = mset (evicted s) + (\<Sum>k \<in> K. mset (kept s k)) + mset (map jh_id hs)"
  using assms(1,2,4)
proof (induction hs arbitrary: s)
  case (Cons h hs)
  obtain s1 where s1: "add s h = Some s1" using add_ok [OF Cons.prems(1)] by blast
  note law = add_law [OF Cons.prems(1) s1]
  let ?k = "jh_status h"
  define q where "q = kept s ?k @ [jh_id h]"
  define d where "d = length (kept s ?k) + 1 - limit s ?k"
  have k: "?k \<in> K" using Cons.prems(3) by simp
  have split: "(\<Sum>k \<in> K. mset (kept x k)) = mset (kept x ?k) + (\<Sum>k \<in> K - {?k}. mset (kept x k))" for x
    using assms(3) k by (simp add: sum.remove)
  have "(\<Sum>k \<in> K - {?k}. mset (kept s1 k)) = (\<Sum>k \<in> K - {?k}. mset (kept s k))"
    using law by (intro sum.cong) auto
  moreover have "mset (take d q) + mset (drop d q) = mset (kept s ?k) + {#jh_id h#}"
    by (metis append_take_drop_id mset_append mset_single_iff q_def)
  moreover have "evicted s1 = evicted s @ take d q" "kept s1 ?k = drop d q" using law by (simp_all only: q_def d_def fun_upd_same)
  ultimately have "mset (evicted s1) + (\<Sum>k \<in> K. mset (kept s1 k)) = mset (evicted s) + (\<Sum>k \<in> K. mset (kept s k)) + {#jh_id h#}"
    unfolding split by (simp add: ac_simps)
  moreover have "mset (evicted s') + (\<Sum>k \<in> K. mset (kept s' k)) = mset (evicted s1) + (\<Sum>k \<in> K. mset (kept s1 k)) + mset (map jh_id hs)"
    using Cons.IH [of s1] Cons.prems s1 law by auto
  ultimately show ?case by simp
qed auto

end

subsection \<open>The rings of the code\<close>

record retention =
  rt_success :: int
  rt_failed :: int

definition retention_few :: retention where "retention_few = \<lparr>rt_success = 1, rt_failed = 3\<rparr>"
definition retention_failed :: retention where "retention_failed = \<lparr>rt_success = 0, rt_failed = 3\<rparr>"
definition retention_balanced :: retention where "retention_balanced = \<lparr>rt_success = 3, rt_failed = 3\<rparr>"
definition retention_high :: retention where "retention_high = \<lparr>rt_success = 3, rt_failed = 6\<rparr>"

definition retention_count :: "retention \<Rightarrow> string \<Rightarrow> int" where
  "retention_count r status =
     (if status = status_skipped \<or> status = status_failed \<or> status = status_warning then rt_failed r
      else rt_success r)"

definition retention_empty :: "retention \<Rightarrow> bool" where
  "retention_empty r \<longleftrightarrow> rt_success r = 0 \<and> rt_failed r = 0"

record status_ring =
  sr_rings :: "string \<rightharpoonup> string option list"
  sr_evicted :: "string list"
  sr_retention :: retention
  sr_singleton :: bool

definition new_status_ring :: "retention \<Rightarrow> bool \<Rightarrow> string list \<Rightarrow> status_ring" where
  "new_status_ring r single channel =
     \<lparr>sr_rings = Map.empty, sr_evicted = channel, sr_retention = r, sr_singleton = single\<rparr>"

definition ring_count :: "status_ring \<Rightarrow> string \<Rightarrow> int" where
  "ring_count sr status =
     (if sr_singleton sr \<and> status = status_running then 1 else retention_count (sr_retention sr) status)"

definition ring_add :: "status_ring \<Rightarrow> history \<Rightarrow> status_ring option" where
  "ring_add sr job =
     (let r = (case sr_rings sr (jh_status job) of
                 Some r \<Rightarrow> r
               | None \<Rightarrow> replicate (nat (ring_count sr (jh_status job) + 1)) None)
      in if r = [] then None
         else (let r = tl r @ [Some (jh_id job)];
                   evicted = (case hd r of None \<Rightarrow> sr_evicted sr | Some v \<Rightarrow> sr_evicted sr @ [v])
               in Some (sr\<lparr>sr_evicted := evicted, sr_rings := (sr_rings sr)(jh_status job \<mapsto> r)\<rparr>)))"

definition populate_from_db :: "status_ring \<Rightarrow> string + history list \<Rightarrow> (string + status_ring) option" where
  "populate_from_db sr rows =
     (case rows of Inl e \<Rightarrow> Some (Inl e) | Inr hs \<Rightarrow> map_option Inr (add_all ring_add sr hs))"

subsection \<open>The specification\<close>

text \<open>A ring with room for one id more than its limit; the slot at the current position is the next to be
  overwritten and its id was handed out already.\<close>

definition ring_kept :: "status_ring \<Rightarrow> string \<Rightarrow> string list" where
  "ring_kept sr k = (case sr_rings sr k of None \<Rightarrow> [] | Some r \<Rightarrow> map the (filter (\<lambda>v. v \<noteq> None) (tl r)))"

definition ring_limit :: "status_ring \<Rightarrow> string \<Rightarrow> nat" where
  "ring_limit sr k = nat (ring_count sr k)"

definition ring_invar :: "status_ring \<Rightarrow> bool" where
  "ring_invar sr \<longleftrightarrow> rt_success (sr_retention sr) \<ge> 0 \<and> rt_failed (sr_retention sr) \<ge> 0
     \<and> (\<forall>k r. sr_rings sr k = Some r \<longrightarrow>
          (\<exists>j xs. r = replicate j None @ map Some xs \<and> length r = ring_limit sr k + 1))"

record retained =
  re_kept :: "string \<Rightarrow> string list"
  re_evicted :: "string list"

definition retained_add :: "(string \<Rightarrow> nat) \<Rightarrow> history \<Rightarrow> retained \<Rightarrow> retained" where
  "retained_add limit h s =
     (let q = re_kept s (jh_status h) @ [jh_id h]; d = length q - limit (jh_status h)
      in \<lparr>re_kept = (re_kept s)(jh_status h := drop d q), re_evicted = re_evicted s @ take d q\<rparr>)"

definition ring_abs :: "status_ring \<Rightarrow> retained" where
  "ring_abs sr = \<lparr>re_kept = ring_kept sr, re_evicted = sr_evicted sr\<rparr>"

lemma kept_slots [simp]: "map the (filter (\<lambda>v. v \<noteq> None) (replicate j None @ map Some xs)) = xs"
  by (induction xs) (auto simp: filter_replicate)

lemma ring_write:
  assumes r: "r = replicate j None @ map Some xs" "length r = Suc c"
  shows "\<exists>i ys. tl r @ [Some x] = replicate i None @ map Some ys
    \<and> (let q = map the (filter (\<lambda>v. v \<noteq> None) (tl r)) @ [x]; d = length q - c in
        map the (filter (\<lambda>v. v \<noteq> None) (tl (tl r @ [Some x]))) = drop d q
        \<and> (case hd (tl r @ [Some x]) of None \<Rightarrow> [] | Some v \<Rightarrow> [v]) = take d q)"
proof (cases j)
  case 0
  then obtain y ys where xs: "xs = y # ys" "length ys = c" using r by (cases xs) auto
  have w: "tl r @ [Some x] = replicate 0 None @ map Some (ys @ [x])" using r xs 0 by simp
  have "ys @ [x] \<noteq> []" by simp
  then obtain z zs where z: "ys @ [x] = z # zs" by (cases "ys @ [x]") auto
  have "length zs = length ys" using arg_cong [OF z, of length] by simp
  moreover have "map the (filter (\<lambda>v. v \<noteq> None) (map Some l)) = l" for l :: "'a list" by (induction l) auto
  ultimately show ?thesis
    using w xs z r 0 by (intro exI [of _ 0] exI [of _ "ys @ [x]"]) (auto simp: Let_def)
next
  case (Suc i)
  have w: "tl r @ [Some x] = replicate i None @ map Some (xs @ [x])" using r Suc by simp
  have q: "map the (filter (\<lambda>v. v \<noteq> None) (tl r)) = xs" using r Suc by simp
  have len: "i + length xs = c" using r Suc by simp
  have "map the (filter (\<lambda>v. v \<noteq> None) (map Some l)) = l" for l :: "'a list" by (induction l) auto
  then show ?thesis
    using w q len
    by (intro exI [of _ i] exI [of _ "xs @ [x]"]) (cases i; cases xs; auto simp: Let_def filter_replicate)
qed

lemma ring_add_step:
  assumes "ring_invar sr"
  shows "\<exists>sr'. ring_add sr h = Some sr' \<and> ring_invar sr' \<and> ring_limit sr' = ring_limit sr
    \<and> ring_abs sr' = retained_add (ring_limit sr) h (ring_abs sr)"
proof -
  let ?k = "jh_status h"
  define c where "c = ring_limit sr ?k"
  define r where "r = (case sr_rings sr ?k of Some r \<Rightarrow> r | None \<Rightarrow> replicate (nat (ring_count sr ?k + 1)) None)"
  have "ring_count sr ?k \<ge> 0" using assms by (simp add: ring_invar_def ring_count_def retention_count_def)
  then have fresh: "nat (ring_count sr ?k + 1) = Suc c" by (simp add: c_def ring_limit_def)
  have "\<exists>j xs. r = replicate j None @ map Some xs \<and> length r = Suc c"
  proof (cases "sr_rings sr ?k")
    case None
    then have "r = replicate (Suc c) None @ map Some []" by (simp add: r_def fresh)
    then show ?thesis by (metis append_Nil2 length_replicate list.simps(8))
  next
    case (Some r')
    then show ?thesis using assms by (auto simp: r_def c_def ring_invar_def)
  qed
  then obtain j xs where r: "r = replicate j None @ map Some xs" "length r = Suc c" by blast
  let ?r = "tl r @ [Some (jh_id h)]"
  from ring_write [OF r, of "jh_id h"] obtain i ys where w: "?r = replicate i None @ map Some ys"
    and spec: "let q = map the (filter (\<lambda>v. v \<noteq> None) (tl r)) @ [jh_id h]; d = length q - c in
        map the (filter (\<lambda>v. v \<noteq> None) (tl ?r)) = drop d q
        \<and> (case hd ?r of None \<Rightarrow> [] | Some v \<Rightarrow> [v]) = take d q" by blast
  have kept: "ring_kept sr ?k = map the (filter (\<lambda>v. v \<noteq> None) (tl r))"
    by (simp add: ring_kept_def r_def fresh filter_replicate split: option.split)
  define sr' where "sr' = sr\<lparr>sr_evicted := (case hd ?r of None \<Rightarrow> sr_evicted sr | Some v \<Rightarrow> sr_evicted sr @ [v]),
      sr_rings := (sr_rings sr)(?k \<mapsto> ?r)\<rparr>"
  have ne: "r \<noteq> []" using r(2) by auto
  have step: "ring_add sr h = Some sr'"
    unfolding ring_add_def Let_def r_def [symmetric] sr'_def using ne by simp
  have lim: "ring_limit sr' = ring_limit sr" by (auto simp: ring_limit_def ring_count_def sr'_def)
  have "length ?r = Suc c" using r(2) by simp
  then have "ring_invar sr'"
    using assms w lim by (auto simp: ring_invar_def sr'_def c_def split: if_splits)
  moreover have "ring_abs sr' = retained_add (ring_limit sr) h (ring_abs sr)"
    using spec unfolding Let_def kept [symmetric] c_def
    by (auto simp: ring_abs_def retained_add_def Let_def sr'_def ring_kept_def fun_eq_iff split: option.splits)
  ultimately show ?thesis using step lim by blast
qed

interpretation rings: retaining ring_invar ring_add ring_kept sr_evicted ring_limit
proof
  fix s h
  assume "ring_invar s"
  from ring_add_step [OF this] show "\<exists>s'. ring_add s h = Some s'" by blast
next
  fix s h s'
  assume "ring_invar s" "ring_add s h = Some s'"
  then have "ring_invar s' \<and> ring_limit s' = ring_limit s \<and> ring_abs s' = retained_add (ring_limit s) h (ring_abs s)"
    using ring_add_step [of s h] by force
  then show "ring_invar s' \<and> ring_limit s' = ring_limit s
      \<and> ring_kept s' = (ring_kept s)(jh_status h := drop (length (ring_kept s (jh_status h)) + 1 - ring_limit s (jh_status h)) (ring_kept s (jh_status h) @ [jh_id h]))
      \<and> sr_evicted s' = sr_evicted s @ take (length (ring_kept s (jh_status h)) + 1 - ring_limit s (jh_status h)) (ring_kept s (jh_status h) @ [jh_id h])"
    by (simp add: ring_abs_def retained_add_def Let_def)
qed

subsection \<open>Properties of the rings\<close>

text \<open>C16: Add on the rings refines the specification: on every ring that New and earlier Adds can have built,
  it returns, keeps the ring invariant, and the queues and the channel change as the specification says.\<close>
theorem ring_add_refines:
  assumes "ring_invar sr"
  shows "case ring_add sr h of
      None \<Rightarrow> False
    | Some sr' \<Rightarrow> ring_invar sr' \<and> ring_abs sr' = retained_add (ring_limit sr) h (ring_abs sr)"
  using ring_add_step [OF assms, of h] by force

lemma new_status_ring_invar:
  "rt_success r \<ge> 0 \<Longrightarrow> rt_failed r \<ge> 0 \<Longrightarrow> ring_invar (new_status_ring r single channel)"
  by (simp add: ring_invar_def new_status_ring_def)

definition job_of :: "string \<Rightarrow> string \<Rightarrow> history" where
  "job_of i status = (new_history ''job'' [] [])\<lparr>jh_id := i, jh_status := status\<rparr>"

theorem ring_add_refines_witness:
  "\<exists>sr'. ring_add (new_status_ring retention_failed False []) (job_of ''1'' ''SUCCESS'') = Some sr' \<and> re_evicted (ring_abs sr') = [''1'']"
proof -
  let ?sr = "new_status_ring retention_failed False []"
  have "ring_invar ?sr" by (rule new_status_ring_invar) (simp_all add: retention_failed_def)
  from ring_add_refines [OF this, of "job_of ''1'' ''SUCCESS''"]
  obtain sr' where "ring_add ?sr (job_of ''1'' ''SUCCESS'') = Some sr'"
    "ring_abs sr' = retained_add (ring_limit ?sr) (job_of ''1'' ''SUCCESS'') (ring_abs ?sr)"
    by (auto split: option.splits)
  then show ?thesis
    by (simp add: retained_add_def ring_abs_def ring_kept_def new_status_ring_def retention_failed_def ring_limit_def
        ring_count_def retention_count_def job_of_def new_history_def job_statuses Let_def)
qed

text \<open>After any sequence of histories a new ring retains for each status exactly the last ids of that status,
  as many as its limit (the retention, or one running entry of a singleton), and every other id was
  sent to the eviction channel, once.\<close>
theorem ring_retains_last:
  assumes "rt_success r \<ge> 0" "rt_failed r \<ge> 0"
  shows "\<exists>sr. add_all ring_add (new_status_ring r single []) hs = Some sr
    \<and> (\<forall>k. ring_kept sr k = last_n (ring_limit (new_status_ring r single []) k) (ids_with k hs))
    \<and> mset (sr_evicted sr) + (\<Sum>k \<in> jh_status ` set hs. mset (ring_kept sr k)) = mset (map jh_id hs)"
proof -
  let ?new = "new_status_ring r single []"
  have inv: "ring_invar ?new" using assms by (rule new_status_ring_invar)
  have empty: "ring_kept ?new k = []" "sr_evicted ?new = []" for k
    by (simp_all add: ring_kept_def new_status_ring_def)
  obtain sr where sr: "add_all ring_add ?new hs = Some sr"
    "\<forall>k. ring_kept sr k = last_n (ring_limit ?new k) (ring_kept ?new k @ ids_with k hs)"
    using rings.add_all_kept [OF inv] empty by fastforce
  have "mset (sr_evicted sr) + (\<Sum>k \<in> jh_status ` set hs. mset (ring_kept sr k)) = mset (map jh_id hs)"
    using rings.add_all_conserves [OF inv sr(1), of "jh_status ` set hs"] empty by simp
  then show ?thesis using sr empty by auto
qed

theorem ring_retains_last_witness:
  "\<exists>sr. add_all ring_add (new_status_ring retention_few False [])
      [job_of ''1'' ''SUCCESS'', job_of ''2'' ''FAILED'', job_of ''3'' ''SUCCESS''] = Some sr
    \<and> ring_kept sr ''SUCCESS'' = [''3''] \<and> ring_kept sr ''FAILED'' = [''2'']"
proof -
  have "rt_success retention_few \<ge> 0" "rt_failed retention_few \<ge> 0" by (simp_all add: retention_few_def)
  from ring_retains_last [OF this, of False "[job_of ''1'' ''SUCCESS'', job_of ''2'' ''FAILED'', job_of ''3'' ''SUCCESS'']"]
  show ?thesis
    by (auto simp: last_n_def new_status_ring_def retention_few_def ring_limit_def ring_count_def retention_count_def
        job_of_def new_history_def job_statuses)
qed

text \<open>A negative retention, which the code accepts from the properties of a job, makes the first Add panic.\<close>

lemma negative_retention_panics:
  assumes "retention_count (sr_retention sr) (jh_status h) < 0" "sr_rings sr (jh_status h) = None" "\<not> sr_singleton sr"
  shows "ring_add sr h = None"
  using assms by (simp add: ring_add_def ring_count_def Let_def)

subsection \<open>The rings of the agents\<close>

text \<open>A ring per agent, job name and resource, created on the first history with the retention that the
  properties of the job give. All rings share one channel.\<close>

record ring_manager =
  rm_rings :: "string \<rightharpoonup> status_ring"
  rm_evicted :: "string list"

definition manager_key :: "string \<Rightarrow> history \<Rightarrow> string" where
  "manager_key agent h = agent @ ''-'' @ jh_name h @ ''-'' @ jh_resource_id h"

definition get_or_create_ring :: "(string \<Rightarrow> string \<Rightarrow> int \<Rightarrow> int) \<Rightarrow> string \<Rightarrow> history \<Rightarrow> ring_manager \<Rightarrow> status_ring" where
  "get_or_create_ring job_property_int agent h m =
     (case rm_rings m (manager_key agent h) of
        Some ring \<Rightarrow> ring
      | None \<Rightarrow> new_status_ring
          \<lparr>rt_success = job_property_int (jh_name h) ''retention.success'' (rt_success retention_balanced),
           rt_failed = job_property_int (jh_name h) ''retention.failed'' (rt_failed retention_balanced)\<rparr> False [])"

definition manager_add :: "(string \<Rightarrow> string \<Rightarrow> int \<Rightarrow> int) \<Rightarrow> string \<Rightarrow> history \<Rightarrow> ring_manager \<Rightarrow> ring_manager option" where
  "manager_add job_property_int agent h m =
     (case ring_add ((get_or_create_ring job_property_int agent h m)\<lparr>sr_evicted := rm_evicted m\<rparr>) h of
        None \<Rightarrow> None
      | Some ring \<Rightarrow> Some \<lparr>rm_rings = (rm_rings m)(manager_key agent h \<mapsto> ring), rm_evicted = sr_evicted ring\<rparr>)"

definition manager_invar :: "ring_manager \<Rightarrow> bool" where
  "manager_invar m \<longleftrightarrow> (\<forall>k ring. rm_rings m k = Some ring \<longrightarrow> ring_invar ring)"

lemma ring_invar_channel [simp]: "ring_invar (sr\<lparr>sr_evicted := ev\<rparr>) = ring_invar sr"
  by (simp add: ring_invar_def ring_limit_def ring_count_def)

lemma manager_add_ok:
  assumes "manager_invar m" "\<forall>name key d. d \<ge> 0 \<longrightarrow> job_property_int name key d \<ge> 0"
  shows "\<exists>m'. manager_add job_property_int agent h m = Some m' \<and> manager_invar m'"
proof -
  have "ring_invar (get_or_create_ring job_property_int agent h m)"
    using assms by (auto simp: get_or_create_ring_def manager_invar_def retention_balanced_def
        split: option.split intro!: new_status_ring_invar)
  then obtain ring where "ring_add ((get_or_create_ring job_property_int agent h m)\<lparr>sr_evicted := rm_evicted m\<rparr>) h = Some ring"
    "ring_invar ring" using ring_add_step by (metis ring_invar_channel)
  then show ?thesis using assms(1) by (auto simp: manager_add_def manager_invar_def)
qed

end
