(* ===== verification/Job_Run.thy ===== *)
theory Job_Run
  imports Status_Ring Context_Properties
begin

section \<open>Running jobs\<close>

text \<open>
  \<^verbatim>\<open>job/job.go\<close> and \<^verbatim>\<open>job/singleton.go\<close>: the registry of singleton locks, the set-up of a job from
  the properties of its context, and one run of it: the lock, the semaphores in order, the job's
  function, and what is undone on the way out. The job's function, the outcomes of waiting for a
  semaphore and of saving a row, and the clock are arguments. Jitter, spans, metrics, the log levels of
  the context and the cron runner are not modelled.
\<close>

subsection \<open>Singleton locks\<close>

text \<open>Each successful \<open>TryLock\<close> returns its own closure, which acts at most once (\<open>sync.Once\<close>): the
  closure is a number, with the key it frees and whether it has acted.\<close>

record registry =
  rg_running :: "string set"
  rg_unlocks :: "(string \<times> bool) list"

definition new_registry :: registry where
  "new_registry = \<lparr>rg_running = {}, rg_unlocks = []\<rparr>"

definition try_lock :: "string \<Rightarrow> registry \<Rightarrow> nat option \<times> registry" where
  "try_lock key r =
     (if key \<in> rg_running r then (None, r)
      else (Some (length (rg_unlocks r)),
            r\<lparr>rg_running := insert key (rg_running r), rg_unlocks := rg_unlocks r @ [(key, False)]\<rparr>))"

definition unlock :: "nat \<Rightarrow> registry \<Rightarrow> registry" where
  "unlock n r =
     (if n < length (rg_unlocks r) then
        (case rg_unlocks r ! n of
           (key, done) \<Rightarrow> if done then r
             else r\<lparr>rg_running := rg_running r - {key}, rg_unlocks := (rg_unlocks r)[n := (key, True)]\<rparr>)
      else r)"

text \<open>Goroutines that lock and unlock in any order, an unlock also repeatedly.\<close>

inductive lock_step :: "registry \<Rightarrow> registry \<Rightarrow> bool" where
  locks: "try_lock key r = (res, r') \<Longrightarrow> lock_step r r'"
| unlocks: "lock_step r (unlock n r)"

inductive_cases lock_stepE: "lock_step r r'"

definition holds_lock :: "registry \<Rightarrow> nat \<Rightarrow> string \<Rightarrow> bool" where
  "holds_lock r n key \<longleftrightarrow> n < length (rg_unlocks r) \<and> rg_unlocks r ! n = (key, False)"

definition registry_inv :: "registry \<Rightarrow> bool" where
  "registry_inv r \<longleftrightarrow> (\<forall>n m key. holds_lock r n key \<longrightarrow> holds_lock r m key \<longrightarrow> n = m)
     \<and> (\<forall>key. key \<in> rg_running r \<longleftrightarrow> (\<exists>n. holds_lock r n key))"

lemma holds_lock_lock:
  "holds_lock (r\<lparr>rg_running := K, rg_unlocks := rg_unlocks r @ [(key, False)]\<rparr>) n k \<longleftrightarrow>
    holds_lock r n k \<or> (n = length (rg_unlocks r) \<and> k = key)"
  by (auto simp: holds_lock_def nth_append less_Suc_eq)

lemma holds_lock_unlock:
  "m < length (rg_unlocks r) \<Longrightarrow>
   holds_lock (r\<lparr>rg_running := K, rg_unlocks := (rg_unlocks r)[m := (key, True)]\<rparr>) n k \<longleftrightarrow> holds_lock r n k \<and> n \<noteq> m"
  by (auto simp: holds_lock_def nth_list_update)

lemma try_lock_inv:
  assumes "registry_inv r" "try_lock key r = (res, r')"
  shows "registry_inv r'"
proof (cases "key \<in> rg_running r")
  case True
  then show ?thesis using assms by (simp add: try_lock_def)
next
  case False
  then have no: "\<not> holds_lock r n key" for n using assms(1) by (auto simp: registry_inv_def)
  have "r' = r\<lparr>rg_running := insert key (rg_running r), rg_unlocks := rg_unlocks r @ [(key, False)]\<rparr>"
    using assms(2) False by (simp add: try_lock_def)
  then show ?thesis
    using assms(1) no unfolding registry_inv_def by (simp add: holds_lock_lock) blast
qed

lemma unlock_inv:
  assumes "registry_inv r"
  shows "registry_inv (unlock n r)"
proof (cases "n < length (rg_unlocks r)")
  case True
  obtain key d where u: "rg_unlocks r ! n = (key, d)" by (cases "rg_unlocks r ! n")
  show ?thesis
  proof (cases d)
    case True
    then show ?thesis using assms u \<open>n < _\<close> by (simp add: unlock_def)
  next
    case False
    then have h: "holds_lock r n key" using u \<open>n < _\<close> by (simp add: holds_lock_def)
    have new: "unlock n r = r\<lparr>rg_running := rg_running r - {key}, rg_unlocks := (rg_unlocks r)[n := (key, True)]\<rparr>"
      using u False \<open>n < _\<close> by (simp add: unlock_def)
    have other: "holds_lock r m k \<Longrightarrow> k = key \<longleftrightarrow> m = n" for m k
      using h assms by (auto simp: registry_inv_def holds_lock_def)
    show ?thesis
      using assms other unfolding new registry_inv_def by (simp add: holds_lock_unlock [OF \<open>n < _\<close>]) (metis h)
  qed
qed (simp add: unlock_def assms)

text \<open>C17: In any interleaving of locks and unlocks, repeated unlocks included, at most one unlock closure of a
  key is pending, and the key is marked running exactly while one is: two singleton runs of the same
  job never overlap, and a finished run never frees the lock of a later one.\<close>
theorem singleton_exclusive:
  assumes "lock_step\<^sup>*\<^sup>* new_registry r"
  shows "(\<forall>n m key. holds_lock r n key \<and> holds_lock r m key \<longrightarrow> n = m)
    \<and> (\<forall>key. key \<in> rg_running r \<longleftrightarrow> (\<exists>n. holds_lock r n key))"
proof -
  have "registry_inv r"
    using assms
  proof (induction rule: rtranclp_induct)
    case base
    then show ?case by (simp add: registry_inv_def new_registry_def holds_lock_def)
  next
    case (step y z)
    from step.hyps(2) show ?case
      by (rule lock_stepE) (use step.IH try_lock_inv unlock_inv in blast)+
  qed
  then show ?thesis unfolding registry_inv_def by blast
qed

theorem singleton_exclusive_witness:
  "\<exists>r. lock_step\<^sup>*\<^sup>* new_registry r \<and> ''j'' \<in> rg_running r \<and> (\<forall>n m. holds_lock r n ''j'' \<and> holds_lock r m ''j'' \<longrightarrow> n = m)"
proof -
  obtain res r where l: "try_lock ''j'' new_registry = (res, r)" by (metis surj_pair)
  then have s: "lock_step\<^sup>*\<^sup>* new_registry r" using lock_step.locks by blast
  have "''j'' \<in> rg_running r" using l by (auto simp: try_lock_def new_registry_def)
  then show ?thesis using s singleton_exclusive [OF s] by blast
qed

subsection \<open>The job\<close>

record job =
  jb_name :: string
  jb_schedule :: string
  jb_singleton :: bool
  jb_debug :: bool
  jb_trace :: bool
  jb_timeout :: int
  jb_history :: bool
  jb_aliases :: "string list"
  jb_resource_id :: string
  jb_resource_type :: string
  jb_ignore_success_history :: bool
  jb_retention :: retention
  jb_initialized :: bool
  jb_ring :: "status_ring option"

definition new_job :: "string \<Rightarrow> string \<Rightarrow> job" where
  "new_job name schedule =
     \<lparr>jb_name = name, jb_schedule = schedule, jb_singleton = False, jb_debug = False, jb_trace = False,
      jb_timeout = 0, jb_history = True, jb_aliases = [], jb_resource_id = [], jb_resource_type = [],
      jb_ignore_success_history = False, jb_retention = retention_balanced, jb_initialized = False, jb_ring = None\<rparr>"

definition job_id :: "job \<Rightarrow> string" where
  "job_id j =
     (let name = trim_space (jb_name j); resource_id = trim_space (jb_resource_id j) in
      if resource_id = [] then name
      else name @ ''::'' @ trim_space (jb_resource_type j) @ ''/'' @ resource_id)"

fun aliases_loop :: "string list \<Rightarrow> string list \<Rightarrow> string list" where
  "aliases_loop seen [] = []"
| "aliases_loop seen (a # as) =
     (let alias = trim_space a in
      if alias = [] then aliases_loop seen as
      else if alias \<in> set seen then aliases_loop seen as
      else alias # aliases_loop (alias # seen) as)"

definition job_aliases :: "job \<Rightarrow> string list" where
  "job_aliases j = aliases_loop [] (jb_aliases j)"

definition primary_alias :: "job \<Rightarrow> string" where
  "primary_alias j = (case job_aliases j of [] \<Rightarrow> [] | a # _ \<Rightarrow> a)"

definition job_label :: "job \<Rightarrow> string" where
  "job_label j = (if primary_alias j \<noteq> [] then jb_name j @ ''/'' @ primary_alias j else jb_name j)"

definition property_names :: "job \<Rightarrow> string \<Rightarrow> string list" where
  "property_names j key =
     map (\<lambda>alias. ''jobs.'' @ jb_name j @ ''.'' @ alias @ ''.'' @ key) (job_aliases j)
     @ [''jobs.'' @ jb_name j @ ''.'' @ key, ''jobs.'' @ key]"

definition property_lookup_names :: "job \<Rightarrow> string \<Rightarrow> string list" where
  "property_lookup_names j key =
     (''jobs.'' @ jb_name j @ ''.'' @ key)
     # map (\<lambda>alias. ''jobs.'' @ jb_name j @ ''.'' @ alias @ ''.'' @ key) (job_aliases j)"

fun first_property :: "label_set \<Rightarrow> hprops \<Rightarrow> string list \<Rightarrow> string option" where
  "first_property cli props [] = None"
| "first_property cli props (name # names) =
     (let val = prop_string cli props name [] in if val \<noteq> [] then Some val else first_property cli props names)"

definition job_property :: "label_set \<Rightarrow> hprops \<Rightarrow> job \<Rightarrow> string \<Rightarrow> string option" where
  "job_property cli props j key = first_property cli props (property_lookup_names j key)"

fun first_int :: "label_set \<Rightarrow> hprops \<Rightarrow> int \<Rightarrow> string list \<Rightarrow> int" where
  "first_int cli props def [] = def"
| "first_int cli props def (name # names) =
     (let val = prop_int cli props name def in if val \<noteq> def then val else first_int cli props def names)"

definition job_property_int :: "label_set \<Rightarrow> hprops \<Rightarrow> job \<Rightarrow> string \<Rightarrow> int \<Rightarrow> int" where
  "job_property_int cli props j key def = first_int cli props def (property_lookup_names j key)"

text \<open>\<open>init\<close>: the settings the properties override, and the rings filled from the saved rows. An error
  leaves what was set so far and the job not initialized; \<open>None\<close> is a panic of the rings.\<close>

definition init_settings :: "label_set \<Rightarrow> hprops \<Rightarrow> (string \<Rightarrow> int option) \<Rightarrow> job \<Rightarrow> job" where
  "init_settings cli props parse_duration j =
     (let j = (case job_property cli props j ''schedule'' of Some s \<Rightarrow> j\<lparr>jb_schedule := s\<rparr> | None \<Rightarrow> j);
          j = (case job_property cli props j ''timeout'' of
                 Some t \<Rightarrow> j\<lparr>jb_timeout := (case parse_duration t of Some d \<Rightarrow> d | None \<Rightarrow> 0)\<rparr> | None \<Rightarrow> j);
          j = j\<lparr>jb_history := prop_on cli props True (property_names j ''history'')\<rparr>;
          j = j\<lparr>jb_retention := (jb_retention j)\<lparr>rt_success :=
                 job_property_int cli props j ''retention.success'' (rt_success (jb_retention j))\<rparr>\<rparr>;
          j = j\<lparr>jb_retention := (jb_retention j)\<lparr>rt_failed :=
                 job_property_int cli props j ''retention.failed'' (rt_failed (jb_retention j))\<rparr>\<rparr>;
          j = j\<lparr>jb_trace := prop_on cli props False (property_names j ''trace'')\<rparr>;
          j = j\<lparr>jb_debug := prop_on cli props False (property_names j ''debug'')\<rparr>;
          j = j\<lparr>jb_singleton := prop_on cli props (jb_singleton j) (property_names j ''singleton'')\<rparr>
      in if retention_empty (jb_retention j) then j\<lparr>jb_retention := \<lparr>rt_success = 1, rt_failed = 3\<rparr>\<rparr> else j)"

definition init_job ::
  "label_set \<Rightarrow> hprops \<Rightarrow> (string \<Rightarrow> int option) \<Rightarrow> string + history list \<Rightarrow> string list \<Rightarrow> job
   \<Rightarrow> ((string + unit) \<times> job) option" where
  "init_job cli props parse_duration rows channel j =
     (if jb_initialized j then Some (Inr (), j)
      else (let j = init_settings cli props parse_duration j;
                ring = new_status_ring (jb_retention j) (jb_singleton j) channel in
            case populate_from_db ring rows of
              None \<Rightarrow> None
            | Some (Inl e) \<Rightarrow> Some (Inl (''error populating status ring: '' @ e), j\<lparr>jb_ring := Some ring\<rparr>)
            | Some (Inr ring) \<Rightarrow> Some (Inr (), j\<lparr>jb_ring := Some ring, jb_initialized := True\<rparr>)))"

subsection \<open>One run\<close>

text \<open>What a run does, in order: rows saved, with their status, locks and semaphores taken and freed, the
  call of the job's function, and the status handed to the ring.\<close>

datatype run_event = Saved string | LockTaken nat | SemTaken nat | Called | SemFreed nat | LockFreed nat | Recorded string

definition run_start :: "job \<Rightarrow> int \<Rightarrow> (history \<Rightarrow> string) \<Rightarrow> run_event list \<times> history" where
  "run_start j now save =
     (let h = start_history now (new_history (jb_name j) [] []);
          h = (if jb_resource_id j \<noteq> [] then h\<lparr>jh_resource_id := jb_resource_id j\<rparr> else h);
          h = (if jb_resource_type j \<noteq> [] then h\<lparr>jh_resource_type := jb_resource_type j\<rparr> else h)
      in if jb_history j \<and> rt_success (jb_retention j) > 0 \<and> \<not> jb_ignore_success_history j
         then ([Saved (jh_status h)], h\<lparr>jh_id := save h\<rparr>) else ([], h))"

definition run_end :: "job \<Rightarrow> int \<Rightarrow> (history \<Rightarrow> string) \<Rightarrow> history \<Rightarrow> run_event list \<times> history" where
  "run_end j now save h =
     (let h = end_history now h;
          keep = jb_history j \<and> (rt_success (jb_retention j) > 0 \<or> length (jh_errors h) > 0) \<and> \<not> jb_ignore_success_history j;
          h = (if keep then h\<lparr>jh_id := save h\<rparr> else h)
      in ((if keep then [Saved (jh_status h)] else []) @ [Recorded (jh_status h)], h))"

definition skip_run :: "history \<Rightarrow> history" where
  "skip_run h = h\<lparr>jh_status := status_skipped\<rparr>"

text \<open>The semaphores that are taken, in order, until one cannot be.\<close>

fun acquire_all :: "(nat \<times> bool) list \<Rightarrow> nat list \<times> bool" where
  "acquire_all [] = ([], True)"
| "acquire_all ((s, ok) # sems) =
     (if ok then (case acquire_all sems of (taken, all_ok) \<Rightarrow> (s # taken, all_ok)) else ([], False))"

definition run_guarded ::
  "(nat \<times> bool) list \<Rightarrow> (history \<Rightarrow> history \<times> string option) \<Rightarrow> bool \<Rightarrow> int \<Rightarrow> history \<Rightarrow> run_event list \<times> history" where
  "run_guarded sems fn formats now h =
     (case acquire_all sems of
        (taken, all_ok) \<Rightarrow>
          (let body = (if \<not> all_ok then ([], skip_run h)
                       else (case fn h of
                               (h, Some err) \<Rightarrow> ([Called], add_error_text formats now err h)
                             | (h, None) \<Rightarrow> ([Called], h)))
           in (map SemTaken taken @ fst body @ map SemFreed (rev taken), snd body)))"

definition run_locked ::
  "job \<Rightarrow> (registry \<Rightarrow> registry) \<Rightarrow> (nat \<times> bool) list \<Rightarrow> (history \<Rightarrow> history \<times> string option) \<Rightarrow> bool \<Rightarrow> int
   \<Rightarrow> history \<Rightarrow> registry \<Rightarrow> run_event list \<times> history \<times> registry" where
  "run_locked j meanwhile sems fn formats now h reg =
     (if jb_singleton j then
        (case try_lock (job_id j) reg of
           (None, reg) \<Rightarrow> ([], skip_run h, reg)
         | (Some n, reg) \<Rightarrow>
             (case run_guarded sems fn formats now h of
                (ev, h) \<Rightarrow> ([LockTaken n] @ ev @ [LockFreed n], h, unlock n (meanwhile reg))))
      else (case run_guarded sems fn formats now h of (ev, h) \<Rightarrow> (ev, h, meanwhile reg)))"

text \<open>\<open>Run\<close>, after the jitter; \<open>init\<close> is the outcome of \<open>init_job\<close>, \<open>meanwhile\<close> what other runs do to the
  registry, \<open>clock\<close> the time at the start, at the function's error and at the end; \<open>save\<close> gives the id of a saved row.\<close>

definition run_job ::
  "string + unit \<Rightarrow> label_set \<Rightarrow> hprops \<Rightarrow> job \<Rightarrow> (registry \<Rightarrow> registry) \<Rightarrow> (nat \<times> bool) list
   \<Rightarrow> (history \<Rightarrow> history \<times> string option) \<Rightarrow> bool \<Rightarrow> int \<times> int \<times> int \<Rightarrow> (history \<Rightarrow> string) \<Rightarrow> registry
   \<Rightarrow> run_event list \<times> history option \<times> registry" where
  "run_job init cli props j meanwhile sems fn formats clock save reg =
     (case init of
        Inl e \<Rightarrow> ([], None, reg)
      | Inr u \<Rightarrow>
          if prop_on cli props False (property_names j ''disable'') \<or> prop_on cli props False (property_names j ''disabled'')
          then ([], None, reg)
          else (case run_start j (fst clock) save of
                  (ev1, h) \<Rightarrow>
                    (case run_locked j meanwhile sems fn formats (fst (snd clock)) h reg of
                       (ev2, h, reg) \<Rightarrow>
                         (case run_end j (snd (snd clock)) save h of
                            (ev3, h) \<Rightarrow> (ev1 @ ev2 @ ev3, Some h, reg)))))"

text \<open>What is taken and freed in a trace.\<close>

definition sems_taken :: "run_event list \<Rightarrow> nat list" where
  "sems_taken ev = concat (map (\<lambda>e. case e of SemTaken s \<Rightarrow> [s] | _ \<Rightarrow> []) ev)"

definition sems_freed :: "run_event list \<Rightarrow> nat list" where
  "sems_freed ev = concat (map (\<lambda>e. case e of SemFreed s \<Rightarrow> [s] | _ \<Rightarrow> []) ev)"

definition locks_taken :: "run_event list \<Rightarrow> nat list" where
  "locks_taken ev = concat (map (\<lambda>e. case e of LockTaken n \<Rightarrow> [n] | _ \<Rightarrow> []) ev)"

definition locks_freed :: "run_event list \<Rightarrow> nat list" where
  "locks_freed ev = concat (map (\<lambda>e. case e of LockFreed n \<Rightarrow> [n] | _ \<Rightarrow> []) ev)"

named_theorems traces \<open>the projections of a trace\<close>
declare sems_taken_def [traces] sems_freed_def [traces] locks_taken_def [traces] locks_freed_def [traces]

lemma acquire_all_taken: "acquire_all sems = (taken, ok) \<Longrightarrow>
    taken = map fst (takeWhile snd sems) \<and> (ok \<longleftrightarrow> (\<forall>s \<in> set sems. snd s))"
  by (induction sems arbitrary: taken ok rule: acquire_all.induct) (auto split: prod.splits if_splits)

lemma trace_append [simp]:
  "sems_taken (a @ b) = sems_taken a @ sems_taken b" "sems_freed (a @ b) = sems_freed a @ sems_freed b"
  "locks_taken (a @ b) = locks_taken a @ locks_taken b" "locks_freed (a @ b) = locks_freed a @ locks_freed b"
  by (simp_all add: traces)

lemma trace_maps [simp]:
  "sems_taken (map SemTaken xs) = xs" "sems_freed (map SemTaken xs) = []"
  "locks_taken (map SemTaken xs) = []" "locks_freed (map SemTaken xs) = []"
  "sems_taken (map SemFreed xs) = []" "sems_freed (map SemFreed xs) = xs"
  "locks_taken (map SemFreed xs) = []" "locks_freed (map SemFreed xs) = []"
  by (induction xs) (simp_all add: traces)

lemma trace_lock [simp]:
  "sems_taken [] = []" "sems_freed [] = []" "locks_taken [] = []" "locks_freed [] = []"
  "sems_taken [Called] = []" "sems_freed [Called] = []" "locks_taken [Called] = []" "locks_freed [Called] = []"
  "sems_taken [LockTaken n] = []" "sems_freed [LockTaken n] = []" "locks_taken [LockTaken n] = [n]" "locks_freed [LockTaken n] = []"
  "sems_taken [LockFreed n] = []" "sems_freed [LockFreed n] = []" "locks_taken [LockFreed n] = []" "locks_freed [LockFreed n] = [n]"
  by (simp_all add: traces)

lemma run_guarded_trace:
  assumes "run_guarded sems fn formats now h = (ev, h')"
  shows "sems_taken ev = map fst (takeWhile snd sems) \<and> sems_freed ev = rev (sems_taken ev)
    \<and> locks_taken ev = [] \<and> locks_freed ev = []
    \<and> (Called \<in> set ev \<longleftrightarrow> (\<forall>s \<in> set sems. snd s)) \<and> (Called \<notin> set ev \<longrightarrow> h' = skip_run h)"
proof -
  obtain taken ok where a: "acquire_all sems = (taken, ok)" by (metis surj_pair)
  note taken = acquire_all_taken [OF a]
  show ?thesis
  proof (cases ok)
    case True
    have "ev = map SemTaken taken @ [Called] @ map SemFreed (rev taken)"
      using assms a True by (auto simp: run_guarded_def split: prod.splits option.splits)
    then show ?thesis using taken True by (simp only: trace_append trace_maps trace_lock) auto
  next
    case False
    then have ev: "ev = map SemTaken taken @ [] @ map SemFreed (rev taken)" "h' = skip_run h"
      using assms a by (auto simp: run_guarded_def)
    then have "Called \<notin> set ev" by auto
    then show ?thesis using taken False ev by (simp only: trace_append trace_maps trace_lock) auto
  qed
qed

lemma unlock_frees: "\<not> holds_lock (unlock n r) n key"
  by (auto simp: unlock_def holds_lock_def nth_list_update split: prod.splits if_splits)

lemma run_ends_trace [simp]:
  "sems_taken (fst (run_start j t save)) = []" "sems_freed (fst (run_start j t save)) = []"
  "locks_taken (fst (run_start j t save)) = []" "locks_freed (fst (run_start j t save)) = []"
  "sems_taken (fst (run_end j t save h)) = []" "sems_freed (fst (run_end j t save h)) = []"
  "locks_taken (fst (run_end j t save h)) = []" "locks_freed (fst (run_end j t save h)) = []"
  "Called \<notin> set (fst (run_start j t save))" "Called \<notin> set (fst (run_end j t save h))"
  by (simp_all add: run_start_def run_end_def Let_def traces)

lemma run_locked_trace:
  assumes "run_locked j meanwhile sems fn formats now h reg = (ev, h', reg')"
  shows "sems_freed ev = rev (sems_taken ev) \<and> locks_freed ev = locks_taken ev
    \<and> (Called \<in> set ev \<longleftrightarrow> (jb_singleton j \<longrightarrow> job_id j \<notin> rg_running reg) \<and> (\<forall>s \<in> set sems. snd s))
    \<and> (Called \<notin> set ev \<longrightarrow> h' = skip_run h)
    \<and> (\<forall>n \<in> set (locks_taken ev). \<not> holds_lock reg' n (job_id j))"
proof -
  obtain ev0 h0 where g: "run_guarded sems fn formats now h = (ev0, h0)" by (metis surj_pair)
  note t = run_guarded_trace [OF g]
  show ?thesis
  proof (cases "jb_singleton j \<and> job_id j \<in> rg_running reg")
    case True
    then have "ev = []" "h' = skip_run h" using assms by (auto simp: run_locked_def try_lock_def)
    then show ?thesis using True by (simp add: traces)
  next
    case False
    show ?thesis
    proof (cases "jb_singleton j")
      case True
      then obtain n where "ev = [LockTaken n] @ ev0 @ [LockFreed n]" "h' = h0" "\<exists>r. reg' = unlock n r"
        using assms False g by (auto simp: run_locked_def try_lock_def)
      then have ev: "ev = [LockTaken n] @ ev0 @ [LockFreed n]" and h: "h' = h0" and r: "\<not> holds_lock reg' n (job_id j)"
        using unlock_frees by auto
      show ?thesis unfolding ev h trace_append trace_lock using t False True r by simp
    next
      case False
      then have "ev = ev0" "h' = h0" using assms g by (auto simp: run_locked_def)
      then show ?thesis using t False by simp
    qed
  qed
qed

lemma run_end_skipped:
  "jh_status h = status_skipped \<Longrightarrow> last (fst (run_end j t save h)) = Recorded status_skipped"
  by (simp add: run_end_def Let_def end_history_status job_statuses)

lemma run_end_ne [simp]: "fst (run_end j t save h) \<noteq> []"
  by (simp add: run_end_def Let_def)

text \<open>C18: On every path through a run, whatever fails, the semaphores are freed in the reverse order they were
  taken in and the lock is freed if it was taken; the job's function runs exactly when the run is not
  disabled and the lock and all semaphores were obtained; a run that does not reach it is recorded as
  skipped, last of all.\<close>
theorem run_releases:
  "case run_job init cli props j meanwhile sems fn formats clock save reg of
     (ev, h, reg') \<Rightarrow>
       sems_freed ev = rev (sems_taken ev) \<and> locks_freed ev = locks_taken ev
     \<and> (Called \<in> set ev \<longleftrightarrow> h \<noteq> None \<and> (jb_singleton j \<longrightarrow> job_id j \<notin> rg_running reg) \<and> (\<forall>s \<in> set sems. snd s))
     \<and> (h \<noteq> None \<and> Called \<notin> set ev \<longrightarrow> last ev = Recorded status_skipped)
     \<and> (\<forall>n \<in> set (locks_taken ev). \<not> holds_lock reg' n (job_id j))"
proof (cases "run_job init cli props j meanwhile sems fn formats clock save reg = ([], None, reg)")
  case True
  then show ?thesis by (simp add: traces)
next
  case False
  obtain ev1 h1 where s: "run_start j (fst clock) save = (ev1, h1)" by (metis surj_pair)
  obtain ev2 h2 reg2 where l: "run_locked j meanwhile sems fn formats (fst (snd clock)) h1 reg = (ev2, h2, reg2)"
    by (metis prod_cases3)
  obtain ev3 h3 where e: "run_end j (snd (snd clock)) save h2 = (ev3, h3)" by (metis surj_pair)
  have res: "run_job init cli props j meanwhile sems fn formats clock save reg = (ev1 @ ev2 @ ev3, Some h3, reg2)"
    using False s l e by (auto simp: run_job_def split: sum.splits if_splits)
  have ev1: "ev1 = fst (run_start j (fst clock) save)" and ev3: "ev3 = fst (run_end j (snd (snd clock)) save h2)"
    using s e by simp_all
  note body = run_locked_trace [OF l]
  have ne: "ev3 \<noteq> []" using run_end_ne [of j "snd (snd clock)" save h2] e by simp
  have "last ev3 = Recorded status_skipped" if "Called \<notin> set ev2"
  proof -
    have "jh_status h2 = status_skipped" using body that by (simp add: skip_run_def)
    then show ?thesis using run_end_skipped [of h2 j "snd (snd clock)" save] e by simp
  qed
  then show ?thesis unfolding res prod.case using body ne by (simp add: ev1 ev3 run_ends_trace)
qed

definition nightly :: job where
  "nightly = (new_job ''nightly'' ''@daily'')\<lparr>jb_singleton := True\<rparr>"

theorem run_releases_witness:
  "case run_job (Inr ()) [] (HProps [] None []) nightly id [(0, True), (1, False)] (\<lambda>h. (h, None)) False (1, 2, 3) (\<lambda>h. ''7'') new_registry of
     (ev, h, reg') \<Rightarrow> sems_freed ev = rev (sems_taken ev) \<and> Called \<notin> set ev \<and> last ev = Recorded status_skipped"
proof -
  obtain ev h reg' where r: "run_job (Inr ()) [] (HProps [] None []) nightly id [(0, True), (1, False)] (\<lambda>h. (h, None)) False (1, 2, 3) (\<lambda>h. ''7'') new_registry
      = (ev, h, reg')" by (metis prod_cases3)
  have none: "prop_on [] (HProps [] None []) False names = False" for names
    by (induction names) (simp_all add: cli_get_def)
  have "h \<noteq> None" using r by (auto simp: run_job_def none split: prod.splits)
  then show ?thesis
    using run_releases [where init = "Inr ()" and cli = "[]" and props = "HProps [] None []" and j = nightly and meanwhile = id
        and sems = "[(0, True), (1, False)]" and fn = "\<lambda>h. (h, None)" and formats = False and clock = "(1, 2, 3)"
        and save = "\<lambda>h. ''7''" and reg = new_registry]
    unfolding r by auto
qed

subsection \<open>What a run saves\<close>

text \<open>A row that was saved as running at the start is always saved again at the end, and the saves are what
  the retention and the flags of the job allow.\<close>

lemma saved_start_saved_end:
  "fst (run_start j t save) \<noteq> [] \<Longrightarrow> \<exists>st. Saved st \<in> set (fst (run_end j t' save' h))"
  by (auto simp: run_start_def run_end_def Let_def split: if_splits)

end
