(* ===== verification/Playbook_Runs.thy ===== *)
theory Playbook_Runs
  imports Label_Set "HOL-Library.AList"
begin

section \<open>Playbook runs\<close>

text \<open>
  \<^verbatim>\<open>models/playbooks.go\<close> and the parts of \<^verbatim>\<open>models/notifications.go\<close> a run reaches: the operations
  on the runs, their actions, and the notification a run was started for. The tables are lists of
  rows; every call to the database takes its outcome, an error or success, from a list, so each error
  return of the code is a case. A method has a copy of its row as receiver and writes by id. The
  clock, new ids, and the JSON functions are arguments.
\<close>

subsection \<open>Rows\<close>

datatype run_status = Cancelled | TimedOut | Completed | RunFailed | PendingApproval | Running
  | Scheduled | Sleeping | Retrying | Waiting

datatype action_status = WaitingChildren | ActionCompleted | ActionFailed | ActionRunning
  | ActionScheduled | ActionWaiting | ActionSkipped | ActionSleeping

definition action_final_states :: "action_status list" where
  "action_final_states = [ActionFailed, ActionCompleted, ActionSkipped]"

definition unsuccessful_final_states :: "run_status list" where
  "unsuccessful_final_states = [Cancelled, RunFailed, TimedOut]"

definition run_final_states :: "run_status list" where
  "run_final_states = [Cancelled, Completed, RunFailed, TimedOut]"

definition run_executing_group :: "run_status list" where
  "run_executing_group = [Running, Scheduled, Sleeping, Retrying, Waiting, PendingApproval]"

record run =
  pr_id :: string
  pr_status :: run_status
  pr_start :: "int option"
  pr_scheduled :: int
  pr_end :: "int option"
  pr_error :: "string option"
  pr_parent :: "string option"
  pr_notification :: "string option"

datatype stored_result = ResultText string | ResultMap label_set

record action =
  pa_id :: string
  pa_name :: string
  pa_run :: string
  pa_status :: action_status
  pa_scheduled :: int
  pa_start :: "int option"
  pa_end :: "int option"
  pa_result :: "stored_result option"
  pa_error :: "string option"
  pa_agent :: "string option"
  pa_retry :: int

record send_history =
  sh_id :: string
  sh_notification :: string
  sh_status :: string
  sh_error :: "string option"
  sh_payload :: label_set
  sh_first_observed :: int
  sh_source_event :: string
  sh_resource :: string
  sh_parent :: "string option"
  sh_not_before :: "int option"

record notification =
  nf_id :: string
  nf_custom_services :: string
  nf_fallback_playbook :: "string option"
  nf_fallback_person :: "string option"
  nf_fallback_team :: "string option"
  nf_fallback_custom_services :: string
  nf_fallback_delay :: "int option"

record playbook_db =
  db_runs :: "run list"
  db_actions :: "action list"
  db_sends :: "send_history list"
  db_notifications :: "notification list"
  db_outcomes :: "string option list"

subsection \<open>Calls to the database\<close>

type_synonym 'a db_op = "playbook_db \<Rightarrow> (string + 'a) \<times> playbook_db"

text \<open>A call takes the next outcome; when there is none left it succeeds.\<close>

definition db_call :: "(playbook_db \<Rightarrow> string + 'a) \<Rightarrow> (playbook_db \<Rightarrow> playbook_db) \<Rightarrow> 'a db_op" where
  "db_call q f s =
     (case db_outcomes s of
        Some e # os \<Rightarrow> (Inl e, s\<lparr>db_outcomes := os\<rparr>)
      | os \<Rightarrow> (q s, f (s\<lparr>db_outcomes := tl os\<rparr>)))"

definition db_write :: "(playbook_db \<Rightarrow> playbook_db) \<Rightarrow> unit db_op" where
  "db_write f = db_call (\<lambda>s. Inr ()) f"

definition db_read :: "(playbook_db \<Rightarrow> string + 'a) \<Rightarrow> 'a db_op" where
  "db_read q = db_call q id"

definition db_return :: "'a \<Rightarrow> 'a db_op" where
  "db_return x s = (Inr x, s)"

definition db_bind :: "'a db_op \<Rightarrow> ('a \<Rightarrow> 'b db_op) \<Rightarrow> 'b db_op" where
  "db_bind m k s = (case m s of (Inl e, s') \<Rightarrow> (Inl e, s') | (Inr x, s') \<Rightarrow> k x s')"

text \<open>An error return that adds a text to the error it got.\<close>

definition db_wrap :: "string \<Rightarrow> 'a db_op \<Rightarrow> 'a db_op" where
  "db_wrap msg m s = (case m s of (Inl e, s') \<Rightarrow> (Inl (msg @ e), s') | r \<Rightarrow> r)"

text \<open>\<open>db.Transaction\<close>: the commit is a call of its own; an error leaves the tables as they were.\<close>

definition db_transaction :: "'a db_op \<Rightarrow> 'a db_op" where
  "db_transaction m s =
     (case db_bind m (\<lambda>x. db_bind (db_write id) (\<lambda>u. db_return x)) s of
        (Inl e, s') \<Rightarrow> (Inl e, s\<lparr>db_outcomes := db_outcomes s'\<rparr>)
      | (Inr x, s') \<Rightarrow> (Inr x, s'))"

definition update_run :: "string \<Rightarrow> (run \<Rightarrow> run) \<Rightarrow> unit db_op" where
  "update_run i f = db_write (\<lambda>s. s\<lparr>db_runs := map (\<lambda>r. if pr_id r = i then f r else r) (db_runs s)\<rparr>)"

definition update_action :: "string \<Rightarrow> (action \<Rightarrow> action) \<Rightarrow> unit db_op" where
  "update_action i f = db_write (\<lambda>s. s\<lparr>db_actions := map (\<lambda>a. if pa_id a = i then f a else a) (db_actions s)\<rparr>)"

definition save_action :: "action \<Rightarrow> unit db_op" where
  "save_action a = db_write (\<lambda>s. s\<lparr>db_actions := db_actions s @ [a]\<rparr>)"

subsection \<open>The operations of a run\<close>

definition started :: "int \<Rightarrow> run \<Rightarrow> run" where
  "started now r = r\<lparr>pr_start := (case pr_start r of None \<Rightarrow> Some now | Some t \<Rightarrow> Some t)\<rparr>"

definition schedule_run :: "int \<Rightarrow> string \<Rightarrow> unit db_op" where
  "schedule_run now i = update_run i (\<lambda>r. r\<lparr>pr_status := Scheduled, pr_scheduled := now\<rparr>)"

definition retry_run :: "int \<Rightarrow> int \<Rightarrow> string \<Rightarrow> unit db_op" where
  "retry_run now delay i = update_run i (\<lambda>r. (started now r)\<lparr>pr_status := Retrying, pr_scheduled := now + delay\<rparr>)"

definition delay_run :: "int \<Rightarrow> int \<Rightarrow> string \<Rightarrow> unit db_op" where
  "delay_run now delay i = update_run i (\<lambda>r. (started now r)\<lparr>pr_status := Sleeping, pr_scheduled := now + delay\<rparr>)"

definition run_waiting :: "int \<Rightarrow> string \<Rightarrow> unit db_op" where
  "run_waiting now i = update_run i (\<lambda>r. (started now r)\<lparr>pr_status := Waiting\<rparr>)"

definition run_running :: "int \<Rightarrow> string \<Rightarrow> unit db_op" where
  "run_running now i = update_run i (\<lambda>r. (started now r)\<lparr>pr_status := Running\<rparr>)"

definition fail_run :: "int \<Rightarrow> string \<Rightarrow> string \<Rightarrow> unit db_op" where
  "fail_run now err i = update_run i (\<lambda>r. r\<lparr>pr_error := Some err, pr_end := Some now, pr_status := RunFailed\<rparr>)"

definition new_action :: "string \<Rightarrow> int \<Rightarrow> string \<Rightarrow> string \<Rightarrow> action_status \<Rightarrow> string option \<Rightarrow> int \<Rightarrow> action" where
  "new_action new_id now i name status agent retry =
     \<lparr>pa_id = new_id, pa_name = name, pa_run = i, pa_status = status, pa_scheduled = now, pa_start = None,
      pa_end = None, pa_result = None, pa_error = None, pa_agent = agent, pa_retry = retry\<rparr>"

definition assign_action :: "string \<Rightarrow> int \<Rightarrow> string \<Rightarrow> string \<Rightarrow> string \<Rightarrow> unit db_op" where
  "assign_action new_id now agent name i =
     db_bind (save_action (new_action new_id now i name ActionWaiting (Some agent) 0)) (\<lambda>u. run_waiting now i)"

definition retry_action :: "string \<Rightarrow> int \<Rightarrow> string \<Rightarrow> int \<Rightarrow> string \<Rightarrow> action db_op" where
  "retry_action new_id now name retry i =
     (let a = new_action new_id now i name ActionScheduled None retry in
      db_bind (save_action a) (\<lambda>u. db_bind (run_running now i) (\<lambda>u. db_return a)))"

definition start_action :: "string \<Rightarrow> int \<Rightarrow> string \<Rightarrow> string \<Rightarrow> action db_op" where
  "start_action new_id now name i =
     (let a = new_action new_id now i name ActionScheduled None 0 in
      db_bind (save_action a) (\<lambda>u. db_bind (run_running now i) (\<lambda>u. db_return a)))"

text \<open>Resuming the action of a parent that waits for its children.\<close>

definition children_done :: "string \<Rightarrow> playbook_db \<Rightarrow> nat" where
  "children_done i s =
     length (filter (\<lambda>parent. pr_id parent = i \<and> pr_status parent = Running
       \<and> \<not> list_ex (\<lambda>child. pr_parent child = Some (pr_id parent) \<and> pr_status child \<notin> set run_final_states) (db_runs s))
       (db_runs s))"

definition resume_waiting :: "string \<Rightarrow> playbook_db \<Rightarrow> playbook_db" where
  "resume_waiting i s = s\<lparr>db_actions := map (\<lambda>a.
     if pa_run a = i \<and> pa_status a = WaitingChildren then a\<lparr>pa_status := ActionScheduled\<rparr> else a) (db_actions s)\<rparr>"

definition resume_children_waiting :: "string \<Rightarrow> unit db_op" where
  "resume_children_waiting i =
     db_transaction
       (db_bind (db_wrap ''failed to query parent playbook runs: '' (db_read (\<lambda>s. Inr (children_done i s))))
         (\<lambda>count. if count = 0 then db_return ()
                  else db_wrap ''failed to update parent playbook runs: '' (db_write (resume_waiting i))))"

text \<open>Notifications: the next attempt through the fallback recipients.\<close>

definition has_fallback_set :: "notification \<Rightarrow> bool" where
  "has_fallback_set n \<longleftrightarrow> nf_fallback_team n \<noteq> None \<or> nf_fallback_person n \<noteq> None
     \<or> length (nf_fallback_custom_services n) \<noteq> 0 \<or> nf_fallback_playbook n \<noteq> None"

definition set_if :: "string \<Rightarrow> string option \<Rightarrow> label_set \<Rightarrow> label_set" where
  "set_if key v m = (case v of None \<Rightarrow> m | Some x \<Rightarrow> AList.update key x m)"

definition fallback_payload :: "notification \<Rightarrow> label_set \<Rightarrow> label_set" where
  "fallback_payload n payload =
     (let p = merge_maps [] payload;
          p = set_if ''team_id'' (nf_fallback_team n) p;
          p = set_if ''person_id'' (nf_fallback_person n) p;
          p = set_if ''playbook_id'' (nf_fallback_playbook n) p
      in if length (nf_custom_services n) \<noteq> 0
         then AList.update ''custom_service'' (nf_fallback_custom_services n) p else p)"

definition fallback_attempt :: "string \<Rightarrow> int \<Rightarrow> notification \<Rightarrow> send_history \<Rightarrow> send_history" where
  "fallback_attempt new_id now n h =
     \<lparr>sh_id = new_id, sh_notification = sh_notification h, sh_status = ''attempting_fallback'', sh_error = None,
      sh_payload = fallback_payload n (sh_payload h), sh_first_observed = sh_first_observed h,
      sh_source_event = sh_source_event h, sh_resource = sh_resource h, sh_parent = Some (sh_id h),
      sh_not_before = Some (case nf_fallback_delay n of None \<Rightarrow> now | Some d \<Rightarrow> now + d)\<rparr>"

definition generate_fallback_attempt :: "string \<Rightarrow> int \<Rightarrow> notification \<Rightarrow> send_history \<Rightarrow> unit db_op" where
  "generate_fallback_attempt new_id now n h =
     db_write (\<lambda>s. s\<lparr>db_sends := db_sends s @ [fallback_attempt new_id now n h]\<rparr>)"

definition record_not_found :: string where "record_not_found = ''record not found''"

definition find_send :: "string \<Rightarrow> playbook_db \<Rightarrow> string + send_history" where
  "find_send i s = (case find (\<lambda>h. sh_id h = i) (db_sends s) of None \<Rightarrow> Inl record_not_found | Some h \<Rightarrow> Inr h)"

definition find_notification :: "string \<Rightarrow> playbook_db \<Rightarrow> string + notification" where
  "find_notification i s =
     (case find (\<lambda>n. nf_id n = i) (db_notifications s) of None \<Rightarrow> Inl record_not_found | Some n \<Rightarrow> Inr n)"

definition send_outcome :: "run_status \<Rightarrow> send_history \<Rightarrow> send_history" where
  "send_outcome status h =
     (if status \<in> set unsuccessful_final_states
      then h\<lparr>sh_status := ''error'', sh_error := Some
             (if status = TimedOut then ''playbook timed out''
              else if status = Cancelled then ''playbook was cancelled''
              else ''playbook failed with an error. For more details, see playbook run'')\<rparr>
      else h\<lparr>sh_status := ''sent''\<rparr>)"

definition notify_end :: "string \<Rightarrow> int \<Rightarrow> run_status \<Rightarrow> string \<Rightarrow> unit db_op" where
  "notify_end new_id now status send =
     db_bind (db_write (\<lambda>s. s\<lparr>db_sends := map (\<lambda>h. if sh_id h = send then send_outcome status h else h) (db_sends s)\<rparr>))
       (\<lambda>u. db_bind (db_wrap ''failed to get notification send history: '' (db_read (find_send send)))
         (\<lambda>h. db_bind (db_wrap ''failed to get notification: '' (db_read (find_notification (sh_notification h))))
           (\<lambda>n. if status \<in> set unsuccessful_final_states \<and> has_fallback_set n
                 then db_wrap ''failed to generate fallback attempt: '' (generate_fallback_attempt new_id now n h)
                 else db_return ())))"

definition end_with_status :: "string \<Rightarrow> int \<Rightarrow> run_status \<Rightarrow> run \<Rightarrow> unit db_op" where
  "end_with_status new_id now status p =
     db_bind (update_run (pr_id p) (\<lambda>r. r\<lparr>pr_status := status, pr_end := Some now\<rparr>))
       (\<lambda>u. db_bind (case pr_notification p of Some send \<Rightarrow> notify_end new_id now status send | None \<Rightarrow> db_return ())
         (\<lambda>u. case pr_parent p of
                Some parent \<Rightarrow> db_wrap ''failed to resume action awaiting children: '' (resume_children_waiting parent)
              | None \<Rightarrow> db_return ()))"

definition end_run :: "string \<Rightarrow> int \<Rightarrow> run \<Rightarrow> unit db_op" where
  "end_run new_id now p =
     db_bind (db_read (\<lambda>s. Inr (map pa_status (filter (\<lambda>a. pa_run a = pr_id p) (db_actions s)))))
       (\<lambda>statuses. end_with_status new_id now
          (if find (\<lambda>i. i = ActionFailed) statuses \<noteq> None then RunFailed else Completed) p)"

definition end_as_timed_out :: "string \<Rightarrow> int \<Rightarrow> run \<Rightarrow> unit db_op" where
  "end_as_timed_out new_id now p = end_with_status new_id now TimedOut p"

definition cancel_run :: "string \<Rightarrow> int \<Rightarrow> run \<Rightarrow> unit db_op" where
  "cancel_run new_id now p = end_with_status new_id now Cancelled p"

subsection \<open>The operations of an action\<close>

datatype result_value = NilResult | TextResult string | BytesResult string | OtherResult string

text \<open>\<open>marshallResult\<close>: \<open>valid_json\<close> is whether \<open>json.Unmarshal\<close> accepts a text, \<open>wrap_json\<close> the JSON object
  with the text as its \<open>result\<close>; another value comes with its JSON text.\<close>

definition marshall_result :: "(string \<Rightarrow> bool) \<Rightarrow> (string \<Rightarrow> string) \<Rightarrow> result_value \<Rightarrow> string" where
  "marshall_result valid_json wrap_json result =
     (case result of
        NilResult \<Rightarrow> ''{}''
      | TextResult v \<Rightarrow> if v = [] then ''{}'' else if valid_json v then v else wrap_json v
      | BytesResult v \<Rightarrow> if length v = 0 then ''{}'' else if valid_json v then v else wrap_json v
      | OtherResult b \<Rightarrow> b)"

definition action_started :: "int \<Rightarrow> action \<Rightarrow> action" where
  "action_started now a = a\<lparr>pa_start := (case pa_start a of None \<Rightarrow> Some now | Some t \<Rightarrow> Some t)\<rparr>"

definition action_start :: "int \<Rightarrow> action \<Rightarrow> unit db_op" where
  "action_start now p = update_action (pa_id p) (\<lambda>a. (action_started now a)\<lparr>pa_status := ActionRunning\<rparr>)"

text \<open>The error of a failed action: its text and, for a structured one, its map as JSON.\<close>

definition fail_result ::
  "(string \<Rightarrow> bool) \<Rightarrow> (string \<Rightarrow> string) \<Rightarrow> (result_value \<Rightarrow> label_set option) \<Rightarrow> (result_value \<Rightarrow> string)
   \<Rightarrow> result_value \<Rightarrow> (string \<times> string option) option \<Rightarrow> stored_result" where
  "fail_result valid_json wrap_json to_map to_text result err =
     (case err of
        Some (_, Some oops) \<Rightarrow>
          (case to_map result of
             Some m \<Rightarrow> ResultMap (AList.update ''error'' oops m)
           | None \<Rightarrow> ResultMap [(''result'', to_text result), (''error'', oops)])
      | _ \<Rightarrow> ResultText (marshall_result valid_json wrap_json result))"

definition action_fail :: "int \<Rightarrow> stored_result \<Rightarrow> string option \<Rightarrow> action \<Rightarrow> unit db_op" where
  "action_fail now result err p =
     db_bind (update_action (pa_id p) (\<lambda>a. (action_started now a)\<lparr>pa_result := Some result, pa_end := Some now,
         pa_status := ActionFailed, pa_error := (case err of None \<Rightarrow> pa_error a | Some e \<Rightarrow> Some e)\<rparr>))
       (\<lambda>u. schedule_run now (pa_run p))"

text \<open>\<open>Skip\<close> returns nil when its update fails.\<close>

definition action_skip :: "int \<Rightarrow> action \<Rightarrow> unit db_op" where
  "action_skip now p s =
     (case update_action (pa_id p) (\<lambda>a. a\<lparr>pa_end := Some now, pa_status := ActionSkipped\<rparr>) s of
        (Inl e, s') \<Rightarrow> (Inr (), s')
      | (Inr u, s') \<Rightarrow> schedule_run now (pa_run p) s')"

definition action_wait_for_children :: "action \<Rightarrow> unit db_op" where
  "action_wait_for_children p = update_action (pa_id p) (\<lambda>a. a\<lparr>pa_status := WaitingChildren\<rparr>)"

definition action_complete :: "int \<Rightarrow> stored_result \<Rightarrow> action \<Rightarrow> unit db_op" where
  "action_complete now result p =
     db_bind (update_action (pa_id p) (\<lambda>a. a\<lparr>pa_result := Some result, pa_end := Some now, pa_status := ActionCompleted\<rparr>))
       (\<lambda>u. schedule_run now (pa_run p))"

text \<open>Reading rows back; \<open>by_schedule\<close> is the database's order by scheduled time.\<close>

definition get_actions :: "(action list \<Rightarrow> action list) \<Rightarrow> string \<Rightarrow> action list db_op" where
  "get_actions by_schedule i = db_read (\<lambda>s. Inr (by_schedule (filter (\<lambda>a. pa_run a = i) (db_actions s))))"

definition get_action :: "(action list \<Rightarrow> action list) \<Rightarrow> string \<Rightarrow> string \<Rightarrow> action db_op" where
  "get_action by_schedule i name =
     db_bind (get_actions by_schedule i) (\<lambda>actions s.
       case find (\<lambda>a. pa_name a = name) actions of
         Some a \<Rightarrow> (Inr a, s)
       | None \<Rightarrow> (Inl (''action not found: '' @ name @ '', available actions ['' @ join '', '' (map pa_name actions) @ '']''), s))"

definition load_run :: "string \<Rightarrow> run db_op" where
  "load_run i = db_bind (db_read (\<lambda>s. Inr (filter (\<lambda>r. pr_id r = i) (db_runs s)))) (\<lambda>rows s.
     case rows of r # _ \<Rightarrow> (Inr r, s) | [] \<Rightarrow> (Inl (''Playbook run '' @ i @ '' not found''), s))"

definition load_action :: "string \<Rightarrow> action db_op" where
  "load_action i = db_bind (db_read (\<lambda>s. Inr (filter (\<lambda>a. pa_id a = i) (db_actions s)))) (\<lambda>rows s.
     case rows of a # _ \<Rightarrow> (Inr a, s) | [] \<Rightarrow> (Inl (''Playbook run action '' @ i @ '' not found''), s))"

subsection \<open>Any sequence of operations\<close>

datatype playbook_op = OpSchedule int string | OpRetry int int string | OpDelay int int string
  | OpWaiting int string | OpRunning int string | OpFail int string string
  | OpAssign string int string string string | OpRetryAction string int string int string
  | OpStartAction string int string string | OpEnd string int run | OpTimeOut string int run
  | OpCancel string int run | OpActionStart int action | OpActionFail int stored_result "string option" action
  | OpActionSkip int action | OpActionWait action | OpActionComplete int stored_result action

fun perform :: "playbook_op \<Rightarrow> playbook_db \<Rightarrow> playbook_db" where
  "perform (OpSchedule now i) s = snd (schedule_run now i s)"
| "perform (OpRetry now d i) s = snd (retry_run now d i s)"
| "perform (OpDelay now d i) s = snd (delay_run now d i s)"
| "perform (OpWaiting now i) s = snd (run_waiting now i s)"
| "perform (OpRunning now i) s = snd (run_running now i s)"
| "perform (OpFail now err i) s = snd (fail_run now err i s)"
| "perform (OpAssign new_id now agent name i) s = snd (assign_action new_id now agent name i s)"
| "perform (OpRetryAction new_id now name retry i) s = snd (retry_action new_id now name retry i s)"
| "perform (OpStartAction new_id now name i) s = snd (start_action new_id now name i s)"
| "perform (OpEnd new_id now p) s = snd (end_run new_id now p s)"
| "perform (OpTimeOut new_id now p) s = snd (end_as_timed_out new_id now p s)"
| "perform (OpCancel new_id now p) s = snd (cancel_run new_id now p s)"
| "perform (OpActionStart now p) s = snd (action_start now p s)"
| "perform (OpActionFail now result err p) s = snd (action_fail now result err p s)"
| "perform (OpActionSkip now p) s = snd (action_skip now p s)"
| "perform (OpActionWait p) s = snd (action_wait_for_children p s)"
| "perform (OpActionComplete now result p) s = snd (action_complete now result p s)"

text \<open>A step is any operation on any row, with any outcomes of its calls.\<close>

inductive playbook_step :: "playbook_db \<Rightarrow> playbook_db \<Rightarrow> bool" where
  step: "playbook_step s (perform op (s\<lparr>db_outcomes := os\<rparr>))"

inductive_cases playbook_stepE: "playbook_step s s'"

subsection \<open>Relations that every operation keeps\<close>

text \<open>A relation between the tables before and after that holds for doing nothing, composes, and does not
  look at the outcomes to come. An operation built from calls that are in the relation is in it.\<close>

locale db_relation =
  fixes R :: "playbook_db \<Rightarrow> playbook_db \<Rightarrow> bool"
  assumes R_outcomes: "R s (s\<lparr>db_outcomes := os\<rparr>)"
    and R_trans: "R s t \<Longrightarrow> R t u \<Longrightarrow> R s u"
begin

definition stays :: "'a db_op \<Rightarrow> bool" where
  "stays m \<longleftrightarrow> (\<forall>s. R s (snd (m s)))"

lemma staysI: "(\<And>s. R s (snd (m s))) \<Longrightarrow> stays m"
  by (simp add: stays_def)

lemma R_refl: "R s s"
  using R_outcomes [of s "db_outcomes s"] by simp

lemma stays_call: "(\<And>s. R s (f s)) \<Longrightarrow> stays (db_call q f)"
  by (rule staysI) (auto simp: db_call_def R_outcomes intro: R_trans [OF R_outcomes] split: list.split option.split)

lemma stays_write: "(\<And>s. R s (f s)) \<Longrightarrow> stays (db_write f)"
  unfolding db_write_def by (rule stays_call)

lemma stays_read: "stays (db_read q)"
  unfolding db_read_def by (rule stays_call) (simp add: R_refl)

lemma stays_return: "stays (db_return x)"
  by (rule staysI) (simp add: db_return_def R_refl)

lemma stays_bind: "stays m \<Longrightarrow> (\<And>x. stays (k x)) \<Longrightarrow> stays (db_bind m k)"
  by (rule staysI) (auto simp: db_bind_def stays_def split: prod.split sum.split, (metis R_trans snd_conv)+)

lemma stays_wrap: "stays m \<Longrightarrow> stays (db_wrap msg m)"
  by (rule staysI) (auto simp: db_wrap_def stays_def split: prod.split sum.split, (metis snd_conv)+)

lemma stays_transaction: "stays m \<Longrightarrow> stays (db_transaction m)"
proof (rule staysI)
  fix s
  assume "stays m"
  then have "stays (db_bind m (\<lambda>x. db_bind (db_write id) (\<lambda>u. db_return x)))"
    by (intro stays_bind stays_write stays_return) (simp_all add: R_refl)
  then have "R s (snd (db_bind m (\<lambda>x. db_bind (db_write id) (\<lambda>u. db_return x)) s))" by (simp add: stays_def)
  then show "R s (snd (db_transaction m s))"
    by (auto simp: db_transaction_def R_outcomes split: prod.split sum.split)
qed

lemmas stays_rules = stays_bind stays_wrap stays_transaction stays_read stays_return

end

subsection \<open>The invariant of the tables\<close>

definition run_wf :: "run \<Rightarrow> bool" where
  "run_wf r \<longleftrightarrow> (pr_status r \<in> set run_final_states \<longrightarrow> pr_end r \<noteq> None)
     \<and> (pr_status r \<in> {Running, Waiting, Sleeping, Retrying} \<longrightarrow> pr_start r \<noteq> None)"

definition action_wf :: "action \<Rightarrow> bool" where
  "action_wf a \<longleftrightarrow> (pa_status a \<in> set action_final_states \<longrightarrow> pa_end a \<noteq> None)
     \<and> (pa_status a = ActionRunning \<longrightarrow> pa_start a \<noteq> None)"

definition playbook_wf :: "playbook_db \<Rightarrow> bool" where
  "playbook_wf s \<longleftrightarrow> (\<forall>r \<in> set (db_runs s). run_wf r) \<and> (\<forall>a \<in> set (db_actions s). action_wf a)"

text \<open>What an operation may do to a run: its identity and its start stay.\<close>

definition run_keeps :: "run \<Rightarrow> run \<Rightarrow> bool" where
  "run_keeps r r' \<longleftrightarrow> pr_id r' = pr_id r \<and> pr_parent r' = pr_parent r \<and> pr_notification r' = pr_notification r
     \<and> (pr_start r \<noteq> None \<longrightarrow> pr_start r' = pr_start r)"

definition playbook_rel :: "playbook_db \<Rightarrow> playbook_db \<Rightarrow> bool" where
  "playbook_rel s s' \<longleftrightarrow> list_all2 run_keeps (db_runs s) (db_runs s') \<and> (playbook_wf s \<longrightarrow> playbook_wf s')"

lemma run_keeps_refl [simp]: "run_keeps r r"
  by (simp add: run_keeps_def)

lemma run_keeps_trans: "run_keeps a b \<Longrightarrow> run_keeps b c \<Longrightarrow> run_keeps a c"
  by (auto simp: run_keeps_def)

interpretation kept: db_relation playbook_rel
proof
  show "playbook_rel s (s\<lparr>db_outcomes := os\<rparr>)" for s os
    by (simp add: playbook_rel_def playbook_wf_def list_all2_refl)
  show "playbook_rel s u" if "playbook_rel s t" "playbook_rel t u" for s t u
  proof -
    have st: "list_all2 run_keeps (db_runs s) (db_runs t)" and tu: "list_all2 run_keeps (db_runs t) (db_runs u)"
      using that by (simp_all add: playbook_rel_def)
    have "list_all2 run_keeps (db_runs s) (db_runs u)"
      using run_keeps_trans st tu by (rule list_all2_trans)
    then show ?thesis using that by (simp add: playbook_rel_def)
  qed
qed

lemma stays_update_run:
  assumes "\<And>r. run_keeps r (f r) \<and> (run_wf r \<longrightarrow> run_wf (f r))"
  shows "kept.stays (update_run i f)"
  unfolding update_run_def
proof (rule kept.stays_write)
  fix s :: playbook_db
  let ?g = "\<lambda>r. if pr_id r = i then f r else r"
  have g: "run_keeps r (?g r)" "run_wf r \<Longrightarrow> run_wf (?g r)" for r using assms [of r] by simp_all
  then have "list_all2 run_keeps (db_runs s) (map ?g (db_runs s))" by (simp add: list_all2_map2 list_all2_same)
  moreover have "\<forall>r \<in> set (map ?g (db_runs s)). run_wf r" if "\<forall>r \<in> set (db_runs s). run_wf r"
    using that g(2) by fastforce
  ultimately show "playbook_rel s (s\<lparr>db_runs := map ?g (db_runs s)\<rparr>)"
    by (simp add: playbook_rel_def playbook_wf_def)
qed

lemma stays_update_action:
  assumes "\<And>a. action_wf a \<Longrightarrow> action_wf (f a)"
  shows "kept.stays (update_action i f)"
  unfolding update_action_def
  by (rule kept.stays_write)
    (use assms in \<open>auto simp: playbook_rel_def playbook_wf_def list_all2_refl\<close>)

lemma stays_save_action: "action_wf a \<Longrightarrow> kept.stays (save_action a)"
  unfolding save_action_def
  by (rule kept.stays_write) (auto simp: playbook_rel_def playbook_wf_def list_all2_refl)

lemma stays_sends:
  "kept.stays (db_write (\<lambda>s. s\<lparr>db_sends := g s\<rparr>))"
  by (rule kept.stays_write) (simp add: playbook_rel_def playbook_wf_def list_all2_refl)

named_theorems wf_defs \<open>definitions that unfold to the invariant of a row\<close>
declare run_wf_def [wf_defs] action_wf_def [wf_defs] run_keeps_def [wf_defs] started_def [wf_defs] action_started_def [wf_defs]
  run_final_states_def [wf_defs] action_final_states_def [wf_defs] new_action_def [wf_defs]

lemma stays_run_ops:
  "kept.stays (schedule_run now i)" "kept.stays (retry_run now d i)" "kept.stays (delay_run now d i)"
  "kept.stays (run_waiting now i)" "kept.stays (run_running now i)" "kept.stays (fail_run now err i)"
  unfolding schedule_run_def retry_run_def delay_run_def run_waiting_def run_running_def fail_run_def
  by (rule stays_update_run; auto simp: wf_defs split: option.splits)+

lemma stays_new_actions:
  "kept.stays (assign_action new_id now agent name i)" "kept.stays (retry_action new_id now name retry i)"
  "kept.stays (start_action new_id now name i)"
  unfolding assign_action_def retry_action_def start_action_def Let_def
  by (intro kept.stays_rules stays_save_action stays_run_ops; simp add: wf_defs)+

lemma stays_resume: "kept.stays (resume_children_waiting i)"
proof -
  have "kept.stays (db_write (resume_waiting i))"
    by (rule kept.stays_write)
      (auto simp: resume_waiting_def playbook_rel_def playbook_wf_def list_all2_refl wf_defs)
  then show ?thesis
    unfolding resume_children_waiting_def
    by (intro kept.stays_transaction kept.stays_bind kept.stays_wrap kept.stays_read)
      (simp add: kept.stays_return kept.stays_wrap)
qed

lemma stays_notify: "kept.stays (notify_end new_id now status send)"
proof -
  have "kept.stays (generate_fallback_attempt new_id now n h)" for n h
    unfolding generate_fallback_attempt_def by (rule stays_sends)
  then have "kept.stays (if b then db_wrap m (generate_fallback_attempt new_id now n h) else db_return ())" for b m n h
    by (simp add: kept.stays_wrap kept.stays_return)
  then show ?thesis
    unfolding notify_end_def by (intro kept.stays_bind kept.stays_wrap kept.stays_read stays_sends)
qed

lemma stays_end_with_status:
  assumes "status \<in> set run_final_states"
  shows "kept.stays (end_with_status new_id now status p)"
proof -
  have "kept.stays (update_run (pr_id p) (\<lambda>r. r\<lparr>pr_status := status, pr_end := Some now\<rparr>))"
    by (rule stays_update_run) (use assms in \<open>auto simp: wf_defs\<close>)
  moreover have "kept.stays (case pr_notification p of Some send \<Rightarrow> notify_end new_id now status send | None \<Rightarrow> db_return ())"
    by (simp add: stays_notify kept.stays_return split: option.split)
  moreover have "kept.stays (case pr_parent p of
      Some parent \<Rightarrow> db_wrap m (resume_children_waiting parent) | None \<Rightarrow> db_return ())" for m
    by (simp add: kept.stays_wrap stays_resume kept.stays_return split: option.split)
  ultimately show ?thesis unfolding end_with_status_def by (intro kept.stays_bind)
qed

lemma stays_ends:
  "kept.stays (end_run new_id now p)" "kept.stays (end_as_timed_out new_id now p)" "kept.stays (cancel_run new_id now p)"
  unfolding end_run_def end_as_timed_out_def cancel_run_def
  by (intro kept.stays_bind kept.stays_read stays_end_with_status; simp add: run_final_states_def)+

lemma stays_action_ops:
  "kept.stays (action_start now a)" "kept.stays (action_fail now result err a)" "kept.stays (action_wait_for_children a)"
  "kept.stays (action_complete now result a)"
  unfolding action_start_def action_fail_def action_wait_for_children_def action_complete_def
  by (intro kept.stays_bind stays_update_action stays_run_ops; auto simp: wf_defs split: option.splits)+

lemma stays_skip: "kept.stays (action_skip now a)"
proof (rule kept.staysI)
  fix s
  let ?m = "update_action (pa_id a) (\<lambda>a. a\<lparr>pa_end := Some now, pa_status := ActionSkipped\<rparr>)"
  have "kept.stays ?m" by (rule stays_update_action) (simp add: wf_defs)
  then have "playbook_rel s (snd (?m s))" by (simp add: kept.stays_def)
  moreover have "playbook_rel t (snd (schedule_run now (pa_run a) t))" for t
    using stays_run_ops(1) by (simp add: kept.stays_def)
  ultimately show "playbook_rel s (snd (action_skip now a s))"
    by (auto simp: action_skip_def split: prod.splits sum.splits intro: kept.R_trans)
qed

lemma perform_rel: "playbook_rel s (perform op s)"
  using stays_run_ops stays_new_actions stays_ends stays_action_ops stays_skip
  by (cases op) (simp_all add: kept.stays_def)

text \<open>C19: Whatever operations run, in whatever order, on whatever rows and with whatever calls failing: every run
  in a final state has an end time, every run that is running, waiting, sleeping or retrying has a
  start time, every final action has an end and every running action a start; no run disappears; and
  the start time of a run, once set, never changes.\<close>
theorem playbook_invariant:
  assumes "playbook_step\<^sup>*\<^sup>* s s'" "playbook_wf s"
  shows "playbook_wf s' \<and> list_all2 run_keeps (db_runs s) (db_runs s')"
proof -
  have "playbook_rel s s'"
    using assms(1)
  proof (induction rule: rtranclp_induct)
    case base
    show ?case by (rule kept.R_refl)
  next
    case (step y z)
    from step.hyps(2) obtain op os where "z = perform op (y\<lparr>db_outcomes := os\<rparr>)" by (rule playbook_stepE)
    then have "playbook_rel y z" using kept.R_trans [OF kept.R_outcomes perform_rel] by simp
    then show ?case using step.IH kept.R_trans by blast
  qed
  then show ?thesis using assms(2) by (simp add: playbook_rel_def)
qed

definition sample_run :: "string \<Rightarrow> run_status \<Rightarrow> string option \<Rightarrow> run" where
  "sample_run i status parent = \<lparr>pr_id = i, pr_status = status, pr_start = Some 1, pr_scheduled = 0, pr_end = None,
     pr_error = None, pr_parent = parent, pr_notification = None\<rparr>"

definition sample_db :: "run list \<Rightarrow> action list \<Rightarrow> playbook_db" where
  "sample_db runs actions = \<lparr>db_runs = runs, db_actions = actions, db_sends = [], db_notifications = [], db_outcomes = []\<rparr>"

theorem playbook_invariant_witness:
  "\<exists>s'. playbook_step\<^sup>*\<^sup>* (sample_db [sample_run ''r'' Running None] []) s'
    \<and> map pr_status (db_runs s') = [Cancelled] \<and> (\<forall>r \<in> set (db_runs s'). pr_end r \<noteq> None \<and> pr_start r = Some 1)"
proof -
  let ?s = "sample_db [sample_run ''r'' Running None] []"
  define t where "t = perform (OpCancel ''n'' 5 (sample_run ''r'' Running None)) (?s\<lparr>db_outcomes := []\<rparr>)"
  have t: "playbook_step\<^sup>*\<^sup>* ?s t" unfolding t_def using playbook_step.step by blast
  have wf: "playbook_wf ?s" by (simp add: playbook_wf_def sample_db_def sample_run_def wf_defs)
  have st: "map pr_status (db_runs t) = [Cancelled]"
    by (simp add: t_def sample_db_def sample_run_def cancel_run_def end_with_status_def update_run_def db_write_def db_call_def
        db_bind_def db_return_def)
  from playbook_invariant [OF t wf] have "playbook_wf t" "list_all2 run_keeps (db_runs ?s) (db_runs t)" by auto
  moreover obtain r where "db_runs t = [r]" "pr_status r = Cancelled" using st by auto
  ultimately have "pr_end r \<noteq> None" "run_keeps (sample_run ''r'' Running None) r" "db_runs t = [r]"
    by (simp_all add: playbook_wf_def run_wf_def run_final_states_def sample_db_def)
  then have "\<forall>r \<in> set (db_runs t). pr_end r \<noteq> None \<and> pr_start r = Some 1"
    by (simp add: run_keeps_def sample_run_def)
  with t st show ?thesis by (intro exI [of _ t] conjI)
qed

subsection \<open>How a run ends\<close>

lemma db_call_ok: "db_outcomes s = [] \<Longrightarrow> db_call q f s = (q s, f s)"
proof -
  assume ok: "db_outcomes s = []"
  then have "f (s\<lparr>db_outcomes := []\<rparr>) = f s" by (intro arg_cong [where f = f]) (cases s; simp)
  then show ?thesis using ok by (simp add: db_call_def)
qed

lemmas db_run = db_call_ok db_write_def db_read_def db_bind_def db_return_def db_wrap_def db_transaction_def

definition all_children_done :: "string \<Rightarrow> run list \<Rightarrow> bool" where
  "all_children_done i runs \<longleftrightarrow> (\<exists>r \<in> set runs. pr_id r = i \<and> pr_status r = Running)
     \<and> (\<forall>c \<in> set runs. pr_parent c = Some i \<longrightarrow> pr_status c \<in> set run_final_states)"

lemma children_done_pos: "children_done i s = 0 \<longleftrightarrow> \<not> all_children_done i (db_runs s)"
  by (auto simp: children_done_def all_children_done_def filter_empty_conv list_ex_iff)

lemma resume_ok:
  assumes "db_outcomes s = []"
  shows "resume_children_waiting i s = (Inr (), if all_children_done i (db_runs s) then resume_waiting i s else s)"
  using assms by (simp add: resume_children_waiting_def db_run children_done_pos resume_waiting_def)

definition ended_db :: "run \<Rightarrow> run_status \<Rightarrow> int \<Rightarrow> playbook_db \<Rightarrow> playbook_db" where
  "ended_db p status now s =
     s\<lparr>db_runs := map (\<lambda>r. if pr_id r = pr_id p then r\<lparr>pr_status := status, pr_end := Some now\<rparr> else r) (db_runs s)\<rparr>"

text \<open>C20: End, when no call fails and the run belongs to no notification: the run fails exactly if one of its
  actions failed and is completed otherwise; its end is set; and the actions of its parent that wait
  for children are scheduled exactly if the parent is running and now all its children, this one
  included, have ended. Nothing else changes.\<close>
theorem end_run_correct:
  assumes "db_outcomes s = []" "pr_notification p = None"
  shows "end_run new_id now p s =
    (let status = (if \<exists>a \<in> set (db_actions s). pa_run a = pr_id p \<and> pa_status a = ActionFailed then RunFailed else Completed);
         s1 = ended_db p status now s
     in (Inr (), case pr_parent p of
                   None \<Rightarrow> s1
                 | Some i \<Rightarrow> if all_children_done i (db_runs s1) then resume_waiting i s1 else s1))"
proof -
  let ?b = "\<exists>a \<in> set (db_actions s). pa_run a = pr_id p \<and> pa_status a = ActionFailed"
  have b: "find (\<lambda>i. i = ActionFailed) (map pa_status (filter (\<lambda>a. pa_run a = pr_id p) (db_actions s))) \<noteq> None \<longleftrightarrow> ?b"
    by (auto simp: find_None_iff)
  have "db_outcomes (ended_db p st now s) = []" for st using assms(1) by (simp add: ended_db_def)
  note parent = resume_ok [OF this]
  have upd: "update_run (pr_id p) (\<lambda>r. r\<lparr>pr_status := st, pr_end := Some now\<rparr>) s = (Inr (), ended_db p st now s)" for st
    using assms(1) by (simp add: update_run_def db_run ended_db_def)
  have fin: "end_with_status new_id now st p s = (Inr (), case pr_parent p of None \<Rightarrow> ended_db p st now s
      | Some i \<Rightarrow> if all_children_done i (db_runs (ended_db p st now s)) then resume_waiting i (ended_db p st now s) else ended_db p st now s)" for st
    by (cases "pr_parent p") (simp_all add: end_with_status_def db_bind_def upd assms(2) db_return_def db_wrap_def parent)
  show ?thesis
    unfolding end_run_def db_bind_def db_read_def db_call_ok [OF assms(1)] prod.case sum.case b id_apply fin Let_def
    by (rule refl)
qed

definition sample_action :: "string \<Rightarrow> string \<Rightarrow> action_status \<Rightarrow> action" where
  "sample_action i r status = (new_action i 0 r ''a'' status None 0)"

theorem end_run_correct_witness:
  "map pa_status (db_actions (snd (end_run ''n'' 9 (sample_run ''c'' Running (Some ''p''))
      (sample_db [sample_run ''p'' Running None, sample_run ''c'' Running (Some ''p'')] [sample_action ''1'' ''p'' WaitingChildren]))))
    = [ActionScheduled]"
proof -
  let ?s = "sample_db [sample_run ''p'' Running None, sample_run ''c'' Running (Some ''p'')] [sample_action ''1'' ''p'' WaitingChildren]"
  let ?c = "sample_run ''c'' Running (Some ''p'')"
  have pre: "db_outcomes ?s = []" "pr_notification ?c = None" by (simp_all add: sample_db_def sample_run_def)
  show ?thesis
    unfolding end_run_correct [OF pre] Let_def
    by (simp add: sample_db_def sample_run_def sample_action_def new_action_def ended_db_def all_children_done_def
        resume_waiting_def run_final_states_def)
qed

text \<open>Resuming a parent is atomic: whichever of its calls fails, the tables are as before, and when none
  fails they are as \<open>end_run_correct\<close> says.\<close>
theorem resume_atomic:
  "case resume_children_waiting i s of
     (Inl e, s') \<Rightarrow> s' = s\<lparr>db_outcomes := db_outcomes s'\<rparr>
   | (Inr u, s') \<Rightarrow> s' = (if all_children_done i (db_runs s) then resume_waiting i s else s)\<lparr>db_outcomes := db_outcomes s'\<rparr>"
proof -
  have same: "children_done i (s\<lparr>db_outcomes := os\<rparr>) = children_done i s" for os by (simp add: children_done_def)
  show ?thesis
    by (auto simp: resume_children_waiting_def db_transaction_def db_bind_def db_wrap_def db_read_def db_write_def
        db_call_def db_return_def same children_done_pos resume_waiting_def split: list.splits option.splits if_splits)
qed



text \<open>Cancelling does not last while an action is still running: the action's completion puts the run back
  into the scheduled state, with its end time kept.\<close>
theorem completion_undoes_cancel:
  assumes "db_outcomes s = []" "pr_notification p = None" "pr_parent p = None" "p \<in> set (db_runs s)" "pa_run a = pr_id p"
  shows "\<exists>r \<in> set (db_runs (snd (action_complete later result a (snd (cancel_run new_id now p s))))).
    pr_id r = pr_id p \<and> pr_status r = Scheduled \<and> pr_end r = Some now"
proof -
  let ?r = "p\<lparr>pr_status := Scheduled, pr_scheduled := later, pr_end := Some now\<rparr>"
  have "cancel_run new_id now p s = (Inr (), ended_db p Cancelled now s)"
    using assms(1-3) by (simp add: cancel_run_def end_with_status_def update_run_def db_run ended_db_def)
  then have "db_runs (snd (action_complete later result a (snd (cancel_run new_id now p s)))) =
      map (\<lambda>r. if pr_id r = pr_id p then r\<lparr>pr_status := Scheduled, pr_scheduled := later\<rparr> else r)
        (map (\<lambda>r. if pr_id r = pr_id p then r\<lparr>pr_status := Cancelled, pr_end := Some now\<rparr> else r) (db_runs s))"
    using assms(1,5) by (simp add: action_complete_def update_action_def schedule_run_def update_run_def db_run ended_db_def)
  then have "?r \<in> set (db_runs (snd (action_complete later result a (snd (cancel_run new_id now p s)))))"
    using assms(4) by (force simp: image_iff)
  then show ?thesis by (intro bexI [of _ ?r]) simp_all
qed

theorem completion_undoes_cancel_witness:
  "\<exists>r \<in> set (db_runs (snd (action_complete 9 (ResultText ''{}'') (sample_action ''1'' ''r'' ActionRunning)
      (snd (cancel_run ''n'' 5 (sample_run ''r'' Running None)
        (sample_db [sample_run ''r'' Running None] [sample_action ''1'' ''r'' ActionRunning])))))).
    pr_status r = Scheduled \<and> pr_end r = Some 5"
proof -
  let ?p = "sample_run ''r'' Running None" and ?a = "sample_action ''1'' ''r'' ActionRunning"
  have "\<exists>r \<in> set (db_runs (snd (action_complete 9 (ResultText ''{}'') ?a (snd (cancel_run ''n'' 5 ?p (sample_db [?p] [?a])))))).
      pr_id r = pr_id ?p \<and> pr_status r = Scheduled \<and> pr_end r = Some 5"
    by (rule completion_undoes_cancel) (simp_all add: sample_db_def sample_run_def sample_action_def new_action_def)
  then show ?thesis by blast
qed

text \<open>\<open>Skip\<close> reports success and does not schedule the run when its update fails.\<close>

lemma skip_hides_error:
  "db_outcomes s = Some e # os \<Longrightarrow> action_skip now a s = (Inr (), s\<lparr>db_outcomes := os\<rparr>)"
  by (simp add: action_skip_def update_action_def db_write_def db_call_def)

subsection \<open>Fallback attempts\<close>

text \<open>The custom services of a fallback attempt are decided by the primary recipients: the fallback's
  services are used exactly when the notification has primary custom services, and then even if the
  fallback has none.\<close>
theorem fallback_custom_services:
  assumes "gomap_ok payload"
  shows "map_of (fallback_payload n payload) ''custom_service'' =
    (if nf_custom_services n \<noteq> [] then Some (nf_fallback_custom_services n) else map_of payload ''custom_service'')"
proof -
  have "map_of (merge_maps [] payload) = map_of payload" using assms by (simp add: merge_maps_lookup)
  then show ?thesis by (simp add: fallback_payload_def Let_def update_conv' set_if_def split: option.split)
qed

theorem fallback_custom_services_witness:
  "map_of (fallback_payload \<lparr>nf_id = ''n'', nf_custom_services = [], nf_fallback_playbook = None, nf_fallback_person = None,
      nf_fallback_team = None, nf_fallback_custom_services = ''[slack]'', nf_fallback_delay = None\<rparr> [(''id'', ''7'')]) ''custom_service'' = None"
proof -
  have "gomap_ok [(''id'', ''7'')]" by simp
  from fallback_custom_services [OF this] show ?thesis by simp
qed

text \<open>A failed attempt of a notification with a fallback makes a new attempt, also when it is itself a
  fallback attempt.\<close>

lemma fallback_repeats:
  assumes "db_outcomes s = []" "find (\<lambda>h. sh_id h = i) (db_sends s) = Some h"
    and "find (\<lambda>n. nf_id n = sh_notification h) (db_notifications s) = Some n" "has_fallback_set n"
  shows "\<exists>x. db_sends (snd (notify_end new_id now RunFailed i s)) =
    map (\<lambda>h. if sh_id h = i then send_outcome RunFailed h else h) (db_sends s) @ [x] \<and> sh_parent x = Some i"
proof -
  have "sh_id (send_outcome st h) = sh_id h" "sh_notification (send_outcome st h) = sh_notification h" for st h
    by (simp_all add: send_outcome_def)
  note keep = this
  have "sh_id h = i" using assms(2) by (auto simp: find_Some_iff)
  have "find (\<lambda>h. sh_id h = i) (map (\<lambda>h. if sh_id h = i then send_outcome RunFailed h else h) hs) =
      map_option (send_outcome RunFailed) (find (\<lambda>h. sh_id h = i) hs)" for hs
    by (induction hs) (simp_all add: keep)
  then show ?thesis
    using assms \<open>sh_id h = i\<close>
    by (simp add: notify_end_def db_run find_send_def find_notification_def keep generate_fallback_attempt_def
        unsuccessful_final_states_def fallback_attempt_def)
qed

end
