(* ===== verification/Component_Summary.thy ===== *)
theory Component_Summary
  imports Properties
begin

section \<open>Components and their summaries\<close>

text \<open>
  The part of \<^verbatim>\<open>types/component.go\<close> and \<^verbatim>\<open>models/components.go\<close> that a topology is computed with:
  the status order, the summary of a component and its addition, health, and \<open>Summarize\<close>.

  Components point at each other and the pointers can form cycles, so they live in a heap, a list
  of components in which a pointer is an index. The maps of a summary are shared by \<open>Summarize\<close>:
  the summary it returns starts from the maps of the component itself, and \<open>Add\<close> writes into
  them. A nil map is \<^term>\<open>None\<close>. Two components never share a map, which makes this writing through
  expressible on the heap: a map of the running summary is the component's own exactly when the
  component's is not nil. Counts are Go \<open>int\<close>s, taken as unbounded.

  Of the component only the fields that these operations and the topology query read or write are
  kept, and the remaining columns are carried along unchanged by the code. The expression
  evaluator (gomplate) and the conversion of a component to a JSON map are parameters.
\<close>

subsection \<open>Status\<close>

definition status_healthy :: string where "status_healthy = ''healthy''"
definition status_unhealthy :: string where "status_unhealthy = ''unhealthy''"
definition status_warn :: string where "status_warn = ''warning''"
definition status_error :: string where "status_error = ''error''"
definition status_info :: string where "status_info = ''info''"

lemmas status_names = status_healthy_def status_unhealthy_def status_warn_def status_error_def status_info_def

text \<open>A status that is not in the map has the zero value of an \<open>int\<close>.\<close>

definition status_order :: "string \<Rightarrow> int" where
  "status_order s =
     (if s = status_info then 0 else if s = status_healthy then 1 else if s = status_unhealthy then 2
      else if s = status_warn then 3 else if s = status_error then 4 else 0)"

definition compare_status :: "string \<Rightarrow> string \<Rightarrow> int" where
  "compare_status s other =
     (if s = other then 0 else if status_order s > status_order other then 1 else - 1)"

text \<open>\<open>Compare\<close> is a total order on the five statuses; outside of them it is not antisymmetric.\<close>

lemma compare_status_flip:
  assumes "s \<in> {status_info, status_healthy, status_unhealthy, status_warn, status_error}"
    and "t \<in> {status_info, status_healthy, status_unhealthy, status_warn, status_error}"
  shows "compare_status t s = - compare_status s t"
  using assms by (auto simp: compare_status_def status_order_def status_names)

lemma compare_status_unknown: "compare_status ''a'' ''b'' = - 1 \<and> compare_status ''b'' ''a'' = - 1"
  by (simp add: compare_status_def status_order_def status_names)

subsection \<open>Summaries\<close>

type_synonym counts = "(string, int) gomap"
type_synonym severity_counts = "(string, counts) gomap"

record summary =
  sm_healthy :: int
  sm_unhealthy :: int
  sm_warning :: int
  sm_info :: int
  sm_incidents :: "severity_counts option"
  sm_insights :: "severity_counts option"
  sm_checks :: "counts option"
  sm_processed :: bool

definition zero_summary :: summary where
  "zero_summary = \<lparr>sm_healthy = 0, sm_unhealthy = 0, sm_warning = 0, sm_info = 0,
     sm_incidents = None, sm_insights = None, sm_checks = None, sm_processed = False\<rparr>"

text \<open>Reading a map, nil included, and the loops of \<open>Add\<close>: \<open>m[k] += n\<close> for every entry.\<close>

definition count_of :: "counts \<Rightarrow> string \<Rightarrow> int" where
  "count_of m k = (case map_of m k of None \<Rightarrow> 0 | Some n \<Rightarrow> n)"

definition map_entries :: "('k, 'v) gomap option \<Rightarrow> ('k, 'v) gomap" where
  "map_entries m = (case m of None \<Rightarrow> [] | Some es \<Rightarrow> es)"

definition add_counts :: "counts \<Rightarrow> counts \<Rightarrow> counts" where
  "add_counts a b = foldl (\<lambda>m (k, n). AList.update k (count_of m k + n) m) a b"

definition inner_counts :: "severity_counts \<Rightarrow> string \<Rightarrow> counts" where
  "inner_counts m k = (case map_of m k of None \<Rightarrow> [] | Some d \<Rightarrow> d)"

definition add_severities :: "severity_counts \<Rightarrow> severity_counts \<Rightarrow> severity_counts" where
  "add_severities a b = foldl (\<lambda>m (k, d). AList.update k (add_counts (inner_counts m k) d) m) a b"

definition add_levels :: "summary \<Rightarrow> summary \<Rightarrow> summary" where
  "add_levels s b =
     (let s1 = (if sm_healthy b > 0 \<and> sm_unhealthy b > 0 then s\<lparr>sm_warning := sm_warning s + 1\<rparr>
                else if sm_unhealthy b > 0 then s\<lparr>sm_unhealthy := sm_unhealthy s + 1\<rparr>
                else if sm_healthy b > 0 then s\<lparr>sm_healthy := sm_healthy s + 1\<rparr>
                else s);
          s2 = (if sm_warning b > 0 then s1\<lparr>sm_warning := sm_warning s1 + sm_warning b\<rparr> else s1)
      in if sm_info b > 0 then s2\<lparr>sm_info := sm_info s2 + sm_info b\<rparr> else s2)"

definition add_summary :: "summary \<Rightarrow> summary \<Rightarrow> summary" where
  "add_summary s b =
     (add_levels s b)\<lparr>
       sm_insights := Some (add_severities (map_entries (sm_insights s)) (map_entries (sm_insights b))),
       sm_incidents := Some (add_severities (map_entries (sm_incidents s)) (map_entries (sm_incidents b))),
       sm_checks := Some (add_counts (map_entries (sm_checks s)) (map_entries (sm_checks b)))\<rparr>"

definition summary_status :: "summary \<Rightarrow> string" where
  "summary_status s =
     (if sm_unhealthy s > 0 then status_unhealthy else if sm_warning s > 0 then status_warn
      else if sm_healthy s > 0 then status_healthy else ''unknown'')"

subsection \<open>What Add computes\<close>

definition severity_count :: "severity_counts option \<Rightarrow> string \<Rightarrow> string \<Rightarrow> int" where
  "severity_count m t s = count_of (inner_counts (map_entries m) t) s"

lemma count_of_update [simp]: "count_of (AList.update k n m) k' = (if k' = k then n else count_of m k')"
  by (simp add: count_of_def update_conv')

lemma inner_counts_update [simp]:
  "inner_counts (AList.update k d m) k' = (if k' = k then d else inner_counts m k')"
  by (simp add: inner_counts_def update_conv')

lemma count_of_simps [simp]: "count_of [] k = 0"
  "count_of ((k', n) # m) k = (if k = k' then n else count_of m k)"
  by (simp_all add: count_of_def)

lemma inner_counts_simps [simp]: "inner_counts [] k = []"
  "inner_counts ((k', d) # m) k = (if k = k' then d else inner_counts m k)"
  by (simp_all add: inner_counts_def)

lemma count_of_absent: "k \<notin> fst ` set m \<Longrightarrow> count_of m k = 0"
  using map_of_eq_None_iff [of m k] by (simp add: count_of_def)

lemma inner_counts_absent: "k \<notin> fst ` set m \<Longrightarrow> inner_counts m k = []"
  using map_of_eq_None_iff [of m k] by (simp add: inner_counts_def)

lemma count_add_counts: "gomap_ok b \<Longrightarrow> count_of (add_counts a b) k = count_of a k + count_of b k"
proof (induction b arbitrary: a)
  case (Cons e b)
  then show ?case by (cases e) (auto simp: add_counts_def count_of_absent)
qed (simp add: add_counts_def)

definition severities_ok :: "severity_counts \<Rightarrow> bool" where
  "severities_ok m \<longleftrightarrow> gomap_ok m \<and> list_all (\<lambda>(k, d). gomap_ok d) m"

lemma severities_ok_simps [simp]: "severities_ok []"
  "severities_ok ((k, d) # m) \<longleftrightarrow> k \<notin> fst ` set m \<and> gomap_ok d \<and> severities_ok m"
  by (auto simp: severities_ok_def)

lemma add_counts_Nil [simp]: "add_counts a [] = a"
  by (simp add: add_counts_def)

lemma inner_add_severities:
  "severities_ok b \<Longrightarrow> inner_counts (add_severities a b) t = add_counts (inner_counts a t) (inner_counts b t)"
proof (induction b arbitrary: a)
  case (Cons e b)
  then show ?case by (cases e) (auto simp: add_severities_def inner_counts_absent)
qed (simp add: add_severities_def)

lemma inner_counts_ok: "severities_ok m \<Longrightarrow> gomap_ok (inner_counts m t)"
  by (induction m) (auto simp: inner_counts_def)

definition summary_ok :: "summary \<Rightarrow> bool" where
  "summary_ok s \<longleftrightarrow> severities_ok (map_entries (sm_insights s))
     \<and> severities_ok (map_entries (sm_incidents s)) \<and> gomap_ok (map_entries (sm_checks s))"

lemma add_levels_maps [simp]:
  "sm_insights (add_levels s b) = sm_insights s" "sm_incidents (add_levels s b) = sm_incidents s"
  "sm_checks (add_levels s b) = sm_checks s" "sm_processed (add_levels s b) = sm_processed s"
  by (simp_all add: add_levels_def Let_def)

lemma map_entries_simps [simp]: "map_entries None = []" "map_entries (Some m) = m"
  by (simp_all add: map_entries_def)

text \<open>Adding a summary adds its counts of insights, incidents and checks key by key; its four levels are
  folded into one step of a level: a summary with both healthy and unhealthy parts counts as one
  warning, otherwise as one unhealthy or one healthy part, and its warnings and infos are added.\<close>

theorem add_summary_correct:
  assumes "summary_ok b"
  shows "severity_count (sm_insights (add_summary s b)) t v
      = severity_count (sm_insights s) t v + severity_count (sm_insights b) t v
    \<and> severity_count (sm_incidents (add_summary s b)) t v
      = severity_count (sm_incidents s) t v + severity_count (sm_incidents b) t v
    \<and> count_of (map_entries (sm_checks (add_summary s b))) v
      = count_of (map_entries (sm_checks s)) v + count_of (map_entries (sm_checks b)) v
    \<and> sm_unhealthy (add_summary s b) = sm_unhealthy s
      + (if sm_unhealthy b > 0 \<and> \<not> sm_healthy b > 0 then 1 else 0)
    \<and> sm_healthy (add_summary s b) = sm_healthy s
      + (if sm_healthy b > 0 \<and> \<not> sm_unhealthy b > 0 then 1 else 0)
    \<and> sm_warning (add_summary s b) = sm_warning s
      + (if sm_healthy b > 0 \<and> sm_unhealthy b > 0 then 1 else 0) + max 0 (sm_warning b)
    \<and> sm_info (add_summary s b) = sm_info s + max 0 (sm_info b)"
  using assms
  by (intro conjI) (auto simp: add_summary_def severity_count_def inner_add_severities count_add_counts
      summary_ok_def inner_counts_ok add_levels_def Let_def)

subsection \<open>Components\<close>

text \<open>\<open>models.Property\<close> repeats \<open>types.Property\<close> field by field, and its \<open>Find\<close> is the same loop, so the
  record and \<^const>\<open>find_property\<close> of the theory of properties stand for both.\<close>

type_synonym cptr = nat

record component =
  cm_id :: string
  cm_parent_id :: "string option"
  cm_parents :: "string list"
  cm_external_id :: string
  cm_name :: string
  cm_namespace :: string
  cm_labels :: "(string, string) gomap"
  cm_type :: string
  cm_status :: string
  cm_health :: "string option"
  cm_status_expr :: string
  cm_health_expr :: string
  cm_description :: string
  cm_agent_id :: string
  cm_properties :: "property list"
  cm_summary :: summary
  cm_checks :: "counts option"
  cm_incidents :: "severity_counts option"
  cm_analysis :: "severity_counts option"
  cm_components :: "cptr list option"
  cm_node_processed :: bool

type_synonym cheap = "component list"

definition set_component :: "cptr \<Rightarrow> (component \<Rightarrow> component) \<Rightarrow> cheap \<Rightarrow> cheap" where
  "set_component p f h = h[p := f (h ! p)]"

definition component_string :: "component \<Rightarrow> string" where
  "component_string c = (if cm_type c \<noteq> [] then cm_type c @ ''/'' @ cm_external_id c else [])"

definition get_agent_id :: "component \<Rightarrow> string" where
  "get_agent_id c = (if cm_agent_id c = ''00000000-0000-0000-0000-000000000000'' then [] else cm_agent_id c)"

definition label_get :: "component \<Rightarrow> string \<Rightarrow> string" where
  "label_get c k = (case map_of (cm_labels c) k of None \<Rightarrow> [] | Some v \<Rightarrow> v)"

definition label_lookup :: "component \<Rightarrow> string \<Rightarrow> string \<times> bool" where
  "label_lookup c k = (label_get c k, map_of (cm_labels c) k \<noteq> None)"

subsection \<open>Health and status of a component\<close>

definition health_healthy :: string where "health_healthy = ''healthy''"
definition health_unhealthy :: string where "health_unhealthy = ''unhealthy''"
definition health_warning :: string where "health_warning = ''warning''"

lemmas health_names = health_healthy_def health_unhealthy_def health_warning_def

fun worse_loop :: "string \<Rightarrow> string list \<Rightarrow> string" where
  "worse_loop worst [] = worst"
| "worse_loop worst (h # hs) =
     (if h = health_unhealthy then health_unhealthy
      else if h = health_warning then worse_loop health_warning hs
      else worse_loop worst hs)"

definition worse_health :: "string list \<Rightarrow> string" where
  "worse_health hs = worse_loop health_healthy hs"

text \<open>An expression sees the summary; a health expression also sees the component as a map.\<close>

datatype 'j template_env = StatusEnv summary | HealthEnv summary 'j

definition get_status :: "('j template_env \<Rightarrow> string \<Rightarrow> string + string) \<Rightarrow> component \<Rightarrow> string + string" where
  "get_status run_template c =
     (if cm_status_expr c \<noteq> [] then
        (case run_template (StatusEnv (cm_summary c)) (cm_status_expr c) of
           Inl err \<Rightarrow> Inl (''failed to evaluate status expression '' @ cm_status_expr c @ '': '' @ err)
         | Inr out \<Rightarrow> Inr out)
      else Inr (cm_status c))"

text \<open>The healths that are compared: the component's own, those of its checks in the order the map
  is iterated, and those of its children. \<open>lo.FromPtr\<close> reads nil as the empty text.\<close>

definition from_ptr :: "string option \<Rightarrow> string" where
  "from_ptr h = (case h of None \<Rightarrow> [] | Some s \<Rightarrow> s)"

definition kids :: "component \<Rightarrow> cptr list" where
  "kids c = (case cm_components c of None \<Rightarrow> [] | Some ps \<Rightarrow> ps)"

definition all_healths :: "cheap \<Rightarrow> component \<Rightarrow> string list" where
  "all_healths h c =
     (if from_ptr (cm_health c) \<noteq> [] then [from_ptr (cm_health c)] else [])
     @ map fst (filter (\<lambda>(k, n). n > 0) (map_entries (cm_checks c)))
     @ map (\<lambda>q. from_ptr (cm_health (h ! q))) (kids c)"

definition get_health :: "('j template_env \<Rightarrow> string \<Rightarrow> string + string) \<Rightarrow> (cheap \<Rightarrow> cptr \<Rightarrow> 'j) \<Rightarrow> cheap
    \<Rightarrow> cptr \<Rightarrow> string + string" where
  "get_health run_template as_map h p =
     (let c = h ! p in
      if cm_health_expr c \<noteq> [] then
        (case run_template (HealthEnv (cm_summary c) (as_map h p)) (cm_health_expr c) of
           Inl err \<Rightarrow> Inl (''failed to evaluate health expression '' @ cm_health_expr c @ '': '' @ err)
         | Inr out \<Rightarrow> Inr out)
      else Inr (worse_health (all_healths h c)))"

lemma worse_loop_eq:
  "worse_loop w hs = (if health_unhealthy \<in> set hs then health_unhealthy
     else if health_warning \<in> set hs then health_warning else w)"
  by (induction hs arbitrary: w) auto

lemma worse_health_eq: "worse_health hs = (if health_unhealthy \<in> set hs then health_unhealthy
     else if health_warning \<in> set hs then health_warning else health_healthy)"
  by (simp add: worse_health_def worse_loop_eq)

subsection \<open>Summarize\<close>

text \<open>The running summary \<open>s\<close> starts from the component's maps. \<open>own_maps\<close> reads those it shares with
  the component again after a child was summarised, and \<open>write_maps\<close> is the effect of \<open>Add\<close> on the
  component: a nil map stays nil there, since \<open>Add\<close> makes a new one for \<open>s\<close> alone.\<close>

definition shared :: "'m option \<Rightarrow> 'm option \<Rightarrow> 'm option" where
  "shared own m = (case own of None \<Rightarrow> m | Some x \<Rightarrow> Some x)"

definition own_maps :: "summary \<Rightarrow> summary \<Rightarrow> summary" where
  "own_maps own s = s\<lparr>sm_incidents := shared (sm_incidents own) (sm_incidents s),
     sm_insights := shared (sm_insights own) (sm_insights s), sm_checks := shared (sm_checks own) (sm_checks s)\<rparr>"

definition written :: "'m option \<Rightarrow> 'm option \<Rightarrow> 'm option" where
  "written own m = (case own of None \<Rightarrow> None | Some x \<Rightarrow> m)"

definition write_maps :: "summary \<Rightarrow> component \<Rightarrow> component" where
  "write_maps s c = c\<lparr>cm_summary := (cm_summary c)\<lparr>
     sm_incidents := written (sm_incidents (cm_summary c)) (sm_incidents s),
     sm_insights := written (sm_insights (cm_summary c)) (sm_insights s),
     sm_checks := written (sm_checks (cm_summary c)) (sm_checks s)\<rparr>\<rparr>"

definition count_leaf :: "string \<Rightarrow> summary \<Rightarrow> summary" where
  "count_leaf st s =
     (if st = status_healthy then s\<lparr>sm_healthy := sm_healthy s + 1\<rparr>
      else if st = status_unhealthy then s\<lparr>sm_unhealthy := sm_unhealthy s + 1\<rparr>
      else if st = status_warn then s\<lparr>sm_warning := sm_warning s + 1\<rparr>
      else if st = status_info then s\<lparr>sm_info := sm_info s + 1\<rparr>
      else s)"

fun sum_children :: "(cptr \<Rightarrow> cheap \<Rightarrow> summary \<times> cheap) \<Rightarrow> cptr \<Rightarrow> cptr list \<Rightarrow> summary \<Rightarrow> cheap
    \<Rightarrow> summary \<times> cheap" where
  "sum_children summarize_child p [] s h = (s, h)"
| "sum_children summarize_child p (q # qs) s h =
     (case summarize_child q h of
        (b, h1) \<Rightarrow>
          (let s1 = add_summary (own_maps (cm_summary (h1 ! p)) s) b
           in sum_children summarize_child p qs s1 (set_component p (write_maps s1) h1)))"

primrec summarize :: "nat \<Rightarrow> cptr \<Rightarrow> cheap \<Rightarrow> summary \<times> cheap" where
  "summarize 0 p h = (cm_summary (h ! p), h)"
| "summarize (Suc depth) p h =
     (let c = h ! p;
          s = zero_summary\<lparr>sm_incidents := sm_incidents (cm_summary c),
                sm_insights := sm_insights (cm_summary c), sm_checks := sm_checks (cm_summary c)\<rparr>
      in if sm_processed (cm_summary c) then (cm_summary c, h)
         else case cm_components c of
           None \<Rightarrow> ((count_leaf (cm_status c) s)\<lparr>sm_processed := True\<rparr>, h)
         | Some ps \<Rightarrow>
             (case sum_children (summarize depth) p ps s h of
                (s1, h1) \<Rightarrow> (s1\<lparr>sm_processed := True\<rparr>, h1)))"

definition is_healthy :: "cptr \<Rightarrow> cheap \<Rightarrow> bool \<times> cheap" where
  "is_healthy p h =
     (case summarize 10 p h of
        (s, h1) \<Rightarrow> (sm_healthy s > 0 \<and> sm_unhealthy s = 0 \<and> sm_warning s = 0, h1))"

fun components_summarize :: "nat \<Rightarrow> cptr list \<Rightarrow> summary \<Rightarrow> cheap \<Rightarrow> summary \<times> cheap" where
  "components_summarize depth [] s h = (s, h)"
| "components_summarize depth (p # ps) s h =
     (case summarize depth p h of (b, h1) \<Rightarrow> components_summarize depth ps (add_summary s b) h1)"

definition find_component :: "cptr list \<Rightarrow> string \<Rightarrow> cheap \<Rightarrow> cptr option" where
  "find_component ps name h = find (\<lambda>p. cm_name (h ! p) = name) ps"

subsection \<open>Summaries of processed children\<close>

lemma set_component_simps [simp]:
  "length (set_component p f h) = length h"
  "q \<noteq> p \<Longrightarrow> set_component p f h ! q = h ! q"
  "p < length h \<Longrightarrow> set_component p f h ! p = f (h ! p)"
  by (simp_all add: set_component_def)

lemma set_component_twice [simp]:
  "p < length h \<Longrightarrow> set_component p g (set_component p f h) = set_component p (\<lambda>c. g (f c)) h"
  by (simp add: set_component_def)

lemma set_component_id: "f (h ! p) = h ! p \<Longrightarrow> set_component p f h = h"
  by (simp add: set_component_def)

lemma summarize_processed: "sm_processed (cm_summary (h ! p)) \<Longrightarrow> summarize d p h = (cm_summary (h ! p), h)"
  by (cases d) (simp_all add: Let_def)

text \<open>The running summary agrees with the component it is computed for when it holds its maps.\<close>

definition agrees :: "summary \<Rightarrow> component \<Rightarrow> bool" where
  "agrees s c \<longleftrightarrow> own_maps (cm_summary c) s = s"

definition has_maps :: "summary \<Rightarrow> bool" where
  "has_maps s \<longleftrightarrow> sm_incidents s \<noteq> None \<and> sm_insights s \<noteq> None \<and> sm_checks s \<noteq> None"

lemma has_maps_add [simp]: "has_maps (add_summary s b)"
  by (simp add: has_maps_def add_summary_def)

lemma agrees_iff: "agrees s c \<longleftrightarrow> shared (sm_incidents (cm_summary c)) (sm_incidents s) = sm_incidents s
    \<and> shared (sm_insights (cm_summary c)) (sm_insights s) = sm_insights s
    \<and> shared (sm_checks (cm_summary c)) (sm_checks s) = sm_checks s"
  unfolding agrees_def own_maps_def by (cases s) simp

lemma write_maps_agrees: "has_maps s \<Longrightarrow> agrees s (write_maps s c)"
  by (auto simp: agrees_iff write_maps_def has_maps_def shared_def written_def split: option.splits)

lemma written_shared: "shared own m = m \<Longrightarrow> written own m = own"
  by (auto simp: shared_def written_def split: option.splits)

lemma write_maps_id: "agrees s c \<Longrightarrow> write_maps s c = c"
  by (simp add: agrees_iff write_maps_def written_shared)

lemma written_written: "m1 \<noteq> None \<Longrightarrow> written (written own m1) m2 = written own m2"
  by (auto simp: written_def split: option.splits)

lemma write_maps_twice: "has_maps s1 \<Longrightarrow> write_maps s2 (write_maps s1 c) = write_maps s2 c"
  by (simp add: write_maps_def has_maps_def written_written)

lemma write_maps_fields [simp]:
  "cm_id (write_maps s c) = cm_id c" "cm_components (write_maps s c) = cm_components c"
  "cm_status (write_maps s c) = cm_status c" "cm_health (write_maps s c) = cm_health c"
  "cm_node_processed (write_maps s c) = cm_node_processed c" "cm_checks (write_maps s c) = cm_checks c"
  "cm_status_expr (write_maps s c) = cm_status_expr c" "cm_health_expr (write_maps s c) = cm_health_expr c"
  "sm_processed (cm_summary (write_maps s c)) = sm_processed (cm_summary c)"
  by (simp_all add: write_maps_def)

definition sum_of :: "summary \<Rightarrow> cheap \<Rightarrow> cptr list \<Rightarrow> summary" where
  "sum_of s h qs = foldl (\<lambda>s q. add_summary s (cm_summary (h ! q))) s qs"

lemma sum_of_simps [simp]: "sum_of s h [] = s"
  "sum_of s h (q # qs) = sum_of (add_summary s (cm_summary (h ! q))) h qs"
  by (simp_all add: sum_of_def)

lemma sum_of_cong: "\<forall>q \<in> set qs. cm_summary (h ! q) = cm_summary (h' ! q) \<Longrightarrow> sum_of s h qs = sum_of s h' qs"
  by (induction qs arbitrary: s) auto

lemma sum_children_processed:
  assumes "\<forall>q \<in> set qs. sm_processed (cm_summary (h ! q))" "p \<notin> set qs" "p < length h" "agrees s (h ! p)"
  shows "sum_children (summarize d) p qs s h
    = (sum_of s h qs, set_component p (write_maps (sum_of s h qs)) h)"
  using assms
proof (induction qs arbitrary: s h)
  case Nil
  then show ?case by (simp add: set_component_id write_maps_id)
next
  case (Cons q qs)
  define s1 where "s1 = add_summary s (cm_summary (h ! q))"
  define h1 where "h1 = set_component p (write_maps s1) h"
  have maps: "has_maps s1" by (simp add: s1_def)
  have same: "h1 ! r = h ! r" if "r \<in> set qs" for r
    using that Cons.prems(2) by (cases "r = p") (simp_all add: h1_def)
  have "sum_children (summarize d) p qs s1 h1
      = (sum_of s1 h1 qs, set_component p (write_maps (sum_of s1 h1 qs)) h1)"
  proof (rule Cons.IH)
    show "\<forall>r \<in> set qs. sm_processed (cm_summary (h1 ! r))" using Cons.prems(1) by (simp add: same)
    show "agrees s1 (h1 ! p)" using Cons.prems(3) maps by (simp add: h1_def write_maps_agrees)
  qed (use Cons.prems in \<open>simp_all add: h1_def\<close>)
  moreover have "sum_of s1 h1 qs = sum_of s1 h qs" by (rule sum_of_cong) (simp add: same)
  moreover have "set_component p (write_maps s2) h1 = set_component p (write_maps s2) h" for s2
    using Cons.prems(3) maps by (simp add: h1_def write_maps_twice)
  moreover have "own_maps (cm_summary (h ! p)) s = s" using Cons.prems(4) by (simp add: agrees_def)
  ultimately show ?case
    using Cons.prems(1) by (simp add: summarize_processed s1_def h1_def Let_def)
qed

definition start_summary :: "component \<Rightarrow> summary" where
  "start_summary c = zero_summary\<lparr>sm_incidents := sm_incidents (cm_summary c),
     sm_insights := sm_insights (cm_summary c), sm_checks := sm_checks (cm_summary c)\<rparr>"

lemma start_agrees [simp]: "agrees (start_summary c) c"
  by (simp add: agrees_iff start_summary_def shared_def split: option.split)

lemma summarize_leaf:
  "\<not> sm_processed (cm_summary (h ! p)) \<Longrightarrow> cm_components (h ! p) = None \<Longrightarrow>
    summarize (Suc d) p h = ((count_leaf (cm_status (h ! p)) (start_summary (h ! p)))\<lparr>sm_processed := True\<rparr>, h)"
  by (simp add: Let_def start_summary_def)

lemma summarize_parent:
  assumes "\<not> sm_processed (cm_summary (h ! p))" "cm_components (h ! p) = Some ps"
    and "\<forall>q \<in> set ps. sm_processed (cm_summary (h ! q))" "p \<notin> set ps" "p < length h"
  shows "summarize (Suc d) p h = ((sum_of (start_summary (h ! p)) h ps)\<lparr>sm_processed := True\<rparr>,
     set_component p (write_maps (sum_of (start_summary (h ! p)) h ps)) h)"
  using assms sum_children_processed [OF assms(3-5) start_agrees]
  by (simp add: Let_def start_summary_def [symmetric])

lemma sum_of_insights:
  assumes "\<forall>q \<in> set qs. summary_ok (cm_summary (h ! q))"
  shows "severity_count (sm_insights (sum_of s h qs)) t v = severity_count (sm_insights s) t v
    + (\<Sum>q\<leftarrow>qs. severity_count (sm_insights (cm_summary (h ! q))) t v)"
  using assms
proof (induction qs arbitrary: s)
  case (Cons q qs)
  have "severity_count (sm_insights (add_summary s (cm_summary (h ! q)))) t v
      = severity_count (sm_insights s) t v + severity_count (sm_insights (cm_summary (h ! q))) t v"
    using Cons.prems by (simp add: add_summary_def severity_count_def inner_add_severities
      count_add_counts summary_ok_def inner_counts_ok)
  then show ?case using Cons by simp
qed simp

lemma sum_of_has_maps: "has_maps s \<or> qs \<noteq> [] \<Longrightarrow> has_maps (sum_of s h qs)"
  by (induction qs arbitrary: s) auto

text \<open>summarising a component writes its children's insights into its own map, so a component with
  insights that is summarised twice counts its children twice.\<close>

theorem summarize_repeats:
  assumes "p < length h" "cm_components (h ! p) = Some ps" "p \<notin> set ps"
    and "\<forall>q \<in> set ps. sm_processed (cm_summary (h ! q)) \<and> summary_ok (cm_summary (h ! q))"
    and "\<not> sm_processed (cm_summary (h ! p))" "sm_insights (cm_summary (h ! p)) = Some m"
    and "summarize (Suc d) p h = (s1, h1)" "summarize (Suc d) p h1 = (s2, h2)"
  shows "severity_count (sm_insights s1) t v = severity_count (Some m) t v
      + (\<Sum>q\<leftarrow>ps. severity_count (sm_insights (cm_summary (h ! q))) t v)
    \<and> severity_count (sm_insights s2) t v = severity_count (Some m) t v
      + 2 * (\<Sum>q\<leftarrow>ps. severity_count (sm_insights (cm_summary (h ! q))) t v)"
proof -
  define a where "a = sum_of (start_summary (h ! p)) h ps"
  have one: "s1 = a\<lparr>sm_processed := True\<rparr>" "h1 = set_component p (write_maps a) h"
    using summarize_parent [of h p ps d] assms by (auto simp: a_def)
  have same: "h1 ! q = h ! q" if "q \<in> set ps" for q using that assms(3) by (cases "q = p") (simp_all add: one)
  have ins: "severity_count (sm_insights a) t v = severity_count (Some m) t v
      + (\<Sum>q\<leftarrow>ps. severity_count (sm_insights (cm_summary (h ! q))) t v)"
    using assms(4,6) by (simp add: a_def sum_of_insights start_summary_def)
  have "sm_insights a \<noteq> None"
    using assms(6) sum_of_has_maps [of _ ps h]
    by (cases ps) (auto simp: a_def start_summary_def has_maps_def)
  then have own: "sm_insights (cm_summary (h1 ! p)) = sm_insights a"
    using assms(1,6) by (simp add: one write_maps_def written_def)
  have "s2 = (sum_of (start_summary (h1 ! p)) h1 ps)\<lparr>sm_processed := True\<rparr>"
    using summarize_parent [of h1 p ps d] assms same by (auto simp: one)
  then have "severity_count (sm_insights s2) t v = severity_count (sm_insights a) t v
      + (\<Sum>q\<leftarrow>ps. severity_count (sm_insights (cm_summary (h1 ! q))) t v)"
    using assms(4) same by (simp add: sum_of_insights start_summary_def own)
  moreover have "(\<Sum>q\<leftarrow>ps. severity_count (sm_insights (cm_summary (h1 ! q))) t v)
      = (\<Sum>q\<leftarrow>ps. severity_count (sm_insights (cm_summary (h ! q))) t v)"
    by (rule arg_cong [where f = sum_list], rule map_cong) (simp_all add: same)
  ultimately show ?thesis using ins one by simp
qed

subsection \<open>Examples\<close>

definition sample_component :: component where
  "sample_component = \<lparr>cm_id = ''a'', cm_parent_id = None, cm_parents = [], cm_external_id = [], cm_name = ''a'',
     cm_namespace = [], cm_labels = [], cm_type = [], cm_status = status_healthy, cm_health = None,
     cm_status_expr = [], cm_health_expr = [], cm_description = [], cm_agent_id = [], cm_properties = [],
     cm_summary = zero_summary, cm_checks = None, cm_incidents = None, cm_analysis = None,
     cm_components = None, cm_node_processed = False\<rparr>"

definition one_insight :: summary where
  "one_insight = zero_summary\<lparr>sm_insights := Some [(''security'', [(''high'', 1)])], sm_healthy := 1,
     sm_processed := True\<rparr>"

definition parent_and_child :: cheap where
  "parent_and_child = [sample_component\<lparr>cm_components := Some [1], cm_summary := zero_summary\<lparr>sm_insights := Some []\<rparr>\<rparr>,
     sample_component\<lparr>cm_id := ''b'', cm_summary := one_insight\<rparr>]"

lemmas sample_defs = parent_and_child_def sample_component_def one_insight_def zero_summary_def

lemma add_summary_correct_witness:
  "sm_healthy (add_summary zero_summary one_insight) = 1
    \<and> severity_count (sm_insights (add_summary zero_summary one_insight)) ''security'' ''high'' = 1"
proof -
  have "summary_ok one_insight" by (simp add: sample_defs summary_ok_def severities_ok_def)
  from add_summary_correct [OF this, of zero_summary "''security''" "''high''"]
  show ?thesis by (simp add: sample_defs severity_count_def)
qed

lemma summarize_repeats_witness:
  "severity_count (sm_insights (fst (summarize 10 0 (snd (summarize 10 0 parent_and_child))))) ''security'' ''high'' = 2"
proof -
  obtain s1 h1 where r1: "summarize (Suc 9) 0 parent_and_child = (s1, h1)" by fastforce
  obtain s2 h2 where r2: "summarize (Suc 9) 0 h1 = (s2, h2)" by fastforce
  have ok: "\<forall>q \<in> set [1]. sm_processed (cm_summary (parent_and_child ! q)) \<and> summary_ok (cm_summary (parent_and_child ! q))"
    by (simp add: sample_defs summary_ok_def severities_ok_def)
  have "severity_count (sm_insights s2) ''security'' ''high'' = 2"
    using summarize_repeats [OF _ _ _ ok _ _ r1 r2, of "[]" "''security''" "''high''"]
    by (simp add: sample_defs severity_count_def)
  moreover have "(10::nat) = Suc 9" by simp
  ultimately show ?thesis using r1 r2 by (metis fst_conv snd_conv)
qed

end
