(* ===== verification/Topology.thy ===== *)
theory Topology
  imports Component_Summary
begin

section \<open>The topology query\<close>

text \<open>
  \<^verbatim>\<open>query/topology.go\<close> and \<^verbatim>\<open>query/topology_options.go\<close>: the options, the where clauses of the two queries, the
  cache of their rows, and what is computed from the rows: the tree of components over the heap of
  \<^verbatim>\<open>Component_Summary\<close>, the copies to a given depth that cut its cycles, the filters on type and
  status, the metadata and the sorting. The queries, JSON, hashing, sorting and the helpers of the
  commons module are parameters.
\<close>

subsection \<open>Options\<close>

record topology_options =
  to_id :: string
  to_owner :: string
  to_labels :: "(string, string) gomap option"
  to_agent_id :: string
  to_flatten :: bool
  to_depth :: int
  to_types :: "string list"
  to_status :: "string list"
  to_sort_by :: string
  to_sort_order :: string
  to_no_cache :: bool
  to_non_direct :: bool

definition default_depth :: int where "default_depth = 5"

definition sort_by_name :: string where "sort_by_name = ''name''"
definition sort_by_field :: string where "sort_by_field = ''field:''"

text \<open>Query values: \<open>Get\<close> reads the first value of a key, or the empty text.\<close>

type_synonym url_values = "(string, string list) gomap"

definition url_get :: "url_values \<Rightarrow> string \<Rightarrow> string" where
  "url_get vs k = (case map_of vs k of Some (v # _) \<Rightarrow> v | _ \<Rightarrow> [])"

definition csv_items :: "string \<Rightarrow> string list" where
  "csv_items items =
     (if trim_space items = [] then [] else split_char (CHR '','') (trim_space items))"

definition parse_depth :: "string \<Rightarrow> int" where
  "parse_depth s = (if s = [] then default_depth
     else case parse_int64 s of None \<Rightarrow> default_depth | Some d \<Rightarrow> d)"

definition new_topology_params :: "(string list \<Rightarrow> (string, string) gomap) \<Rightarrow> url_values \<Rightarrow> topology_options" where
  "new_topology_params key_value_map vs =
     \<lparr>to_id = url_get vs ''id'', to_owner = url_get vs ''owner'',
      to_labels = (if url_get vs ''labels'' \<noteq> [] then Some (key_value_map (split_char (CHR '','') (url_get vs ''labels'')))
                   else None),
      to_agent_id = [], to_flatten = (url_get vs ''flatten'' = ''true''), to_depth = parse_depth (url_get vs ''depth''),
      to_types = csv_items (url_get vs ''type''), to_status = csv_items (url_get vs ''status''),
      to_sort_by = url_get vs ''sortBy'', to_sort_order = url_get vs ''sortOrder'',
      to_no_cache = (map_of vs ''noCache'' \<noteq> None \<or> map_of vs ''no-cache'' \<noteq> None),
      to_non_direct = False\<rparr>"

subsection \<open>Where clauses\<close>

definition select_clause :: "topology_options \<Rightarrow> string" where
  "select_clause opt =
     (if \<not> to_non_direct opt then ''*''
      else ''name, namespace, id, is_leaf, properties, status, status_expr, health, health_expr, status_reason, icon, summary, topology_type, labels, team_names, type, parent_id, parents, incidents, analysis, checks'')"

definition component_where_clause :: "topology_options \<Rightarrow> string" where
  "component_where_clause opt =
     ''WHERE components.deleted_at IS NULL''
     @ (if to_id opt \<noteq> [] then
          (if \<not> to_non_direct opt then '' AND (components.id = @id OR components.parent_id = @id)''
           else '' AND (components.path LIKE @path AND components.id != @id AND components.parent_id != @id)'')
        else
          (if \<not> to_non_direct opt then '' AND components.parent_id IS NULL''
           else '' AND components.parent_id IS NOT NULL''))
     @ (if to_owner opt \<noteq> [] then '' AND (components.owner = @owner)'' else [])
     @ (if to_labels opt \<noteq> None then '' AND (components.labels @> @labels)'' else [])
     @ (if to_agent_id opt \<noteq> [] then '' AND (components.agent_id = @agent_id)'' else [])"

definition component_relation_where_clause :: "topology_options \<Rightarrow> string" where
  "component_relation_where_clause opt =
     ''WHERE component_relationships.deleted_at IS NULL AND parent.deleted_at IS NULL''
     @ (if to_owner opt \<noteq> [] then '' AND (parent.owner = @owner)'' else [])
     @ (if to_labels opt \<noteq> None then '' AND (parent.labels @> @labels)'' else [])
     @ (if to_id opt \<noteq> [] then
          (if \<not> to_non_direct opt then '' AND (component_relationships.relationship_id = @id OR parent.parent_id = @id)''
           else '' AND (component_relationships.relationship_id = @id OR (parent.path LIKE @path AND parent.parent_id != @id))'')
        else
          (if \<not> to_non_direct opt then '' AND component_relationships.component_id IS NULL''
           else '' AND component_relationships.component_id IS NOT NULL''))"

text \<open>The arguments bound to the names in the query.\<close>

datatype sql_arg = ArgText string | ArgLabels "(string, string) gomap"

definition query_args :: "topology_options \<Rightarrow> (string \<times> sql_arg) list" where
  "query_args opts =
     (if to_id opts \<noteq> [] then [(''id'', ArgText (to_id opts)), (''path'', ArgText (''%'' @ to_id opts @ ''%''))] else [])
     @ (if to_agent_id opts \<noteq> [] then [(''agent_id'', ArgText (to_agent_id opts))] else [])
     @ (if to_owner opts \<noteq> [] then [(''owner'', ArgText (to_owner opts))] else [])
     @ (case to_labels opts of None \<Rightarrow> [] | Some l \<Rightarrow> [(''labels'', ArgLabels l)])"

subsection \<open>Rows and their cache\<close>

record topology_response =
  tr_components :: cheap
  tr_health_statuses :: "string list"
  tr_teams :: "string list"
  tr_tags :: "(string, string list) gomap option"
  tr_types :: "string list"

definition empty_response :: topology_response where
  "empty_response = \<lparr>tr_components = [], tr_health_statuses = [], tr_teams = [], tr_tags = None, tr_types = []\<rparr>"

text \<open>How running one of the two queries can fail. The first failure is reported with the text of the
  first query, the second with that of the second; scanning and decoding share theirs.\<close>

datatype row_failure = QueryFailed string | ScanFailed string | DecodeFailed string string

definition failure_text :: "string \<Rightarrow> row_failure \<Rightarrow> string" where
  "failure_text what f =
     (case f of
        QueryFailed e \<Rightarrow> what @ e
      | ScanFailed e \<Rightarrow> ''failed to scan row: '' @ e
      | DecodeFailed d e \<Rightarrow> ''failed to unmarshal TopologyResponse for '' @ d @ '': '' @ e)"

definition merge_rows :: "(_ \<Rightarrow> _ \<Rightarrow> (string, string list) gomap) \<Rightarrow> topology_response \<Rightarrow> topology_response
    \<Rightarrow> topology_response" where
  "merge_rows merge_tags r n =
     (if tr_components n = [] then r
      else r\<lparr>tr_components := tr_components r
               @ filter (\<lambda>c. cm_id c \<notin> set (map cm_id (tr_components r))) (tr_components n),
             tr_health_statuses := tr_health_statuses r @ tr_health_statuses n,
             tr_teams := tr_teams r @ tr_teams n,
             tr_types := tr_types r @ tr_types n,
             tr_tags := (if tr_tags r \<noteq> None \<or> tr_tags n \<noteq> None then Some (merge_tags (tr_tags r) (tr_tags n))
                         else tr_tags r)\<rparr>)"

definition fetch_rows :: "(topology_options \<Rightarrow> row_failure + topology_response) \<Rightarrow> (_ \<Rightarrow> _ \<Rightarrow> _) \<Rightarrow> topology_options
    \<Rightarrow> string + topology_response" where
  "fetch_rows run_query merge_tags params =
     (case run_query params of
        Inl f \<Rightarrow> Inl (failure_text ''failed to query component & its direct children: '' f)
      | Inr r \<Rightarrow>
          (case run_query (params\<lparr>to_non_direct := True\<rparr>) of
             Inl f \<Rightarrow> Inl (failure_text ''failed to query rest of the children: '' f)
           | Inr n \<Rightarrow> Inr (merge_rows merge_tags r n)))"

text \<open>The key of an entry: the options that only matter after the query are reset, the rest is encoded
  and hashed by \<open>hash_options\<close>, and the user's id is appended.\<close>

definition query_options :: "topology_options \<Rightarrow> topology_options" where
  "query_options opt = opt\<lparr>to_sort_by := [], to_sort_order := [], to_depth := 0, to_flatten := False,
     to_no_cache := False, to_types := [], to_status := []\<rparr>"

definition cache_key :: "(topology_options \<Rightarrow> string) \<Rightarrow> topology_options \<Rightarrow> string" where
  "cache_key hash_options opt = hash_options (query_options opt)"

definition entry_key :: "(topology_options \<Rightarrow> string) \<Rightarrow> string option \<Rightarrow> topology_options \<Rightarrow> string" where
  "entry_key hash_options user opt =
     (case user of None \<Rightarrow> cache_key hash_options opt
      | Some u \<Rightarrow> cache_key hash_options opt @ ''-'' @ u)"

definition fetch_all_components ::
    "(topology_options \<Rightarrow> string) \<Rightarrow> (topology_options \<Rightarrow> row_failure + topology_response) \<Rightarrow> (_ \<Rightarrow> _ \<Rightarrow> _)
    \<Rightarrow> (topology_response \<Rightarrow> 'b) \<Rightarrow> ('b \<Rightarrow> string + topology_response) \<Rightarrow> string option \<Rightarrow> topology_options
    \<Rightarrow> (string \<rightharpoonup> 'b) \<Rightarrow> (string + topology_response) \<times> (string \<rightharpoonup> 'b)" where
  "fetch_all_components hash_options run_query merge_tags encode decode user params cache =
     (let key = entry_key hash_options user params in
      case (if to_no_cache params then None else cache key) of
        Some bytes \<Rightarrow> (decode bytes, cache)
      | None \<Rightarrow>
          (case fetch_rows run_query merge_tags params of
             Inl e \<Rightarrow> (Inl e, cache)
           | Inr r \<Rightarrow> (Inr r, if to_no_cache params then cache else cache(key \<mapsto> encode r))))"

subsection \<open>The tree\<close>

type_synonym child_map = "string \<rightharpoonup> cptr list"

definition add_child_of :: "string \<Rightarrow> cptr \<Rightarrow> child_map \<Rightarrow> child_map" where
  "add_child_of k p m = m(k \<mapsto> (case m k of None \<Rightarrow> [] | Some ps \<Rightarrow> ps) @ [p])"

definition reset_component :: "component \<Rightarrow> component" where
  "reset_component c =
     c\<lparr>cm_summary := (cm_summary c)\<lparr>sm_incidents := cm_incidents c, sm_insights := cm_analysis c,
         sm_checks := cm_checks c\<rparr>,
       cm_analysis := None, cm_incidents := None, cm_checks := None\<rparr>"

definition link_component :: "string \<Rightarrow> child_map \<times> cptr list \<Rightarrow> cptr \<times> component \<Rightarrow> child_map \<times> cptr list" where
  "link_component root_id s pc =
     (case s of (m, roots) \<Rightarrow> case pc of (p, c) \<Rightarrow>
        (let m1 = (case cm_parent_id c of
                     None \<Rightarrow> m
                   | Some k \<Rightarrow> if m k \<noteq> None then add_child_of k p m else m);
             m2 = foldl (\<lambda>m k. add_child_of k p m) m1 (cm_parents c);
             is_root = (if root_id \<noteq> [] then root_id = cm_id c \<and> roots = [] else cm_parent_id c = None)
         in (m2, if is_root then roots @ [p] else roots)))"

definition link_all :: "string \<Rightarrow> cheap \<Rightarrow> child_map \<times> cptr list" where
  "link_all root_id comps =
     foldl (link_component root_id) (foldl (\<lambda>m c. m(cm_id c \<mapsto> [])) Map.empty comps, []) (enumerate 0 comps)"

text \<open>\<open>generateTree\<close>. The recursion goes down only from a component it marks, so the fuel that counts
  these levels need not exceed the number of components; \<^term>\<open>None\<close> is an exhausted fuel.\<close>

type_synonym tree_result = "((string + cptr list) \<times> cheap) option"

definition finish_node :: "('j template_env \<Rightarrow> string \<Rightarrow> string + string) \<Rightarrow> (cheap \<Rightarrow> cptr \<Rightarrow> 'j) \<Rightarrow> cptr
    \<Rightarrow> cheap \<Rightarrow> (string + unit) \<times> cheap" where
  "finish_node run_template as_map p h =
     (case summarize 10 p h of (s, h1) \<Rightarrow>
        (let h2 = set_component p (\<lambda>c. c\<lparr>cm_summary := s\<rparr>) h1 in
         case get_health run_template as_map h2 p of
           Inl e \<Rightarrow> (Inl e, h2)
         | Inr health \<Rightarrow>
             (let h3 = set_component p (\<lambda>c. c\<lparr>cm_health := Some health\<rparr>) h2 in
              case get_status run_template (h3 ! p) of
                Inl e \<Rightarrow> (Inl e, h3)
              | Inr status \<Rightarrow> (Inr (), set_component p (\<lambda>c. c\<lparr>cm_status := status\<rparr>) h3))))"

definition nil_if_empty :: "'a list \<Rightarrow> 'a list option" where
  "nil_if_empty xs = (if xs = [] then None else Some xs)"

definition process_node :: "(cptr list \<Rightarrow> cheap \<Rightarrow> tree_result) \<Rightarrow> (cptr \<Rightarrow> cheap \<Rightarrow> (string + unit) \<times> cheap) \<Rightarrow> child_map
    \<Rightarrow> cptr \<Rightarrow> cheap \<Rightarrow> ((string + unit) \<times> cheap) option" where
  "process_node rec_call finish children p h =
     (let h1 = set_component p (\<lambda>c. c\<lparr>cm_node_processed := True\<rparr>) h in
      case children (cm_id (h ! p)) of
        None \<Rightarrow> Some (finish p h1)
      | Some ks \<Rightarrow>
          (case rec_call ks h1 of
             None \<Rightarrow> None
           | Some (Inl e, h2) \<Rightarrow> Some (Inl e, h2)
           | Some (Inr cc, h2) \<Rightarrow>
               Some (finish p (set_component p (\<lambda>c. c\<lparr>cm_components := nil_if_empty cc\<rparr>) h2))))"

fun process_each :: "(cptr \<Rightarrow> cheap \<Rightarrow> ((string + unit) \<times> cheap) option) \<Rightarrow> cptr list \<Rightarrow> cheap \<Rightarrow> tree_result" where
  "process_each step [] h = Some (Inr [], h)"
| "process_each step (p # ps) h =
     (case (if cm_node_processed (h ! p) then Some (Inr (), h) else step p h) of
        None \<Rightarrow> None
      | Some (Inl e, h1) \<Rightarrow> Some (Inl e, h1)
      | Some (Inr u, h1) \<Rightarrow>
          (case process_each step ps h1 of
             Some (Inr nodes, h2) \<Rightarrow> Some (Inr (p # nodes), h2)
           | r \<Rightarrow> r))"

primrec generate_tree :: "(cptr \<Rightarrow> cheap \<Rightarrow> (string + unit) \<times> cheap) \<Rightarrow> child_map \<Rightarrow> nat \<Rightarrow> cptr list \<Rightarrow> cheap \<Rightarrow> tree_result" where
  "generate_tree finish children 0 ps h = None"
| "generate_tree finish children (Suc fuel) ps h =
     process_each (process_node (generate_tree finish children fuel) finish children) ps h"

definition create_component_tree :: "('j template_env \<Rightarrow> string \<Rightarrow> string + string) \<Rightarrow> (cheap \<Rightarrow> cptr \<Rightarrow> 'j) \<Rightarrow> string
    \<Rightarrow> cheap \<Rightarrow> tree_result" where
  "create_component_tree run_template as_map root_id comps =
     (case link_all root_id comps of
        (children, roots) \<Rightarrow>
          generate_tree (finish_node run_template as_map) children (Suc (length comps)) roots
            (map reset_component comps))"

subsection \<open>Copies, filters and sorting\<close>

text \<open>\<open>applyDepthFilter\<close> copies every component it keeps, so its result is a tree. With a depth of zero
  or less it hands its argument back, which is the left case.\<close>

datatype comp_tree = CompTree (ct_comp: component) (ct_kids: "comp_tree list")

primrec depth_copy :: "cheap \<Rightarrow> nat \<Rightarrow> cptr list \<Rightarrow> comp_tree list" where
  "depth_copy h 0 ps = map (\<lambda>p. CompTree (h ! p) []) ps"
| "depth_copy h (Suc n) ps = map (\<lambda>p. CompTree (h ! p) (depth_copy h n (kids (h ! p)))) ps"

definition apply_depth_filter :: "cheap \<Rightarrow> int \<Rightarrow> cptr list \<Rightarrow> cptr list + comp_tree list" where
  "apply_depth_filter h depth ps =
     (if depth \<le> 0 then Inl ps else Inr (depth_copy h (nat depth - 1) ps))"

text \<open>\<open>matchItems\<close>: the loop over the negative items, then the one over the others.\<close>

definition is_negative :: "string \<Rightarrow> bool" where
  "is_negative i = has_prefix ''!'' i"

fun hit_negative :: "string \<Rightarrow> string list \<Rightarrow> bool" where
  "hit_negative item [] = False"
| "hit_negative item (i # is) =
     (if is_negative i \<and> item = trim_prefix ''!'' i then True else hit_negative item is)"

fun hit_positive :: "string \<Rightarrow> string list \<Rightarrow> bool" where
  "hit_positive item [] = False"
| "hit_positive item (i # is) =
     (if is_negative i then hit_positive item is
      else if i = ''*'' \<or> item = i then True else hit_positive item is)"

definition match_items :: "string \<Rightarrow> string list \<Rightarrow> bool" where
  "match_items item is =
     (if is = [] then True else if hit_negative item is then False else hit_positive item is)"

definition apply_type_filter :: "cheap \<Rightarrow> string list \<Rightarrow> cheap" where
  "apply_type_filter comps ts = (if ts = [] then comps else filter (\<lambda>c. match_items (cm_type c) ts) comps)"

definition filter_children :: "string list \<Rightarrow> comp_tree \<Rightarrow> comp_tree" where
  "filter_children statii t =
     CompTree (ct_comp t) (filter (\<lambda>k. match_items (cm_status (ct_comp k)) statii) (ct_kids t))"

definition apply_status_filter :: "comp_tree list \<Rightarrow> bool \<Rightarrow> string list \<Rightarrow> comp_tree list" where
  "apply_status_filter ts filter_root statii =
     (if statii = [] then ts
      else map (filter_children statii)
             (filter (\<lambda>t. filter_root \<or> match_items (cm_status (ct_comp t)) statii) ts))"

definition clear_fields :: "component \<Rightarrow> component" where
  "clear_fields c = c\<lparr>cm_parent_id := None, cm_parents := [], cm_checks := None, cm_incidents := None,
     cm_analysis := None\<rparr>"

primrec remove_fields :: "comp_tree \<Rightarrow> comp_tree" where
  "remove_fields (CompTree c ks) = CompTree (clear_fields c) (map remove_fields ks)"

definition remove_component_fields :: "comp_tree list \<Rightarrow> comp_tree list" where
  "remove_component_fields ts = map remove_fields ts"

text \<open>\<open>lo.Reduce\<close> over the components: \<open>Find\<close> is only called while the value is true, and a component
  without the property is then a nil dereference, \<^term>\<open>None\<close>.\<close>

fun is_text_property :: "string \<Rightarrow> comp_tree list \<Rightarrow> bool \<Rightarrow> bool option" where
  "is_text_property field [] val = Some val"
| "is_text_property field (t # ts) val =
     (if \<not> val then is_text_property field ts False
      else case find_property (cm_properties (ct_comp t)) field of
        None \<Rightarrow> None
      | Some p \<Rightarrow> is_text_property field ts (p_text p \<noteq> []))"

text \<open>The comparison function of the sort by a property.\<close>

definition property_less :: "string \<Rightarrow> bool \<Rightarrow> bool \<Rightarrow> comp_tree \<Rightarrow> comp_tree \<Rightarrow> bool" where
  "property_less field is_text asc ti tj =
     (let (a, b) = (if asc then (ti, tj) else (tj, ti)) in
      case (find_property (cm_properties (ct_comp a)) field, find_property (cm_properties (ct_comp b)) field) of
        (Some pi, Some pj) \<Rightarrow>
          (if is_text then
             (if p_text pi = [] then \<not> asc else if p_text pj = [] then asc else p_text pi < p_text pj)
           else
             (case (p_value pi, p_value pj) of
                (None, _) \<Rightarrow> \<not> asc
              | (Some v, None) \<Rightarrow> asc
              | (Some v, Some w) \<Rightarrow> v < w))
      | _ \<Rightarrow> False)"

definition name_less :: "bool \<Rightarrow> comp_tree \<Rightarrow> comp_tree \<Rightarrow> bool" where
  "name_less asc ti tj =
     (if asc then cm_name (ct_comp ti) < cm_name (ct_comp tj) else cm_name (ct_comp tj) < cm_name (ct_comp ti))"

definition sort_components_by_field :: "((comp_tree \<Rightarrow> comp_tree \<Rightarrow> bool) \<Rightarrow> comp_tree list \<Rightarrow> comp_tree list)
    \<Rightarrow> comp_tree list \<Rightarrow> string \<Rightarrow> bool \<Rightarrow> comp_tree list option" where
  "sort_components_by_field sort_slice ts sort_by asc =
     (if sort_by = sort_by_name then Some (sort_slice (name_less asc) ts)
      else if has_prefix sort_by_field sort_by then
        (let field = trim_prefix sort_by_field sort_by in
         case is_text_property field ts True of
           None \<Rightarrow> None
         | Some is_text \<Rightarrow> Some (sort_slice (property_less field is_text asc) ts))
      else Some ts)"

text \<open>The metadata: \<open>DeleteEmptyStrings\<close> and \<open>Dedup\<close> are parameters, \<open>sort.Slice\<close> on strings is \<^const>\<open>sort\<close>.\<close>

definition update_metadata :: "(string list \<Rightarrow> string list) \<Rightarrow> (string list \<Rightarrow> string list) \<Rightarrow> topology_response
    \<Rightarrow> topology_response" where
  "update_metadata delete_empty dedup r =
     r\<lparr>tr_teams := sort (dedup (delete_empty (tr_teams r))),
       tr_health_statuses := sort (dedup (tr_health_statuses r)),
       tr_types := sort (dedup (tr_types r))\<rparr>"

subsection \<open>The query as a whole\<close>

record topology_env =
  te_delete_empty :: "string list \<Rightarrow> string list"
  te_dedup :: "string list \<Rightarrow> string list"
  te_sort_slice :: "(comp_tree \<Rightarrow> comp_tree \<Rightarrow> bool) \<Rightarrow> comp_tree list \<Rightarrow> comp_tree list"

datatype topology_outcome =
    TopologyError string
  | TopologyPanic
  | TopologyDone "comp_tree list" topology_response

definition with_kids :: "(comp_tree list \<Rightarrow> comp_tree list) \<Rightarrow> comp_tree \<Rightarrow> comp_tree" where
  "with_kids f t = CompTree (ct_comp t) (f (ct_kids t))"

definition sort_forest :: "topology_env \<Rightarrow> topology_options \<Rightarrow> comp_tree list \<Rightarrow> comp_tree list option" where
  "sort_forest env params ts =
     (if to_sort_by params = [] then Some ts
      else sort_components_by_field (te_sort_slice env) ts (to_sort_by params) (to_sort_order params \<noteq> ''desc''))"

definition shape_forest :: "topology_env \<Rightarrow> topology_options \<Rightarrow> comp_tree list \<Rightarrow> comp_tree list option" where
  "shape_forest env params root =
     (case root of
        [r] \<Rightarrow>
          (case sort_forest env params (map (with_kids remove_component_fields) (ct_kids r)) of
             None \<Rightarrow> None
           | Some ks \<Rightarrow> Some [CompTree (ct_comp r) ks])
      | _ \<Rightarrow> sort_forest env params (map (with_kids remove_component_fields) root))"

text \<open>What \<open>Topology\<close> does with the rows it fetched. The outer option is the fuel of the tree.\<close>

definition topology :: "topology_env \<Rightarrow> ('j template_env \<Rightarrow> string \<Rightarrow> string + string) \<Rightarrow> (cheap \<Rightarrow> cptr \<Rightarrow> 'j)
    \<Rightarrow> topology_options \<Rightarrow> string + topology_response \<Rightarrow> topology_outcome option" where
  "topology env run_template as_map params fetched =
     (case fetched of
        Inl e \<Rightarrow> Some (TopologyError e)
      | Inr r \<Rightarrow>
          (let comps = apply_type_filter (tr_components r) (to_types params);
               built = (if to_flatten params then Some (Inr [0..<length comps], comps)
                        else create_component_tree run_template as_map (to_id params) comps);
               depth = (if to_depth params \<le> 0 then default_depth else to_depth params)
           in case built of
                None \<Rightarrow> None
              | Some (Inl e, h) \<Rightarrow> Some (TopologyError e)
              | Some (Inr roots, h) \<Rightarrow>
                  (let copied = depth_copy h (nat depth - 1) roots;
                       shown = apply_status_filter copied (to_id params \<noteq> []) (to_status params);
                       meta = update_metadata (te_delete_empty env) (te_dedup env) r
                   in case shape_forest env params shown of
                        None \<Rightarrow> Some TopologyPanic
                      | Some ts \<Rightarrow> Some (TopologyDone ts meta))))"

subsection \<open>Items\<close>

lemma hit_negative_iff: "hit_negative item is \<longleftrightarrow> (''!'' @ item) \<in> set is"
proof (induction "is")
  case (Cons i "is")
  have "is_negative i \<and> item = trim_prefix ''!'' i \<longleftrightarrow> i = ''!'' @ item"
    using trim_prefix_append [of "''!''" item] trim_prefix_append [of "''!''"]
    by (auto simp: is_negative_def has_prefix_iff)
  then show ?case using Cons by auto
qed simp

lemma hit_positive_iff: "hit_positive item is \<longleftrightarrow> (\<exists>i \<in> set is. \<not> is_negative i \<and> (i = ''*'' \<or> i = item))"
  by (induction "is") auto

text \<open>An item passes a list of items when the list is empty, or when its negation is not in the list and
  the list has the item or a star. So a list of nothing but negations, which reads as \<open>all but
  these\<close>, lets nothing pass.\<close>

theorem match_items_correct:
  "(match_items item is \<longleftrightarrow> is = [] \<or> ((''!'' @ item) \<notin> set is
      \<and> (\<exists>i \<in> set is. \<not> is_negative i \<and> (i = ''*'' \<or> i = item))))
    \<and> \<not> match_items item (map (\<lambda>i. ''!'' @ i) (x # xs))"
  by (auto simp: match_items_def hit_negative_iff hit_positive_iff is_negative_def)

subsection \<open>The tree is built for every list of rows\<close>

definition unprocessed :: "cheap \<Rightarrow> nat" where
  "unprocessed h = card {i. i < length h \<and> \<not> cm_node_processed (h ! i)}"

definition marks_kept :: "cheap \<Rightarrow> cheap \<Rightarrow> bool" where
  "marks_kept h h' \<longleftrightarrow> length h' = length h
     \<and> (\<forall>i < length h. cm_node_processed (h ! i) \<longrightarrow> cm_node_processed (h' ! i))"

lemma marks_kept_refl [simp]: "marks_kept h h"
  by (simp add: marks_kept_def)

lemma marks_kept_trans: "marks_kept h h1 \<Longrightarrow> marks_kept h1 h2 \<Longrightarrow> marks_kept h h2"
  by (simp add: marks_kept_def)

lemma marks_kept_unprocessed: "marks_kept h h' \<Longrightarrow> unprocessed h' \<le> unprocessed h"
  unfolding unprocessed_def marks_kept_def by (rule card_mono) auto

lemma marks_kept_set:
  assumes "marks_kept h h1" "\<And>c. cm_node_processed c \<Longrightarrow> cm_node_processed (f c)"
  shows "marks_kept h (set_component p f h1)"
proof (cases "p < length h1")
  case True
  then show ?thesis using assms by (auto simp: marks_kept_def set_component_def nth_list_update)
next
  case False
  then show ?thesis using assms(1) by (simp add: set_component_def list_update_beyond)
qed

lemma unprocessed_mark:
  assumes "p < length h" "\<not> cm_node_processed (h ! p)"
  shows "unprocessed (set_component p (\<lambda>c. c\<lparr>cm_node_processed := True\<rparr>) h) < unprocessed h"
  unfolding unprocessed_def
proof (rule psubset_card_mono)
  show "{i. i < length (set_component p (\<lambda>c. c\<lparr>cm_node_processed := True\<rparr>) h)
      \<and> \<not> cm_node_processed (set_component p (\<lambda>c. c\<lparr>cm_node_processed := True\<rparr>) h ! i)}
    \<subset> {i. i < length h \<and> \<not> cm_node_processed (h ! i)}"
    using assms by (auto simp: set_component_def nth_list_update)
qed simp

lemma sum_children_marks:
  assumes "\<And>q h. marks_kept h (snd (f q h))"
  shows "marks_kept h (snd (sum_children f p qs s h))"
proof (induction qs arbitrary: s h)
  case (Cons q qs)
  obtain b h1 where q: "f q h = (b, h1)" by fastforce
  define s1 where "s1 = add_summary (own_maps (cm_summary (h1 ! p)) s) b"
  have "marks_kept h h1" using assms [of h q] q by simp
  then have "marks_kept h (set_component p (write_maps s1) h1)" by (rule marks_kept_set) simp
  from marks_kept_trans [OF this Cons.IH [where s = s1]] show ?case
    by (simp add: q Let_def s1_def [symmetric])
qed simp

lemma summarize_marks: "marks_kept h (snd (summarize d p h))"
proof (induction d arbitrary: p h)
  case (Suc d)
  show ?case
    using sum_children_marks [of "summarize d", OF Suc.IH]
    by (auto simp: Let_def split: option.split prod.split) (metis snd_conv)
qed simp

lemma finish_marks: "marks_kept h (snd (finish_node rt am p h))"
proof -
  obtain s h1 where s: "summarize 10 p h = (s, h1)" by fastforce
  have "marks_kept h h1" using summarize_marks [of h 10 p] s by simp
  then show ?thesis
    by (auto simp: finish_node_def s Let_def split: sum.split intro!: marks_kept_set)
qed

definition children_below :: "nat \<Rightarrow> child_map \<Rightarrow> bool" where
  "children_below n m \<longleftrightarrow> (\<forall>k ks. m k = Some ks \<longrightarrow> (\<forall>q \<in> set ks. q < n))"

lemma children_below_add: "children_below n m \<Longrightarrow> p < n \<Longrightarrow> children_below n (add_child_of k p m)"
  by (cases "m k") (auto simp: children_below_def add_child_of_def)

lemma children_below_adds:
  "children_below n m \<Longrightarrow> p < n \<Longrightarrow> children_below n (foldl (\<lambda>m k. add_child_of k p m) m ks)"
  by (induction ks arbitrary: m) (simp_all add: children_below_add)

lemma link_component_below:
  assumes "children_below n m" "\<forall>q \<in> set roots. q < n" "p < n"
    and "link_component root_id (m, roots) (p, c) = (m1, roots1)"
  shows "children_below n m1 \<and> (\<forall>q \<in> set roots1. q < n)"
  using assms
  by (auto simp: link_component_def Let_def children_below_add children_below_adds
      split: option.splits if_splits)

lemma link_each_below:
  assumes "children_below n m" "\<forall>q \<in> set roots. q < n" "\<forall>pc \<in> set pcs. fst pc < n"
    and "foldl (link_component root_id) (m, roots) pcs = (m1, roots1)"
  shows "children_below n m1 \<and> (\<forall>q \<in> set roots1. q < n)"
  using assms
proof (induction pcs arbitrary: m roots)
  case (Cons pc pcs)
  obtain p c where pc: "pc = (p, c)" by (cases pc)
  obtain m2 roots2 where l: "link_component root_id (m, roots) (p, c) = (m2, roots2)" by fastforce
  have "children_below n m2 \<and> (\<forall>q \<in> set roots2. q < n)"
    using Cons.prems(1-3) pc by (intro link_component_below [OF _ _ _ l]) simp_all
  then show ?case using Cons.IH [of m2 roots2] Cons.prems(3,4) pc l by simp
qed simp

lemma foldl_empty_children: "children_below n m \<Longrightarrow> children_below n (foldl (\<lambda>m c. m(cm_id c \<mapsto> [])) m cs)"
proof (induction cs arbitrary: m)
  case (Cons c cs)
  have "children_below n (m(cm_id c \<mapsto> []))" using Cons.prems by (auto simp: children_below_def)
  from Cons.IH [OF this] show ?case unfolding foldl.simps .
qed simp

lemma link_all_below:
  assumes "link_all root_id comps = (children, roots)"
  shows "children_below (length comps) children \<and> (\<forall>q \<in> set roots. q < length comps)"
proof (rule link_each_below [OF _ _ _ assms [unfolded link_all_def]])
  show "children_below (length comps) (foldl (\<lambda>m c. m(cm_id c \<mapsto> [])) Map.empty comps)"
    by (rule foldl_empty_children) (simp add: children_below_def)
  show "\<forall>pc \<in> set (enumerate 0 comps). fst pc < length comps"
    by (auto simp: in_set_enumerate_eq)
qed simp

lemma process_each_returns:
  assumes "\<And>p h. p \<in> set ps \<Longrightarrow> length h = n \<Longrightarrow> unprocessed h \<le> k \<Longrightarrow> \<not> cm_node_processed (h ! p)
      \<Longrightarrow> \<exists>r h'. step p h = Some (r, h') \<and> marks_kept h h'"
    and "length h = n" "unprocessed h \<le> k"
  shows "\<exists>r h'. process_each step ps h = Some (r, h') \<and> marks_kept h h'"
  using assms
proof (induction ps arbitrary: h)
  case (Cons p ps)
  have "\<exists>r h1. (if cm_node_processed (h ! p) then Some (Inr (), h) else step p h) = Some (r, h1) \<and> marks_kept h h1"
    using Cons.prems by simp
  then obtain r h1 where h1: "(if cm_node_processed (h ! p) then Some (Inr (), h) else step p h) = Some (r, h1)"
    "marks_kept h h1" by blast
  have len: "length h1 = n" "unprocessed h1 \<le> k"
    using h1(2) marks_kept_unprocessed [OF h1(2)] Cons.prems(2,3) by (simp_all add: marks_kept_def)
  obtain r2 h2 where h2: "process_each step ps h1 = Some (r2, h2)" "marks_kept h1 h2"
    using Cons.IH [OF _ len] Cons.prems(1) by (metis list.set_intros(2))
  show ?case
    using h1 h2 marks_kept_trans [OF h1(2) h2(2)] by (cases r; cases r2) (simp_all del: if_split)
qed simp

lemma generate_tree_returns:
  assumes "\<And>p h. marks_kept h (snd (finish p h))" "children_below n children"
    and "unprocessed h < fuel" "length h = n" "\<forall>p \<in> set ps. p < n"
  shows "\<exists>r h'. generate_tree finish children fuel ps h = Some (r, h') \<and> marks_kept h h'"
  using assms(3-5)
proof (induction fuel arbitrary: ps h)
  case (Suc fuel)
  have node: "\<exists>r h'. process_node (generate_tree finish children fuel) finish children p h = Some (r, h') \<and> marks_kept h h'"
    if p: "p \<in> set ps" "length h = n" "unprocessed h \<le> fuel" "\<not> cm_node_processed (h ! p)" for p h
  proof -
    define h1 where "h1 = set_component p (\<lambda>c. c\<lparr>cm_node_processed := True\<rparr>) h"
    have kept: "marks_kept h h1" unfolding h1_def by (rule marks_kept_set) simp_all
    have less: "unprocessed h1 < fuel"
      using unprocessed_mark [of p h] p Suc.prems(3) by (simp add: h1_def)
    show ?thesis
    proof (cases "children (cm_id (h ! p))")
      case None
      then show ?thesis
        using marks_kept_trans [OF kept assms(1)]
        by (auto simp: process_node_def h1_def [symmetric] Let_def) (metis surjective_pairing)
    next
      case (Some ks)
      then have "\<forall>q \<in> set ks. q < n" using assms(2) by (auto simp: children_below_def)
      moreover have "length h1 = n" using p(2) by (simp add: h1_def)
      ultimately obtain r h2 where h2: "generate_tree finish children fuel ks h1 = Some (r, h2)" "marks_kept h1 h2"
        using Suc.IH [OF less] by blast
      have k2: "marks_kept h h2" by (rule marks_kept_trans [OF kept h2(2)])
      show ?thesis
      proof (cases r)
        case (Inl e)
        then show ?thesis using Some h2 k2 by (simp add: process_node_def h1_def [symmetric] Let_def)
      next
        case (Inr cc)
        have "marks_kept h (set_component p (\<lambda>c. c\<lparr>cm_components := nil_if_empty cc\<rparr>) h2)"
          by (rule marks_kept_set [OF k2]) simp
        from marks_kept_trans [OF this assms(1)] show ?thesis
          using Some h2 Inr by (simp add: process_node_def h1_def [symmetric] Let_def) (metis surjective_pairing)
      qed
    qed
  qed
  show ?case
    using process_each_returns [where n = n and k = fuel and ps = ps and h = h, OF node] Suc.prems by simp
qed simp

lemma create_marks:
  "\<exists>r h. create_component_tree run_template as_map root_id comps = Some (r, h) \<and> marks_kept (map reset_component comps) h"
proof -
  obtain children roots where l: "link_all root_id comps = (children, roots)" by fastforce
  have "unprocessed (map reset_component comps) < Suc (length comps)"
    unfolding unprocessed_def
    by (rule le_imp_less_Suc, rule order_trans [OF card_mono [of "{..<length comps}"]]) auto
  then show ?thesis
    using generate_tree_returns [where finish = "finish_node run_template as_map" and n = "length comps"
        and children = children and h = "map reset_component comps" and ps = roots and fuel = "Suc (length comps)",
        OF finish_marks] link_all_below [OF l]
    by (simp add: create_component_tree_def l del: generate_tree.simps)
qed

lemma created: "create_component_tree run_template as_map root_id comps \<noteq> None"
  using create_marks [of run_template as_map root_id comps] by auto

text \<open>\<open>createComponentTree\<close> returns for every list of components, whatever cycles and repeats their
  parents form, with an error of an expression or with the heap and its roots: marking a component
  before going down to its children bounds the depth of the recursion by the number of components.\<close>

theorem create_component_tree_returns:
  "\<exists>r h. create_component_tree run_template as_map root_id comps = Some (r, h) \<and> length h = length comps"
  using create_marks [of run_template as_map root_id comps] by (auto simp: marks_kept_def)

subsection \<open>What the tree holds\<close>

text \<open>
  When no component is its own descendant, every component of the tree ends with a summary, a
  health and a status that are determined by its row and by its children. \<open>settled\<close> says so for
  one component \<open>p\<close> of the heap \<open>h\<close>; \<open>h0\<close> is the heap the recursion starts from.
\<close>

definition child_list :: "child_map \<Rightarrow> component \<Rightarrow> cptr list option" where
  "child_list children c = (case children (cm_id c) of None \<Rightarrow> cm_components c | Some ks \<Rightarrow> nil_if_empty ks)"

definition expected_summary :: "cheap \<Rightarrow> component \<Rightarrow> component \<Rightarrow> summary" where
  "expected_summary h c0 c =
     (case cm_components c of
        None \<Rightarrow> count_leaf (cm_status c0) (start_summary c0)
      | Some ps \<Rightarrow> sum_of (start_summary c0) h ps)\<lparr>sm_processed := True\<rparr>"

definition expected_healths :: "cheap \<Rightarrow> component \<Rightarrow> component \<Rightarrow> string list" where
  "expected_healths h c0 c =
     (if from_ptr (cm_health c0) \<noteq> [] then [from_ptr (cm_health c0)] else [])
     @ map (\<lambda>q. from_ptr (cm_health (h ! q))) (kids c)"

definition settled :: "('j template_env \<Rightarrow> string \<Rightarrow> string + string) \<Rightarrow> child_map \<Rightarrow> cheap \<Rightarrow> cheap \<Rightarrow> cptr \<Rightarrow> bool" where
  "settled run_template children h0 h p \<longleftrightarrow>
     cm_node_processed (h ! p)
     \<and> cm_components (h ! p) = child_list children (h0 ! p)
     \<and> (\<forall>q \<in> set (kids (h ! p)). cm_node_processed (h ! q))
     \<and> cm_summary (h ! p) = expected_summary h (h0 ! p) (h ! p)
     \<and> (cm_health_expr (h0 ! p) = [] \<longrightarrow> cm_health (h ! p) = Some (worse_health (expected_healths h (h0 ! p) (h ! p))))
     \<and> (if cm_status_expr (h0 ! p) = [] then cm_status (h ! p) = cm_status (h0 ! p)
        else run_template (StatusEnv (cm_summary (h ! p))) (cm_status_expr (h0 ! p)) = Inr (cm_status (h ! p)))"

text \<open>The rows as they are decoded: nothing processed, no children attached, no checks after the reset.\<close>

definition fresh_heap :: "cheap \<Rightarrow> bool" where
  "fresh_heap h \<longleftrightarrow> (\<forall>c \<in> set h. cm_components c = None \<and> \<not> sm_processed (cm_summary c) \<and> cm_checks c = None)"

definition ranked :: "(cptr \<Rightarrow> nat) \<Rightarrow> child_map \<Rightarrow> cheap \<Rightarrow> bool" where
  "ranked rank children h \<longleftrightarrow> (\<forall>p < length h. \<forall>ks. children (cm_id (h ! p)) = Some ks
     \<longrightarrow> (\<forall>q \<in> set ks. q < length h \<and> rank q < rank p))"

text \<open>\<open>advance r h h'\<close>: going from \<open>h\<close> to \<open>h'\<close> changes only components that were not marked and have a
  rank below \<open>r\<close>, and marks what it changes.\<close>

definition advance :: "(cptr \<Rightarrow> nat) \<Rightarrow> nat \<Rightarrow> cheap \<Rightarrow> cheap \<Rightarrow> bool" where
  "advance rank r h h' \<longleftrightarrow> length h' = length h
     \<and> (\<forall>q < length h. h' ! q = h ! q \<or> (\<not> cm_node_processed (h ! q) \<and> cm_node_processed (h' ! q) \<and> rank q < r))"

definition sound_below :: "(cptr \<Rightarrow> bool) \<Rightarrow> (cptr \<Rightarrow> nat) \<Rightarrow> nat \<Rightarrow> cheap \<Rightarrow> bool" where
  "sound_below ok rank r h \<longleftrightarrow> (\<forall>q < length h. cm_node_processed (h ! q) \<and> rank q < r \<longrightarrow> ok q)"

definition untouched :: "cheap \<Rightarrow> cheap \<Rightarrow> bool" where
  "untouched h0 h \<longleftrightarrow> length h = length h0 \<and> (\<forall>q < length h0. \<not> cm_node_processed (h ! q) \<longrightarrow> h ! q = h0 ! q)"

lemma advance_refl [simp]: "advance rank r h h"
  by (simp add: advance_def)

lemma advance_trans: "advance rank r h h1 \<Longrightarrow> advance rank r h1 h2 \<Longrightarrow> advance rank r h h2"
  unfolding advance_def by (metis (no_types, lifting))

lemma advance_mono: "advance rank r h h1 \<Longrightarrow> r \<le> r' \<Longrightarrow> advance rank r' h h1"
  unfolding advance_def by (metis (no_types, lifting) order_less_le_trans)

lemma advance_untouched: "advance rank r h h' \<Longrightarrow> untouched h0 h \<Longrightarrow> untouched h0 h'"
  unfolding advance_def untouched_def by metis

lemma advance_processed:
  "advance rank r h h' \<Longrightarrow> q < length h \<Longrightarrow> cm_node_processed (h ! q) \<Longrightarrow> h' ! q = h ! q"
  unfolding advance_def by metis

text \<open>A settled component stays settled, as it and its children are no longer changed.\<close>

lemma settled_cong:
  assumes "settled rt children h0 h p" "h' ! p = h ! p" "\<forall>q \<in> set (kids (h ! p)). h' ! q = h ! q"
  shows "settled rt children h0 h' p"
proof -
  have ks: "ps = kids (h ! p)" if "cm_components (h ! p) = Some ps" for ps
    using that by (simp add: kids_def)
  have sum: "expected_summary h' (h0 ! p) (h ! p) = expected_summary h (h0 ! p) (h ! p)"
    using assms(3) ks sum_of_cong [of "kids (h ! p)" h' h]
    by (auto simp: expected_summary_def split: option.split)
  have healths: "expected_healths h' (h0 ! p) (h ! p) = expected_healths h (h0 ! p) (h ! p)"
    using assms(3) by (simp add: expected_healths_def)
  have "\<forall>q \<in> set (kids (h ! p)). cm_node_processed (h' ! q)"
    using assms(1,3) by (simp add: settled_def)
  then show ?thesis
    using assms(1) unfolding settled_def assms(2) sum healths by blast
qed

definition kids_valid :: "nat \<Rightarrow> child_map \<Rightarrow> cheap \<Rightarrow> bool" where
  "kids_valid n children h0 \<longleftrightarrow> (\<forall>p < n. \<forall>q \<in> set (case child_list children (h0 ! p) of None \<Rightarrow> [] | Some ks \<Rightarrow> ks). q < n)"

lemma settled_kids: "settled rt children h0 h p \<Longrightarrow>
    kids (h ! p) = (case child_list children (h0 ! p) of None \<Rightarrow> [] | Some ks \<Rightarrow> ks)"
  by (simp add: settled_def kids_def)

lemma settled_advance:
  assumes "settled rt children h0 h p" "advance rank r h h'" "p < length h" "kids_valid (length h) children h0"
  shows "settled rt children h0 h' p"
proof (rule settled_cong [OF assms(1)])
  show "h' ! p = h ! p"
    using assms by (auto simp: settled_def intro: advance_processed)
  show "\<forall>q \<in> set (kids (h ! p)). h' ! q = h ! q"
    using assms settled_kids [OF assms(1)]
    by (auto simp: settled_def kids_valid_def intro!: advance_processed [OF assms(2)])
qed

text \<open>Finishing a component whose children are settled.\<close>

lemma finish_node_settles:
  assumes p: "p < length h" and row: "h ! p = (h0 ! p)\<lparr>cm_node_processed := True, cm_components := cc\<rparr>"
    and cc: "cc = child_list children (h0 ! p)" and new: "\<not> sm_processed (cm_summary (h0 ! p))" "cm_checks (h0 ! p) = None"
    and ks: "\<forall>q \<in> set (kids (h ! p)). cm_node_processed (h ! q) \<and> sm_processed (cm_summary (h ! q))"
    and acyclic: "p \<notin> set (kids (h ! p))"
    and run: "finish_node rt am p h = (Inr (), h')"
  shows "settled rt children h0 h' p \<and> (\<exists>f. h' = set_component p f h \<and> cm_node_processed (f (h ! p)))"
proof -
  have start: "start_summary (h ! p) = start_summary (h0 ! p)" by (simp add: row start_summary_def)
  obtain s h1 where s: "summarize 10 p h = (s, h1)" by fastforce
  define hs where "hs = expected_summary h (h0 ! p) (h ! p)"
  have sum: "s = hs \<and> (\<exists>f. h1 = set_component p f h \<and> (\<forall>x. (f (h ! p))\<lparr>cm_summary := x\<rparr> = (h ! p)\<lparr>cm_summary := x\<rparr>))"
  proof (cases cc)
    case None
    then have "summarize (Suc 9) p h = (hs, h)"
      using new by (subst summarize_leaf) (simp_all add: row hs_def expected_summary_def start_summary_def)
    moreover have "h = set_component p id h" by (simp add: set_component_id)
    moreover have "(10::nat) = Suc 9" by simp
    ultimately show ?thesis using s by (metis id_apply prod.inject)
  next
    case (Some ps)
    then have kps: "kids (h ! p) = ps" "cm_components (h ! p) = Some ps" by (simp_all add: row kids_def)
    have "summarize (Suc 9) p h = ((sum_of (start_summary (h ! p)) h ps)\<lparr>sm_processed := True\<rparr>,
        set_component p (write_maps (sum_of (start_summary (h ! p)) h ps)) h)"
      using new ks acyclic kps p by (intro summarize_parent) (simp_all add: row)
    moreover have "hs = (sum_of (start_summary (h ! p)) h ps)\<lparr>sm_processed := True\<rparr>"
      by (simp add: hs_def expected_summary_def kps(2) start)
    moreover have "(write_maps y c)\<lparr>cm_summary := x\<rparr> = c\<lparr>cm_summary := x\<rparr>" for y c and x :: summary
      by (simp add: write_maps_def)
    moreover have "(10::nat) = Suc 9" by simp
    ultimately show ?thesis using s by (metis prod.inject)
  qed
  then obtain f where f: "h1 = set_component p f h" "\<And>x. (f (h ! p))\<lparr>cm_summary := x\<rparr> = (h ! p)\<lparr>cm_summary := x\<rparr>"
    and shs: "s = hs" by blast
  define h2 where "h2 = set_component p (\<lambda>c. c\<lparr>cm_summary := s\<rparr>) h1"
  have h2: "h2 = set_component p (\<lambda>c. (h ! p)\<lparr>cm_summary := s\<rparr>) h"
    using p f by (simp add: h2_def set_component_def)
  obtain hl where hl: "get_health rt am h2 p = Inr hl"
    using run by (auto simp: finish_node_def s h2_def [symmetric] Let_def split: sum.splits)
  define h3 where "h3 = set_component p (\<lambda>c. c\<lparr>cm_health := Some hl\<rparr>) h2"
  obtain st where st: "get_status rt (h3 ! p) = Inr st"
    and h': "h' = set_component p (\<lambda>c. c\<lparr>cm_status := st\<rparr>) h3"
    using run by (auto simp: finish_node_def s h2_def [symmetric] hl h3_def [symmetric] Let_def split: sum.splits)
  have h'_eq: "h' = set_component p (\<lambda>c. (h ! p)\<lparr>cm_summary := s, cm_health := Some hl, cm_status := st\<rparr>) h"
    using p by (simp add: h' h3_def h2 set_component_def)
  have other: "h' ! q = h ! q" "h2 ! q = h ! q" if "q \<noteq> p" for q
    using that by (simp_all add: h'_eq h2)
  have at: "h' ! p = (h ! p)\<lparr>cm_summary := s, cm_health := Some hl, cm_status := st\<rparr>"
    "h2 ! p = (h ! p)\<lparr>cm_summary := s\<rparr>" "h3 ! p = (h ! p)\<lparr>cm_summary := s, cm_health := Some hl\<rparr>"
    using p by (simp_all add: h'_eq h2 h3_def)
  have kp: "kids (h' ! p) = kids (h ! p)" "kids (h2 ! p) = kids (h ! p)" by (simp_all add: at kids_def)
  have far: "q \<noteq> p" if "q \<in> set (kids (h ! p))" for q using that acyclic by blast
  have "hs = expected_summary h' (h0 ! p) (h' ! p)"
  proof (cases cc)
    case (Some ps)
    then have "ps = kids (h ! p)" by (simp add: row kids_def)
    then have "sum_of (start_summary (h0 ! p)) h' ps = sum_of (start_summary (h0 ! p)) h ps"
      using far other by (intro sum_of_cong) auto
    then show ?thesis using Some by (simp add: hs_def expected_summary_def at row)
  qed (simp add: hs_def expected_summary_def at row)
  moreover have "hl = worse_health (expected_healths h' (h0 ! p) (h' ! p))" if "cm_health_expr (h0 ! p) = []"
  proof -
    have "hl = worse_health (all_healths h2 (h2 ! p))"
      using hl that by (simp add: get_health_def at row)
    also have "all_healths h2 (h2 ! p) = expected_healths h' (h0 ! p) (h' ! p)"
    proof -
      have "map (\<lambda>q. from_ptr (cm_health (h2 ! q))) (kids (h ! p)) = map (\<lambda>q. from_ptr (cm_health (h' ! q))) (kids (h ! p))"
        using far other by (intro map_cong) auto
      moreover have "cm_health (h2 ! p) = cm_health (h0 ! p)" "cm_checks (h2 ! p) = None"
        using new(2) by (simp_all add: at row)
      ultimately show ?thesis by (simp add: all_healths_def expected_healths_def kp)
    qed
    finally show ?thesis .
  qed
  moreover have "\<forall>q \<in> set (kids (h' ! p)). cm_node_processed (h' ! q)"
    using ks far by (auto simp: kp other)
  moreover have "if cm_status_expr (h0 ! p) = [] then st = cm_status (h0 ! p)
      else rt (StatusEnv s) (cm_status_expr (h0 ! p)) = Inr st"
    using st by (cases "cm_status_expr (h0 ! p) = []") (auto simp: get_status_def at row split: sum.splits)
  ultimately have "settled rt children h0 h' p"
    using shs by (cases "cm_status_expr (h0 ! p) = []") (simp_all add: settled_def at row cc)
  moreover have "cm_node_processed ((h ! p)\<lparr>cm_summary := s, cm_health := Some hl, cm_status := st\<rparr>)" by (simp add: row)
  ultimately show ?thesis using h'_eq by blast
qed

text \<open>One call of the recursion: what it is given and what it leaves.\<close>

definition call_ok :: "(cptr \<Rightarrow> nat) \<Rightarrow> (cheap \<Rightarrow> cptr \<Rightarrow> bool) \<Rightarrow> cheap \<Rightarrow> nat \<Rightarrow> cheap \<Rightarrow> bool" where
  "call_ok rank ok h0 r h \<longleftrightarrow> untouched h0 h \<and> sound_below (ok h) rank r h"

lemma process_each_correct:
  assumes node: "\<And>p h h'. p \<in> set ps \<Longrightarrow> call_ok rank ok h0 r h \<Longrightarrow> \<not> cm_node_processed (h ! p)
      \<Longrightarrow> step p h = Some (Inr (), h') \<Longrightarrow> call_ok rank ok h0 r h' \<and> advance rank r h h' \<and> cm_node_processed (h' ! p)"
    and bound: "\<forall>p \<in> set ps. p < length h0" and start: "call_ok rank ok h0 r h"
    and run: "process_each step ps h = Some (Inr nodes, h')"
  shows "nodes = ps \<and> call_ok rank ok h0 r h' \<and> advance rank r h h' \<and> (\<forall>p \<in> set ps. cm_node_processed (h' ! p))"
  using assms
proof (induction ps arbitrary: h nodes)
  case (Cons p ps)
  define res where "res = (if cm_node_processed (h ! p) then Some (Inr (), h) else step p h)"
  obtain h1 rest where h1: "res = Some (Inr (), h1)" and rest: "process_each step ps h1 = Some (Inr rest, h')"
    "nodes = p # rest"
    using Cons.prems(4) by (auto simp: res_def [symmetric] split: option.splits sum.splits prod.splits)
  have one: "call_ok rank ok h0 r h1 \<and> advance rank r h h1 \<and> cm_node_processed (h1 ! p)"
  proof (cases "cm_node_processed (h ! p)")
    case True
    then show ?thesis using h1 Cons.prems(3) by (simp add: res_def)
  next
    case False
    then show ?thesis using h1 Cons.prems(1) [of p h h1] Cons.prems(3) by (simp add: res_def)
  qed
  have more: "rest = ps \<and> call_ok rank ok h0 r h' \<and> advance rank r h1 h' \<and> (\<forall>p \<in> set ps. cm_node_processed (h' ! p))"
    using one Cons.prems(2) rest(1) by (intro Cons.IH [OF Cons.prems(1)]) auto
  moreover have "length h1 = length h0" using one by (simp add: call_ok_def untouched_def)
  then have "cm_node_processed (h' ! p)"
    using more one Cons.prems(2) advance_processed [of rank r h1 h' p] by simp
  ultimately show ?case using one advance_trans [of rank r h h1 h'] by (simp add: rest(2))
qed simp

lemma sound_below_advance:
  assumes "sound_below (settled rt children h0 h) rank r h" "advance rank s h h'" "kids_valid (length h) children h0"
    and "q < length h" "cm_node_processed (h ! q)" "rank q < r"
  shows "settled rt children h0 h' q"
  using assms settled_advance [of rt children h0 h q rank s h'] by (simp add: sound_below_def)

lemma ranked_kids:
  assumes "ranked rank children h0" "fresh_heap h0" "p < length h0"
    and "q \<in> set (case child_list children (h0 ! p) of None \<Rightarrow> [] | Some ks \<Rightarrow> ks)"
  shows "q < length h0 \<and> rank q < rank p"
  using assms by (fastforce simp: ranked_def child_list_def nil_if_empty_def fresh_heap_def split: option.splits if_splits)

lemma fresh_row: "fresh_heap h0 \<Longrightarrow> p < length h0 \<Longrightarrow> cm_components (h0 ! p) = None
    \<and> \<not> sm_processed (cm_summary (h0 ! p)) \<and> cm_checks (h0 ! p) = None"
  by (simp add: fresh_heap_def)

text \<open>Marking a component, going down to its children, and finishing it. The heap \<open>h3\<close> is the one
  that \<open>finish_node\<close> is called on.\<close>

definition descended :: "('j template_env \<Rightarrow> string \<Rightarrow> string + string) \<Rightarrow> (cptr \<Rightarrow> nat) \<Rightarrow> child_map \<Rightarrow> cheap \<Rightarrow> cptr
    \<Rightarrow> cheap \<Rightarrow> cheap \<Rightarrow> bool" where
  "descended rt rank children h0 p h h3 \<longleftrightarrow> length h3 = length h0
     \<and> h3 ! p = (h0 ! p)\<lparr>cm_node_processed := True, cm_components := child_list children (h0 ! p)\<rparr>
     \<and> (\<forall>q < length h0. q \<noteq> p \<longrightarrow> h3 ! q = h ! q
          \<or> (\<not> cm_node_processed (h ! q) \<and> cm_node_processed (h3 ! q) \<and> rank q < rank p))
     \<and> (\<forall>q < length h0. cm_node_processed (h3 ! q) \<and> rank q < rank p \<longrightarrow> settled rt children h0 h3 q)
     \<and> (\<forall>q \<in> set (kids (h3 ! p)). cm_node_processed (h3 ! q))"

lemma kids_of_row: "kids (c\<lparr>cm_node_processed := b, cm_components := cc\<rparr>) = (case cc of None \<Rightarrow> [] | Some ps \<Rightarrow> ps)"
  by (simp add: kids_def)

lemma finish_descended:
  assumes d: "descended rt rank children h0 p h h3" and given: "call_ok rank (settled rt children h0) h0 r h"
    and tree: "ranked rank children h0" "fresh_heap h0" and p: "p < length h0" "rank p < r" "\<not> cm_node_processed (h ! p)"
    and run: "finish_node rt am p h3 = (Inr (), h')"
  shows "call_ok rank (settled rt children h0) h0 r h' \<and> advance rank r h h' \<and> cm_node_processed (h' ! p)"
proof -
  have len: "length h = length h0" "length h3 = length h0"
    using d given by (simp_all add: descended_def call_ok_def untouched_def)
  have row: "h3 ! p = (h0 ! p)\<lparr>cm_node_processed := True, cm_components := child_list children (h0 ! p)\<rparr>"
    using d by (simp add: descended_def)
  have ranks: "q < length h0 \<and> rank q < rank p" if "q \<in> set (kids (h3 ! p))" for q
    using that ranked_kids [OF tree p(1)] by (simp add: row kids_of_row)
  have below: "settled rt children h0 h3 q" if "q < length h0" "cm_node_processed (h3 ! q)" "rank q < rank p" for q
    using that d by (simp add: descended_def)
  have "cm_node_processed (h3 ! q) \<and> sm_processed (cm_summary (h3 ! q))" if "q \<in> set (kids (h3 ! p))" for q
  proof -
    have marked: "cm_node_processed (h3 ! q)" using d that by (simp add: descended_def)
    then have "settled rt children h0 h3 q" using below ranks that by blast
    then have "cm_summary (h3 ! q) = expected_summary h3 (h0 ! q) (h3 ! q)" by (simp add: settled_def)
    then show ?thesis using marked by (simp add: expected_summary_def)
  qed
  moreover have "p \<notin> set (kids (h3 ! p))" using ranks by blast
  ultimately obtain f where set: "settled rt children h0 h' p" "h' = set_component p f h3" "cm_node_processed (f (h3 ! p))"
    using finish_node_settles [OF _ row refl _ _ _ _ run] fresh_row [OF tree(2) p(1)] p(1) len by auto
  have other: "h' ! q = h3 ! q" if "q \<noteq> p" for q using that by (simp add: set(2))
  have at_p: "cm_node_processed (h' ! p)" using set p(1) len by simp
  have adv: "advance rank r h h'"
    unfolding advance_def
  proof (intro conjI allI impI)
    show "length h' = length h" using len by (simp add: set(2))
    fix q assume "q < length h"
    show "h' ! q = h ! q \<or> (\<not> cm_node_processed (h ! q) \<and> cm_node_processed (h' ! q) \<and> rank q < r)"
    proof (cases "q = p")
      case False
      then have "h3 ! q = h ! q \<or> (\<not> cm_node_processed (h ! q) \<and> cm_node_processed (h3 ! q) \<and> rank q < rank p)"
        using d \<open>q < length h\<close> len by (simp add: descended_def)
      then show ?thesis using other [OF False] p(2) by auto
    qed (use p at_p in simp)
  qed
  have valid: "kids_valid (length h) children h0"
    using ranked_kids [OF tree] by (simp add: kids_valid_def len)
  have "settled rt children h0 h' q" if q: "q < length h0" "cm_node_processed (h' ! q)" "rank q < r" for q
  proof (cases "q = p")
    case False
    show ?thesis
    proof (cases "rank q < rank p")
      case True
      have s3: "settled rt children h0 h3 q" using below q True False other by simp
      have "x \<noteq> p" if "x \<in> set (kids (h3 ! q))" for x
        using that settled_kids [OF s3] ranked_kids [OF tree q(1)] True by fastforce
      then show ?thesis using settled_cong [OF s3] other False by simp
    next
      case rank: False
      then have "cm_node_processed (h ! q)"
        using d q False other unfolding descended_def by metis
      then show ?thesis
        using sound_below_advance [where rt = rt, OF _ adv valid _ _ q(3)] given q(1) len by (simp add: call_ok_def)
    qed
  qed (use set in simp)
  moreover have "length h' = length h0" using adv len by (simp add: advance_def)
  moreover have "untouched h0 h'" using advance_untouched [OF adv] given by (simp add: call_ok_def)
  ultimately show ?thesis using adv at_p by (simp add: call_ok_def sound_below_def)
qed

text \<open>The heap on which \<open>finish_node\<close> is called, without and with children.\<close>

definition mark :: "cptr \<Rightarrow> cheap \<Rightarrow> cheap" where
  "mark p h = set_component p (\<lambda>c. c\<lparr>cm_node_processed := True\<rparr>) h"

lemma mark_simps:
  "q \<noteq> p \<Longrightarrow> mark p h ! q = h ! q" "length (mark p h) = length h"
  "p < length h \<Longrightarrow> mark p h ! p = (h ! p)\<lparr>cm_node_processed := True\<rparr>"
  by (simp_all add: mark_def)

lemma mark_settled:
  assumes "call_ok rank (settled rt children h0) h0 r h" "\<not> cm_node_processed (h ! p)" "rank p < r"
    and "q < length h0" "cm_node_processed (mark p h ! q)" "rank q < rank p"
  shows "settled rt children h0 (mark p h) q"
proof -
  have ne: "q \<noteq> p" using assms(6) by auto
  have s: "settled rt children h0 h q"
    using assms mark_simps(1) [OF ne, of h] by (simp add: call_ok_def sound_below_def untouched_def)
  have "x \<noteq> p" if "x \<in> set (kids (h ! q))" for x
    using that s assms(2) by (auto simp: settled_def)
  then show ?thesis using settled_cong [OF s] mark_simps(1) ne by simp
qed

lemma mark_call_ok:
  assumes "call_ok rank (settled rt children h0) h0 r h" "\<not> cm_node_processed (h ! p)" "p < length h0" "rank p < r"
  shows "call_ok rank (settled rt children h0) h0 (rank p) (mark p h)"
proof -
  have len: "length h = length h0" using assms(1) by (simp add: call_ok_def untouched_def)
  have "mark p h ! q = h0 ! q" if "q < length h0" "\<not> cm_node_processed (mark p h ! q)" for q
  proof -
    have "q \<noteq> p" using that(2) assms(3) len mark_simps(3) [of p h] by auto
    then show ?thesis using assms(1) that mark_simps(1) by (simp add: call_ok_def untouched_def)
  qed
  then show ?thesis
    using mark_settled [OF assms(1,2,4)] len
    by (simp add: call_ok_def sound_below_def untouched_def mark_simps(2))
qed

lemma descended_leaf:
  assumes given: "call_ok rank (settled rt children h0) h0 r h" "\<not> cm_node_processed (h ! p)" "p < length h0" "rank p < r"
    and fresh: "fresh_heap h0" and none: "children (cm_id (h0 ! p)) = None"
  shows "descended rt rank children h0 p h (mark p h)"
proof -
  have len: "length h = length h0" and row: "h ! p = h0 ! p"
    using given by (simp_all add: call_ok_def untouched_def)
  have "cm_components (h0 ! p) = None" using fresh_row [OF fresh given(3)] by simp
  moreover from this have "child_list children (h0 ! p) = None" using none by (simp add: child_list_def)
  ultimately show ?thesis
    using mark_settled [OF given(1,2,4)] mark_simps(1) mark_simps(3) [of p h] given(3)
    by (simp add: descended_def kids_def len row mark_simps(2))
qed

lemma descended_children:
  assumes given: "call_ok rank (settled rt children h0) h0 r h" "\<not> cm_node_processed (h ! p)" "p < length h0" "rank p < r"
    and tree: "ranked rank children h0" "fresh_heap h0" and ks: "children (cm_id (h0 ! p)) = Some ks"
    and below: "call_ok rank (settled rt children h0) h0 (rank p) h2" "advance rank (rank p) (mark p h) h2"
      "\<forall>q \<in> set ks. cm_node_processed (h2 ! q)"
    and h3: "h3 = set_component p (\<lambda>c. c\<lparr>cm_components := nil_if_empty ks\<rparr>) h2"
  shows "descended rt rank children h0 p h h3"
  unfolding descended_def
proof (intro conjI allI impI ballI)
  have len: "length h = length h0" "length (mark p h) = length h0" "length h2 = length h0" and row: "h ! p = h0 ! p"
    using given below(2) by (simp_all add: call_ok_def untouched_def advance_def mark_simps(2))
  have marked: "mark p h ! p = (h0 ! p)\<lparr>cm_node_processed := True\<rparr>" using given(3) len row by (simp add: mark_simps(3))
  then have "h2 ! p = (h0 ! p)\<lparr>cm_node_processed := True\<rparr>"
    using advance_processed [OF below(2), of p] given(3) len by simp
  then show at_p: "h3 ! p = (h0 ! p)\<lparr>cm_node_processed := True, cm_components := child_list children (h0 ! p)\<rparr>"
    using given(3) len ks by (simp add: h3 child_list_def)
  have at_q: "h3 ! q = h2 ! q" if "q \<noteq> p" for q using that by (simp add: h3)
  show "length h3 = length h0" using len by (simp add: h3)
  show "h3 ! q = h ! q \<or> (\<not> cm_node_processed (h ! q) \<and> cm_node_processed (h3 ! q) \<and> rank q < rank p)"
    if "q < length h0" "q \<noteq> p" for q
  proof -
    have "h2 ! q = mark p h ! q \<or> (\<not> cm_node_processed (mark p h ! q) \<and> cm_node_processed (h2 ! q) \<and> rank q < rank p)"
      using below(2) that len by (simp add: advance_def)
    then show ?thesis unfolding at_q [OF that(2)] mark_simps(1) [OF that(2)] .
  qed
  show "settled rt children h0 h3 q" if q: "q < length h0" "cm_node_processed (h3 ! q) \<and> rank q < rank p" for q
  proof -
    have ne: "q \<noteq> p" using q(2) by auto
    have s2: "settled rt children h0 h2 q"
      using below(1) q at_q [OF ne] len by (simp add: call_ok_def sound_below_def)
    have "x \<noteq> p" if "x \<in> set (kids (h2 ! q))" for x
      using that settled_kids [OF s2] ranked_kids [OF tree q(1)] q(2) by fastforce
    then show ?thesis using settled_cong [OF s2] at_q ne by simp
  qed
  show "cm_node_processed (h3 ! q)" if q: "q \<in> set (kids (h3 ! p))" for q
  proof -
    have "q \<in> set ks" using q ks by (simp add: at_p kids_of_row child_list_def nil_if_empty_def split: if_splits)
    moreover from this have "q \<noteq> p" using tree(1) ks given(3) by (fastforce simp: ranked_def)
    ultimately show ?thesis using below(3) at_q by simp
  qed
qed

lemma generate_tree_correct:
  assumes tree: "ranked rank children h0" "fresh_heap h0"
    and "call_ok rank (settled rt children h0) h0 r h" "\<forall>p \<in> set ps. p < length h0 \<and> rank p < r"
    and "generate_tree (finish_node rt am) children fuel ps h = Some (Inr nodes, h')"
  shows "nodes = ps \<and> call_ok rank (settled rt children h0) h0 r h' \<and> advance rank r h h'
    \<and> (\<forall>p \<in> set ps. cm_node_processed (h' ! p))"
  using assms(3-5)
proof (induction fuel arbitrary: ps h h' r nodes)
  case (Suc fuel)
  let ?ok = "settled rt children h0"
  have node: "call_ok rank ?ok h0 r h' \<and> advance rank r h h' \<and> cm_node_processed (h' ! p)"
    if p: "p \<in> set ps" "call_ok rank ?ok h0 r h" "\<not> cm_node_processed (h ! p)"
      and run: "process_node (generate_tree (finish_node rt am) children fuel) (finish_node rt am) children p h
        = Some (Inr (), h')" for p h h'
  proof -
    have pn: "p < length h0" "rank p < r" using p(1) Suc.prems(2) by auto
    have row: "h ! p = h0 ! p" using p pn by (simp add: call_ok_def untouched_def)
    obtain h3 where h3: "descended rt rank children h0 p h h3" "finish_node rt am p h3 = (Inr (), h')"
    proof (cases "children (cm_id (h0 ! p))")
      case None
      show ?thesis
        using that [OF descended_leaf [OF p(2,3) pn tree(2) None]] run None
        by (simp add: process_node_def mark_def row Let_def)
    next
      case (Some ks)
      obtain cc h2 where h2: "generate_tree (finish_node rt am) children fuel ks (mark p h) = Some (Inr cc, h2)"
        and fin: "finish_node rt am p (set_component p (\<lambda>c. c\<lparr>cm_components := nil_if_empty cc\<rparr>) h2) = (Inr (), h')"
        using run Some by (auto simp: process_node_def mark_def row Let_def split: option.splits prod.splits sum.splits)
      have "cc = ks \<and> call_ok rank ?ok h0 (rank p) h2 \<and> advance rank (rank p) (mark p h) h2
          \<and> (\<forall>q \<in> set ks. cm_node_processed (h2 ! q))"
        using Suc.IH [OF mark_call_ok [OF p(2,3) pn] _ h2] tree(1) Some pn(1) by (auto simp: ranked_def)
      then have "cc = ks" and ok2: "call_ok rank ?ok h0 (rank p) h2" "advance rank (rank p) (mark p h) h2"
        "\<forall>q \<in> set ks. cm_node_processed (h2 ! q)" by blast+
      then show ?thesis
        using that [OF descended_children [OF p(2,3) pn tree Some ok2 refl]] fin by simp
    qed
    show ?thesis by (rule finish_descended [OF h3(1) p(2) tree pn p(3) h3(2)])
  qed
  show ?case
  proof (rule process_each_correct)
    show "process_each (process_node (generate_tree (finish_node rt am) children fuel) (finish_node rt am) children) ps h
      = Some (Inr nodes, h')" using Suc.prems(3) by simp
    show "call_ok rank ?ok h0 r h" by (rule Suc.prems(1))
    show "\<forall>p \<in> set ps. p < length h0" using Suc.prems(2) by simp
  qed (rule node)
qed simp

text \<open>C22: on rows whose parents form no cycle, \<open>createComponentTree\<close> that returns no error returns the roots,
  all of them processed, and of the other components it has processed exactly what it reached, each
  with its children attached: its summary is its own counts of incidents, insights and checks plus
  those of its children, its health is the worst of its stored health and its children's unless it
  has an expression (its checks, reset before, play no part), and its status is its own or what its
  expression gives for the summary. A component that was not reached keeps its row.\<close>

theorem create_component_tree_correct:
  assumes rows: "\<forall>c \<in> set comps. cm_components c = None \<and> \<not> cm_node_processed c \<and> \<not> sm_processed (cm_summary c)"
    and link: "link_all root_id comps = (children, roots)"
    and acyclic: "ranked rank children (map reset_component comps)"
    and run: "create_component_tree rt am root_id comps = Some (Inr nodes, h)"
  shows "nodes = roots \<and> (\<forall>p \<in> set roots. cm_node_processed (h ! p))
    \<and> (\<forall>p < length comps. if cm_node_processed (h ! p) then settled rt children (map reset_component comps) h p
         else h ! p = reset_component (comps ! p))"
proof -
  define h0 where "h0 = map reset_component comps"
  define r where "r = Suc (\<Sum>p\<leftarrow>roots. rank p)"
  have fields: "cm_components (reset_component c) = cm_components c" "cm_checks (reset_component c) = None"
    "cm_node_processed (reset_component c) = cm_node_processed c"
    "sm_processed (cm_summary (reset_component c)) = sm_processed (cm_summary c)" for c
    by (simp_all add: reset_component_def)
  have fresh: "fresh_heap h0" using rows by (simp add: fresh_heap_def h0_def fields)
  have unmarked: "\<not> cm_node_processed (h0 ! q)" if "q < length h0" for q
    using rows that by (simp add: h0_def fields)
  have start: "call_ok rank (settled rt children h0) h0 r h0"
    using unmarked by (simp add: call_ok_def untouched_def sound_below_def)
  have roots: "\<forall>p \<in> set roots. p < length h0 \<and> rank p < r"
    using link_all_below [OF link] member_le_sum_list [of _ "map rank roots"] by (auto simp: h0_def r_def le_imp_less_Suc)
  have call: "generate_tree (finish_node rt am) children (Suc (length comps)) roots h0 = Some (Inr nodes, h)"
    using run link by (simp add: create_component_tree_def h0_def)
  have gen: "nodes = roots \<and> call_ok rank (settled rt children h0) h0 r h \<and> advance rank r h0 h
      \<and> (\<forall>p \<in> set roots. cm_node_processed (h ! p))"
    by (rule generate_tree_correct [OF acyclic [folded h0_def] fresh start roots call])
  have each: "if cm_node_processed (h ! p) then settled rt children h0 h p else h ! p = h0 ! p" if p: "p < length h0" for p
  proof (cases "cm_node_processed (h ! p)")
    case True
    have "h ! p = h0 ! p \<or> rank p < r" and len: "length h = length h0" using gen p by (auto simp: advance_def)
    then have "rank p < r" using True unmarked [OF p] by auto
    then show ?thesis using gen True p len by (simp add: call_ok_def sound_below_def)
  next
    case False
    then show ?thesis using gen p by (simp add: call_ok_def untouched_def)
  qed
  have "if cm_node_processed (h ! p) then settled rt children (map reset_component comps) h p
      else h ! p = reset_component (comps ! p)" if "p < length comps" for p
  proof -
    have "p < length h0" using that by (simp add: h0_def)
    from each [OF this] that show ?thesis unfolding h0_def by (simp only: nth_map)
  qed
  then show ?thesis using gen by blast
qed

text \<open>Two rows, a root and its unhealthy child.\<close>

definition sample_rows :: cheap where
  "sample_rows = [sample_component, sample_component\<lparr>cm_id := ''b'', cm_parent_id := Some ''a'',
     cm_status := status_unhealthy, cm_health := Some ''unhealthy'', cm_analysis := Some [(''security'', [(''high'', 1)])]\<rparr>]"

definition no_template :: "unit template_env \<Rightarrow> string \<Rightarrow> string + string" where
  "no_template env e = Inl ''no expressions''"

lemma link_sample: "link_all [] sample_rows = ([''a'' \<mapsto> [1], ''b'' \<mapsto> []], [0])"
  by (simp add: link_all_def sample_rows_def sample_component_def link_component_def add_child_of_def fun_eq_iff
      enumerate_eq_zip Let_def)

lemma create_component_tree_correct_witness:
  "\<exists>h. create_component_tree no_template (\<lambda>h p. ()) [] sample_rows = Some (Inr [0], h)
    \<and> cm_health (h ! 0) = Some health_unhealthy"
proof -
  let ?run = "create_component_tree no_template (\<lambda>h p. ()) [] sample_rows"
  let ?h0 = "map reset_component sample_rows"
  have "map_option fst ?run = Some (Inr [0])" by code_simp
  then obtain nodes h where run: "?run = Some (Inr nodes, h)" by auto
  have rows: "\<forall>c \<in> set sample_rows. cm_components c = None \<and> \<not> cm_node_processed c \<and> \<not> sm_processed (cm_summary c)"
    by (simp add: sample_rows_def sample_component_def zero_summary_def)
  have acyclic: "ranked (\<lambda>p. 1 - p) [''a'' \<mapsto> [1], ''b'' \<mapsto> []] ?h0"
    by (auto simp: ranked_def sample_rows_def sample_component_def reset_component_def nth_Cons split: nat.splits)
  have t: "nodes = [0] \<and> (\<forall>p \<in> set [0]. cm_node_processed (h ! p)) \<and> (\<forall>p < length sample_rows.
      if cm_node_processed (h ! p) then settled no_template [''a'' \<mapsto> [1], ''b'' \<mapsto> []] ?h0 h p
      else h ! p = reset_component (sample_rows ! p))"
    by (rule create_component_tree_correct [OF rows link_sample acyclic run])
  have two: "length sample_rows = 2" by (simp add: sample_rows_def)
  have a: "settled no_template [''a'' \<mapsto> [1], ''b'' \<mapsto> []] ?h0 h 0"
    using t two by force
  have ks: "kids (h ! 0) = [1]"
    using settled_kids [OF a] by (simp add: child_list_def sample_rows_def sample_component_def reset_component_def nil_if_empty_def)
  then have "cm_node_processed (h ! 1)" using a by (simp add: settled_def)
  moreover have "if cm_node_processed (h ! 1) then settled no_template [''a'' \<mapsto> [1], ''b'' \<mapsto> []] ?h0 h 1
      else h ! 1 = reset_component (sample_rows ! 1)" using t two by (metis one_less_numeral_iff semiring_norm(76))
  ultimately have "settled no_template [''a'' \<mapsto> [1], ''b'' \<mapsto> []] ?h0 h 1" by simp
  then have "cm_health (h ! 1) = Some (worse_health (expected_healths h (?h0 ! 1) (h ! 1)))"
    by (simp add: settled_def sample_rows_def sample_component_def reset_component_def)
  then have "cm_health (h ! 1) = Some health_unhealthy"
    by (simp add: expected_healths_def sample_rows_def sample_component_def reset_component_def worse_health_eq from_ptr_def health_names)
  moreover have "cm_health (h ! 0) = Some (worse_health (expected_healths h (?h0 ! 0) (h ! 0)))"
    using a by (simp add: settled_def sample_rows_def sample_component_def reset_component_def)
  ultimately have "cm_health (h ! 0) = Some health_unhealthy"
    by (simp add: expected_healths_def ks sample_rows_def sample_component_def reset_component_def worse_health_eq from_ptr_def)
  then show ?thesis using run t by simp
qed

subsection \<open>A component that is its own parent\<close>

text \<open>Such a row is the one cycle that \<open>Summarize\<close> follows down to its depth: each of the ten levels adds
  the shared counts to themselves. One critical insight becomes 1024.\<close>

definition self_parent :: cheap where
  "self_parent = [sample_component\<lparr>cm_parent_id := Some ''a'', cm_analysis := Some [(''security'', [(''critical'', 1)])]\<rparr>]"

lemma self_parent_multiplies:
  "map_option (\<lambda>(r, h). (r, severity_count (sm_insights (cm_summary (h ! 0))) ''security'' ''critical''))
     (create_component_tree no_template (\<lambda>h p. ()) ''a'' self_parent) = Some (Inr [0], 1024)"
  by code_simp

subsection \<open>Depth\<close>

primrec tree_height :: "comp_tree \<Rightarrow> nat" where
  "tree_height (CompTree c ks) = Suc (fold max (map tree_height ks) 0)"

lemma fold_max_le: "(\<forall>x \<in> set xs. x \<le> n) \<Longrightarrow> a \<le> n \<Longrightarrow> fold max xs a \<le> (n::nat)"
  by (induction xs arbitrary: a) auto

lemma fold_max_ge: "x \<in> set xs \<Longrightarrow> x \<le> fold max xs (a::nat)"
proof (induction xs arbitrary: a)
  case (Cons y ys)
  have mono: "b \<le> fold max zs b" for zs and b :: nat
    by (induction zs arbitrary: b) (auto intro: order_trans [OF max.cobounded2])
  show ?case using Cons mono [of "max y a" ys] by (auto intro: order_trans)
qed simp

lemma height_iff: "tree_height (CompTree c ks) \<le> Suc n \<longleftrightarrow> (\<forall>k \<in> set ks. tree_height k \<le> n)"
  using fold_max_le [of "map tree_height ks" n 0] fold_max_ge [of _ "map tree_height ks" 0]
  by (auto intro: order_trans)

lemma depth_copy_height: "t \<in> set (depth_copy h n ps) \<Longrightarrow> tree_height t \<le> Suc n"
proof (induction n arbitrary: ps t)
  case (Suc n)
  then show ?case by (auto simp: height_iff simp del: tree_height.simps)
qed auto

lemma filter_children_height: "tree_height t \<le> Suc n \<Longrightarrow> tree_height (filter_children statii t) \<le> Suc n"
  by (cases t) (simp add: filter_children_def height_iff del: tree_height.simps)

lemma status_filter_height:
  "\<forall>t \<in> set ts. tree_height t \<le> Suc n \<Longrightarrow> \<forall>t \<in> set (apply_status_filter ts b statii). tree_height t \<le> Suc n"
  by (auto simp: apply_status_filter_def filter_children_height)

lemma remove_fields_height [simp]: "tree_height (remove_fields t) = tree_height t"
proof (induction t)
  case (CompTree c ks)
  then have "map (tree_height \<circ> remove_fields) ks = map tree_height ks" by simp
  then show ?case by (simp only: remove_fields.simps tree_height.simps map_map)
qed

lemma with_kids_height:
  "tree_height t \<le> Suc n \<Longrightarrow> tree_height (with_kids remove_component_fields t) \<le> Suc n"
  by (cases t) (simp add: with_kids_def remove_component_fields_def height_iff del: tree_height.simps)

definition sort_keeps :: "((comp_tree \<Rightarrow> comp_tree \<Rightarrow> bool) \<Rightarrow> comp_tree list \<Rightarrow> comp_tree list) \<Rightarrow> bool" where
  "sort_keeps sort_slice \<longleftrightarrow> (\<forall>lt ts. mset (sort_slice lt ts) = mset ts)"

lemma sort_forest_mset:
  assumes "sort_keeps (te_sort_slice env)" "sort_forest env params ts = Some ts'"
  shows "mset ts' = mset ts"
  using assms by (auto simp: sort_forest_def sort_components_by_field_def sort_keeps_def Let_def split: if_splits option.splits)

lemma sort_forest_set:
  "sort_keeps (te_sort_slice env) \<Longrightarrow> sort_forest env params ts = Some ts' \<Longrightarrow> set ts' = set ts"
  by (metis sort_forest_mset set_mset_mset)

lemma shape_forest_height:
  assumes keeps: "sort_keeps (te_sort_slice env)" and run: "shape_forest env params ts = Some ts'"
    and le: "\<forall>t \<in> set ts. tree_height t \<le> Suc n"
  shows "\<forall>t \<in> set ts'. tree_height t \<le> Suc n"
proof (cases "\<exists>r. ts = [r]")
  case True
  then obtain r where r: "ts = [r]" by blast
  obtain ks where ks: "sort_forest env params (map (with_kids remove_component_fields) (ct_kids r)) = Some ks"
    "ts' = [CompTree (ct_comp r) ks]"
    using run r by (auto simp: shape_forest_def split: option.splits)
  have kids: "\<forall>k \<in> set (ct_kids r). tree_height k \<le> n"
    using le r by (cases r) (simp add: height_iff del: tree_height.simps)
  have "tree_height (with_kids remove_component_fields k) \<le> n" if "k \<in> set (ct_kids r)" for k
    using kids that with_kids_height [of k "n - 1"] by (cases n; cases k) auto
  then show ?thesis
    using sort_forest_set [OF keeps ks(1)] by (simp add: ks(2) height_iff del: tree_height.simps)
next
  case False
  then have "sort_forest env params (map (with_kids remove_component_fields) ts) = Some ts'"
    using run by (cases ts rule: remdups_adj.cases) (auto simp: shape_forest_def)
  then show ?thesis using sort_forest_set [OF keeps] le by (auto simp: with_kids_height)
qed

text \<open>whatever the rows and options, the query gives an error, the panic of the sort, or trees that
  are no higher than the depth asked for (five when it is not positive), so the answer can always
  be encoded.\<close>

theorem topology_depth:
  assumes "sort_keeps (te_sort_slice env)"
  shows "case topology env run_template as_map params fetched of
      None \<Rightarrow> False
    | Some (TopologyDone ts meta) \<Rightarrow>
        (\<forall>t \<in> set ts. int (tree_height t) \<le> (if to_depth params \<le> 0 then 5 else to_depth params))
    | Some _ \<Rightarrow> True"
proof (cases fetched)
  case (Inr r)
  define comps where "comps = apply_type_filter (tr_components r) (to_types params)"
  define built where "built = (if to_flatten params then Some (Inr [0..<length comps], comps)
    else create_component_tree run_template as_map (to_id params) comps)"
  define depth where "depth = (if to_depth params \<le> 0 then 5 else to_depth params)"
  have "built \<noteq> None" using created [of run_template as_map "to_id params" comps] by (auto simp: built_def)
  then obtain res h where b: "built = Some (res, h)" by (metis not_None_eq surj_pair)
  show ?thesis
  proof (cases res)
    case (Inl e)
    then show ?thesis using Inr b by (simp add: topology_def comps_def [symmetric] built_def [symmetric] Let_def)
  next
    case roots: (Inr roots)
    define shown where "shown = apply_status_filter (depth_copy h (nat depth - 1) roots) (to_id params \<noteq> []) (to_status params)"
    have "\<forall>t \<in> set shown. tree_height t \<le> Suc (nat depth - 1)"
      unfolding shown_def by (rule status_filter_height) (blast intro: depth_copy_height)
    moreover have "int (Suc (nat depth - 1)) = depth" by (simp add: depth_def)
    ultimately have "int (tree_height t) \<le> depth" if "shape_forest env params shown = Some ts" "t \<in> set ts" for ts t
      using shape_forest_height [OF assms that(1)] that(2) by fastforce
    moreover have "topology env run_template as_map params fetched = (case shape_forest env params shown of
        None \<Rightarrow> Some TopologyPanic
      | Some ts \<Rightarrow> Some (TopologyDone ts (update_metadata (te_delete_empty env) (te_dedup env) r)))"
      using b unfolding topology_def Inr Let_def sum.case comps_def [symmetric] built_def [symmetric] roots
        default_depth_def depth_def [symmetric] shown_def by simp
    ultimately show ?thesis unfolding depth_def [symmetric] by (auto split: option.split)
  qed
qed (simp add: topology_def)

lemma topology_depth_witness:
  "case topology \<lparr>te_delete_empty = id, te_dedup = id, te_sort_slice = \<lambda>lt ts. ts\<rparr> no_template (\<lambda>h p. ())
      (new_topology_params (\<lambda>_. []) []) (Inr (empty_response\<lparr>tr_components := sample_rows\<rparr>)) of
    Some (TopologyDone ts meta) \<Rightarrow> \<forall>t \<in> set ts. int (tree_height t) \<le> 5
  | _ \<Rightarrow> True"
  using topology_depth [where env = "\<lparr>te_delete_empty = id, te_dedup = id, te_sort_slice = \<lambda>lt ts. ts\<rparr>"
      and run_template = no_template and as_map = "\<lambda>h p. ()" and params = "new_topology_params (\<lambda>_. []) []"
      and fetched = "Inr (empty_response\<lparr>tr_components := sample_rows\<rparr>)"]
  by (simp add: sort_keeps_def new_topology_params_def parse_depth_def url_get_def default_depth_def
      split: option.splits topology_outcome.splits)

subsection \<open>Sorting\<close>

text \<open>\<open>sort.Slice\<close> sorts when the comparison is a strict weak order on the elements of the slice.\<close>

definition strict_weak_on :: "'a set \<Rightarrow> ('a \<Rightarrow> 'a \<Rightarrow> bool) \<Rightarrow> bool" where
  "strict_weak_on A lt \<longleftrightarrow> (\<forall>a \<in> A. \<not> lt a a)
     \<and> (\<forall>a \<in> A. \<forall>b \<in> A. \<forall>c \<in> A. lt a b \<and> lt b c \<longrightarrow> lt a c)
     \<and> (\<forall>a \<in> A. \<forall>b \<in> A. \<forall>c \<in> A. \<not> lt a b \<and> \<not> lt b c \<longrightarrow> \<not> lt a c)"

definition slice_law :: "(('a \<Rightarrow> 'a \<Rightarrow> bool) \<Rightarrow> 'a list \<Rightarrow> 'a list) \<Rightarrow> bool" where
  "slice_law srt \<longleftrightarrow> (\<forall>lt xs. strict_weak_on (set xs) lt
     \<longrightarrow> mset (srt lt xs) = mset xs \<and> sorted_wrt (\<lambda>a b. \<not> lt b a) (srt lt xs))"

lemma strict_weak_key:
  assumes "\<And>a b. a \<in> A \<Longrightarrow> b \<in> A \<Longrightarrow> lt a b \<longleftrightarrow> key a < (key b :: 'k::linorder)"
  shows "strict_weak_on A lt"
  using assms unfolding strict_weak_on_def by (auto intro: less_trans)

lemma sorted_wrt_set_mono:
  "sorted_wrt P xs \<Longrightarrow> (\<And>a b. a \<in> set xs \<Longrightarrow> b \<in> set xs \<Longrightarrow> P a b \<Longrightarrow> Q a b) \<Longrightarrow> sorted_wrt Q xs"
  by (induction xs) auto

lemma slice_sorts:
  assumes law: "slice_law srt" and key: "\<And>a b. a \<in> set xs \<Longrightarrow> b \<in> set xs \<Longrightarrow> lt a b \<longleftrightarrow> key a < (key b :: 'k::linorder)"
  shows "mset (srt lt xs) = mset xs \<and> sorted_wrt (\<lambda>a b. key a \<le> key b) (srt lt xs)"
proof -
  have m: "mset (srt lt xs) = mset xs" and s: "sorted_wrt (\<lambda>a b. \<not> lt b a) (srt lt xs)"
    using law strict_weak_key [of "set xs" lt key, OF key] by (simp_all add: slice_law_def)
  have "set (srt lt xs) = set xs" using m by (metis set_mset_mset)
  then have "sorted_wrt (\<lambda>a b. key a \<le> key b) (srt lt xs)"
    using key by (intro sorted_wrt_set_mono [OF s]) (simp add: not_less)
  then show ?thesis using m by simp
qed

definition prop_of :: "string \<Rightarrow> comp_tree \<Rightarrow> property" where
  "prop_of field t = the (find_property (cm_properties (ct_comp t)) field)"

definition has_prop :: "string \<Rightarrow> comp_tree \<Rightarrow> bool" where
  "has_prop field t \<longleftrightarrow> find_property (cm_properties (ct_comp t)) field \<noteq> None"

lemma is_text_property_eq:
  "\<forall>t \<in> set ts. has_prop field t \<Longrightarrow> is_text_property field ts v = Some (v \<and> (\<forall>t \<in> set ts. p_text (prop_of field t) \<noteq> []))"
  by (induction ts arbitrary: v) (auto simp: has_prop_def prop_of_def)

lemma property_less_eq:
  assumes "has_prop field a" "has_prop field b"
  shows "property_less field is_text True a b = (if is_text then
      (if p_text (prop_of field a) = [] then False else if p_text (prop_of field b) = [] then True
       else p_text (prop_of field a) < p_text (prop_of field b))
    else (case (p_value (prop_of field a), p_value (prop_of field b)) of
        (None, _) \<Rightarrow> False | (Some v, None) \<Rightarrow> True | (Some v, Some w) \<Rightarrow> v < w))"
    and "property_less field is_text False b a = (if is_text then
      (if p_text (prop_of field a) = [] then True else if p_text (prop_of field b) = [] then False
       else p_text (prop_of field a) < p_text (prop_of field b))
    else (case (p_value (prop_of field a), p_value (prop_of field b)) of
        (None, _) \<Rightarrow> True | (Some v, None) \<Rightarrow> False | (Some v, Some w) \<Rightarrow> v < w))"
  using assms by (auto simp: property_less_def has_prop_def prop_of_def split: option.splits)

text \<open>The order the sorted components are in: by text when all have one, otherwise by value with the
  components that have none at the end.\<close>

definition in_order :: "string \<Rightarrow> bool \<Rightarrow> bool \<Rightarrow> comp_tree \<Rightarrow> comp_tree \<Rightarrow> bool" where
  "in_order field is_text asc a b =
     (if is_text then
        (if asc then p_text (prop_of field a) \<le> p_text (prop_of field b) else p_text (prop_of field b) \<le> p_text (prop_of field a))
      else (case (p_value (prop_of field a), p_value (prop_of field b)) of
        (Some v, Some w) \<Rightarrow> if asc then v \<le> w else w \<le> v
      | (None, Some w) \<Rightarrow> False
      | (_, None) \<Rightarrow> True))"

lemma sort_slice_in_order:
  assumes law: "slice_law srt" and props: "\<forall>t \<in> set ts. has_prop field t"
    and texts: "is_text \<longrightarrow> (\<forall>t \<in> set ts. p_text (prop_of field t) \<noteq> [])"
    and vals: "asc \<or> is_text \<or> (\<forall>t \<in> set ts. p_value (prop_of field t) \<noteq> None)"
  shows "mset (srt (property_less field is_text asc) ts) = mset ts
    \<and> sorted_wrt (in_order field is_text asc) (srt (property_less field is_text asc) ts)"
proof -
  let ?lt = "property_less field is_text asc"
  have weak: "strict_weak_on (set ts) ?lt"
  proof (cases asc)
    case True
    show ?thesis
      using props texts True unfolding strict_weak_on_def
      by (auto simp: property_less_eq split: option.splits)
  next
    case False
    have lt: "?lt a b = (if is_text then p_text (prop_of field b) < p_text (prop_of field a)
        else the (p_value (prop_of field b)) < the (p_value (prop_of field a)))" if "a \<in> set ts" "b \<in> set ts" for a b
      using that props texts vals False by (auto simp: property_less_eq split: option.splits)
    show ?thesis unfolding strict_weak_on_def by (auto simp: lt)
  qed
  have m: "mset (srt ?lt ts) = mset ts" and s: "sorted_wrt (\<lambda>a b. \<not> ?lt b a) (srt ?lt ts)"
    using law weak by (simp_all add: slice_law_def)
  have set: "set (srt ?lt ts) = set ts" using m by (metis set_mset_mset)
  have "sorted_wrt (in_order field is_text asc) (srt ?lt ts)"
  proof (rule sorted_wrt_set_mono [OF s])
    fix a b assume ab: "a \<in> set (srt ?lt ts)" "b \<in> set (srt ?lt ts)" "\<not> ?lt b a"
    then have p: "has_prop field a" "has_prop field b" using props set by auto
    show "in_order field is_text asc a b"
      using ab texts vals set p
      by (cases asc; cases is_text) (auto simp: in_order_def property_less_eq not_less split: option.splits)
  qed
  then show ?thesis using m by simp
qed

text \<open>sorting by name and by a property every component has. By name, and by a property that is a text on
  every component, the result is ordered by it; otherwise it is ordered by value. The components
  without a value come last, in ascending order only: descending, the comparison says of two such
  components that each is less than the other (and of one that it is less than itself), which no
  sort accepts, so there every component must have a value.\<close>

theorem sort_components_correct:
  assumes law: "slice_law srt" and props: "\<forall>t \<in> set ts. has_prop field t"
    and vals: "asc \<or> (\<forall>t \<in> set ts. p_text (prop_of field t) \<noteq> []) \<or> (\<forall>t \<in> set ts. p_value (prop_of field t) \<noteq> None)"
  shows "(\<exists>ts'. sort_components_by_field srt ts (sort_by_field @ field) asc = Some ts' \<and> mset ts' = mset ts
      \<and> sorted_wrt (in_order field (\<forall>t \<in> set ts. p_text (prop_of field t) \<noteq> []) asc) ts')
    \<and> (\<exists>ts'. sort_components_by_field srt ts sort_by_name asc = Some ts' \<and> mset ts' = mset ts
      \<and> sorted_wrt (\<lambda>a b. if asc then cm_name (ct_comp a) \<le> cm_name (ct_comp b)
           else cm_name (ct_comp b) \<le> cm_name (ct_comp a)) ts')"
proof
  define is_text where "is_text \<longleftrightarrow> (\<forall>t \<in> set ts. p_text (prop_of field t) \<noteq> [])"
  have "sort_components_by_field srt ts (sort_by_field @ field) asc = Some (srt (property_less field is_text asc) ts)"
    using is_text_property_eq [OF props, of True]
    by (simp add: sort_components_by_field_def is_text_def sort_by_name_def sort_by_field_def trim_prefix_def)
  moreover have "mset (srt (property_less field is_text asc) ts) = mset ts
      \<and> sorted_wrt (in_order field is_text asc) (srt (property_less field is_text asc) ts)"
    using vals by (intro sort_slice_in_order [OF law props]) (auto simp: is_text_def)
  ultimately show "\<exists>ts'. sort_components_by_field srt ts (sort_by_field @ field) asc = Some ts' \<and> mset ts' = mset ts
      \<and> sorted_wrt (in_order field (\<forall>t \<in> set ts. p_text (prop_of field t) \<noteq> []) asc) ts'"
    unfolding is_text_def by blast
next
  have "strict_weak_on (set ts) (name_less asc)"
    unfolding strict_weak_on_def name_less_def by (auto intro: less_trans)
  then have "mset (srt (name_less asc) ts) = mset ts \<and> sorted_wrt (\<lambda>a b. \<not> name_less asc b a) (srt (name_less asc) ts)"
    using law by (simp add: slice_law_def)
  moreover have "(\<lambda>a b. \<not> name_less asc b a) = (\<lambda>a b. if asc then cm_name (ct_comp a) \<le> cm_name (ct_comp b)
      else cm_name (ct_comp b) \<le> cm_name (ct_comp a))"
    by (auto simp: name_less_def fun_eq_iff not_less)
  ultimately show "\<exists>ts'. sort_components_by_field srt ts sort_by_name asc = Some ts' \<and> mset ts' = mset ts
      \<and> sorted_wrt (\<lambda>a b. if asc then cm_name (ct_comp a) \<le> cm_name (ct_comp b)
           else cm_name (ct_comp b) \<le> cm_name (ct_comp a)) ts'"
    by (simp add: sort_components_by_field_def)
qed

text \<open>The law of the sort can hold: insertion sort meets it.\<close>

fun insert_by :: "('a \<Rightarrow> 'a \<Rightarrow> bool) \<Rightarrow> 'a \<Rightarrow> 'a list \<Rightarrow> 'a list" where
  "insert_by lt x [] = [x]"
| "insert_by lt x (y # ys) = (if lt y x then y # insert_by lt x ys else x # y # ys)"

lemma insert_by_mset [simp]: "mset (insert_by lt x ys) = add_mset x (mset ys)"
  by (induction ys) auto

lemma insert_by_set [simp]: "set (insert_by lt x ys) = insert x (set ys)"
  by (metis insert_by_mset set_mset_add_mset_insert set_mset_mset)

lemma strict_weak_subset: "strict_weak_on A lt \<Longrightarrow> B \<subseteq> A \<Longrightarrow> strict_weak_on B lt"
  unfolding strict_weak_on_def by (intro conjI ballI impI) blast+

lemma strict_weak_asym: "strict_weak_on A lt \<Longrightarrow> a \<in> A \<Longrightarrow> b \<in> A \<Longrightarrow> lt a b \<Longrightarrow> \<not> lt b a"
  unfolding strict_weak_on_def by blast

lemma strict_weak_not: "strict_weak_on A lt \<Longrightarrow> a \<in> A \<Longrightarrow> b \<in> A \<Longrightarrow> c \<in> A \<Longrightarrow> \<not> lt a b \<Longrightarrow> \<not> lt b c
    \<Longrightarrow> \<not> lt a c"
  unfolding strict_weak_on_def by blast

lemma insert_by_sorted:
  assumes "strict_weak_on (insert x (set ys)) lt" "sorted_wrt (\<lambda>a b. \<not> lt b a) ys"
  shows "sorted_wrt (\<lambda>a b. \<not> lt b a) (insert_by lt x ys)"
  using assms
proof (induction ys)
  case (Cons y ys)
  have weak: "strict_weak_on (insert x (set ys)) lt"
    by (rule strict_weak_subset [OF Cons.prems(1)]) auto
  show ?case
  proof (cases "lt y x")
    case True
    have "\<not> lt x y" by (rule strict_weak_asym [OF Cons.prems(1) _ _ True]) simp_all
    then show ?thesis using True Cons.IH [OF weak] Cons.prems(2) by auto
  next
    case False
    have "\<not> lt z x" if "z \<in> set ys" for z
      by (rule strict_weak_not [OF Cons.prems(1) _ _ _ _ False]) (use that Cons.prems(2) in auto)
    then show ?thesis using False Cons.prems(2) by auto
  qed
qed simp

lemma foldr_insert_law: "slice_law (\<lambda>lt xs. foldr (insert_by lt) xs [])"
proof -
  have "mset (foldr (insert_by lt) xs []) = mset xs \<and> sorted_wrt (\<lambda>a b. \<not> lt b a) (foldr (insert_by lt) xs [])"
    if "strict_weak_on (set xs) lt" for lt :: "'a \<Rightarrow> 'a \<Rightarrow> bool" and xs
    using that
  proof (induction xs)
    case (Cons x xs)
    have "strict_weak_on (set xs) lt" by (rule strict_weak_subset [OF Cons.prems]) auto
    from Cons.IH [OF this] have ih: "mset (foldr (insert_by lt) xs []) = mset xs"
      "sorted_wrt (\<lambda>a b. \<not> lt b a) (foldr (insert_by lt) xs [])" by simp_all
    have "set (foldr (insert_by lt) xs []) = set xs" using ih(1) by (metis set_mset_mset)
    then show ?case using ih insert_by_sorted Cons.prems by fastforce
  qed simp
  then show ?thesis by (simp add: slice_law_def)
qed

definition valued :: "string \<Rightarrow> int option \<Rightarrow> comp_tree" where
  "valued n v = CompTree (sample_component\<lparr>cm_name := n,
     cm_properties := [empty_property\<lparr>p_name := ''cpu'', p_value := v\<rparr>]\<rparr>) []"

lemma sort_components_correct_witness:
  "\<exists>ts'. sort_components_by_field (\<lambda>lt xs. foldr (insert_by lt) xs []) [valued ''a'' (Some 2), valued ''b'' None, valued ''c'' (Some 1)]
      ''field:cpu'' True = Some ts'
    \<and> sorted_wrt (in_order ''cpu'' False True) ts'"
proof -
  let ?ts = "[valued ''a'' (Some 2), valued ''b'' None, valued ''c'' (Some 1)]"
  have props: "\<forall>t \<in> set ?ts. has_prop ''cpu'' t" by (simp add: valued_def has_prop_def empty_property_def)
  have no_text: "(\<forall>t \<in> set ?ts. p_text (prop_of ''cpu'' t) \<noteq> []) = False"
    by (simp add: valued_def prop_of_def empty_property_def)
  show ?thesis
    using sort_components_correct [OF foldr_insert_law props, of True, unfolded no_text]
    by (auto simp: sort_by_field_def)
qed

text \<open>What the comparison says of components without a value when the order is descending, and the
  first component without the property that the reduction meets.\<close>

lemma descending_not_an_order:
  assumes "has_prop field t" "p_value (prop_of field t) = None"
  shows "property_less field False False t t \<and> \<not> strict_weak_on {t} (property_less field False False)"
  using assms by (simp add: strict_weak_on_def property_less_eq)

lemma sort_panics:
  assumes "\<not> has_prop field t"
  shows "sort_components_by_field srt (t # ts) (sort_by_field @ field) asc = None"
  using assms by (simp add: sort_components_by_field_def sort_by_name_def sort_by_field_def trim_prefix_def has_prop_def)

subsection \<open>The cache\<close>



end
