(* ===== verification/Permissions.thy ===== *)
theory Permissions
  imports Resource_Matching
begin

section \<open>Permissions\<close>

text \<open>
  \<^verbatim>\<open>rbac/policy/policy.go\<close>, \<^verbatim>\<open>models/permission.go\<close>, \<^verbatim>\<open>rbac/custom_functions.go\<close>, the matcher of
  \<^verbatim>\<open>rbac/model.ini\<close>, the checks of \<^verbatim>\<open>rbac/enforcer.go\<close> and the access reviews of
  \<^verbatim>\<open>rbac/access_review.go\<close>. The enforcer itself (casbin), its role inheritance and its evaluation of
  conditions are parameters; so are the database, JSON and \<open>uuid.Parse\<close>.
\<close>

subsection \<open>Policies\<close>

record acl =
  ac_objects :: string
  ac_actions :: string
  ac_principal :: string

definition action_all :: string where "action_all = ''*''"
definition action_crud :: string where "action_crud = ''create,read,update,delete''"
definition action_create :: string where "action_create = ''create''"
definition action_delete :: string where "action_delete = ''delete''"
definition action_read :: string where "action_read = ''read''"
definition action_update :: string where "action_update = ''update''"
definition action_mcp_use :: string where "action_mcp_use = ''mcp:use''"
definition action_mcp_run :: string where "action_mcp_run = ''mcp:run''"
definition action_playbook_run :: string where "action_playbook_run = ''playbook:run''"
definition action_playbook_approve :: string where "action_playbook_approve = ''playbook:approve''"
definition action_playbook_cancel :: string where "action_playbook_cancel = ''playbook:cancel''"
definition invoke_prefix :: string where "invoke_prefix = ''invoke:''"
definition plugin_role_prefix :: string where "plugin_role_prefix = ''plugin-role:''"

lemmas action_defs = action_all_def action_crud_def action_create_def action_delete_def action_read_def
  action_update_def action_mcp_use_def action_mcp_run_def action_playbook_run_def action_playbook_approve_def
  action_playbook_cancel_def

definition all_actions :: "string list" where
  "all_actions = [action_create, action_read, action_update, action_delete, action_playbook_approve,
     action_playbook_cancel, action_playbook_run, action_mcp_run, action_mcp_use]"

definition new_acl :: "string \<Rightarrow> string list \<Rightarrow> acl" where
  "new_acl actions objects = \<lparr>ac_objects = join '','' objects, ac_actions = actions, ac_principal = []\<rparr>"

definition acl_read where "acl_read = new_acl action_read"
definition acl_update where "acl_update = new_acl action_update"
definition acl_approve where "acl_approve = new_acl action_playbook_approve"
definition acl_create where "acl_create = new_acl action_create"
definition acl_delete where "acl_delete = new_acl action_delete"
definition acl_crud where "acl_crud = new_acl action_crud"
definition acl_run where "acl_run = new_acl action_playbook_run"
definition acl_all where "acl_all = new_acl action_all"

definition plugin_role_action :: "string \<Rightarrow> string \<Rightarrow> string" where
  "plugin_role_action plugin role = plugin_role_prefix @ plugin @ '':'' @ role"

definition plugin_invoke_action :: "string \<Rightarrow> string \<Rightarrow> string" where
  "plugin_invoke_action plugin operation = invoke_prefix @ plugin @ '':'' @ operation"

text \<open>A rule is a row of six columns: subject, object, action, effect, condition, id.\<close>

type_synonym rule = "string list"

definition acl_rule :: "acl \<Rightarrow> string \<Rightarrow> string \<Rightarrow> rule" where
  "acl_rule acl object action =
     (if has_prefix ''!'' action then [ac_principal acl, object, drop 1 action, ''deny'', [], ''na'']
      else [ac_principal acl, object, action, ''allow'', [], ''na''])"

definition acl_definition :: "acl \<Rightarrow> rule list" where
  "acl_definition acl =
     concat (map (\<lambda>object. map (acl_rule acl object) (split_char (CHR '','') (ac_actions acl)))
       (split_char (CHR '','') (ac_objects acl)))"

record policy =
  pl_principal :: string
  pl_acls :: "acl list"
  pl_inherit :: "string list"

definition policy_definitions :: "policy \<Rightarrow> rule list" where
  "policy_definitions p =
     concat (map (\<lambda>acl. acl_definition (if ac_principal acl = [] then acl\<lparr>ac_principal := pl_principal p\<rparr> else acl))
       (pl_acls p))"

definition policy_string :: "policy \<Rightarrow> string" where
  "policy_string p =
     foldl (\<lambda>s r. (if s \<noteq> [] then s @ [CHR 0x0A] else s) @ join '', '' r) [] (policy_definitions p)"

subsection \<open>Permissions of a user\<close>

record permission =
  pm_id :: string
  pm_subject :: string
  pm_object :: string
  pm_action :: string
  pm_deny :: bool
  pm_condition :: string

definition zero_permission :: permission where
  "zero_permission = \<lparr>pm_id = [], pm_subject = [], pm_object = [], pm_action = [], pm_deny = False, pm_condition = []\<rparr>"

definition to_args :: "permission \<Rightarrow> string list" where
  "to_args p = [pm_subject p, pm_object p, pm_action p, if pm_deny p then ''deny'' else [], pm_condition p, pm_id p]"

definition to_args_without_subject :: "permission \<Rightarrow> string list" where
  "to_args_without_subject p =
     [pm_object p, pm_action p, if pm_deny p then ''deny'' else [],
      if pm_condition p \<noteq> [] then pm_condition p else [], if pm_id p \<noteq> [] then pm_id p else ''na'']"

definition bool_text :: "bool \<Rightarrow> string" where
  "bool_text b = (if b then ''true'' else ''false'')"

definition hash_without_subject :: "permission \<Rightarrow> string" where
  "hash_without_subject p =
     ''obj='' @ pm_object p @ '',act='' @ pm_action p @ '',d='' @ bool_text (pm_deny p) @ '',con='' @ pm_condition p
     @ '',id='' @ pm_id p"

definition permission_hash :: "permission \<Rightarrow> string" where
  "permission_hash p = ''sub='' @ pm_subject p @ '','' @ hash_without_subject p"

definition new_permission :: "string list \<Rightarrow> permission" where
  "new_permission perm =
     (let size = length perm;
          p1 = (if size > 0 then zero_permission\<lparr>pm_subject := perm ! 0\<rparr> else zero_permission);
          p2 = (if size > 1 then p1\<lparr>pm_object := perm ! 1\<rparr> else p1);
          p3 = (if size > 2 then p2\<lparr>pm_action := perm ! 2\<rparr> else p2);
          p4 = (if size > 3 then p3\<lparr>pm_deny := (perm ! 3 = ''deny'')\<rparr> else p3);
          p5 = (if size > 4 then p4\<lparr>pm_condition := perm ! 4\<rparr> else p4)
      in if size > 5 then p5\<lparr>pm_id := perm ! 5\<rparr> else p5)"

definition new_permissions :: "string list list \<Rightarrow> permission list" where
  "new_permissions perms = map new_permission perms"

definition permission_string :: "permission \<Rightarrow> string" where
  "permission_string p = pm_subject p @ '' on '' @ pm_object p @ '' ('' @ pm_action p @ '')''"

subsection \<open>Stored permissions\<close>

record stored_permission =
  sp_deny :: bool
  sp_action :: string
  sp_subject :: string
  sp_person_id :: "string option"
  sp_notification_id :: "string option"
  sp_team_id :: "string option"
  sp_canary_id :: "string option"
  sp_component_id :: "string option"
  sp_config_id :: "string option"
  sp_connection_id :: "string option"
  sp_playbook_id :: "string option"
  sp_object :: string
  sp_object_selector :: string

definition principal :: "stored_permission \<Rightarrow> string" where
  "principal t =
     (if sp_subject t \<noteq> [] then sp_subject t
      else case sp_person_id t of Some i \<Rightarrow> i
      | None \<Rightarrow> (case sp_team_id t of Some i \<Rightarrow> i
      | None \<Rightarrow> (case sp_notification_id t of Some i \<Rightarrow> i | None \<Rightarrow> [])))"

definition id_rule :: "string \<Rightarrow> string option \<Rightarrow> string list" where
  "id_rule kind i =
     (case i of None \<Rightarrow> [] | Some v \<Rightarrow> [''str(r.obj.'' @ kind @ ''.ID) == '' @ go_quote v])"

definition condition_of :: "stored_permission \<Rightarrow> string" where
  "condition_of t =
     join '' && ''
       ((if sp_object_selector t \<noteq> [] then [''matchResourceSelector(r.obj, '' @ go_quote (sp_object_selector t) @ '')''] else [])
        @ id_rule ''Component'' (sp_component_id t) @ id_rule ''Config'' (sp_config_id t)
        @ id_rule ''Canary'' (sp_canary_id t) @ id_rule ''Playbook'' (sp_playbook_id t)
        @ id_rule ''Connection'' (sp_connection_id t))"

definition stored_object :: "stored_permission \<Rightarrow> string" where
  "stored_object t = (if sp_object t \<noteq> [] then sp_object t else ''*'')"

definition effect_of :: "stored_permission \<Rightarrow> string" where
  "effect_of t = (if sp_deny t then ''deny'' else ''allow'')"

subsection \<open>Matching actions\<close>

definition match_action :: "string \<Rightarrow> string \<Rightarrow> bool" where
  "match_action request_action policy_action =
     (if policy_action = ''*'' \<or> policy_action = request_action then True
      else if \<not> has_prefix invoke_prefix policy_action then False
      else case cut_char (CHR '':'') (trim_prefix invoke_prefix policy_action) of
        None \<Rightarrow> False
      | Some (plugin, action) \<Rightarrow>
          if plugin = [] \<or> action \<noteq> ''*'' then False
          else has_prefix (trim_suffix ''*'' policy_action) request_action)"

subsection \<open>Matching resources\<close>

record abac_item =
  ai_id :: string
  ai_resource :: resource

record abac_attribute =
  ab_playbook :: abac_item
  ab_connection :: abac_item
  ab_component :: abac_item
  ab_config :: abac_item
  ab_check :: abac_item
  ab_canary :: abac_item
  ab_view :: abac_item

record view_ref =
  vr_id :: string
  vr_namespace :: string
  vr_name :: string

record selectors =
  sl_playbooks :: "resource_selector list"
  sl_connections :: "resource_selector list"
  sl_configs :: "resource_selector list"
  sl_components :: "resource_selector list"
  sl_views :: "view_ref list"

definition has_resource_id :: "string \<Rightarrow> bool" where
  "has_resource_id i \<longleftrightarrow> i \<noteq> ''00000000-0000-0000-0000-000000000000''"

record resource_pair =
  rp_present :: bool
  rp_resource :: resource
  rp_selectors :: "resource_selector list"

text \<open>\<open>Matches\<close> can panic on a resource (\<^term>\<open>None\<close>); its error is ignored.\<close>

fun any_matches :: "(resource_selector \<Rightarrow> resource \<Rightarrow> (bool \<times> string option) option) \<Rightarrow> resource_selector list
    \<Rightarrow> resource \<Rightarrow> bool option" where
  "any_matches matches [] s = Some False"
| "any_matches matches (rs # rss) s =
     (case matches rs s of
        None \<Rightarrow> None
      | Some (ok, err) \<Rightarrow> if ok then Some True else any_matches matches rss s)"

definition match_pair :: "(resource_selector \<Rightarrow> resource \<Rightarrow> (bool \<times> string option) option) \<Rightarrow> resource_pair \<Rightarrow> bool option" where
  "match_pair matches pair =
     (if rp_present pair then
        (if rp_selectors pair = [] then Some True
         else any_matches matches (rp_selectors pair) (rp_resource pair))
      else if length (rp_selectors pair) > 0 then Some False
      else Some True)"

definition view_selector :: "view_ref \<Rightarrow> resource_selector" where
  "view_selector v = empty_selector\<lparr>rs_id := vr_id v, rs_namespace := vr_namespace v, rs_name := vr_name v\<rparr>"

definition pair_of :: "abac_item \<Rightarrow> resource_selector list \<Rightarrow> resource_pair" where
  "pair_of i rss = \<lparr>rp_present = has_resource_id (ai_id i), rp_resource = ai_resource i, rp_selectors = rss\<rparr>"

fun match_pairs :: "(resource_selector \<Rightarrow> resource \<Rightarrow> (bool \<times> string option) option) \<Rightarrow> resource_pair list \<Rightarrow> bool option" where
  "match_pairs matches [] = Some True"
| "match_pairs matches (p # ps) =
     (case match_pair matches p of
        None \<Rightarrow> None
      | Some ok \<Rightarrow> if \<not> ok then Some False else match_pairs matches ps)"

definition resource_pairs :: "abac_attribute \<Rightarrow> selectors \<Rightarrow> resource_pair list" where
  "resource_pairs attr sel =
     [pair_of (ab_playbook attr) (sl_playbooks sel), pair_of (ab_component attr) (sl_components sel),
      pair_of (ab_connection attr) (sl_connections sel), pair_of (ab_config attr) (sl_configs sel),
      pair_of (ab_view attr) (map view_selector (sl_views sel))]"

definition match_resource_selector :: "(resource_selector \<Rightarrow> resource \<Rightarrow> (bool \<times> string option) option) \<Rightarrow> abac_attribute
    \<Rightarrow> selectors \<Rightarrow> bool option" where
  "match_resource_selector matches attr sel = match_pairs matches (resource_pairs attr sel)"

subsection \<open>Functions of the matcher\<close>

text \<open>Arguments are dynamically typed; \<open>ArgAttr\<close> and \<open>ArgOther\<close> carry the text \<open>%v\<close> gives, and the latter the
  name of its type.\<close>

datatype fn_arg = ArgStr string | ArgUuid string | ArgAttr "abac_attribute option" string | ArgOther string string

definition nat_str :: "nat \<Rightarrow> string" where
  "nat_str n = nat_text n"

definition match_action_fn :: "fn_arg list \<Rightarrow> string + bool" where
  "match_action_fn args =
     (if length args \<noteq> 2 then Inl (''matchAction needs 2 arguments. got '' @ nat_str (length args))
      else case args ! 0 of
        ArgStr request_action \<Rightarrow>
          (case args ! 1 of
             ArgStr policy_action \<Rightarrow> Inr (match_action request_action policy_action)
           | _ \<Rightarrow> Inl ''matchAction policy action must be a string'')
      | _ \<Rightarrow> Inl ''matchAction request action must be a string'')"

definition is_string_fn :: "fn_arg list \<Rightarrow> string + bool" where
  "is_string_fn args =
     (if length args \<noteq> 1 then Inl (''isString needs 1 argument. got '' @ nat_str (length args))
      else case args ! 0 of ArgStr s \<Rightarrow> Inr True | _ \<Rightarrow> Inr False)"

definition arg_type :: "fn_arg \<Rightarrow> string" where
  "arg_type a = (case a of ArgStr s \<Rightarrow> ''string'' | ArgUuid u \<Rightarrow> ''uuid.UUID'' | ArgAttr x v \<Rightarrow> ''*models.ABACAttribute''
     | ArgOther t v \<Rightarrow> t)"

definition match_resource_selector_fn :: "(resource_selector \<Rightarrow> resource \<Rightarrow> (bool \<times> string option) option)
    \<Rightarrow> (string \<Rightarrow> string + selectors) \<Rightarrow> fn_arg list \<Rightarrow> (string + bool) option" where
  "match_resource_selector_fn matches decode args =
     (if length args \<noteq> 2 then Some (Inl (''matchResourceSelector needs 2 arguments. got '' @ nat_str (length args)))
      else case args ! 0 of
        ArgStr s \<Rightarrow> Some (Inr False)
      | ArgAttr attr text \<Rightarrow>
          (case args ! 1 of
             ArgStr selector \<Rightarrow>
               (case attr of
                  None \<Rightarrow> Some (Inl ''attribute cannot be nil'')
                | Some a \<Rightarrow>
                    (case decode selector of
                       Inl e \<Rightarrow> Some (Inl e)
                     | Inr sel \<Rightarrow> map_option Inr (match_resource_selector matches a sel)))
           | _ \<Rightarrow> Some (Inl ''[matchResourceSelector] selector must be a string''))
      | a \<Rightarrow> Some (Inl (''[matchResourceSelector] unknown input type: '' @ arg_type a
               @ ''. expected *models.ABACAttribute'')))"

definition str_fn :: "fn_arg list \<Rightarrow> string + string" where
  "str_fn args =
     (if length args \<noteq> 1 then Inl (''str needs 1 argument. got '' @ nat_str (length args))
      else case args ! 0 of
        ArgUuid u \<Rightarrow> Inr u
      | ArgStr s \<Rightarrow> Inr s
      | ArgAttr a v \<Rightarrow> Inr v
      | ArgOther t v \<Rightarrow> Inr v)"

subsection \<open>The matcher\<close>

text \<open>
  \<^verbatim>\<open>model.ini\<close>: which rules apply to a request, and the effect of those that do. An object is a string
  for a role check and an attribute otherwise; comparing an attribute with a string is false.
  \<open>inherits\<close> is the role relation \<open>g\<close>, \<open>eval\<close> the evaluation of a condition on an attribute.
\<close>

datatype request_object = NamedObject string | Attribute abac_attribute

definition is_string :: "request_object \<Rightarrow> bool" where
  "is_string ob = (case ob of NamedObject s \<Rightarrow> True | Attribute a \<Rightarrow> False)"

definition matcher :: "(string \<Rightarrow> string \<Rightarrow> bool) \<Rightarrow> (string \<Rightarrow> abac_attribute \<Rightarrow> bool) \<Rightarrow> string \<Rightarrow> request_object \<Rightarrow> string
    \<Rightarrow> rule \<Rightarrow> bool" where
  "matcher inherits eval sub ob act p \<longleftrightarrow>
     inherits sub (p ! 0)
     \<and> (p ! 1 = ''*'' \<or> ob = NamedObject (p ! 1))
     \<and> match_action act (p ! 2)
     \<and> (p ! 4 = [] \<or> (\<not> is_string ob \<and> (case ob of NamedObject s \<Rightarrow> False | Attribute a \<Rightarrow> eval (p ! 4) a)))"

definition policy_effect :: "string list \<Rightarrow> bool" where
  "policy_effect effs \<longleftrightarrow> (\<exists>e \<in> set effs. e = ''allow'') \<and> \<not> (\<exists>e \<in> set effs. e = ''deny'')"

definition enforce_rules :: "(string \<Rightarrow> string \<Rightarrow> bool) \<Rightarrow> (string \<Rightarrow> abac_attribute \<Rightarrow> bool) \<Rightarrow> rule list \<Rightarrow> string
    \<Rightarrow> request_object \<Rightarrow> string \<Rightarrow> bool" where
  "enforce_rules inherits eval rules sub ob act =
     policy_effect (map (\<lambda>p. p ! 3) (filter (matcher inherits eval sub ob act) rules))"

subsection \<open>Checks\<close>

text \<open>The enforcer as an interface: its state, whether a subject has a role, adding a role, enforcing.
  \<open>explain\<close> is the property that switches to \<open>EnforceEx\<close>.\<close>

record 's enforcer =
  en_has_role :: "'s \<Rightarrow> string \<Rightarrow> string \<Rightarrow> string + bool"
  en_add_role :: "'s \<Rightarrow> string \<Rightarrow> string \<Rightarrow> (string + unit) \<times> 's"
  en_enforce :: "'s \<Rightarrow> string \<Rightarrow> request_object \<Rightarrow> string \<Rightarrow> string + bool"
  en_enforce_ex :: "'s \<Rightarrow> string \<Rightarrow> request_object \<Rightarrow> string \<Rightarrow> bool \<times> string option"

definition role_everyone :: string where "role_everyone = ''everyone''"
definition role_viewer :: string where "role_viewer = ''viewer''"

definition enforced :: "'s enforcer \<Rightarrow> bool \<Rightarrow> 's \<Rightarrow> string \<Rightarrow> request_object \<Rightarrow> string \<Rightarrow> bool" where
  "enforced e explain s sub ob act =
     (if explain then fst (en_enforce_ex e s sub ob act)
      else case en_enforce e s sub ob act of Inl err \<Rightarrow> False | Inr allowed \<Rightarrow> allowed)"

definition check :: "'s enforcer \<Rightarrow> bool \<Rightarrow> string \<Rightarrow> string \<Rightarrow> string \<Rightarrow> 's \<Rightarrow> bool \<times> 's" where
  "check e explain subject object action s =
     (case en_has_role e s subject role_everyone of
        Inl err \<Rightarrow> (False, s)
      | Inr has_everyone \<Rightarrow>
          (let s1 = (if \<not> has_everyone then snd (en_add_role e s subject role_everyone) else s)
           in (enforced e explain s1 subject (NamedObject object) action, s1)))"

definition check_context :: "'s enforcer \<Rightarrow> bool \<Rightarrow> string option \<Rightarrow> string \<Rightarrow> string \<Rightarrow> 's \<Rightarrow> bool \<times> 's" where
  "check_context e explain user object action s =
     (case user of
        None \<Rightarrow> (False, s)
      | Some uid \<Rightarrow>
          (case (if action = action_read then check e explain role_viewer object action s else (False, s)) of
             (viewer, s1) \<Rightarrow> if viewer then (True, s1) else check e explain uid object action s1))"

definition has_permission :: "'s enforcer option \<Rightarrow> bool \<Rightarrow> string \<Rightarrow> abac_attribute \<Rightarrow> string \<Rightarrow> 's \<Rightarrow> bool" where
  "has_permission e explain subject attr action s =
     (case e of None \<Rightarrow> True | Some en \<Rightarrow> enforced en explain s subject (Attribute attr) action)"

subsection \<open>Access reviews\<close>

datatype api_error = ApiError string string | OtherError string

definition einvalid :: string where "einvalid = ''invalid''"
definition enotfound :: string where "enotfound = ''not_found''"

record review_resource =
  rr_playbook :: string
  rr_config :: string
  rr_check :: string
  rr_view :: string
  rr_connection :: string
  rr_global :: string

record review_request =
  rq_resource :: review_resource
  rq_action :: string
  rq_subjects :: "string list"

record review_result =
  rs_subject :: string
  rs_allowed :: bool
  rs_error :: string

definition unsupported_action :: "string \<Rightarrow> api_error" where
  "unsupported_action a = ApiError einvalid (''unsupported action '' @ go_quote a @ '', only ''
     @ join '', '' all_actions @ '' are supported'')"

definition resource_fields :: "review_resource \<Rightarrow> nat" where
  "resource_fields r = length (filter (\<lambda>f. f \<noteq> [])
     [rr_global r, rr_playbook r, rr_config r, rr_check r, rr_view r, rr_connection r])"

definition validate_review :: "review_request \<Rightarrow> api_error option" where
  "validate_review req =
     (if rq_action req = [] then Some (ApiError einvalid ''action is required'')
      else if resource_fields (rq_resource req) = 0 then Some (ApiError einvalid ''at least one of resource.global, resource.playbook, resource.config, resource.check, resource.view or resource.connection is required'')
      else if rq_action req \<notin> set all_actions then Some (unsupported_action (rq_action req))
      else if rq_subjects req = [] then Some (ApiError einvalid ''at least one subject is required'')
      else None)"

record search_request =
  sq_subject :: string
  sq_action :: string
  sq_types :: "string list"

fun normalize_types :: "string list \<Rightarrow> string list \<Rightarrow> api_error + string list" where
  "normalize_types normalized [] = Inr normalized"
| "normalize_types normalized (t # ts) =
     (let rt = to_lower (trim_space t) in
      if rt \<in> {''playbook'', ''view'', ''connection''} then
        normalize_types (if rt \<in> set normalized then normalized else normalized @ [rt]) ts
      else Inl (ApiError einvalid (''unsupported resource_type '' @ go_quote rt
             @ '', only playbook, view and connection are supported'')))"

definition validate_search :: "search_request \<Rightarrow> api_error + search_request" where
  "validate_search req0 =
     (let req = req0\<lparr>sq_subject := trim_space (sq_subject req0)\<rparr> in
      if sq_subject req = [] then Inl (ApiError einvalid ''subject is required'')
      else if sq_action req = [] then Inl (ApiError einvalid ''action is required'')
      else if sq_action req \<notin> set all_actions then Inl (unsupported_action (sq_action req))
      else and_then (normalize_types [] (if sq_types req = [] then [''playbook'', ''view''] else sq_types req))
             (\<lambda>ts. Inr (req\<lparr>sq_types := ts\<rparr>)))"

text \<open>The database: the resource of a kind with an id that is not deleted, all permission subjects, all
  ids of a kind in the order of their names.\<close>

datatype 'r lookup = Found 'r | NotFound | LookupFailed string

record review_db =
  rd_find :: "string \<Rightarrow> string \<Rightarrow> abac_item lookup"
  rd_subjects :: "string + string list"
  rd_ids :: "string \<Rightarrow> string + string list"

definition resolve_one :: "(string \<Rightarrow> string option) \<Rightarrow> review_db \<Rightarrow> string \<Rightarrow> string \<Rightarrow> api_error + abac_item option" where
  "resolve_one parse_uuid db kind ref =
     (if ref = [] then Inr None
      else case parse_uuid ref of
        None \<Rightarrow> Inl (ApiError einvalid (''resource.'' @ kind @ '' must be a valid UUID''))
      | Some i \<Rightarrow>
          (case rd_find db kind i of
             NotFound \<Rightarrow> Inl (ApiError enotfound (kind @ '' '' @ go_quote ref @ '' not found''))
           | LookupFailed e \<Rightarrow> Inl (OtherError (''failed to resolve '' @ kind @ '' '' @ go_quote ref @ '': '' @ e))
           | Found r \<Rightarrow> Inr (Some r)))"

definition set_item :: "(abac_item \<Rightarrow> abac_attribute \<Rightarrow> abac_attribute) \<Rightarrow> abac_item option \<Rightarrow> abac_attribute \<Rightarrow> abac_attribute" where
  "set_item put i a = (case i of None \<Rightarrow> a | Some x \<Rightarrow> put x a)"

definition resolve_resource :: "(string \<Rightarrow> string option) \<Rightarrow> review_db \<Rightarrow> abac_attribute \<Rightarrow> review_resource
    \<Rightarrow> api_error + abac_attribute" where
  "resolve_resource parse_uuid db empty_attr r =
     and_then (resolve_one parse_uuid db ''playbook'' (rr_playbook r)) (\<lambda>p.
     and_then (resolve_one parse_uuid db ''config'' (rr_config r)) (\<lambda>c.
     and_then (resolve_one parse_uuid db ''check'' (rr_check r)) (\<lambda>k.
     and_then (resolve_one parse_uuid db ''view'' (rr_view r)) (\<lambda>v.
     and_then (resolve_one parse_uuid db ''connection'' (rr_connection r)) (\<lambda>n.
       Inr (set_item (\<lambda>x. ab_connection_update (\<lambda>_. x)) n
             (set_item (\<lambda>x. ab_view_update (\<lambda>_. x)) v
               (set_item (\<lambda>x. ab_check_update (\<lambda>_. x)) k
                 (set_item (\<lambda>x. ab_config_update (\<lambda>_. x)) c
                   (set_item (\<lambda>x. ab_playbook_update (\<lambda>_. x)) p empty_attr))))))))))"

definition resolve_subjects :: "review_db \<Rightarrow> string list \<Rightarrow> api_error + string list" where
  "resolve_subjects db subjects =
     (if length subjects \<noteq> 1 \<or> trim_space (subjects ! 0) \<noteq> ''*'' then Inr subjects
      else case rd_subjects db of
        Inl e \<Rightarrow> Inl (OtherError (''failed to query permission subjects: '' @ e))
      | Inr all \<Rightarrow> Inr all)"

definition max_review_subjects :: nat where "max_review_subjects = 500"

text \<open>The loop over the subjects. A global check can change the enforcer's state, so it is threaded.\<close>

fun review_each :: "(string \<Rightarrow> 's \<Rightarrow> bool \<times> 's) \<Rightarrow> string list \<Rightarrow> 's \<Rightarrow> review_result list \<times> 's" where
  "review_each ask [] s = ([], s)"
| "review_each ask (sub # subs) s =
     (let subject = trim_space sub in
      if subject = [] then
        (case review_each ask subs s of
           (rs, s1) \<Rightarrow> (\<lparr>rs_subject = subject, rs_allowed = False, rs_error = ''subject is required''\<rparr> # rs, s1))
      else
        (case ask subject s of
           (allowed, s1) \<Rightarrow>
             (case review_each ask subs s1 of
                (rs, s2) \<Rightarrow> (\<lparr>rs_subject = subject, rs_allowed = allowed, rs_error = []\<rparr> # rs, s2))))"

definition run_review :: "'s enforcer \<Rightarrow> bool \<Rightarrow> (string \<Rightarrow> string option) \<Rightarrow> review_db \<Rightarrow> abac_attribute \<Rightarrow> review_request \<Rightarrow> 's
    \<Rightarrow> (api_error + review_result list) \<times> 's" where
  "run_review e explain parse_uuid db empty_attr req s =
     (case resolve_subjects db (rq_subjects req) of
        Inl err \<Rightarrow> (Inl err, s)
      | Inr subjects \<Rightarrow>
          if length subjects > max_review_subjects then
            (Inl (ApiError einvalid (''subjects exceeds maximum of '' @ nat_text max_review_subjects)), s)
          else case resolve_resource parse_uuid db empty_attr (rq_resource req) of
            Inl err \<Rightarrow> (Inl err, s)
          | Inr attr \<Rightarrow>
              (case review_each
                  (\<lambda>subject s. if rr_global (rq_resource req) \<noteq> []
                     then check e explain subject (rr_global (rq_resource req)) (rq_action req) s
                     else (has_permission (Some e) explain subject attr (rq_action req) s, s)) subjects s of
                 (rs, s1) \<Rightarrow> (Inr rs, s1)))"

definition resource_ref :: "string \<Rightarrow> string \<Rightarrow> review_resource" where
  "resource_ref kind i =
     \<lparr>rr_playbook = (if kind = ''playbook'' then i else []), rr_config = [], rr_check = [],
      rr_view = (if kind = ''view'' then i else []), rr_connection = (if kind = ''connection'' then i else []),
      rr_global = []\<rparr>"

text \<open>The search: for each type in turn its ids, for each id a review of the one subject.\<close>

fun search_ids :: "(string \<Rightarrow> 's \<Rightarrow> (api_error + review_result list) \<times> 's) \<Rightarrow> string \<Rightarrow> string list \<Rightarrow> 's
    \<Rightarrow> (api_error + (string \<times> string) list) \<times> 's" where
  "search_ids review kind [] s = (Inr [], s)"
| "search_ids review kind (i # is) s =
     (case review i s of
        (Inl err, s1) \<Rightarrow> (Inl err, s1)
      | (Inr rs, s1) \<Rightarrow>
          (case search_ids review kind is s1 of
             (Inl err, s2) \<Rightarrow> (Inl err, s2)
           | (Inr found, s2) \<Rightarrow> (Inr (map (\<lambda>_. (kind, i)) (filter rs_allowed rs) @ found), s2)))"

fun search_types :: "(string \<Rightarrow> string \<Rightarrow> 's \<Rightarrow> (api_error + review_result list) \<times> 's) \<Rightarrow> review_db \<Rightarrow> string list \<Rightarrow> 's
    \<Rightarrow> (api_error + (string \<times> string) list) \<times> 's" where
  "search_types review db [] s = (Inr [], s)"
| "search_types review db (kind # kinds) s =
     (case rd_ids db kind of
        Inl e \<Rightarrow> (Inl (OtherError (''failed to list '' @ kind @ ''s for subject access search: '' @ e)), s)
      | Inr is \<Rightarrow>
          (case search_ids (review kind) kind is s of
             (Inl err, s1) \<Rightarrow> (Inl err, s1)
           | (Inr found, s1) \<Rightarrow>
               (case search_types review db kinds s1 of
                  (Inl err, s2) \<Rightarrow> (Inl err, s2)
                | (Inr rest, s2) \<Rightarrow> (Inr (found @ rest), s2))))"

definition run_search :: "'s enforcer \<Rightarrow> bool \<Rightarrow> (string \<Rightarrow> string option) \<Rightarrow> review_db \<Rightarrow> abac_attribute \<Rightarrow> search_request \<Rightarrow> 's
    \<Rightarrow> (api_error + (string \<times> string) list) \<times> 's" where
  "run_search e explain parse_uuid db empty_attr req0 s =
     (case validate_search req0 of
        Inl err \<Rightarrow> (Inl err, s)
      | Inr req \<Rightarrow>
          search_types (\<lambda>kind i. run_review e explain parse_uuid db empty_attr
             \<lparr>rq_resource = resource_ref kind i, rq_action = sq_action req, rq_subjects = [sq_subject req]\<rparr>)
            db (sq_types req) s)"

subsection \<open>Permissions and rules\<close>

lemma new_permission_to_args: "new_permission (to_args p) = p"
  by (simp add: new_permission_def to_args_def zero_permission_def Let_def)

definition rule_permission :: "string \<Rightarrow> string \<Rightarrow> string \<Rightarrow> permission" where
  "rule_permission sub ob act =
     \<lparr>pm_id = ''na'', pm_subject = sub, pm_object = ob,
      pm_action = (if has_prefix ''!'' act then drop 1 act else act), pm_deny = has_prefix ''!'' act, pm_condition = []\<rparr>"

lemma acl_rule_permission: "new_permission (acl_rule acl ob act) = rule_permission (ac_principal acl) ob act"
  by (simp add: acl_rule_def rule_permission_def new_permission_def zero_permission_def Let_def)

lemma acl_definition_permissions: "new_permission ` set (acl_definition acl) =
    {rule_permission (ac_principal acl) ob act | ob act. ob \<in> set (split_char (CHR '','') (ac_objects acl))
      \<and> act \<in> set (split_char (CHR '','') (ac_actions acl))}"
proof -
  have "new_permission ` set (acl_definition acl) = (\<Union>ob \<in> set (split_char (CHR '','') (ac_objects acl)).
      rule_permission (ac_principal acl) ob ` set (split_char (CHR '','') (ac_actions acl)))"
    by (simp add: acl_definition_def image_UN image_image acl_rule_permission)
  then show ?thesis by auto
qed

text \<open>Reading back the rules of a policy gives exactly one permission for every object and action of its
  access lists, for the list's own principal or else the policy's; an action with a leading
  exclamation mark denies the action after it, every other allows. And reading back the arguments
  of any permission gives that permission.\<close>

theorem policy_rules_roundtrip:
  "set (new_permissions (policy_definitions p)) =
     {rule_permission (if ac_principal acl = [] then pl_principal p else ac_principal acl) ob act | acl ob act.
        acl \<in> set (pl_acls p) \<and> ob \<in> set (split_char (CHR '','') (ac_objects acl))
        \<and> act \<in> set (split_char (CHR '','') (ac_actions acl))}
   \<and> new_permission (to_args perm) = perm"
proof
  show "set (new_permissions (policy_definitions p)) =
     {rule_permission (if ac_principal acl = [] then pl_principal p else ac_principal acl) ob act | acl ob act.
        acl \<in> set (pl_acls p) \<and> ob \<in> set (split_char (CHR '','') (ac_objects acl))
        \<and> act \<in> set (split_char (CHR '','') (ac_actions acl))}"
    by (simp add: new_permissions_def policy_definitions_def image_UN acl_definition_permissions)
      (auto split: if_splits, metis+)
qed (rule new_permission_to_args)

subsection \<open>Actions\<close>

lemma match_action_iff:
  "match_action r p \<longleftrightarrow> p = ''*'' \<or> p = r \<or> (\<exists>plugin. plugin \<noteq> [] \<and> CHR '':'' \<notin> set plugin
     \<and> p = invoke_prefix @ plugin @ '':*'' \<and> has_prefix (invoke_prefix @ plugin @ '':'') r)"
proof (cases "p = ''*'' \<or> p = r \<or> \<not> has_prefix invoke_prefix p")
  case True
  then show ?thesis by (auto simp: match_action_def)
next
  case False
  then obtain q where q: "p = invoke_prefix @ q" by (auto simp: has_prefix_iff)
  have "match_action r p \<longleftrightarrow> (\<exists>plugin. cut_char (CHR '':'') q = Some (plugin, ''*'') \<and> plugin \<noteq> []
      \<and> has_prefix (trim_suffix ''*'' p) r)"
    using False by (auto simp: match_action_def q split: option.splits)
  also have "\<dots> \<longleftrightarrow> (\<exists>plugin. plugin \<noteq> [] \<and> CHR '':'' \<notin> set plugin \<and> q = plugin @ '':*''
      \<and> has_prefix (invoke_prefix @ plugin @ '':'') r)"
  proof -
    have "trim_suffix ''*'' (invoke_prefix @ plugin @ '':*'') = invoke_prefix @ plugin @ '':''" for plugin
      using trim_suffix_append [of "''*''" "invoke_prefix @ plugin @ '':''"] by simp
    then show ?thesis by (auto simp: cut_char_Some q)
  qed
  finally show ?thesis using False q by auto
qed

text \<open>an action is granted by the star, by itself, and by a grant of all operations of one plugin when it
  invokes that plugin: no other pattern reaches beyond itself, and in particular a grant for a
  plugin never covers another plugin's operations.\<close>

theorem match_action_correct:
  "(match_action r p \<longleftrightarrow> p = ''*'' \<or> p = r \<or> (\<exists>plugin. plugin \<noteq> [] \<and> CHR '':'' \<notin> set plugin
      \<and> p = plugin_invoke_action plugin ''*'' \<and> has_prefix (plugin_invoke_action plugin []) r))
   \<and> (CHR '':'' \<notin> set a \<and> CHR '':'' \<notin> set b \<and> op \<noteq> ''*'' \<longrightarrow>
        match_action (plugin_invoke_action a op) (plugin_invoke_action b ''*'') = (a = b \<and> a \<noteq> []))"
proof
  have granted: "match_action r p \<longleftrightarrow> p = ''*'' \<or> p = r \<or> (\<exists>plugin. plugin \<noteq> [] \<and> CHR '':'' \<notin> set plugin
      \<and> p = plugin_invoke_action plugin ''*'' \<and> has_prefix (plugin_invoke_action plugin []) r)" for r p
    by (simp add: match_action_iff plugin_invoke_action_def)
  show "match_action r p \<longleftrightarrow> p = ''*'' \<or> p = r \<or> (\<exists>plugin. plugin \<noteq> [] \<and> CHR '':'' \<notin> set plugin
      \<and> p = plugin_invoke_action plugin ''*'' \<and> has_prefix (plugin_invoke_action plugin []) r)" by (rule granted)
  show "CHR '':'' \<notin> set a \<and> CHR '':'' \<notin> set b \<and> op \<noteq> ''*'' \<longrightarrow>
      match_action (plugin_invoke_action a op) (plugin_invoke_action b ''*'') = (a = b \<and> a \<noteq> [])"
  proof
    assume as: "CHR '':'' \<notin> set a \<and> CHR '':'' \<notin> set b \<and> op \<noteq> ''*''"
    have inj: "x = y \<and> s = t" if "x @ CHR '':'' # s = y @ CHR '':'' # t" "CHR '':'' \<notin> set x" "CHR '':'' \<notin> set y" for x y s t
      using that by (metis cut_char_Some option.inject prod.inject)
    have "plugin_invoke_action b ''*'' \<noteq> ''*''" by (simp add: plugin_invoke_action_def invoke_prefix_def)
    moreover have "plugin_invoke_action b ''*'' \<noteq> plugin_invoke_action a op"
      using inj [of b "''*''" a op] as by (auto simp: plugin_invoke_action_def)
    moreover have "plugin_invoke_action b ''*'' = plugin_invoke_action q ''*'' \<longleftrightarrow> b = q" for q
      by (auto simp: plugin_invoke_action_def)
    moreover have "has_prefix (plugin_invoke_action b []) (plugin_invoke_action a op) \<longleftrightarrow> b = a"
      using inj [of a op b] as by (auto simp: plugin_invoke_action_def has_prefix_iff)
    ultimately show "match_action (plugin_invoke_action a op) (plugin_invoke_action b ''*'') = (a = b \<and> a \<noteq> [])"
      unfolding granted using as by auto
  qed
qed

lemma match_action_correct_witness:
  "\<not> match_action ''invoke:logs:list'' ''invoke:kube:*'' \<and> match_action ''invoke:kube:list'' ''invoke:kube:*''"
  using match_action_correct [of "''invoke:logs:list''" "''invoke:kube:*''" "''logs''" "''kube''" "''list''"]
    match_action_correct [of "''invoke:kube:list''" "''invoke:kube:*''" "''kube''" "''kube''" "''list''"]
  by (simp add: plugin_invoke_action_def invoke_prefix_def)

subsection \<open>What the matcher decides\<close>

lemma enforce_rules_iff:
  assumes "\<forall>p \<in> set rules. p ! 3 = ''allow'' \<or> p ! 3 = ''deny''"
  shows "enforce_rules inherits eval rules sub ob act \<longleftrightarrow>
    (\<exists>p \<in> set rules. matcher inherits eval sub ob act p) \<and> (\<forall>p \<in> set rules. matcher inherits eval sub ob act p \<longrightarrow> p ! 3 = ''allow'')"
proof -
  have "enforce_rules inherits eval rules sub ob act \<longleftrightarrow>
      (\<exists>p \<in> set rules. matcher inherits eval sub ob act p \<and> p ! 3 = ''allow'')
      \<and> (\<forall>p \<in> set rules. matcher inherits eval sub ob act p \<longrightarrow> p ! 3 \<noteq> ''deny'')"
    unfolding enforce_rules_def policy_effect_def by (simp add: image_iff) metis
  moreover have "p ! 3 \<noteq> ''deny'' \<longleftrightarrow> p ! 3 = ''allow''" if "p \<in> set rules" for p
    using assms that by auto
  ultimately show ?thesis by blast
qed

definition names_object :: "(string \<Rightarrow> string \<Rightarrow> bool) \<Rightarrow> string \<Rightarrow> string \<Rightarrow> string \<Rightarrow> rule \<Rightarrow> bool" where
  "names_object inherits sub ob act p \<longleftrightarrow>
     inherits sub (p ! 0) \<and> p ! 1 \<in> {''*'', ob} \<and> match_action act (p ! 2) \<and> p ! 4 = []"

definition accepts_resource :: "(string \<Rightarrow> string \<Rightarrow> bool) \<Rightarrow> (string \<Rightarrow> abac_attribute \<Rightarrow> bool) \<Rightarrow> string \<Rightarrow> abac_attribute
    \<Rightarrow> string \<Rightarrow> rule \<Rightarrow> bool" where
  "accepts_resource inherits eval sub a act p \<longleftrightarrow>
     inherits sub (p ! 0) \<and> p ! 1 = ''*'' \<and> match_action act (p ! 2) \<and> (p ! 4 = [] \<or> eval (p ! 4) a)"


definition sample_item_of :: "string \<Rightarrow> abac_item" where
  "sample_item_of i = \<lparr>ai_id = i, ai_resource = sample_resource\<rparr>"

definition no_id :: string where "no_id = ''00000000-0000-0000-0000-000000000000''"

definition sample_attribute :: abac_attribute where
  "sample_attribute = \<lparr>ab_playbook = sample_item_of ''1'', ab_connection = sample_item_of no_id,
     ab_component = sample_item_of no_id, ab_config = sample_item_of no_id, ab_check = sample_item_of no_id,
     ab_canary = sample_item_of no_id, ab_view = sample_item_of no_id\<rparr>"

definition sample_rules :: "rule list" where
  "sample_rules = [[''viewer'', ''catalog'', ''read'', ''allow'', [], ''na''],
     [''viewer'', ''*'', ''read'', ''allow'', ''cond'', ''1'']]"


subsection \<open>Resource selectors\<close>

definition pair_ok :: "(resource_selector \<Rightarrow> resource \<Rightarrow> bool) \<Rightarrow> resource_pair \<Rightarrow> bool" where
  "pair_ok sel p \<longleftrightarrow> rp_selectors p = [] \<or> (rp_present p \<and> (\<exists>rs \<in> set (rp_selectors p). sel rs (rp_resource p)))"

lemma any_matches_eq:
  "\<forall>rs \<in> set rss. \<exists>e. matches rs s = Some (sel rs s, e) \<Longrightarrow> any_matches matches rss s = Some (\<exists>rs \<in> set rss. sel rs s)"
  by (induction rss) auto

lemma match_pairs_eq:
  assumes "\<forall>p \<in> set ps. \<forall>rs \<in> set (rp_selectors p). \<exists>e. matches rs (rp_resource p) = Some (sel rs (rp_resource p), e)"
  shows "match_pairs matches ps = Some (\<forall>p \<in> set ps. pair_ok sel p)"
  using assms
proof (induction ps)
  case (Cons p ps)
  have "match_pair matches p = Some (pair_ok sel p)"
    using Cons.prems any_matches_eq [of "rp_selectors p" matches "rp_resource p" sel]
    by (auto simp: match_pair_def pair_ok_def)
  then show ?case using Cons by auto
qed simp



subsection \<open>Checks fail closed\<close>

text \<open>without explanations a check that meets an error anywhere is refused, an anonymous caller is refused,
  and any signed-in user may read what the viewer role may read. With no enforcer at all every
  permission is granted.\<close>

theorem check_fails_closed:
  "(en_has_role e s sub role_everyone = Inl err \<longrightarrow> fst (check e explain sub ob act s) = False)
   \<and> ((\<forall>s sub ob act. \<exists>err. en_enforce e s sub ob act = Inl err) \<longrightarrow> \<not> fst (check e False sub ob act s)
        \<and> \<not> fst (check_context e False user ob act s) \<and> \<not> has_permission (Some e) False sub attr act s)
   \<and> fst (check_context e explain None ob act s) = False
   \<and> (fst (check e explain role_viewer ob action_read s) \<longrightarrow> fst (check_context e explain (Some uid) ob action_read s))
   \<and> has_permission None explain sub attr act s"
proof (intro conjI impI)
  assume all: "\<forall>s sub ob act. \<exists>err. en_enforce e s sub ob act = Inl err"
  have no: "\<not> enforced e False s sub ob act" for s sub ob act
    using all by (metis (no_types, lifting) enforced_def sum.case(1))
  have refuse: "\<not> fst (check e False sub ob act s)" for sub ob act s
    by (simp add: check_def no Let_def split: sum.split)
  then show "\<not> fst (check e False sub ob act s)" .
  show "\<not> has_permission (Some e) False sub attr act s" by (simp add: has_permission_def no)
  show "\<not> fst (check_context e False user ob act s)"
    using refuse by (auto simp: check_context_def split: option.split prod.split) (metis fst_conv)+
qed (auto simp: check_def check_context_def has_permission_def split: prod.split)

definition closed_enforcer :: "unit enforcer" where
  "closed_enforcer = \<lparr>en_has_role = \<lambda>s u r. Inr True, en_add_role = \<lambda>s u r. (Inr (), s),
     en_enforce = \<lambda>s u ob a. Inl ''down'', en_enforce_ex = \<lambda>s u ob a. (False, Some ''down'')\<rparr>"

lemma check_fails_closed_witness:
  "\<not> fst (check closed_enforcer False ''u'' ''catalog'' ''read'' ())
    \<and> \<not> has_permission (Some closed_enforcer) False ''u'' sample_attribute ''read'' ()"
  using check_fails_closed [of closed_enforcer "()" "''u''" "''x''" False "''catalog''" "''read''" None sample_attribute]
  by (simp add: closed_enforcer_def)

subsection \<open>Reviews\<close>

definition answer :: "(string \<Rightarrow> bool) \<Rightarrow> string \<Rightarrow> review_result" where
  "answer allowed sub = (let subject = trim_space sub in
     if subject = [] then \<lparr>rs_subject = [], rs_allowed = False, rs_error = ''subject is required''\<rparr>
     else \<lparr>rs_subject = subject, rs_allowed = allowed subject, rs_error = []\<rparr>)"

lemma review_each_pure:
  "review_each (\<lambda>subject s. (allowed s subject, s)) subs s = (map (answer (allowed s)) subs, s)"
  by (induction subs) (simp_all add: answer_def Let_def)

lemma run_review_resource:
  assumes "rr_global (rq_resource req) = []" "resolve_subjects db (rq_subjects req) = Inr subs" "length subs \<le> 500"
    and "resolve_resource parse_uuid db empty_attr (rq_resource req) = Inr attr"
  shows "run_review e explain parse_uuid db empty_attr req s =
    (Inr (map (answer (\<lambda>subject. has_permission (Some e) explain subject attr (rq_action req) s)) subs), s)"
  using assms review_each_pure [of "\<lambda>s subject. has_permission (Some e) explain subject attr (rq_action req) s" subs s]
  by (simp add: run_review_def max_review_subjects_def)


lemma search_ids_found:
  assumes "\<forall>i \<in> set is. review i s = (Inr [r i], s)"
  shows "search_ids review kind is s = (Inr (map (\<lambda>i. (kind, i)) (filter (\<lambda>i. rs_allowed (r i)) is)), s)"
  using assms by (induction "is") auto

lemma search_types_found:
  assumes "\<forall>kind \<in> set kinds. rd_ids db kind = Inr (ids kind)"
    and "\<forall>kind \<in> set kinds. \<forall>i \<in> set (ids kind). review kind i s = (Inr [r kind i], s)"
  shows "search_types review db kinds s =
    (Inr (concat (map (\<lambda>kind. map (\<lambda>i. (kind, i)) (filter (\<lambda>i. rs_allowed (r kind i)) (ids kind))) kinds)), s)"
  using assms
proof (induction kinds)
  case (Cons kind kinds)
  have "search_ids (review kind) kind (ids kind) s
      = (Inr (map (\<lambda>i. (kind, i)) (filter (\<lambda>i. rs_allowed (r kind i)) (ids kind))), s)"
    by (rule search_ids_found) (use Cons.prems in simp)
  then show ?case using Cons by simp
qed simp

lemma normalize_types_ok:
  "normalize_types acc ts = Inr out \<Longrightarrow> distinct acc \<Longrightarrow> set acc \<subseteq> {''playbook'', ''view'', ''connection''}
    \<Longrightarrow> distinct out \<and> set out = set acc \<union> (\<lambda>t. to_lower (trim_space t)) ` set ts
      \<and> set out \<subseteq> {''playbook'', ''view'', ''connection''}"
proof (induction ts arbitrary: acc)
  case (Cons t ts)
  define rt where "rt = to_lower (trim_space t)"
  define acc' where "acc' = (if rt \<in> set acc then acc else acc @ [rt])"
  have ok: "rt \<in> {''playbook'', ''view'', ''connection''}" and rec_call: "normalize_types acc' ts = Inr out"
    using Cons.prems(1) by (auto simp: Let_def rt_def acc'_def split: if_split_asm)
  have "distinct acc'" "set acc' = insert rt (set acc)" using Cons.prems(2) by (auto simp: acc'_def)
  then show ?case using Cons.IH [OF rec_call] Cons.prems(3) ok by (auto simp: rt_def)
qed simp

text \<open>a search that passes its validation asks about each type once, in the order given, and finds
  exactly the ids of those types, in the database's order, on which the subject has the permission.\<close>

theorem run_search_correct:
  assumes valid: "validate_search req0 = Inr req" and one: "sq_subject req \<noteq> ''*''"
    and ids: "\<forall>kind \<in> set (sq_types req). rd_ids db kind = Inr (ids kind)"
    and attrs: "\<forall>kind \<in> set (sq_types req). \<forall>i \<in> set (ids kind).
      resolve_resource parse_uuid db empty_attr (resource_ref kind i) = Inr (attr kind i)"
  shows "run_search e explain parse_uuid db empty_attr req0 s = (Inr (concat (map (\<lambda>kind. map (\<lambda>i. (kind, i))
      (filter (\<lambda>i. has_permission (Some e) explain (trim_space (sq_subject req0)) (attr kind i) (sq_action req0) s) (ids kind)))
      (sq_types req))), s)
    \<and> distinct (sq_types req) \<and> set (sq_types req) \<subseteq> {''playbook'', ''view'', ''connection''}"
proof
  define sub where "sub = trim_space (sq_subject req0)"
  have req: "sq_subject req = sub" "sq_action req = sq_action req0" "sub \<noteq> []"
    and types: "normalize_types [] (if sq_types req0 = [] then [''playbook'', ''view''] else sq_types req0) = Inr (sq_types req)"
    using valid by (auto simp: validate_search_def Let_def sub_def and_then_Inr_iff split: if_split_asm)
  have no_types: "distinct ([] :: string list)" "set ([] :: string list) \<subseteq> {''playbook'', ''view'', ''connection''}" by simp_all
  show "distinct (sq_types req) \<and> set (sq_types req) \<subseteq> {''playbook'', ''view'', ''connection''}"
    using normalize_types_ok [OF types no_types] by blast
  have idem: "trim_space sub = sub" by (simp add: sub_def trim_where_idem)
  have review: "run_review e explain parse_uuid db empty_attr
      \<lparr>rq_resource = resource_ref kind i, rq_action = sq_action req, rq_subjects = [sub]\<rparr> s
      = (Inr [answer (\<lambda>subject. has_permission (Some e) explain subject (attr kind i) (sq_action req) s) sub], s)"
    if "kind \<in> set (sq_types req)" "i \<in> set (ids kind)" for kind i
    using that attrs one req idem
    by (subst run_review_resource [where subs = "[sub]" and attr = "attr kind i"])
      (simp_all add: resource_ref_def resolve_subjects_def)
  have "search_types (\<lambda>kind i. run_review e explain parse_uuid db empty_attr
        \<lparr>rq_resource = resource_ref kind i, rq_action = sq_action req, rq_subjects = [sub]\<rparr>) db (sq_types req) s
      = (Inr (concat (map (\<lambda>kind. map (\<lambda>i. (kind, i)) (filter (\<lambda>i. rs_allowed
          (answer (\<lambda>subject. has_permission (Some e) explain subject (attr kind i) (sq_action req) s) sub)) (ids kind)))
          (sq_types req))), s)"
    by (rule search_types_found) (use ids review in simp_all)
  moreover have "rs_allowed (answer f sub) = f sub" for f
    using idem req(3) by (simp add: answer_def Let_def)
  ultimately show "run_search e explain parse_uuid db empty_attr req0 s = (Inr (concat (map (\<lambda>kind. map (\<lambda>i. (kind, i))
      (filter (\<lambda>i. has_permission (Some e) explain (trim_space (sq_subject req0)) (attr kind i) (sq_action req0) s) (ids kind)))
      (sq_types req))), s)"
    using valid req by (simp add: run_search_def sub_def [symmetric])
qed

definition sample_review_db :: review_db where
  "sample_review_db = \<lparr>rd_find = \<lambda>kind i. Found (sample_item_of i), rd_subjects = Inr [''u''],
     rd_ids = \<lambda>kind. Inr [''1'', ''2'']\<rparr>"

definition only_first :: "unit enforcer" where
  "only_first = \<lparr>en_has_role = \<lambda>s u r. Inr True, en_add_role = \<lambda>s u r. (Inr (), s),
     en_enforce = \<lambda>s u ob a. Inr (case ob of NamedObject n \<Rightarrow> False | Attribute x \<Rightarrow> ai_id (ab_view x) = ''1''),
     en_enforce_ex = \<lambda>s u ob a. (False, None)\<rparr>"

lemma run_search_correct_witness:
  "run_search only_first False Some sample_review_db sample_attribute
     \<lparr>sq_subject = '' u '', sq_action = ''read'', sq_types = [''View'', ''view'']\<rparr> () = (Inr [(''view'', ''1'')], ())"
proof -
  let ?raw = "\<lparr>sq_subject = '' u '', sq_action = ''read'', sq_types = [''View'', ''view'']\<rparr>"
  let ?req = "\<lparr>sq_subject = ''u'', sq_action = ''read'', sq_types = [''view'']\<rparr>"
  have valid: "validate_search ?raw = Inr ?req" by code_simp
  have "resolve_resource Some sample_review_db sample_attribute (resource_ref ''view'' i)
      = Inr (sample_attribute\<lparr>ab_view := sample_item_of i\<rparr>)" if "i \<noteq> []" for i
    using that by (simp add: resolve_resource_def resolve_one_def resource_ref_def sample_review_db_def set_item_def)
  then show ?thesis
    using run_search_correct [OF valid, of sample_review_db "\<lambda>kind. [''1'', ''2'']" Some sample_attribute
        "\<lambda>kind i. sample_attribute\<lparr>ab_view := sample_item_of i\<rparr>" only_first False "()"]
    by (simp add: sample_review_db_def has_permission_def enforced_def only_first_def sample_item_of_def)
qed

definition sample_review :: review_request where
  "sample_review = \<lparr>rq_resource = resource_ref ''view'' ''1'', rq_action = ''read'', rq_subjects = [''u'', '' '']\<rparr>"


end
