(* ===== verification/Permission_Objects.thy ===== *)
theory Permission_Objects
  imports Permissions
begin

section \<open>The objects of permissions\<close>

text \<open>
  The object names of \<^verbatim>\<open>rbac/policy/policy.go\<close>, the companion selectors of \<open>ABACObjectSelector\<close>, and
  \<^verbatim>\<open>rbac/objects.go\<close>: the object each table, view and function of the database belongs to, and the
  action of an HTTP method.
\<close>

definition object_kubernetes_proxy :: string where "object_kubernetes_proxy = ''kubernetes-proxy''"
definition object_logs :: string where "object_logs = ''logs''"
definition object_agent :: string where "object_agent = ''agent''"
definition object_agent_push :: string where "object_agent_push = ''agent-push''"
definition object_artifact :: string where "object_artifact = ''artifact''"
definition object_auth :: string where "object_auth = ''auth''"
definition object_canary :: string where "object_canary = ''canaries''"
definition object_catalog :: string where "object_catalog = ''catalog''"
definition object_application :: string where "object_application = ''application''"
definition object_connection :: string where "object_connection = ''connection''"
definition object_connection_detail :: string where "object_connection_detail = ''connection-detail''"
definition object_database :: string where "object_database = ''database''"
definition object_database_identity :: string where "object_database_identity = ''database.identities''"
definition object_auth_confidential :: string where "object_auth_confidential = ''database.kratos''"
definition object_database_public :: string where "object_database_public = ''database.public''"
definition object_database_settings :: string where "object_database_settings = ''database.config_scrapers''"
definition object_database_system :: string where "object_database_system = ''database.system''"
definition object_incident :: string where "object_incident = ''incident''"
definition object_monitor :: string where "object_monitor = ''database.monitor''"
definition object_playbooks :: string where "object_playbooks = ''playbooks''"
definition object_rbac :: string where "object_rbac = ''rbac''"
definition object_topology :: string where "object_topology = ''topology''"
definition object_people :: string where "object_people = ''people''"
definition object_notification :: string where "object_notification = ''notification''"
definition object_views :: string where "object_views = ''views''"
definition object_mcp :: string where "object_mcp = ''mcp''"

lemmas object_names = object_kubernetes_proxy_def object_logs_def object_agent_def object_agent_push_def object_artifact_def object_auth_def object_canary_def object_catalog_def object_application_def object_connection_def object_connection_detail_def object_database_def object_database_identity_def object_auth_confidential_def object_database_public_def object_database_settings_def object_database_system_def object_incident_def object_monitor_def object_playbooks_def object_rbac_def object_topology_def object_people_def object_notification_def object_views_def object_mcp_def

definition all_objects :: "string list" where
  "all_objects = [object_kubernetes_proxy,
     object_logs,
     object_agent,
     object_agent_push,
     object_artifact,
     object_auth,
     object_canary,
     object_catalog,
     object_application,
     object_connection,
     object_connection_detail,
     object_database,
     object_database_identity,
     object_auth_confidential,
     object_database_public,
     object_database_settings,
     object_database_system,
     object_incident,
     object_monitor,
     object_playbooks,
     object_rbac,
     object_topology,
     object_people,
     object_notification,
     object_views,
     object_mcp]"

text \<open>The rules for all resources of a kind that go with a role's rule for an object and an action.\<close>

definition abac_object_selector :: "string \<Rightarrow> string \<Rightarrow> string option" where
  "abac_object_selector object action =
     (if object = object_playbooks then
        (if action \<in> {action_playbook_run, action_playbook_approve, action_mcp_run, action_mcp_use,
                       action_playbook_cancel, action_read}
         then Some (''{'' @ go_quote ''playbooks'' @ '': [{'' @ go_quote ''name'' @ '':'' @ go_quote ''*'' @ ''}]}'') else None)
      else if object = object_catalog then
        (if action = action_read
         then Some (''{'' @ go_quote ''configs'' @ '': [{'' @ go_quote ''name'' @ '':'' @ go_quote ''*'' @ ''}]}'') else None)
      else if object = object_topology then
        (if action = action_read
         then Some (''{'' @ go_quote ''components'' @ '': [{'' @ go_quote ''name'' @ '':'' @ go_quote ''*'' @ ''}]}'') else None)
      else if object = object_connection then
        (if action = action_read
         then Some (''{'' @ go_quote ''connections'' @ '': [{'' @ go_quote ''name'' @ '':'' @ go_quote ''*'' @ ''}]}'') else None)
      else if object = object_views then
        (if action \<in> {action_mcp_run, action_mcp_use, action_read}
         then Some (''{'' @ go_quote ''views'' @ '': [{'' @ go_quote ''name'' @ '':'' @ go_quote ''*'' @ ''}]}'') else None)
      else None)"

definition db_resource_obj_map :: "(string \<times> string) list" where
  "db_resource_obj_map = [
     (''access_token'', object_auth_confidential),
     (''access_tokens'', object_auth_confidential),
     (''agents_summary'', object_monitor),
     (''agents'', object_database_public),
     (''applications'', object_application),
     (''config_access_unwrapped'', object_application),
     (''config_access_summary'', object_application),
     (''config_access_summary_by_config'', object_application),
     (''config_access_summary_by_group'', object_application),
     (''config_access_summary_by_user'', object_application),
     (''external_group_summary'', object_catalog),
     (''rpc/config_access_filter_options'', object_application),
     (''analysis_by_component'', object_catalog),
     (''analysis_by_config'', object_catalog),
     (''analysis_summary_by_component'', object_catalog),
     (''analysis_types'', object_database_public),
     (''analyzer_types'', object_database_public),
     (''artifacts'', object_artifact),
     (''artifact_summary'', object_artifact),
     (''canaries_with_status'', object_canary),
     (''canaries'', object_canary),
     (''casbin_rule'', object_auth),
     (''catalog_changes'', object_catalog),
     (''change_types'', object_database_public),
     (''changes_by_component'', object_catalog),
     (''check_component_relationships'', object_canary),
     (''check_config_relationships'', object_canary),
     (''check_labels'', object_database_public),
     (''check_names'', object_database_public),
     (''check_status_summary_hour'', object_canary),
     (''check_statuses_1d'', object_canary),
     (''check_statuses_1h'', object_canary),
     (''check_statuses_5m'', object_canary),
     (''check_statuses'', object_canary),
     (''check_summary_by_component'', object_canary),
     (''check_summary_by_config'', object_catalog),
     (''check_summary_for_config'', object_catalog),
     (''check_summary'', object_canary),
     (''checks_by_component'', object_canary),
     (''checks_by_config'', object_canary),
     (''checks_status_artifacts'', object_canary),
     (''checks'', object_canary),
     (''checks_unlogged'', object_canary),
     (''comment_responders'', object_incident),
     (''comments'', object_incident),
     (''component_labels'', object_database_public),
     (''component_names_all'', object_topology),
     (''component_names'', object_database_public),
     (''component_relationships'', object_topology),
     (''component_types'', object_database_public),
     (''components_with_logs'', object_topology),
     (''components'', object_topology),
     (''config_analysis_analyzers'', object_catalog),
     (''rpc/config_analysis_filter_options'', object_catalog),
     (''config_analysis_by_severity'', object_catalog),
     (''config_analysis_items'', object_catalog),
     (''config_analysis'', object_catalog),
     (''config_locations'', object_catalog),
     (''config_changes_by_types'', object_catalog),
     (''config_changes_items'', object_catalog),
     (''config_changes'', object_catalog),
     (''config_class_summary'', object_catalog),
     (''config_classes'', object_database_public),
     (''config_component_relationships'', object_catalog),
     (''config_costs'', object_catalog),
     (''config_cost_compact'', object_catalog),
     (''config_detail'', object_catalog),
     (''config_items_aws'', object_catalog),
     (''config_items'', object_catalog),
     (''config_items_last_scraped_time'', object_catalog),
     (''config_labels'', object_database_public),
     (''config_names'', object_database_public),
     (''config_relationships'', object_catalog),
     (''config_scrapers_with_status'', object_monitor),
     (''config_scrapers'', object_database_settings),
     (''config_statuses'', object_database_public),
     (''config_summary'', object_catalog),
     (''config_tags'', object_database_public),
     (''config_tags_labels_keys'', object_database_public),
     (''component_labels_keys'', object_database_public),
     (''checks_labels_keys'', object_database_public),
     (''config_types'', object_database_public),
     (''configs'', object_catalog),
     (''connections_list'', object_database_public),
     (''connections'', object_connection),
     (''connection_details'', object_connection_detail),
     (''courier_message_dispatches'', object_auth_confidential),
     (''courier_messaged_dispatches'', object_auth_confidential),
     (''courier_messages'', object_auth_confidential),
     (''event_queue_summary'', object_monitor),
     (''event_queue'', object_database_system),
     (''evidences'', object_incident),
     (''failed_events'', object_monitor),
     (''hypotheses'', object_incident),
     (''identities'', object_database_public),
     (''identity_credential_identifiers'', object_auth_confidential),
     (''identity_credential_types'', object_auth_confidential),
     (''identity_credentials'', object_auth_confidential),
     (''identity_recovery_addresses'', object_auth_confidential),
     (''identity_recovery_codes'', object_auth_confidential),
     (''identity_recovery_tokens'', object_auth_confidential),
     (''identity_verifiable_addresses'', object_auth_confidential),
     (''identity_verification_codes'', object_auth_confidential),
     (''identity_verification_tokens'', object_auth_confidential),
     (''incident_histories'', object_incident),
     (''incident_relationships'', object_incident),
     (''incident_rules'', object_incident),
     (''incident_summary_by_component'', object_incident),
     (''incident_summary'', object_incident),
     (''incidents_by_component'', object_incident),
     (''incidents_by_config'', object_incident),
     (''incidents'', object_incident),
     (''integrations_with_status'', object_monitor),
     (''integrations'', object_monitor),
     (''invites'', object_auth),
     (''job_histories'', object_monitor),
     (''job_history_latest_status'', object_monitor),
     (''job_history_names'', object_monitor),
     (''job_history_summary'', object_monitor),
     (''job_history'', object_monitor),
     (''logging_backends'', object_database_settings),
     (''migration_logs'', object_database_system),
     (''networks'', object_auth_confidential),
     (''notification_send_history'', object_monitor),
     (''notification_send_history_resources'', object_monitor),
     (''notification_send_history_resource_tags'', object_monitor),
     (''notification_send_history_resource_types'', object_monitor),
     (''notification_send_history_summary'', object_monitor),
     (''rpc/notification_send_history_of_resource'', object_monitor),
     (''notifications_summary'', object_monitor),
     (''notifications'', object_notification),
     (''notification_groups'', object_notification),
     (''notification_group_resources'', object_notification),
     (''notification_silences'', object_notification),
     (''people_roles'', object_database_public),
     (''people'', object_people),
     (''person_analytics'', object_people),
     (''playbook_action_agent_data'', object_playbooks),
     (''playbook_approvals'', object_playbooks),
     (''playbook_names'', object_database_public),
     (''playbook_run_actions'', object_playbooks),
     (''playbook_runs'', object_playbooks),
     (''playbooks_for_agent'', object_agent_push),
     (''plugins'', object_catalog),
     (''rpc/get_playbook_run_actions'', object_playbooks),
     (''playbooks'', object_playbooks),
     (''properties'', object_database_system),
     (''push_queue_summary'', object_monitor),
     (''responders'', object_incident),
     (''rpc/lookup_component_config_id_related_components'', object_topology),
     (''rpc/_related_config_ids_recursive'', object_catalog),
     (''rpc/check_summary_for_component'', object_canary),
     (''rpc/config_relationships_recursive'', object_catalog),
     (''rpc/get_recursive_path'', object_catalog),
     (''rpc/lookup_analysis_by_component'', object_topology),
     (''rpc/lookup_changes_by_component'', object_topology),
     (''rpc/lookup_component_by_property'', object_topology),
     (''rpc/lookup_component_children'', object_topology),
     (''rpc/lookup_component_incidents'', object_topology),
     (''rpc/lookup_component_names'', object_topology),
     (''rpc/lookup_component_relations'', object_topology),
     (''rpc/lookup_components_by_check'', object_topology),
     (''rpc/lookup_components_by_config'', object_topology),
     (''rpc/lookup_config_children'', object_catalog),
     (''rpc/lookup_config_relations'', object_catalog),
     (''rpc/get_children_id_by_location'', object_catalog),
     (''rpc/get_children_by_location'', object_catalog),
     (''rpc/get_parent_ids_by_location'', object_catalog),
     (''rpc/get_parents_by_location'', object_catalog),
     (''rpc/lookup_configs_by_component'', object_topology),
     (''rpc/lookup_related_configs'', object_catalog),
     (''rpc/related_changes_recursive'', object_catalog),
     (''rpc/related_config_ids_recursive'', object_catalog),
     (''rpc/related_config_ids'', object_catalog),
     (''rpc/related_configs_recursive'', object_catalog),
     (''rpc/related_configs'', object_catalog),
     (''rpc/refresh_config_cost_summary'', object_database_system),
     (''rpc/merge_and_upsert_external_users'', object_database_system),
     (''rpc/merge_and_upsert_external_groups'', object_database_system),
     (''rpc/merge_and_upsert_external_roles'', object_database_system),
     (''rpc/add_external_user_alias'', object_catalog),
     (''rpc/remove_external_user_alias'', object_catalog),
     (''rpc/merge_external_users'', object_catalog),
     (''rpc/permissions_for_obj_selector'', object_database_system),
     (''rpc/soft_delete_canary'', object_canary),
     (''rpc/soft_delete_check'', object_canary),
     (''rpc/uuid_to_ulid'', object_database_public),
     (''saved_query'', object_database_public),
     (''schema_migration'', object_auth_confidential),
     (''scrape_plugins'', object_catalog),
     (''selfservice_errors'', object_auth_confidential),
     (''selfservice_login_flows'', object_auth_confidential),
     (''selfservice_recovery_flows'', object_auth_confidential),
     (''selfservice_registration_flows'', object_auth_confidential),
     (''selfservice_settings_flows'', object_auth_confidential),
     (''selfservice_verification_flows'', object_auth_confidential),
     (''session_devices'', object_auth_confidential),
     (''sessions'', object_auth_confidential),
     (''severities'', object_database_public),
     (''short_urls'', object_database_public),
     (''team_components'', object_database_public),
     (''team_members'', object_database_public),
     (''teams_with_status'', object_database_public),
     (''teams'', object_database_public),
     (''topologies_with_status'', object_topology),
     (''topologies'', object_topology),
     (''topology'', object_topology),
     (''oidc_auth_requests'', object_auth_confidential),
     (''oidc_public_keys'', object_auth_confidential),
     (''oidc_refresh_tokens'', object_auth_confidential),
     (''views'', object_views),
     (''view_panels'', object_views),
     (''views_summary'', object_views),
     (''permissions'', object_database_system),
     (''permission_groups'', object_database_system),
     (''permission_subjects'', object_database_system),
     (''permissions_summary'', object_database_system),
     (''permissions_group_summary'', object_database_system),
     (''scopes'', object_database_system),
     (''config_access_logs'', object_catalog),
     (''access_reviews'', object_catalog),
     (''config_access'', object_catalog),
     (''external_groups'', object_catalog),
     (''external_roles'', object_catalog),
     (''external_user_groups'', object_catalog),
     (''external_user_aliases'', object_database_system),
     (''external_users'', object_catalog)]"

definition get_object_by_table :: "string \<Rightarrow> string" where
  "get_object_by_table res =
     (if has_prefix ''view_'' res then object_views
      else case map_of db_resource_obj_map res of Some v \<Rightarrow> v | None \<Rightarrow> [])"

definition action_of_http_method :: "string \<Rightarrow> string" where
  "action_of_http_method method =
     (if method = ''GET'' then action_read
      else if method = ''PATCH'' then action_update
      else if method = ''POST'' then action_create
      else if method = ''DELETE'' then action_delete
      else [])"

subsection \<open>No table escapes the policies\<close>

lemma known_objects:
  "object_kubernetes_proxy \<in> set all_objects"
  "object_logs \<in> set all_objects"
  "object_agent \<in> set all_objects"
  "object_agent_push \<in> set all_objects"
  "object_artifact \<in> set all_objects"
  "object_auth \<in> set all_objects"
  "object_canary \<in> set all_objects"
  "object_catalog \<in> set all_objects"
  "object_application \<in> set all_objects"
  "object_connection \<in> set all_objects"
  "object_connection_detail \<in> set all_objects"
  "object_database \<in> set all_objects"
  "object_database_identity \<in> set all_objects"
  "object_auth_confidential \<in> set all_objects"
  "object_database_public \<in> set all_objects"
  "object_database_settings \<in> set all_objects"
  "object_database_system \<in> set all_objects"
  "object_incident \<in> set all_objects"
  "object_monitor \<in> set all_objects"
  "object_playbooks \<in> set all_objects"
  "object_rbac \<in> set all_objects"
  "object_topology \<in> set all_objects"
  "object_people \<in> set all_objects"
  "object_notification \<in> set all_objects"
  "object_views \<in> set all_objects"
  "object_mcp \<in> set all_objects"
  by (simp_all only: all_objects_def list.set insert_iff simp_thms)

lemma mapped_objects: "list_all (\<lambda>e. snd e \<in> set all_objects) db_resource_obj_map"
  by (simp only: db_resource_obj_map_def list.pred_inject snd_conv known_objects simp_thms)

lemma object_names_ne: "[] \<notin> set all_objects"
  by (simp add: all_objects_def object_names)

text \<open>The object of a table is one of the objects that policies name, or empty exactly when the table is
  neither mapped nor a generated view. An HTTP method gives one of the four row actions, which are
  all actions a review accepts, or nothing; so a request on an unmapped table or with another
  method is not authorised by any rule for a named object.\<close>

theorem table_objects_known:
  "(get_object_by_table t = [] \<longleftrightarrow> \<not> has_prefix ''view_'' t \<and> t \<notin> fst ` set db_resource_obj_map)
   \<and> (get_object_by_table t \<noteq> [] \<longrightarrow> get_object_by_table t \<in> set all_objects)
   \<and> (action_of_http_method m \<noteq> [] \<longrightarrow> action_of_http_method m \<in> set all_actions)
   \<and> (action_of_http_method m = [] \<longleftrightarrow> m \<notin> {''GET'', ''PATCH'', ''POST'', ''DELETE''})"
proof (intro conjI impI)
  have mapped: "v \<in> set all_objects" if "map_of db_resource_obj_map t = Some v" for v
    using mapped_objects map_of_SomeD [OF that] by (force simp: list_all_iff)
  have views: "object_views \<in> set all_objects" "object_views \<noteq> []" by (simp_all add: all_objects_def object_views_def)
  show "get_object_by_table t = [] \<longleftrightarrow> \<not> has_prefix ''view_'' t \<and> t \<notin> fst ` set db_resource_obj_map"
    using mapped object_names_ne views map_of_eq_None_iff [of db_resource_obj_map t]
    by (cases "map_of db_resource_obj_map t") (auto simp: get_object_by_table_def)
  show "get_object_by_table t \<in> set all_objects" if "get_object_by_table t \<noteq> []"
    using that mapped views by (auto simp: get_object_by_table_def split: option.splits if_splits)
qed (auto simp: action_of_http_method_def all_actions_def action_defs split: if_splits)

lemma table_objects_known_witness:
  "get_object_by_table ''access_token'' \<in> set all_objects \<and> action_of_http_method ''PUT'' = []"
proof -
  have known: "get_object_by_table t \<in> set all_objects \<and> action_of_http_method m = []"
    if "t \<in> fst ` set db_resource_obj_map" "m \<notin> {''GET'', ''PATCH'', ''POST'', ''DELETE''}" for t m
    using table_objects_known [of t m] that by blast
  show ?thesis
  proof (rule known)
    show "''access_token'' \<in> fst ` set db_resource_obj_map"
      unfolding db_resource_obj_map_def
      by (rule image_eqI [where f = fst], rule fst_conv [symmetric], rule list.set_intros(1))
  qed simp
qed

end
