(* ===== verification/Row_Security.thy ===== *)
theory Row_Security
  imports Duty_Prelude
begin

section \<open>Row level security\<close>

text \<open>
  \<^verbatim>\<open>rls/payload.go\<close>: the scopes of a user that are passed to the database, their claims, the fingerprint
  that stands for them in cache keys (\<open>queryTableWithResourceSelectors\<close> of
  \<^verbatim>\<open>query/resource_selector.go\<close>), and the statements that set them on a session. Hashing, JSON, the
  printing of a sorted map and the quoting of SQL literals are parameters.
\<close>

record rls_scope =
  sc_tags :: "(string, string) gomap"
  sc_agents :: "string list"
  sc_names :: "string list"
  sc_id :: string
  sc_deny :: bool

definition scope_is_empty :: "rls_scope \<Rightarrow> bool" where
  "scope_is_empty s \<longleftrightarrow> length (sc_tags s) = 0 \<and> length (sc_agents s) = 0 \<and> length (sc_names s) = 0 \<and> trim_space (sc_id s) = []"

definition truth_text :: "bool \<Rightarrow> string" where
  "truth_text b = (if b then ''true'' else ''false'')"

definition scope_data :: "((string, string) gomap \<Rightarrow> string) \<Rightarrow> rls_scope \<Rightarrow> string" where
  "scope_data sorted_map s =
     ''agents:'' @ join ''--'' (sort (sc_agents s)) @ '' | tags:'' @ sorted_map (sc_tags s)
     @ '' | names:'' @ join ''--'' (sort (sc_names s)) @ '' | id:'' @ trim_space (sc_id s) @ '' | deny:'' @ truth_text (sc_deny s)"

definition scope_fingerprint :: "(string \<Rightarrow> string) \<Rightarrow> ((string, string) gomap \<Rightarrow> string) \<Rightarrow> rls_scope \<Rightarrow> string" where
  "scope_fingerprint sha256 sorted_map s = ''scope::'' @ sha256 (scope_data sorted_map s)"

record rls_payload =
  rp_fingerprint :: string
  rp_config :: "rls_scope list"
  rp_component :: "rls_scope list"
  rp_playbook :: "rls_scope list"
  rp_canary :: "rls_scope list"
  rp_view :: "rls_scope list"
  rp_scopes :: "string list"
  rp_disable :: bool

datatype claim = ClaimFlag bool | ClaimScopes "rls_scope list" | ClaimIds "string list"

definition scope_claim :: "string \<Rightarrow> rls_scope list \<Rightarrow> (string \<times> claim) list" where
  "scope_claim k ss = (if length ss > 0 then [(k, ClaimScopes ss)] else [])"

definition jwt_claims :: "rls_payload \<Rightarrow> (string, claim) gomap" where
  "jwt_claims t =
     (if rp_disable t then [(''disable_rls'', ClaimFlag True)]
      else scope_claim ''config'' (rp_config t) @ scope_claim ''component'' (rp_component t)
        @ scope_claim ''playbook'' (rp_playbook t) @ scope_claim ''canary'' (rp_canary t)
        @ scope_claim ''view'' (rp_view t)
        @ (if length (rp_scopes t) > 0 then [(''scopes'', ClaimIds (rp_scopes t))] else []))"

fun scope_parts :: "(rls_scope \<Rightarrow> string) \<Rightarrow> rls_scope list \<Rightarrow> string list \<Rightarrow> string list" where
  "scope_parts fp [] parts = parts"
| "scope_parts fp (s # ss) parts =
     scope_parts fp ss (if \<not> scope_is_empty s then parts @ [fp s] else parts)"

definition eval_fingerprint :: "(string \<Rightarrow> string) \<Rightarrow> ((string, string) gomap \<Rightarrow> string) \<Rightarrow> rls_payload \<Rightarrow> rls_payload" where
  "eval_fingerprint sha256 sorted_map t =
     (if rp_disable t then t\<lparr>rp_fingerprint := ''disabled''\<rparr>
      else
        (let parts = foldl (\<lambda>parts ss. scope_parts (scope_fingerprint sha256 sorted_map) ss parts) []
               [rp_config t, rp_component t, rp_playbook t, rp_canary t, rp_view t];
             parts1 = (if length (rp_scopes t) > 0 then parts @ [join '','' (sort (rp_scopes t))] else parts)
         in if length parts1 = 0 then t\<lparr>rp_fingerprint := ''empty''\<rparr>
            else t\<lparr>rp_fingerprint := sha256 (join '' | '' (sort parts1))\<rparr>))"

definition payload_fingerprint :: "(string \<Rightarrow> string) \<Rightarrow> ((string, string) gomap \<Rightarrow> string) \<Rightarrow> rls_payload
    \<Rightarrow> string \<times> rls_payload" where
  "payload_fingerprint sha256 sorted_map t =
     (let t1 = (if rp_fingerprint t = [] then eval_fingerprint sha256 sorted_map t else t) in (rp_fingerprint t1, t1))"

text \<open>The key under which the rows of a selector are cached, for the user whose payload is given.\<close>

definition selector_cache_key :: "(string \<Rightarrow> string) \<Rightarrow> ((string, string) gomap \<Rightarrow> string) \<Rightarrow> string list \<Rightarrow> string \<Rightarrow> string
    \<Rightarrow> int \<Rightarrow> string \<Rightarrow> rls_payload option \<Rightarrow> string" where
  "selector_cache_key sha256 sorted_map columns table selector_hash limit type_name payload =
     join '','' (sort columns) @ ''-'' @ table @ ''-'' @ selector_hash @ ''-'' @ int_text limit @ ''-'' @ type_name
     @ (case payload of None \<Rightarrow> [] | Some p \<Rightarrow> ''-rls-'' @ fst (payload_fingerprint sha256 sorted_map p))"

subsection \<open>Setting the claims of a session\<close>

text \<open>The statements that were executed, and the error. \<open>exec\<close> is the database's answer to a statement.\<close>

definition set_session_rls :: "(rls_payload \<Rightarrow> string + string) \<Rightarrow> (string \<Rightarrow> string) \<Rightarrow> (string \<Rightarrow> string option)
    \<Rightarrow> bool \<Rightarrow> rls_payload \<Rightarrow> string list \<times> string option" where
  "set_session_rls marshal quote_literal exec local t =
     (case marshal t of
        Inl e \<Rightarrow> ([], Some (''failed to marshall to json: '' @ e))
      | Inr json \<Rightarrow>
          (let scope = (if local then ''LOCAL'' else []);
               set_role = ''SET '' @ scope @ '' ROLE postgrest_api'';
               set_claims = ''SET '' @ scope @ '' request.jwt.claims TO '' @ quote_literal json
           in case exec set_role of
                Some e \<Rightarrow> ([set_role], Some (''failed to set role: '' @ e))
              | None \<Rightarrow>
                  (case exec set_claims of
                     Some e \<Rightarrow> ([set_role, set_claims], Some (''failed to set RLS claims: '' @ e))
                   | None \<Rightarrow> ([set_role, set_claims], None))))"

subsection \<open>What a fingerprint stands for\<close>

definition all_scopes :: "rls_payload \<Rightarrow> rls_scope list" where
  "all_scopes t = rp_config t @ rp_component t @ rp_playbook t @ rp_canary t @ rp_view t"

lemma scope_parts_eq: "scope_parts fp ss parts = parts @ map fp (filter (\<lambda>s. \<not> scope_is_empty s) ss)"
  by (induction ss arbitrary: parts) auto

lemma eval_fingerprint_eq:
  "rp_fingerprint (eval_fingerprint sha256 sorted_map t) =
     (if rp_disable t then ''disabled''
      else (let parts = map (scope_fingerprint sha256 sorted_map) (filter (\<lambda>s. \<not> scope_is_empty s) (all_scopes t))
              @ (if rp_scopes t \<noteq> [] then [join '','' (sort (rp_scopes t))] else [])
            in if parts = [] then ''empty'' else sha256 (join '' | '' (sort parts))))"
proof -
  let ?fp = "scope_fingerprint sha256 sorted_map"
  have "foldl (\<lambda>parts ss. scope_parts ?fp ss parts) [] [rp_config t, rp_component t, rp_playbook t, rp_canary t, rp_view t]
      = map ?fp (filter (\<lambda>s. \<not> scope_is_empty s) (all_scopes t))"
    by (simp add: scope_parts_eq all_scopes_def)
  then show ?thesis by (simp add: eval_fingerprint_def Let_def del: foldl.simps)
qed

lemma sort_mset: "mset xs = mset ys \<Longrightarrow> sort xs = (sort ys :: 'a::linorder list)"
  by (metis properties_for_sort sorted_sort mset_sort)

text \<open>a fingerprint does not depend on the order of the scopes or ids, and neither does it tell the kinds of
  resources apart: two payloads whose scopes together are the same have one fingerprint, and so one
  cache entry, whichever kinds the scopes are for. Their claims differ: a user whose scope is for
  configs reads the rows that were cached for a user who has the same scope for components.\<close>

theorem fingerprint_ignores_kind:
  assumes "mset (all_scopes t) = mset (all_scopes u)" "mset (rp_scopes t) = mset (rp_scopes u)"
    and "rp_disable t = rp_disable u" "rp_fingerprint t = []" "rp_fingerprint u = []"
  shows "fst (payload_fingerprint sha256 sorted_map t) = fst (payload_fingerprint sha256 sorted_map u)
    \<and> selector_cache_key sha256 sorted_map cols tbl h limit ty (Some t) = selector_cache_key sha256 sorted_map cols tbl h limit ty (Some u)"
proof -
  define parts where "parts p = map (scope_fingerprint sha256 sorted_map) (filter (\<lambda>s. \<not> scope_is_empty s) (all_scopes p))
    @ (if rp_scopes p \<noteq> [] then [join '','' (sort (rp_scopes p))] else [])" for p
  have ids: "sort (rp_scopes t) = sort (rp_scopes u)" "rp_scopes t = [] \<longleftrightarrow> rp_scopes u = []"
    using assms(2) sort_mset by (auto dest: mset_eq_length)
  have "mset (map f (filter P (all_scopes t))) = mset (map f (filter P (all_scopes u)))" for f :: "rls_scope \<Rightarrow> string" and P
    using assms(1) by simp
  then have m: "mset (parts t) = mset (parts u)" by (simp add: parts_def ids)
  have "sort (parts t) = sort (parts u)" "parts t = [] \<longleftrightarrow> parts u = []"
    using sort_mset [OF m] m by (auto dest: mset_eq_length)
  then have "rp_fingerprint (eval_fingerprint sha256 sorted_map t) = rp_fingerprint (eval_fingerprint sha256 sorted_map u)"
    unfolding eval_fingerprint_eq parts_def [symmetric] Let_def assms(3) by simp
  then show ?thesis
    using assms(4,5) by (simp add: payload_fingerprint_def selector_cache_key_def Let_def)
qed

definition no_payload :: rls_payload where
  "no_payload = \<lparr>rp_fingerprint = [], rp_config = [], rp_component = [], rp_playbook = [], rp_canary = [],
     rp_view = [], rp_scopes = [], rp_disable = False\<rparr>"

definition named_scope :: "string list \<Rightarrow> rls_scope" where
  "named_scope ns = \<lparr>sc_tags = [], sc_agents = [], sc_names = ns, sc_id = [], sc_deny = False\<rparr>"

lemma fingerprint_ignores_kind_witness:
  "fst (payload_fingerprint rev (\<lambda>_. []) (no_payload\<lparr>rp_config := [named_scope [''web'']]\<rparr>))
     = fst (payload_fingerprint rev (\<lambda>_. []) (no_payload\<lparr>rp_component := [named_scope [''web'']]\<rparr>))
   \<and> jwt_claims (no_payload\<lparr>rp_config := [named_scope [''web'']]\<rparr>) \<noteq> jwt_claims (no_payload\<lparr>rp_component := [named_scope [''web'']]\<rparr>)"
  using fingerprint_ignores_kind [of "no_payload\<lparr>rp_config := [named_scope [''web'']]\<rparr>"
      "no_payload\<lparr>rp_component := [named_scope [''web'']]\<rparr>" rev "\<lambda>_. []"]
  by (simp add: no_payload_def all_scopes_def jwt_claims_def scope_claim_def)

text \<open>The names of a scope are joined without quoting, so a name can imitate two.\<close>

lemma names_run_together:
  "scope_fingerprint sha256 sorted_map (named_scope [''a--b'']) = scope_fingerprint sha256 sorted_map (named_scope [''a'', ''b''])"
proof -
  have "sort [''a'', ''b''] = [''a'', ''b'']" by code_simp
  then show ?thesis by (simp add: scope_fingerprint_def scope_data_def named_scope_def)
qed

text \<open>The fingerprint is computed once: it does not follow later changes of the payload.\<close>

lemma fingerprint_cached:
  assumes "payload_fingerprint sha256 sorted_map t = (f, t1)" "f \<noteq> []"
  shows "fst (payload_fingerprint sha256 sorted_map (t1\<lparr>rp_config := ss\<rparr>)) = f"
  using assms by (auto simp: payload_fingerprint_def Let_def split: if_splits)

text \<open>The claims are set only after the role, and no error is lost.\<close>

lemma session_role_first:
  assumes "set_session_rls marshal quote_literal exec local t = (done_stmts, err)"
  shows "(err = None \<longleftrightarrow> length done_stmts = 2 \<and> list_all (\<lambda>s. exec s = None) done_stmts)
    \<and> (length done_stmts = 2 \<longrightarrow> exec (hd done_stmts) = None)"
  using assms by (auto simp: set_session_rls_def Let_def split: sum.splits option.splits)

end
