(* ===== verification/Log_Lines.thy ===== *)
theory Log_Lines
  imports Duty_Prelude
begin

section \<open>Log lines\<close>

text \<open>
  \<^verbatim>\<open>logs/logs.go\<close>, \<^verbatim>\<open>logs/config.go\<close> and \<^verbatim>\<open>logs/mapping.go\<close>: a log line, the keys it is grouped and
  deduplicated by, grouping with the labels all lines of a group share, and the mapping of decoded
  fields to a line. The lines of a result are separate objects, so changing one is replacing it in
  its list. The two Go variables of a loop that collects by key, a map and the order in which its
  keys were first seen, are one association list in that order. Times are numbers of nanoseconds.
  The tokenizer, the parsing of times and the texts of JSON values are parameters.
\<close>

record log_line =
  ll_id :: string
  ll_first :: int
  ll_last :: "int option"
  ll_count :: int
  ll_message :: string
  ll_hash :: string
  ll_severity :: string
  ll_source :: string
  ll_host :: string
  ll_labels :: "(string, string) gomap option"

definition line_labels :: "log_line \<Rightarrow> (string, string) gomap" where
  "line_labels t = (case ll_labels t of None \<Rightarrow> [] | Some m \<Rightarrow> m)"

definition label_at :: "log_line \<Rightarrow> string \<Rightarrow> string" where
  "label_at t k = (case map_of (line_labels t) k of None \<Rightarrow> [] | Some v \<Rightarrow> v)"

definition set_hash :: "(string \<Rightarrow> string) \<Rightarrow> log_line \<Rightarrow> log_line" where
  "set_hash tokenize t = t\<lparr>ll_hash := tokenize (ll_message t)\<rparr>"

definition default_message_fields :: "string list" where
  "default_message_fields = [''msg'', ''message'']"

fun first_message :: "log_line \<Rightarrow> string list \<Rightarrow> string" where
  "first_message t [] = []"
| "first_message t (f # fs) = (if label_at t f \<noteq> [] then label_at t f else first_message t fs)"

definition effective_message :: "log_line \<Rightarrow> string list \<Rightarrow> string" where
  "effective_message t message_fields =
     (if ll_message t \<noteq> [] then ll_message t
      else if ll_labels t = None then []
      else first_message t (if message_fields = [] then default_message_fields else message_fields))"

definition get_field_value :: "log_line \<Rightarrow> string \<Rightarrow> string list \<Rightarrow> string" where
  "get_field_value t field message_fields =
     (if field = ''message'' then ''msg::'' @ effective_message t message_fields
      else if field = ''hash'' then ''hash::'' @ ll_hash t
      else if field = ''severity'' then ''severity::'' @ ll_severity t
      else if field = ''source'' then ''source::'' @ ll_source t
      else if field = ''host'' then ''host::'' @ ll_host t
      else if field = ''firstObserved'' then ''firstObserved::'' @ int_text (ll_first t)
      else if field = ''lastObserved'' then
        (case ll_last t of None \<Rightarrow> ''lastObserved::unknown'' | Some n \<Rightarrow> ''lastObserved::'' @ int_text n)
      else if field = ''count'' then ''count::'' @ int_text (ll_count t)
      else if field = ''id'' then ''id::'' @ ll_id t
      else
        (let label_key = (if has_prefix ''label.'' field then trim_prefix ''label.'' field else field) in
         if ll_labels t = None then ''label.'' @ label_key @ ''=unknown''
         else ''label.'' @ label_key @ ''='' @ label_at t label_key))"

definition get_field_key :: "log_line \<Rightarrow> string list \<Rightarrow> string list \<Rightarrow> string" where
  "get_field_key t fs message_fields =
     (if fs = [] then []
      else join [CHR 0x00] (map (\<lambda>f. get_field_value t f message_fields) fs))"

subsection \<open>Deduplication\<close>

definition fold_line :: "log_line \<Rightarrow> log_line \<Rightarrow> log_line" where
  "fold_line existing t =
     (let e1 = existing\<lparr>ll_count := ll_count existing + ll_count t\<rparr>;
          e2 = (if ll_first t < ll_first e1 then e1\<lparr>ll_first := ll_first t\<rparr> else e1)
      in case ll_last t of
           None \<Rightarrow> e2
         | Some n \<Rightarrow> if (case ll_last e2 of None \<Rightarrow> True | Some m \<Rightarrow> n > m) then e2\<lparr>ll_last := Some n\<rparr> else e2)"

fun dedup_into :: "string \<Rightarrow> log_line \<Rightarrow> (string \<times> log_line) list \<Rightarrow> (string \<times> log_line) list" where
  "dedup_into key line [] = [(key, line)]"
| "dedup_into key line ((k, e) # seen) =
     (if k = key then (k, fold_line e line) # seen else (k, e) # dedup_into key line seen)"

definition dedup_logs :: "log_line list \<Rightarrow> string list \<Rightarrow> log_line list" where
  "dedup_logs lines dedup_by =
     (if dedup_by = [] \<or> lines = [] then lines
      else map snd (foldl (\<lambda>seen line. dedup_into (get_field_key line dedup_by []) line seen) [] lines))"

subsection \<open>Grouping\<close>

record log_group =
  lg_labels :: "(string, string) gomap option"
  lg_logs :: "log_line list"

record log_result =
  lr_logs :: "log_line list"
  lr_groups :: "log_group list"

record field_mapping =
  fm_id :: "string list"
  fm_message :: "string list"
  fm_timestamp :: "string list"
  fm_host :: "string list"
  fm_severity :: "string list"
  fm_source :: "string list"
  fm_ignore :: "string list"
  fm_group_by :: "string list"
  fm_dedup_by :: "string list"

definition with_defaults :: "field_mapping \<Rightarrow> field_mapping \<Rightarrow> field_mapping" where
  "with_defaults c d =
     \<lparr>fm_id = (if fm_id c = [] then fm_id d else fm_id c),
      fm_message = (if fm_message c = [] then fm_message d else fm_message c),
      fm_timestamp = (if fm_timestamp c = [] then fm_timestamp d else fm_timestamp c),
      fm_host = (if fm_host c = [] then fm_host d else fm_host c),
      fm_severity = (if fm_severity c = [] then fm_severity d else fm_severity c),
      fm_source = (if fm_source c = [] then fm_source d else fm_source c),
      fm_ignore = (if fm_ignore c = [] then fm_ignore d else fm_ignore c),
      fm_group_by = (if fm_group_by c = [] then fm_group_by d else fm_group_by c),
      fm_dedup_by = (if fm_dedup_by c = [] then fm_dedup_by d else fm_dedup_by c)\<rparr>"

definition mapping_empty :: "field_mapping \<Rightarrow> bool" where
  "mapping_empty c \<longleftrightarrow> fm_id c = [] \<and> fm_message c = [] \<and> fm_timestamp c = [] \<and> fm_severity c = []
     \<and> fm_source c = [] \<and> fm_ignore c = [] \<and> fm_host c = [] \<and> fm_group_by c = [] \<and> fm_dedup_by c = []"

text \<open>One line after the first: the entries of \<open>common\<close> that it does not have are deleted.\<close>

definition keep_common :: "(string, string) gomap \<Rightarrow> log_line \<Rightarrow> (string, string) gomap" where
  "keep_common common line = filter (\<lambda>(k, v). map_of (line_labels line) k = Some v) common"

fun common_loop :: "(string, string) gomap \<Rightarrow> log_line list \<Rightarrow> (string, string) gomap" where
  "common_loop common [] = common"
| "common_loop common (line # lines) =
     (let c = keep_common common line in if c = [] then [] else common_loop c lines)"

definition find_common_labels :: "log_line list \<Rightarrow> (string, string) gomap option" where
  "find_common_labels lines =
     (case lines of [] \<Rightarrow> None | l # ls \<Rightarrow> Some (common_loop (line_labels l) ls))"

definition drop_labels :: "(string, string) gomap option \<Rightarrow> log_line \<Rightarrow> log_line" where
  "drop_labels common line =
     (case (common, ll_labels line) of
        (Some c, Some m) \<Rightarrow> line\<lparr>ll_labels := Some (filter (\<lambda>(k, v). k \<notin> fst ` set c) m)\<rparr>
      | _ \<Rightarrow> line)"

fun add_to_group :: "string \<Rightarrow> log_line \<Rightarrow> (string \<times> log_line list) list \<Rightarrow> (string \<times> log_line list) list" where
  "add_to_group key line [] = [(key, [line])]"
| "add_to_group key line ((k, ls) # gs) =
     (if k = key then (k, ls @ [line]) # gs else (k, ls) # add_to_group key line gs)"

definition make_group :: "string list \<Rightarrow> log_line list \<Rightarrow> log_group" where
  "make_group dedup_by lines =
     (let common = find_common_labels lines in
      \<lparr>lg_labels = common, lg_logs = dedup_logs (map (drop_labels common) lines) dedup_by\<rparr>)"

definition group_logs :: "log_result \<Rightarrow> field_mapping \<Rightarrow> log_result" where
  "group_logs result config =
     (if lr_logs result = [] then result
      else if fm_group_by config = [] then result\<lparr>lr_logs := dedup_logs (lr_logs result) (fm_dedup_by config)\<rparr>
      else
        (let groups = foldl (\<lambda>gs line. add_to_group (get_field_key line (fm_group_by config) []) line gs) [] (lr_logs result)
         in result\<lparr>lr_groups := map (\<lambda>(k, ls). make_group (fm_dedup_by config) ls) groups, lr_logs := []\<rparr>))"

subsection \<open>Mapping fields\<close>

text \<open>A decoded value: null, an object in the order it is iterated, or anything else, a string among
  them. \<open>stringify\<close> and \<open>sprint\<close> give the texts of the last kind.\<close>

datatype 'o field_value = FieldNull | FieldMap "(string \<times> 'o field_value) list" | FieldString string | FieldOther 'o

fun flat_map :: "('o field_value \<Rightarrow> string + string) \<Rightarrow> ('o field_value \<Rightarrow> string) \<Rightarrow> string \<Rightarrow> 'o field_value
    \<Rightarrow> (string, string) gomap"
  and flat_entries :: "('o field_value \<Rightarrow> string + string) \<Rightarrow> ('o field_value \<Rightarrow> string) \<Rightarrow> string
    \<Rightarrow> (string \<times> 'o field_value) list \<Rightarrow> (string, string) gomap \<Rightarrow> (string, string) gomap" where
  "flat_map stringify sprint_value prefix FieldNull = []"
| "flat_map stringify sprint_value prefix (FieldMap es) = flat_entries stringify sprint_value prefix es []"
| "flat_map stringify sprint_value prefix v =
     [(prefix, case stringify v of Inr s \<Rightarrow> s | Inl e \<Rightarrow> sprint_value v)]"
| "flat_entries stringify sprint_value prefix [] m = m"
| "flat_entries stringify sprint_value prefix ((k, v) # es) m =
     flat_entries stringify sprint_value prefix es
       (foldl (\<lambda>m (sub_k, sub_v). AList.update (if prefix = [] then sub_k else prefix @ ''.'' @ sub_k) sub_v m) m
          (flat_map stringify sprint_value k v))"

definition as_string :: "'o field_value \<Rightarrow> string option" where
  "as_string v = (case v of FieldString s \<Rightarrow> Some s | _ \<Rightarrow> None)"

definition set_text :: "(string \<Rightarrow> log_line \<Rightarrow> log_line) \<Rightarrow> 'o field_value \<Rightarrow> log_line \<Rightarrow> log_line" where
  "set_text put v line = (case as_string v of None \<Rightarrow> line | Some s \<Rightarrow> put s line)"

text \<open>\<open>utils.Stringify\<close> of a string is that string.\<close>

definition map_field :: "('o field_value \<Rightarrow> string + string) \<Rightarrow> ('o field_value \<Rightarrow> string) \<Rightarrow> (string \<Rightarrow> int option)
    \<Rightarrow> field_mapping \<Rightarrow> string \<Rightarrow> 'o field_value \<Rightarrow> log_line \<Rightarrow> log_line" where
  "map_field stringify sprint_value parse_time config key v line =
     (if key \<in> set (fm_ignore config) then line
      else if key \<in> set (fm_id config) then set_text (\<lambda>s. ll_id_update (\<lambda>_. s)) v line
      else if key \<in> set (fm_message config) then set_text (\<lambda>s. ll_message_update (\<lambda>_. s)) v line
      else if key \<in> set (fm_timestamp config) then
        (case parse_time (sprint_value v) of None \<Rightarrow> line | Some t \<Rightarrow> line\<lparr>ll_first := t\<rparr>)
      else if key \<in> set (fm_severity config) then set_text (\<lambda>s. ll_severity_update (\<lambda>_. s)) v line
      else if key \<in> set (fm_source config) then set_text (\<lambda>s. ll_source_update (\<lambda>_. s)) v line
      else if key \<in> set (fm_host config) then set_text (\<lambda>s. ll_host_update (\<lambda>_. s)) v line
      else line\<lparr>ll_labels := Some (merge_maps (line_labels line) (flat_map stringify sprint_value key v))\<rparr>)"

subsection \<open>Keys in the order they are first seen\<close>

definition first_seen :: "'a list \<Rightarrow> 'a list" where
  "first_seen xs = rev (remdups (rev xs))"

lemma first_seen_snoc: "first_seen (xs @ [x]) = (if x \<in> set xs then first_seen xs else first_seen xs @ [x])"
  by (simp add: first_seen_def)

lemma first_seen_simps [simp]: "first_seen [] = []" "set (first_seen xs) = set xs" "distinct (first_seen xs)"
  by (simp_all add: first_seen_def)

text \<open>A loop that adds to the entry of a key or makes one at the end computes, for each key in the order
  it is first seen, the value of all its lines.\<close>

lemma collect_by_key:
  assumes new: "\<And>k l. ins k l [] = [(k, start l)]"
    and old: "\<And>k l k' e es. ins k l ((k', e) # es) = (if k' = k then (k', step e l) # es else (k', e) # ins k l es)"
    and one: "\<And>l. gather [l] = start l" and more: "\<And>ls l. ls \<noteq> [] \<Longrightarrow> gather (ls @ [l]) = step (gather ls) l"
  shows "foldl (\<lambda>es l. ins (key l) l es) [] ls
    = map (\<lambda>k. (k, gather (filter (\<lambda>l. key l = k) ls))) (first_seen (map key ls))"
proof (induction ls rule: rev_induct)
  case (snoc l ls)
  have ins_map: "ins k l (map (\<lambda>k. (k, f k)) ks)
      = (if k \<in> set ks then map (\<lambda>k'. (k', if k' = k then step (f k') l else f k')) ks
         else map (\<lambda>k. (k, f k)) ks @ [(k, start l)])" if "distinct ks" for k f ks
    using that by (induction ks) (auto simp: new old intro!: map_cong)
  have same: "filter (\<lambda>x. key x = k) (ls @ [l]) = (if k = key l then filter (\<lambda>x. key x = k) ls @ [l] else filter (\<lambda>x. key x = k) ls)" for k
    by simp
  have none: "filter (\<lambda>x. key x = key l) ls = []" if "key l \<notin> key ` set ls"
    using that by (fastforce simp: filter_empty_conv image_iff)
  have some: "filter (\<lambda>x. key x = key l) ls \<noteq> []" if "key l \<in> key ` set ls"
    using that by (auto simp: filter_empty_conv)
  show ?case
  proof (cases "key l \<in> key ` set ls")
    case True
    then show ?thesis
      using snoc more [OF some [OF True]] by (auto simp: ins_map first_seen_snoc intro!: map_cong)
  next
    case False
    then show ?thesis
      using snoc none [OF False] by (auto simp: ins_map first_seen_snoc one intro!: map_cong)
  qed
qed simp

definition merged :: "log_line list \<Rightarrow> log_line" where
  "merged ls = foldl fold_line (hd ls) (tl ls)"

lemma merged_snoc: "ls \<noteq> [] \<Longrightarrow> merged (ls @ [l]) = fold_line (merged ls) l"
  by (cases ls) (simp_all add: merged_def)

lemma dedup_logs_eq:
  assumes "dedup_by \<noteq> []"
  shows "dedup_logs lines dedup_by = map (\<lambda>k. merged (filter (\<lambda>l. get_field_key l dedup_by [] = k) lines))
    (first_seen (map (\<lambda>l. get_field_key l dedup_by []) lines))"
proof -
  have "foldl (\<lambda>seen line. dedup_into (get_field_key line dedup_by []) line seen) [] lines
      = map (\<lambda>k. (k, merged (filter (\<lambda>l. get_field_key l dedup_by [] = k) lines)))
          (first_seen (map (\<lambda>l. get_field_key l dedup_by []) lines))"
    by (rule collect_by_key [where start = id and step = fold_line]) (simp_all add: merged_snoc, simp add: merged_def)
  then show ?thesis using assms by (simp add: dedup_logs_def comp_def)
qed

lemma fold_line_fields:
  "ll_count (fold_line e t) = ll_count e + ll_count t"
  "ll_first (fold_line e t) = min (ll_first e) (ll_first t)"
  "ll_last (fold_line e t) = (case (ll_last e, ll_last t) of
     (None, y) \<Rightarrow> y | (x, None) \<Rightarrow> x | (Some m, Some n) \<Rightarrow> Some (max m n))"
  "ll_message (fold_line e t) = ll_message e" "ll_labels (fold_line e t) = ll_labels e"
  "ll_id (fold_line e t) = ll_id e"
  by (auto simp: fold_line_def Let_def split: option.splits)

lemma merged_fields:
  assumes "ls \<noteq> []"
  shows "ll_count (merged ls) = (\<Sum>l\<leftarrow>ls. ll_count l)"
    and "ll_first (merged ls) = Min (ll_first ` set ls)"
    and "ll_last (merged ls) = (if \<forall>l \<in> set ls. ll_last l = None then None
      else Some (Max {n. \<exists>l \<in> set ls. ll_last l = Some n}))"
    and "ll_message (merged ls) = ll_message (hd ls)" "ll_labels (merged ls) = ll_labels (hd ls)"
proof -
  have fin: "finite {n. \<exists>l \<in> set ls. ll_last l = Some n}" for ls
    by (rule finite_subset [of _ "(\<lambda>l. the (ll_last l)) ` set ls"]) force+
  have "ll_count (merged ls) = (\<Sum>l\<leftarrow>ls. ll_count l) \<and> ll_first (merged ls) = Min (ll_first ` set ls)
      \<and> ll_last (merged ls) = (if \<forall>l \<in> set ls. ll_last l = None then None
           else Some (Max {n. \<exists>l \<in> set ls. ll_last l = Some n}))
      \<and> ll_message (merged ls) = ll_message (hd ls) \<and> ll_labels (merged ls) = ll_labels (hd ls)"
    using assms
  proof (induction ls rule: rev_induct)
    case (snoc l ls)
    show ?case
    proof (cases "ls = []")
      case True
      have "{n. ll_last l = Some n} = {the (ll_last l)}" if "ll_last l \<noteq> None" using that by auto
      then show ?thesis using True by (auto simp: merged_def)
    next
      case False
      have ext: "{n. \<exists>x \<in> set (ls @ [l]). ll_last x = Some n}
          = (case ll_last l of None \<Rightarrow> {n. \<exists>x \<in> set ls. ll_last x = Some n}
             | Some m \<Rightarrow> insert m {n. \<exists>x \<in> set ls. ll_last x = Some n})"
        by (auto split: option.split)
      have last: "ll_last (merged (ls @ [l])) = (if \<forall>x \<in> set (ls @ [l]). ll_last x = None then None
          else Some (Max {n. \<exists>x \<in> set (ls @ [l]). ll_last x = Some n}))"
      proof (cases "\<forall>x \<in> set ls. ll_last x = None")
        case True
        then have "{n. \<exists>x \<in> set ls. ll_last x = Some n} = {}" by simp
        then show ?thesis
          using snoc.IH [OF False] True by (auto simp: merged_snoc [OF False] fold_line_fields ext split: option.split)
      next
        case none: False
        let ?A = "{n. \<exists>x \<in> set ls. ll_last x = Some n}"
        have "?A \<noteq> {}" using none by auto
        then have ins: "Max (insert m ?A) = max m (Max ?A)" for m by (rule Max_insert [OF fin])
        have old: "ll_last (merged ls) = Some (Max ?A)" using snoc.IH [OF False] none by (simp del: ball_simps)
        have some: "\<not> (\<forall>x \<in> set (ls @ [l]). ll_last x = None)" using none by simp
        show ?thesis
        proof (cases "ll_last l")
          case None
          then show ?thesis by (simp only: merged_snoc [OF False] fold_line_fields old some ext option.case prod.case if_False)
        next
          case (Some m)
          then show ?thesis
            by (simp only: merged_snoc [OF False] fold_line_fields old some ext option.case prod.case if_False ins max.commute)
        qed
      qed
      then show ?thesis
        using snoc.IH [OF False] False
        by (simp add: merged_snoc [OF False] fold_line_fields min.commute)
    qed
  qed simp
  then show "ll_count (merged ls) = (\<Sum>l\<leftarrow>ls. ll_count l)" "ll_first (merged ls) = Min (ll_first ` set ls)"
    "ll_last (merged ls) = (if \<forall>l \<in> set ls. ll_last l = None then None
      else Some (Max {n. \<exists>l \<in> set ls. ll_last l = Some n}))"
    "ll_message (merged ls) = ll_message (hd ls)" "ll_labels (merged ls) = ll_labels (hd ls)" by blast+
qed

lemma sum_by_key:
  fixes f :: "'a \<Rightarrow> int"
  assumes "distinct ks" and "key ` set ls \<subseteq> set ks"
  shows "(\<Sum>k\<leftarrow>ks. \<Sum>l\<leftarrow>filter (\<lambda>l. key l = k) ls. f l) = (\<Sum>l\<leftarrow>ls. f l)"
  using assms(2)
proof (induction ls)
  case (Cons l ls)
  have "(\<Sum>k\<leftarrow>ks. \<Sum>x\<leftarrow>filter (\<lambda>x. key x = k) (l # ls). f x)
      = (\<Sum>k\<leftarrow>ks. (if key l = k then f l else 0) + (\<Sum>x\<leftarrow>filter (\<lambda>x. key x = k) ls. f x))"
    by (intro arg_cong [where f = sum_list] map_cong) auto
  also have "\<dots> = (\<Sum>k\<leftarrow>ks. if key l = k then f l else 0) + (\<Sum>x\<leftarrow>ls. f x)"
    using Cons by (simp add: sum_list_addf)
  also have "(\<Sum>k\<leftarrow>ks. if key l = k then f l else 0) = f l"
    using Cons.prems by (simp add: sum_list_distinct_conv_sum_set assms(1))
  finally show ?case by simp
qed simp

definition same_key :: "string list \<Rightarrow> log_line list \<Rightarrow> string \<Rightarrow> log_line list" where
  "same_key by lines k = filter (\<lambda>l. get_field_key l by [] = k) lines"

lemma same_key_nonempty: "k \<in> set (first_seen (map (\<lambda>l. get_field_key l by []) lines)) \<Longrightarrow> same_key by lines k \<noteq> []"
  by (auto simp: same_key_def filter_empty_conv)

text \<open>C32: Deduplication leaves one line for each key, in the order the keys are first seen. It is the first
  line of its key, with the counts of all of them added up, the earliest first and the latest last
  observation; the counts of the result add up to those of the input.
\<close>

theorem dedup_logs_correct:
  assumes "dedup_by \<noteq> []"
  shows "let ks = first_seen (map (\<lambda>l. get_field_key l dedup_by []) lines); out = dedup_logs lines dedup_by
    in length out = length ks
       \<and> (\<forall>i < length ks. let ls = same_key dedup_by lines (ks ! i); r = out ! i
            in ls \<noteq> [] \<and> ll_count r = (\<Sum>l\<leftarrow>ls. ll_count l) \<and> ll_first r = Min (ll_first ` set ls)
               \<and> ll_last r = (if \<forall>l \<in> set ls. ll_last l = None then None
                    else Some (Max {n. \<exists>l \<in> set ls. ll_last l = Some n}))
               \<and> ll_message r = ll_message (hd ls) \<and> ll_labels r = ll_labels (hd ls))
       \<and> (\<Sum>l\<leftarrow>out. ll_count l) = (\<Sum>l\<leftarrow>lines. ll_count l)"
proof -
  define ks where "ks = first_seen (map (\<lambda>l. get_field_key l dedup_by []) lines)"
  have out: "dedup_logs lines dedup_by = map (\<lambda>k. merged (same_key dedup_by lines k)) ks"
    using dedup_logs_eq [OF assms] by (simp add: ks_def same_key_def)
  have nonempty: "same_key dedup_by lines k \<noteq> []" if "k \<in> set ks" for k
    using same_key_nonempty that by (simp add: ks_def)
  have "(\<Sum>l\<leftarrow>dedup_logs lines dedup_by. ll_count l) = (\<Sum>k\<leftarrow>ks. \<Sum>l\<leftarrow>same_key dedup_by lines k. ll_count l)"
    unfolding out map_map comp_def
    by (intro arg_cong [where f = sum_list] map_cong) (simp_all add: merged_fields(1) nonempty)
  also have "\<dots> = (\<Sum>l\<leftarrow>lines. ll_count l)"
    unfolding same_key_def by (rule sum_by_key) (auto simp: ks_def)
  finally show ?thesis
    unfolding Let_def ks_def [symmetric] by (simp add: out nonempty merged_fields [OF nonempty])
qed

definition sample_line :: "string \<Rightarrow> int \<Rightarrow> (string, string) gomap \<Rightarrow> log_line" where
  "sample_line msg at labels =
     \<lparr>ll_id = [], ll_first = at, ll_last = Some at, ll_count = 1, ll_message = msg, ll_hash = [],
      ll_severity = [], ll_source = [], ll_host = [], ll_labels = Some labels\<rparr>"

definition sample_lines :: "log_line list" where
  "sample_lines =
     [sample_line ''up'' 5 [(''app'', ''a''), (''pod'', ''p'')],
      sample_line ''down'' 7 [(''app'', ''a''), (''pod'', ''q'')],
      sample_line ''up'' 3 [(''app'', ''a''), (''pod'', ''p'')]]"

theorem dedup_logs_correct_witness:
  "length (dedup_logs sample_lines [''message'']) = 2
   \<and> (\<Sum>l\<leftarrow>dedup_logs sample_lines [''message'']. ll_count l) = 3"
proof -
  have ks: "first_seen (map (\<lambda>l. get_field_key l [''message''] []) sample_lines) = [''msg::up'', ''msg::down'']"
    by code_simp
  have "(\<Sum>l\<leftarrow>sample_lines. ll_count l) = 3" by code_simp
  then show ?thesis
    using dedup_logs_correct [where dedup_by = "[''message'']" and lines = sample_lines] by (simp add: Let_def ks)
qed

lemma keep_common_iff:
  "(k, v) \<in> set (keep_common common line) \<longleftrightarrow> (k, v) \<in> set common \<and> map_of (line_labels line) k = Some v"
  by (auto simp: keep_common_def)

lemma common_loop_iff:
  "(k, v) \<in> set (common_loop common lines)
   \<longleftrightarrow> (k, v) \<in> set common \<and> (\<forall>l \<in> set lines. map_of (line_labels l) k = Some v)"
proof (induction lines arbitrary: common)
  case (Cons line lines)
  show ?case
  proof (cases "keep_common common line = []")
    case True
    then have "\<not> ((k, v) \<in> set common \<and> map_of (line_labels line) k = Some v)"
      by (simp only: keep_common_iff [symmetric] list.set empty_iff not_False_eq_True)
    then show ?thesis using True by (auto simp: Let_def)
  next
    case False
    then show ?thesis using Cons by (auto simp: Let_def keep_common_iff)
  qed
qed simp

lemma common_loop_ok: "gomap_ok common \<Longrightarrow> gomap_ok (common_loop common lines)"
proof (induction lines arbitrary: common)
  case (Cons line lines)
  then show ?case
    by (auto simp: Let_def keep_common_def gomap_ok_def intro: distinct_map_filter)
qed simp

lemma common_labels:
  assumes "ls \<noteq> []" and ok: "\<forall>l \<in> set ls. gomap_ok (line_labels l)"
  obtains common where "find_common_labels ls = Some common"
    and "\<And>k v. map_of common k = Some v \<longleftrightarrow> (\<forall>l \<in> set ls. map_of (line_labels l) k = Some v)"
proof -
  obtain l ls' where ls: "ls = l # ls'" using assms(1) by (cases ls) auto
  have oks: "gomap_ok (line_labels l)" "gomap_ok (common_loop (line_labels l) ls')"
    using ok by (auto simp: ls intro: common_loop_ok)
  have "map_of (common_loop (line_labels l) ls') k = Some v \<longleftrightarrow> (\<forall>x \<in> set ls. map_of (line_labels x) k = Some v)" for k v
    using oks by (simp add: ls gomap_lookup common_loop_iff)
  then show ?thesis using that by (simp add: find_common_labels_def ls)
qed

lemma map_of_filter_keys: "map_of (filter (\<lambda>(k, v). k \<notin> A) m) k = (if k \<in> A then None else map_of m k)"
  by (induction m) auto

lemma drop_labels_rest:
  assumes common: "\<And>k v. map_of common k = Some v \<Longrightarrow> map_of (line_labels l) k = Some v"
  shows "map_of common ++ map_of (line_labels (drop_labels (Some common) l)) = map_of (line_labels l)"
proof (cases "ll_labels l")
  case None
  then have "line_labels l = []" by (simp add: line_labels_def)
  then have "map_of common k = None" for k using common by (cases "map_of common k") auto
  then have "map_of common = Map.empty" by (rule ext)
  then show ?thesis using None by (simp add: drop_labels_def line_labels_def)
next
  case (Some m)
  have left: "map_of (filter (\<lambda>(k, v). k \<notin> fst ` set common) m) k = (if k \<in> fst ` set common then None else map_of m k)" for k
    by (rule map_of_filter_keys)
  have m: "line_labels l = m" "line_labels (drop_labels (Some common) l) = filter (\<lambda>(k, v). k \<notin> fst ` set common) m"
    using Some by (simp_all add: line_labels_def drop_labels_def)
  show ?thesis
  proof
    fix k
    show "(map_of common ++ map_of (line_labels (drop_labels (Some common) l))) k = map_of (line_labels l) k"
    proof (cases "map_of common k")
      case None
      then have "k \<notin> fst ` set common" by (simp add: map_of_eq_None_iff)
      then show ?thesis using None unfolding m by (simp add: map_add_def left split: option.split)
    next
      case (Some v)
      then have "k \<in> fst ` set common" by (metis map_of_eq_None_iff option.distinct(1))
      then show ?thesis using Some common [OF Some] unfolding m by (simp add: map_add_def left)
    qed
  qed
qed

lemma group_logs_eq:
  assumes "lr_logs result \<noteq> []" and "fm_group_by config \<noteq> []"
  shows "group_logs result config = result\<lparr>lr_groups := map (\<lambda>k. make_group (fm_dedup_by config) (same_key (fm_group_by config) (lr_logs result) k))
      (first_seen (map (\<lambda>l. get_field_key l (fm_group_by config) []) (lr_logs result))), lr_logs := []\<rparr>"
proof -
  have "foldl (\<lambda>gs line. add_to_group (get_field_key line (fm_group_by config) []) line gs) [] (lr_logs result)
      = map (\<lambda>k. (k, id (filter (\<lambda>l. get_field_key l (fm_group_by config) [] = k) (lr_logs result))))
          (first_seen (map (\<lambda>l. get_field_key l (fm_group_by config) []) (lr_logs result)))"
    by (rule collect_by_key [where start = "\<lambda>l. [l]" and step = "\<lambda>ls l. ls @ [l]"]) simp_all
  then show ?thesis using assms by (simp add: group_logs_def same_key_def comp_def)
qed

text \<open>Grouping makes a group for each key, in the order the keys are first seen, of the lines with the
  key. Its labels are exactly the labels all its lines share; they are taken off the lines, and with
  what a line keeps they are the labels it had.
\<close>

theorem group_logs_correct:
  assumes "lr_logs result \<noteq> []" and "fm_group_by config \<noteq> []"
    and "\<forall>l \<in> set (lr_logs result). gomap_ok (line_labels l)"
  shows "let ks = first_seen (map (\<lambda>l. get_field_key l (fm_group_by config) []) (lr_logs result));
      r = group_logs result config
    in lr_logs r = [] \<and> length (lr_groups r) = length ks
       \<and> (\<forall>i < length ks. let ls = same_key (fm_group_by config) (lr_logs result) (ks ! i); g = lr_groups r ! i
            in \<exists>common. lg_labels g = Some common
               \<and> (\<forall>k v. map_of common k = Some v \<longleftrightarrow> (\<forall>l \<in> set ls. map_of (line_labels l) k = Some v))
               \<and> lg_logs g = dedup_logs (map (drop_labels (Some common)) ls) (fm_dedup_by config)
               \<and> (\<forall>l \<in> set ls. map_of common ++ map_of (line_labels (drop_labels (Some common) l))
                    = map_of (line_labels l)))"
proof -
  define ks where "ks = first_seen (map (\<lambda>l. get_field_key l (fm_group_by config) []) (lr_logs result))"
  have group: "\<exists>common. lg_labels (make_group d ls) = Some common
      \<and> (\<forall>k v. map_of common k = Some v \<longleftrightarrow> (\<forall>l \<in> set ls. map_of (line_labels l) k = Some v))
      \<and> lg_logs (make_group d ls) = dedup_logs (map (drop_labels (Some common)) ls) d
      \<and> (\<forall>l \<in> set ls. map_of common ++ map_of (line_labels (drop_labels (Some common) l)) = map_of (line_labels l))"
    if ls: "ls \<noteq> []" "\<forall>l \<in> set ls. gomap_ok (line_labels l)" for d ls
  proof -
    obtain common where c: "find_common_labels ls = Some common"
      "\<And>k v. map_of common k = Some v \<longleftrightarrow> (\<forall>l \<in> set ls. map_of (line_labels l) k = Some v)"
      using common_labels [OF ls] by blast
    have "map_of common ++ map_of (line_labels (drop_labels (Some common) l)) = map_of (line_labels l)" if "l \<in> set ls" for l
      using c(2) that by (intro drop_labels_rest) blast
    then show ?thesis by (intro exI [of _ common]) (simp add: make_group_def c Let_def)
  qed
  have nonempty: "same_key (fm_group_by config) (lr_logs result) (ks ! i) \<noteq> []" if "i < length ks" for i
    using that unfolding ks_def by (intro same_key_nonempty nth_mem)
  have oks: "\<forall>l \<in> set (same_key (fm_group_by config) (lr_logs result) (ks ! i)). gomap_ok (line_labels l)" for i
    using assms(3) by (simp add: same_key_def)
  show ?thesis
    unfolding Let_def ks_def [symmetric] group_logs_eq [OF assms(1,2)] log_result.select_convs log_result.surjective
    using group [OF nonempty oks] by (auto simp: nth_map)
qed

definition sample_mapping :: "string list \<Rightarrow> string list \<Rightarrow> field_mapping" where
  "sample_mapping by dedup =
     \<lparr>fm_id = [], fm_message = [], fm_timestamp = [], fm_host = [], fm_severity = [], fm_source = [], fm_ignore = [],
      fm_group_by = by, fm_dedup_by = dedup\<rparr>"

theorem group_logs_correct_witness:
  "length (lr_groups (group_logs \<lparr>lr_logs = sample_lines, lr_groups = []\<rparr> (sample_mapping [''pod''] []))) = 2"
proof -
  have "\<forall>l \<in> set sample_lines. gomap_ok (line_labels l)" by code_simp
  moreover have "first_seen (map (\<lambda>l. get_field_key l [''pod''] []) sample_lines) = [''label.pod=p'', ''label.pod=q'']"
    by code_simp
  moreover have "sample_lines \<noteq> []" by (simp add: sample_lines_def)
  ultimately show ?thesis
    using group_logs_correct [where result = "\<lparr>lr_logs = sample_lines, lr_groups = []\<rparr>" and config = "sample_mapping [''pod''] []"]
    by (simp add: Let_def sample_mapping_def)
qed

text \<open>A group drops its common labels before it deduplicates: by a label all its lines share, its lines
  then have that label empty, which is the same for all, and by the message read from such a label lines
  with different messages cannot fall together. A line without a map of labels gives the key of a line
  whose label is the text unknown.\<close>

lemma unknown_label_collides:
  "ll_labels l = None \<Longrightarrow> map_of (line_labels m) k = Some ''unknown'' \<Longrightarrow> ll_labels m \<noteq> None
   \<Longrightarrow> k \<notin> {''message'', ''hash'', ''severity'', ''source'', ''host'', ''firstObserved'', ''lastObserved'', ''count'', ''id''}
   \<Longrightarrow> \<not> has_prefix ''label.'' k \<Longrightarrow> get_field_value l k [] = get_field_value m k []"
  by (simp add: get_field_value_def Let_def label_at_def)

end
