(* ===== verification/Log_Parse.thy ===== *)
theory Log_Parse
  imports Log_Lines "HOL-Library.Word"
begin

section \<open>Parsing log messages\<close>

text \<open>
  \<^verbatim>\<open>logs/parse.go\<close> and \<^verbatim>\<open>pkg/tokenizer/tokenizer.go\<close>: the fields of a message in the formats klog,
  logfmt, JSON and syslog, the detection of the format, and the tokenizer. Package \<open>regexp\<close> is written
  as far as the two patterns use it: sequences of characters of a class, runs of a class that take as
  much or as little as they can, groups and optional parts, anchored at both ends, with the first match
  of the order in which the alternatives are tried. The decoder of JSON and the regular expressions of
  the tokenizer are parameters.
\<close>

subsection \<open>Package regexp\<close>

datatype re_item =
    One "char \<Rightarrow> bool"
  | Many "char \<Rightarrow> bool"
  | Lazy "char \<Rightarrow> bool"
  | Open nat
  | Close nat
  | Maybe "re_item list"

fun item_cost :: "re_item \<Rightarrow> nat" where
  "item_cost (Maybe alt) = Suc (sum_list (map item_cost alt))"
| "item_cost r = 1"

text \<open>The text from where a group was opened, and the text of each group; a group that is not part of
  the match is empty.\<close>

record captures =
  opened :: "nat \<Rightarrow> string"
  captured :: "nat \<Rightarrow> string"

definition open_group :: "nat \<Rightarrow> string \<Rightarrow> captures \<Rightarrow> captures" where
  "open_group n s c = c\<lparr>opened := (opened c)(n := s)\<rparr>"

definition close_group :: "nat \<Rightarrow> string \<Rightarrow> captures \<Rightarrow> captures" where
  "close_group n s c = c\<lparr>captured := (captured c)(n := take (length (opened c n) - length s) (opened c n))\<rparr>"

definition first_of :: "'a option \<Rightarrow> 'a option \<Rightarrow> 'a option" where
  "first_of x y = (case x of None \<Rightarrow> y | Some _ \<Rightarrow> x)"

lemma first_of_cong [fundef_cong]: "x = x' \<Longrightarrow> (x' = None \<Longrightarrow> y = y') \<Longrightarrow> first_of x y = first_of x' y'"
  by (simp add: first_of_def split: option.split)

lemma first_of_Some: "first_of x y = Some z \<longleftrightarrow> x = Some z \<or> (x = None \<and> y = Some z)"
  by (simp add: first_of_def split: option.split)

function match_re :: "re_item list \<Rightarrow> string \<Rightarrow> captures \<Rightarrow> captures option" where
  "match_re [] s c = (if s = [] then Some c else None)"
| "match_re (One p # rs) [] c = None"
| "match_re (One p # rs) (x # s) c = (if p x then match_re rs s c else None)"
| "match_re (Many p # rs) [] c = match_re rs [] c"
| "match_re (Many p # rs) (x # s) c =
     (if p x then first_of (match_re (Many p # rs) s c) (match_re rs (x # s) c) else match_re rs (x # s) c)"
| "match_re (Lazy p # rs) [] c = match_re rs [] c"
| "match_re (Lazy p # rs) (x # s) c =
     first_of (match_re rs (x # s) c) (if p x then match_re (Lazy p # rs) s c else None)"
| "match_re (Open n # rs) s c = match_re rs s (open_group n s c)"
| "match_re (Close n # rs) s c = match_re rs s (close_group n s c)"
| "match_re (Maybe alt # rs) s c = first_of (match_re (alt @ rs) s c) (match_re rs s c)"
  by pat_completeness auto
termination by (relation "measures [\<lambda>(rs, s, c). sum_list (map item_cost rs), \<lambda>(rs, s, c). length s]") auto

definition no_captures :: captures where
  "no_captures = \<lparr>opened = (\<lambda>_. []), captured = (\<lambda>_. [])\<rparr>"

definition find_submatch :: "re_item list \<Rightarrow> string \<Rightarrow> (nat \<Rightarrow> string) option" where
  "find_submatch rs s = map_option captured (match_re rs s no_captures)"

definition is_word :: "char \<Rightarrow> bool" where
  "is_word c \<longleftrightarrow> is_digit c \<or> (CHR ''A'' \<le> c \<and> c \<le> CHR ''Z'') \<or> (CHR ''a'' \<le> c \<and> c \<le> CHR ''z'') \<or> c = CHR ''_''"

text \<open>The class of white space of the patterns does not have the vertical tab.\<close>

definition re_space :: "char \<Rightarrow> bool" where
  "re_space c \<longleftrightarrow> c \<in> {CHR '' '', CHR 0x09, CHR 0x0A, CHR 0x0C, CHR 0x0D}"

abbreviation lit :: "char \<Rightarrow> re_item" where
  "lit c \<equiv> One (\<lambda>x. x = c)"

definition some_of :: "(char \<Rightarrow> bool) \<Rightarrow> re_item list" where
  "some_of p = [One p, Many p]"

definition not_space :: "char \<Rightarrow> bool" where
  "not_space c \<longleftrightarrow> \<not> re_space c"

definition not_newline :: "char \<Rightarrow> bool" where
  "not_newline c \<longleftrightarrow> c \<noteq> CHR 0x0A"

subsection \<open>Formats\<close>

definition clock_items :: "re_item list" where
  "clock_items = [One is_digit, One is_digit, lit CHR '':'', One is_digit, One is_digit, lit CHR '':'', One is_digit, One is_digit]"

definition klog_letter :: "char \<Rightarrow> bool" where
  "klog_letter c \<longleftrightarrow> c \<in> {CHR ''I'', CHR ''W'', CHR ''E'', CHR ''F''}"

definition klog_pattern :: "re_item list" where
  "klog_pattern =
     [Open 1, One klog_letter, Close 1, Open 2, One is_digit, One is_digit, One is_digit, One is_digit, Close 2]
     @ some_of re_space
     @ [Open 3] @ clock_items @ [lit CHR ''.''] @ some_of is_digit @ [Close 3] @ some_of re_space
     @ [Open 4] @ some_of is_digit @ [Close 4] @ some_of re_space
     @ [Open 5] @ some_of not_space @ [lit CHR '':''] @ some_of is_digit @ [Close 5, lit CHR '']'', Many re_space,
        Open 6, Many not_newline, Close 6]"

definition klog_severities :: "(char \<times> string) list" where
  "klog_severities = [(CHR ''I'', ''info''), (CHR ''W'', ''warning''), (CHR ''E'', ''error''), (CHR ''F'', ''fatal'')]"

definition syslog_pattern :: "re_item list" where
  "syslog_pattern =
     [Maybe ([lit CHR ''<'', Open 1] @ some_of is_digit @ [Close 1, lit CHR ''>''])]
     @ [Open 2, One is_word, One is_word, One is_word] @ some_of re_space @ some_of is_digit @ some_of re_space
     @ clock_items @ [Close 2] @ some_of re_space
     @ [Open 3] @ some_of not_space @ [Close 3] @ some_of re_space
     @ [Open 4, One not_space, Lazy not_space, Close 4,
        Maybe ([lit CHR ''['', Open 5] @ some_of is_digit @ [Close 5, lit CHR '']'']), lit CHR '':'']
     @ some_of re_space @ [Open 6, Many not_newline, Close 6]"

definition syslog_severities :: "string list" where
  "syslog_severities = [''emergency'', ''alert'', ''critical'', ''error'', ''warning'', ''notice'', ''info'', ''debug'']"

definition blank :: "char \<Rightarrow> bool" where
  "blank c \<longleftrightarrow> c = CHR '' '' \<or> c = CHR 0x09"

text \<open>The value at the start of a text, and the text after it.\<close>

definition take_value :: "string \<Rightarrow> string \<times> string" where
  "take_value s =
     (if has_prefix [CHR 0x22] s then
        (if CHR 0x22 \<in> set (tl s)
         then (let v = takeWhile (\<lambda>c. c \<noteq> CHR 0x22) (tl s) in (v, drop (length v + 2) s))
         else (tl s, []))
      else if list_ex blank s then (takeWhile (\<lambda>c. \<not> blank c) s, dropWhile (\<lambda>c. \<not> blank c) s)
      else (s, []))"

lemma take_value_shorter: "length (snd (take_value s)) \<le> length s"
  by (simp add: take_value_def Let_def length_dropWhile_le)

lemma trim_where_shorter: "length (trim_where p s) \<le> length s"
  unfolding trim_where_def length_rev using length_dropWhile_le [of p "rev (dropWhile p s)"] length_dropWhile_le [of p s] by simp

function parse_key_value_pairs :: "string \<Rightarrow> (string \<times> string) list" where
  "parse_key_value_pairs s0 =
     (let s = trim_space s0; key = takeWhile (\<lambda>c. c \<noteq> CHR ''='') s; r = take_value (drop (length key + 1) s)
      in if s0 = [] \<or> s = [] \<or> CHR ''='' \<notin> set s \<or> list_ex blank key then []
         else (key, fst r) # parse_key_value_pairs (snd r))"
  by pat_completeness auto
termination
proof (relation "measure length")
  fix s0 s key r
  assume s: "s = trim_space s0" and key: "key = takeWhile (\<lambda>c. c \<noteq> CHR ''='') s"
    and r: "r = take_value (drop (length key + 1) s)"
    and go: "\<not> (s0 = [] \<or> s = [] \<or> CHR ''='' \<notin> set s \<or> list_ex blank key)"
  have "length (snd r) \<le> length s - (length key + 1)"
    using take_value_shorter [of "drop (length key + 1) s"] by (simp add: r)
  moreover have "length s \<le> length s0" "s \<noteq> []" using trim_where_shorter go by (simp_all add: s)
  ultimately show "(snd r, s0) \<in> measure length" by (cases s) auto
qed simp

declare parse_key_value_pairs.simps [simp del]

definition pairs_map :: "(string \<times> string) list \<Rightarrow> (string, string) gomap" where
  "pairs_map ps = foldl (\<lambda>m (k, v). AList.update k v m) [] ps"

definition parse_klog_message :: "string \<Rightarrow> string \<times> (string, string) gomap" where
  "parse_klog_message s0 =
     (let quoted = has_prefix [CHR 0x22] s0 \<and> CHR 0x22 \<in> set (tl s0);
          msg = (if quoted then takeWhile (\<lambda>c. c \<noteq> CHR 0x22) (tl s0) else []);
          s = (if quoted then trim_space (drop (length msg + 2) s0) else s0);
          kv = pairs_map (parse_key_value_pairs s)
      in (if msg = [] \<and> kv = [] then s else msg, kv))"

definition put_labels :: "(string, string) gomap \<Rightarrow> log_line \<Rightarrow> log_line" where
  "put_labels m line = line\<lparr>ll_labels := Some (merge_maps (line_labels line) m)\<rparr>"

definition parse_klogfmt :: "log_line \<Rightarrow> log_line" where
  "parse_klogfmt line =
     (case find_submatch klog_pattern (ll_message line) of
        None \<Rightarrow> line
      | Some m \<Rightarrow>
          (let l1 = (case map_of klog_severities (m 1 ! 0) of None \<Rightarrow> line | Some sev \<Rightarrow> line\<lparr>ll_severity := sev\<rparr>);
               l2 = l1\<lparr>ll_source := m 5\<rparr>;
               (msg, kv) = parse_klog_message (m 6);
               l3 = (if msg \<noteq> [] then l2\<lparr>ll_message := msg\<rparr> else l2)
           in if kv \<noteq> [] then put_labels kv l3 else l3))"

fun put_pair :: "string \<times> string \<Rightarrow> log_line \<Rightarrow> log_line" where
  "put_pair (key, value) line =
     (if key = ''msg'' \<or> key = ''message'' then line\<lparr>ll_message := value\<rparr>
      else if key = ''level'' then line\<lparr>ll_severity := value\<rparr>
      else line\<lparr>ll_labels := Some (AList.update key value (line_labels line))\<rparr>)"

definition parse_logfmt :: "log_line \<Rightarrow> log_line" where
  "parse_logfmt line =
     (let pairs = parse_key_value_pairs (ll_message line)
      in if pairs = [] then line
         else fold put_pair pairs (line\<lparr>ll_labels := Some (line_labels line)\<rparr>))"

fun put_field :: "('v \<Rightarrow> string) \<Rightarrow> string \<times> 'v \<Rightarrow> log_line \<Rightarrow> log_line" where
  "put_field stringify (key, value) line =
     (let str = stringify value
      in if key = ''msg'' \<or> key = ''message'' then line\<lparr>ll_message := str\<rparr>
         else if key = ''level'' \<or> key = ''severity'' then line\<lparr>ll_severity := str\<rparr>
         else if key = ''source'' \<or> key = ''caller'' \<or> key = ''logger'' then line\<lparr>ll_source := str\<rparr>
         else if key = ''host'' \<or> key = ''hostname'' then line\<lparr>ll_host := str\<rparr>
         else line\<lparr>ll_labels := Some (AList.update key str (line_labels line))\<rparr>)"

text \<open>\<open>decode\<close> gives the fields in the order the loop over the map meets them.\<close>

definition parse_json :: "(string \<Rightarrow> (string \<times> 'v) list option) \<Rightarrow> ('v \<Rightarrow> string) \<Rightarrow> log_line \<Rightarrow> log_line" where
  "parse_json decode stringify line =
     (case decode (ll_message line) of
        None \<Rightarrow> line
      | Some fs \<Rightarrow> fold (put_field stringify) fs (line\<lparr>ll_labels := Some (line_labels line)\<rparr>))"

text \<open>The priority is a 64-bit integer that wraps around.\<close>

definition priority :: "string \<Rightarrow> 64 word" where
  "priority s = foldl (\<lambda>pri c. pri * 10 + word_of_int (digit_val c)) 0 s"

definition syslog_severity :: "string \<Rightarrow> nat" where
  "syslog_severity s = unat (Bit_Operations.and (priority s) 7)"

definition parse_syslog :: "log_line \<Rightarrow> log_line" where
  "parse_syslog line =
     (case find_submatch syslog_pattern (ll_message line) of
        None \<Rightarrow> line
      | Some m \<Rightarrow>
          (let l0 = line\<lparr>ll_labels := Some (line_labels line)\<rparr>;
               l1 = (if m 1 \<noteq> [] \<and> syslog_severity (m 1) < length syslog_severities
                     then l0\<lparr>ll_severity := syslog_severities ! syslog_severity (m 1)\<rparr> else l0);
               l2 = l1\<lparr>ll_host := m 3, ll_source := m 4\<rparr>;
               l3 = (if m 5 \<noteq> [] then put_labels [(''pid'', m 5)] l2 else l2)
           in l3\<lparr>ll_message := m 6\<rparr>))"

definition detect_format :: "string \<Rightarrow> string" where
  "detect_format msg =
     (if msg = [] then []
      else if msg ! 0 = CHR ''{'' then ''json''
      else if find_submatch klog_pattern msg \<noteq> None then ''klogfmt''
      else if msg ! 0 = CHR ''<'' \<and> find_submatch syslog_pattern msg \<noteq> None then ''syslog''
      else if length (parse_key_value_pairs msg) \<ge> 2 then ''logfmt''
      else [])"

definition parse_known :: "(string \<Rightarrow> (string \<times> 'v) list option) \<Rightarrow> ('v \<Rightarrow> string) \<Rightarrow> log_line \<Rightarrow> string \<Rightarrow> log_line" where
  "parse_known decode stringify line format =
     (if format = ''klogfmt'' then parse_klogfmt line
      else if format = ''logfmt'' then parse_logfmt line
      else if format = ''json'' then parse_json decode stringify line
      else if format = ''syslog'' then parse_syslog line
      else line)"

text \<open>The detected format is never the one that asks for detection, so the mutual recursion of the two
  functions ends at \<open>parse_known\<close>.\<close>

definition parse_autodetect :: "(string \<Rightarrow> (string \<times> 'v) list option) \<Rightarrow> ('v \<Rightarrow> string) \<Rightarrow> log_line \<Rightarrow> log_line" where
  "parse_autodetect decode stringify line =
     (let format = detect_format (ll_message line)
      in if format \<noteq> [] then parse_known decode stringify line format else line)"

definition parse_message :: "(string \<Rightarrow> (string \<times> 'v) list option) \<Rightarrow> ('v \<Rightarrow> string) \<Rightarrow> log_line \<Rightarrow> string \<Rightarrow> log_line" where
  "parse_message decode stringify line format =
     (if format = ''autodetect'' \<or> format = [] then parse_autodetect decode stringify line
      else parse_known decode stringify line format)"

subsection \<open>The tokenizer\<close>

datatype token_data = Number | Duration_Value | Time_Value | Text string | Other string

text \<open>A replacement is the text it writes and the function \<open>ReplaceAllString\<close> of its expression.\<close>

type_synonym replacement = "string \<times> (string \<Rightarrow> string \<Rightarrow> string)"

fun replace_loop :: "replacement list \<Rightarrow> string \<Rightarrow> string" where
  "replace_loop [] out = out"
| "replace_loop ((value, replace_all) # rs) out =
     (let out' = replace_all out value in if out' = value then out' else replace_loop rs out')"

fun tokenize :: "replacement list \<Rightarrow> token_data \<Rightarrow> string" where
  "tokenize rs Number = ''0''"
| "tokenize rs Duration_Value = ''DURATION''"
| "tokenize rs Time_Value = ''TIMESTAMP''"
| "tokenize rs (Text v) = replace_loop rs v"
| "tokenize rs (Other shown) = shown"

subsection \<open>Pairs of keys and values\<close>

lemma trim_pairs:
  assumes "list_all is_space ws" and "s \<noteq> []" and "\<not> is_space (hd s)" and "\<not> is_space (last s)"
  shows "trim_space (ws @ s) = s"
proof -
  have "dropWhile is_space (ws @ s) = s"
    using assms(1,3) by (induction ws) (simp_all add: dropWhile_id)
  moreover have "dropWhile is_space (rev s) = rev s"
    by (rule dropWhile_id) (use assms(2,4) in \<open>simp add: hd_rev\<close>)
  ultimately show ?thesis by (simp add: trim_where_def)
qed

definition key_ok :: "string \<Rightarrow> bool" where
  "key_ok k \<longleftrightarrow> list_all (\<lambda>c. \<not> is_space c \<and> c \<noteq> CHR ''='') k"

definition value_ok :: "string \<Rightarrow> bool" where
  "value_ok v \<longleftrightarrow> CHR 0x22 \<notin> set v"

definition quoted_pair :: "string \<times> string \<Rightarrow> string" where
  "quoted_pair p = fst p @ ''='' @ [CHR 0x22] @ snd p @ [CHR 0x22]"

lemma parse_pairs_Cons:
  assumes key: "key_ok k" and val: "value_ok v" and ws: "list_all is_space ws"
    and rest: "rest = [] \<or> \<not> is_space (last rest)"
  shows "parse_key_value_pairs (ws @ quoted_pair (k, v) @ rest) = (k, v) # parse_key_value_pairs rest"
proof -
  let ?s = "quoted_pair (k, v) @ rest"
  have form: "?s = k @ CHR ''='' # CHR 0x22 # v @ CHR 0x22 # rest" by (simp add: quoted_pair_def)
  have "\<not> is_space (hd ?s)" using key by (cases k) (auto simp: quoted_pair_def key_ok_def is_space_def)
  moreover have "\<not> is_space (last ?s)" using rest by (cases "rest = []") (auto simp: quoted_pair_def is_space_def)
  moreover have "?s \<noteq> []" by (simp add: form)
  ultimately have trim: "trim_space (ws @ ?s) = ?s" using ws by (intro trim_pairs)
  have no_eq: "\<forall>c \<in> set k. c \<noteq> CHR ''=''" using key by (auto simp: key_ok_def list_all_iff)
  then have k: "takeWhile (\<lambda>c. c \<noteq> CHR ''='') ?s = k" by (simp add: form takeWhile_append2)
  have v: "takeWhile (\<lambda>c. c \<noteq> CHR 0x22) (v @ CHR 0x22 # rest) = v"
    using val by (subst takeWhile_append2) (auto simp: value_ok_def)
  have "\<not> list_ex blank k" using key by (auto simp: key_ok_def list_all_iff list_ex_iff blank_def is_space_def)
  moreover have "CHR ''='' \<in> set ?s" "ws @ ?s \<noteq> []" "?s \<noteq> []" by (simp_all add: form)
  moreover have "take_value (drop (length k + 1) ?s) = (v, rest)"
    by (simp add: form take_value_def Let_def v)
  ultimately show ?thesis
    by (subst parse_key_value_pairs.simps) (simp add: Let_def trim k)
qed

lemma quoted_pairs_end: "ps \<noteq> [] \<Longrightarrow> \<not> is_space (last (concat (map (\<lambda>p. CHR '' '' # quoted_pair p) ps)))"
  by (induction ps rule: rev_induct) (simp_all add: quoted_pair_def is_space_def)

lemma join_quoted: "join '' '' (map quoted_pair (p # ps)) = quoted_pair p @ concat (map (\<lambda>p. CHR '' '' # quoted_pair p) ps)"
  by (induction ps arbitrary: p) simp_all

text \<open>What is printed as key="value" pairs with a space between them is read back pair by pair, for keys
  without white space and equals sign and values without a quote.
\<close>

theorem key_value_roundtrip:
  assumes "\<forall>(k, v) \<in> set ps. key_ok k \<and> value_ok v"
  shows "parse_key_value_pairs (join '' '' (map quoted_pair ps)) = ps"
proof (cases ps)
  case Nil
  then show ?thesis by (simp add: parse_key_value_pairs.simps)
next
  case (Cons p qs)
  have space: "is_space CHR '' ''" by (simp add: is_space_def)
  have end_ok: "concat (map (\<lambda>p. CHR '' '' # quoted_pair p) qs) = []
      \<or> \<not> is_space (last (concat (map (\<lambda>p. CHR '' '' # quoted_pair p) qs)))" for qs
    using quoted_pairs_end [of qs] by (cases "qs = []") simp_all
  have tail: "parse_key_value_pairs (concat (map (\<lambda>p. CHR '' '' # quoted_pair p) qs)) = qs"
    if "\<forall>(k, v) \<in> set qs. key_ok k \<and> value_ok v" for qs
    using that
  proof (induction qs)
    case Nil
    then show ?case by (simp add: parse_key_value_pairs.simps)
  next
    case (Cons q qs)
    obtain k v where q: "q = (k, v)" by (cases q)
    have "parse_key_value_pairs ([CHR '' ''] @ quoted_pair (k, v) @ concat (map (\<lambda>p. CHR '' '' # quoted_pair p) qs))
        = (k, v) # parse_key_value_pairs (concat (map (\<lambda>p. CHR '' '' # quoted_pair p) qs))"
      using Cons.prems end_ok [of qs] space by (intro parse_pairs_Cons) (simp_all add: q)
    then show ?case using Cons by (simp add: q)
  qed
  obtain k v where p: "p = (k, v)" by (cases p)
  have "parse_key_value_pairs ([] @ quoted_pair (k, v) @ concat (map (\<lambda>p. CHR '' '' # quoted_pair p) qs))
      = (k, v) # parse_key_value_pairs (concat (map (\<lambda>p. CHR '' '' # quoted_pair p) qs))"
    using assms end_ok [of qs] Cons by (intro parse_pairs_Cons) (simp_all add: p)
  then show ?thesis using assms Cons tail [of qs] by (simp add: p join_quoted [simplified])
qed

theorem key_value_roundtrip_witness:
  "parse_key_value_pairs (join '' '' (map quoted_pair [(''msg'', ''a = b''), (''level'', [])])) = [(''msg'', ''a = b''), (''level'', [])]"
proof -
  have "\<forall>(k, v) \<in> set [(''msg'', ''a = b''), (''level'', [])]. key_ok k \<and> value_ok v" by code_simp
  then show ?thesis by (rule key_value_roundtrip)
qed

text \<open>A quote inside a value ends it, escaped or not, and what follows is read as the next key.\<close>

lemma escaped_quote_cut:
  "parse_key_value_pairs (''msg='' @ [CHR 0x22] @ ''say '' @ [CHR 0x5C, CHR 0x22] @ ''hi=1'' @ [CHR 0x5C, CHR 0x22, CHR 0x22])
   = [(''msg'', ''say '' @ [CHR 0x5C]), (''hi'', ''1'' @ [CHR 0x5C, CHR 0x22, CHR 0x22])]"
  by (simp add: parse_key_value_pairs.simps take_value_def trim_where_def is_space_def blank_def has_prefix_def Let_def)

subsection \<open>Groups of a match\<close>

fun closes :: "re_item \<Rightarrow> nat set" where
  "closes (Close n) = {n}"
| "closes (Maybe alt) = \<Union> (set (map closes alt))"
| "closes r = {}"

lemma match_keeps_group:
  "match_re rs s c = Some c' \<Longrightarrow> n \<notin> \<Union> (set (map closes rs)) \<Longrightarrow> captured c' n = captured c n"
  by (induction rs s c rule: match_re.induct)
    (auto simp: first_of_Some open_group_def close_group_def split: if_splits)

lemma match_run:
  assumes "match_re (Many p # Close n # rs) s c = Some c'" and "n \<notin> \<Union> (set (map closes rs))"
    and "opened c n = w @ s" and "list_all p w"
  shows "list_all p (captured c' n)"
  using assms
proof (induction s arbitrary: w)
  case Nil
  then show ?case using match_keeps_group [OF _ Nil.prems(2)] by (fastforce simp: close_group_def)
next
  case (Cons x s)
  have close: "list_all p (captured c' n)" if "match_re (Close n # rs) (x # s) c = Some c'"
    using that match_keeps_group [OF _ Cons.prems(2)] Cons.prems(3,4) by (fastforce simp: close_group_def)
  have "list_all p (captured c' n)" if "p x" "match_re (Many p # Close n # rs) s c = Some c'"
    using Cons.IH [of "w @ [x]"] Cons.prems that by simp
  then show ?case using Cons.prems(1) close by (auto simp: first_of_Some split: if_splits)
qed

lemma group_of_run:
  assumes "match_re (Open n # One p # Many p # Close n # rs) s c = Some c'" and "n \<notin> \<Union> (set (map closes rs))"
  shows "captured c' n = [] \<or> list_all p (captured c' n)"
  using assms match_run [OF _ assms(2), of p] by (cases s) (auto simp: open_group_def split: if_splits)

lemma klog_letter_found:
  assumes "find_submatch klog_pattern s = Some m"
  obtains x where "m 1 = [x]" and "klog_letter x"
proof -
  obtain c where c: "match_re klog_pattern s no_captures = Some c" "m = captured c"
    using assms by (auto simp: find_submatch_def)
  obtain rs where rs: "klog_pattern = Open 1 # One klog_letter # Close 1 # rs" "1 \<notin> \<Union> (set (map closes rs))"
    by (simp add: klog_pattern_def some_of_def clock_items_def)
  obtain x t where x: "s = x # t" "klog_letter x" "match_re rs t (close_group 1 t (open_group 1 (x # t) no_captures)) = Some c"
    using c(1) unfolding rs(1) by (cases s) (auto split: if_splits)
  have "captured c 1 = [x]"
    using match_keeps_group [OF x(3) rs(2)] by (simp add: close_group_def open_group_def)
  then show ?thesis using that x(2) c(2) by simp
qed

text \<open>A message that has the header of klog gets the severity of its letter and the source of its header,
  and is never read outside its groups: the letter is there and its severity is known.
\<close>

theorem klog_severity_known:
  assumes "find_submatch klog_pattern (ll_message line) = Some m"
  shows "m 1 \<noteq> [] \<and> map_of klog_severities (m 1 ! 0) = Some (ll_severity (parse_klogfmt line))
    \<and> ll_source (parse_klogfmt line) = m 5"
proof -
  obtain x where x: "m 1 = [x]" "klog_letter x" by (rule klog_letter_found [OF assms])
  have "map_of klog_severities x \<noteq> None"
    using x(2) by (auto simp: klog_letter_def klog_severities_def)
  then obtain sev where sev: "map_of klog_severities x = Some sev" by auto
  have letter: "m (Suc 0) = [x]" using x(1) by simp
  show ?thesis
    by (simp add: letter parse_klogfmt_def assms sev Let_def put_labels_def split: prod.split)
qed

definition klog_line :: log_line where
  "klog_line = (sample_line ''I0102 03:04:05.6 1 a.go:7] synced n=1'' 0 [])"

theorem klog_severity_known_witness:
  "ll_severity (parse_klogfmt klog_line) = ''info'' \<and> ll_source (parse_klogfmt klog_line) = ''a.go:7''"
proof -
  have "map_option (\<lambda>m. (m 1, m 5)) (find_submatch klog_pattern (ll_message klog_line)) = Some (''I'', ''a.go:7'')"
    by code_simp
  then obtain m where m: "find_submatch klog_pattern (ll_message klog_line) = Some m" "m 1 = ''I''" "m 5 = ''a.go:7''"
    by (auto simp del: One_nat_def)
  show ?thesis using klog_severity_known [OF m(1)] unfolding m by (simp add: klog_severities_def)
qed

subsection \<open>Severities\<close>

lemma priority_append: "foldl (\<lambda>pri c. pri * 10 + word_of_int (digit_val c)) (word_of_int n) s = (word_of_int (digits_val n s) :: 64 word)"
proof (induction s arbitrary: n)
  case (Cons c s)
  have "word_of_int n * 10 + word_of_int (digit_val c) = (word_of_int (10 * n + digit_val c) :: 64 word)"
    by (simp add: mult.commute)
  then show ?case by (simp only: foldl.simps digits_val.simps Cons.IH)
qed simp

lemma priority_eq: "priority s = word_of_int (digits_val 0 s)"
  using priority_append [of 0 s] by (simp add: priority_def)

lemma and_seven: "unat (Bit_Operations.and (word_of_int n) 7 :: 64 word) = nat (n mod 8)"
proof -
  have "Bit_Operations.and w 7 = w mod 8" for w :: "64 word"
    using take_bit_eq_mask [of 3 w] by (simp add: mask_eq_exp_minus_1 take_bit_eq_mod)
  moreover have "unat (word_of_int n :: 64 word) = nat (n mod 2 ^ 64)"
    by (simp add: unsigned_of_int take_bit_eq_mod)
  moreover have "nat (n mod 2 ^ 64) mod 8 = nat (n mod 8)"
    using nat_mod_distrib [of "n mod 2 ^ 64" 8] by (simp add: mod_mod_cancel)
  ultimately show ?thesis by (simp add: unat_mod)
qed

text \<open>The severity of a syslog line is its priority modulo eight, whatever the number of digits: the
  wrap-around of the sum does not reach the last three bits. It is always an index of the table, so
  every line with a priority gets a severity.
\<close>

theorem syslog_severity_bounds:
  "syslog_severity s = nat (digits_val 0 s mod 8) \<and> syslog_severity s < length syslog_severities"
proof -
  have "syslog_severity s = nat (digits_val 0 s mod 8)"
    unfolding syslog_severity_def priority_eq by (rule and_seven)
  moreover have "nat (digits_val 0 s mod 8) < 8" by simp
  ultimately show ?thesis by (simp add: syslog_severities_def)
qed

lemma syslog_example:
  "parse_syslog (sample_line ''<34>Oct 11 22:14:15 web su[7]: failed'' 0 [])
   = (sample_line ''failed'' 0 [(''pid'', ''7'')])\<lparr>ll_severity := ''critical'', ll_host := ''web'', ll_source := ''su''\<rparr>"
  by code_simp

subsection \<open>What parsing leaves alone\<close>

definition same_observation :: "log_line \<Rightarrow> log_line \<Rightarrow> bool" where
  "same_observation l l' \<longleftrightarrow> ll_id l' = ll_id l \<and> ll_first l' = ll_first l \<and> ll_last l' = ll_last l
     \<and> ll_count l' = ll_count l \<and> ll_hash l' = ll_hash l"

lemma put_labels_same [simp]: "same_observation l (put_labels m l') = same_observation l l'"
  by (simp add: put_labels_def same_observation_def)

lemma fold_same:
  "(\<And>x l'. same_observation l (f x l') = same_observation l l') \<Longrightarrow> same_observation l (fold f xs l') = same_observation l l'"
  by (induction xs arbitrary: l') simp_all

lemma put_pair_same: "same_observation l (put_pair p l') = same_observation l l'"
  by (cases p) (simp add: same_observation_def)

lemma put_field_same: "same_observation l (put_field f p l') = same_observation l l'"
  by (cases p) (simp add: same_observation_def Let_def)

lemma parse_known_same: "same_observation line (parse_known decode stringify line format)"
proof -
  have "same_observation line (parse_klogfmt line)"
    by (auto simp: parse_klogfmt_def Let_def same_observation_def put_labels_def split: option.split prod.split)
  moreover have "same_observation line (parse_logfmt line)"
    by (simp add: parse_logfmt_def Let_def fold_same [OF put_pair_same]) (simp add: same_observation_def)
  moreover have "same_observation line (parse_json decode stringify line)"
    by (simp add: parse_json_def fold_same [OF put_field_same] split: option.split) (simp add: same_observation_def)
  moreover have "same_observation line (parse_syslog line)"
    by (simp add: parse_syslog_def Let_def same_observation_def put_labels_def split: option.split)
  ultimately show ?thesis by (simp add: parse_known_def same_observation_def)
qed

text \<open>Parsing a message changes neither the line's id, times, count nor hash, whatever the format and
  the decoder, and an empty message or a format that is not known changes nothing.
\<close>

theorem parse_message_frame:
  "same_observation line (parse_message decode stringify line format)
   \<and> (ll_message line = [] \<and> (format = ''autodetect'' \<or> format = []) \<or> format \<notin> {[], ''autodetect'', ''klogfmt'', ''logfmt'', ''json'', ''syslog''}
      \<longrightarrow> parse_message decode stringify line format = line)"
proof -
  have "same_observation line line" by (simp add: same_observation_def)
  then show ?thesis
    by (auto simp: parse_message_def parse_autodetect_def Let_def parse_known_same)
      (auto simp: parse_known_def detect_format_def)
qed

theorem parse_message_frame_witness:
  "parse_message (\<lambda>_. None :: (string \<times> nat) list option) (\<lambda>_. []) klog_line ''xml'' = klog_line"
  using parse_message_frame [where decode = "\<lambda>_. None :: (string \<times> nat) list option" and stringify = "\<lambda>_. []"
      and line = klog_line and format = "''xml''"] by simp

text \<open>A JSON message with both keys of a message is read as the one the loop meets last.\<close>

lemma json_message_by_order:
  "ll_message (parse_json (\<lambda>_. Some [(''msg'', ''a''), (''message'', ''b'')]) id klog_line) = ''b''
   \<and> ll_message (parse_json (\<lambda>_. Some [(''message'', ''b''), (''msg'', ''a'')]) id klog_line) = ''a''"
  by (simp add: parse_json_def)

text \<open>A syslog line without a priority has a match, but its format is not detected.\<close>

lemma syslog_without_priority:
  "ll_host (parse_syslog (sample_line ''Oct 11 22:14:15 web su[7]: failed'' 0 [])) = ''web''
   \<and> detect_format ''Oct 11 22:14:15 web su[7]: failed'' = []"
  by code_simp

end
