(* ===== verification/Peg_Engine.thy ===== *)
theory Peg_Engine
  imports Duty_Prelude
begin

section \<open>The parser of the query language: its engine\<close>

text \<open>
  \<^verbatim>\<open>query/grammar/grammar.go\<close> holds the grammar of the query language as a table of expressions and the
  engine that interprets it: ordered choice, sequences, literals, character classes, repetition and
  look-ahead over the decoded runes of the input, labels that name the values of parts, and actions that
  compute values from them. Here is the engine, over any table and any actions. An expression is run
  with fuel for the depth of its recursion; \<^term>\<open>None\<close> is a recursion deeper than that. For a table
  that passes the executable check \<open>grammar_ok\<close> an amount of fuel that suffices is known, so the
  parser ends on every input. The statistics, traces, memo table and state store of the engine, which
  this grammar does not use, and the positions in the texts of errors are left out.
\<close>

subsection \<open>Runes\<close>

text \<open>\<open>utf8.DecodeRune\<close>: the code of the first rune and its bytes. A byte that starts no rune is the
  replacement rune on its own.\<close>

record rune =
  rn_code :: nat
  rn_bytes :: string

definition rune_error :: nat where "rune_error = 65533"

definition between :: "nat \<Rightarrow> nat \<Rightarrow> char \<Rightarrow> bool" where
  "between lo hi c \<longleftrightarrow> lo \<le> of_char c \<and> of_char c \<le> hi"

abbreviation continuation :: "char \<Rightarrow> bool" where
  "continuation \<equiv> between 128 191"

fun decode_rune :: "char \<Rightarrow> string \<Rightarrow> rune" where
  "decode_rune a s =
     (let bad = \<lparr>rn_code = rune_error, rn_bytes = [a]\<rparr>; n = of_char a in
      if n < 128 then \<lparr>rn_code = n, rn_bytes = [a]\<rparr>
      else if between 194 223 a then
        (case s of
           b # _ \<Rightarrow> if continuation b then \<lparr>rn_code = (n mod 32) * 64 + of_char b mod 64, rn_bytes = [a, b]\<rparr> else bad
         | _ \<Rightarrow> bad)
      else if between 224 239 a then
        (case s of
           b # c # _ \<Rightarrow>
             if between (if n = 224 then 160 else 128) (if n = 237 then 159 else 191) b \<and> continuation c
             then \<lparr>rn_code = (n mod 16) * 4096 + (of_char b mod 64) * 64 + of_char c mod 64, rn_bytes = [a, b, c]\<rparr> else bad
         | _ \<Rightarrow> bad)
      else if between 240 244 a then
        (case s of
           b # c # d # _ \<Rightarrow>
             if between (if n = 240 then 144 else 128) (if n = 244 then 143 else 191) b \<and> continuation c \<and> continuation d
             then \<lparr>rn_code = (n mod 8) * 262144 + (of_char b mod 64) * 4096 + (of_char c mod 64) * 64 + of_char d mod 64,
                    rn_bytes = [a, b, c, d]\<rparr> else bad
         | _ \<Rightarrow> bad)
      else bad)"

lemma decode_rune_bytes: "rn_bytes (decode_rune a s) \<noteq> [] \<and> (\<exists>t. a # s = rn_bytes (decode_rune a s) @ t)"
  by (auto simp: Let_def split: list.split)

declare decode_rune.simps [simp del]

function decode_runes :: "string \<Rightarrow> rune list" where
  "decode_runes [] = []"
| "decode_runes (a # s) = (let r = decode_rune a s in r # decode_runes (drop (length (rn_bytes r)) (a # s)))"
  by pat_completeness auto
termination
proof (relation "measure length")
  fix a s r assume "r = decode_rune a s"
  then have "rn_bytes r \<noteq> []" using decode_rune_bytes by simp
  then show "(drop (length (rn_bytes r)) (a # s), a # s) \<in> measure length" by (cases "rn_bytes r") auto
qed simp

definition bytes_of :: "rune list \<Rightarrow> string" where
  "bytes_of rs = concat (map rn_bytes rs)"

lemma decode_runes_bytes: "bytes_of (decode_runes s) = s"
proof (induction s rule: decode_runes.induct)
  case (2 a s)
  obtain t where t: "a # s = rn_bytes (decode_rune a s) @ t" using decode_rune_bytes by blast
  then have d: "drop (length (rn_bytes (decode_rune a s))) (a # s) = t" by simp
  have "bytes_of (decode_runes t) = t" using 2 [OF refl] unfolding d .
  moreover have "decode_runes (a # s) = decode_rune a s # decode_runes t" by (simp only: decode_runes.simps Let_def d)
  ultimately show ?case by (simp only: bytes_of_def list.map concat.simps t [symmetric])
qed (simp add: bytes_of_def)

definition invalid_rune :: "rune \<Rightarrow> bool" where
  "invalid_rune r \<longleftrightarrow> rn_code r = rune_error \<and> length (rn_bytes r) = 1"

subsection \<open>Expressions, values and state\<close>

record char_class =
  cc_chars :: string
  cc_ranges :: "(char \<times> char) list"
  cc_inverted :: bool

text \<open>\<open>'a\<close> names an action.\<close>

datatype 'a peg =
    PAction 'a "'a peg"
  | PChoice "'a peg list"
  | PSeq "'a peg list"
  | PLabel string "'a peg"
  | PRef string
  | PLit string
  | PClass char_class
  | PAny
  | PAnd "'a peg"
  | PNot "'a peg"
  | PStar "'a peg"
  | PPlus "'a peg"
  | POpt "'a peg"

text \<open>\<open>'v\<close> is what actions compute.\<close>

datatype 'v pvalue = VNil | VBytes string | VList "'v pvalue list" | VAct 'v

type_synonym 'v labels = "(string \<times> 'v pvalue) list"

record 'v pstate =
  ps_rest :: "rune list"
  ps_labels :: "'v labels"
  ps_errs :: "string list"

text \<open>An action gives a value, a value and an error, or a panic, here of a type assertion.\<close>

datatype 'v acted = Acted "'v pvalue" | ActedErr "'v pvalue" string | ActPanic string

datatype 'v outcome = Match "'v pvalue" "'v pstate" | NoMatch "'v pstate" | Panics string

type_synonym ('a, 'v) action_fn = "'a \<Rightarrow> 'v labels \<Rightarrow> string \<Rightarrow> 'v acted"
type_synonym 'a rules = "string \<Rightarrow> 'a peg option"

definition stack_value :: "'v labels \<Rightarrow> string \<Rightarrow> 'v pvalue" where
  "stack_value m l = (case map_of m l of None \<Rightarrow> VNil | Some v \<Rightarrow> v)"

subsection \<open>Matching\<close>

definition add_err :: "string \<Rightarrow> 'v pstate \<Rightarrow> 'v pstate" where
  "add_err e s = s\<lparr>ps_errs := ps_errs s @ [e]\<rparr>"

text \<open>The rune under the cursor is decoded when it is reached.\<close>

definition decoded :: "'v pstate \<Rightarrow> 'v pstate" where
  "decoded s = (case ps_rest s of r # _ \<Rightarrow> if invalid_rune r then add_err ''invalid encoding'' s else s | [] \<Rightarrow> s)"

definition read_rune :: "'v pstate \<Rightarrow> 'v pstate" where
  "read_rune s = decoded (s\<lparr>ps_rest := tl (ps_rest s)\<rparr>)"

definition restore :: "'v pstate \<Rightarrow> 'v pstate \<Rightarrow> 'v pstate" where
  "restore pt s = s\<lparr>ps_rest := ps_rest pt\<rparr>"

definition slice_from :: "'v pstate \<Rightarrow> 'v pstate \<Rightarrow> string" where
  "slice_from start s = bytes_of (take (length (ps_rest start) - length (ps_rest s)) (ps_rest start))"

fun lit_loop :: "'v pstate \<Rightarrow> string \<Rightarrow> 'v pstate \<Rightarrow> 'v outcome" where
  "lit_loop start [] s = Match (VBytes (slice_from start s)) s"
| "lit_loop start (c # cs) s =
     (case ps_rest s of
        r # _ \<Rightarrow> if rn_code r \<noteq> of_char c then NoMatch (restore start s) else lit_loop start cs (read_rune s)
      | [] \<Rightarrow> NoMatch (restore start s))"

definition in_class :: "char_class \<Rightarrow> nat \<Rightarrow> bool" where
  "in_class cc n \<longleftrightarrow> (\<exists>c \<in> set (cc_chars cc). of_char c = n)
     \<or> (\<exists>(lo, hi) \<in> set (cc_ranges cc). of_char lo \<le> n \<and> n \<le> of_char hi)"

definition match_class :: "char_class \<Rightarrow> 'v pstate \<Rightarrow> 'v outcome" where
  "match_class cc s =
     (case ps_rest s of
        [] \<Rightarrow> NoMatch s
      | r # _ \<Rightarrow>
          if in_class cc (rn_code r) \<noteq> cc_inverted cc
          then (let s1 = read_rune s in Match (VBytes (slice_from s s1)) s1)
          else NoMatch s)"

definition match_any :: "'v pstate \<Rightarrow> 'v outcome" where
  "match_any s = (case ps_rest s of [] \<Rightarrow> NoMatch s
     | r # _ \<Rightarrow> (let s1 = read_rune s in Match (VBytes (slice_from s s1)) s1))"

text \<open>A new frame of labels around a part: \<open>pushV\<close> before it and \<open>popV\<close> after it.\<close>

fun pop_labels :: "'v labels \<Rightarrow> 'v outcome \<Rightarrow> 'v outcome" where
  "pop_labels m (Match v s) = Match v (s\<lparr>ps_labels := m\<rparr>)"
| "pop_labels m (NoMatch s) = NoMatch (s\<lparr>ps_labels := m\<rparr>)"
| "pop_labels m (Panics e) = Panics e"

definition framed :: "('v pstate \<Rightarrow> 'v outcome option) \<Rightarrow> 'v pstate \<Rightarrow> 'v outcome option" where
  "framed p s = map_option (pop_labels (ps_labels s)) (p (s\<lparr>ps_labels := []\<rparr>))"

fun choice_loop :: "('a peg \<Rightarrow> 'v pstate \<Rightarrow> 'v outcome option) \<Rightarrow> 'a peg list \<Rightarrow> 'v pstate \<Rightarrow> 'v outcome option" where
  "choice_loop p [] s = Some (NoMatch s)"
| "choice_loop p (e # es) s =
     (case framed (p e) s of
        Some (NoMatch s1) \<Rightarrow> choice_loop p es s1
      | r \<Rightarrow> r)"

fun seq_loop :: "('a peg \<Rightarrow> 'v pstate \<Rightarrow> 'v outcome option) \<Rightarrow> 'v pstate \<Rightarrow> 'a peg list \<Rightarrow> 'v pvalue list
    \<Rightarrow> 'v pstate \<Rightarrow> 'v outcome option" where
  "seq_loop p pt [] vals s = Some (Match (VList vals) s)"
| "seq_loop p pt (e # es) vals s =
     (case p e s of
        Some (Match v s1) \<Rightarrow> seq_loop p pt es (vals @ [v]) s1
      | Some (NoMatch s1) \<Rightarrow> Some (NoMatch (restore pt s1))
      | r \<Rightarrow> r)"

text \<open>Repetition. A part that matches without advancing would be repeated for ever; the count of rounds
  is more than there are runes left, so it runs out only then.\<close>

fun star_loop :: "('v pstate \<Rightarrow> 'v outcome option) \<Rightarrow> nat \<Rightarrow> 'v pvalue list \<Rightarrow> 'v pstate
    \<Rightarrow> ('v pvalue list \<times> 'v pstate + string) option" where
  "star_loop p 0 vals s = None"
| "star_loop p (Suc n) vals s =
     (case framed p s of
        None \<Rightarrow> None
      | Some (Match v s1) \<Rightarrow> star_loop p n (vals @ [v]) s1
      | Some (NoMatch s1) \<Rightarrow> Some (Inl (vals, s1))
      | Some (Panics e) \<Rightarrow> Some (Inr e))"

definition match_star :: "('v pstate \<Rightarrow> 'v outcome option) \<Rightarrow> 'v pstate \<Rightarrow> 'v outcome option" where
  "match_star p s =
     (case star_loop p (Suc (length (ps_rest s))) [] s of
        None \<Rightarrow> None
      | Some (Inl (vals, s1)) \<Rightarrow> Some (Match (VList vals) s1)
      | Some (Inr e) \<Rightarrow> Some (Panics e))"

definition match_plus :: "('v pstate \<Rightarrow> 'v outcome option) \<Rightarrow> 'v pstate \<Rightarrow> 'v outcome option" where
  "match_plus p s =
     (case star_loop p (Suc (length (ps_rest s))) [] s of
        None \<Rightarrow> None
      | Some (Inl (vals, s1)) \<Rightarrow> Some (if vals = [] then NoMatch s1 else Match (VList vals) s1)
      | Some (Inr e) \<Rightarrow> Some (Panics e))"

fun match_opt :: "'v outcome \<Rightarrow> 'v outcome" where
  "match_opt (NoMatch s) = Match VNil s"
| "match_opt r = r"

fun match_and :: "'v pstate \<Rightarrow> 'v outcome \<Rightarrow> 'v outcome" where
  "match_and pt (Match v s) = Match VNil (restore pt s)"
| "match_and pt (NoMatch s) = NoMatch (restore pt s)"
| "match_and pt (Panics e) = Panics e"

fun match_not :: "'v pstate \<Rightarrow> 'v outcome \<Rightarrow> 'v outcome" where
  "match_not pt (Match v s) = NoMatch (restore pt s)"
| "match_not pt (NoMatch s) = Match VNil (restore pt s)"
| "match_not pt (Panics e) = Panics e"

fun run_action :: "('a, 'v) action_fn \<Rightarrow> 'a \<Rightarrow> 'v pstate \<Rightarrow> 'v outcome \<Rightarrow> 'v outcome" where
  "run_action act a start (Match v s) =
     (case act a (ps_labels s) (slice_from start s) of
        Acted w \<Rightarrow> Match w s
      | ActedErr w e \<Rightarrow> Match w (add_err e s)
      | ActPanic e \<Rightarrow> Panics e)"
| "run_action act a start r = r"

fun match_label :: "string \<Rightarrow> 'v outcome \<Rightarrow> 'v outcome" where
  "match_label l (Match v s) = (if l \<noteq> [] then Match v (s\<lparr>ps_labels := AList.update l v (ps_labels s)\<rparr>) else Match v s)"
| "match_label l r = r"

primrec run_peg :: "('a, 'v) action_fn \<Rightarrow> 'a rules \<Rightarrow> nat \<Rightarrow> 'a peg \<Rightarrow> 'v pstate \<Rightarrow> 'v outcome option" where
  "run_peg act rules 0 e s = None"
| "run_peg act rules (Suc fuel) e s =
     (case e of
        PAction a e1 \<Rightarrow> map_option (run_action act a s) (run_peg act rules fuel e1 s)
      | PChoice es \<Rightarrow> choice_loop (run_peg act rules fuel) es s
      | PSeq es \<Rightarrow> seq_loop (run_peg act rules fuel) s es [] s
      | PLabel l e1 \<Rightarrow> map_option (match_label l) (framed (run_peg act rules fuel e1) s)
      | PRef r \<Rightarrow>
          (case rules r of
             None \<Rightarrow> Some (NoMatch (add_err (''undefined rule: '' @ r) s))
           | Some e1 \<Rightarrow> framed (run_peg act rules fuel e1) s)
      | PLit v \<Rightarrow> Some (lit_loop s v s)
      | PClass cc \<Rightarrow> Some (match_class cc s)
      | PAny \<Rightarrow> Some (match_any s)
      | PAnd e1 \<Rightarrow> map_option (match_and s) (framed (run_peg act rules fuel e1) s)
      | PNot e1 \<Rightarrow> map_option (match_not s) (framed (run_peg act rules fuel e1) s)
      | PStar e1 \<Rightarrow> match_star (run_peg act rules fuel e1) s
      | PPlus e1 \<Rightarrow> match_plus (run_peg act rules fuel e1) s
      | POpt e1 \<Rightarrow> map_option match_opt (framed (run_peg act rules fuel e1) s))"

definition start_state :: "string \<Rightarrow> 'v pstate" where
  "start_state text = decoded \<lparr>ps_rest = decode_runes text, ps_labels = [], ps_errs = []\<rparr>"

text \<open>The start rule on a text. A panic is recovered and recorded; with any error recorded the parse
  fails, also when the start rule matched. What is left of the text is not looked at.\<close>

definition parse_text :: "('a, 'v) action_fn \<Rightarrow> 'a rules \<Rightarrow> nat \<Rightarrow> string \<Rightarrow> string \<Rightarrow> (string list + 'v pvalue) option" where
  "parse_text act rules fuel entry text =
     (case rules entry of
        None \<Rightarrow> Some (Inl [''invalid entrypoint''])
      | Some e \<Rightarrow>
          (case framed (run_peg act rules fuel e) (start_state text) of
             None \<Rightarrow> None
           | Some (Panics e) \<Rightarrow> Some (Inl [e])
           | Some (NoMatch s) \<Rightarrow> Some (Inl (if ps_errs s = [] then [''no match found''] else ps_errs s))
           | Some (Match v s) \<Rightarrow> Some (if ps_errs s = [] then Inr v else Inl (ps_errs s))))"

subsection \<open>Progress\<close>

text \<open>No outcome is further from the end of the text than its start, and a match of an expression that
  is not nullable is closer to it.\<close>

abbreviation left :: "'v pstate \<Rightarrow> nat" where
  "left s \<equiv> length (ps_rest s)"

fun forward :: "'v pstate \<Rightarrow> bool \<Rightarrow> 'v outcome \<Rightarrow> bool" where
  "forward s strict (Match v s1) \<longleftrightarrow> left s1 \<le> left s \<and> (strict \<longrightarrow> left s1 < left s)"
| "forward s strict (NoMatch s1) \<longleftrightarrow> left s1 \<le> left s"
| "forward s strict (Panics e) \<longleftrightarrow> True"

definition forwards :: "('v pstate \<Rightarrow> 'v outcome option) \<Rightarrow> bool \<Rightarrow> bool" where
  "forwards p strict \<longleftrightarrow> (\<forall>s r. p s = Some r \<longrightarrow> forward s strict r)"

lemma forwardsD: "forwards p strict \<Longrightarrow> p s = Some r \<Longrightarrow> forward s strict r"
  by (simp add: forwards_def)

lemma left_simps [simp]:
  "left (decoded s) = left s" "left (add_err e s) = left s" "left (restore pt s) = left pt"
  "left (read_rune s) = left s - 1"
  by (cases "ps_rest s"; simp add: decoded_def add_err_def restore_def read_rune_def split: list.split)+

lemma forward_labels [simp]: "forward (s\<lparr>ps_labels := m\<rparr>) strict r = forward s strict r"
  by (cases r) simp_all

lemma forward_pop [simp]: "forward s strict (pop_labels m r) = forward s strict r"
  by (cases r) simp_all

lemma framed_forwards: "forwards p strict \<Longrightarrow> forwards (framed p) strict"
  by (auto simp: forwards_def framed_def) (metis forward_labels)

lemma lit_forward: "left s \<le> left start \<Longrightarrow> forward start (cs \<noteq> [] \<or> left s < left start) (lit_loop start cs s)"
proof (induction cs arbitrary: s)
  case (Cons c cs)
  have "left (read_rune s) < left start" if "ps_rest s = r # rs" for r rs using that Cons.prems by auto
  then show ?case
    using Cons.IH [of "read_rune s"] by (auto split: list.split)
qed simp

lemma class_forward: "forward s True (match_class cc s)"
  by (auto simp: match_class_def Let_def split: list.split)

lemma any_forward: "forward s True (match_any s)"
  by (auto simp: match_any_def Let_def split: list.split)

lemma choice_forward:
  assumes "\<forall>e \<in> set es. forwards (p e) strict"
  shows "choice_loop p es s = Some r \<Longrightarrow> forward s strict r"
  using assms
proof (induction es arbitrary: s)
  case (Cons e es)
  have e: "forwards (framed (p e)) strict" using Cons.prems(2) by (auto intro: framed_forwards)
  show ?case
  proof (cases "framed (p e) s")
    case (Some r1)
    then have f: "forward s strict r1" using forwardsD [OF e] by blast
    show ?thesis
    proof (cases r1)
      case (NoMatch s1)
      then have "forward s1 strict r" using Cons Some by auto
      then show ?thesis using f NoMatch by (cases r) auto
    qed (use Cons.prems(1) Some f in auto)
  qed (use Cons.prems(1) in auto)
qed auto

lemma seq_forward:
  assumes "\<forall>e \<in> set es. forwards (p e) (\<not> nl e)" and "left s \<le> left pt"
  shows "seq_loop p pt es vals s = Some r \<Longrightarrow> forward pt (\<not> list_all nl es \<or> left s < left pt) r"
  using assms
proof (induction es arbitrary: s vals)
  case (Cons e es)
  have e: "forwards (p e) (\<not> nl e)" using Cons.prems(2) by auto
  show ?case
  proof (cases "p e s")
    case (Some r1)
    then have f: "forward s (\<not> nl e) r1" using forwardsD [OF e] by blast
    show ?thesis
    proof (cases r1)
      case (Match v s1)
      then have le: "left s1 \<le> left pt" using f Cons.prems(3) by simp
      have "forward pt (\<not> list_all nl es \<or> left s1 < left pt) r"
        using Cons.IH [OF _ _ le, of "vals @ [v]"] Cons.prems Some Match by simp
      then show ?thesis using f Match Cons.prems(3) by (cases r) auto
    qed (use Cons.prems Some f in auto)
  qed (use Cons.prems in auto)
qed auto

lemma star_forward:
  assumes "forwards p strict"
  shows "star_loop p n vals s = Some (Inl (vals', s1)) \<Longrightarrow>
    left s1 \<le> left s \<and> length vals \<le> length vals' \<and> (strict \<longrightarrow> length vals < length vals' \<longrightarrow> left s1 < left s)"
proof (induction n arbitrary: vals s)
  case (Suc n)
  show ?case
  proof (cases "framed p s")
    case (Some r)
    then have f: "forward s strict r" using forwardsD [OF framed_forwards [OF assms]] by blast
    show ?thesis
    proof (cases r)
      case (Match v s2)
      then have "star_loop p n (vals @ [v]) s2 = Some (Inl (vals', s1))" using Suc.prems Some by simp
      from Suc.IH [OF this] f Match show ?thesis by auto
    qed (use Suc.prems Some f in auto)
  qed (use Suc.prems in auto)
qed simp

text \<open>Whether an expression can match nothing, given the rules that can.\<close>

fun nullable :: "(string \<Rightarrow> bool) \<Rightarrow> 'a peg \<Rightarrow> bool" where
  "nullable nul (PAction a e) = nullable nul e"
| "nullable nul (PChoice es) = list_ex (nullable nul) es"
| "nullable nul (PSeq es) = list_all (nullable nul) es"
| "nullable nul (PLabel l e) = nullable nul e"
| "nullable nul (PRef r) = nul r"
| "nullable nul (PLit v) = (v = [])"
| "nullable nul (PClass cc) = False"
| "nullable nul PAny = False"
| "nullable nul (PAnd e) = True"
| "nullable nul (PNot e) = True"
| "nullable nul (PStar e) = True"
| "nullable nul (PPlus e) = nullable nul e"
| "nullable nul (POpt e) = True"

definition covers :: "'a rules \<Rightarrow> (string \<Rightarrow> bool) \<Rightarrow> bool" where
  "covers rules nul \<longleftrightarrow> (\<forall>r e. rules r = Some e \<longrightarrow> nullable nul e \<longrightarrow> nul r)"

lemma forward_weaken: "forward s True r \<Longrightarrow> forward s b r"
  by (cases r) auto

lemma forward_mono: "forward s b r \<Longrightarrow> (b' \<longrightarrow> b) \<Longrightarrow> forward s b' r"
  by (cases r) auto

lemma run_forward:
  assumes cov: "covers rules nul"
  shows "run_peg act rules fuel e s = Some r \<Longrightarrow> forward s (\<not> nullable nul e) r"
proof (induction fuel arbitrary: e s r)
  case (Suc fuel)
  let ?p = "run_peg act rules fuel"
  have all: "forwards (?p e1) (\<not> nullable nul e1)" for e1
    using Suc.IH by (simp add: forwards_def)
  have fr: "framed (?p e1) s = Some r1 \<Longrightarrow> forward s (\<not> nullable nul e1) r1" for e1 r1
    using forwardsD [OF framed_forwards [OF all]] .
  show ?case
  proof (cases e)
    case (PAction a e1)
    then obtain r1 where r1: "?p e1 s = Some r1" "r = run_action act a s r1" using Suc.prems by auto
    have "forward s (\<not> nullable nul e1) r1" using Suc.IH [OF r1(1)] .
    then show ?thesis using r1 PAction by (cases r1) (auto split: acted.split)
  next
    case (PChoice es)
    have "forward s (\<not> list_ex (nullable nul) es) r"
      by (rule choice_forward [of es ?p])
        (use Suc.prems PChoice all in \<open>auto simp: forwards_def list_ex_iff intro: forward_mono\<close>)
    then show ?thesis using PChoice by simp
  next
    case (PSeq es)
    have "forward s (\<not> list_all (nullable nul) es \<or> left s < left s) r"
      by (rule seq_forward [of es ?p]) (use Suc.prems PSeq all in auto)
    then show ?thesis using PSeq by simp
  next
    case (PLabel l e1)
    then obtain r1 where r1: "framed (?p e1) s = Some r1" "r = match_label l r1" using Suc.prems by auto
    then have "forward s (\<not> nullable nul e1) r1" using fr by blast
    then show ?thesis using r1 PLabel by (cases r1) auto
  next
    case (PRef n)
    show ?thesis
    proof (cases "rules n")
      case None
      then show ?thesis using Suc.prems PRef by auto
    next
      case (Some e1)
      then have "forward s (\<not> nullable nul e1) r" using Suc.prems PRef fr by simp
      then show ?thesis using PRef Some cov by (auto simp: covers_def intro: forward_mono)
    qed
  next
    case (PLit v)
    then show ?thesis using Suc.prems lit_forward [of s s v] by (auto intro: forward_mono)
  next
    case (PClass cc)
    then show ?thesis using Suc.prems class_forward by auto
  next
    case PAny
    then show ?thesis using Suc.prems any_forward by auto
  next
    case (PAnd e1)
    then obtain r1 where r1: "framed (?p e1) s = Some r1" "r = match_and s r1" using Suc.prems by auto
    then show ?thesis using PAnd by (cases r1) auto
  next
    case (PNot e1)
    then obtain r1 where r1: "framed (?p e1) s = Some r1" "r = match_not s r1" using Suc.prems by auto
    then show ?thesis using PNot by (cases r1) auto
  next
    case (PStar e1)
    obtain x where x: "star_loop (?p e1) (Suc (left s)) [] s = Some x"
      "r = (case x of Inl (vals, s1) \<Rightarrow> Match (VList vals) s1 | Inr e \<Rightarrow> Panics e)"
      using Suc.prems PStar by (auto simp: match_star_def split: option.splits sum.splits)
    then show ?thesis
      using star_forward [OF all [of e1], of "Suc (left s)" "[]" s] PStar by (auto split: sum.splits)
  next
    case (PPlus e1)
    obtain x where x: "star_loop (?p e1) (Suc (left s)) [] s = Some x"
      "r = (case x of Inl (vals, s1) \<Rightarrow> if vals = [] then NoMatch s1 else Match (VList vals) s1 | Inr e \<Rightarrow> Panics e)"
      using Suc.prems PPlus by (auto simp: match_plus_def split: option.splits sum.splits)
    then show ?thesis
      using star_forward [OF all [of e1], of "Suc (left s)" "[]" s] PPlus by (auto split: sum.splits)
  next
    case (POpt e1)
    then obtain r1 where r1: "framed (?p e1) s = Some r1" "r = match_opt r1" using Suc.prems by auto
    then show ?thesis using POpt fr [of e1 r1] by (cases r1) auto
  qed
qed simp

lemma run_forwards:
  assumes "covers rules nul"
  shows "forwards (run_peg act rules fuel e) (\<not> nullable nul e)"
    and "forwards (run_peg act rules fuel e) False"
proof -
  have "forward s (\<not> nullable nul e) r" if "run_peg act rules fuel e s = Some r" for s r
    using assms that by (rule run_forward)
  then show "forwards (run_peg act rules fuel e) (\<not> nullable nul e)" unfolding forwards_def by blast
  then show "forwards (run_peg act rules fuel e) False" unfolding forwards_def using forward_mono by blast
qed

subsection \<open>The parser ends\<close>

lemma framed_cong: "(\<And>s. p s \<noteq> None \<Longrightarrow> q s = p s) \<Longrightarrow> framed p s \<noteq> None \<Longrightarrow> framed q s = framed p s"
  by (auto simp: framed_def)

lemma choice_mono:
  assumes "\<And>e s. p e s \<noteq> None \<Longrightarrow> q e s = p e s"
  shows "choice_loop p es s \<noteq> None \<Longrightarrow> choice_loop q es s = choice_loop p es s"
proof (induction es arbitrary: s)
  case (Cons e es)
  have "framed (p e) s \<noteq> None" using Cons.prems by (auto split: option.splits)
  then have "framed (q e) s = framed (p e) s" using assms framed_cong [of "p e" "q e"] by blast
  then show ?case using Cons by (auto split: option.splits outcome.splits)
qed simp

lemma seq_mono:
  assumes "\<And>e s. p e s \<noteq> None \<Longrightarrow> q e s = p e s"
  shows "seq_loop p pt es vals s \<noteq> None \<Longrightarrow> seq_loop q pt es vals s = seq_loop p pt es vals s"
proof (induction es arbitrary: s vals)
  case (Cons e es)
  have "p e s \<noteq> None" using Cons.prems by (auto split: option.splits)
  then have "q e s = p e s" using assms by blast
  then show ?case using Cons by (auto split: option.splits outcome.splits)
qed simp

lemma star_mono:
  assumes "\<And>s. p s \<noteq> None \<Longrightarrow> q s = p s"
  shows "star_loop p n vals s \<noteq> None \<Longrightarrow> star_loop q n vals s = star_loop p n vals s"
proof (induction n arbitrary: s vals)
  case (Suc n)
  have "framed p s \<noteq> None" using Suc.prems by (auto split: option.splits)
  then have "framed q s = framed p s" using assms framed_cong [of p q] by blast
  then show ?case using Suc by (auto split: option.splits outcome.splits)
qed simp

lemma repeat_mono:
  assumes "\<And>s. p s \<noteq> None \<Longrightarrow> q s = p s"
  shows "match_star p s \<noteq> None \<Longrightarrow> match_star q s = match_star p s"
    and "match_plus p s \<noteq> None \<Longrightarrow> match_plus q s = match_plus p s"
  using star_mono [of p q "Suc (left s)" "[]" s, OF assms]
  by (auto simp: match_star_def match_plus_def simp del: star_loop.simps split: option.splits)

lemma repeat_ends: "star_loop p (Suc (left s)) [] s \<noteq> None \<Longrightarrow> match_star p s \<noteq> None \<and> match_plus p s \<noteq> None"
  by (auto simp: match_star_def match_plus_def simp del: star_loop.simps split: sum.split)

lemma run_mono1: "run_peg act rules fuel e s \<noteq> None \<Longrightarrow> run_peg act rules (Suc fuel) e s = run_peg act rules fuel e s"
proof (induction fuel arbitrary: e s)
  case (Suc fuel)
  let ?p = "run_peg act rules fuel" and ?q = "run_peg act rules (Suc fuel)"
  have IH: "\<And>e s. ?p e s \<noteq> None \<Longrightarrow> ?q e s = ?p e s" by (rule Suc.IH)
  have fr: "framed (?p e1) s \<noteq> None \<Longrightarrow> framed (?q e1) s = framed (?p e1) s" for e1
    using framed_cong [of "?p e1" "?q e1"] IH by blast
  have st: "match_star (?p e1) s \<noteq> None \<Longrightarrow> match_star (?q e1) s = match_star (?p e1) s"
    "match_plus (?p e1) s \<noteq> None \<Longrightarrow> match_plus (?q e1) s = match_plus (?p e1) s" for e1
    using repeat_mono [of "?p e1" "?q e1"] IH by blast+
  have q: "run_peg act rules (Suc (Suc fuel)) e s = (case e of
        PAction a e1 \<Rightarrow> map_option (run_action act a s) (?q e1 s)
      | PChoice es \<Rightarrow> choice_loop ?q es s
      | PSeq es \<Rightarrow> seq_loop ?q s es [] s
      | PLabel l e1 \<Rightarrow> map_option (match_label l) (framed (?q e1) s)
      | PRef r \<Rightarrow>
          (case rules r of
             None \<Rightarrow> Some (NoMatch (add_err (''undefined rule: '' @ r) s))
           | Some e1 \<Rightarrow> framed (?q e1) s)
      | PLit v \<Rightarrow> Some (lit_loop s v s)
      | PClass cc \<Rightarrow> Some (match_class cc s)
      | PAny \<Rightarrow> Some (match_any s)
      | PAnd e1 \<Rightarrow> map_option (match_and s) (framed (?q e1) s)
      | PNot e1 \<Rightarrow> map_option (match_not s) (framed (?q e1) s)
      | PStar e1 \<Rightarrow> match_star (?q e1) s
      | PPlus e1 \<Rightarrow> match_plus (?q e1) s
      | POpt e1 \<Rightarrow> map_option match_opt (framed (?q e1) s))" by (rule run_peg.simps)
  show ?case
  proof (cases e)
    case (PAction a e1) then show ?thesis using Suc.prems IH unfolding q by auto
  next
    case (PChoice es) then show ?thesis using Suc.prems choice_mono [of ?p ?q, OF IH] unfolding q by auto
  next
    case (PSeq es) then show ?thesis using Suc.prems seq_mono [of ?p ?q, OF IH] unfolding q by auto
  next
    case (PLabel l e1) then show ?thesis using Suc.prems fr unfolding q by auto
  next
    case (PRef r) then show ?thesis using Suc.prems fr unfolding q by (auto split: option.splits)
  next
    case (PAnd e1) then show ?thesis using Suc.prems fr unfolding q by auto
  next
    case (PNot e1) then show ?thesis using Suc.prems fr unfolding q by auto
  next
    case (PStar e1) then show ?thesis using Suc.prems st unfolding q by simp
  next
    case (PPlus e1) then show ?thesis using Suc.prems st unfolding q by simp
  next
    case (POpt e1) then show ?thesis using Suc.prems fr unfolding q by auto
  qed (simp_all add: q)
qed simp

lemma run_mono: "fuel \<le> fuel' \<Longrightarrow> run_peg act rules fuel e s \<noteq> None \<Longrightarrow> run_peg act rules fuel' e s = run_peg act rules fuel e s"
proof (induction rule: dec_induct)
  case (step n)
  then show ?case using run_mono1 [of act rules n e s] by (simp del: run_peg.simps)
qed simp

text \<open>The depth of the expressions that can be run before any rune is consumed, given that of the rules.\<close>

fun left_max :: "('a peg \<Rightarrow> bool) \<Rightarrow> ('a peg \<Rightarrow> nat) \<Rightarrow> 'a peg list \<Rightarrow> nat" where
  "left_max nl h [] = 0"
| "left_max nl h (e # es) = (if nl e then max (h e) (left_max nl h es) else h e)"

lemma left_max_cong [fundef_cong]:
  "es = es' \<Longrightarrow> (\<And>e. e \<in> set es' \<Longrightarrow> nl e = nl' e) \<Longrightarrow> (\<And>e. e \<in> set es' \<Longrightarrow> h e = h' e)
   \<Longrightarrow> left_max nl h es = left_max nl' h' es'"
  by (induction es arbitrary: es') auto

fun height :: "(string \<Rightarrow> bool) \<Rightarrow> (string \<Rightarrow> nat) \<Rightarrow> 'a peg \<Rightarrow> nat" where
  "height nul rk (PAction a e) = Suc (height nul rk e)"
| "height nul rk (PChoice es) = Suc (foldr max (map (height nul rk) es) 0)"
| "height nul rk (PSeq es) = Suc (left_max (nullable nul) (height nul rk) es)"
| "height nul rk (PLabel l e) = Suc (height nul rk e)"
| "height nul rk (PRef r) = Suc (rk r)"
| "height nul rk (PAnd e) = Suc (height nul rk e)"
| "height nul rk (PNot e) = Suc (height nul rk e)"
| "height nul rk (PStar e) = Suc (height nul rk e)"
| "height nul rk (PPlus e) = Suc (height nul rk e)"
| "height nul rk (POpt e) = Suc (height nul rk e)"
| "height nul rk e = 1"

fun repeats_ok :: "(string \<Rightarrow> bool) \<Rightarrow> 'a peg \<Rightarrow> bool" where
  "repeats_ok nul (PStar e) = (\<not> nullable nul e)"
| "repeats_ok nul (PPlus e) = (\<not> nullable nul e)"
| "repeats_ok nul e = True"

fun parts :: "'a peg \<Rightarrow> 'a peg list" where
  "parts (PAction a e) = PAction a e # parts e"
| "parts (PChoice es) = PChoice es # concat (map parts es)"
| "parts (PSeq es) = PSeq es # concat (map parts es)"
| "parts (PLabel l e) = PLabel l e # parts e"
| "parts (PAnd e) = PAnd e # parts e"
| "parts (PNot e) = PNot e # parts e"
| "parts (PStar e) = PStar e # parts e"
| "parts (PPlus e) = PPlus e # parts e"
| "parts (POpt e) = POpt e # parts e"
| "parts e = [e]"

lemma part_self: "e \<in> set (parts e)"
  by (cases e) simp_all

lemma part_trans: "d \<in> set (parts e) \<Longrightarrow> c \<in> set (parts d) \<Longrightarrow> c \<in> set (parts e)"
  by (induction e rule: parts.induct) auto

definition all_parts :: "(string \<times> 'a peg) list \<Rightarrow> 'a peg list" where
  "all_parts g = concat (map (\<lambda>(r, e). parts e) g)"

text \<open>The rules \<open>nul\<close> can match nothing and no others, no repetition is of a part that can, the depth of a
  rule is at most its rank, so no rule calls itself before a rune is consumed, and no part is deeper
  than \<open>k\<close>.\<close>

definition grammar_ok :: "(string \<Rightarrow> bool) \<Rightarrow> (string \<Rightarrow> nat) \<Rightarrow> nat \<Rightarrow> (string \<times> 'a peg) list \<Rightarrow> bool" where
  "grammar_ok nul rk k g \<longleftrightarrow>
     list_all (\<lambda>(r, e). (nullable nul e \<longrightarrow> nul r) \<and> height nul rk e \<le> rk r
       \<and> list_all (\<lambda>p. repeats_ok nul p \<and> height nul rk p \<le> k) (parts e)) g"

lemma grammar_okD:
  assumes "grammar_ok nul rk k g"
  shows "map_of g r = Some e \<Longrightarrow> (nullable nul e \<longrightarrow> nul r) \<and> height nul rk e \<le> rk r"
    and "p \<in> set (all_parts g) \<Longrightarrow> repeats_ok nul p \<and> height nul rk p \<le> k"
  using assms by (auto simp: grammar_ok_def list_all_iff all_parts_def dest!: map_of_SomeD)

lemma grammar_covers: "grammar_ok nul rk k g \<Longrightarrow> covers (map_of g) nul"
  using grammar_okD(1) by (fastforce simp: covers_def)

lemma part_of_rule: "map_of g r = Some e \<Longrightarrow> e \<in> set (all_parts g)"
  by (auto simp: all_parts_def dest!: map_of_SomeD intro!: part_self bexI)

lemma part_of_part: "e \<in> set (all_parts g) \<Longrightarrow> d \<in> set (parts e) \<Longrightarrow> d \<in> set (all_parts g)"
  by (auto simp: all_parts_def intro: part_trans)

lemma framed_ends: "(\<And>s1. ps_rest s1 = ps_rest s \<Longrightarrow> p s1 \<noteq> None) \<Longrightarrow> framed p s \<noteq> None"
  by (simp add: framed_def)

lemma choice_ends:
  assumes "\<And>e s. e \<in> set es \<Longrightarrow> left s \<le> n \<Longrightarrow> p e s \<noteq> None" and "\<And>e. forwards (p e) False"
  shows "left s \<le> n \<Longrightarrow> choice_loop p es s \<noteq> None"
  using assms(1)
proof (induction es arbitrary: s)
  case (Cons e es)
  have "framed (p e) s \<noteq> None" by (rule framed_ends) (use Cons.prems in simp)
  then obtain r where r: "framed (p e) s = Some r" by blast
  have f: "forward s False r" using forwardsD [OF framed_forwards [OF assms(2)] r] .
  show ?case
  proof (cases r)
    case (NoMatch s1)
    then have "left s1 \<le> n" using f Cons.prems(1) by simp
    then have "choice_loop p es s1 \<noteq> None" using Cons by simp
    then show ?thesis using r NoMatch by simp
  qed (use r in auto)
qed simp

lemma seq_ends:
  assumes here: "\<And>e s. e \<in> set es \<Longrightarrow> h e \<le> k \<Longrightarrow> left s \<le> n \<Longrightarrow> p e s \<noteq> None"
    and later: "\<And>e s. e \<in> set es \<Longrightarrow> left s < n \<Longrightarrow> p e s \<noteq> None"
    and fwd: "\<And>e. forwards (p e) (\<not> nl e)"
  shows "left s \<le> n \<Longrightarrow> left s < n \<or> left_max nl h es \<le> k \<Longrightarrow> seq_loop p pt es vals s \<noteq> None"
  using here later
proof (induction es arbitrary: s vals)
  case (Cons e es)
  have "p e s \<noteq> None"
    using Cons.prems by (cases "left s < n") (auto split: if_splits)
  then obtain r where r: "p e s = Some r" by blast
  have f: "forward s (\<not> nl e) r" using forwardsD [OF fwd r] .
  show ?case
  proof (cases r)
    case (Match v s1)
    then have "left s1 \<le> n" "left s1 < n \<or> left_max nl h es \<le> k" using f Cons.prems(1,2) by (auto split: if_splits)
    then have "seq_loop p pt es (vals @ [v]) s1 \<noteq> None" using Cons.IH Cons.prems(3,4) by simp
    then show ?thesis using r Match by simp
  qed (use r in auto)
qed simp

lemma star_ends:
  assumes "\<And>s. left s \<le> n \<Longrightarrow> p s \<noteq> None" and "forwards p True"
  shows "left s \<le> n \<Longrightarrow> left s < m \<Longrightarrow> star_loop p m vals s \<noteq> None"
proof (induction m arbitrary: s vals)
  case (Suc m)
  have "framed p s \<noteq> None" by (rule framed_ends) (use Suc.prems assms(1) in simp)
  then obtain r where r: "framed p s = Some r" by blast
  have f: "forward s True r" using forwardsD [OF framed_forwards [OF assms(2)] r] .
  show ?case
  proof (cases r)
    case (Match v s1)
    then have "left s1 \<le> n" "left s1 < m" using f Suc.prems by auto
    then show ?thesis using r Match Suc.IH by simp
  qed (use r in auto)
qed simp

lemma height_choice: "e \<in> set es \<Longrightarrow> height nul rk e \<le> foldr max (map (height nul rk) es) 0"
  by (induction es) auto

lemma run_ends:
  assumes ok: "grammar_ok nul rk K g"
  shows "e \<in> set (all_parts g) \<Longrightarrow> height nul rk e \<le> k \<Longrightarrow> left s \<le> n \<Longrightarrow> run_peg act (map_of g) (n * K + k) e s \<noteq> None"
proof (induction n arbitrary: k e s rule: less_induct)
  case (less n)
  note outer = less.IH
  have later: "run_peg act (map_of g) (n * K + j) e1 s1 \<noteq> None" if part: "e1 \<in> set (all_parts g)" and lt: "left s1 < n" for e1 s1 j
  proof -
    obtain n' where n: "n = Suc n'" using lt by (cases n) auto
    have "run_peg act (map_of g) (n' * K + K) e1 s1 \<noteq> None"
      using outer [of n' e1 K s1] part lt n grammar_okD(2) [OF ok part] by simp
    moreover have "n' * K + K \<le> n * K + j" by (simp add: n)
    ultimately show ?thesis using run_mono by metis
  qed
  from less.prems show ?case
  proof (induction k arbitrary: e s)
    case 0
    have "0 < height nul rk e" by (cases e) simp_all
    then show ?case using 0 by simp
  next
    case (Suc k)
    let ?p = "run_peg act (map_of g) (n * K + k)"
    note fwd = run_forwards(1) [OF grammar_covers [OF ok], where act = act and fuel = "n * K + k"]
    note fwd0 = run_forwards(2) [OF grammar_covers [OF ok], where act = act and fuel = "n * K + k"]
    have here: "?p d s1 \<noteq> None" if "d \<in> set (all_parts g)" "height nul rk d \<le> k" "left s1 \<le> n" for d s1
      using Suc.IH that by blast
    have part: "d \<in> set (all_parts g)" if "d \<in> set (parts e)" for d using part_of_part Suc.prems(1) that by blast
    have sub: "framed (?p d) s \<noteq> None" if "d \<in> set (all_parts g)" "height nul rk d \<le> k" for d
      by (rule framed_ends) (use here that Suc.prems(3) in simp)
    have st: "match_star (?p d) s \<noteq> None \<and> match_plus (?p d) s \<noteq> None"
      if d: "d \<in> set (all_parts g)" "height nul rk d \<le> k" "\<not> nullable nul d" for d
    proof (rule repeat_ends, rule star_ends [OF _ _ Suc.prems(3)])
      show "?p d s1 \<noteq> None" if "left s1 \<le> n" for s1 using here d that by blast
      show "forwards (?p d) True" using fwd [of d] d(3) by simp
    qed simp
    have rep: "repeats_ok nul e" using grammar_okD(2) [OF ok Suc.prems(1)] by blast
    show ?case
    proof (cases e)
      case (PAction a d)
      then show ?thesis using here [of d s] part [of d] part_self Suc.prems by auto
    next
      case (PChoice es)
      have es: "d \<in> set (all_parts g)" "height nul rk d \<le> k" if "d \<in> set es" for d
        using PChoice part [of d] part_self [of d] Suc.prems(2) that height_choice [OF that, of nul rk] by auto
      have "choice_loop ?p es s \<noteq> None"
        by (rule choice_ends [OF _ fwd0 Suc.prems(3)]) (rule here [OF es])
      then show ?thesis using PChoice by simp
    next
      case (PSeq es)
      have es: "d \<in> set (all_parts g)" if "d \<in> set es" for d
        using PSeq part [of d] part_self [of d] that by auto
      have "seq_loop ?p s es [] s \<noteq> None"
      proof (rule seq_ends [OF _ _ fwd Suc.prems(3)])
        show "?p d s1 \<noteq> None" if "d \<in> set es" "height nul rk d \<le> k" "left s1 \<le> n" for d s1
          using here es that by blast
        show "?p d s1 \<noteq> None" if "d \<in> set es" "left s1 < n" for d s1 using later es that by blast
        show "left s < n \<or> left_max (nullable nul) (height nul rk) es \<le> k" using PSeq Suc.prems(2) by simp
      qed
      then show ?thesis using PSeq by simp
    next
      case (PLabel l d)
      then show ?thesis using sub [of d] part [of d] part_self Suc.prems by auto
    next
      case (PRef r)
      show ?thesis
      proof (cases "map_of g r")
        case (Some d)
        then have "height nul rk d \<le> k" using PRef Suc.prems(2) grammar_okD(1) [OF ok Some] by simp
        then have "framed (?p d) s \<noteq> None" using part_of_rule [OF Some] by (intro sub)
        then show ?thesis using PRef Some by simp
      qed (use PRef in simp)
    next
      case (PAnd d)
      then show ?thesis using sub [of d] part [of d] part_self Suc.prems by auto
    next
      case (PNot d)
      then show ?thesis using sub [of d] part [of d] part_self Suc.prems by auto
    next
      case (PStar d)
      then have "match_star (?p d) s \<noteq> None" using st [of d] part [of d] part_self Suc.prems rep by auto
      then show ?thesis using PStar by simp
    next
      case (PPlus d)
      then have "match_plus (?p d) s \<noteq> None" using st [of d] part [of d] part_self Suc.prems rep by auto
      then show ?thesis using PPlus by simp
    next
      case (POpt d)
      then show ?thesis using sub [of d] part [of d] part_self Suc.prems by auto
    qed simp_all
  qed
qed

definition fuel_for :: "nat \<Rightarrow> string \<Rightarrow> nat" where
  "fuel_for k text = (length (decode_runes text) + 1) * k"

lemma parse_text_ends:
  assumes "grammar_ok nul rk k g"
  shows "parse_text act (map_of g) (fuel_for k text) entry text \<noteq> None"
proof (cases "map_of g entry")
  case (Some e)
  let ?s = "start_state text :: 'b pstate"
  have e: "e \<in> set (all_parts g)" using Some by (rule part_of_rule)
  have "framed (run_peg act (map_of g) (fuel_for k text) e) ?s \<noteq> None"
  proof (rule framed_ends)
    fix s1 :: "'b pstate" assume "ps_rest s1 = ps_rest ?s"
    then have "left s1 \<le> length (decode_runes text)" by (simp add: start_state_def)
    then have "run_peg act (map_of g) (length (decode_runes text) * k + k) e s1 \<noteq> None"
      using run_ends [OF assms e] grammar_okD(2) [OF assms e] by blast
    then show "run_peg act (map_of g) (fuel_for k text) e s1 \<noteq> None" by (simp add: fuel_for_def algebra_simps)
  qed
  then show ?thesis using Some by (auto simp: parse_text_def split: outcome.split)
qed (simp add: parse_text_def)

end
