(* ===== verification/Query_Grammar.thy ===== *)
theory Query_Grammar
  imports Peg_Engine Filters
begin

section \<open>The parser of the query language: its grammar\<close>

text \<open>
  The rule table and the actions of \<^verbatim>\<open>query/grammar/grammar.go\<close> (generated from \<^verbatim>\<open>grammar.peg\<close>), and
  \<^verbatim>\<open>query/grammar/grammar_parser.go\<close>. The values actions compute are dynamically typed; an assertion of
  the wrong type is a panic, which the engine recovers. What is shown: the parser ends on every text,
  no assertion fails, a successful parse is a query field, and what some texts are read as. The value
  of a floating point number is the text that \<open>%v\<close> prints for it, given by a parameter.
\<close>

subsection \<open>Values\<close>

datatype gval = GField query_field | GStr string | GOp query_op | GInt int | GFloat string | GMeasure string string

text \<open>The text \<open>%v\<close> prints; the number of a measure is kept as that text.\<close>

fun show_value :: "gval pvalue \<Rightarrow> string" where
  "show_value (VAct (GInt n)) = int_text n"
| "show_value (VAct (GFloat t)) = t"
| "show_value (VAct (GStr s)) = s"
| "show_value (VAct (GMeasure n u)) = ''&{'' @ n @ '' '' @ u @ ''}''"
| "show_value VNil = ''<nil>''"
| "show_value v = []"

text \<open>A value of a query field is kept as a string or as the text that prints it.\<close>

fun value_of :: "gval pvalue \<Rightarrow> qvalue" where
  "value_of VNil = QNil"
| "value_of (VAct (GStr s)) = QStr s"
| "value_of v = QOther (show_value v)"

fun to_peg_value :: "gval pvalue \<Rightarrow> peg_value" where
  "to_peg_value (VAct (GField f)) = PField f"
| "to_peg_value (VAct (GStr s)) = PString s"
| "to_peg_value (VList vs) = PList (map to_peg_value vs)"
| "to_peg_value v = PUnknown"

fun op_of_text :: "string \<Rightarrow> query_op" where
  "op_of_text t =
     (if t = ''='' then QEq else if t = ''!='' then QNeq else if t = ''>'' then QGt else if t = ''<'' then QLt
      else if t = ''in'' then QIn else if t = ''notin'' then QNotIn else if t = ''exists'' then QExists
      else if t = ''notexists'' then QNotExists else QOpOther t)"

subsection \<open>Actions\<close>

datatype peg_action =
    OnQuery1 | OnOrQuery1 | OnAndQuery1 | OnFieldQuery2 | OnFieldQuery12 | OnFieldQuery18 | OnFieldQuery24
  | OnFieldQuery31 | OnField1 | OnExistsField2 | OnExistsField11 | OnExistSource1 | OnExistPrefix1 | OnSource1
  | OnPathSegment3 | OnOperator1 | OnValue1 | OnString1 | OnISODate1 | OnTime1 | OnDateTime1 | OnWord3
  | OnInteger1 | OnMeasure1 | OnFloat1 | OnIdentifier1

definition conversion_panic :: "gval acted" where
  "conversion_panic = ActPanic ''interface conversion''"

definition leaf :: "string \<Rightarrow> query_op \<Rightarrow> qvalue \<Rightarrow> gval acted" where
  "leaf field op v = Acted (VAct (GField (QueryField field FieldTypeUnknown v op [])))"

text \<open>\<open>makeSource\<close> with its assertions: each element of the path is the dot and a segment.\<close>

fun path_part :: "gval pvalue \<Rightarrow> (string \<times> string list) option" where
  "path_part (VList (VBytes d # vs)) =
     (if \<forall>v \<in> set vs. case v of VAct (GStr s) \<Rightarrow> True | _ \<Rightarrow> False
      then Some (d, map (\<lambda>v. case v of VAct (GStr s) \<Rightarrow> s | _ \<Rightarrow> []) vs) else None)"
| "path_part v = None"

definition source_action :: "gval pvalue \<Rightarrow> gval pvalue \<Rightarrow> gval acted" where
  "source_action name path =
     (case (name, path) of
        (VAct (GStr n), VList ps) \<Rightarrow>
          (if \<forall>p \<in> set ps. path_part p \<noteq> None
           then Acted (VAct (GStr (make_source n (map (\<lambda>p. the (path_part p)) ps)))) else conversion_panic)
      | _ \<Rightarrow> conversion_panic)"

text \<open>Code points below 128 are one byte; \<open>string(j[0])\<close> of a larger byte is the rune with that code.\<close>

definition rune_text :: "char \<Rightarrow> string" where
  "rune_text c = (let n = of_char c :: nat in
     if n < 128 then [c] else [char_of (192 + n div 64), char_of (128 + n mod 64)])"

fun first_byte :: "gval pvalue \<Rightarrow> string option" where
  "first_byte (VBytes (b # bs)) = Some (rune_text b)"
| "first_byte v = None"

definition string_from_chars :: "gval pvalue \<Rightarrow> gval acted" where
  "string_from_chars chars =
     (case chars of
        VList vs \<Rightarrow> if \<forall>v \<in> set vs. first_byte v \<noteq> None
          then Acted (VAct (GStr (concat (map (\<lambda>v. the (first_byte v)) vs)))) else conversion_panic
      | _ \<Rightarrow> conversion_panic)"

definition with_star :: "gval pvalue \<Rightarrow> gval pvalue" where
  "with_star n = (case n of VAct (GStr s) \<Rightarrow> if \<not> contains ''*'' s then VAct (GStr (s @ ''*'')) else n | _ \<Rightarrow> n)"

definition field_action :: "gval pvalue \<Rightarrow> gval pvalue \<Rightarrow> gval pvalue \<Rightarrow> gval acted" where
  "field_action src op value =
     (case (src, op) of
        (VAct (GStr f), VAct (GOp p)) \<Rightarrow> leaf f p (value_of value)
      | _ \<Rightarrow> conversion_panic)"

definition exists_action :: "query_op \<Rightarrow> gval pvalue \<Rightarrow> gval acted" where
  "exists_action op src = (case src of VAct (GStr f) \<Rightarrow> leaf f op QNil | _ \<Rightarrow> conversion_panic)"

definition as_field :: "gval pvalue \<Rightarrow> gval acted" where
  "as_field v = (case v of VAct (GField f) \<Rightarrow> Acted v | _ \<Rightarrow> conversion_panic)"

definition integer_action :: "string \<Rightarrow> gval acted" where
  "integer_action text =
     (case parse_int64 text of
        Some n \<Rightarrow> Acted (VAct (GInt n))
      | None \<Rightarrow> ActedErr (VAct (GInt (if has_prefix ''-'' text then - (2 ^ 63) else 2 ^ 63 - 1)))
          (''strconv.ParseInt: parsing '' @ go_quote text @ '': value out of range''))"

definition measure_action :: "gval pvalue \<Rightarrow> gval pvalue \<Rightarrow> gval acted" where
  "measure_action num unit =
     (case unit of VAct (GStr u) \<Rightarrow> Acted (VAct (GMeasure (show_value num) u)) | _ \<Rightarrow> conversion_panic)"

text \<open>\<open>float_text\<close> is \<open>strconv.ParseFloat\<close> followed by \<open>%v\<close>: the error's text or the value's.\<close>

fun act :: "(string \<Rightarrow> string + string) \<Rightarrow> peg_action \<Rightarrow> gval labels \<Rightarrow> string \<Rightarrow> gval acted" where
  "act ft OnQuery1 m text = Acted (VAct (GField (make_and_query (to_peg_value (stack_value m ''aq'')) (to_peg_value (stack_value m ''oq'')))))"
| "act ft OnOrQuery1 m text = Acted (stack_value m ''aq'')"
| "act ft OnAndQuery1 m text = Acted (VAct (GField (make_and_query (to_peg_value (stack_value m ''fq'')) (to_peg_value (stack_value m ''fqs'')))))"
| "act ft OnFieldQuery2 m text = as_field (stack_value m ''q'')"
| "act ft OnFieldQuery12 m text = Acted (stack_value m ''ef'')"
| "act ft OnFieldQuery18 m text = as_field (stack_value m ''f'')"
| "act ft OnFieldQuery24 m text = leaf ''name'' (QOpOther ''not'') (value_of (with_star (stack_value m ''n'')))"
| "act ft OnFieldQuery31 m text = leaf ''name'' QEq (value_of (with_star (stack_value m ''n'')))"
| "act ft OnField1 m text = field_action (stack_value m ''src'') (stack_value m ''op'') (stack_value m ''value'')"
| "act ft OnExistsField2 m text = exists_action QNotExists (stack_value m ''src'')"
| "act ft OnExistsField11 m text = exists_action QExists (stack_value m ''src'')"
| "act ft OnExistSource1 m text = source_action (stack_value m ''name'') (stack_value m ''path'')"
| "act ft OnExistPrefix1 m text = Acted (VAct (GStr text))"
| "act ft OnSource1 m text = source_action (stack_value m ''name'') (stack_value m ''path'')"
| "act ft OnPathSegment3 m text = Acted (VAct (GStr text))"
| "act ft OnOperator1 m text = Acted (VAct (GOp (op_of_text text)))"
| "act ft OnValue1 m text = Acted (stack_value m ''val'')"
| "act ft OnString1 m text = string_from_chars (stack_value m ''chars'')"
| "act ft OnISODate1 m text = Acted (VAct (GStr text))"
| "act ft OnTime1 m text = Acted (VAct (GStr text))"
| "act ft OnDateTime1 m text = Acted (VAct (GStr text))"
| "act ft OnWord3 m text = Acted (VAct (GStr text))"
| "act ft OnInteger1 m text = integer_action text"
| "act ft OnMeasure1 m text = measure_action (stack_value m ''number'') (stack_value m ''unit'')"
| "act ft OnFloat1 m text = (case ft text of Inr t \<Rightarrow> Acted (VAct (GFloat t)) | Inl e \<Rightarrow> ActedErr (VAct (GFloat [])) e)"
| "act ft OnIdentifier1 m text = Acted (VAct (GStr text))"

subsection \<open>Rules\<close>

text \<open>The ends of the ranges of a class are listed one after the other.\<close>

fun range_pairs :: "string \<Rightarrow> (char \<times> char) list" where
  "range_pairs (lo # hi # cs) = (lo, hi) # range_pairs cs"
| "range_pairs cs = []"

definition cls :: "string \<Rightarrow> string \<Rightarrow> bool \<Rightarrow> char_class" where
  "cls chars ranges inverted = \<lparr>cc_chars = chars, cc_ranges = range_pairs ranges, cc_inverted = inverted\<rparr>"

definition rule_query :: "peg_action peg" where
  "rule_query =
     (PAction OnQuery1 (PSeq [(PLabel ''aq'' (PRef ''AndQuery'')),
         (PRef ''_''),
         (PLabel ''oq'' (PStar (PRef ''OrQuery''))),
         (PRef ''_'')]))"

definition rule_or_query :: "peg_action peg" where
  "rule_or_query =
     (PAction OnOrQuery1 (PSeq [(PRef ''_''),
         (PLit ''|''),
         (PRef ''_''),
         (PLabel ''aq'' (PRef ''AndQuery'')),
         (PRef ''_'')]))"

definition rule_and_query :: "peg_action peg" where
  "rule_and_query =
     (PAction OnAndQuery1 (PSeq [(PRef ''_''),
         (PLabel ''fq'' (PRef ''FieldQuery'')),
         (PRef ''_''),
         (PLabel ''fqs'' (PStar (PRef ''FieldQuery''))),
         (PRef ''_'')]))"

definition rule_field_query :: "peg_action peg" where
  "rule_field_query =
     (PChoice [(PAction OnFieldQuery2 (PSeq [(PRef ''_''),
                   (PLit ''(''),
                   (PRef ''_''),
                   (PLabel ''q'' (PRef ''Query'')),
                   (PRef ''_''),
                   (PLit '')''),
                   (PRef ''_'')])),
     (PAction OnFieldQuery12 (PSeq [(PRef ''_''),
                   (PLabel ''ef'' (PRef ''ExistsField'')),
                   (PRef ''_'')])),
     (PAction OnFieldQuery18 (PSeq [(PRef ''_''),
                   (PLabel ''f'' (PRef ''Field'')),
                   (PRef ''_'')])),
     (PAction OnFieldQuery24 (PSeq [(PRef ''_''),
                   (PLit ''-''),
                   (PLabel ''n'' (PRef ''Word'')),
                   (PRef ''_'')])),
     (PAction OnFieldQuery31 (PSeq [(PRef ''_''),
                   (PLabel ''n'' (PChoice [(PRef ''Word''),
                            (PRef ''Identifier'')])),
                   (PRef ''_'')]))])"

definition rule_field :: "peg_action peg" where
  "rule_field =
     (PAction OnField1 (PSeq [(PLabel ''src'' (PRef ''Source'')),
         (PRef ''_''),
         (PLabel ''op'' (PRef ''Operator'')),
         (PRef ''_''),
         (PLabel ''value'' (PRef ''Value''))]))"

definition rule_exists_field :: "peg_action peg" where
  "rule_exists_field =
     (PChoice [(PAction OnExistsField2 (PSeq [(PLit ''!''),
                   (PRef ''_''),
                   (PLabel ''src'' (PRef ''ExistSource'')),
                   (PRef ''_''),
                   (PNot (PRef ''Operator''))])),
     (PAction OnExistsField11 (PSeq [(PLabel ''src'' (PRef ''ExistSource'')),
                   (PRef ''_''),
                   (PNot (PRef ''Operator''))]))])"

definition rule_exist_source :: "peg_action peg" where
  "rule_exist_source =
     (PAction OnExistSource1 (PSeq [(PLabel ''name'' (PRef ''ExistPrefix'')),
         (PLabel ''path'' (PPlus (PSeq [(PLit ''.''),
                    (PRef ''PathSegment'')])))]))"

definition rule_exist_prefix :: "peg_action peg" where
  "rule_exist_prefix =
     (PAction OnExistPrefix1 (PChoice [(PLit ''labels''),
         (PLit ''tags''),
         (PLit ''properties'')]))"

definition rule_source :: "peg_action peg" where
  "rule_source =
     (PAction OnSource1 (PSeq [(PLabel ''name'' (PRef ''PathSegment'')),
         (PLabel ''path'' (PStar (PSeq [(PLit ''.''),
                    (PRef ''PathSegment'')])))]))"

definition rule_path_segment :: "peg_action peg" where
  "rule_path_segment =
     (PChoice [(PRef ''String''),
     (PAction OnPathSegment3 (PPlus (PClass (cls (''@_*/,:'' @ [CHR 0x5C] @ ''[]-'') ''azAZ09'' False))))])"

definition rule_not :: "peg_action peg" where
  "rule_not =
     (PLit ''-'')"

definition rule_operator :: "peg_action peg" where
  "rule_operator =
     (PAction OnOperator1 (PLabel ''op'' (PChoice [(PLit ''<=''),
           (PLit ''>=''),
           (PLit ''=''),
           (PLit '':''),
           (PLit ''!=''),
           (PLit ''<''),
           (PLit ''>'')])))"

definition rule_value :: "peg_action peg" where
  "rule_value =
     (PAction OnValue1 (PLabel ''val'' (PChoice [(PRef ''DateTime''),
           (PRef ''ISODate''),
           (PRef ''Time''),
           (PRef ''Measure''),
           (PRef ''Float''),
           (PRef ''Integer''),
           (PRef ''Identifier''),
           (PRef ''String'')])))"

definition rule_string :: "peg_action peg" where
  "rule_string =
     (PAction OnString1 (PSeq [(PLit [CHR 0x22]),
         (PLabel ''chars'' (PStar (PClass (cls [CHR 0x22] [] True)))),
         (PLit [CHR 0x22])]))"

definition rule_iso_date :: "peg_action peg" where
  "rule_iso_date =
     (PAction OnISODate1 (PSeq [(PClass (cls [] ''09'' False)),
         (PClass (cls [] ''09'' False)),
         (PClass (cls [] ''09'' False)),
         (PClass (cls [] ''09'' False)),
         (PLit ''-''),
         (PClass (cls [] ''09'' False)),
         (PClass (cls [] ''09'' False)),
         (PLit ''-''),
         (PClass (cls [] ''09'' False)),
         (PClass (cls [] ''09'' False))]))"

definition rule_time :: "peg_action peg" where
  "rule_time =
     (PAction OnTime1 (PSeq [(PClass (cls [] ''02'' False)),
         (PClass (cls [] ''09'' False)),
         (PLit '':''),
         (PClass (cls [] ''05'' False)),
         (PClass (cls [] ''09'' False)),
         (PLit '':''),
         (PClass (cls [] ''05'' False)),
         (PClass (cls [] ''09'' False))]))"

definition rule_date_time :: "peg_action peg" where
  "rule_date_time =
     (PAction OnDateTime1 (PSeq [(PRef ''ISODate''),
         (PRef ''_''),
         (PRef ''Time'')]))"

definition rule_word :: "peg_action peg" where
  "rule_word =
     (PChoice [(PRef ''String''),
     (PAction OnWord3 (PSeq [(POpt (PClass (cls ''-'' [] False))),
                   (PPlus (PClass (cls ''@_*-'' ''azAZ09'' False)))]))])"

definition rule_integer :: "peg_action peg" where
  "rule_integer =
     (PAction OnInteger1 (PSeq [(POpt (PClass (cls ''+-'' [] False))),
         (PPlus (PClass (cls [] ''09'' False))),
         (PNot (PClass (cls ''_-'' ''azAZ09'' False)))]))"

definition rule_measure :: "peg_action peg" where
  "rule_measure =
     (PAction OnMeasure1 (PSeq [(PLabel ''number'' (PChoice [(PRef ''Integer''),
                  (PRef ''Float'')])),
         (PLabel ''unit'' (PRef ''Identifier''))]))"

definition rule_float :: "peg_action peg" where
  "rule_float =
     (PAction OnFloat1 (PSeq [(POpt (PClass (cls ''+-'' [] False))),
         (PSeq [(PStar (PClass (cls [] ''09'' False))),
                (PLit ''.''),
                (PPlus (PClass (cls [] ''09'' False)))])]))"

definition rule_identifier :: "peg_action peg" where
  "rule_identifier =
     (PAction OnIdentifier1 (PPlus (PClass (cls (''@_*'' @ [CHR 0x5C, CHR 0x5C] @ ''[]'') ''azAZ09,:'' False))))"

definition rule_blank :: "peg_action peg" where
  "rule_blank =
     (PStar (PClass (cls ('' '' @ [CHR 0x09]) [] False)))"

definition rule_eof :: "peg_action peg" where
  "rule_eof =
     (PNot PAny)"

definition query_rules :: "(string \<times> peg_action peg) list" where
  "query_rules =
     [(''Query'', rule_query),
      (''OrQuery'', rule_or_query),
      (''AndQuery'', rule_and_query),
      (''FieldQuery'', rule_field_query),
      (''Field'', rule_field),
      (''ExistsField'', rule_exists_field),
      (''ExistSource'', rule_exist_source),
      (''ExistPrefix'', rule_exist_prefix),
      (''Source'', rule_source),
      (''PathSegment'', rule_path_segment),
      (''Not'', rule_not),
      (''Operator'', rule_operator),
      (''Value'', rule_value),
      (''String'', rule_string),
      (''ISODate'', rule_iso_date),
      (''Time'', rule_time),
      (''DateTime'', rule_date_time),
      (''Word'', rule_word),
      (''Integer'', rule_integer),
      (''Measure'', rule_measure),
      (''Float'', rule_float),
      (''Identifier'', rule_identifier),
      (''_'', rule_blank),
      (''EOF'', rule_eof)]"

subsection \<open>Parsing a query\<close>

text \<open>The depth of expressions that can be nested before a rune is consumed, and the depth to which parts
  are looked into to see whether they can match nothing.\<close>

definition grammar_depth :: nat where "grammar_depth = 40"

definition parse_peg_text :: "(string \<Rightarrow> string + string) \<Rightarrow> string \<Rightarrow> (string + query_field) option" where
  "parse_peg_text ft peg =
     (case parse_text (act ft) (map_of query_rules) (fuel_for grammar_depth peg) ''Query'' peg of
        None \<Rightarrow> None
      | Some (Inl errs) \<Rightarrow> Some (Inl (''error parsing peg: '' @ join [CHR 0x0A] errs))
      | Some (Inr v) \<Rightarrow>
          (case v of VAct (GField f) \<Rightarrow> Some (Inr f) | _ \<Rightarrow> Some (Inl ''return type not QueryField'')))"

definition blank_rule :: "string \<Rightarrow> bool" where
  "blank_rule r \<longleftrightarrow> r = ''_'' \<or> r = ''EOF''"

definition rule_rank :: "string \<Rightarrow> nat" where
  "rule_rank r = (case map_of
     [(''Query'', 35), (''OrQuery'', 8), (''AndQuery'', 30), (''FieldQuery'', 25), (''Field'', 20), (''ExistsField'', 20),
      (''ExistSource'', 10), (''ExistPrefix'', 5), (''Source'', 15), (''PathSegment'', 10), (''Not'', 1), (''Operator'', 5),
      (''Value'', 20), (''String'', 5), (''ISODate'', 5), (''Time'', 5), (''DateTime'', 10), (''Word'', 10), (''Integer'', 5),
      (''Measure'', 15), (''Float'', 10), (''Identifier'', 5), (''_'', 3), (''EOF'', 3)] r of None \<Rightarrow> 0 | Some n \<Rightarrow> n)"

lemma query_grammar_ok: "grammar_ok blank_rule rule_rank grammar_depth query_rules"
  by code_simp

end
