(* ===== verification/Query_Models.thy ===== *)
theory Query_Models
  imports Query_Grammar Resource_Canonical
begin

section \<open>Query models\<close>

text \<open>
  \<^verbatim>\<open>query/models.go\<close>: the tables that can be searched, with the columns, JSON columns, aliases and value
  mappers of each, and \<open>Apply\<close>, which turns a parsed query into calls on a gorm statement and clauses. A
  statement is its table and the calls made on it, oldest first; what SQL gorm prints for them is not
  code of the repository. White space in the texts of SQL is reduced to single blanks. A value is kept
  as a string or as the text \<open>%v\<close> prints for it. Parameters: the clock and parser of dates, \<open>uuid.Parse\<close>
  with the canonical text of its result, the lookup of agents and of related configs in the database, the
  list of known types, and \<open>collections.MatchItems\<close>.
\<close>

subsection \<open>Statements\<close>

datatype gorm_call =
    GSelect "string list" | GWhere string "sql_arg list" | GClauses "clause list" | GOrder string bool | GLimit int
  | GOffset int

record gorm_tx =
  tx_table :: string
  tx_calls :: "gorm_call list"

definition new_tx :: "string \<Rightarrow> gorm_tx" where
  "new_tx t = \<lparr>tx_table = t, tx_calls = []\<rparr>"

definition tx_call :: "gorm_call \<Rightarrow> gorm_tx \<Rightarrow> gorm_tx" where
  "tx_call c tx = tx\<lparr>tx_calls := tx_calls tx @ [c]\<rparr>"

subsection \<open>The environment\<close>

datatype direction = DirAll | DirIncoming | DirOutgoing
datatype relation_type = RelBoth | RelHard | RelSoft

record relation_query =
  rq_id :: string
  rq_relation :: direction
  rq_incoming :: relation_type
  rq_outgoing :: relation_type
  rq_depth :: "int option"

record query_env =
  qe_date :: "string \<Rightarrow> string + string"
  qe_uuid :: "string \<Rightarrow> string option"
  qe_find_agent :: "string \<Rightarrow> string + string option"   \<comment> \<open>\<open>None\<close>: the nil pointer for no such agent\<close>
  qe_related :: "relation_query \<Rightarrow> string + string list"
  qe_all_types :: "string list option"
  qe_match_item :: "string \<Rightarrow> string \<Rightarrow> bool"

definition uuid_nil :: string where
  "uuid_nil = ''00000000-0000-0000-0000-000000000000''"

subsection \<open>Mappers of values\<close>

datatype mapper = AgentMapper | ExternalIDMapper | DateMapper

definition agent_mapper :: "query_env \<Rightarrow> string \<Rightarrow> string + qvalue option" where
  "agent_mapper env i =
     (if to_lower i = ''all'' then Inr None
      else case qe_uuid env i of
        Some u \<Rightarrow> Inr (Some (QStr u))
      | None \<Rightarrow>
          (case qe_find_agent env i of
             Inr (Some a) \<Rightarrow> if a \<noteq> uuid_nil then Inr (Some (QOther a)) else Inl (''invalid agent: '' @ i)
           | _ \<Rightarrow> Inl (''invalid agent: '' @ i)))"

definition external_id_mapper :: "string \<Rightarrow> string + qvalue option" where
  "external_id_mapper v =
     (let vs = map trim_space (split_char (CHR '','') v) in
      if [] \<in> set vs then Inl ''external_id cannot be empty'' else Inr (Some (QStr (join '','' vs))))"

definition date_mapper :: "query_env \<Rightarrow> string \<Rightarrow> string + qvalue option" where
  "date_mapper env v =
     (case qe_date env v of
        Inl e \<Rightarrow> Inl (''invalid date '' @ [CHR 0x27] @ v @ [CHR 0x27] @ '': '' @ e)
      | Inr t \<Rightarrow> Inr (Some (QOther t)))"

fun map_value :: "query_env \<Rightarrow> mapper \<Rightarrow> string \<Rightarrow> string + qvalue option" where
  "map_value env AgentMapper v = agent_mapper env v"
| "map_value env ExternalIDMapper v = external_id_mapper v"
| "map_value env DateMapper v = date_mapper env v"

subsection \<open>JSON paths\<close>

definition identifier_start :: "char \<Rightarrow> bool" where
  "identifier_start c \<longleftrightarrow> c = CHR ''_'' \<or> between 97 122 c \<or> between 65 90 c"

definition identifier_char :: "char \<Rightarrow> bool" where
  "identifier_char c \<longleftrightarrow> identifier_start c \<or> is_digit c"

text \<open>\<open>bareJSONPathKey\<close>: an identifier and any number of subscripts.\<close>

function subscripts :: "string \<Rightarrow> bool" where
  "subscripts s =
     (case s of
        [] \<Rightarrow> True
      | c # t \<Rightarrow> c = CHR ''['' \<and> (case dropWhile (\<lambda>x. x \<noteq> CHR '']'') t of [] \<Rightarrow> False | _ # u \<Rightarrow> subscripts u))"
  by pat_completeness auto
termination
proof (relation "measure length")
  fix s c t x u assume "s = c # t" "dropWhile (\<lambda>x. x \<noteq> CHR '']'') t = x # u"
  then have "length (x # u) \<le> length t" using length_dropWhile_le [of "\<lambda>x. x \<noteq> CHR '']''" t] by simp
  then show "(u, s) \<in> measure length" using \<open>s = c # t\<close> by simp
qed simp

declare subscripts.simps [simp del]

definition bare_key :: "string \<Rightarrow> bool" where
  "bare_key s = (case s of [] \<Rightarrow> False | c # t \<Rightarrow> identifier_start c \<and> subscripts (dropWhile identifier_char t))"

definition quote_key :: "string \<Rightarrow> string" where
  "quote_key s = concat (map (\<lambda>c. if c = CHR 0x5C then [CHR 0x5C, CHR 0x5C] else if c = CHR 0x22 then [CHR 0x5C, CHR 0x22] else [c]) s)"

definition json_path_key :: "string \<Rightarrow> string" where
  "json_path_key s = (if bare_key s then s else [CHR 0x22] @ quote_key s @ [CHR 0x22])"

definition to_json_path :: "string list \<Rightarrow> string" where
  "to_json_path segments = ''$.'' @ join ''.'' (map json_path_key segments)"

definition flat_json_columns :: "string list" where
  "flat_json_columns = [''labels'', ''tags'']"

definition json_path_sql :: "string \<Rightarrow> query_op \<Rightarrow> string" where
  "json_path_sql column op =
     ''TRIM(BOTH '' @ [CHR 0x27, CHR 0x22, CHR 0x27] @ '' from jsonb_path_query_first('' @ column @ '', ?::jsonpath)::TEXT) ''
     @ (if op = QNeq then ''!='' else ''='') @ '' ?''"

definition json_exists_sql :: "string \<Rightarrow> string" where
  "json_exists_sql column = ''jsonb_path_exists('' @ column @ '', ?::jsonpath)''"

definition json_path_mapper :: "string \<Rightarrow> query_op \<Rightarrow> string \<Rightarrow> string \<Rightarrow> gorm_tx \<Rightarrow> gorm_tx" where
  "json_path_mapper column op path val tx =
     (let segments = (if column \<in> set flat_json_columns then [path] else split_char (CHR ''.'') path);
          p = ArgString (to_json_path segments)
      in if op = QExists then tx_call (GWhere (json_exists_sql column) [p]) tx
         else if op = QNotExists then tx_call (GWhere (''NOT '' @ json_exists_sql column) [p]) tx
         else fold (\<lambda>v. tx_call (GWhere (json_path_sql column op) [p, ArgString v])) (split_char (CHR '','') val) tx)"

subsection \<open>Properties and values of JSON columns\<close>

definition property_sql :: "string \<Rightarrow> string \<Rightarrow> string" where
  "property_sql exists rest =
     exists @ '' ( SELECT 1 FROM jsonb_array_elements(properties) AS prop WHERE prop->>'' @ [CHR 0x27] @ ''name'' @ [CHR 0x27]
     @ '' = ? '' @ rest @ '')''"

definition property_text_sql :: string where
  "property_text_sql = ''AND prop->>'' @ [CHR 0x27] @ ''text'' @ [CHR 0x27] @ '' IN ? ''"

definition property_number_sql :: "string \<Rightarrow> string" where
  "property_number_sql comparison =
     ''AND (prop->>'' @ [CHR 0x27] @ ''value'' @ [CHR 0x27] @ '')::bigint '' @ comparison @ '' ?::bigint ''"

definition filter_properties :: "query_op \<Rightarrow> string \<Rightarrow> string \<Rightarrow> gorm_tx \<Rightarrow> gorm_tx" where
  "filter_properties op name val tx =
     (if op = QExists \<or> op = QNotExists then
        tx_call (GWhere (property_sql (if op = QNotExists then ''NOT EXISTS'' else ''EXISTS'') []) [ArgString name]) tx
      else if op = QGt \<or> op = QLt then
        tx_call (GWhere (property_sql ''EXISTS'' (property_number_sql (if op = QGt then ''>'' else ''<'')))
          [ArgString name, ArgString val]) tx
      else
        tx_call (GWhere (property_sql (if op = QNeq then ''NOT EXISTS'' else ''EXISTS'') property_text_sql)
          [ArgString name, ArgStrings (split_char (CHR '','') val)]) tx)"

definition json_values_sql :: "query_op \<Rightarrow> string \<Rightarrow> string" where
  "json_values_sql op column =
     (if op = QNeq then ''NOT EXISTS'' else ''EXISTS'') @ '' ( SELECT 1 FROM jsonb_each_text('' @ column @ '') WHERE value IN ? )''"

text \<open>\<open>None\<close> is the nil statement returned on an error.\<close>

definition array_values :: "string \<Rightarrow> query_op \<Rightarrow> string \<Rightarrow> gorm_tx \<Rightarrow> gorm_tx option" where
  "array_values field op val tx =
     (case to_clauses (QueryField field FieldTypeJsonbArray (QStr val) op []) of
        Inl e \<Rightarrow> None
      | Inr cs \<Rightarrow> Some (tx_call (GClauses cs) tx))"

definition filter_json_column_values :: "string \<Rightarrow> query_op \<Rightarrow> string \<Rightarrow> gorm_tx \<Rightarrow> gorm_tx option" where
  "filter_json_column_values column op0 val tx =
     (let op = (if op0 = QEq \<or> op0 = QNeq then op0 else QEq) in
      if column = ''tags'' then array_values ''tags_values'' op val tx
      else if column = ''properties'' then array_values ''properties_values'' op val tx
      else Some (tx_call (GWhere (json_values_sql op column) [ArgStrings (split_char (CHR '','') val)]) tx))"

subsection \<open>Related configs\<close>

definition relation_part :: "query_env \<Rightarrow> string \<Rightarrow> relation_query \<Rightarrow> string + relation_query" where
  "relation_part env part q =
     (case cut_char (CHR ''='') part of
        Some (key, v) \<Rightarrow>
          (if to_lower key = ''direction'' then
             (if to_lower v = ''incoming'' then Inr (q\<lparr>rq_relation := DirIncoming\<rparr>)
              else if to_lower v = ''outgoing'' then Inr (q\<lparr>rq_relation := DirOutgoing\<rparr>)
              else if to_lower v = ''all'' then Inr (q\<lparr>rq_relation := DirAll\<rparr>)
              else Inl (''invalid direction: '' @ v @ '' (must be incoming, outgoing, or all)''))
           else if to_lower key = ''depth'' then
             (case parse_int64 v of
                None \<Rightarrow> Inl ''invalid depth''
              | Some n \<Rightarrow> Inr (q\<lparr>rq_depth := Some n\<rparr>))
           else if to_lower key = ''type'' then
             (if to_lower v = ''hard'' then Inr (q\<lparr>rq_incoming := RelHard, rq_outgoing := RelHard\<rparr>)
              else if to_lower v = ''soft'' then Inr (q\<lparr>rq_incoming := RelSoft, rq_outgoing := RelSoft\<rparr>)
              else if to_lower v = ''both'' then Inr (q\<lparr>rq_incoming := RelBoth, rq_outgoing := RelBoth\<rparr>)
              else Inl (''invalid type: '' @ v @ '' (must be hard, soft, or both)''))
           else Inl (''unknown parameter: '' @ key))
      | None \<Rightarrow>
          (case qe_uuid env part of
             None \<Rightarrow> Inl ''invalid config ID''
           | Some u \<Rightarrow> Inr (q\<lparr>rq_id := u\<rparr>)))"

fun relation_parts :: "query_env \<Rightarrow> string list \<Rightarrow> relation_query \<Rightarrow> string + relation_query" where
  "relation_parts env [] q = Inr q"
| "relation_parts env (p # ps) q =
     (if trim_space p = [] then relation_parts env ps q
      else and_then (relation_part env (trim_space p) q) (relation_parts env ps))"

definition related_configs_mapper :: "query_env \<Rightarrow> string \<Rightarrow> gorm_tx \<Rightarrow> string + gorm_tx" where
  "related_configs_mapper env val tx =
     and_then (relation_parts env (split_char (CHR '','') val)
         \<lparr>rq_id = uuid_nil, rq_relation = DirAll, rq_incoming = RelBoth, rq_outgoing = RelBoth, rq_depth = None\<rparr>) (\<lambda>q.
       if rq_id q = uuid_nil then Inl ''related field requires a config ID''
       else and_then (qe_related env q) (\<lambda>ids.
         Inr (if ids = [] then tx_call (GWhere ''1 = 0'' []) tx else tx_call (GWhere ''id IN ?'' [ArgStrings ids]) tx)))"

definition traverse_sql :: string where
  "traverse_sql = ''id IN (SELECT id from lookup_component_config_id_related_components(?))''"

definition component_config_traverse :: "string \<Rightarrow> gorm_tx \<Rightarrow> gorm_tx" where
  "component_config_traverse val tx = tx_call (GWhere traverse_sql [ArgString (split_char (CHR '','') val ! 0)]) tx"

text \<open>The fields every table has.\<close>

definition common_field :: "string \<Rightarrow> string \<Rightarrow> gorm_tx \<Rightarrow> string + gorm_tx" where
  "common_field field val tx =
     (if field = ''limit'' then
        (case parse_int64 val of Some i \<Rightarrow> Inr (tx_call (GLimit i) tx) | None \<Rightarrow> Inl ''invalid syntax'')
      else if field = ''sort'' then Inr (tx_call (GOrder val False) tx)
      else if field = ''offset'' then
        (case parse_int64 val of Some i \<Rightarrow> Inr (tx_call (GOffset i) tx) | None \<Rightarrow> Inl ''invalid syntax'')
      else Inr tx)"

subsection \<open>The tables\<close>

datatype custom_field = RelatedConfigs | ComponentConfigTraverse

fun run_custom :: "query_env \<Rightarrow> custom_field \<Rightarrow> string \<Rightarrow> gorm_tx \<Rightarrow> string + gorm_tx" where
  "run_custom env RelatedConfigs val tx = related_configs_mapper env val tx"
| "run_custom env ComponentConfigTraverse val tx = Inr (component_config_traverse val tx)"

record query_model =
  qm_table :: string
  qm_custom :: "(string \<times> custom_field) list"
  qm_json :: "string list"
  qm_columns :: "string list"
  qm_types :: "(string \<times> field_type) list"
  qm_aliases :: "(string \<times> string) list"
  qm_has_tags :: bool
  qm_has_labels :: bool
  qm_has_agents :: bool
  qm_has_properties :: bool
  qm_has_deleted_at :: bool
  qm_mappers :: "(string \<times> mapper) list"

definition date_mappers :: "(string \<times> mapper) list" where
  "date_mappers = [(''created_at'', DateMapper), (''updated_at'', DateMapper), (''deleted_at'', DateMapper)]"

definition date_aliases :: "(string \<times> string) list" where
  "date_aliases = [(''created'', ''created_at''), (''updated'', ''updated_at''), (''deleted'', ''deleted_at'')]"

definition config_item_model :: query_model where
  "config_item_model = \<lparr>qm_table = ''config_items'',
     qm_custom = [(''related'', RelatedConfigs)],
     qm_json = [''labels'', ''tags'', ''config''],
     qm_columns = [''id'', ''name'', ''source'', ''type'', ''status'', ''agent_id'', ''health'',
       ''external_id'', ''config_class'', ''created_at'', ''updated_at'', ''deleted_at''],
     qm_types = [(''external_id'', FieldTypeTextArray)],
     qm_aliases = date_aliases @ [(''agent'', ''agent_id''), (''config_type'', ''type''), (''namespace'', ''tags.namespace'')],
     qm_has_tags = True, qm_has_labels = True, qm_has_agents = True, qm_has_properties = True, qm_has_deleted_at = True,
     qm_mappers = [(''agent_id'', AgentMapper), (''external_id'', ExternalIDMapper)] @ date_mappers\<rparr>"

definition config_summary_model :: query_model where
  "config_summary_model = \<lparr>qm_table = ''configs'',
     qm_custom = [(''related'', RelatedConfigs)],
     qm_json = [''labels'', ''tags''],
     qm_columns = [''id'', ''scraper_id'', ''config_class'', ''external_id'', ''type'', ''name'',
       ''namespace'', ''source'', ''created_by'', ''created_at'', ''updated_at'', ''deleted_at'',
       ''agent_id'', ''status'', ''health'', ''ready'', ''path'', ''changes'', ''analysis''],
     qm_types = [(''external_id'', FieldTypeTextArray)],
     qm_aliases = date_aliases @ [(''agent'', ''agent_id''), (''config_type'', ''type''), (''changes_count'', ''changes''), (''analysis_count'', ''analysis'')],
     qm_has_tags = True, qm_has_labels = True, qm_has_agents = True, qm_has_properties = True, qm_has_deleted_at = True,
     qm_mappers = [(''agent_id'', AgentMapper), (''external_id'', ExternalIDMapper)] @ date_mappers\<rparr>"

definition component_model :: query_model where
  "component_model = \<lparr>qm_table = ''components'',
     qm_custom = [(''component_config_traverse'', ComponentConfigTraverse)],
     qm_json = [''labels'', ''summary''],
     qm_columns = [''id'', ''name'', ''namespace'', ''topology_id'', ''external_id'', ''type'', ''status'',
       ''health'', ''agent_id'', ''created_at'', ''updated_at'', ''deleted_at''],
     qm_types = [],
     qm_aliases = date_aliases @ [(''agent'', ''agent_id''), (''component_type'', ''type'')],
     qm_has_tags = False, qm_has_labels = True, qm_has_agents = True, qm_has_properties = True, qm_has_deleted_at = True,
     qm_mappers = [(''agent_id'', AgentMapper)] @ date_mappers\<rparr>"

definition check_model :: query_model where
  "check_model = \<lparr>qm_table = ''checks'',
     qm_custom = [],
     qm_json = [''spec'', ''labels''],
     qm_columns = [''id'', ''name'', ''namespace'', ''canary_id'', ''type'', ''status'', ''agent_id'',
       ''created_at'', ''updated_at'', ''deleted_at''],
     qm_types = [],
     qm_aliases = date_aliases @ [(''agent'', ''agent_id''), (''health'', ''status''), (''check_type'', ''type'')],
     qm_has_tags = False, qm_has_labels = True, qm_has_agents = True, qm_has_properties = False, qm_has_deleted_at = True,
     qm_mappers = [(''agent_id'', AgentMapper)] @ date_mappers\<rparr>"

definition playbook_model :: query_model where
  "playbook_model = \<lparr>qm_table = ''playbooks'',
     qm_custom = [],
     qm_json = [],
     qm_columns = [''id'', ''name'', ''namespace'', ''created_at'', ''updated_at'', ''deleted_at''],
     qm_types = [],
     qm_aliases = date_aliases,
     qm_has_tags = True, qm_has_labels = False, qm_has_agents = False, qm_has_properties = False, qm_has_deleted_at = True,
     qm_mappers = date_mappers\<rparr>"

definition connection_model :: query_model where
  "connection_model = \<lparr>qm_table = ''connections'',
     qm_custom = [],
     qm_json = [],
     qm_columns = [''id'', ''name'', ''namespace'', ''type''],
     qm_types = [],
     qm_aliases = [],
     qm_has_tags = False, qm_has_labels = False, qm_has_agents = False, qm_has_properties = False, qm_has_deleted_at = True,
     qm_mappers = []\<rparr>"

definition config_change_model :: query_model where
  "config_change_model = \<lparr>qm_table = ''catalog_changes'',
     qm_custom = [],
     qm_json = [''tags'', ''details''],
     qm_columns = [''id'', ''config_id'', ''name'', ''type'', ''created_at'', ''severity'', ''change_type'',
       ''summary'', ''count'', ''first_observed'', ''agent_id''],
     qm_types = [],
     qm_aliases = [(''created'', ''created_at''), (''first_observed'', ''first_observed''), (''external_id'', ''external_created_by''), (''changeType'', ''change_type'')],
     qm_has_tags = True, qm_has_labels = False, qm_has_agents = True, qm_has_properties = False, qm_has_deleted_at = True,
     qm_mappers = [(''created_at'', DateMapper), (''first_observed'', DateMapper), (''agent_id'', AgentMapper)]\<rparr>"

definition view_model :: query_model where
  "view_model = \<lparr>qm_table = ''views'',
     qm_custom = [],
     qm_json = [''labels''],
     qm_columns = [''name'', ''namespace''],
     qm_types = [],
     qm_aliases = [],
     qm_has_tags = False, qm_has_labels = True, qm_has_agents = False, qm_has_properties = False, qm_has_deleted_at = True,
     qm_mappers = []\<rparr>"

definition canary_model :: query_model where
  "canary_model = \<lparr>qm_table = ''canaries'',
     qm_custom = [],
     qm_json = [''labels'', ''spec''],
     qm_columns = [''id'', ''name'', ''namespace'', ''agent_id'', ''created_at'', ''updated_at'',
       ''deleted_at''],
     qm_types = [],
     qm_aliases = date_aliases @ [(''agent'', ''agent_id'')],
     qm_has_tags = False, qm_has_labels = True, qm_has_agents = True, qm_has_properties = False, qm_has_deleted_at = True,
     qm_mappers = [(''agent_id'', AgentMapper)] @ date_mappers\<rparr>"

definition config_analysis_model :: query_model where
  "config_analysis_model = \<lparr>qm_table = ''config_analysis_items'',
     qm_custom = [],
     qm_json = [''tags'', ''labels'', ''config''],
     qm_columns = [''id'', ''config_id'', ''scraper_id'', ''source'', ''analyzer'', ''analysis_type'',
       ''severity'', ''status'', ''summary'', ''message'', ''first_observed'', ''last_observed'', ''name'',
       ''type'', ''config_type'', ''config_class'', ''agent_id'', ''deleted_at'', ''path''],
     qm_types = [],
     qm_aliases = [(''agent'', ''agent_id''), (''analyzer_type'', ''analysis_type''), (''config_type'', ''type''), (''namespace'', ''tags.namespace'')],
     qm_has_tags = True, qm_has_labels = True, qm_has_agents = True, qm_has_properties = True, qm_has_deleted_at = True,
     qm_mappers = [(''agent_id'', AgentMapper), (''first_observed'', DateMapper), (''last_observed'', DateMapper), (''deleted_at'', DateMapper)]\<rparr>"

definition models_by_table :: "(string \<times> query_model) list" where
  "models_by_table =
     [(''config_items'', config_item_model), (''components'', component_model), (''checks'', check_model),
      (''canaries'', canary_model), (''playbooks'', playbook_model), (''connections'', connection_model),
      (''catalog_changes'', config_change_model), (''configs'', config_summary_model), (''views'', view_model),
      (''config_analysis'', config_analysis_model), (''config_analysis_items'', config_analysis_model)]"

definition get_model_from_table :: "string \<Rightarrow> query_model option" where
  "get_model_from_table table = map_of models_by_table table"

subsection \<open>Applying a query\<close>

datatype apply_error =
    MapperFailed string | InvalidValueFor string string | UnsupportedColumn string string | ClauseFailed clause_error
  | NilStatement | ValueNotString

text \<open>\<open>AStop\<close> is the return before the clauses of the field are built.\<close>

datatype applied = AStop gorm_tx | AGo gorm_tx "clause list"

definition resolve_alias :: "query_model \<Rightarrow> string \<Rightarrow> string" where
  "resolve_alias qm field =
     (let f = to_lower field in case map_of (qm_aliases qm) f of Some a \<Rightarrow> a | None \<Rightarrow> f)"

definition apply_order :: "qvalue \<Rightarrow> gorm_tx \<Rightarrow> apply_error + gorm_tx" where
  "apply_order v tx =
     (case v of
        QStr s \<Rightarrow> Inr (tx_call (if has_prefix ''-'' s then GOrder (trim_prefix ''-'' s) True else GOrder s False) tx)
      | _ \<Rightarrow> Inl ValueNotString)"

text \<open>One round of the loop over the JSON columns: the field as it is now and the statement.\<close>

definition json_column_step :: "string \<Rightarrow> query_op \<Rightarrow> string \<Rightarrow> string \<Rightarrow> string \<times> gorm_tx \<Rightarrow> apply_error + string \<times> gorm_tx" where
  "json_column_step original op val column st =
     (let (field, tx) = st; prefix = column @ ''.'';
          (field1, tx1) =
            (if has_prefix prefix original then (column, json_path_mapper column op (trim_prefix prefix original) val tx)
             else if has_prefix prefix field then (column, json_path_mapper column op (trim_prefix prefix field) val tx)
             else (field, tx))
      in if original = column \<and> (op = QEq \<or> op = QNeq)
         then (case filter_json_column_values column op val tx1 of None \<Rightarrow> Inl NilStatement | Some tx2 \<Rightarrow> Inr (column, tx2))
         else Inr (field1, tx1))"

fun json_columns :: "string \<Rightarrow> query_op \<Rightarrow> string \<Rightarrow> string list \<Rightarrow> string \<times> gorm_tx \<Rightarrow> apply_error + string \<times> gorm_tx" where
  "json_columns original op val [] st = Inr st"
| "json_columns original op val (c # cs) st =
     and_then (json_column_step original op val c st) (json_columns original op val cs)"

definition property_columns :: "query_model \<Rightarrow> string \<Rightarrow> query_op \<Rightarrow> string \<Rightarrow> string \<times> gorm_tx \<Rightarrow> apply_error + string \<times> gorm_tx" where
  "property_columns qm original op val st =
     (let (field, tx) = st in
      if \<not> qm_has_properties qm then Inr st
      else if has_prefix ''properties.'' original
        then Inr (''properties'', filter_properties op (trim_prefix ''properties.'' original) val tx)
      else if original = ''properties'' then
        (case filter_json_column_values ''properties'' op val tx of
           None \<Rightarrow> Inl NilStatement | Some tx1 \<Rightarrow> Inr (''properties'', tx1))
      else Inr st)"

definition ignored_for_clauses :: "string list" where
  "ignored_for_clauses =
     [''sort'', ''offset'', ''limit'', ''labels'', ''config'', ''tags'', ''properties'', ''component_config_traverse'', ''related'']"

definition has_special_characters :: "string \<Rightarrow> bool" where
  "has_special_characters s \<longleftrightarrow> CHR ''*'' \<in> set s \<or> CHR ''!'' \<in> set s"

definition type_value :: "query_env \<Rightarrow> qvalue \<Rightarrow> qvalue" where
  "type_value env v =
     (case v of
        QStr s \<Rightarrow>
          if has_special_characters s then v
          else (case qe_all_types env of
                  None \<Rightarrow> v
                | Some ts \<Rightarrow>
                    (let matched = filter (\<lambda>t. qe_match_item env (to_lower t) (''*'' @ to_lower s)) ts
                     in if matched \<noteq> [] then QStr (join '','' matched) else v))
      | _ \<Rightarrow> v)"

definition column_clauses :: "query_env \<Rightarrow> query_model \<Rightarrow> string \<Rightarrow> field_type \<Rightarrow> qvalue \<Rightarrow> query_op \<Rightarrow> apply_error + clause list" where
  "column_clauses env qm field ty v op =
     (if field \<in> set ignored_for_clauses then Inr []
      else if field \<notin> set (qm_columns qm) then Inl (UnsupportedColumn field (qm_table qm))
      else (case to_clauses (QueryField field ty (if field = ''type'' then type_value env v else v) op []) of
              Inl e \<Rightarrow> Inl (ClauseFailed e)
            | Inr cs \<Rightarrow> Inr cs))"

text \<open>What follows the mapping of the value: \<open>val\<close> is the text of the original one, \<open>v\<close> the mapped one.\<close>

definition apply_columns :: "query_env \<Rightarrow> query_model \<Rightarrow> string \<Rightarrow> string \<Rightarrow> field_type \<Rightarrow> string \<Rightarrow> qvalue \<Rightarrow> query_op
    \<Rightarrow> gorm_tx \<Rightarrow> apply_error + applied" where
  "apply_columns env qm original field ty val v op tx =
     and_then (case common_field field val tx of Inl e \<Rightarrow> Inl (InvalidValueFor field e) | Inr t \<Rightarrow> Inr t) (\<lambda>tx1.
     and_then (case map_of (qm_custom qm) field of
                 None \<Rightarrow> Inr tx1
               | Some c \<Rightarrow> (case run_custom env c val tx1 of Inl e \<Rightarrow> Inl (InvalidValueFor field e) | Inr t \<Rightarrow> Inr t)) (\<lambda>tx2.
     and_then (json_columns original op val (qm_json qm) (field, tx2)) (\<lambda>st.
     and_then (property_columns qm original op val st) (\<lambda>(field1, tx3).
     and_then (column_clauses env qm field1 ty v op) (\<lambda>cs. Inr (AGo tx3 cs))))))"

definition apply_field :: "query_env \<Rightarrow> query_model \<Rightarrow> string \<Rightarrow> field_type \<Rightarrow> qvalue \<Rightarrow> query_op \<Rightarrow> gorm_tx \<Rightarrow> apply_error + applied" where
  "apply_field env qm original ty0 v op tx =
     (let field = resolve_alias qm original;
          ty = (case map_of (qm_types qm) field of Some t \<Rightarrow> t | None \<Rightarrow> ty0);
          val = sprint v
      in if field = ''@order'' then and_then (apply_order v tx) (\<lambda>t. Inr (AStop t))
         else (case map_of (qm_mappers qm) field of
                 Some m \<Rightarrow>
                   if op = QExists \<or> op = QNotExists then apply_columns env qm original field ty val v op tx
                   else (case map_value env m val of
                           Inl e \<Rightarrow> Inl (MapperFailed e)
                         | Inr None \<Rightarrow> Inr (AStop tx)
                         | Inr (Some v1) \<Rightarrow> apply_columns env qm original field ty val v1 op tx)
               | None \<Rightarrow> apply_columns env qm original field ty val v op tx))"

fun apply_query :: "query_env \<Rightarrow> query_model \<Rightarrow> query_field \<Rightarrow> gorm_tx \<Rightarrow> apply_error + gorm_tx \<times> clause list"
and apply_each :: "query_env \<Rightarrow> query_model \<Rightarrow> query_field list \<Rightarrow> gorm_tx \<Rightarrow> clause list \<Rightarrow> apply_error + gorm_tx \<times> clause list" where
  "apply_query env qm (QueryField f ty v op subs) tx =
     (if f = [] then apply_each env qm subs tx []
      else and_then (apply_field env qm f ty v op tx) (\<lambda>r.
        case r of AStop t \<Rightarrow> Inr (t, []) | AGo t cs \<Rightarrow> apply_each env qm subs t cs))"
| "apply_each env qm [] tx cs = Inr (tx, cs)"
| "apply_each env qm (q # qs) tx cs =
     and_then (apply_query env qm q tx) (\<lambda>(t, ds). apply_each env qm qs t (cs @ ds))"

text \<open>Without a statement one on the model's table is made.\<close>

definition apply_query_model :: "query_env \<Rightarrow> query_model \<Rightarrow> query_field \<Rightarrow> gorm_tx option \<Rightarrow> apply_error + gorm_tx \<times> clause list" where
  "apply_query_model env qm q tx = apply_query env qm q (case tx of None \<Rightarrow> new_tx (qm_table qm) | Some t \<Rightarrow> t)"

subsection \<open>The leaves of a query\<close>

fun leaves :: "query_field \<Rightarrow> query_field list" where
  "leaves (QueryField f ty v op subs) = (if f \<noteq> [] then [QueryField f ty v op []] else []) @ concat (map leaves subs)"

text \<open>What the parser builds: a node has a field or parts.\<close>

fun plain_query :: "query_field \<Rightarrow> bool" where
  "plain_query (QueryField f ty v op subs) \<longleftrightarrow> (f = [] \<or> subs = []) \<and> list_all plain_query subs"

lemma apply_each_append:
  "apply_each env qm (ps @ qs) tx cs = and_then (apply_each env qm ps tx cs) (\<lambda>(t, ds). apply_each env qm qs t ds)"
proof (induction ps arbitrary: tx cs)
  case (Cons p ps)
  then show ?case by (cases "apply_query env qm p tx") auto
qed simp

lemma apply_each_clauses:
  "apply_each env qm qs tx cs = and_then (apply_each env qm qs tx []) (\<lambda>(t, ds). Inr (t, cs @ ds))"
proof (induction qs arbitrary: tx cs)
  case (Cons q qs)
  show ?case
  proof (cases "apply_query env qm q tx")
    case (Inr r)
    obtain t ds where r: "r = (t, ds)" by (cases r)
    show ?thesis
      using Cons.IH [of t "cs @ ds"] Cons.IH [of t ds] Inr r by (cases "apply_each env qm qs t []") auto
  qed simp
qed simp

lemma apply_leaves:
  "plain_query q \<Longrightarrow> apply_query env qm q tx = apply_each env qm (leaves q) tx []"
  "list_all plain_query qs \<Longrightarrow> apply_each env qm qs tx cs = apply_each env qm (concat (map leaves qs)) tx cs"
proof (induction env qm q tx and env qm qs tx cs rule: apply_query_apply_each.induct)
  case (1 env qm f ty v op subs tx)
  show ?case
  proof (cases "f = []")
    case True
    then show ?thesis using 1 by simp
  next
    case False
    then have "subs = []" using 1(3) by simp
    then show ?thesis using False
      by (cases "apply_field env qm f ty v op tx") (auto split: applied.split)
  qed
next
  case (3 env qm q qs tx cs)
  have q: "apply_query env qm q tx = apply_each env qm (leaves q) tx []" using 3 by simp
  show ?case
  proof (cases "apply_query env qm q tx")
    case (Inl e)
    then show ?thesis using q apply_each_clauses [of env qm "leaves q" tx cs] by (simp add: apply_each_append)
  next
    case (Inr r)
    obtain t ds where r: "r = (t, ds)" by (cases r)
    then have "apply_each env qm qs t (cs @ ds) = apply_each env qm (concat (map leaves qs)) t (cs @ ds)"
      using 3 Inr by simp
    moreover have "apply_each env qm (leaves q) tx [] = Inr (t, ds)" using q Inr r by simp
    ultimately show ?thesis using q apply_each_clauses [of env qm "leaves q" tx cs] by (simp add: apply_each_append)
  qed
qed simp_all

subsection \<open>Paths are read back\<close>

text \<open>A reader of the paths that are printed, after the syntax of \<open>jsonpath\<close>: after the \<open>$\<close>, each key is a
  dot and a quoted text, in which a backslash takes the next character as it is, or an identifier with
  its subscripts.\<close>

fun read_quoted :: "string \<Rightarrow> (string \<times> string) option" where
  "read_quoted [] = None"
| "read_quoted (c # s) =
     (if c = CHR 0x22 then Some ([], s)
      else if c = CHR 0x5C then
        (case s of [] \<Rightarrow> None | d # t \<Rightarrow> map_option (\<lambda>(k, r). (d # k, r)) (read_quoted t))
      else map_option (\<lambda>(k, r). (c # k, r)) (read_quoted s))"

fun read_subscripts :: "nat \<Rightarrow> string \<Rightarrow> string \<times> string" where
  "read_subscripts 0 s = ([], s)"
| "read_subscripts (Suc n) s =
     (case s of
        [] \<Rightarrow> ([], [])
      | c # t \<Rightarrow>
          if c = CHR ''['' then
            (case dropWhile (\<lambda>x. x \<noteq> CHR '']'') t of
               [] \<Rightarrow> ([], s)
             | b # u \<Rightarrow> (let (k, r) = read_subscripts n u in ((c # takeWhile (\<lambda>x. x \<noteq> CHR '']'') t @ [b]) @ k, r)))
          else ([], s))"

definition read_bare :: "string \<Rightarrow> string \<times> string" where
  "read_bare s =
     (let (k, r) = read_subscripts (length s) (dropWhile identifier_char s) in (takeWhile identifier_char s @ k, r))"

definition read_key :: "string \<Rightarrow> (string \<times> string) option" where
  "read_key s = (case s of c # t \<Rightarrow> if c = CHR 0x22 then read_quoted t else Some (read_bare s) | [] \<Rightarrow> None)"

fun read_keys :: "nat \<Rightarrow> string \<Rightarrow> string list option" where
  "read_keys 0 s = (if s = [] then Some [] else None)"
| "read_keys (Suc n) s =
     (case s of
        [] \<Rightarrow> Some []
      | c # t \<Rightarrow>
          if c = CHR ''.'' then
            (case read_key t of None \<Rightarrow> None | Some (k, r) \<Rightarrow> map_option ((#) k) (read_keys n r))
          else None)"

definition read_json_path :: "string \<Rightarrow> string list option" where
  "read_json_path p = (case p of c # s \<Rightarrow> if c = CHR ''$'' then read_keys (length s) s else None | [] \<Rightarrow> None)"

text \<open>What can follow a key in a printed path.\<close>

definition key_ends :: "string \<Rightarrow> bool" where
  "key_ends r \<longleftrightarrow> r = [] \<or> (\<exists>t. r = CHR ''.'' # t)"

lemma read_quoted_key: "read_quoted (quote_key s @ CHR 0x22 # r) = Some (s, r)"
  by (induction s) (auto simp: quote_key_def)

lemma read_subscripts_key: "subscripts s \<Longrightarrow> key_ends r \<Longrightarrow> length s \<le> n \<Longrightarrow> read_subscripts n (s @ r) = (s, r)"
proof (induction s arbitrary: n rule: subscripts.induct)
  case (1 s)
  show ?case
  proof (cases s)
    case Nil
    then show ?thesis using "1.prems"(2) by (cases n) (auto simp: key_ends_def)
  next
    case (Cons c t)
    then obtain b u where u: "c = CHR ''[''" "dropWhile (\<lambda>x. x \<noteq> CHR '']'') t = b # u" "subscripts u"
      using "1.prems"(1) by (subst (asm) subscripts.simps) (auto split: list.splits)
    have b: "b = CHR '']''" using hd_dropWhile [of "\<lambda>x. x \<noteq> CHR '']''" t] u(2) by simp
    then have mem: "CHR '']'' \<in> set t" using u(2) by (metis list.set_intros(1) set_dropWhileD)
    have t: "t = takeWhile (\<lambda>x. x \<noteq> CHR '']'') t @ b # u" using takeWhile_dropWhile_id [of "\<lambda>x. x \<noteq> CHR '']''" t] u(2) by simp
    obtain m where m: "n = Suc m" "length u \<le> m" using "1.prems"(3) Cons arg_cong [OF t, of length] by (cases n) auto
    have "read_subscripts m (u @ r) = (u, r)" using "1.IH" [OF Cons u(2,3) "1.prems"(2) m(2)] .
    moreover have "dropWhile (\<lambda>x. x \<noteq> CHR '']'') (t @ r) = b # u @ r" using u(2) mem by (simp add: dropWhile_append1)
    moreover have "takeWhile (\<lambda>x. x \<noteq> CHR '']'') (t @ r) = takeWhile (\<lambda>x. x \<noteq> CHR '']'') t" using mem by (simp add: takeWhile_append1)
    ultimately show ?thesis using t by (simp add: Cons m(1) u(1) Let_def)
  qed
qed

lemma identifier_split:
  "subscripts s \<or> s = [] \<Longrightarrow> key_ends r \<Longrightarrow> takeWhile identifier_char (s @ r) = [] \<and> dropWhile identifier_char (s @ r) = s @ r"
  by (cases s) (auto simp: key_ends_def subscripts.simps [of "_ # _"] identifier_char_def identifier_start_def is_digit_def
      between_def less_eq_char_def)

lemma read_bare_key:
  assumes "bare_key s" "key_ends r"
  shows "read_bare (s @ r) = (s, r)"
proof -
  let ?i = "takeWhile identifier_char s" and ?u = "dropWhile identifier_char s"
  obtain c t where s: "s = c # t" "identifier_start c" using assms(1) by (auto simp: bare_key_def split: list.splits)
  have u: "subscripts ?u" using assms(1) s by (simp add: bare_key_def identifier_char_def)
  have i: "list_all identifier_char ?i" by (auto simp: list_all_iff dest: set_takeWhileD)
  have e: "s @ r = ?i @ ?u @ r" by simp
  have "takeWhile identifier_char (s @ r) = ?i" "dropWhile identifier_char (s @ r) = ?u @ r"
    using identifier_split [of ?u r] u assms(2) i
    by (metis append_Nil2 e list_all_iff takeWhile_append2 disjI1) (metis e identifier_split [of ?u r] u assms(2) i list_all_iff dropWhile_append2 disjI1)
  then show ?thesis
    using read_subscripts_key [OF u assms(2), of "length (s @ r)"]
    by (simp add: read_bare_def length_dropWhile_le trans_le_add1)
qed

lemma read_key_printed: "key_ends r \<Longrightarrow> read_key (json_path_key s @ r) = Some (s, r)"
proof (cases "bare_key s")
  case True
  assume r: "key_ends r"
  obtain c t where s: "s = c # t" "identifier_start c" using True by (auto simp: bare_key_def split: list.splits)
  then have "c \<noteq> CHR 0x22" by (auto simp: identifier_start_def between_def)
  then show ?thesis using read_bare_key [OF True r] True s by (simp add: read_key_def json_path_key_def)
next
  case False
  then show ?thesis by (simp add: read_key_def json_path_key_def read_quoted_key)
qed

fun dotted :: "string list \<Rightarrow> string" where
  "dotted [] = []"
| "dotted (s # ss) = CHR ''.'' # json_path_key s @ dotted ss"

lemma dotted_join: "ss \<noteq> [] \<Longrightarrow> CHR ''.'' # join ''.'' (map json_path_key ss) = dotted ss"
proof (induction ss rule: dotted.induct)
  case (2 s ss)
  then show ?case by (cases ss) auto
qed simp

lemma read_dotted: "length (dotted ss) \<le> n \<Longrightarrow> read_keys n (dotted ss) = Some ss"
proof (induction ss arbitrary: n)
  case Nil
  then show ?case by (cases n) auto
next
  case (Cons s ss)
  obtain m where m: "n = Suc m" using Cons.prems by (cases n) auto
  have "key_ends (dotted ss)" by (cases ss) (auto simp: key_ends_def)
  then show ?case using Cons m by (simp add: read_key_printed)
qed



text \<open>C37: The operator of a group is ignored: a query is applied as the list of its leaves, in order, so
  two queries with the same leaves make the same calls and the same clauses, whether their groups are
  alternatives or not.\<close>

theorem apply_by_leaves:
  assumes "plain_query q" "plain_query r" "leaves q = leaves r"
  shows "apply_query_model env qm q tx = apply_each env qm (leaves q) (case tx of None \<Rightarrow> new_tx (qm_table qm) | Some t \<Rightarrow> t) []
     \<and> apply_query_model env qm q tx = apply_query_model env qm r tx"
  using apply_leaves(1) [OF assms(1)] apply_leaves(1) [OF assms(2)] assms(3) by (simp add: apply_query_model_def)

definition sample_query_env :: query_env where
  "sample_query_env = \<lparr>qe_date = (\<lambda>s. Inr s), qe_uuid = (\<lambda>s. None), qe_find_agent = (\<lambda>s. Inr None), qe_related = (\<lambda>q. Inr []),
     qe_all_types = None, qe_match_item = (\<lambda>s p. s = p)\<rparr>"

definition named :: "string \<Rightarrow> query_field" where
  "named n = QueryField ''name'' FieldTypeUnknown (QStr n) QEq []"

lemma apply_by_leaves_witness:
  "apply_query_model sample_query_env view_model (make_query (PField (named ''a'')) (PField (named ''b''))) None
   = apply_query_model sample_query_env view_model (make_and_query (PField (named ''a'')) (PField (named ''b''))) None"
  by (rule conjunct2 [OF apply_by_leaves]) (simp_all add: make_query_def make_and_query_def named_def)

subsection \<open>No text of the query in the text of SQL\<close>

fun clause_sql :: "clause \<Rightarrow> string list" where
  "clause_sql (Expr sql vars) = [sql]"
| "clause_sql (CNot c) = clause_sql c"
| "clause_sql (COr cs) = concat (map clause_sql cs)"
| "clause_sql c = []"

fun call_sql :: "gorm_call \<Rightarrow> string list" where
  "call_sql (GWhere sql vars) = [sql]"
| "call_sql (GClauses cs) = concat (map clause_sql cs)"
| "call_sql c = []"

definition positive_sql :: "string list" where
  "positive_sql = [text_eq_sql, text_in_sql, text_like_sql, ''? && ?::text[]'', ''? @> ?::text[]'',
     ''EXISTS (SELECT 1 FROM unnest(?) AS value WHERE value LIKE ?)'']"

definition filter_sql :: "string list" where
  "filter_sql = positive_sql @ map (\<lambda>s. ''NOT ('' @ s @ '')'') positive_sql"

definition json_sql :: "string \<Rightarrow> string list" where
  "json_sql column = [json_exists_sql column, ''NOT '' @ json_exists_sql column, json_path_sql column QEq, json_path_sql column QNeq,
     json_values_sql QEq column, json_values_sql QNeq column]"

definition fixed_sql :: "string list" where
  "fixed_sql = [''1 = 0'', ''id IN ?'', traverse_sql, property_sql ''EXISTS'' [], property_sql ''NOT EXISTS'' [],
     property_sql ''EXISTS'' (property_number_sql ''>''), property_sql ''EXISTS'' (property_number_sql ''<''),
     property_sql ''EXISTS'' property_text_sql, property_sql ''NOT EXISTS'' property_text_sql]"

text \<open>The texts a query can lead to: they depend on the table only.\<close>

definition model_sql :: "query_model \<Rightarrow> string set" where
  "model_sql qm = set filter_sql \<union> (\<Union>c \<in> set (qm_json qm). set (json_sql c)) \<union> set fixed_sql"

definition tx_sql :: "gorm_tx \<Rightarrow> string set" where
  "tx_sql tx = (\<Union>c \<in> set (tx_calls tx). set (call_sql c))"

definition clauses_sql :: "clause list \<Rightarrow> string set" where
  "clauses_sql cs = (\<Union>c \<in> set cs. set (clause_sql c))"

lemma tx_sql_call [simp]: "tx_sql (tx_call c tx) = tx_sql tx \<union> set (call_sql c)"
  by (auto simp: tx_sql_def tx_call_def)

lemma clauses_sql_append [simp]: "clauses_sql (cs @ ds) = clauses_sql cs \<union> clauses_sql ds" "clauses_sql [] = {}"
  by (auto simp: clauses_sql_def)

lemma tx_sql_fold:
  "tx_sql (fold (\<lambda>v. tx_call (GWhere s (f v))) vs tx) \<subseteq> tx_sql tx \<union> {s}"
  by (induction vs arbitrary: tx) fastforce+

lemma json_mapper_sql: "tx_sql (json_path_mapper column op path val tx) \<subseteq> tx_sql tx \<union> set (json_sql column)"
proof -
  have "json_path_sql column op \<in> set (json_sql column)" by (cases op) (simp_all add: json_sql_def json_path_sql_def)
  then show ?thesis
    using tx_sql_fold [of "json_path_sql column op" "\<lambda>v. [ArgString (to_json_path (if column \<in> set flat_json_columns then [path] else split_char (CHR ''.'') path)), ArgString v]"
        "split_char (CHR '','') val" tx]
    by (auto simp: json_path_mapper_def Let_def json_sql_def simp del: split_char.simps)
qed

lemma properties_sql: "tx_sql (filter_properties op name val tx) \<subseteq> tx_sql tx \<union> set fixed_sql"
  by (auto simp: filter_properties_def fixed_sql_def)

lemma json_values_in: "json_values_sql (if op = QEq \<or> op = QNeq then op else QEq) column \<in> set (json_sql column)"
  by (auto simp: json_sql_def)

lemma filter_values_sql:
  assumes "column \<noteq> ''tags''" "column \<noteq> ''properties''"
  shows "\<exists>t. filter_json_column_values column op val tx = Some t \<and> tx_sql t \<subseteq> tx_sql tx \<union> set (json_sql column)"
  using assms json_values_in [of op column] by (auto simp: filter_json_column_values_def Let_def simp del: split_char.simps)

lemma positive_text_in:
  "text_eq_sql \<in> set positive_sql" "text_in_sql \<in> set positive_sql" "text_like_sql \<in> set positive_sql"
  "''? '' @ ''&&'' @ '' ?::text[]'' \<in> set positive_sql" "''? '' @ ''@>'' @ '' ?::text[]'' \<in> set positive_sql"
  "''EXISTS (SELECT 1 FROM unnest(?) AS value WHERE value LIKE ?)'' \<in> set positive_sql"
  by (simp_all add: positive_sql_def)

lemma positive_texts:
  assumes "ft \<noteq> FieldTypeJsonbArray" "c \<in> set (to_expression e field ft)"
  shows "\<exists>s vars. c = Expr s vars \<and> s \<in> set positive_sql"
proof (cases ft)
  case FieldTypeTextArray
  then have "c \<in> set (text_array_field_expression e field)" using assms(2) by simp
  then show ?thesis
    unfolding text_array_field_expression_def text_array_like_expression_def Let_def
    using positive_text_in(4-) by (auto simp del: append.simps split: if_splits)
next
  case FieldTypeUnknown
  then have "c \<in> set (text_field_expression e field)" using assms(2) by simp
  then show ?thesis
    unfolding text_field_expression_def Let_def using positive_text_in(1-3) by (auto split: if_splits)
qed (use assms in simp)

lemma to_clauses_sql:
  assumes "to_clauses (QueryField field ft v op []) = Inr cs" "ft \<noteq> FieldTypeJsonbArray"
  shows "clauses_sql cs \<subseteq> set filter_sql"
proof -
  obtain fq where fq: "parse_filtering_query_v2 (sprint v) False = Inr fq" using parse_filtering_buckets by blast
  have each: "set (clause_sql c) \<subseteq> set filter_sql" if c: "c \<in> set (fq_to_expression fq field ft)" for c
  proof -
    obtain d where d: "d \<in> set (to_expression (fq_pos fq) field ft) \<and> c = d \<or> d \<in> set (to_expression (fq_not fq) field ft) \<and> c = negate_expr d"
      using c by (auto simp: fq_to_expression_def split: if_splits)
    then obtain s vars where "d = Expr s vars" "s \<in> set positive_sql" using positive_texts [OF assms(2)] by metis
    then show ?thesis using d by (auto simp: filter_sql_def)
  qed
  then have all: "clauses_sql (fq_to_expression fq field ft) \<subseteq> set filter_sql" by (auto simp: clauses_sql_def)
  show ?thesis
  proof (cases op)
    case QNeq
    have grouped: "clauses_sql [COr es] = clauses_sql es" "clauses_sql [CNot e] = clauses_sql [e]" for es e
      by (auto simp: clauses_sql_def)
    show ?thesis using QNeq assms(1) all fq
      by (cases "fq_to_expression fq field ft" rule: remdups_adj.cases) (auto simp: to_clauses_def grouped)
  qed (use assms(1) all fq in \<open>auto simp: to_clauses_def clauses_sql_def\<close>)
qed

abbreviation sql_grows :: "string set \<Rightarrow> gorm_tx \<Rightarrow> gorm_tx \<Rightarrow> bool" where
  "sql_grows S tx tx' \<equiv> tx_sql tx' \<subseteq> tx_sql tx \<union> S"

lemma json_step_sql:
  assumes "json_column_step original op val column (field, tx) = Inr (field', tx')" "original \<notin> {''tags'', ''properties''}"
  shows "sql_grows (set (json_sql column)) tx tx'"
proof -
  have m: "tx_sql (json_path_mapper column op path val tx) \<subseteq> tx_sql tx \<union> set (json_sql column)" for path
    by (rule json_mapper_sql)
  obtain f1 tx1 where p: "(if has_prefix (column @ ''.'') original then (column, json_path_mapper column op (trim_prefix (column @ ''.'') original) val tx)
      else if has_prefix (column @ ''.'') field then (column, json_path_mapper column op (trim_prefix (column @ ''.'') field) val tx)
      else (field, tx)) = (f1, tx1)" by (rule prod.exhaust)
  have tx1: "sql_grows (set (json_sql column)) tx tx1" using p m by (simp split: if_splits) (metis m)+
  have step: "original = column \<and> (op = QEq \<or> op = QNeq) \<and> filter_json_column_values column op val tx1 = Some tx' \<or> tx' = tx1"
    using assms(1) unfolding json_column_step_def Let_def prod.case p by (simp split: if_splits option.splits)
  show ?thesis
  proof (cases "tx' = tx1")
    case False
    then obtain "original = column" "filter_json_column_values column op val tx1 = Some tx'" using step by blast
    then show ?thesis using filter_values_sql [of column op val tx1] assms(2) tx1 by auto
  qed (use tx1 in simp)
qed

lemma json_columns_sql:
  assumes "original \<notin> {''tags'', ''properties''}"
  shows "json_columns original op val cols (field, tx) = Inr (field', tx') \<Longrightarrow> sql_grows (\<Union>c \<in> set cols. set (json_sql c)) tx tx'"
proof (induction cols arbitrary: field tx)
  case (Cons c cols)
  obtain f1 t1 where s: "json_column_step original op val c (field, tx) = Inr (f1, t1)" "json_columns original op val cols (f1, t1) = Inr (field', tx')"
    using Cons.prems by (auto simp: and_then_Inr_iff)
  show ?case using json_step_sql [OF s(1) assms] Cons.IH [OF s(2)] by auto
qed simp

lemma property_columns_sql:
  assumes "property_columns qm original op val (field, tx) = Inr (field', tx')" "original \<notin> {''tags'', ''properties''}"
  shows "sql_grows (set fixed_sql) tx tx'"
  using assms properties_sql [of op "trim_prefix ''properties.'' original" val tx]
  by (auto simp: property_columns_def split: if_splits)

lemma common_field_sql: "common_field field val tx = Inr tx' \<Longrightarrow> tx_sql tx' = tx_sql tx"
  by (auto simp: common_field_def split: if_splits option.splits)

lemma fixed_sql_in: "''1 = 0'' \<in> set fixed_sql" "''id IN ?'' \<in> set fixed_sql" "traverse_sql \<in> set fixed_sql"
  by (simp_all add: fixed_sql_def)

lemma custom_sql: "run_custom env c val tx = Inr tx' \<Longrightarrow> sql_grows (set fixed_sql) tx tx'"
  using fixed_sql_in by (cases c) (auto simp: related_configs_mapper_def component_config_traverse_def and_then_Inr_iff split: if_splits)

lemma column_clauses_sql:
  assumes "column_clauses env qm field ty v op = Inr cs" "ty \<noteq> FieldTypeJsonbArray"
  shows "clauses_sql cs \<subseteq> set filter_sql"
  using assms to_clauses_sql by (auto simp: column_clauses_def split: if_splits sum.splits)

fun applied_in :: "query_model \<Rightarrow> gorm_tx \<Rightarrow> applied \<Rightarrow> bool" where
  "applied_in qm tx (AStop t) = sql_grows (model_sql qm) tx t"
| "applied_in qm tx (AGo t cs) = (sql_grows (model_sql qm) tx t \<and> clauses_sql cs \<subseteq> model_sql qm)"

lemma apply_columnsE:
  assumes "apply_columns env qm original field ty val v op tx = Inr r"
  obtains t1 t2 f3 t3 f4 t4 cs where "common_field field val tx = Inr t1"
    and "(case map_of (qm_custom qm) field of None \<Rightarrow> Inr t1
       | Some c \<Rightarrow> (case run_custom env c val t1 of Inl e \<Rightarrow> Inl (InvalidValueFor field e) | Inr t \<Rightarrow> Inr t)) = Inr t2"
    and "json_columns original op val (qm_json qm) (field, t2) = Inr (f3, t3)"
    and "property_columns qm original op val (f3, t3) = Inr (f4, t4)"
    and "column_clauses env qm f4 ty v op = Inr cs" "r = AGo t4 cs"
proof -
  have "\<exists>t1. common_field field val tx = Inr t1 \<and> (\<exists>t2. (case map_of (qm_custom qm) field of None \<Rightarrow> Inr t1
               | Some c \<Rightarrow> (case run_custom env c val t1 of Inl e \<Rightarrow> Inl (InvalidValueFor field e) | Inr t \<Rightarrow> Inr t)) = Inr t2
       \<and> (\<exists>f3 t3. json_columns original op val (qm_json qm) (field, t2) = Inr (f3, t3)
       \<and> (\<exists>f4 t4. property_columns qm original op val (f3, t3) = Inr (f4, t4)
       \<and> (\<exists>cs. column_clauses env qm f4 ty v op = Inr cs \<and> r = AGo t4 cs))))"
    using assms by (auto simp: apply_columns_def and_then_Inr_iff split: sum.splits)
  then show thesis using that by blast
qed

lemma apply_columns_sql:
  assumes "apply_columns env qm original field ty val v op tx = Inr r"
    and "original \<notin> {''tags'', ''properties''}" "ty \<noteq> FieldTypeJsonbArray"
  shows "applied_in qm tx r"
proof -
  obtain t1 t2 f3 t3 f4 t4 cs where t1: "common_field field val tx = Inr t1"
    and t2: "(case map_of (qm_custom qm) field of None \<Rightarrow> Inr t1
       | Some c \<Rightarrow> (case run_custom env c val t1 of Inl e \<Rightarrow> Inl (InvalidValueFor field e) | Inr t \<Rightarrow> Inr t)) = Inr t2"
    and t3: "json_columns original op val (qm_json qm) (field, t2) = Inr (f3, t3)"
    and t4: "property_columns qm original op val (f3, t3) = Inr (f4, t4)"
    and cs: "column_clauses env qm f4 ty v op = Inr cs" "r = AGo t4 cs" using assms(1) by (rule apply_columnsE)
  have "sql_grows (set fixed_sql) t1 t2" using t2 custom_sql by (auto split: option.splits sum.splits)
  then have "sql_grows (model_sql qm) tx t4"
    using common_field_sql [OF t1] json_columns_sql [OF assms(2) t3] property_columns_sql [OF t4 assms(2)]
    by (auto simp: model_sql_def)
  moreover have "clauses_sql cs \<subseteq> model_sql qm" using column_clauses_sql [OF cs(1) assms(3)] by (auto simp: model_sql_def)
  ultimately show ?thesis by (simp add: cs(2))
qed

definition scalar_types :: "query_model \<Rightarrow> bool" where
  "scalar_types qm = list_all (\<lambda>(f, t). t \<noteq> FieldTypeJsonbArray) (qm_types qm)"

lemma apply_field_sql:
  assumes "apply_field env qm original ty v op tx = Inr r" "scalar_types qm"
    and "original \<notin> {''tags'', ''properties''}" "ty \<noteq> FieldTypeJsonbArray"
  shows "applied_in qm tx r"
proof -
  let ?f = "resolve_alias qm original"
  let ?t = "case map_of (qm_types qm) ?f of Some t \<Rightarrow> t | None \<Rightarrow> ty"
  have t: "?t \<noteq> FieldTypeJsonbArray"
    using assms(2,4) by (auto simp: scalar_types_def list_all_iff dest!: map_of_SomeD split: option.split)
  have go: "applied_in qm tx r" if "apply_columns env qm original ?f ?t (sprint v) w op tx = Inr r" for w
    using apply_columns_sql [OF that assms(3) t] .
  show ?thesis
  proof (cases "?f = ''@order''")
    case True
    then obtain t where "apply_order v tx = Inr t" "r = AStop t"
      using assms(1) by (auto simp: apply_field_def Let_def and_then_Inr_iff)
    then show ?thesis by (auto simp: apply_order_def split: qvalue.splits if_splits)
  next
    case False
    then show ?thesis
      using assms(1) go by (auto simp: apply_field_def Let_def split: option.splits if_splits sum.splits)
  qed
qed

fun scalar_query :: "query_field \<Rightarrow> bool" where
  "scalar_query (QueryField f ty v op subs) \<longleftrightarrow>
     f \<notin> {''tags'', ''properties''} \<and> ty \<noteq> FieldTypeJsonbArray \<and> list_all scalar_query subs"

lemma apply_query_sql:
  "scalar_types qm \<Longrightarrow> scalar_query q \<Longrightarrow> apply_query env qm q tx = Inr (t, cs)
    \<Longrightarrow> sql_grows (model_sql qm) tx t \<and> clauses_sql cs \<subseteq> model_sql qm"
  "scalar_types qm \<Longrightarrow> list_all scalar_query qs \<Longrightarrow> clauses_sql ds \<subseteq> model_sql qm \<Longrightarrow> apply_each env qm qs tx ds = Inr (t, cs)
    \<Longrightarrow> sql_grows (model_sql qm) tx t \<and> clauses_sql cs \<subseteq> model_sql qm"
proof (induction env qm q tx and env qm qs tx ds arbitrary: t cs and t cs rule: apply_query_apply_each.induct)
  case (1 env qm f ty v op subs tx)
  show ?case
  proof (cases "f = []")
    case True
    then show ?thesis using 1 by simp
  next
    case False
    then obtain r where r: "apply_field env qm f ty v op tx = Inr r"
      and rest: "(case r of AStop t \<Rightarrow> Inr (t, []) | AGo t cs \<Rightarrow> apply_each env qm subs t cs) = Inr (t, cs)"
      using "1.prems"(3) by (auto simp: and_then_Inr_iff)
    have in_r: "applied_in qm tx r" using apply_field_sql [OF r "1.prems"(1)] "1.prems"(2) by simp
    show ?thesis
    proof (cases r)
      case (AGo t1 cs1)
      have "sql_grows (model_sql qm) t1 t \<and> clauses_sql cs \<subseteq> model_sql qm"
        by (rule "1.IH"(2) [OF False r AGo]) (use "1.prems" in_r AGo rest in auto)
      then show ?thesis using in_r AGo by auto
    qed (use in_r rest in auto)
  qed
next
  case (3 env qm q qs tx ds)
  obtain t1 cs1 where q: "apply_query env qm q tx = Inr (t1, cs1)" "apply_each env qm qs t1 (ds @ cs1) = Inr (t, cs)"
    using "3.prems"(4) by (auto simp: and_then_Inr_iff)
  have h: "sql_grows (model_sql qm) tx t1 \<and> clauses_sql cs1 \<subseteq> model_sql qm"
    by (rule "3.IH"(1)) (use "3.prems" q in auto)
  have "sql_grows (model_sql qm) t1 t \<and> clauses_sql cs \<subseteq> model_sql qm"
    by (rule "3.IH"(2)) (use "3.prems" q h in auto)
  then show ?case using h by auto
qed auto

lemma models_scalar: "get_model_from_table table = Some qm \<Longrightarrow> scalar_types qm"
proof -
  have "list_all (\<lambda>(t, qm). scalar_types qm) models_by_table" by code_simp
  moreover assume "get_model_from_table table = Some qm"
  ultimately show ?thesis by (auto simp: get_model_from_table_def list_all_iff dest!: map_of_SomeD)
qed



text \<open>The exception: an unkeyed pattern for the values of tags is part of the text of the SQL.\<close>

lemma no_split: "c \<notin> set s \<Longrightarrow> split_char c s = [s]"
  by (induction s) auto

lemma drop_ends: "g \<noteq> [] \<Longrightarrow> is_star (hd g) = False \<Longrightarrow> is_star (last g) = False \<Longrightarrow> trim_where is_star (CHR ''*'' # g @ ''*'') = g"
proof -
  assume g: "g \<noteq> []" "is_star (hd g) = False" "is_star (last g) = False"
  obtain a xs where a: "g = a # xs" using g(1) by (cases g) auto
  obtain ys b where b: "g = ys @ [b]" using g(1) by (cases g rule: rev_cases) auto
  have "dropWhile is_star (CHR ''*'' # g @ ''*'') = g @ ''*''" using g(2) a by (simp add: is_star_def)
  moreover have "dropWhile is_star (rev (g @ ''*'')) = rev g" using g(3) b by (simp add: is_star_def)
  ultimately show ?thesis by (simp add: trim_where_def)
qed

theorem tags_pattern_in_sql:
  assumes "g \<noteq> []" "CHR '','' \<notin> set g" "hd g \<noteq> CHR ''*''" "last g \<noteq> CHR ''*''"
  shows "apply_query_model env config_item_model (QueryField ''tags'' FieldTypeUnknown (QStr (''*'' @ g @ ''*'')) QEq []) (Some tx)
     = Inr (tx_call (GClauses [Expr (''jsonb_path_exists(?, '' @ [CHR 0x27] @ ''$[*] ? (@ like_regex '' @ [CHR 0x22] @ ''.*'' @ g @ ''.*''
         @ [CHR 0x22] @ '')'' @ [CHR 0x27] @ '')'') [ArgColumn \<lparr>col_name = ''tags_values'', col_raw = False\<rparr>, ArgExpr ''?'']]) tx, [])"
proof -
  let ?v = "''*'' @ g @ ''*''"
  have split: "filter_items ?v = [?v]" using assms(2) by (simp add: filter_items_def no_split)
  have suffix: "has_suffix ''*'' ?v" by (auto simp: has_suffix_iff)
  have trim: "trim_where is_star ?v = g" using drop_ends [OF assms(1)] assms(3,4) by (simp add: is_star_def)
  have fq: "parse_filtering_query_v2 ?v False = Inr \<lparr>fq_pos = \<lparr>e_in = [], e_prefix = [], e_suffix = [], e_glob = [g]\<rparr>,
      fq_not = no_expressions\<rparr>"
    unfolding parse_filtering_buckets split
    using suffix trim by (simp add: positives_def negatives_def is_negated_def buckets_def plains_def prefixes_of_def suffixes_of_def
        globs_def is_wild_def no_expressions_def)
  have cs: "to_clauses (QueryField ''tags_values'' FieldTypeJsonbArray (QStr ?v) QEq []) = Inr [like_regex_expression ''tags_values'' (''.*'' @ g @ ''.*'')]"
    by (simp add: to_clauses_def fq [simplified] fq_to_expression_def jsonb_list_field_expression_def no_expressions_def)
  then have vals: "filter_json_column_values ''tags'' QEq ?v tx = Some (tx_call (GClauses [like_regex_expression ''tags_values'' (''.*'' @ g @ ''.*'')]) tx)"
    by (simp add: filter_json_column_values_def array_values_def)
  have ali: "resolve_alias config_item_model ''tags'' = ''tags''" by code_simp
  have model: "qm_json config_item_model = [''labels'', ''tags'', ''config'']" "qm_has_properties config_item_model"
    "map_of (qm_types config_item_model) ''tags'' = None" "map_of (qm_mappers config_item_model) ''tags'' = None"
    "map_of (qm_custom config_item_model) ''tags'' = None"
    by (simp_all add: config_item_model_def date_mappers_def)
  show ?thesis using vals
    by (simp add: apply_query_model_def apply_field_def ali apply_columns_def model common_field_def json_column_step_def
        property_columns_def column_clauses_def ignored_for_clauses_def has_prefix_def like_regex_expression_def)
qed

subsection \<open>Fields that cannot be searched\<close>

definition rejected_columns :: "(query_model \<times> string) list" where
  "rejected_columns = [(component_model, ''summary''), (check_model, ''spec''), (canary_model, ''spec''), (config_change_model, ''details'')]"

lemma lower_append: "to_lower (a @ b) = to_lower a @ to_lower b"
  by (simp add: to_lower_def)

lemma resolve_keyed:
  "resolve_alias component_model (''summary.'' @ k) = ''summary.'' @ to_lower k"
  "resolve_alias check_model (''spec.'' @ k) = ''spec.'' @ to_lower k"
  "resolve_alias canary_model (''spec.'' @ k) = ''spec.'' @ to_lower k"
  "resolve_alias config_change_model (''details.'' @ k) = ''details.'' @ to_lower k"
  by (simp_all add: resolve_alias_def to_lower_def lower_char_def component_model_def check_model_def canary_model_def
      config_change_model_def date_aliases_def)

text \<open>The keys of a JSON column are addressed as \<open>column.key\<close>. The columns summary of components, spec of
  checks and canaries, and details of changes are listed for it, but every search for one of their keys is
  refused as an unsupported column.\<close>

theorem json_columns_rejected:
  assumes "(qm, column) \<in> set rejected_columns"
  shows "column \<in> set (qm_json qm)
    \<and> apply_query_model env qm (QueryField (column @ ''.'' @ k) ty v op subs) (Some tx) = Inl (UnsupportedColumn column (qm_table qm))"
proof -
  consider "qm = component_model" "column = ''summary''" | "qm = check_model" "column = ''spec''"
    | "qm = canary_model" "column = ''spec''" | "qm = config_change_model" "column = ''details''"
    using assms by (auto simp: rejected_columns_def)
  then show ?thesis
  proof cases
    case 1
    then show ?thesis
      using resolve_keyed(1) [of k]
      by (simp add: apply_query_model_def apply_field_def apply_columns_def common_field_def json_column_step_def property_columns_def
          column_clauses_def ignored_for_clauses_def has_prefix_def component_model_def date_mappers_def)
  next
    case 2
    then show ?thesis
      using resolve_keyed(2) [of k]
      by (simp add: apply_query_model_def apply_field_def apply_columns_def common_field_def json_column_step_def property_columns_def
          column_clauses_def ignored_for_clauses_def has_prefix_def check_model_def date_mappers_def)
  next
    case 3
    then show ?thesis
      using resolve_keyed(3) [of k]
      by (simp add: apply_query_model_def apply_field_def apply_columns_def common_field_def json_column_step_def property_columns_def
          column_clauses_def ignored_for_clauses_def has_prefix_def canary_model_def date_mappers_def)
  next
    case 4
    then show ?thesis
      using resolve_keyed(4) [of k]
      by (simp add: apply_query_model_def apply_field_def apply_columns_def common_field_def json_column_step_def property_columns_def
          column_clauses_def ignored_for_clauses_def has_prefix_def config_change_model_def date_mappers_def)
  qed
qed

text \<open>Every alias of a table is one of its columns or a key of one of its JSON columns, but for one: the alias
  of \<open>external_id\<close> on changes.\<close>

definition addressable :: "query_model \<Rightarrow> string \<Rightarrow> bool" where
  "addressable qm a \<longleftrightarrow> a \<in> set (qm_columns qm) \<or> list_ex (\<lambda>c. has_prefix (c @ ''.'') a) (qm_json qm)"

theorem aliases_addressable:
  "concat (map (\<lambda>(t, qm). map (\<lambda>(f, a). (t, f)) (filter (\<lambda>(f, a). \<not> addressable qm a) (qm_aliases qm))) models_by_table)
   = [(''catalog_changes'', ''external_id'')]"
  by code_simp

text \<open>The agent of a change is a column without an alias, so a selector with an agent is refused there.\<close>

lemma change_agent_rejected:
  "apply_query_model env config_change_model (QueryField ''agent'' ty v op []) (Some tx) = Inl (UnsupportedColumn ''agent'' ''catalog_changes'')"
proof -
  have "resolve_alias config_change_model ''agent'' = ''agent''" by code_simp
  then show ?thesis
    by (simp add: apply_query_model_def apply_field_def apply_columns_def common_field_def json_column_step_def property_columns_def
        column_clauses_def ignored_for_clauses_def has_prefix_def config_change_model_def)
qed

end
