(* ===== verification/Query_Types.thy ===== *)
theory Query_Types
  imports Query_Grammar
begin

section \<open>The types of the query parser\<close>

text \<open>
  The actions of the grammar assert the dynamic types of the values they are given. Here is a type
  system for expressions and labels: a type for each rule, inferred types for everything else, and for
  each action the labels it asserts and the type it gives. The rule table is well typed, which is
  checked by evaluation, and a well typed table never panics: whatever the text, no assertion fails,
  and the start rule gives a query field.
\<close>

datatype gty = TField | TStr | TOp | TBytes | TList gty | TTuple "gty list" | TAny

fun typed :: "gty \<Rightarrow> gval pvalue \<Rightarrow> bool" where
  "typed TAny v = True"
| "typed TField v = (case v of VAct (GField f) \<Rightarrow> True | _ \<Rightarrow> False)"
| "typed TStr v = (case v of VAct (GStr s) \<Rightarrow> True | _ \<Rightarrow> False)"
| "typed TOp v = (case v of VAct (GOp p) \<Rightarrow> True | _ \<Rightarrow> False)"
| "typed TBytes v = (case v of VBytes b \<Rightarrow> b \<noteq> [] | _ \<Rightarrow> False)"
| "typed (TList t) v = (case v of VList vs \<Rightarrow> (\<forall>w \<in> set vs. typed t w) | _ \<Rightarrow> False)"
| "typed (TTuple ts) v = (case v of VList vs \<Rightarrow> list_all2 typed ts vs | _ \<Rightarrow> False)"

type_synonym label_types = "(string \<times> gty) list"

definition labels_typed :: "label_types \<Rightarrow> gval labels \<Rightarrow> bool" where
  "labels_typed D m \<longleftrightarrow> (\<forall>l t. map_of D l = Some t \<longrightarrow> typed t (stack_value m l))"

definition label_type :: "label_types \<Rightarrow> string \<Rightarrow> gty" where
  "label_type D l = (case map_of D l of None \<Rightarrow> TAny | Some t \<Rightarrow> t)"

definition path_type :: gty where
  "path_type = TList (TTuple [TBytes, TStr])"

text \<open>The labels an action asserts, and the type of its value.\<close>

fun asserts :: "peg_action \<Rightarrow> label_types" where
  "asserts OnFieldQuery2 = [(''q'', TField)]"
| "asserts OnFieldQuery18 = [(''f'', TField)]"
| "asserts OnField1 = [(''src'', TStr), (''op'', TOp)]"
| "asserts OnExistsField2 = [(''src'', TStr)]"
| "asserts OnExistsField11 = [(''src'', TStr)]"
| "asserts OnExistSource1 = [(''name'', TStr), (''path'', path_type)]"
| "asserts OnSource1 = [(''name'', TStr), (''path'', path_type)]"
| "asserts OnString1 = [(''chars'', TList TBytes)]"
| "asserts OnMeasure1 = [(''unit'', TStr)]"
| "asserts a = []"

fun gives :: "label_types \<Rightarrow> peg_action \<Rightarrow> gty" where
  "gives D OnQuery1 = TField"
| "gives D OnOrQuery1 = label_type D ''aq''"
| "gives D OnAndQuery1 = TField"
| "gives D OnFieldQuery2 = TField"
| "gives D OnFieldQuery12 = label_type D ''ef''"
| "gives D OnFieldQuery18 = TField"
| "gives D OnFieldQuery24 = TField"
| "gives D OnFieldQuery31 = TField"
| "gives D OnField1 = TField"
| "gives D OnExistsField2 = TField"
| "gives D OnExistsField11 = TField"
| "gives D OnOperator1 = TOp"
| "gives D OnValue1 = label_type D ''val''"
| "gives D OnInteger1 = TAny"
| "gives D OnMeasure1 = TAny"
| "gives D OnFloat1 = TAny"
| "gives D a = TStr"

definition meets :: "label_types \<Rightarrow> peg_action \<Rightarrow> bool" where
  "meets D a \<longleftrightarrow> list_all (\<lambda>(l, t). map_of D l = Some t) (asserts a)"

fun seq_types :: "(label_types \<Rightarrow> peg_action peg \<Rightarrow> (gty \<times> label_types) option) \<Rightarrow> label_types \<Rightarrow> peg_action peg list
    \<Rightarrow> (gty list \<times> label_types) option" where
  "seq_types ty D [] = Some ([], D)"
| "seq_types ty D (e # es) =
     (case ty D e of
        None \<Rightarrow> None
      | Some (t, D1) \<Rightarrow> map_option (\<lambda>(ts, D2). (t # ts, D2)) (seq_types ty D1 es))"

lemma seq_types_cong [fundef_cong]:
  "es = es' \<Longrightarrow> D = D' \<Longrightarrow> (\<And>e D. e \<in> set es' \<Longrightarrow> ty D e = ty' D e) \<Longrightarrow> seq_types ty D es = seq_types ty' D' es'"
proof (induction es arbitrary: es' D D')
  case (Cons e es)
  then show ?case by (auto split: option.split) (metis+)?
qed auto

definition join_types :: "gty list \<Rightarrow> gty" where
  "join_types ts = (case ts of [] \<Rightarrow> TAny | t # us \<Rightarrow> if list_all (\<lambda>u. u = t) us then t else TAny)"

fun infer :: "(string \<Rightarrow> gty) \<Rightarrow> label_types \<Rightarrow> peg_action peg \<Rightarrow> (gty \<times> label_types) option" where
  "infer G D (PAction a e) =
     (case infer G D e of
        None \<Rightarrow> None
      | Some (t, D1) \<Rightarrow> if meets D1 a then Some (gives D1 a, D1) else None)"
| "infer G D (PChoice es) =
     (let rs = map (infer G []) es in
      if list_all (\<lambda>r. r \<noteq> None) rs then Some (join_types (map (\<lambda>r. fst (the r)) rs), D) else None)"
| "infer G D (PSeq es) = map_option (\<lambda>(ts, D1). (TTuple ts, D1)) (seq_types (infer G) D es)"
| "infer G D (PLabel l e) =
     (case infer G [] e of
        None \<Rightarrow> None
      | Some (t, D1) \<Rightarrow> if l \<noteq> [] then Some (t, AList.update l t D) else None)"
| "infer G D (PRef r) = Some (G r, D)"
| "infer G D (PLit v) = Some (if v \<noteq> [] then TBytes else TAny, D)"
| "infer G D (PClass cc) = Some (TBytes, D)"
| "infer G D PAny = Some (TBytes, D)"
| "infer G D (PAnd e) = map_option (\<lambda>_. (TAny, D)) (infer G [] e)"
| "infer G D (PNot e) = map_option (\<lambda>_. (TAny, D)) (infer G [] e)"
| "infer G D (PStar e) = map_option (\<lambda>(t, _). (TList t, D)) (infer G [] e)"
| "infer G D (PPlus e) = map_option (\<lambda>(t, _). (TList t, D)) (infer G [] e)"
| "infer G D (POpt e) = map_option (\<lambda>_. (TAny, D)) (infer G [] e)"

definition rules_typed :: "(string \<Rightarrow> gty) \<Rightarrow> (string \<times> peg_action peg) list \<Rightarrow> bool" where
  "rules_typed G g \<longleftrightarrow> list_all (\<lambda>(r, e). case infer G [] e of None \<Rightarrow> False | Some (t, D) \<Rightarrow> G r = t \<or> G r = TAny) g"

definition rule_type :: "string \<Rightarrow> gty" where
  "rule_type r = (case map_of
     [(''Query'', TField), (''OrQuery'', TField), (''AndQuery'', TField), (''FieldQuery'', TField), (''Field'', TField),
      (''ExistsField'', TField), (''ExistSource'', TStr), (''ExistPrefix'', TStr), (''Source'', TStr),
      (''PathSegment'', TStr), (''Operator'', TOp), (''String'', TStr), (''ISODate'', TStr), (''Time'', TStr),
      (''DateTime'', TStr), (''Word'', TStr), (''Identifier'', TStr)] r of None \<Rightarrow> TAny | Some t \<Rightarrow> t)"

lemma query_rules_typed: "rules_typed rule_type query_rules"
  by code_simp

subsection \<open>Actions\<close>

lemma typed_simps:
  "typed TField v \<longleftrightarrow> (\<exists>f. v = VAct (GField f))" "typed TStr v \<longleftrightarrow> (\<exists>s. v = VAct (GStr s))"
  "typed TOp v \<longleftrightarrow> (\<exists>p. v = VAct (GOp p))" "typed TBytes v \<longleftrightarrow> (\<exists>b. v = VBytes b \<and> b \<noteq> [])"
  "typed (TList t) v \<longleftrightarrow> (\<exists>vs. v = VList vs \<and> (\<forall>w \<in> set vs. typed t w))"
  "typed (TTuple ts) v \<longleftrightarrow> (\<exists>vs. v = VList vs \<and> list_all2 typed ts vs)"
  by (auto split: pvalue.splits gval.splits)

declare typed.simps(2-) [simp del]

lemma typed_values [simp]:
  "typed TField (VAct (GField f))" "typed TStr (VAct (GStr s))" "typed TOp (VAct (GOp p))"
  "typed TBytes (VBytes b) \<longleftrightarrow> b \<noteq> []" "typed (TList t) (VList vs) \<longleftrightarrow> (\<forall>w \<in> set vs. typed t w)"
  "typed (TTuple ts) (VList vs) \<longleftrightarrow> list_all2 typed ts vs"
  by (simp_all add: typed_simps)

lemma label_typed: "labels_typed D m \<Longrightarrow> typed (label_type D l) (stack_value m l)"
  by (auto simp: labels_typed_def label_type_def split: option.split)

fun acted_typed :: "gty \<Rightarrow> gval acted \<Rightarrow> bool" where
  "acted_typed t (Acted v) = typed t v"
| "acted_typed t (ActedErr v e) = typed t v"
| "acted_typed t (ActPanic e) = False"

lemma path_part_typed: "typed (TTuple [TBytes, TStr]) p \<Longrightarrow> path_part p \<noteq> None"
  by (auto simp: typed_simps list_all2_Cons1)

lemma source_typed: "typed TStr n \<Longrightarrow> typed path_type p \<Longrightarrow> acted_typed TStr (source_action n p)"
proof -
  assume n: "typed TStr n" and p: "typed path_type p"
  obtain s where s: "n = VAct (GStr s)" using n unfolding typed_simps by blast
  obtain ps where ps: "p = VList ps" "\<forall>q \<in> set ps. typed (TTuple [TBytes, TStr]) q"
    using p unfolding path_type_def typed_simps(5) by blast
  have "\<forall>q \<in> set ps. path_part q \<noteq> None" using ps(2) path_part_typed by blast
  then show ?thesis by (simp add: source_action_def s ps(1))
qed

lemma string_typed:
  assumes "typed (TList TBytes) v"
  shows "acted_typed TStr (string_from_chars v)"
proof -
  obtain vs where vs: "v = VList vs" "\<forall>w \<in> set vs. typed TBytes w" using assms unfolding typed_simps(5) by blast
  have "first_byte w \<noteq> None" if "w \<in> set vs" for w
  proof -
    obtain b where "w = VBytes b" "b \<noteq> []" using vs(2) \<open>w \<in> set vs\<close> unfolding typed_simps(4) by blast
    then show ?thesis by (cases b) auto
  qed
  then show ?thesis by (simp add: string_from_chars_def vs(1))
qed

lemma act_typed:
  assumes m: "labels_typed D m" and meet: "meets D a"
  shows "acted_typed (gives D a) (act ft a m text)"
proof -
  have arg: "typed t (stack_value m l)" if "(l, t) \<in> set (asserts a)" for l t
    using m meet that by (auto simp: labels_typed_def meets_def list_all_iff)
  show ?thesis
  proof (cases a)
    case OnFieldQuery2
    then have "typed TField (stack_value m ''q'')" using arg by simp
    then show ?thesis using OnFieldQuery2 by (auto simp: typed_simps as_field_def)
  next
    case OnFieldQuery18
    then have "typed TField (stack_value m ''f'')" using arg by simp
    then show ?thesis using OnFieldQuery18 by (auto simp: typed_simps as_field_def)
  next
    case OnField1
    then have "typed TStr (stack_value m ''src'')" "typed TOp (stack_value m ''op'')" using arg by simp_all
    then show ?thesis using OnField1 by (auto simp: typed_simps field_action_def leaf_def)
  next
    case OnExistsField2
    then have "typed TStr (stack_value m ''src'')" using arg by simp
    then show ?thesis using OnExistsField2 by (auto simp: typed_simps exists_action_def leaf_def)
  next
    case OnExistsField11
    then have "typed TStr (stack_value m ''src'')" using arg by simp
    then show ?thesis using OnExistsField11 by (auto simp: typed_simps exists_action_def leaf_def)
  next
    case OnExistSource1
    then have "typed TStr (stack_value m ''name'')" "typed path_type (stack_value m ''path'')" using arg by simp_all
    then show ?thesis using OnExistSource1 source_typed by simp
  next
    case OnSource1
    then have "typed TStr (stack_value m ''name'')" "typed path_type (stack_value m ''path'')" using arg by simp_all
    then show ?thesis using OnSource1 source_typed by simp
  next
    case OnString1
    then have "typed (TList TBytes) (stack_value m ''chars'')" using arg by simp
    then show ?thesis using OnString1 string_typed by simp
  next
    case OnMeasure1
    then have "typed TStr (stack_value m ''unit'')" using arg by simp
    then show ?thesis using OnMeasure1 by (auto simp: typed_simps measure_action_def)
  next
    case OnOrQuery1 then show ?thesis using label_typed [OF m] by simp
  next
    case OnFieldQuery12 then show ?thesis using label_typed [OF m] by simp
  next
    case OnValue1 then show ?thesis using label_typed [OF m] by simp
  qed (auto simp: leaf_def integer_action_def split: option.split sum.split)
qed

subsection \<open>Soundness\<close>

definition runes_ok :: "gval pstate \<Rightarrow> bool" where
  "runes_ok s \<longleftrightarrow> (\<forall>r \<in> set (ps_rest s). rn_bytes r \<noteq> [])"

fun sound :: "gty \<Rightarrow> label_types \<Rightarrow> gval outcome \<Rightarrow> bool" where
  "sound t D (Match v s) = (typed t v \<and> labels_typed D (ps_labels s) \<and> runes_ok s)"
| "sound t D (NoMatch s) = runes_ok s"
| "sound t D (Panics e) = False"

definition sound_fn :: "gty \<Rightarrow> (gval pstate \<Rightarrow> gval outcome option) \<Rightarrow> bool" where
  "sound_fn t p \<longleftrightarrow> (\<forall>s r. p s = Some r \<longrightarrow> runes_ok s \<longrightarrow> ps_labels s = [] \<longrightarrow> (\<exists>D. sound t D r))"

lemma no_labels [simp]: "labels_typed [] m"
  by (simp add: labels_typed_def)

lemma runes_simps [simp]:
  "runes_ok (s\<lparr>ps_labels := m\<rparr>) = runes_ok s" "runes_ok (add_err e s) = runes_ok s" "runes_ok (decoded s) = runes_ok s"
  "runes_ok (restore pt s) = runes_ok pt"
  by (simp_all add: runes_ok_def add_err_def decoded_def restore_def split: list.split)

lemma runes_read: "runes_ok s \<Longrightarrow> runes_ok (read_rune s)"
  by (cases "ps_rest s") (auto simp: read_rune_def runes_ok_def decoded_def add_err_def split: list.split)

lemma labels_simps [simp]:
  "ps_labels (add_err e s) = ps_labels s" "ps_labels (decoded s) = ps_labels s"
  "ps_labels (restore pt s) = ps_labels s" "ps_labels (read_rune s) = ps_labels s"
  by (simp_all add: add_err_def decoded_def restore_def read_rune_def split: list.split)

lemma framed_sound:
  assumes "sound_fn t p" "framed p s = Some r" "runes_ok s" "labels_typed D (ps_labels s)"
  shows "sound t D r"
proof -
  obtain r1 where r1: "p (s\<lparr>ps_labels := []\<rparr>) = Some r1" "r = pop_labels (ps_labels s) r1"
    using assms(2) by (auto simp: framed_def)
  obtain D1 where "sound t D1 r1" using assms(1,3) r1(1) unfolding sound_fn_def by fastforce
  then show ?thesis using r1(2) assms(4) by (cases r1) auto
qed

lemma slice_head: "ps_rest s = x # xs \<Longrightarrow> runes_ok s \<Longrightarrow> slice_from s (read_rune s) \<noteq> []"
  by (simp add: slice_from_def runes_ok_def bytes_of_def)

lemma class_sound: "runes_ok s \<Longrightarrow> labels_typed D (ps_labels s) \<Longrightarrow> sound TBytes D (match_class cc s)"
  using slice_head runes_read by (auto simp: match_class_def Let_def split: list.split)

lemma any_sound: "runes_ok s \<Longrightarrow> labels_typed D (ps_labels s) \<Longrightarrow> sound TBytes D (match_any s)"
  using slice_head runes_read by (auto simp: match_any_def Let_def split: list.split)

lemma slice_less:
  assumes "runes_ok start" "left s < left start"
  shows "slice_from start s \<noteq> []"
  using assms by (cases "ps_rest start") (auto simp: slice_from_def bytes_of_def runes_ok_def Suc_diff_le)

lemma lit_sound:
  assumes "runes_ok start"
  shows "runes_ok s \<Longrightarrow> labels_typed D (ps_labels s) \<Longrightarrow> left s \<le> left start \<Longrightarrow>
    sound (if cs \<noteq> [] \<or> left s < left start then TBytes else TAny) D (lit_loop start cs s)"
proof (induction cs arbitrary: s)
  case Nil
  then show ?case using slice_less [OF assms, of s] by auto
next
  case (Cons c cs)
  show ?case
  proof (cases "ps_rest s")
    case Nil
    then show ?thesis using assms by simp
  next
    case (Cons r rs)
    then have "left (read_rune s) < left start" using Cons.prems(3) by simp
    then show ?thesis
      using Cons.IH [of "read_rune s"] Cons.prems runes_read Cons assms by auto
  qed
qed

lemma choice_sound:
  assumes "\<forall>e \<in> set es. \<exists>u. sound_fn u (p e) \<and> (t = u \<or> t = TAny)"
  shows "choice_loop p es s = Some r \<Longrightarrow> runes_ok s \<Longrightarrow> labels_typed D (ps_labels s) \<Longrightarrow> sound t D r"
  using assms
proof (induction es arbitrary: s)
  case (Cons e es)
  obtain u where u: "sound_fn u (p e)" "t = u \<or> t = TAny" using Cons.prems(4) by auto
  obtain r1 where r1: "framed (p e) s = Some r1" using Cons.prems(1) by (auto split: option.splits)
  have f: "sound u D r1" using framed_sound [OF u(1) r1 Cons.prems(2,3)] .
  show ?case
  proof (cases r1)
    case (NoMatch s1)
    moreover have "ps_labels s1 = ps_labels s" using r1 NoMatch by (auto simp: framed_def elim!: pop_labels.elims)
    ultimately show ?thesis using Cons r1 f by auto
  next
    case (Match v s1)
    then show ?thesis using Cons.prems(1) r1 f u(2) by auto
  qed (use f in auto)
qed auto

lemma seq_sound:
  assumes "\<And>e D t D1 s r. e \<in> set es \<Longrightarrow> ty D e = Some (t, D1) \<Longrightarrow> p e s = Some r \<Longrightarrow> runes_ok s
      \<Longrightarrow> labels_typed D (ps_labels s) \<Longrightarrow> sound t D1 r"
    and "runes_ok pt"
  shows "seq_loop p pt es vals s = Some r \<Longrightarrow> seq_types ty D es = Some (ts, D1) \<Longrightarrow> runes_ok s
    \<Longrightarrow> labels_typed D (ps_labels s) \<Longrightarrow> list_all2 typed us vals \<Longrightarrow> sound (TTuple (us @ ts)) D1 r"
  using assms(1)
proof (induction es arbitrary: s vals D ts us)
  case (Cons e es)
  obtain t D2 ts' where ty: "ty D e = Some (t, D2)" "seq_types ty D2 es = Some (ts', D1)" "ts = t # ts'"
    using Cons.prems(2) by (auto split: option.splits)
  obtain r1 where r1: "p e s = Some r1" using Cons.prems(1) by (auto split: option.splits)
  have f: "sound t D2 r1" using Cons.prems(6) [OF _ ty(1) r1] Cons.prems by simp
  show ?case
  proof (cases r1)
    case (Match v s1)
    have "seq_loop p pt es (vals @ [v]) s1 = Some r" using Cons.prems(1) r1 Match by simp
    then have "sound (TTuple ((us @ [t]) @ ts')) D1 r"
    proof (rule Cons.IH [where D = D2])
      show "sound t D1 r" if "d \<in> set es" "ty D d = Some (t, D1)" "p d s = Some r" "runes_ok s" "labels_typed D (ps_labels s)"
        for d D t D1 s r using Cons.prems(6) [OF _ that(2-)] that(1) by simp
    qed (use ty(2) f Match Cons.prems(5) in \<open>simp_all add: list_all2_appendI\<close>)
    then show ?thesis by (simp add: ty(3))
  next
    case (NoMatch s1)
    then show ?thesis using Cons.prems(1) r1 assms(2) by auto
  qed (use f in auto)
qed auto

lemma star_sound:
  assumes "sound_fn t p"
  shows "star_loop p n vals s = Some x \<Longrightarrow> runes_ok s \<Longrightarrow> labels_typed D (ps_labels s) \<Longrightarrow> \<forall>v \<in> set vals. typed t v
    \<Longrightarrow> \<exists>vs s1. x = Inl (vs, s1) \<and> (\<forall>v \<in> set vs. typed t v) \<and> labels_typed D (ps_labels s1) \<and> runes_ok s1"
proof (induction n arbitrary: vals s)
  case (Suc n)
  obtain r where r: "framed p s = Some r" using Suc.prems(1) by (auto split: option.splits)
  have f: "sound t D r" using framed_sound [OF assms r Suc.prems(2,3)] .
  show ?case
  proof (cases r)
    case (Match v s1)
    then have "star_loop p n (vals @ [v]) s1 = Some x" using Suc.prems(1) r by simp
    then show ?thesis by (rule Suc.IH) (use f Match Suc.prems(4) in auto)
  next
    case (NoMatch s1)
    moreover have "ps_labels s1 = ps_labels s" using r NoMatch by (auto simp: framed_def elim!: pop_labels.elims)
    ultimately show ?thesis using Suc.prems r f by auto
  qed (use f in auto)
qed simp

lemma join_typed: "u \<in> set ts \<Longrightarrow> join_types ts = u \<or> join_types ts = TAny"
  by (auto simp: join_types_def list_all_iff split: list.splits)

lemma run_sound:
  assumes "rules_typed G g"
  shows "run_peg (act ft) (map_of g) fuel e s = Some r \<Longrightarrow> infer G D e = Some (t, D1) \<Longrightarrow> runes_ok s
    \<Longrightarrow> labels_typed D (ps_labels s) \<Longrightarrow> sound t D1 r"
proof (induction fuel arbitrary: e s r D t D1)
  case (Suc fuel)
  let ?p = "run_peg (act ft) (map_of g) fuel"
  have sub: "sound_fn u (?p d)" if "infer G [] d = Some (u, D2)" for d u D2
    using Suc.IH [OF _ that] by (auto simp: sound_fn_def)
  have fr: "sound u D' r1" if "infer G [] d = Some (u, D2)" "framed (?p d) s = Some r1" "labels_typed D' (ps_labels s)" for d u D2 r1 D'
    using framed_sound [OF sub [OF that(1)] that(2) Suc.prems(3) that(3)] .
  show ?case
  proof (cases e)
    case (PAction a d)
    obtain u where u: "infer G D d = Some (u, D1)" "meets D1 a" "t = gives D1 a"
      using Suc.prems(2) PAction by (auto split: option.splits if_splits)
    obtain r1 where r1: "?p d s = Some r1" "r = run_action (act ft) a s r1" using Suc.prems(1) PAction by auto
    have f: "sound u D1 r1" using Suc.IH [OF r1(1) u(1) Suc.prems(3,4)] .
    show ?thesis
    proof (cases r1)
      case (Match v s1)
      then have "acted_typed t (act ft a (ps_labels s1) (slice_from s s1))"
        using act_typed [of D1 "ps_labels s1" a] f u by simp
      then show ?thesis using r1 Match f by (auto split: acted.splits)
    qed (use r1 f in auto)
  next
    case (PChoice es)
    have inf: "\<forall>d \<in> set es. \<exists>u D2. infer G [] d = Some (u, D2)" and t: "t = join_types (map (\<lambda>d. fst (the (infer G [] d))) es)" "D1 = D"
      using Suc.prems(2) PChoice by (auto simp: Let_def list_all_iff comp_def split: if_splits)
    have "\<exists>u. sound_fn u (?p d) \<and> (t = u \<or> t = TAny)" if "d \<in> set es" for d
    proof -
      obtain u D2 where u: "infer G [] d = Some (u, D2)" using inf \<open>d \<in> set es\<close> by blast
      then have "u \<in> set (map (\<lambda>d. fst (the (infer G [] d))) es)" using \<open>d \<in> set es\<close> by force
      then show ?thesis using sub [OF u] join_typed t(1) by metis
    qed
    then show ?thesis
      using choice_sound [of es ?p t s r D] Suc.prems PChoice t(2) by simp
  next
    case (PSeq es)
    obtain ts where ts: "seq_types (infer G) D es = Some (ts, D1)" "t = TTuple ts" using Suc.prems(2) PSeq by auto
    have "seq_loop ?p s es [] s = Some r" using Suc.prems(1) PSeq by simp
    from seq_sound [OF _ Suc.prems(3) this ts(1) Suc.prems(3,4), where us = "[]"] Suc.IH
    show ?thesis by (simp add: ts(2))
  next
    case (PLabel l d)
    obtain D2 where u: "infer G [] d = Some (t, D2)" "D1 = AList.update l t D" "l \<noteq> []"
      using Suc.prems(2) PLabel by (auto split: option.splits if_splits)
    obtain r1 where r1: "framed (?p d) s = Some r1" "r = match_label l r1" using Suc.prems(1) PLabel by auto
    have f: "sound t D r1" using fr [OF u(1) r1(1) Suc.prems(4)] .
    have "labels_typed (AList.update l t D) (AList.update l v m)" if "labels_typed D m" "typed t v" for m v
      using that by (auto simp: labels_typed_def stack_value_def update_conv' split: option.splits)
    then show ?thesis using r1 f u by (cases r1) auto
  next
    case (PRef n)
    show ?thesis
    proof (cases "map_of g n")
      case None
      then show ?thesis using Suc.prems PRef by auto
    next
      case (Some d)
      obtain u D2 where u: "infer G [] d = Some (u, D2)" "G n = u \<or> G n = TAny"
        using assms map_of_SomeD [OF Some] by (fastforce simp: rules_typed_def list_all_iff split: option.splits)
      have "framed (?p d) s = Some r" "t = G n" "D1 = D" using Suc.prems PRef Some by auto
      then have "sound u D1 r" using fr [OF u(1) _ Suc.prems(4)] by simp
      then show ?thesis using u(2) \<open>t = G n\<close> by (cases r) auto
    qed
  next
    case (PLit v)
    then show ?thesis using Suc.prems lit_sound [OF Suc.prems(3,3,4), of v] by auto
  next
    case (PClass cc)
    then show ?thesis using Suc.prems class_sound by auto
  next
    case PAny
    then show ?thesis using Suc.prems any_sound by auto
  next
    case (PAnd d)
    obtain u where u: "infer G [] d = Some u" "t = TAny" "D1 = D" using Suc.prems(2) PAnd by auto
    obtain r1 where r1: "framed (?p d) s = Some r1" "r = match_and s r1" using Suc.prems(1) PAnd by auto
    have "sound (fst u) D r1" using fr [of d "fst u" "snd u" r1 D] u r1(1) Suc.prems(4) by simp
    then show ?thesis using r1 u Suc.prems(3,4) by (cases r1) auto
  next
    case (PNot d)
    obtain u where u: "infer G [] d = Some u" "t = TAny" "D1 = D" using Suc.prems(2) PNot by auto
    obtain r1 where r1: "framed (?p d) s = Some r1" "r = match_not s r1" using Suc.prems(1) PNot by auto
    have "sound (fst u) D r1" using fr [of d "fst u" "snd u" r1 D] u r1(1) Suc.prems(4) by simp
    moreover have "ps_labels s1 = ps_labels s" if "r1 = NoMatch s1" for s1
      using r1(1) that by (auto simp: framed_def elim!: pop_labels.elims)
    ultimately show ?thesis using r1 u Suc.prems(3,4) by (cases r1) auto
  next
    case (PStar d)
    obtain u D2 where u: "infer G [] d = Some (u, D2)" "t = TList u" "D1 = D" using Suc.prems(2) PStar by auto
    obtain x where x: "star_loop (?p d) (Suc (left s)) [] s = Some x"
      "r = (case x of Inl (vals, s1) \<Rightarrow> Match (VList vals) s1 | Inr e \<Rightarrow> Panics e)"
      using Suc.prems(1) PStar by (auto simp: match_star_def simp del: star_loop.simps split: option.splits sum.splits)
    show ?thesis using star_sound [OF sub [OF u(1)] x(1) Suc.prems(3,4)] x(2) u by auto
  next
    case (PPlus d)
    obtain u D2 where u: "infer G [] d = Some (u, D2)" "t = TList u" "D1 = D" using Suc.prems(2) PPlus by auto
    obtain x where x: "star_loop (?p d) (Suc (left s)) [] s = Some x"
      "r = (case x of Inl (vals, s1) \<Rightarrow> if vals = [] then NoMatch s1 else Match (VList vals) s1 | Inr e \<Rightarrow> Panics e)"
      using Suc.prems(1) PPlus by (auto simp: match_plus_def simp del: star_loop.simps split: option.splits sum.splits)
    show ?thesis using star_sound [OF sub [OF u(1)] x(1) Suc.prems(3,4)] x(2) u by auto
  next
    case (POpt d)
    obtain u where u: "infer G [] d = Some u" "t = TAny" "D1 = D" using Suc.prems(2) POpt by auto
    obtain r1 where r1: "framed (?p d) s = Some r1" "r = match_opt r1" using Suc.prems(1) POpt by auto
    have "sound (fst u) D r1" using fr [of d "fst u" "snd u" r1 D] u r1(1) Suc.prems(4) by simp
    moreover have "ps_labels s1 = ps_labels s" if "r1 = NoMatch s1" for s1
      using r1(1) that by (auto simp: framed_def elim!: pop_labels.elims)
    ultimately show ?thesis using r1 u Suc.prems(3,4) by (cases r1) auto
  qed
qed simp

subsection \<open>Parsing\<close>

lemma decode_runes_ok: "\<forall>r \<in> set (decode_runes t). rn_bytes r \<noteq> []"
proof (induction t rule: decode_runes.induct)
  case (2 a s)
  have "rn_bytes (decode_rune a s) \<noteq> []" using decode_rune_bytes by blast
  then show ?case using 2 by (simp add: Let_def)
qed simp

lemma start_ok: "runes_ok (start_state text)" "ps_labels (start_state text) = []"
proof -
  show "runes_ok (start_state text)" unfolding start_state_def runes_simps by (simp add: runes_ok_def decode_runes_ok)
  show "ps_labels (start_state text) = []" by (simp add: start_state_def)
qed

lemma query_rule: "map_of query_rules ''Query'' = Some rule_query"
  by (simp add: query_rules_def)

lemma query_entry_type: "map_option fst (infer rule_type [] rule_query) = Some TField"
  by code_simp

lemma query_run_typed:
  assumes "framed (run_peg (act ft) (map_of query_rules) fuel rule_query) (start_state text) = Some r"
  shows "sound TField [] r"
proof (rule framed_sound [OF _ assms start_ok(1)])
  obtain D where D: "infer rule_type [] rule_query = Some (TField, D)" using query_entry_type by auto
  show "sound_fn TField (run_peg (act ft) (map_of query_rules) fuel rule_query)"
    using run_sound [OF query_rules_typed _ D] unfolding sound_fn_def by (metis no_labels)
qed simp

definition query_outcome :: "(string \<Rightarrow> string + string) \<Rightarrow> string \<Rightarrow> gval outcome option" where
  "query_outcome ft text = framed (run_peg (act ft) (map_of query_rules) (fuel_for grammar_depth text) rule_query) (start_state text)"

text \<open>C33: The parser of the query language ends on every text, with a query field or an error; the depth of
  its recursion is at most 40 for each rune of the text and one more.\<close>

theorem query_parse_ends: "\<exists>r. parse_peg_text ft text = Some r"
proof -
  have "parse_text (act ft) (map_of query_rules) (fuel_for grammar_depth text) ''Query'' text \<noteq> None"
    by (rule parse_text_ends [OF query_grammar_ok])
  then show ?thesis by (auto simp: parse_peg_text_def split: sum.split pvalue.split gval.split)
qed

lemma parse_by_outcome:
  "parse_peg_text ft text =
     (case query_outcome ft text of
        None \<Rightarrow> None
      | Some (Panics e) \<Rightarrow> Some (Inl (''error parsing peg: '' @ e))
      | Some (NoMatch s) \<Rightarrow> Some (Inl (''error parsing peg: '' @ (if ps_errs s = [] then ''no match found'' else join [CHR 0x0A] (ps_errs s))))
      | Some (Match v s) \<Rightarrow>
          (if ps_errs s \<noteq> [] then Some (Inl (''error parsing peg: '' @ join [CHR 0x0A] (ps_errs s)))
           else (case v of VAct (GField f) \<Rightarrow> Some (Inr f) | _ \<Rightarrow> Some (Inl ''return type not QueryField''))))"
  by (auto simp: parse_peg_text_def parse_text_def query_rule query_outcome_def split: option.split outcome.split)

lemma outcome_ends: "query_outcome ft text \<noteq> None"
proof
  assume "query_outcome ft text = None"
  then have "parse_peg_text ft text = None" by (simp add: parse_by_outcome)
  moreover have "parse_text (act ft) (map_of query_rules) (fuel_for grammar_depth text) ''Query'' text \<noteq> None"
    by (rule parse_text_ends [OF query_grammar_ok])
  ultimately show False by (auto simp: parse_peg_text_def split: sum.splits pvalue.splits gval.splits)
qed

text \<open>C34: The actions of the grammar never fail a type assertion, whatever the text: the start rule matches
  with a query field or does not match, and does not panic. So the error of a parse that gives no query
  field is one of a rule or an action, and never that the type returned is not a query field.\<close>

theorem query_parse_typed:
  "\<exists>r. query_outcome ft text = Some r
     \<and> (case r of Match v s \<Rightarrow> \<exists>f. v = VAct (GField f) | NoMatch s \<Rightarrow> True | Panics e \<Rightarrow> False)
     \<and> parse_peg_text ft text \<noteq> Some (Inl ''return type not QueryField'')"
proof -
  obtain r where r: "query_outcome ft text = Some r" using outcome_ends by blast
  have "sound TField [] r" using query_run_typed r unfolding query_outcome_def by blast
  then show ?thesis using r by (cases r) (auto simp: parse_by_outcome typed_simps)
qed

end
