(* ===== verification/Selector_Query.thy ===== *)
theory Selector_Query
  imports Query_Models Query_Types Resource_Matching Row_Security
begin

section \<open>Queries by resource selectors\<close>

text \<open>
  \<^verbatim>\<open>query/resource_selector.go\<close>: the statement of a selector (\<open>SetResourceSelectorClause\<close>), its run with
  the caches of results and of scopes, the queries by several selectors and the search over all kinds of
  resources. The database is a parameter: the answer to a statement. A cache is a list of keys with their
  rows; an entry may vanish between queries, when its time is over, which no operation here observes
  otherwise. Logging is left out.
\<close>

subsection \<open>The environment and the caches\<close>

datatype ttl = TtlDefault | TtlMinute | TtlFor int

datatype selector_error =
    UnknownTable string | PegFailed string | ParseFailed string string | ApplyFailed apply_error | AgentFailed string
  | NilAgent | ScopeFailed string | ScopeUnsupported string | SelectorUnsupported string string
  | SelectorUnparsed string parse_error | FieldFailed apply_error | QueryFailed string | BadDuration string

record ('f, 'r) selector_env =
  se_query :: query_env
  se_float :: "string \<Rightarrow> string + string"
  se_ext :: "'f externals"
  se_sort :: "requirement list \<Rightarrow> requirement list"
  se_ids :: "gorm_tx \<Rightarrow> string + string list"
  se_rows :: "gorm_tx \<Rightarrow> string + 'r list"
  se_duration :: "string \<Rightarrow> string + int"
  se_sha :: "string \<Rightarrow> string"
  se_selector_map :: "string \<Rightarrow> string"
  se_sorted_map :: "(string, string) gomap \<Rightarrow> string"
  se_row_type :: string
  se_payload :: "rls_payload option"

type_synonym scope_cache = "(string \<times> string) list"

record 'r query_state =
  qs_scopes :: scope_cache
  qs_getter :: "(string \<times> ('r list \<times> ttl)) list"
  qs_immutable :: "(string \<times> ('r list \<times> ttl)) list"

subsection \<open>Scopes and agents\<close>

definition scope_tx :: "string \<Rightarrow> string \<Rightarrow> string \<Rightarrow> gorm_tx option" where
  "scope_tx table ns name =
     (let by_name = (\<lambda>t. tx_call (GWhere ''name = ? AND namespace = ?'' [ArgString name, ArgString ns]) (tx_call (GSelect [''id'']) (new_tx t))) in
      if table = ''checks'' then Some (by_name ''canaries'')
      else if table = ''config_items'' then
        Some (tx_call (GWhere ''name = ?'' [ArgString (ns @ ''/'' @ name)]) (tx_call (GSelect [''id'']) (new_tx ''config_scrapers'')))
      else if table = ''components'' then Some (by_name ''topologies'')
      else if table = ''config_changes'' then Some (by_name ''config_items'')
      else None)"

definition with_agent :: "string option \<Rightarrow> gorm_tx \<Rightarrow> gorm_tx" where
  "with_agent agent tx = (case agent of None \<Rightarrow> tx | Some a \<Rightarrow> tx_call (GWhere ''agent_id = ?'' [ArgString a]) tx)"

text \<open>\<open>Find\<close> into one text: of several rows the last, of none the empty text.\<close>

definition get_scope_id :: "('f, 'r) selector_env \<Rightarrow> string \<Rightarrow> string \<Rightarrow> string option \<Rightarrow> scope_cache
    \<Rightarrow> (selector_error + string) \<times> scope_cache" where
  "get_scope_id env scope table agent cache =
     (if qe_uuid (se_query env) scope \<noteq> None then (Inr scope, cache)
      else (case map_of cache (table @ scope) of
        Some v \<Rightarrow> (Inr v, cache)
      | None \<Rightarrow>
          (case split_char (CHR ''/'') scope of
             [ns, name] \<Rightarrow>
               (case scope_tx table ns name of
                  None \<Rightarrow> (Inl (ScopeUnsupported table), cache)
                | Some q \<Rightarrow>
                    (case se_ids env (with_agent agent q) of
                       Inl e \<Rightarrow> (Inl (ScopeFailed e), cache)
                     | Inr ids \<Rightarrow>
                         (let i = (if ids = [] then [] else last ids) in (Inr i, AList.update (table @ scope) i cache))))
           | _ \<Rightarrow> (Inl (ScopeFailed ''scope should be either uuid or namespace/name format''), cache))))"

text \<open>\<open>None\<close>: any agent. An agent that is not found gives a nil pointer, whose field is read.\<close>

definition selector_agent_id :: "query_env \<Rightarrow> string \<Rightarrow> selector_error + string option" where
  "selector_agent_id env agent =
     (if agent = [] then Inr (Some uuid_nil)
      else if agent = ''all'' then Inr None
      else (case qe_uuid env agent of
        Some u \<Rightarrow> Inr (Some u)
      | None \<Rightarrow>
          (case qe_find_agent env agent of
             Inl e \<Rightarrow> Inl (AgentFailed e)
           | Inr None \<Rightarrow> Inl NilAgent
           | Inr (Some a) \<Rightarrow> Inr (Some a))))"

subsection \<open>The statement of a selector\<close>

text \<open>Some field of the search is, by its alias, the column.\<close>

definition search_sets :: "query_model \<Rightarrow> string list \<Rightarrow> string \<Rightarrow> bool" where
  "search_sets qm flat column = list_ex (\<lambda>s. resolve_alias qm s = column) flat"

definition selector_search :: "('f, 'r) selector_env \<Rightarrow> query_model \<Rightarrow> resource_selector \<Rightarrow> gorm_tx
    \<Rightarrow> selector_error + gorm_tx \<times> string list" where
  "selector_search env qm rs tx =
     (case to_peg (se_ext env) False rs of
        Inl e \<Rightarrow> Inl (PegFailed e)
      | Inr peg \<Rightarrow>
          if peg = [] then Inr (tx, [])
          else (case parse_peg_text (se_float env) peg of
            None \<Rightarrow> Inl (ParseFailed peg ''does not end'')
          | Some (Inl e) \<Rightarrow> Inl (ParseFailed peg e)
          | Some (Inr qf) \<Rightarrow>
              (case apply_query_model (se_query env) qm qf (Some tx) of
                 Inl e \<Rightarrow> Inl (ApplyFailed e)
               | Inr (tx1, cs) \<Rightarrow> Inr (tx_call (GClauses cs) tx1, flat_fields qf))))"

definition deleted_filter :: "query_model \<Rightarrow> resource_selector \<Rightarrow> string list \<Rightarrow> gorm_tx \<Rightarrow> gorm_tx" where
  "deleted_filter qm rs flat tx =
     (if \<not> rs_include_deleted rs \<and> \<not> search_sets qm flat ''deleted_at'' \<and> qm_has_deleted_at qm
      then tx_call (GWhere ''deleted_at IS NULL'' []) tx else tx)"

definition agent_filter :: "query_env \<Rightarrow> query_model \<Rightarrow> resource_selector \<Rightarrow> string list \<Rightarrow> gorm_tx
    \<Rightarrow> selector_error + gorm_tx \<times> string option" where
  "agent_filter env qm rs flat tx =
     (if \<not> search_sets qm flat ''agent_id'' \<and> \<not> search_sets qm flat ''id'' \<and> qm_has_agents qm
      then and_then (selector_agent_id env (rs_agent rs)) (\<lambda>a. Inr (with_agent a tx, a))
      else Inr (tx, None))"

definition scope_column :: "string \<Rightarrow> string option" where
  "scope_column table =
     (if table = ''checks'' then Some ''canary_id'' else if table = ''config_items'' then Some ''scraper_id''
      else if table = ''components'' then Some ''topology_id''
      else if table = ''config_changes'' \<or> table = ''catalog_changes'' then Some ''config_id'' else None)"

definition scope_filter :: "('f, 'r) selector_env \<Rightarrow> resource_selector \<Rightarrow> string \<Rightarrow> string option \<Rightarrow> gorm_tx \<Rightarrow> scope_cache
    \<Rightarrow> (selector_error + gorm_tx) \<times> scope_cache" where
  "scope_filter env rs table agent tx cache =
     (if rs_scope rs = [] then (Inr tx, cache)
      else (case get_scope_id env (rs_scope rs) table agent cache of
        (Inl e, cache1) \<Rightarrow> (Inl e, cache1)
      | (Inr scope, cache1) \<Rightarrow>
          (case scope_column table of
             None \<Rightarrow> (Inl (ScopeUnsupported table), cache1)
           | Some c \<Rightarrow> (Inr (tx_call (GWhere (c @ '' = ?'') [ArgString scope]) tx), cache1))))"

definition requirement_clauses :: "string \<Rightarrow> requirement \<Rightarrow> gorm_tx \<Rightarrow> gorm_tx" where
  "requirement_clauses column r tx = fold (\<lambda>c. tx_call (GClauses [c])) (json_column_clauses column r) tx"

definition json_selector :: "(requirement list \<Rightarrow> requirement list) \<Rightarrow> string \<Rightarrow> string \<Rightarrow> bool \<Rightarrow> string \<Rightarrow> string \<Rightarrow> gorm_tx
    \<Rightarrow> selector_error + gorm_tx" where
  "json_selector srt what column supported table sel tx =
     (if length sel = 0 then Inr tx
      else if \<not> supported then Inl (SelectorUnsupported what table)
      else (case parse srt sel of
        Inl e \<Rightarrow> Inl (SelectorUnparsed what e)
      | Inr rs \<Rightarrow> Inr (fold (requirement_clauses column) rs tx)))"

definition known_field :: "query_model \<Rightarrow> string \<Rightarrow> bool" where
  "known_field qm f \<longleftrightarrow> f \<in> set (qm_columns qm) \<or> list_ex (\<lambda>c. f = c \<or> has_prefix (c @ ''.'') f) (qm_json qm)"

definition requirement_op :: "operator \<Rightarrow> query_op" where
  "requirement_op op =
     (case op of
        OpNotEquals \<Rightarrow> QNeq | OpNotIn \<Rightarrow> QNeq | OpGreaterThan \<Rightarrow> QGt | OpLessThan \<Rightarrow> QLt | OpExists \<Rightarrow> QExists
      | OpDoesNotExist \<Rightarrow> QNotExists | _ \<Rightarrow> QEq)"

definition field_requirement_query :: "query_model \<Rightarrow> requirement \<Rightarrow> query_field" where
  "field_requirement_query qm r =
     (let resolved = resolve_alias qm (req_key r);
          property = (qm_has_properties qm \<and> (resolved = ''properties'' \<or> has_prefix ''properties.'' resolved));
          field = (if \<not> known_field qm resolved \<and> \<not> property then ''properties.'' @ req_key r else req_key r)
      in QueryField field FieldTypeUnknown (QStr (join '','' (sort (remdups (req_vals r))))) (requirement_op (req_op r)) [])"

definition apply_field_selector_requirement :: "query_env \<Rightarrow> query_model \<Rightarrow> requirement \<Rightarrow> gorm_tx \<Rightarrow> apply_error + gorm_tx" where
  "apply_field_selector_requirement env qm r tx =
     and_then (apply_query_model env qm (field_requirement_query qm r) (Some tx)) (\<lambda>(tx1, cs). Inr (tx_call (GClauses cs) tx1))"

fun apply_field_requirements :: "query_env \<Rightarrow> query_model \<Rightarrow> requirement list \<Rightarrow> gorm_tx \<Rightarrow> apply_error + gorm_tx" where
  "apply_field_requirements env qm [] tx = Inr tx"
| "apply_field_requirements env qm (r # rs) tx =
     and_then (apply_field_selector_requirement env qm r tx) (apply_field_requirements env qm rs)"

definition field_selector :: "('f, 'r) selector_env \<Rightarrow> query_model \<Rightarrow> string \<Rightarrow> gorm_tx \<Rightarrow> selector_error + gorm_tx" where
  "field_selector env qm sel tx =
     (if length sel = 0 then Inr tx
      else (case parse (se_sort env) sel of
        Inl e \<Rightarrow> Inl (SelectorUnparsed ''field'' e)
      | Inr rs \<Rightarrow>
          (case apply_field_requirements (se_query env) qm rs tx of Inl e \<Rightarrow> Inl (FieldFailed e) | Inr t \<Rightarrow> Inr t)))"

text \<open>\<open>traversal\<close> is the component of the selector's function, which is not part of its text.\<close>

definition traversal_filter :: "string option \<Rightarrow> string \<Rightarrow> gorm_tx \<Rightarrow> gorm_tx" where
  "traversal_filter traversal table tx =
     (case traversal of
        Some c \<Rightarrow> if table = ''components'' then tx_call (GWhere traverse_sql [ArgString c]) tx else tx
      | None \<Rightarrow> tx)"

definition selector_conditions :: "('f, 'r) selector_env \<Rightarrow> query_model \<Rightarrow> string option \<Rightarrow> resource_selector \<Rightarrow> string \<Rightarrow> gorm_tx
    \<Rightarrow> selector_error + gorm_tx" where
  "selector_conditions env qm traversal rs table tx =
     and_then (json_selector (se_sort env) ''tag'' ''tags'' (qm_has_tags qm) table (rs_tag_selector rs) tx) (\<lambda>tx1.
     and_then (json_selector (se_sort env) ''label'' ''labels'' (qm_has_labels qm) table (rs_label_selector rs) tx1) (\<lambda>tx2.
     and_then (field_selector env qm (rs_field_selector rs) tx2) (\<lambda>tx3.
     Inr (traversal_filter traversal table tx3))))"

definition set_resource_selector_clause :: "('f, 'r) selector_env \<Rightarrow> string option \<Rightarrow> resource_selector \<Rightarrow> gorm_tx \<Rightarrow> string
    \<Rightarrow> scope_cache \<Rightarrow> (selector_error + gorm_tx) \<times> scope_cache" where
  "set_resource_selector_clause env traversal rs tx table cache =
     (case get_model_from_table table of
        None \<Rightarrow> (Inl (UnknownTable table), cache)
      | Some qm \<Rightarrow>
          (case and_then (selector_search env qm rs tx) (\<lambda>(tx1, flat).
              agent_filter (se_query env) qm rs flat (deleted_filter qm rs flat tx1)) of
             Inl e \<Rightarrow> (Inl e, cache)
           | Inr (tx2, agent) \<Rightarrow>
               (case scope_filter env rs table agent tx2 cache of
                  (Inl e, cache1) \<Rightarrow> (Inl e, cache1)
                | (Inr tx3, cache1) \<Rightarrow> (selector_conditions env qm traversal rs table tx3, cache1))))"

subsection \<open>Running a selector\<close>

definition selector_key :: "('f, 'r) selector_env \<Rightarrow> string list \<Rightarrow> string \<Rightarrow> resource_selector \<Rightarrow> int \<Rightarrow> string" where
  "selector_key env columns table rs limit =
     selector_cache_key (se_sha env) (se_sorted_map env) columns table (se_sha env (fst (hash_items (se_selector_map env) rs)))
       limit (se_row_type env) (se_payload env)"

definition limit_call :: "resource_selector \<Rightarrow> int \<Rightarrow> gorm_tx \<Rightarrow> gorm_tx" where
  "limit_call rs limit tx =
     (if rs_limit rs > 0 then tx_call (GLimit (rs_limit rs)) tx else if limit > 0 then tx_call (GLimit limit) tx else tx)"

definition select_tx :: "string list \<Rightarrow> string \<Rightarrow> clause list \<Rightarrow> gorm_tx" where
  "select_tx columns table cs =
     (let tx = tx_call (GSelect columns) (new_tx table) in if length cs > 0 then tx_call (GClauses cs) tx else tx)"

definition result_ttl :: "('f, 'r) selector_env \<Rightarrow> resource_selector \<Rightarrow> 'r list \<Rightarrow> selector_error + ttl" where
  "result_ttl env rs rows =
     (if has_prefix ''max-age='' (rs_cache rs) then
        (case se_duration env (trim_prefix ''max-age='' (rs_cache rs)) of Inl e \<Rightarrow> Inl (BadDuration e) | Inr d \<Rightarrow> Inr (TtlFor d))
      else Inr (if rows = [] then TtlMinute else TtlDefault))"

definition cache_get :: "resource_selector \<Rightarrow> string \<Rightarrow> 'r query_state \<Rightarrow> 'r list option" where
  "cache_get rs key st = map_option fst (map_of (if immutable rs then qs_immutable st else qs_getter st) key)"

definition cache_put :: "resource_selector \<Rightarrow> string \<Rightarrow> 'r list \<Rightarrow> ttl \<Rightarrow> 'r query_state \<Rightarrow> 'r query_state" where
  "cache_put rs key rows t st =
     (if immutable rs then st\<lparr>qs_immutable := AList.update key (rows, t) (qs_immutable st)\<rparr>
      else st\<lparr>qs_getter := AList.update key (rows, t) (qs_getter st)\<rparr>)"

definition fetch_selector :: "('f, 'r) selector_env \<Rightarrow> string option \<Rightarrow> int \<Rightarrow> string list \<Rightarrow> resource_selector \<Rightarrow> string \<Rightarrow> clause list
    \<Rightarrow> string \<Rightarrow> 'r query_state \<Rightarrow> (selector_error + 'r list) \<times> 'r query_state" where
  "fetch_selector env traversal limit columns rs table cs key st =
     (case set_resource_selector_clause env traversal rs (limit_call rs limit (select_tx columns table cs)) table (qs_scopes st) of
        (Inl e, scopes) \<Rightarrow> (Inl e, st\<lparr>qs_scopes := scopes\<rparr>)
      | (Inr tx, scopes) \<Rightarrow>
          (let st1 = st\<lparr>qs_scopes := scopes\<rparr> in
           case se_rows env tx of
             Inl e \<Rightarrow> (Inl (QueryFailed e), st1)
           | Inr rows \<Rightarrow>
               if rs_cache rs = ''no-store'' then (Inr rows, st1)
               else (case result_ttl env rs rows of
                       Inl e \<Rightarrow> (Inl e, st1)
                     | Inr t \<Rightarrow> (Inr rows, cache_put rs key rows t st1))))"

text \<open>The hash of the selector sorts its lists in place, so what follows works on the sorted ones.\<close>

definition query_resource_selector :: "('f, 'r) selector_env \<Rightarrow> string option \<Rightarrow> int \<Rightarrow> string list \<Rightarrow> resource_selector \<Rightarrow> string
    \<Rightarrow> clause list \<Rightarrow> 'r query_state \<Rightarrow> (selector_error + 'r list) \<times> 'r query_state" where
  "query_resource_selector env traversal limit columns rs0 table cs st =
     (if is_empty_selector rs0 then (Inr [], st)
      else (let rs1 = canonical (se_sort env) rs0;
                key = selector_key env columns table rs1 limit;
                rs = snd (hash_items (se_selector_map env) rs1)
            in if rs_cache rs \<noteq> ''no-cache''
               then (case cache_get rs key st of
                       Some rows \<Rightarrow> (Inr rows, st)
                     | None \<Rightarrow> fetch_selector env traversal limit columns rs table cs key st)
               else fetch_selector env traversal limit columns rs table cs key st))"

text \<open>The loops over the selectors and over the parts each expands to; \<open>out\<close> is what is found so far.\<close>

fun query_expanded :: "('f, 'r) selector_env \<Rightarrow> string \<Rightarrow> string list \<Rightarrow> int \<Rightarrow> clause list \<Rightarrow> (resource_selector \<times> string option) list
    \<Rightarrow> 'r list \<Rightarrow> 'r query_state \<Rightarrow> (selector_error + 'r list) \<times> 'r query_state" where
  "query_expanded env table columns limit cs [] out st = (Inr out, st)"
| "query_expanded env table columns limit cs ((rs, traversal) # rest) out st =
     (case query_resource_selector env traversal limit columns rs table cs st of
        (Inl e, st1) \<Rightarrow> (Inl e, st1)
      | (Inr items, st1) \<Rightarrow>
          (let output1 = out @ items in
           if limit > 0 \<and> int (length output1) \<ge> limit then (Inr (take (nat limit) output1), st1)
           else query_expanded env table columns limit cs rest output1 st1))"

definition query_table_columns :: "('f, 'r) selector_env \<Rightarrow> string \<Rightarrow> string list \<Rightarrow> int \<Rightarrow> clause list
    \<Rightarrow> (resource_selector \<times> string option) list \<Rightarrow> 'r query_state \<Rightarrow> (selector_error + 'r list) \<times> 'r query_state" where
  "query_table_columns env table columns limit cs selectors st =
     query_expanded env table columns limit cs (concat (map (\<lambda>(rs, t). map (\<lambda>e. (e, t)) (expand rs)) selectors)) [] st"

definition query_table :: "('f, 'r) selector_env \<Rightarrow> string \<Rightarrow> int \<Rightarrow> (resource_selector \<times> string option) list \<Rightarrow> 'r query_state
    \<Rightarrow> (selector_error + 'r list) \<times> 'r query_state" where
  "query_table env table limit selectors st = query_table_columns env table [''id''] limit [] selectors st"

subsection \<open>The result of several selectors\<close>

text \<open>The reference: every part is queried in turn, and the results are put together.\<close>

fun query_all :: "('f, 'r) selector_env \<Rightarrow> string \<Rightarrow> string list \<Rightarrow> int \<Rightarrow> clause list \<Rightarrow> (resource_selector \<times> string option) list
    \<Rightarrow> 'r query_state \<Rightarrow> selector_error + 'r list" where
  "query_all env table columns limit cs [] st = Inr []"
| "query_all env table columns limit cs ((rs, traversal) # rest) st =
     (case query_resource_selector env traversal limit columns rs table cs st of
        (Inl e, st1) \<Rightarrow> Inl e
      | (Inr items, st1) \<Rightarrow> and_then (query_all env table columns limit cs rest st1) (\<lambda>more_items. Inr (items @ more_items)))"

lemma query_expanded_all:
  assumes "query_all env table columns limit cs ps st = Inr rows" "limit > 0 \<longrightarrow> int (length out) < limit"
  shows "fst (query_expanded env table columns limit cs ps out st)
     = Inr (if limit > 0 then take (nat limit) (out @ rows) else out @ rows)"
  using assms
proof (induction ps arbitrary: out st rows)
  case (Cons p ps)
  obtain rs traversal where p: "p = (rs, traversal)" by (cases p)
  obtain items st1 rows1 where q: "query_resource_selector env traversal limit columns rs table cs st = (Inr items, st1)"
    "query_all env table columns limit cs ps st1 = Inr rows1" "rows = items @ rows1"
    using Cons.prems(1) by (auto simp: p and_then_Inr_iff split: prod.splits sum.splits)
  show ?case
  proof (cases "limit > 0 \<and> int (length (out @ items)) \<ge> limit")
    case True
    then have "nat limit \<le> length (out @ items)" by linarith
    then have "take (nat limit) (out @ items @ rows1) = take (nat limit) (out @ items)"
      using take_append [of "nat limit" "out @ items" rows1] by simp
    then show ?thesis using True by (simp add: p q)
  next
    case False
    have "limit > 0 \<longrightarrow> int (length (out @ items)) < limit" using False by linarith
    then have "fst (query_expanded env table columns limit cs ps (out @ items) st1)
        = Inr (if limit > 0 then take (nat limit) ((out @ items) @ rows1) else (out @ items) @ rows1)"
      by (rule Cons.IH [OF q(2)])
    moreover have "fst (query_expanded env table columns limit cs (p # ps) out st)
        = fst (query_expanded env table columns limit cs ps (out @ items) st1)"
      using False by (auto simp: p q(1) Let_def)
    ultimately show ?thesis by (simp add: q(3))
  qed
qed auto

lemma query_expanded_bound:
  assumes "limit > 0" "int (length out) < limit"
  shows "fst (query_expanded env table columns limit cs ps out st) = Inr rows \<Longrightarrow> int (length rows) \<le> limit"
  using assms(2)
proof (induction ps arbitrary: out st)
  case (Cons p ps)
  obtain rs traversal where p: "p = (rs, traversal)" by (cases p)
  obtain items st1 where q: "query_resource_selector env traversal limit columns rs table cs st = (Inr items, st1)"
    using Cons.prems(1) by (auto simp: p split: prod.splits sum.splits)
  show ?case
  proof (cases "int (length (out @ items)) \<ge> limit")
    case True
    then have "rows = take (nat limit) (out @ items)" using Cons.prems(1) assms(1) by (simp add: p q Let_def)
    then show ?thesis using assms(1) by simp
  next
    case False
    then show ?thesis using Cons.prems(1) Cons.IH [of "out @ items" st1] assms(1) by (simp add: p q Let_def)
  qed
qed (use assms(1) in auto)

text \<open>C39: A query by several selectors gives the rows of their parts in turn, cut to the limit, and never
  more than the limit, whatever the database answers. That it stops when the limit is reached loses
  nothing.\<close>

theorem query_table_columns_result:
  fixes rows :: "'r list"
  assumes "limit > 0" "query_all env table columns limit cs (concat (map (\<lambda>(rs, t). map (\<lambda>e. (e, t)) (expand rs)) selectors)) st = Inr rows"
  shows "fst (query_table_columns env table columns limit cs selectors st) = Inr (take (nat limit) rows)
     \<and> (\<forall>selectors2 rows2. fst (query_table_columns env table columns limit cs selectors2 st) = Inr rows2 \<longrightarrow> int (length rows2) \<le> limit)"
proof -
  have "int (length ([] :: 'r list)) < limit" using assms(1) by simp
  note bound = query_expanded_bound [OF assms(1) this]
  show ?thesis
    unfolding query_table_columns_def
    using query_expanded_all [OF assms(2), of "[]"] bound assms(1) by auto
qed

definition sample_selector_env :: "(unit, string) selector_env" where
  "sample_selector_env = \<lparr>se_query = sample_query_env, se_float = (\<lambda>s. Inr s), se_ext = sample_env, se_sort = id,
     se_ids = (\<lambda>tx. Inr [''first'']), se_rows = (\<lambda>tx. Inr [''r1'', ''r2'']), se_duration = (\<lambda>s. Inr 0), se_sha = (\<lambda>s. s),
     se_selector_map = (\<lambda>s. s), se_sorted_map = (\<lambda>m. []), se_row_type = ''string'', se_payload = None\<rparr>"

definition sample_named :: resource_selector where
  "sample_named = empty_selector\<lparr>rs_name := ''a''\<rparr>"

definition sample_state :: "string query_state" where
  "sample_state = \<lparr>qs_scopes = [], qs_getter = [(selector_key sample_selector_env [''id''] ''views'' sample_named 1, ([''r1'', ''r2''], TtlDefault))],
     qs_immutable = []\<rparr>"

lemma sample_named_canonical: "canonical id sample_named = sample_named"
  by code_simp

lemma sample_named_hash: "snd (hash_items (\<lambda>s. s) sample_named) = sample_named"
  by (simp add: hash_items_def sample_named_def empty_selector_def items_sort_def with_negation_def without_negation_def)

lemma sample_named_facts: "is_empty_selector sample_named = False" "rs_cache sample_named = []" "immutable sample_named = False"
    "expand sample_named = [sample_named]"
  by code_simp+

lemma sample_query:
  "query_resource_selector sample_selector_env None 1 [''id''] sample_named ''views'' cs sample_state = (Inr [''r1'', ''r2''], sample_state)"
  unfolding query_resource_selector_def sample_named_facts
  by (simp add: sample_selector_env_def sample_named_canonical sample_named_hash sample_named_facts cache_get_def sample_state_def)

lemma query_table_columns_result_witness:
  "fst (query_table_columns sample_selector_env ''views'' [''id''] 1 [] [(sample_named, None)] sample_state) = Inr [''r1'']"
proof -
  have "query_all sample_selector_env ''views'' [''id''] 1 [] (concat (map (\<lambda>(rs, t). map (\<lambda>e. (e, t)) (expand rs)) [(sample_named, None)])) sample_state
      = Inr [''r1'', ''r2'']"
    by (simp add: sample_named_facts sample_query)
  from query_table_columns_result [OF _ this] show ?thesis by simp
qed

subsection \<open>What the caches leave out\<close>

lemma canonical_limit: "canonical srt (rs\<lparr>rs_limit := n\<rparr>) = (canonical srt rs)\<lparr>rs_limit := n\<rparr>"
  by (simp add: canonical_def)

lemma hash_limit:
  "fst (hash_items f (rs\<lparr>rs_limit := n\<rparr>)) = fst (hash_items f rs)"
  "snd (hash_items f (rs\<lparr>rs_limit := n\<rparr>)) = (snd (hash_items f rs))\<lparr>rs_limit := n\<rparr>"
  by (simp_all add: hash_items_def Let_def split: prod.split)

lemma cache_get_limit: "cache_get (rs\<lparr>rs_limit := n\<rparr>) key st = cache_get rs key st"
  by (simp add: cache_get_def immutable_def)

lemma cache_put_get: "cache_get rs key (cache_put rs key rows t st) = Some rows"
  by (simp add: cache_get_def cache_put_def update_conv')

lemma fetch_stores:
  assumes "fetch_selector env traversal limit columns rs table cs key st = (Inr rows, st1)" "rs_cache rs \<noteq> ''no-store''"
  shows "cache_get rs key st1 = Some rows"
  using assms cache_put_get by (fastforce simp: fetch_selector_def Let_def split: prod.splits sum.splits if_splits)

lemma hash_cache: "rs_cache (snd (hash_items f (canonical srt rs))) = rs_cache rs"
  by (simp add: hash_items_def canonical_def Let_def split: prod.split)

text \<open>An answer that is cached is given to every later query that differs only in the selector's own
  limit, its function, the clauses of the caller or what the database then holds, though each of these
  makes another statement.\<close>

theorem cached_answer_ignores_limit:
  assumes "query_resource_selector env traversal limit columns rs table cs st = (Inr rows, st1)"
    and "\<not> is_empty_selector rs" "rs_cache rs \<notin> {''no-cache'', ''no-store''}"
  shows "query_resource_selector (env\<lparr>se_rows := rows2\<rparr>) traversal2 limit columns (rs\<lparr>rs_limit := n\<rparr>) table cs2 st1 = (Inr rows, st1)"
proof -
  let ?rs1 = "canonical (se_sort env) rs"
  let ?key = "selector_key env columns table ?rs1 limit"
  let ?rs2 = "snd (hash_items (se_selector_map env) ?rs1)"
  have c: "rs_cache ?rs2 \<noteq> ''no-cache''" "rs_cache ?rs2 \<noteq> ''no-store''" using assms(3) by (simp_all add: hash_cache)
  have hit: "cache_get ?rs2 ?key st1 = Some rows"
  proof (cases "cache_get ?rs2 ?key st")
    case None
    then have "fetch_selector env traversal limit columns ?rs2 table cs ?key st = (Inr rows, st1)"
      using assms(1,2) c(1) by (simp add: query_resource_selector_def Let_def)
    then show ?thesis using fetch_stores c(2) by blast
  next
    case (Some rs')
    then show ?thesis using assms(1,2) c(1) by (simp add: query_resource_selector_def Let_def)
  qed
  have key: "selector_key (env\<lparr>se_rows := rows2\<rparr>) columns table (?rs1\<lparr>rs_limit := n\<rparr>) limit = ?key"
    by (simp add: selector_key_def hash_limit)
  have e: "is_empty_selector (rs\<lparr>rs_limit := n\<rparr>) = is_empty_selector rs"
    by (simp add: is_empty_selector_def all_empty_but_name_def)
  show ?thesis
    using assms(2) c(1) hit key by (simp add: query_resource_selector_def e Let_def canonical_limit hash_limit cache_get_limit)
qed

lemma cached_answer_ignores_limit_witness:
  "query_resource_selector (sample_selector_env\<lparr>se_rows := \<lambda>tx. Inr []\<rparr>) (Some ''c'') 1 [''id''] (sample_named\<lparr>rs_limit := 50\<rparr>) ''views''
     [CIsNull ''x''] sample_state = (Inr [''r1'', ''r2''], sample_state)"
  by (rule cached_answer_ignores_limit [OF sample_query]) (simp_all add: sample_named_facts)

text \<open>The scope of a parent given by namespace and name is kept for ever under the table and the name:
  once it is found for one agent, every other agent is given the same parent, and once it is not found
  the empty text stays its answer.\<close>

theorem scope_cache_ignores_agent:
  assumes "get_scope_id env scope table agent cache = (Inr i, cache1)" "qe_uuid (se_query env) scope = None"
  shows "get_scope_id (env\<lparr>se_ids := ids\<rparr>) scope table agent2 cache1 = (Inr i, cache1)
     \<and> (se_ids env = (\<lambda>tx. Inr []) \<longrightarrow> map_of cache (table @ scope) = None \<longrightarrow> i = [])"
  using assms by (auto simp: get_scope_id_def Let_def update_conv' split: option.splits list.splits sum.splits if_splits)

lemma scope_cache_ignores_agent_witness:
  "get_scope_id (sample_selector_env\<lparr>se_ids := \<lambda>tx. Inr [''second'']\<rparr>) ''ns/web'' ''checks'' (Some ''agent2'') [(''checksns/web'', ''first'')]
     = (Inr ''first'', [(''checksns/web'', ''first'')])"
proof -
  have "get_scope_id sample_selector_env ''ns/web'' ''checks'' (Some ''agent1'') [] = (Inr ''first'', [(''checksns/web'', ''first'')])"
    by (simp add: get_scope_id_def sample_selector_env_def sample_query_env_def scope_tx_def Let_def)
  moreover have "qe_uuid (se_query sample_selector_env) ''ns/web'' = None" by (simp add: sample_selector_env_def sample_query_env_def)
  ultimately show ?thesis using scope_cache_ignores_agent by blast
qed

text \<open>The scopes of changes are looked up by the name of another table than the one they are queried in:
  only the id of a config is accepted.\<close>

lemma change_scope_refused:
  assumes "qe_uuid (se_query env) scope = None" "map_of cache (''catalog_changes'' @ scope) = None"
  shows "\<exists>e. get_scope_id env scope ''catalog_changes'' agent cache = (Inl e, cache)" "get_model_from_table ''config_changes'' = None"
proof -
  show "\<exists>e. get_scope_id env scope ''catalog_changes'' agent cache = (Inl e, cache)"
    using assms by (auto simp: get_scope_id_def scope_tx_def split: list.split)
  show "get_model_from_table ''config_changes'' = None" by (simp add: get_model_from_table_def models_by_table_def)
qed

subsection \<open>Conditions are added, never dropped\<close>

text \<open>An operation on a statement adds calls after those made before and keeps its table.\<close>

definition extends :: "gorm_tx \<Rightarrow> gorm_tx \<Rightarrow> bool" where
  "extends tx t \<longleftrightarrow> tx_table t = tx_table tx \<and> (\<exists>cs. tx_calls t = tx_calls tx @ cs)"

lemma extends_refl [simp]: "extends tx tx"
  by (simp add: extends_def)

lemma extends_trans: "extends a b \<Longrightarrow> extends b c \<Longrightarrow> extends a c"
  by (auto simp: extends_def)

lemma extends_call: "extends tx t \<Longrightarrow> extends tx (tx_call c t)"
  by (auto simp: extends_def tx_call_def)

lemma extends_fold: "(\<And>x t. extends t (f x t)) \<Longrightarrow> extends tx (fold f xs tx)"
proof (induction xs arbitrary: tx)
  case (Cons x xs)
  show ?case using extends_trans [OF Cons.prems Cons.IH [OF Cons.prems]] by simp
qed simp

lemma json_mapper_extends: "extends tx (json_path_mapper column op path val tx)"
  by (auto simp: json_path_mapper_def Let_def intro!: extends_call extends_fold)

lemma filter_values_extends: "filter_json_column_values column op val tx = Some t \<Longrightarrow> extends tx t"
  by (auto simp: filter_json_column_values_def array_values_def Let_def extends_call split: if_splits sum.splits)

lemma properties_extends: "extends tx (filter_properties op name val tx)"
  by (simp add: filter_properties_def extends_call)

lemma json_step_extends: "json_column_step original op val column (field, tx) = Inr (f1, t1) \<Longrightarrow> extends tx t1"
  by (auto simp: json_column_step_def Let_def json_mapper_extends dest!: filter_values_extends intro: extends_trans [OF json_mapper_extends]
      split: if_splits option.splits)

lemma json_columns_extends: "json_columns original op val cols (field, tx) = Inr (f1, t1) \<Longrightarrow> extends tx t1"
proof (induction cols arbitrary: field tx)
  case (Cons c cols)
  obtain f2 t2 where s: "json_column_step original op val c (field, tx) = Inr (f2, t2)" "json_columns original op val cols (f2, t2) = Inr (f1, t1)"
    using Cons.prems by (auto simp: and_then_Inr_iff)
  show ?case using extends_trans [OF json_step_extends [OF s(1)] Cons.IH [OF s(2)]] .
qed simp

lemma property_columns_extends: "property_columns qm original op val (field, tx) = Inr (f1, t1) \<Longrightarrow> extends tx t1"
  by (auto simp: property_columns_def properties_extends dest: filter_values_extends split: if_splits option.splits)

lemma common_extends: "common_field field val tx = Inr t \<Longrightarrow> extends tx t"
  by (auto simp: common_field_def extends_call split: if_splits option.splits)

lemma custom_extends: "run_custom env c val tx = Inr t \<Longrightarrow> extends tx t"
  by (cases c) (auto simp: related_configs_mapper_def component_config_traverse_def and_then_Inr_iff extends_call split: if_splits)

fun applied_tx :: "applied \<Rightarrow> gorm_tx" where
  "applied_tx (AStop t) = t"
| "applied_tx (AGo t cs) = t"

lemma apply_columns_extends:
  assumes "apply_columns env qm original field ty val v op tx = Inr r"
  shows "extends tx (applied_tx r)"
proof -
  obtain t1 t2 f3 t3 f4 t4 cs where t1: "common_field field val tx = Inr t1"
    and t2: "(case map_of (qm_custom qm) field of None \<Rightarrow> Inr t1
       | Some c \<Rightarrow> (case run_custom env c val t1 of Inl e \<Rightarrow> Inl (InvalidValueFor field e) | Inr t \<Rightarrow> Inr t)) = Inr t2"
    and t3: "json_columns original op val (qm_json qm) (field, t2) = Inr (f3, t3)"
    and t4: "property_columns qm original op val (f3, t3) = Inr (f4, t4)" and r: "r = AGo t4 cs"
    using assms by (rule apply_columnsE)
  have "extends t1 t2" using t2 custom_extends by (auto split: option.splits sum.splits)
  then show ?thesis
    using extends_trans [OF extends_trans [OF common_extends [OF t1]] extends_trans [OF json_columns_extends [OF t3] property_columns_extends [OF t4]]]
    by (simp add: r)
qed

lemma order_extends: "apply_order v tx = Inr t \<Longrightarrow> extends tx t"
  by (auto simp: apply_order_def extends_call split: qvalue.splits if_splits)

lemma apply_field_extends:
  assumes "apply_field env qm original ty v op tx = Inr r"
  shows "extends tx (applied_tx r)"
proof -
  let ?f = "resolve_alias qm original"
  let ?t = "case map_of (qm_types qm) ?f of Some t \<Rightarrow> t | None \<Rightarrow> ty"
  have go: "extends tx (applied_tx r)" if "apply_columns env qm original ?f ?t (sprint v) w op tx = Inr r" for w
    using apply_columns_extends [OF that] .
  show ?thesis
  proof (cases "?f = ''@order''")
    case True
    then obtain t where "apply_order v tx = Inr t" "r = AStop t"
      using assms by (auto simp: apply_field_def Let_def and_then_Inr_iff)
    then show ?thesis using order_extends by simp
  next
    case False
    then show ?thesis
      using assms go by (auto simp: apply_field_def Let_def split: option.splits if_splits sum.splits)
  qed
qed

lemma apply_query_extends:
  "apply_query env qm q tx = Inr (t, cs) \<Longrightarrow> extends tx t"
  "apply_each env qm qs tx ds = Inr (t, cs) \<Longrightarrow> extends tx t"
proof (induction env qm q tx and env qm qs tx ds arbitrary: t cs and t cs rule: apply_query_apply_each.induct)
  case (1 env qm f ty v op subs tx)
  show ?case
  proof (cases "f = []")
    case True
    then show ?thesis using 1 by simp
  next
    case False
    then obtain r where r: "apply_field env qm f ty v op tx = Inr r"
      and rest: "(case r of AStop t \<Rightarrow> Inr (t, []) | AGo t cs \<Rightarrow> apply_each env qm subs t cs) = Inr (t, cs)"
      using "1.prems" by (auto simp: and_then_Inr_iff)
    have e: "extends tx (applied_tx r)" using apply_field_extends [OF r] .
    show ?thesis
    proof (cases r)
      case (AGo t1 cs1)
      then show ?thesis using "1.IH"(2) [OF False r AGo, of t cs] rest e extends_trans by auto
    qed (use e rest in auto)
  qed
next
  case (3 env qm q qs tx ds)
  obtain t1 cs1 where q: "apply_query env qm q tx = Inr (t1, cs1)" "apply_each env qm qs t1 (ds @ cs1) = Inr (t, cs)"
    using "3.prems" by (auto simp: and_then_Inr_iff)
  show ?case using extends_trans [OF "3.IH"(1) [OF q(1)]] "3.IH"(2) q by blast
qed auto

lemma requirement_extends: "extends tx (requirement_clauses column r tx)"
  by (auto simp: requirement_clauses_def intro!: extends_fold extends_call)

lemma json_selector_extends: "json_selector srt what column supported table sel tx = Inr t \<Longrightarrow> extends tx t"
  by (auto simp: json_selector_def intro!: extends_fold requirement_extends split: if_splits sum.splits)

lemma field_requirements_extend: "apply_field_requirements env qm rs tx = Inr t \<Longrightarrow> extends tx t"
proof (induction rs arbitrary: tx)
  case (Cons r rs)
  obtain t1 where t1: "apply_field_selector_requirement env qm r tx = Inr t1" "apply_field_requirements env qm rs t1 = Inr t"
    using Cons.prems by (auto simp: and_then_Inr_iff)
  obtain t2 cs where t2: "apply_query env qm (field_requirement_query qm r) tx = Inr (t2, cs)" "t1 = tx_call (GClauses cs) t2"
    using t1(1) by (auto simp: apply_field_selector_requirement_def apply_query_model_def and_then_Inr_iff)
  have "extends tx t1" using extends_call [OF apply_query_extends(1) [OF t2(1)]] t2(2) by simp
  then show ?case using extends_trans Cons.IH [OF t1(2)] by blast
qed simp

lemma field_selector_extends: "field_selector env qm sel tx = Inr t \<Longrightarrow> extends tx t"
  using field_requirements_extend by (auto simp: field_selector_def split: if_splits sum.splits)

lemma conditions_extend: "selector_conditions env qm traversal rs table tx = Inr t \<Longrightarrow> extends tx t"
proof -
  assume "selector_conditions env qm traversal rs table tx = Inr t"
  then obtain t1 t2 t3 where t: "json_selector (se_sort env) ''tag'' ''tags'' (qm_has_tags qm) table (rs_tag_selector rs) tx = Inr t1"
    "json_selector (se_sort env) ''label'' ''labels'' (qm_has_labels qm) table (rs_label_selector rs) t1 = Inr t2"
    "field_selector env qm (rs_field_selector rs) t2 = Inr t3" "t = traversal_filter traversal table t3"
    by (auto simp: selector_conditions_def and_then_Inr_iff)
  have "extends t3 t" using t(4) by (auto simp: traversal_filter_def extends_call split: option.split)
  then show ?thesis
    using extends_trans [OF extends_trans [OF json_selector_extends [OF t(1)] json_selector_extends [OF t(2)]]]
      extends_trans [OF field_selector_extends [OF t(3)]] by blast
qed

lemma search_extends: "selector_search env qm rs tx = Inr (t, flat) \<Longrightarrow> extends tx t"
  by (auto simp: selector_search_def apply_query_model_def intro!: extends_call dest: apply_query_extends(1)
      split: sum.splits if_splits option.splits prod.splits)

definition has_call :: "gorm_call \<Rightarrow> gorm_tx \<Rightarrow> bool" where
  "has_call c tx \<longleftrightarrow> c \<in> set (tx_calls tx)"

lemma has_call_extends: "extends tx t \<Longrightarrow> has_call c tx \<Longrightarrow> has_call c t"
  by (auto simp: extends_def has_call_def)

lemma has_call_new: "has_call c (tx_call c tx)"
  by (simp add: has_call_def tx_call_def)

lemma deleted_extends: "extends tx (deleted_filter qm rs flat tx)"
  by (simp add: deleted_filter_def extends_call)

lemma agent_extends: "agent_filter env qm rs flat tx = Inr (t, a) \<Longrightarrow> extends tx t"
  by (auto simp: agent_filter_def with_agent_def and_then_Inr_iff extends_call split: if_splits option.splits)

lemma scope_extends: "scope_filter env rs table agent tx cache = (Inr t, cache1) \<Longrightarrow> extends tx t"
  by (auto simp: scope_filter_def extends_call split: if_splits prod.splits sum.splits option.splits)


definition sample_scoped :: resource_selector where
  "sample_scoped = empty_selector\<lparr>rs_scope := ''ns/web''\<rparr>"

lemma sample_scoped_facts: "to_peg sample_env False sample_scoped = Inr []" "rs_scope sample_scoped = ''ns/web''" "rs_agent sample_scoped = []"
    "rs_include_deleted sample_scoped = False" "rs_tag_selector sample_scoped = []" "rs_label_selector sample_scoped = []"
    "rs_field_selector sample_scoped = []"
  by (simp_all add: to_peg_def peg_fields_def peg_field_def sample_scoped_def empty_selector_def sample_env_def Let_def)

lemma sample_scoped_clause:
  "set_resource_selector_clause sample_selector_env None sample_scoped (new_tx ''checks'') ''checks'' []
   = (Inr \<lparr>tx_table = ''checks'', tx_calls = [GWhere ''deleted_at IS NULL'' [], GWhere ''agent_id = ?'' [ArgString uuid_nil],
        GWhere ''canary_id = ?'' [ArgString ''first'']]\<rparr>, [(''checksns/web'', ''first'')])"
proof -
  have model: "get_model_from_table ''checks'' = Some check_model" by (simp add: get_model_from_table_def models_by_table_def)
  have flags: "qm_has_deleted_at check_model" "qm_has_agents check_model" by (simp_all add: check_model_def)
  have scope: "get_scope_id sample_selector_env ''ns/web'' ''checks'' a [] = (Inr ''first'', [(''checksns/web'', ''first'')])" for a
    by (simp add: get_scope_id_def sample_selector_env_def sample_query_env_def scope_tx_def Let_def)
  have search: "selector_search sample_selector_env check_model sample_scoped tx = Inr (tx, [])" for tx
    by (simp add: selector_search_def sample_selector_env_def sample_scoped_facts)
  show ?thesis
    unfolding set_resource_selector_clause_def model option.case search and_then.simps prod.case
    by (simp add: deleted_filter_def agent_filter_def search_sets_def flags sample_scoped_facts selector_agent_id_def with_agent_def scope_filter_def
        scope scope_column_def selector_conditions_def json_selector_def field_selector_def traversal_filter_def tx_call_def new_tx_def)
qed


subsection \<open>Finding and searching resources\<close>

text \<open>Canaries and checks refuse field selectors before anything is queried.\<close>

definition find_ids :: "('f, 'r) selector_env \<Rightarrow> string \<Rightarrow> int \<Rightarrow> (resource_selector \<times> string option) list \<Rightarrow> 'r query_state
    \<Rightarrow> (selector_error + 'r list) \<times> 'r query_state" where
  "find_ids env table limit selectors st =
     (case (if table = ''canaries'' \<or> table = ''checks'' then List.find (\<lambda>(rs, t). rs_field_selector rs \<noteq> []) selectors else None) of
        Some (rs, t) \<Rightarrow> (Inl (SelectorUnsupported ''field'' table), st)
      | None \<Rightarrow> query_table env table limit selectors st)"

text \<open>A row of a table, by what its accessors give. Times are points; the zero time is 0.\<close>

record found_row =
  fr_id :: string
  fr_agent :: "string option"
  fr_name :: string
  fr_namespace :: string
  fr_type :: string
  fr_icon :: string
  fr_labels :: "(string, string) gomap"
  fr_tags :: "(string, string) gomap"
  fr_health :: "string option"
  fr_status :: "string option"
  fr_severity :: string
  fr_analyzer :: string
  fr_created :: "int option"
  fr_updated :: "int option"
  fr_deleted :: "int option"
  fr_first_observed :: "int option"
  fr_last_observed :: "int option"

record selected_resource =
  sr_id :: string
  sr_agent :: string
  sr_icon :: string
  sr_name :: string
  sr_namespace :: string
  sr_type :: string
  sr_tags :: "(string, string) gomap"
  sr_created :: "int option"
  sr_updated :: "int option"
  sr_deleted :: "int option"
  sr_health :: string
  sr_status :: string
  sr_severity :: "string option"

definition non_zero_time :: "int option \<Rightarrow> int option" where
  "non_zero_time t = (case t of Some n \<Rightarrow> if n = 0 then None else t | None \<Rightarrow> None)"

definition set_timestamps :: "bool \<Rightarrow> int option \<Rightarrow> int option \<Rightarrow> int option \<Rightarrow> selected_resource \<Rightarrow> selected_resource" where
  "set_timestamps on created updated deleted r =
     (if \<not> on then r
      else r\<lparr>sr_created := non_zero_time created, sr_updated := non_zero_time updated, sr_deleted := non_zero_time deleted\<rparr>)"

definition plain_selected :: "found_row \<Rightarrow> selected_resource" where
  "plain_selected r = \<lparr>sr_id = fr_id r, sr_agent = [], sr_icon = [], sr_name = fr_name r, sr_namespace = fr_namespace r, sr_type = fr_type r,
     sr_tags = [], sr_created = None, sr_updated = None, sr_deleted = None, sr_health = [], sr_status = [], sr_severity = None\<rparr>"

definition text_of :: "string option \<Rightarrow> string" where
  "text_of t = (case t of None \<Rightarrow> [] | Some s \<Rightarrow> s)"

datatype resource_kind = Canaries | Configs | Components | Checks | ConfigChanges | ConfigAnalyses | Playbooks | Connections

fun kind_table :: "resource_kind \<Rightarrow> string" where
  "kind_table Canaries = ''canaries''"
| "kind_table Configs = ''config_items''"
| "kind_table Components = ''components''"
| "kind_table Checks = ''checks''"
| "kind_table ConfigChanges = ''catalog_changes''"
| "kind_table ConfigAnalyses = ''config_analysis_items''"
| "kind_table Playbooks = ''playbooks''"
| "kind_table Connections = ''connections''"

fun select_row :: "bool \<Rightarrow> resource_kind \<Rightarrow> found_row \<Rightarrow> selected_resource" where
  "select_row on Canaries r = set_timestamps on (fr_created r) (fr_updated r) (fr_deleted r)
     ((plain_selected r)\<lparr>sr_agent := text_of (fr_agent r), sr_tags := fr_labels r\<rparr>)"
| "select_row on Configs r = set_timestamps on (fr_created r) (fr_updated r) (fr_deleted r)
     ((plain_selected r)\<lparr>sr_agent := text_of (fr_agent r), sr_tags := fr_tags r, sr_health := text_of (fr_health r), sr_status := text_of (fr_status r)\<rparr>)"
| "select_row on Components r = set_timestamps on (fr_created r) (fr_updated r) (fr_deleted r)
     ((plain_selected r)\<lparr>sr_agent := text_of (fr_agent r), sr_tags := fr_labels r, sr_health := text_of (fr_health r), sr_status := text_of (fr_status r)\<rparr>)"
| "select_row on Checks r = set_timestamps on (fr_created r) (fr_updated r) (fr_deleted r)
     ((plain_selected r)\<lparr>sr_agent := text_of (fr_agent r), sr_icon := fr_icon r, sr_tags := fr_labels r,
        sr_health := (if fr_status r = Some ''healthy'' then ''healthy'' else ''unhealthy'')\<rparr>)"
| "select_row on ConfigChanges r = set_timestamps on (fr_created r) None None ((plain_selected r)\<lparr>sr_agent := text_of (fr_agent r)\<rparr>)"
| "select_row on ConfigAnalyses r = set_timestamps on (fr_first_observed r) (fr_last_observed r) None
     ((plain_selected r)\<lparr>sr_name := fr_analyzer r, sr_namespace := [], sr_status := text_of (fr_status r),
        sr_severity := (if fr_severity r \<noteq> [] then Some (fr_severity r) else None)\<rparr>)"
| "select_row on Playbooks r = set_timestamps on (fr_created r) (fr_updated r) (fr_deleted r) ((plain_selected r)\<lparr>sr_icon := fr_icon r\<rparr>)"
| "select_row on Connections r = set_timestamps on (fr_created r) (fr_updated r) None (plain_selected r)"

definition max_search_limit :: int where "max_search_limit = 1000"

definition all_kinds :: "resource_kind list" where
  "all_kinds = [Canaries, Configs, Components, Checks, ConfigChanges, ConfigAnalyses, Playbooks, Connections]"

text \<open>The eight searches run side by side; \<open>finish\<close> is the order in which they end, and the error is the
  first one's to fail. \<open>found\<close> is the outcome of the search for a kind with a limit.\<close>

definition search_resources :: "resource_kind list \<Rightarrow> (resource_kind \<Rightarrow> int \<Rightarrow> string + found_row list) \<Rightarrow> int \<Rightarrow> bool
    \<Rightarrow> string + (resource_kind \<Rightarrow> selected_resource list)" where
  "search_resources finish found limit0 on =
     (if limit0 > max_search_limit then Inl ''limit exceeds the maximum allowed value''
      else (let limit = (if limit0 \<le> 0 then 100 else limit0) in
        case List.find (\<lambda>k. \<exists>e. found k limit = Inl e) finish of
          Some k \<Rightarrow> (case found k limit of Inl e \<Rightarrow> Inl e | Inr rows \<Rightarrow> Inl [])
        | None \<Rightarrow> Inr (\<lambda>k. map (select_row on k) (case found k limit of Inl e \<Rightarrow> [] | Inr rows \<Rightarrow> rows))))"

definition get_ids :: "(resource_kind \<Rightarrow> selected_resource list) \<Rightarrow> string list" where
  "get_ids out = concat (map (\<lambda>k. map sr_id (out k))
     [Canaries, Checks, Configs, Components, ConfigChanges, ConfigAnalyses, Playbooks, Connections])"

lemma select_row_id: "sr_id (select_row on k r) = fr_id r"
  by (cases k) (simp_all add: set_timestamps_def plain_selected_def)

lemma no_failure:
  assumes "List.find (\<lambda>k. \<exists>e. found k limit = Inl e) finish = None" "set finish = set all_kinds"
  shows "\<exists>rows. found k limit = Inr rows"
proof -
  have "k \<in> set finish" unfolding assms(2) by (cases k) (simp_all add: all_kinds_def)
  then have "\<nexists>e. found k limit = Inl e" using assms(1) by (simp add: find_None_iff)
  then show ?thesis by (cases "found k limit") auto
qed

text \<open>A search over all kinds asks every kind with the same limit, from 1 to 1000, and, whatever the
  order in which the searches end, it gives the rows of all of them or the error of one: no kind is left
  out silently, no search gives more ids than the rows found.\<close>

theorem search_resources_correct:
  assumes "set finish = set all_kinds" "search_resources finish found limit on = r"
  shows "case r of
      Inl e \<Rightarrow> limit > max_search_limit \<or> (\<exists>k. found k (if limit \<le> 0 then 100 else limit) = Inl e)
    | Inr out \<Rightarrow> limit \<le> max_search_limit \<and> (\<forall>k. \<exists>rows. found k (if limit \<le> 0 then 100 else limit) = Inr rows \<and> out k = map (select_row on k) rows)
        \<and> get_ids out = concat (map (\<lambda>k. case found k (if limit \<le> 0 then 100 else limit) of Inl e \<Rightarrow> [] | Inr rows \<Rightarrow> map fr_id rows)
            [Canaries, Checks, Configs, Components, ConfigChanges, ConfigAnalyses, Playbooks, Connections])"
proof -
  let ?l = "if limit \<le> 0 then 100 else limit"
  let ?f = "List.find (\<lambda>k. \<exists>e. found k ?l = Inl e) finish"
  show ?thesis
  proof (cases "limit > max_search_limit")
    case True
    then show ?thesis using assms(2) by (auto simp: search_resources_def)
  next
    case False
    show ?thesis
    proof (cases ?f)
      case (Some k)
      then obtain e where e: "found k ?l = Inl e" by (auto simp: find_Some_iff)
      then have "r = Inl e" using assms(2) False Some by (simp add: search_resources_def Let_def)
      then show ?thesis using e by auto
    next
      case None
      have r: "r = Inr (\<lambda>k. map (select_row on k) (case found k ?l of Inl e \<Rightarrow> [] | Inr rows \<Rightarrow> rows))"
        using assms(2) False None by (simp add: search_resources_def Let_def)
      have each: "\<exists>rows. found k ?l = Inr rows" for k by (rule no_failure [of found ?l finish k, OF None assms(1)])
      have ids: "map sr_id (map (select_row on k) (case found k ?l of Inl e \<Rightarrow> [] | Inr rows \<Rightarrow> rows))
          = (case found k ?l of Inl e \<Rightarrow> [] | Inr rows \<Rightarrow> map fr_id rows)" for k
        by (auto simp: select_row_id comp_def split: sum.split)
      have rows: "\<exists>rows. found k ?l = Inr rows \<and> map (select_row on k) (case found k ?l of Inl e \<Rightarrow> [] | Inr rows \<Rightarrow> rows) = map (select_row on k) rows" for k
        using each [of k] by auto
      show ?thesis
        unfolding r sum.case get_ids_def ids using False rows by simp
    qed
  qed
qed

lemma search_resources_correct_witness:
  "\<exists>out. search_resources all_kinds (\<lambda>k l. Inr []) 5 False = Inr out \<and> get_ids out = []"
proof -
  have "search_resources all_kinds (\<lambda>k l. Inr []) 5 False = Inr (\<lambda>k. [])"
    by (simp add: search_resources_def max_search_limit_def all_kinds_def)
  from search_resources_correct [OF refl this] show ?thesis
    by (auto simp: search_resources_def max_search_limit_def all_kinds_def)
qed

end
