(* ===== verification/Query_Aggregation.thy ===== *)
theory Query_Aggregation
  imports Selector_Query
begin

section \<open>Aggregation queries\<close>

text \<open>
  \<^verbatim>\<open>query/aggregation.go\<close>: the validation of the fields that rows are grouped by and aggregated over, the
  text of the select clause, the columns of the group clause, and the statement. Reading the rows back is
  left out.
\<close>

record aggregation_field =
  ag_function :: string
  ag_alias :: string
  ag_field :: string

record aggregated_selector =
  as_selector :: resource_selector
  as_traversal :: "string option"
  as_group_by :: "string list"
  as_aggregates :: "aggregation_field list"

definition upper_char :: "char \<Rightarrow> char" where
  "upper_char c = (let n = of_char c :: nat in if 97 \<le> n \<and> n \<le> 122 then char_of (n - 32) else c)"

definition to_upper :: "string \<Rightarrow> string" where
  "to_upper = map upper_char"

definition numeric_functions :: "string list" where
  "numeric_functions = [''SUM'', ''AVG'', ''MAX'', ''MIN'']"

definition allowed_functions :: "string list" where
  "allowed_functions = ''COUNT'' # numeric_functions"

definition is_numeric_aggregation :: "string \<Rightarrow> bool" where
  "is_numeric_aggregation f \<longleftrightarrow> to_upper f \<in> set numeric_functions"

definition is_valid_aggregation_function :: "string \<Rightarrow> bool" where
  "is_valid_aggregation_function f \<longleftrightarrow> to_upper f \<in> set allowed_functions"

subsection \<open>Validation\<close>

definition is_valid_field :: "query_model \<Rightarrow> string \<Rightarrow> bool" where
  "is_valid_field qm field =
     (if field \<in> set (qm_columns qm) then True
      else case cut_char (CHR ''.'') field of
        None \<Rightarrow> False
      | Some (column, path) \<Rightarrow> column \<in> set (qm_json qm) \<or> qm_has_properties qm \<and> column = ''properties'')"

datatype aggregation_error =
    GroupField string | AggregationFunction string | AliasRequired | AggregatedField string | UnsupportedTable string
  | SelectorFailed selector_error

definition is_count_all :: "aggregation_field \<Rightarrow> bool" where
  "is_count_all a \<longleftrightarrow> to_upper (ag_function a) = ''COUNT'' \<and> ag_field a = ''*''"

definition validate_aggregation_field :: "query_model \<Rightarrow> aggregation_field \<Rightarrow> aggregation_error option" where
  "validate_aggregation_field qm a =
     (if \<not> is_valid_aggregation_function (ag_function a) then Some (AggregationFunction (ag_function a))
      else if ag_alias a = [] then Some AliasRequired
      else if is_count_all a then None
      else if \<not> is_valid_field qm (ag_field a) then Some (AggregatedField (ag_field a))
      else None)"

fun first_error :: "('a \<Rightarrow> 'e option) \<Rightarrow> 'a list \<Rightarrow> 'e option" where
  "first_error f [] = None"
| "first_error f (x # xs) = (case f x of Some e \<Rightarrow> Some e | None \<Rightarrow> first_error f xs)"

definition validate_aggregation_fields :: "string \<Rightarrow> aggregation_field list \<Rightarrow> aggregation_error option" where
  "validate_aggregation_fields table as =
     (case get_model_from_table table of
        None \<Rightarrow> Some (UnsupportedTable table)
      | Some qm \<Rightarrow> first_error (validate_aggregation_field qm) as)"

definition validate_group_by_fields :: "string \<Rightarrow> string list \<Rightarrow> aggregation_error option" where
  "validate_group_by_fields table fields_by =
     (case get_model_from_table table of
        None \<Rightarrow> Some (UnsupportedTable table)
      | Some qm \<Rightarrow> first_error (\<lambda>f. if \<not> is_valid_field qm f then Some (GroupField f) else None) fields_by)"

subsection \<open>The text of the query\<close>

definition sql_quoted :: "string \<Rightarrow> string" where
  "sql_quoted s = [CHR 0x27] @ s @ [CHR 0x27]"

fun json_steps :: "string list \<Rightarrow> string" where
  "json_steps [] = []"
| "json_steps [p] = ''->>'' @ sql_quoted p"
| "json_steps (p # ps) = ''->'' @ sql_quoted p @ json_steps ps"

text \<open>The expression for a field and the alias of its column.\<close>

definition json_field_selector :: "string \<Rightarrow> string \<times> string" where
  "json_field_selector field =
     (case cut_char (CHR ''.'') field of
        None \<Rightarrow> (field, [])
      | Some (column, path) \<Rightarrow>
          if column = ''properties''
          then (''jsonb_path_query_first(properties, '' @ sql_quoted (''$.'' @ path) @ '')'', replace_char (CHR ''.'') ''_'' path)
          else (let ps = split_char (CHR ''.'') path in
                if length ps = 1 then (column @ ''->>'' @ sql_quoted path, path)
                else (column @ json_steps ps, replace_char (CHR ''.'') ''_'' path)))"

definition group_part :: "string \<Rightarrow> string" where
  "group_part field =
     (if contains ''.'' field then
        (let (selector, ali) = json_field_selector field in
         if ali \<noteq> [] then selector @ '' as '' @ [CHR 0x22] @ ali @ [CHR 0x22] else selector)
      else field)"

definition aggregate_part :: "aggregation_field \<Rightarrow> string" where
  "aggregate_part a =
     (if is_count_all a then ''COUNT(*) AS '' @ ag_alias a
      else if contains ''.'' (ag_field a) then
        (let selector = fst (json_field_selector (ag_field a)) in
         if is_numeric_aggregation (ag_function a)
         then to_upper (ag_function a) @ ''(CAST('' @ selector @ '' AS NUMERIC)) AS '' @ ag_alias a
         else to_upper (ag_function a) @ ''('' @ selector @ '') AS '' @ ag_alias a)
      else to_upper (ag_function a) @ ''('' @ ag_field a @ '') AS '' @ ag_alias a)"

definition select_parts :: "string list \<Rightarrow> aggregation_field list \<Rightarrow> string list" where
  "select_parts group_by as = map group_part group_by @ map aggregate_part as"

definition build_select_clause :: "string list \<Rightarrow> aggregation_field list \<Rightarrow> string" where
  "build_select_clause group_by as = join '', '' (select_parts group_by as)"

text \<open>A column of the group clause: by the position of the expression, or by name.\<close>

datatype group_column = ByPosition nat | ByName string

definition build_group_by_clause :: "string list \<Rightarrow> group_column list" where
  "build_group_by_clause group_by = map (\<lambda>(i, f). if contains ''.'' f then ByPosition (i + 1) else ByName f) (enumerate 0 group_by)"

definition aggregate_limit :: "int \<Rightarrow> int" where
  "aggregate_limit n = (if n \<le> 0 \<or> n > 1000 then 1000 else n)"

text \<open>The statement with its group columns, or the error; and the cache of scopes.\<close>

definition aggregate :: "('f, 'r) selector_env \<Rightarrow> string \<Rightarrow> aggregated_selector \<Rightarrow> scope_cache
    \<Rightarrow> (aggregation_error + gorm_tx \<times> group_column list) \<times> scope_cache" where
  "aggregate env table query cache =
     (case validate_group_by_fields table (as_group_by query) of
        Some e \<Rightarrow> (Inl e, cache)
      | None \<Rightarrow>
          (case validate_aggregation_fields table (as_aggregates query) of
             Some e \<Rightarrow> (Inl e, cache)
           | None \<Rightarrow>
               (case (if is_empty_selector (as_selector query) then (Inr (new_tx table), cache)
                      else set_resource_selector_clause env (as_traversal query) (canonical (se_sort env) (as_selector query))
                        (new_tx table) table cache) of
                  (Inl e, cache1) \<Rightarrow> (Inl (SelectorFailed e), cache1)
                | (Inr tx, cache1) \<Rightarrow>
                    (Inr (tx_call (GLimit (aggregate_limit (rs_limit (as_selector query))))
                        (tx_call (GSelect [build_select_clause (as_group_by query) (as_aggregates query)]) tx),
                      build_group_by_clause (as_group_by query)), cache1))))"

subsection \<open>What the statement groups by\<close>

lemma first_error_None: "first_error f xs = None \<longleftrightarrow> (\<forall>x \<in> set xs. f x = None)"
  by (induction xs) (auto split: option.split)

lemma contains_dot: "contains ''.'' f \<longleftrightarrow> CHR ''.'' \<in> set f"
  by (auto simp: contains_iff in_set_conv_decomp)

lemma valid_plain_field: "is_valid_field qm f \<Longrightarrow> CHR ''.'' \<notin> set f \<Longrightarrow> f \<in> set (qm_columns qm)"
  by (auto simp: is_valid_field_def cut_char_def split: if_splits)

lemma aggregate_success:
  assumes "aggregate env table query cache = (Inr (tx, gs), cache1)"
  obtains qm tx0 where "get_model_from_table table = Some qm" "\<forall>f \<in> set (as_group_by query). is_valid_field qm f"
    and "\<forall>a \<in> set (as_aggregates query). validate_aggregation_field qm a = None"
    and "tx = tx_call (GLimit (aggregate_limit (rs_limit (as_selector query))))
      (tx_call (GSelect [build_select_clause (as_group_by query) (as_aggregates query)]) tx0)"
    and "gs = build_group_by_clause (as_group_by query)"
proof -
  have g: "validate_group_by_fields table (as_group_by query) = None"
    using assms by (auto simp: aggregate_def split: option.splits)
  have a: "validate_aggregation_fields table (as_aggregates query) = None"
    using assms g by (auto simp: aggregate_def split: option.splits)
  obtain qm where qm: "get_model_from_table table = Some qm"
    using g by (auto simp: validate_group_by_fields_def split: option.splits)
  have "\<forall>f \<in> set (as_group_by query). is_valid_field qm f"
    using g qm by (auto simp: validate_group_by_fields_def first_error_None split: if_splits)
  moreover have "\<forall>a \<in> set (as_aggregates query). validate_aggregation_field qm a = None"
    using a qm by (simp add: validate_aggregation_fields_def first_error_None)
  moreover obtain tx0 where "tx = tx_call (GLimit (aggregate_limit (rs_limit (as_selector query))))
      (tx_call (GSelect [build_select_clause (as_group_by query) (as_aggregates query)]) tx0)"
    "gs = build_group_by_clause (as_group_by query)"
    using assms g a by (auto simp: aggregate_def split: prod.splits sum.splits)
  ultimately show thesis using that qm by blast
qed

lemma group_columns: "length (build_group_by_clause fs) = length fs"
    "i < length fs \<Longrightarrow> build_group_by_clause fs ! i = (if contains ''.'' (fs ! i) then ByPosition (i + 1) else ByName (fs ! i))"
  by (simp_all add: build_group_by_clause_def nth_enumerate_eq)

text \<open>C40: An aggregation that passes validation groups by exactly its fields: a plain field is a column of the
  table and is named, and any other is designated by the position of its own expression in the select
  clause. At least one and at most 1000 rows are asked for.\<close>

theorem aggregate_grouping:
  assumes "aggregate env table query cache = (Inr (tx, gs), cache1)" "i < length (as_group_by query)"
  shows "\<exists>qm. get_model_from_table table = Some qm \<and> length gs = length (as_group_by query)
    \<and> (case gs ! i of
         ByName f \<Rightarrow> f = as_group_by query ! i \<and> f \<in> set (qm_columns qm)
       | ByPosition p \<Rightarrow> 1 \<le> p \<and> select_parts (as_group_by query) (as_aggregates query) ! (p - 1) = group_part (as_group_by query ! i))
    \<and> has_call (GSelect [join '', '' (select_parts (as_group_by query) (as_aggregates query))]) tx
    \<and> (\<exists>n. 1 \<le> n \<and> n \<le> 1000 \<and> has_call (GLimit n) tx)"
proof -
  obtain qm tx0 where qm: "get_model_from_table table = Some qm" "\<forall>f \<in> set (as_group_by query). is_valid_field qm f"
    and tx: "tx = tx_call (GLimit (aggregate_limit (rs_limit (as_selector query))))
      (tx_call (GSelect [build_select_clause (as_group_by query) (as_aggregates query)]) tx0)"
    and gs: "gs = build_group_by_clause (as_group_by query)"
    using assms(1) by (rule aggregate_success)
  have col: "as_group_by query ! i \<in> set (qm_columns qm)" if "\<not> contains ''.'' (as_group_by query ! i)"
    using qm(2) assms(2) that valid_plain_field contains_dot nth_mem by blast
  have lim: "1 \<le> aggregate_limit n" "aggregate_limit n \<le> 1000" for n by (auto simp: aggregate_limit_def)
  have calls: "has_call (GSelect [join '', '' (select_parts (as_group_by query) (as_aggregates query))]) tx"
    "has_call (GLimit (aggregate_limit (rs_limit (as_selector query)))) tx"
    by (simp_all add: tx has_call_def tx_call_def build_select_clause_def)
  have "case gs ! i of
         ByName f \<Rightarrow> f = as_group_by query ! i \<and> f \<in> set (qm_columns qm)
       | ByPosition p \<Rightarrow> 1 \<le> p \<and> select_parts (as_group_by query) (as_aggregates query) ! (p - 1) = group_part (as_group_by query ! i)"
    using assms(2) col by (simp add: gs group_columns select_parts_def nth_append)
  then show ?thesis using qm(1) gs group_columns(1) calls lim by blast
qed

definition sample_aggregation :: aggregated_selector where
  "sample_aggregation = \<lparr>as_selector = empty_selector, as_traversal = None, as_group_by = [''type'', ''tags.zone''],
     as_aggregates = [\<lparr>ag_function = ''count'', ag_alias = ''n'', ag_field = ''*''\<rparr>]\<rparr>"

lemma sample_aggregate:
  "aggregate sample_selector_env ''config_items'' sample_aggregation []
   = (Inr (tx_call (GLimit 1000) (tx_call (GSelect [build_select_clause [''type'', ''tags.zone''] [\<lparr>ag_function = ''count'', ag_alias = ''n'', ag_field = ''*''\<rparr>]])
        (new_tx ''config_items'')), [ByName ''type'', ByPosition 2]), [])"
proof -
  have "validate_group_by_fields ''config_items'' [''type'', ''tags.zone''] = None" by code_simp
  moreover have "validate_aggregation_fields ''config_items'' [\<lparr>ag_function = ''count'', ag_alias = ''n'', ag_field = ''*''\<rparr>] = None" by code_simp
  moreover have "is_empty_selector empty_selector" by (simp add: is_empty_selector_def all_empty_but_name_def empty_selector_def)
  moreover have "build_group_by_clause [''type'', ''tags.zone''] = [ByName ''type'', ByPosition 2]" by code_simp
  ultimately show ?thesis by (simp add: aggregate_def sample_aggregation_def aggregate_limit_def empty_selector_def)
qed

lemma aggregate_grouping_witness:
  "1 < length (as_group_by sample_aggregation) \<and> (\<exists>qm. get_model_from_table ''config_items'' = Some qm
     \<and> select_parts (as_group_by sample_aggregation) (as_aggregates sample_aggregation) ! 1 = group_part ''tags.zone'')"
  using aggregate_grouping [OF sample_aggregate, of 1] by (simp add: sample_aggregation_def)

text \<open>The path of a JSON column and the alias of an aggregate are not validated: they are parts of the
  text of the SQL as they are.\<close>

lemma path_in_sql:
  assumes "CHR ''.'' \<notin> set p" "p \<noteq> []"
  shows "validate_group_by_fields ''config_items'' [''config.'' @ p] = None"
    "group_part (''config.'' @ p) = ''config->>'' @ sql_quoted p @ '' as '' @ [CHR 0x22] @ p @ [CHR 0x22]"
proof -
  have cut: "cut_char (CHR ''.'') (''config.'' @ p) = Some (''config'', p)" by (simp add: cut_char_Some)
  have model: "get_model_from_table ''config_items'' = Some config_item_model" by (simp add: get_model_from_table_def models_by_table_def)
  have json: "''config'' \<in> set (qm_json config_item_model)" by (simp add: config_item_model_def)
  show "validate_group_by_fields ''config_items'' [''config.'' @ p] = None"
    using cut json by (simp add: validate_group_by_fields_def model is_valid_field_def)
  have "contains ''.'' (''config.'' @ p)" unfolding contains_dot by simp
  then show "group_part (''config.'' @ p) = ''config->>'' @ sql_quoted p @ '' as '' @ [CHR 0x22] @ p @ [CHR 0x22]"
    using cut assms no_split [OF assms(1)] by (simp add: group_part_def json_field_selector_def)
qed

end
