(* ===== verification/View_Tables.thy ===== *)
theory View_Tables
  imports Duty_Prelude
begin

section \<open>Generated view tables\<close>

text \<open>
  The tables that hold the rows of views: the columns of a view (\<^verbatim>\<open>view/columns.go\<close>), the schema made of
  them, the reconciliation of row level security, reading cells back as Go values and replacing the rows of
  one request (\<^verbatim>\<open>view/db.go\<close>), and the conversion of rows that are pushed upstream
  (\<^verbatim>\<open>models/common.go\<close>, \<^verbatim>\<open>models/view.go\<close>). A statement is what it does to a table, not its text; the
  database's own failures are given by the caller.
\<close>

subsection \<open>Values of cells\<close>

text \<open>A value of the empty interface, with its dynamic type. Floats are left abstract.\<close>

datatype 'f any_value =
    NilV | BoolV bool | IntV int | Int32V int | Int64V int | FloatV 'f | StrV string
  | BytesV string | RawV string | DurationV int | TimeV int | OtherV string string

text \<open>What is used of Go's library on them: reading durations and times, cutting a float to an integer,
  printing, and the zero of floats and times.\<close>

record 'f go_values =
  gv_parse_duration :: "string \<Rightarrow> int option"
  gv_parse_time :: "string \<Rightarrow> int option"
  gv_truncate :: "'f \<Rightarrow> int"
  gv_print :: "'f any_value \<Rightarrow> string"
  gv_zero :: 'f
  gv_zero_time :: int

fun go_type :: "'f any_value \<Rightarrow> string" where
  "go_type NilV = ''<nil>''"
| "go_type (BoolV b) = ''bool''"
| "go_type (IntV n) = ''int''"
| "go_type (Int32V n) = ''int32''"
| "go_type (Int64V n) = ''int64''"
| "go_type (FloatV x) = ''float64''"
| "go_type (StrV s) = ''string''"
| "go_type (BytesV s) = ''[]uint8''"
| "go_type (RawV s) = ''json.RawMessage''"
| "go_type (DurationV n) = ''time.Duration''"
| "go_type (TimeV t) = ''time.Time''"
| "go_type (OtherV t s) = t"

text \<open>\<^verbatim>\<open>strconv.ParseBool\<close>.\<close>

definition parse_bool :: "string \<Rightarrow> bool option" where
  "parse_bool s = (if s \<in> {''1'', ''t'', ''T'', ''TRUE'', ''true'', ''True''} then Some True
     else if s \<in> {''0'', ''f'', ''F'', ''FALSE'', ''false'', ''False''} then Some False else None)"

subsection \<open>Converting pushed rows\<close>

datatype model_column =
    MBoolean | MDateTime | MDecimal | MDuration | MInteger | MJsonb | MString | MOther string

fun sqlite_type :: "model_column \<Rightarrow> string" where
  "sqlite_type MBoolean = ''INTEGER''"
| "sqlite_type MDateTime = ''TEXT''"
| "sqlite_type MDecimal = ''REAL''"
| "sqlite_type MDuration = ''INTEGER''"
| "sqlite_type MInteger = ''INTEGER''"
| "sqlite_type MJsonb = ''BLOB''"
| "sqlite_type MString = ''TEXT''"
| "sqlite_type (MOther s) = ''TEXT''"

fun convert_duration :: "'f go_values \<Rightarrow> 'f any_value \<Rightarrow> 'f any_value \<times> string option" where
  "convert_duration g (IntV n) = (DurationV n, None)"
| "convert_duration g (Int32V n) = (DurationV n, None)"
| "convert_duration g (Int64V n) = (DurationV n, None)"
| "convert_duration g (FloatV x) = (DurationV (gv_truncate g x), None)"
| "convert_duration g (StrV s) =
     (case gv_parse_duration g s of
        None \<Rightarrow> (NilV, Some (''failed to parse duration (value: '' @ s @ '')''))
      | Some d \<Rightarrow> (DurationV d, None))"
| "convert_duration g NilV = (NilV, None)"
| "convert_duration g v = (NilV, Some (''invalid type '' @ go_type v))"

fun convert_time :: "'f go_values \<Rightarrow> 'f any_value \<Rightarrow> 'f any_value \<times> string option" where
  "convert_time g (TimeV t) = (TimeV t, None)"
| "convert_time g (StrV s) =
     (case gv_parse_time g s of
        None \<Rightarrow> (NilV, Some (''failed to parse datetime (value: '' @ s @ '')''))
      | Some t \<Rightarrow> (TimeV t, None))"
| "convert_time g NilV = (NilV, None)"
| "convert_time g v = (NilV, Some (''invalid type '' @ go_type v))"

text \<open>In a case of several types the value keeps the type of an interface, and the constant it is compared
  with is an \<open>int\<close>: only an \<open>int\<close> can be equal to it.\<close>

fun is_int_zero :: "'f any_value \<Rightarrow> bool" where
  "is_int_zero (IntV n) = (n = 0)"
| "is_int_zero v = False"

fun convert_bool :: "'f any_value \<Rightarrow> 'f any_value \<times> string option" where
  "convert_bool (BoolV b) = (BoolV b, None)"
| "convert_bool (StrV s) =
     (case parse_bool s of
        None \<Rightarrow> (BoolV False, Some (''failed to parse boolean (value: '' @ s @ '')''))
      | Some b \<Rightarrow> (BoolV b, None))"
| "convert_bool (IntV n) = (BoolV (\<not> is_int_zero (IntV n :: 'f any_value)), None)"
| "convert_bool (Int32V n) = (BoolV (\<not> is_int_zero (Int32V n :: 'f any_value)), None)"
| "convert_bool (Int64V n) = (BoolV (\<not> is_int_zero (Int64V n :: 'f any_value)), None)"
| "convert_bool NilV = (BoolV False, None)"
| "convert_bool v = (BoolV False, Some (''invalid boolean type '' @ go_type v))"

definition raw_json :: "'f any_value \<Rightarrow> 'f any_value" where
  "raw_json v = (case v of BytesV s \<Rightarrow> RawV s | _ \<Rightarrow> v)"

fun convert_cell :: "'f go_values \<Rightarrow> model_column \<Rightarrow> 'f any_value \<Rightarrow> 'f any_value \<times> string option" where
  "convert_cell g MJsonb v = (raw_json v, None)"
| "convert_cell g MDuration v = convert_duration g v"
| "convert_cell g MDateTime v = convert_time g v"
| "convert_cell g MString v = (StrV (if v = NilV then [] else gv_print g v), None)"
| "convert_cell g MInteger v = (if v = NilV then IntV 0 else v, None)"
| "convert_cell g MDecimal v = (if v = NilV then FloatV (gv_zero g) else v, None)"
| "convert_cell g MBoolean v = convert_bool v"
| "convert_cell g (MOther s) v = (v, None)"

text \<open>The type a column is converted to; columns the system adds are not in the definition.\<close>

definition column_type_of :: "(string, model_column) gomap \<Rightarrow> string \<Rightarrow> model_column option" where
  "column_type_of defs c = (case map_of defs c of
      Some t \<Rightarrow> Some t
    | None \<Rightarrow> if c = ''agent_id'' then Some (MOther []) else if c = ''__row__attributes'' then Some MJsonb else None)"

definition convert_entry :: "'f go_values \<Rightarrow> (string, model_column) gomap \<Rightarrow> string \<times> 'f any_value \<Rightarrow> 'f any_value \<times> string option" where
  "convert_entry g defs e = (case column_type_of defs (fst e) of None \<Rightarrow> (snd e, None) | Some t \<Rightarrow> convert_cell g t (snd e))"

definition convert_row_to_native_types :: "'f go_values \<Rightarrow> (string, model_column) gomap \<Rightarrow> (string, 'f any_value) gomap
    \<Rightarrow> (string, 'f any_value) gomap \<times> (string, string) gomap" where
  "convert_row_to_native_types g defs row =
     (map (\<lambda>e. (fst e, fst (convert_entry g defs e))) row,
      concat (map (\<lambda>e. case snd (convert_entry g defs e) of None \<Rightarrow> [] | Some m \<Rightarrow> [(fst e, m)]) row))"

text \<open>The types a converted cell can have.\<close>

fun native :: "model_column \<Rightarrow> 'f any_value \<Rightarrow> bool" where
  "native MBoolean v \<longleftrightarrow> (\<exists>b. v = BoolV b)"
| "native MDateTime v \<longleftrightarrow> v = NilV \<or> (\<exists>t. v = TimeV t)"
| "native MDuration v \<longleftrightarrow> v = NilV \<or> (\<exists>d. v = DurationV d)"
| "native MString v \<longleftrightarrow> (\<exists>s. v = StrV s)"
| "native MInteger v \<longleftrightarrow> v \<noteq> NilV"
| "native MDecimal v \<longleftrightarrow> v \<noteq> NilV"
| "native MJsonb v \<longleftrightarrow> (\<forall>s. v \<noteq> BytesV s)"
| "native (MOther s) v \<longleftrightarrow> True"

lemma convert_cell_native: "native t (fst (convert_cell g t v))"
proof (cases t)
  case MDuration then show ?thesis by (cases v) (auto split: option.splits)
next
  case MDateTime then show ?thesis by (cases v) (auto split: option.splits)
next
  case MBoolean then show ?thesis by (cases v) (auto split: option.splits)
qed (auto simp: raw_json_def split: any_value.splits)

lemma convert_row_columns: "map fst (fst (convert_row_to_native_types g defs row)) = map fst row"
  by (simp add: convert_row_to_native_types_def)

lemma convert_row_lookup:
  "map_of (fst (convert_row_to_native_types g defs row)) c = map_option (\<lambda>v. fst (convert_entry g defs (c, v))) (map_of row c)"
  by (induction row) (auto simp: convert_row_to_native_types_def)

lemma convert_row_errors:
  assumes "gomap_ok row"
  shows "map_of (snd (convert_row_to_native_types g defs row)) c
         = Option.bind (map_of row c) (\<lambda>v. snd (convert_entry g defs (c, v)))"
  using assms
proof (induction row)
  case (Cons e row)
  obtain k v where e: "e = (k, v)" by (cases e)
  have rec: "map_of (snd (convert_row_to_native_types g defs row)) c = Option.bind (map_of row c) (\<lambda>v. snd (convert_entry g defs (c, v)))"
    using Cons by (simp add: e)
  have no: "map_of row k = None" using Cons.prems e by (auto simp: gomap_ok_def map_of_eq_None_iff)
  show ?case
    using rec no e by (cases "c = k") (auto simp: convert_row_to_native_types_def split: option.splits)
qed (simp add: convert_row_to_native_types_def)

text \<open>An integer of a driver is an \<open>int64\<close>: the boolean false of such a column becomes true.\<close>

lemma int64_zero_true: "convert_bool (Int64V 0) = (BoolV True, None)"
  by simp

subsection \<open>Columns of a view\<close>

datatype view_column_type =
    VBoolean | VBytes | VConfigItem | VDateTime | VDecimal | VDuration | VGauge | VHealth | VMillicore | VNumber
  | VStatus | VString | VLabels | VAttributes | VGrants | VOther string

text \<open>The display settings of a column are left out.\<close>

record column_def =
  cd_name :: string
  cd_primary :: bool
  cd_type :: view_column_type

definition select_columns :: "column_def list \<Rightarrow> string list" where
  "select_columns c = map cd_name c"

text \<open>\<^verbatim>\<open>pq.QuoteIdentifier\<close>: a name is cut at its first zero byte and its quotes are doubled.\<close>

definition quote_identifier :: "string \<Rightarrow> string" where
  "quote_identifier s = CHR 0x22 # concat (map (\<lambda>c. if c = CHR 0x22 then [CHR 0x22, CHR 0x22] else [c])
     (takeWhile (\<lambda>c. c \<noteq> CHR 0x00) s)) @ [CHR 0x22]"

definition quoted_columns :: "column_def list \<Rightarrow> string list" where
  "quoted_columns c = map (\<lambda>col. quote_identifier (cd_name col)) c"

abbreviation fingerprint_column :: string where
  "fingerprint_column \<equiv> ''request_fingerprint''"

definition primary_key :: "column_def list \<Rightarrow> string list" where
  "primary_key c = map cd_name (filter cd_primary c) @ [fingerprint_column]"

fun model_type :: "view_column_type \<Rightarrow> model_column" where
  "model_type VNumber = MInteger"
| "model_type VDecimal = MDecimal"
| "model_type VBytes = MString"
| "model_type VMillicore = MString"
| "model_type VBoolean = MBoolean"
| "model_type VDateTime = MDateTime"
| "model_type VDuration = MDuration"
| "model_type VGauge = MJsonb"
| "model_type VLabels = MJsonb"
| "model_type VConfigItem = MString"
| "model_type t = MString"

text \<open>A later column of the same name replaces an earlier one.\<close>

definition to_column_type_map :: "column_def list \<Rightarrow> (string, model_column) gomap" where
  "to_column_type_map c = rev (map (\<lambda>col. (cd_name col, model_type (cd_type col))) c)"

definition generated_table_name :: "string \<Rightarrow> string \<Rightarrow> string" where
  "generated_table_name namespace name =
     ''view_'' @ replace_char (CHR ''-'') ''_'' namespace @ ''_'' @ replace_char (CHR ''-'') ''_'' name"

text \<open>Views of different names share a table when their names differ in where a dash is.\<close>

lemma table_name_clash:
  "generated_table_name ''team-a'' ''pods'' = generated_table_name ''team'' ''a-pods''"
  "generated_table_name ''team'' ''a-b'' = generated_table_name ''team'' ''a_b''"
  by code_simp+

subsection \<open>Schema\<close>

datatype sql_type = SqlText | SqlNumeric | SqlBool | SqlTimestamp | SqlBigint | SqlFloat | SqlJsonb | SqlUuid

fun get_atlas_type :: "view_column_type \<Rightarrow> sql_type" where
  "get_atlas_type VString = SqlText"
| "get_atlas_type VNumber = SqlNumeric"
| "get_atlas_type VBoolean = SqlBool"
| "get_atlas_type VDateTime = SqlTimestamp"
| "get_atlas_type VDuration = SqlBigint"
| "get_atlas_type VHealth = SqlText"
| "get_atlas_type VStatus = SqlText"
| "get_atlas_type VGauge = SqlFloat"
| "get_atlas_type VBytes = SqlBigint"
| "get_atlas_type VMillicore = SqlFloat"
| "get_atlas_type VAttributes = SqlJsonb"
| "get_atlas_type VGrants = SqlJsonb"
| "get_atlas_type VLabels = SqlJsonb"
| "get_atlas_type t = SqlText"

record sql_column =
  sc_name :: string
  sc_type :: sql_type
  sc_null :: bool
  sc_default :: "string option"

record view_schema =
  vs_table :: string
  vs_columns :: "sql_column list"
  vs_key :: "sql_column list"

definition user_column :: "column_def \<Rightarrow> sql_column" where
  "user_column col = \<lparr>sc_name = cd_name col, sc_type = get_atlas_type (cd_type col), sc_null = (\<not> cd_primary col), sc_default = None\<rparr>"

definition system_columns :: "sql_column list" where
  "system_columns =
     [\<lparr>sc_name = ''__row__attributes'', sc_type = SqlJsonb, sc_null = True, sc_default = None\<rparr>,
      \<lparr>sc_name = ''__grants'', sc_type = SqlJsonb, sc_null = True, sc_default = None\<rparr>,
      \<lparr>sc_name = fingerprint_column, sc_type = SqlText, sc_null = False, sc_default = Some [CHR 0x27, CHR 0x27]\<rparr>,
      \<lparr>sc_name = ''agent_id'', sc_type = SqlUuid, sc_null = False,
        sc_default = Some (CHR 0x27 # ''00000000-0000-0000-0000-000000000000'' @ CHR 0x27 # ''::uuid'')\<rparr>,
      \<lparr>sc_name = ''is_pushed'', sc_type = SqlBool, sc_null = False, sc_default = Some ''false''\<rparr>]"

definition create_table_schema :: "string \<Rightarrow> column_def list \<Rightarrow> view_schema" where
  "create_table_schema table cs =
     (let cols = map user_column cs @ system_columns in
      \<lparr>vs_table = table, vs_columns = cols, vs_key = filter (\<lambda>c. sc_name c \<in> set (primary_key cs)) cols\<rparr>)"

lemma schema_key_names: "set (map sc_name (vs_key (create_table_schema t cs))) = set (primary_key cs)"
proof -
  let ?cols = "map user_column cs @ system_columns"
  have sys: "fingerprint_column \<in> sc_name ` set system_columns" by (simp add: system_columns_def)
  have "cd_name c \<in> sc_name ` set ?cols" if "c \<in> set cs" for c
    using that by (force simp: user_column_def)
  then have "set (primary_key cs) \<subseteq> sc_name ` set ?cols" using sys by (auto simp only: primary_key_def set_append set_map) auto
  then show ?thesis unfolding create_table_schema_def Let_def view_schema.simps by fastforce
qed

text \<open>With names that are not repeated, no column of the key can be null.\<close>

lemma schema_key_not_null:
  assumes "distinct (map cd_name cs)" "fingerprint_column \<notin> set (map cd_name cs)"
    "set (map cd_name cs) \<inter> set (map sc_name system_columns) = {}"
    "c \<in> set (vs_key (create_table_schema t cs))"
  shows "\<not> sc_null c"
proof -
  have "c \<in> set (map user_column cs @ system_columns)" "sc_name c \<in> set (primary_key cs)"
    using assms(4) by (auto simp: create_table_schema_def Let_def)
  then consider (user) col where "col \<in> set cs" "c = user_column col" | (sys) "c \<in> set system_columns" by auto
  then show ?thesis
  proof cases
    case user
    have "cd_name col \<in> set (map cd_name cs)" using user(1) by simp
    then have "cd_name col \<noteq> fingerprint_column" using assms(2) by metis
    then have "cd_name col \<in> cd_name ` {x \<in> set cs. cd_primary x}"
      using \<open>sc_name c \<in> _\<close> user by (auto simp: primary_key_def user_column_def)
    then have "cd_primary col" using assms(1) user(1) by (auto simp: distinct_map inj_on_def)
    then show ?thesis by (simp add: user user_column_def)
  next
    case sys
    have "sc_name c \<in> set (map sc_name system_columns)" using sys by simp
    then have "sc_name c = fingerprint_column" using \<open>sc_name c \<in> set (primary_key cs)\<close> assms(3) by (auto simp: primary_key_def)
    then show ?thesis using sys by (auto simp: system_columns_def)
  qed
qed

subsection \<open>Row level security\<close>

datatype view_error =
    ReadFailed string | StatementFailed string | NoKey | TooManyColumns | OpenFailed string | InspectFailed string
  | DiffFailed string | RecreateFailed string | DropFailed string | CardinalityViolation | BadRow

record rls_state =
  rl_enabled :: bool
  rl_policy :: bool

datatype ddl = DropPolicy | DisableRls | EnableRls | CreatePolicy

fun ddl_effect :: "ddl \<Rightarrow> rls_state \<Rightarrow> rls_state" where
  "ddl_effect DropPolicy s = s\<lparr>rl_policy := False\<rparr>"
| "ddl_effect DisableRls s = s\<lparr>rl_enabled := False\<rparr>"
| "ddl_effect EnableRls s = s\<lparr>rl_enabled := True\<rparr>"
| "ddl_effect CreatePolicy s = s\<lparr>rl_policy := True\<rparr>"

text \<open>Statements run one by one, each committed on its own, up to the first that fails.\<close>

fun run_ddl :: "(ddl \<Rightarrow> string option) \<Rightarrow> ddl list \<Rightarrow> rls_state \<Rightarrow> view_error option \<times> rls_state" where
  "run_ddl fails [] s = (None, s)"
| "run_ddl fails (d # ds) s = (case fails d of Some e \<Rightarrow> (Some (StatementFailed e), s) | None \<Rightarrow> run_ddl fails ds (ddl_effect d s))"

definition rls_statements :: "bool \<Rightarrow> rls_state \<Rightarrow> ddl list" where
  "rls_statements want s =
     (if rl_enabled s = want \<and> rl_policy s = want then []
      else if \<not> want then (if rl_policy s then [DropPolicy] else []) @ (if rl_enabled s then [DisableRls] else [])
      else (if \<not> rl_enabled s then [EnableRls] else []) @ [DropPolicy, CreatePolicy])"

text \<open>The two reads, then the statements; security is wanted unless the configuration disables it.\<close>

definition ensure_view_rls_policy :: "bool \<Rightarrow> string option \<Rightarrow> string option \<Rightarrow> (ddl \<Rightarrow> string option) \<Rightarrow> rls_state
    \<Rightarrow> view_error option \<times> rls_state" where
  "ensure_view_rls_policy disabled read_state read_policy fails s =
     (case read_state of Some e \<Rightarrow> (Some (ReadFailed e), s)
      | None \<Rightarrow> (case read_policy of Some e \<Rightarrow> (Some (ReadFailed e), s)
      | None \<Rightarrow> run_ddl fails (rls_statements (\<not> disabled) s) s))"

lemma ensure_rls_success:
  assumes "ensure_view_rls_policy disabled r1 r2 fails s = (None, s')"
  shows "rl_enabled s' = (\<not> disabled) \<and> rl_policy s' = (\<not> disabled)"
  using assms by (cases s) (auto simp: ensure_view_rls_policy_def rls_statements_def split: option.splits if_splits)

lemma ensure_rls_quiet:
  assumes "rl_enabled s = (\<not> disabled)" "rl_policy s = (\<not> disabled)"
  shows "rls_statements (\<not> disabled) s = []"
  using assms by (simp add: rls_statements_def)

text \<open>Whatever fails, a table is not opened: without a policy an enabled table shows no rows, and
  security is disabled only where that is configured.\<close>

lemma ensure_rls_fails_closed:
  assumes "ensure_view_rls_policy disabled r1 r2 fails s = (e, s')" "rl_enabled s" "\<not> rl_enabled s'"
  shows "disabled \<and> e = None"
  using assms by (cases s) (auto simp: ensure_view_rls_policy_def rls_statements_def split: option.splits if_splits)

subsection \<open>Applying a schema\<close>

datatype 'c schema_change = AddTable view_schema | DropTable | Alter 'c

record 'c schema_client =
  cl_open :: "string option"
  cl_inspect :: "string + bool"
  cl_diff :: "string + 'c list"
  cl_apply :: "'c schema_change list \<Rightarrow> string option"
  cl_inspect_again :: "string + bool"

definition first_changes :: "'c schema_client \<Rightarrow> view_schema \<Rightarrow> bool \<Rightarrow> view_error + 'c schema_change list" where
  "first_changes cl desired exists =
     (if \<not> exists then Inr [AddTable desired]
      else case cl_diff cl of Inl e \<Rightarrow> Inl (DiffFailed e) | Inr cs \<Rightarrow> Inr (map Alter cs))"

definition recreate_changes :: "view_schema \<Rightarrow> 'c schema_change list" where
  "recreate_changes desired = [DropTable, AddTable desired]"

text \<open>The outcome, and the lists of changes that were sent to the database.\<close>

definition apply_changes :: "'c schema_client \<Rightarrow> view_schema \<Rightarrow> 'c schema_change list \<Rightarrow> view_error option \<times> 'c schema_change list list" where
  "apply_changes cl desired changes =
     (if changes = [] then (None, [])
      else case cl_apply cl changes of
        None \<Rightarrow> (None, [changes])
      | Some e \<Rightarrow>
         (case cl_inspect_again cl of
            Inl e2 \<Rightarrow> (Some (InspectFailed e2), [changes])
          | Inr False \<Rightarrow> (Some (RecreateFailed e), [changes])
          | Inr True \<Rightarrow>
             (case cl_apply cl (recreate_changes desired) of
                Some e3 \<Rightarrow> (Some (DropFailed e3), [changes, recreate_changes desired])
              | None \<Rightarrow> (None, [changes, recreate_changes desired]))))"

text \<open>A table that was made just now has no security yet.\<close>

definition new_table_rls :: rls_state where
  "new_table_rls = \<lparr>rl_enabled = False, rl_policy = False\<rparr>"

definition apply_view_table_schema :: "'c schema_client \<Rightarrow> (rls_state \<Rightarrow> view_error option \<times> rls_state) \<Rightarrow> string \<Rightarrow> column_def list
    \<Rightarrow> rls_state \<Rightarrow> (view_error option \<times> 'c schema_change list list) \<times> rls_state" where
  "apply_view_table_schema cl rls table cs s =
     (if primary_key cs = [] then ((Some NoKey, []), s)
      else case cl_open cl of Some e \<Rightarrow> ((Some (OpenFailed e), []), s)
      | None \<Rightarrow> (case cl_inspect cl of Inl e \<Rightarrow> ((Some (InspectFailed e), []), s)
      | Inr exists \<Rightarrow>
          (case first_changes cl (create_table_schema table cs) exists of
             Inl e \<Rightarrow> ((Some e, []), s)
           | Inr changes \<Rightarrow>
              (case apply_changes cl (create_table_schema table cs) changes of
                 (Some e, sent) \<Rightarrow> ((Some e, sent), s)
               | (None, sent) \<Rightarrow> (case rls (if exists \<and> recreate_changes (create_table_schema table cs) \<notin> set sent then s else new_table_rls) of
                    (r, s') \<Rightarrow> ((r, sent), s'))))))"

lemma key_never_missing: "primary_key cs \<noteq> []"
  by (simp add: primary_key_def)

text \<open>A table is dropped only after other changes to it have failed, and is then made again.\<close>

lemma dropped_then_made:
  assumes "apply_view_table_schema cl rls t cs s = ((r, sent), s')" "changes \<in> set sent" "DropTable \<in> set changes"
  shows "changes = recreate_changes (create_table_schema t cs) \<and> length sent = 2 \<and> cl_apply cl (hd sent) \<noteq> None"
  using assms
  by (auto simp: apply_view_table_schema_def apply_changes_def first_changes_def Let_def
      split: option.splits sum.splits if_splits bool.splits prod.splits)

text \<open>However the schema was reached, a table that is reported as applied has the security that is configured.\<close>

lemma applied_secured:
  assumes "apply_view_table_schema cl (ensure_view_rls_policy disabled r1 r2 fails) t cs s = ((None, sent), s')"
  shows "rl_enabled s' = (\<not> disabled) \<and> rl_policy s' = (\<not> disabled)"
proof -
  obtain s0 where "ensure_view_rls_policy disabled r1 r2 fails s0 = (None, s')"
    using assms by (auto simp: apply_view_table_schema_def split: option.splits sum.splits if_splits prod.splits)
  then show ?thesis using ensure_rls_success by blast
qed

subsection \<open>Reading cells back\<close>

fun record_duration :: "'f go_values \<Rightarrow> 'f any_value \<Rightarrow> 'f any_value" where
  "record_duration g (IntV n) = DurationV n"
| "record_duration g (Int32V n) = DurationV n"
| "record_duration g (Int64V n) = DurationV n"
| "record_duration g (FloatV x) = DurationV (gv_truncate g x)"
| "record_duration g v = v"

fun record_time :: "'f go_values \<Rightarrow> 'f any_value \<Rightarrow> 'f any_value" where
  "record_time g (TimeV t) = TimeV t"
| "record_time g (StrV s) = TimeV (case gv_parse_time g s of Some t \<Rightarrow> t | None \<Rightarrow> gv_zero_time g)"
| "record_time g v = v"

fun record_cell :: "'f go_values \<Rightarrow> view_column_type \<Rightarrow> 'f any_value \<Rightarrow> 'f any_value" where
  "record_cell g VGauge v = raw_json v"
| "record_cell g VAttributes v = raw_json v"
| "record_cell g VLabels v = raw_json v"
| "record_cell g VDuration v = record_duration g v"
| "record_cell g VDateTime v = record_time g v"
| "record_cell g t v = v"

fun convert_view_record :: "'f go_values \<Rightarrow> column_def list \<Rightarrow> 'f any_value list \<Rightarrow> 'f any_value list" where
  "convert_view_record g (col # cols) (v # vs) = (if v = NilV then v else record_cell g (cd_type col) v) # convert_view_record g cols vs"
| "convert_view_record g cols vs = vs"

lemma convert_view_record_nth:
  "i < length vs \<Longrightarrow> convert_view_record g cols vs ! i
   = (if i < length cols \<and> vs ! i \<noteq> NilV then record_cell g (cd_type (cols ! i)) (vs ! i) else vs ! i)"
  by (induction g cols vs arbitrary: i rule: convert_view_record.induct) (auto simp: nth_Cons split: nat.splits)

text \<open>Conversion is stable: cells read again are not changed again.\<close>

lemma record_cell_idem: "record_cell g t (record_cell g t v) = record_cell g t v"
  by (cases t; cases v) (simp_all add: raw_json_def)

lemma record_cell_nil: "v \<noteq> NilV \<Longrightarrow> record_cell g t v \<noteq> NilV"
  by (cases t; cases v) (auto simp: raw_json_def)

lemma convert_view_record_idem: "convert_view_record g cols (convert_view_record g cols vs) = convert_view_record g cols vs"
  by (induction g cols vs rule: convert_view_record.induct) (auto simp: record_cell_idem record_cell_nil)

subsection \<open>Replacing the rows of a request\<close>

text \<open>A stored row gives the value of every column of the table; a table is a list of rows.\<close>

type_synonym 'f view_row = "string \<Rightarrow> 'f any_value"

definition key_of :: "string list \<Rightarrow> 'f view_row \<Rightarrow> 'f any_value list" where
  "key_of ks r = map r ks"

definition max_params :: nat where
  "max_params = 65535"

definition row_batch_size :: "column_def list \<Rightarrow> nat" where
  "row_batch_size cs = max_params div (length cs + 1)"

fun row_batches :: "nat \<Rightarrow> 'a list \<Rightarrow> 'a list list" where
  "row_batches n xs = (if xs = [] \<or> n = 0 then [] else take n xs # row_batches n (drop n xs))"

declare row_batches.simps [simp del]

text \<open>Inserting a batch into the temporary table, which has the columns, defaults and null constraints of
  the table: a column may be named once, a row gives each of them a value, and the key has no nulls.\<close>

definition staged_row :: "'f view_row \<Rightarrow> string list \<Rightarrow> 'f any_value list \<Rightarrow> 'f view_row" where
  "staged_row defaults names vals = (\<lambda>c. case map_of (zip names vals) c of Some v \<Rightarrow> v | None \<Rightarrow> defaults c)"

definition stage_batch :: "'f view_row \<Rightarrow> string list \<Rightarrow> string list \<Rightarrow> 'f any_value list list \<Rightarrow> view_error + 'f view_row list" where
  "stage_batch defaults names ks rows =
     (if distinct names \<and> (\<forall>vals \<in> set rows. length vals = length names \<and> NilV \<notin> set (key_of ks (staged_row defaults names vals)))
      then Inr (map (staged_row defaults names) rows) else Inl BadRow)"

text \<open>The statements of the transaction are numbered; \<open>fails\<close> gives those the database fails.\<close>

fun stage_rows :: "(nat \<Rightarrow> string option) \<Rightarrow> 'f view_row \<Rightarrow> string list \<Rightarrow> string list \<Rightarrow> nat \<Rightarrow> 'f any_value list list list
    \<Rightarrow> view_error + 'f view_row list" where
  "stage_rows fails defaults names ks i [] = Inr []"
| "stage_rows fails defaults names ks i (b # bs) =
     (case fails i of Some e \<Rightarrow> Inl (StatementFailed e)
      | None \<Rightarrow> and_then (stage_batch defaults names ks b)
          (\<lambda>r. and_then (stage_rows fails defaults names ks (Suc i) bs) (\<lambda>rs. Inr (r @ rs))))"

text \<open>\<^verbatim>\<open>INSERT ... ON CONFLICT (key) DO UPDATE SET ... WHERE ... IS DISTINCT FROM ...\<close>: a command may not
  affect a row it has affected. With nothing to update a conflicting row is left alone.\<close>

definition differs :: "string list \<Rightarrow> 'f view_row \<Rightarrow> 'f view_row \<Rightarrow> bool" where
  "differs us r p \<longleftrightarrow> (\<exists>u \<in> set us. r u \<noteq> p u)"

definition overwrite :: "string list \<Rightarrow> 'f view_row \<Rightarrow> 'f view_row \<Rightarrow> 'f view_row" where
  "overwrite us p r = (\<lambda>c. if c \<in> set us then p c else r c)"

fun upsert_rows :: "string list \<Rightarrow> string list \<Rightarrow> 'f any_value list list \<Rightarrow> 'f view_row list \<Rightarrow> 'f view_row list
    \<Rightarrow> view_error + 'f view_row list" where
  "upsert_rows ks us aff t [] = Inr t"
| "upsert_rows ks us aff t (p # ps) =
     (let k = key_of ks p; hit = filter (\<lambda>r. key_of ks r = k) t in
      if hit = [] then upsert_rows ks us (k # aff) (t @ [p]) ps
      else if us = [] then upsert_rows ks us aff t ps
      else if k \<in> set aff then Inl CardinalityViolation
      else if \<exists>r \<in> set hit. differs us r p
        then upsert_rows ks us (k # aff) (map (\<lambda>r. if key_of ks r = k then overwrite us p r else r) t) ps
      else upsert_rows ks us aff t ps)"

definition update_columns :: "column_def list \<Rightarrow> string list" where
  "update_columns cs = map cd_name (filter (\<lambda>c. \<not> cd_primary c) cs)"

definition delete_stale :: "string list \<Rightarrow> string \<Rightarrow> 'f view_row list \<Rightarrow> 'f view_row list \<Rightarrow> 'f view_row list" where
  "delete_stale ks fp staged t =
     filter (\<lambda>r. \<not> (r fingerprint_column = StrV fp \<and> (\<forall>p \<in> set staged. key_of ks r \<noteq> key_of ks p))) t"

text \<open>The transaction: an error leaves the table as it was.\<close>

definition insert_view_rows :: "(nat \<Rightarrow> string option) \<Rightarrow> 'f view_row \<Rightarrow> column_def list \<Rightarrow> 'f any_value list list \<Rightarrow> string
    \<Rightarrow> 'f view_row list \<Rightarrow> view_error + 'f view_row list" where
  "insert_view_rows fails defaults cs rows fp t =
     (if rows = [] then
        (case fails 0 of Some e \<Rightarrow> Inl (StatementFailed e) | None \<Rightarrow> Inr (filter (\<lambda>r. r fingerprint_column \<noteq> StrV fp) t))
      else case fails 0 of Some e \<Rightarrow> Inl (StatementFailed e)
      | None \<Rightarrow>
        (let names = select_columns cs @ [fingerprint_column]; ks = primary_key cs;
             bs = row_batches (row_batch_size cs) (map (\<lambda>r. r @ [StrV fp]) rows) in
         if row_batch_size cs < 1 then Inl TooManyColumns
         else and_then (stage_rows fails defaults names ks 1 bs) (\<lambda>staged.
           case fails (Suc (length bs)) of Some e \<Rightarrow> Inl (StatementFailed e)
           | None \<Rightarrow> and_then (upsert_rows ks (update_columns cs) [] t staged) (\<lambda>t1.
               case fails (Suc (Suc (length bs))) of Some e \<Rightarrow> Inl (StatementFailed e)
               | None \<Rightarrow> Inr (delete_stale ks fp staged t1)))))"

subsubsection \<open>Batches\<close>

lemma concat_batches: "n \<noteq> 0 \<Longrightarrow> concat (row_batches n xs) = xs"
  by (induction n xs rule: row_batches.induct) (subst row_batches.simps, simp)

lemma batch_length: "b \<in> set (row_batches n xs) \<Longrightarrow> b \<noteq> [] \<and> length b \<le> n"
  by (induction n xs rule: row_batches.induct) (subst (asm) row_batches.simps, auto split: if_splits)

lemma batch_params:
  assumes "b \<in> set (row_batches (row_batch_size cs) rows)"
  shows "length b * (length cs + 1) \<le> max_params"
proof -
  have "length b * (length cs + 1) \<le> row_batch_size cs * (length cs + 1)"
    using batch_length [OF assms] by (intro mult_le_mono1) simp
  also have "\<dots> \<le> max_params" by (simp only: row_batch_size_def div_times_less_eq_dividend)
  finally show ?thesis .
qed

lemma stage_batch_Inr:
  "stage_batch d ns ks b = Inr rs \<Longrightarrow> rs = map (staged_row d ns) b \<and> distinct ns
     \<and> (\<forall>vals \<in> set b. length vals = length ns \<and> NilV \<notin> set (key_of ks (staged_row d ns vals)))"
  by (simp add: stage_batch_def split: if_splits)

lemma stage_rows_Inr:
  "stage_rows fails d ns ks i bs = Inr staged \<Longrightarrow> staged = map (staged_row d ns) (concat bs)
     \<and> (\<forall>vals \<in> set (concat bs). length vals = length ns \<and> distinct ns)"
proof (induction bs arbitrary: i staged)
  case (Cons b bs)
  then show ?case
    by (fastforce simp: and_then_Inr_iff split: option.splits dest!: stage_batch_Inr)
qed simp

subsubsection \<open>The upsert\<close>

definition upserted :: "string list \<Rightarrow> string list \<Rightarrow> 'f view_row list \<Rightarrow> 'f view_row \<Rightarrow> 'f view_row" where
  "upserted ks us ps r = (case find (\<lambda>p. key_of ks p = key_of ks r) ps of Some p \<Rightarrow> overwrite us p r | None \<Rightarrow> r)"

lemma overwrite_key: "set us \<inter> set ks = {} \<Longrightarrow> key_of ks (overwrite us p r) = key_of ks r"
  by (auto simp: key_of_def overwrite_def)

lemma overwrite_same: "\<not> differs us r p \<Longrightarrow> overwrite us p r = r"
  by (auto simp: differs_def overwrite_def fun_eq_iff)

lemma upserted_key: "set us \<inter> set ks = {} \<Longrightarrow> key_of ks (upserted ks us ps r) = key_of ks r"
  by (simp add: upserted_def overwrite_key split: option.splits)

lemma upserted_none: "key_of ks r \<notin> key_of ks ` set ps \<Longrightarrow> upserted ks us ps r = r"
  by (auto simp: upserted_def find_Some_iff image_iff split: option.splits) (metis nth_mem)

lemma upserted_Cons:
  "upserted ks us (p # ps) r = (if key_of ks p = key_of ks r then overwrite us p r else upserted ks us ps r)"
  by (simp add: upserted_def)

lemma set_map_key: "(\<And>r. f (g r) = f r) \<Longrightarrow> f ` set (map g t) = f ` set t"
  by (auto simp: image_iff)

lemma disjoint_step: "A' \<subseteq> insert k A \<Longrightarrow> k \<notin> B \<Longrightarrow> A \<inter> insert k B = {} \<Longrightarrow> A' \<inter> B = {}"
  by blast

text \<open>One proposed row, on every branch that is not an error.\<close>

lemma upsert_step:
  assumes "key_of ks p \<notin> set aff" "hit = filter (\<lambda>r. key_of ks r = key_of ks p) t" "hit \<noteq> []"
  shows "\<exists>aff'. set aff' \<subseteq> insert (key_of ks p) (set aff) \<and> upsert_rows ks us aff t (p # ps)
     = upsert_rows ks us aff' (map (\<lambda>r. if key_of ks r = key_of ks p then overwrite us p r else r) t) ps"
proof -
  let ?t = "map (\<lambda>r. if key_of ks r = key_of ks p then overwrite us p r else r) t"
  have same: "?t = t" if "\<forall>r \<in> set hit. \<not> differs us r p"
    using that assms(2) by (intro map_idI) (simp add: overwrite_same)
  have nil: "us = [] \<Longrightarrow> \<forall>r \<in> set hit. \<not> differs us r p" by (simp add: differs_def)
  show ?thesis
  proof (cases "us \<noteq> [] \<and> (\<exists>r \<in> set hit. differs us r p)")
    case True
    then show ?thesis using assms by (intro exI [of _ "key_of ks p # aff"]) (simp add: Let_def)
  next
    case False
    then have "?t = t" using same nil by blast
    then show ?thesis using False assms by (intro exI [of _ aff]) (auto simp: Let_def)
  qed
qed

lemma upsert_closed:
  assumes "distinct (map (key_of ks) ps)" "set aff \<inter> key_of ks ` set ps = {}" "set us \<inter> set ks = {}"
  shows "upsert_rows ks us aff t ps = Inr (map (upserted ks us ps) t @ filter (\<lambda>p. key_of ks p \<notin> key_of ks ` set t) ps)"
  using assms
proof (induction ps arbitrary: aff t)
  case Nil
  show ?case by (simp add: upserted_def)
next
  case (Cons p ps)
  let ?k = "key_of ks p"
  have fresh: "?k \<notin> key_of ks ` set ps" "distinct (map (key_of ks) ps)" "?k \<notin> set aff"
    using Cons.prems by auto
  show ?case
  proof (cases "filter (\<lambda>r. key_of ks r = ?k) t = []")
    case True
    then have no: "?k \<notin> key_of ks ` set t" by (auto simp: filter_empty_conv)
    have "upsert_rows ks us aff t (p # ps) = upsert_rows ks us (?k # aff) (t @ [p]) ps" using True by (simp add: Let_def)
    also have "\<dots> = Inr (map (upserted ks us ps) (t @ [p]) @ filter (\<lambda>q. key_of ks q \<notin> key_of ks ` set (t @ [p])) ps)"
      using Cons.prems fresh by (intro Cons.IH) auto
    also have "filter (\<lambda>q. key_of ks q \<notin> key_of ks ` set (t @ [p])) ps = filter (\<lambda>q. key_of ks q \<notin> key_of ks ` set t) ps"
      using fresh(1) by (intro filter_cong refl) (auto, metis imageI)
    also have "map (upserted ks us ps) (t @ [p]) = map (upserted ks us (p # ps)) t @ [p]"
      using no fresh(1) by (auto simp: upserted_Cons upserted_none)
    finally show ?thesis using no by simp
  next
    case False
    let ?t = "map (\<lambda>r. if key_of ks r = ?k then overwrite us p r else r) t"
    obtain aff' where aff': "set aff' \<subseteq> insert ?k (set aff)" "upsert_rows ks us aff t (p # ps) = upsert_rows ks us aff' ?t ps"
      using upsert_step [OF fresh(3) refl False] by blast
    have keys: "key_of ks ` set ?t = key_of ks ` set t"
      using Cons.prems(3) by (intro set_map_key) (simp add: overwrite_key)
    have hit: "?k \<in> key_of ks ` set t" using False by (auto simp: filter_empty_conv) (metis imageI)
    have "set aff' \<inter> key_of ks ` set ps = {}" using disjoint_step [OF aff'(1) fresh(1)] Cons.prems(2) unfolding list.set image_insert .
    then have "upsert_rows ks us aff' ?t ps = Inr (map (upserted ks us ps) ?t @ filter (\<lambda>q. key_of ks q \<notin> key_of ks ` set ?t) ps)"
      using Cons.prems(3) fresh(2) by (intro Cons.IH)
    also have "map (upserted ks us ps) ?t = map (upserted ks us (p # ps)) t"
      using Cons.prems(3) fresh(1) by (auto simp: upserted_Cons overwrite_key upserted_none)
    finally show ?thesis using aff'(2) keys hit by simp
  qed
qed

subsubsection \<open>The whole replacement\<close>

lemma insert_view_rows_steps:
  assumes "insert_view_rows fails d cs rows fp t = Inr t'" "rows \<noteq> []"
  obtains staged t1 where
    "staged = map (\<lambda>r. staged_row d (select_columns cs @ [fingerprint_column]) (r @ [StrV fp])) rows"
    "\<forall>r \<in> set rows. length r = length cs" "distinct (select_columns cs @ [fingerprint_column])"
    "upsert_rows (primary_key cs) (update_columns cs) [] t staged = Inr t1"
    "t' = delete_stale (primary_key cs) fp staged t1"
proof -
  let ?bs = "row_batches (row_batch_size cs) (map (\<lambda>r. r @ [StrV fp]) rows)"
  have size: "row_batch_size cs \<noteq> 0" using assms by (auto simp: insert_view_rows_def Let_def split: option.splits if_splits)
  obtain staged t1 where st: "stage_rows fails d (select_columns cs @ [fingerprint_column]) (primary_key cs) 1 ?bs = Inr staged"
    and t1: "upsert_rows (primary_key cs) (update_columns cs) [] t staged = Inr t1" "t' = delete_stale (primary_key cs) fp staged t1"
    using assms by (auto simp: insert_view_rows_def Let_def and_then_Inr_iff split: option.splits if_splits)
  have all: "concat ?bs = map (\<lambda>r. r @ [StrV fp]) rows" using size by (simp add: concat_batches)
  have staged: "staged = map (staged_row d (select_columns cs @ [fingerprint_column])) (concat ?bs)"
    "\<forall>vals \<in> set (concat ?bs). length vals = length (select_columns cs @ [fingerprint_column]) \<and> distinct (select_columns cs @ [fingerprint_column])"
    using stage_rows_Inr [OF st] by simp_all
  have "\<forall>r \<in> set rows. length r = length cs \<and> distinct (select_columns cs @ [fingerprint_column])"
    using staged(2) unfolding all by (auto simp: select_columns_def)
  then show thesis using that [OF _ _ _ t1] staged(1) assms(2) unfolding all by (fastforce simp: comp_def)
qed

definition view_row :: "'f view_row \<Rightarrow> column_def list \<Rightarrow> string \<Rightarrow> 'f any_value list \<Rightarrow> 'f view_row" where
  "view_row d cs fp r = staged_row d (select_columns cs @ [fingerprint_column]) (r @ [StrV fp])"

text \<open>Rows that give each column a value, and columns that are named once.\<close>

definition rows_fit :: "column_def list \<Rightarrow> 'f any_value list list \<Rightarrow> bool" where
  "rows_fit cs rows \<longleftrightarrow> (\<forall>r \<in> set rows. length r = length cs) \<and> distinct (select_columns cs @ [fingerprint_column])"

lemma view_row_nth:
  assumes "rows_fit cs rows" "r \<in> set rows" "i < Suc (length cs)"
  shows "view_row d cs fp r ((select_columns cs @ [fingerprint_column]) ! i) = (r @ [StrV fp]) ! i"
proof -
  have "map_of (zip (select_columns cs @ [fingerprint_column]) (r @ [StrV fp])) ((select_columns cs @ [fingerprint_column]) ! i)
        = Some ((r @ [StrV fp]) ! i)"
    using assms unfolding rows_fit_def by (intro map_of_zip_nth) (simp_all add: select_columns_def)
  then show ?thesis by (simp add: view_row_def staged_row_def)
qed

lemma view_row_fingerprint:
  assumes "rows_fit cs rows" "r \<in> set rows"
  shows "view_row d cs fp r fingerprint_column = StrV fp"
proof -
  have "length r = length cs" using assms by (simp add: rows_fit_def)
  then show ?thesis using view_row_nth [OF assms, of "length cs"] by (simp add: nth_append select_columns_def)
qed

lemma view_row_values:
  assumes "rows_fit cs rows" "r \<in> set rows"
  shows "map (view_row d cs fp r) (select_columns cs) = r"
proof (rule nth_equalityI)
  have len: "length r = length cs" using assms by (simp add: rows_fit_def)
  then show "length (map (view_row d cs fp r) (select_columns cs)) = length r" by (simp add: select_columns_def)
  fix i assume "i < length (map (view_row d cs fp r) (select_columns cs))"
  then have i: "i < length cs" by (simp add: select_columns_def)
  then show "map (view_row d cs fp r) (select_columns cs) ! i = r ! i"
    using view_row_nth [OF assms, of i] len by (simp add: nth_append select_columns_def)
qed

lemma key_columns:
  "set (select_columns cs) \<subseteq> set (update_columns cs) \<union> set (primary_key cs)"
  "distinct (select_columns cs @ [fingerprint_column]) \<Longrightarrow> set (update_columns cs) \<inter> set (primary_key cs) = {}"
  "fingerprint_column \<in> set (primary_key cs)"
  "set (update_columns cs) \<subseteq> set (select_columns cs)"
proof -
  show "set (select_columns cs) \<subseteq> set (update_columns cs) \<union> set (primary_key cs)"
    by (auto simp: select_columns_def update_columns_def primary_key_def)
  show "set (update_columns cs) \<inter> set (primary_key cs) = {}" if "distinct (select_columns cs @ [fingerprint_column])"
    using that unfolding select_columns_def update_columns_def primary_key_def by (auto simp: distinct_map inj_on_def)
qed (auto simp: primary_key_def update_columns_def select_columns_def)

lemma key_of_eqD: "key_of ks r = key_of ks r' \<Longrightarrow> c \<in> set ks \<Longrightarrow> r c = r' c"
  by (simp add: key_of_def)

lemma rows_fit_distinct: "rows_fit cs rows \<Longrightarrow> distinct (select_columns cs @ [fingerprint_column])"
  by (simp add: rows_fit_def)

lemma staged_fingerprint: "rows_fit cs rows \<Longrightarrow> p \<in> view_row d cs fp ` set rows \<Longrightarrow> p fingerprint_column = StrV fp"
  using view_row_fingerprint by blast

text \<open>Rows of other requests have other keys, so they are neither updated nor deleted.\<close>

lemma other_key:
  assumes "rows_fit cs rows" "r fingerprint_column \<noteq> StrV fp"
  shows "key_of (primary_key cs) r \<notin> key_of (primary_key cs) ` view_row d cs fp ` set rows"
proof
  assume "key_of (primary_key cs) r \<in> key_of (primary_key cs) ` view_row d cs fp ` set rows"
  then obtain p where p: "p \<in> view_row d cs fp ` set rows" "key_of (primary_key cs) r = key_of (primary_key cs) p" by blast
  then show False using key_of_eqD [OF p(2) key_columns(3)] staged_fingerprint [OF assms(1) p(1)] assms(2) by simp
qed

lemma upserted_fingerprint:
  "rows_fit cs rows \<Longrightarrow> upserted (primary_key cs) (update_columns cs) ps r fingerprint_column = r fingerprint_column"
  using key_of_eqD [OF upserted_key [OF key_columns(2) [OF rows_fit_distinct]] key_columns(3)] by blast

lemma upserted_other:
  "rows_fit cs rows \<Longrightarrow> r fingerprint_column \<noteq> StrV fp \<Longrightarrow>
   upserted (primary_key cs) (update_columns cs) (map (view_row d cs fp) rows) r = r"
  by (rule upserted_none) (simp only: set_map, rule other_key)

lemma upserted_values:
  assumes "p \<in> view_row d cs fp ` set rows" "key_of (primary_key cs) p = key_of (primary_key cs) r"
    "inj_on (key_of (primary_key cs)) (view_row d cs fp ` set rows)"
  shows "map (upserted (primary_key cs) (update_columns cs) (map (view_row d cs fp) rows) r) (select_columns cs)
       = map p (select_columns cs)"
proof -
  obtain q where q: "find (\<lambda>q. key_of (primary_key cs) q = key_of (primary_key cs) r) (map (view_row d cs fp) rows) = Some q"
    using assms(1,2) by (cases "find (\<lambda>q. key_of (primary_key cs) q = key_of (primary_key cs) r) (map (view_row d cs fp) rows)")
      (auto simp: find_None_iff)
  then have "q \<in> view_row d cs fp ` set rows" "key_of (primary_key cs) q = key_of (primary_key cs) r"
    by (auto simp: find_Some_iff)
  then have "q = p" using assms inj_onD [OF assms(3), of q p] by simp
  have "overwrite (update_columns cs) p r c = p c" if "c \<in> set (select_columns cs)" for c
    using subsetD [OF key_columns(1) that] key_of_eqD [OF assms(2), of c] by (auto simp: overwrite_def)
  then show ?thesis by (simp add: upserted_def q \<open>q = p\<close>)
qed

text \<open>The table after the upsert of rows with different keys.\<close>

lemma upserted_table:
  assumes "rows_fit cs rows" "distinct (map (key_of (primary_key cs)) (map (view_row d cs fp) rows))"
  shows "upsert_rows (primary_key cs) (update_columns cs) [] t (map (view_row d cs fp) rows)
    = Inr (map (upserted (primary_key cs) (update_columns cs) (map (view_row d cs fp) rows)) t
        @ filter (\<lambda>p. key_of (primary_key cs) p \<notin> key_of (primary_key cs) ` set t) (map (view_row d cs fp) rows))"
  using assms(2) key_columns(2) [OF rows_fit_distinct [OF assms(1)]] by (intro upsert_closed) simp_all

definition mine :: "string \<Rightarrow> 'f view_row \<Rightarrow> bool" where
  "mine fp r \<longleftrightarrow> r fingerprint_column = StrV fp"

lemma others_kept:
  assumes "rows_fit cs rows"
  shows "filter (\<lambda>r. \<not> mine fp r) (delete_stale (primary_key cs) fp staged
      (map (upserted (primary_key cs) (update_columns cs) (map (view_row d cs fp) rows)) t @ filter P (map (view_row d cs fp) rows)))
    = filter (\<lambda>r. \<not> mine fp r) t"
proof -
  let ?u = "upserted (primary_key cs) (update_columns cs) (map (view_row d cs fp) rows)"
  have stale: "filter (\<lambda>r. \<not> mine fp r) (delete_stale ks fp staged xs) = filter (\<lambda>r. \<not> mine fp r) xs" for xs ks
    by (auto simp: delete_stale_def mine_def intro: filter_cong)
  have new: "filter (\<lambda>r. \<not> mine fp r) (filter P (map (view_row d cs fp) rows)) = []"
    using staged_fingerprint [OF assms] by (simp add: filter_empty_conv mine_def)
  have "filter (\<lambda>r. \<not> mine fp r) (map ?u t) = map ?u (filter (\<lambda>r. \<not> mine fp r) t)"
    unfolding filter_map comp_def mine_def upserted_fingerprint [OF assms] by (rule refl)
  also have "\<dots> = filter (\<lambda>r. \<not> mine fp r) t"
    using upserted_other [OF assms] by (intro map_idI) (simp add: mine_def)
  finally show ?thesis by (simp only: stale filter_append new append_Nil2)
qed

lemma mine_replaced:
  assumes "rows_fit cs rows" "distinct (map (key_of (primary_key cs)) (map (view_row d cs fp) rows))"
  shows "(\<lambda>r. map r (select_columns cs)) ` {r \<in> set (delete_stale (primary_key cs) fp (map (view_row d cs fp) rows)
      (map (upserted (primary_key cs) (update_columns cs) (map (view_row d cs fp) rows)) t
        @ filter (\<lambda>p. key_of (primary_key cs) p \<notin> key_of (primary_key cs) ` set t) (map (view_row d cs fp) rows))). mine fp r}
    = set rows"
proof -
  let ?ks = "primary_key cs" and ?S = "view_row d cs fp ` set rows"
  let ?u = "upserted ?ks (update_columns cs) (map (view_row d cs fp) rows)"
  let ?new = "filter (\<lambda>p. key_of ?ks p \<notin> key_of ?ks ` set t) (map (view_row d cs fp) rows)"
  have inj: "inj_on (key_of ?ks) ?S" using assms(2) by (simp only: distinct_map set_map)
  have ukey: "key_of ?ks (?u r) = key_of ?ks r" for r
    by (rule upserted_key [OF key_columns(2) [OF rows_fit_distinct [OF assms(1)]]])
  have vals: "map (?u r) (select_columns cs) \<in> set rows" if "p \<in> ?S" "key_of ?ks r = key_of ?ks p" for r p
  proof -
    have pS: "p \<in> ?S" and key: "key_of ?ks p = key_of ?ks r" using that by simp_all
    then obtain v where v: "v \<in> set rows" "p = view_row d cs fp v" by blast
    have "map (?u r) (select_columns cs) = map p (select_columns cs)" by (rule upserted_values [OF pS key inj])
    also have "\<dots> = v" using view_row_values [OF assms(1) v(1)] by (simp only: v(2))
    finally show ?thesis using v(1) by simp
  qed
  have into: "map r (select_columns cs) \<in> set rows"
    if r: "r \<in> set (delete_stale ?ks fp (map (view_row d cs fp) rows) (map ?u t @ ?new))" "mine fp r" for r
  proof -
    obtain p where p: "p \<in> ?S" "key_of ?ks r = key_of ?ks p" using r by (auto simp: delete_stale_def mine_def)
    from r(1) consider r0 where "r0 \<in> set t" "r = ?u r0" | "r \<in> ?S" by (auto simp: delete_stale_def)
    then show ?thesis
    proof cases
      case 1 then show ?thesis using vals [OF p(1), of r0] p(2) by (simp add: ukey)
    next
      case 2 then show ?thesis using view_row_values [OF assms(1)] by auto
    qed
  qed
  moreover have "v \<in> (\<lambda>r. map r (select_columns cs)) ` {r \<in> set (delete_stale ?ks fp (map (view_row d cs fp) rows) (map ?u t @ ?new)). mine fp r}"
    if v: "v \<in> set rows" for v
  proof -
    let ?p = "view_row d cs fp v"
    have p: "?p \<in> ?S" "mine fp ?p" using v staged_fingerprint [OF assms(1)] by (auto simp: mine_def)
    obtain r where r: "r \<in> set (map ?u t @ ?new)" "key_of ?ks r = key_of ?ks ?p" "map r (select_columns cs) = map ?p (select_columns cs)"
    proof (cases "key_of ?ks ?p \<in> key_of ?ks ` set t")
      case True
      then obtain r0 where r0: "r0 \<in> set t" "key_of ?ks r0 = key_of ?ks ?p" by force
      show ?thesis using that [of "?u r0"] r0 ukey upserted_values [OF p(1) r0(2) [symmetric] inj] by simp
    next
      case False then show ?thesis using that [of ?p] v by auto
    qed
    have m: "mine fp r" using key_of_eqD [OF r(2) key_columns(3)] p(2) by (simp add: mine_def)
    have "r \<in> set (delete_stale ?ks fp (map (view_row d cs fp) rows) (map ?u t @ ?new))"
      using r p(1) unfolding delete_stale_def by fastforce
    moreover have "map r (select_columns cs) = v" using r(3) view_row_values [OF assms(1) v] by simp
    ultimately show ?thesis using m by blast
  qed
  ultimately show ?thesis by blast
qed

lemma keys_unique:
  assumes "rows_fit cs rows" "distinct (map (key_of (primary_key cs)) (map (view_row d cs fp) rows))"
    "distinct (map (key_of (primary_key cs)) t)"
  shows "distinct (map (key_of (primary_key cs)) (delete_stale (primary_key cs) fp (map (view_row d cs fp) rows)
      (map (upserted (primary_key cs) (update_columns cs) (map (view_row d cs fp) rows)) t
        @ filter (\<lambda>p. key_of (primary_key cs) p \<notin> key_of (primary_key cs) ` set t) (map (view_row d cs fp) rows))))"
proof -
  let ?k = "key_of (primary_key cs)" and ?u = "upserted (primary_key cs) (update_columns cs) (map (view_row d cs fp) rows)"
  have ukey: "?k (?u r) = ?k r" for r
    by (rule upserted_key [OF key_columns(2) [OF rows_fit_distinct [OF assms(1)]]])
  have "distinct (map ?k (map ?u t))" using assms(3) by (simp add: comp_def ukey)
  moreover have "distinct (map ?k (filter (\<lambda>p. ?k p \<notin> ?k ` set t) (map (view_row d cs fp) rows)))"
    using assms(2) by (rule distinct_map_filter)
  moreover have "set (map ?k (map ?u t)) = ?k ` set t" by (auto simp: ukey image_iff)
  moreover have "set (map ?k (filter (\<lambda>p. ?k p \<notin> ?k ` set t) ps)) \<inter> ?k ` set t = {}" for ps by auto
  ultimately have "distinct (map ?k (map ?u t @ filter (\<lambda>p. ?k p \<notin> ?k ` set t) (map (view_row d cs fp) rows)))"
    unfolding map_append distinct_append by (metis inf_commute)
  then show ?thesis unfolding delete_stale_def by (rule distinct_map_filter)
qed

lemma kept_columns:
  assumes "rows_fit cs rows" "distinct (map (key_of (primary_key cs)) (map (view_row d cs fp) rows))"
    "distinct (map (key_of (primary_key cs)) t)"
    "r \<in> set t" "r' \<in> set (map (upserted (primary_key cs) (update_columns cs) (map (view_row d cs fp) rows)) t
        @ filter (\<lambda>p. key_of (primary_key cs) p \<notin> key_of (primary_key cs) ` set t) (map (view_row d cs fp) rows))"
    "key_of (primary_key cs) r' = key_of (primary_key cs) r" "c \<notin> set (select_columns cs)"
  shows "r' c = r c"
proof -
  let ?k = "key_of (primary_key cs)" and ?u = "upserted (primary_key cs) (update_columns cs) (map (view_row d cs fp) rows)"
  have ukey: "?k (?u r) = ?k r" for r
    by (rule upserted_key [OF key_columns(2) [OF rows_fit_distinct [OF assms(1)]]])
  have "?k r' \<in> ?k ` set t" using assms(4,6) by (simp only: image_eqI)
  then obtain r0 where r0: "r0 \<in> set t" "r' = ?u r0" using assms(5) by auto
  have "r0 = r" using assms(3,4,6) r0 ukey by (simp add: distinct_map inj_on_def)
  moreover have "c \<notin> set (update_columns cs)" using assms(7) key_columns(4) by blast
  ultimately show ?thesis using r0(2) by (simp add: upserted_def overwrite_def split: option.splits)
qed

text \<open>Nothing fails: rows that fit, without nulls in the key and with different keys, of a view that has
  fewer columns than a statement has parameters.\<close>

lemma stage_rows_ok:
  assumes "\<forall>i. fails i = None" "distinct ns"
    "\<forall>vals \<in> set (concat bs). length vals = length ns \<and> NilV \<notin> set (key_of ks (staged_row d ns vals))"
  shows "stage_rows fails d ns ks i bs = Inr (map (staged_row d ns) (concat bs))"
  using assms(3)
proof (induction bs arbitrary: i)
  case (Cons b bs)
  have "stage_batch d ns ks b = Inr (map (staged_row d ns) b)" using Cons.prems assms(2) by (simp add: stage_batch_def)
  then show ?case using Cons assms(1) by simp
qed simp

lemma insert_view_rows_succeeds:
  assumes "\<forall>i. fails i = None" "rows_fit cs rows" "length cs < max_params"
    "\<forall>r \<in> set rows. NilV \<notin> set (key_of (primary_key cs) (view_row d cs fp r))"
    "distinct (map (key_of (primary_key cs)) (map (view_row d cs fp) rows))"
  shows "\<exists>t'. insert_view_rows fails d cs rows fp t = Inr t'"
proof (cases "rows = []")
  case False
  let ?names = "select_columns cs @ [fingerprint_column]" and ?bs = "row_batches (row_batch_size cs) (map (\<lambda>r. r @ [StrV fp]) rows)"
  have size: "\<not> row_batch_size cs < 1" using assms(3) by (simp add: row_batch_size_def div_eq_0_iff)
  then have all: "concat ?bs = map (\<lambda>r. r @ [StrV fp]) rows" by (simp add: concat_batches)
  have "stage_rows fails d ?names (primary_key cs) 1 ?bs = Inr (map (staged_row d ?names) (concat ?bs))"
  proof (rule stage_rows_ok [OF assms(1)])
    show "distinct ?names" using assms(2) by (simp add: rows_fit_def)
    show "\<forall>vals \<in> set (concat ?bs). length vals = length ?names \<and> NilV \<notin> set (key_of (primary_key cs) (staged_row d ?names vals))"
      using assms(2,4) unfolding all by (auto simp: rows_fit_def view_row_def select_columns_def)
  qed
  then have "stage_rows fails d ?names (primary_key cs) 1 ?bs = Inr (map (view_row d cs fp) rows)"
    unfolding all by (simp add: comp_def view_row_def)
  then show ?thesis using False size assms(1) upserted_table [OF assms(2,5)] by (simp add: insert_view_rows_def Let_def)
qed (use assms(1) in \<open>simp add: insert_view_rows_def\<close>)

text \<open>C28: After the rows of a request are replaced, the table holds for that request exactly the given rows,
  one row for each key; the rows of every other request are as they were, in place; and the columns that a
  view does not define, such as the mark of rows that were pushed, keep their values in rows that stay.\<close>

theorem insert_view_rows_correct:
  assumes "insert_view_rows fails d cs rows fp t = Inr t'" "rows \<noteq> []"
    and "distinct (map (\<lambda>r. key_of (primary_key cs) (view_row d cs fp r)) rows)"
    and "distinct (map (key_of (primary_key cs)) t)"
  shows "filter (\<lambda>r. r fingerprint_column \<noteq> StrV fp) t' = filter (\<lambda>r. r fingerprint_column \<noteq> StrV fp) t
    \<and> (\<lambda>r. map r (select_columns cs)) ` {r \<in> set t'. r fingerprint_column = StrV fp} = set rows
    \<and> distinct (map (key_of (primary_key cs)) t')
    \<and> (\<forall>r \<in> set t. \<forall>r' \<in> set t'. \<forall>c. key_of (primary_key cs) r' = key_of (primary_key cs) r \<and> c \<notin> set (select_columns cs) \<longrightarrow> r' c = r c)"
proof -
  let ?staged = "map (view_row d cs fp) rows"
  let ?u = "upserted (primary_key cs) (update_columns cs) ?staged"
  obtain staged t1 where st: "staged = ?staged" "rows_fit cs rows" "upsert_rows (primary_key cs) (update_columns cs) [] t staged = Inr t1"
    "t' = delete_stale (primary_key cs) fp staged t1"
    using insert_view_rows_steps [OF assms(1,2)] unfolding view_row_def rows_fit_def by blast
  have keys: "distinct (map (key_of (primary_key cs)) ?staged)" using assms(3) by (simp only: map_map comp_def)
  have t1: "t1 = map ?u t @ filter (\<lambda>p. key_of (primary_key cs) p \<notin> key_of (primary_key cs) ` set t) ?staged"
    using st(3) upserted_table [OF st(2) keys] by (simp add: st(1))
  have "r' c = r c" if "r \<in> set t" "r' \<in> set t'" "key_of (primary_key cs) r' = key_of (primary_key cs) r" "c \<notin> set (select_columns cs)" for r r' c
    using kept_columns [OF st(2) keys assms(4), of r r' c] that t1 st(1,4) by (simp add: delete_stale_def)
  then show ?thesis
    using others_kept [OF st(2)] mine_replaced [OF st(2) keys] keys_unique [OF st(2) keys assms(4)]
    unfolding mine_def st(4) t1 st(1) by blast
qed

definition sample_columns :: "column_def list" where
  "sample_columns = [\<lparr>cd_name = ''pod'', cd_primary = True, cd_type = VString\<rparr>, \<lparr>cd_name = ''restarts'', cd_primary = False, cd_type = VNumber\<rparr>]"

definition sample_view_rows :: "unit any_value list list" where
  "sample_view_rows = [[StrV ''web'', IntV 2], [StrV ''db'', IntV 0]]"

lemma sample_insert: "\<exists>t'. insert_view_rows (\<lambda>i. None) (\<lambda>c. NilV) sample_columns sample_view_rows ''f1'' [] = Inr t'"
proof (rule insert_view_rows_succeeds)
  show "rows_fit sample_columns sample_view_rows" by code_simp
  show "\<forall>r \<in> set sample_view_rows. NilV \<notin> set (key_of (primary_key sample_columns) (view_row (\<lambda>c. NilV) sample_columns ''f1'' r))"
    by code_simp
  show "distinct (map (key_of (primary_key sample_columns)) (map (view_row (\<lambda>c. NilV) sample_columns ''f1'') sample_view_rows))"
    by code_simp
qed (simp_all add: sample_columns_def max_params_def)

lemma insert_view_rows_correct_witness:
  "\<exists>t'. insert_view_rows (\<lambda>i. None) (\<lambda>c. NilV) sample_columns sample_view_rows ''f1'' [] = Inr t'
     \<and> (\<lambda>r. map r (select_columns sample_columns)) ` {r \<in> set t'. r fingerprint_column = StrV ''f1''} = set sample_view_rows"
proof -
  obtain t' where t': "insert_view_rows (\<lambda>i. None) (\<lambda>c. NilV) sample_columns sample_view_rows ''f1'' [] = Inr t'"
    using sample_insert by blast
  have "sample_view_rows \<noteq> []" by (simp add: sample_view_rows_def)
  moreover have "distinct (map (\<lambda>r. key_of (primary_key sample_columns) (view_row (\<lambda>c. NilV) sample_columns ''f1'' r)) sample_view_rows)"
    by code_simp
  ultimately show ?thesis using insert_view_rows_correct [OF t'] t' by simp
qed

end
