(* ===== verification/Upstream_Push.thy ===== *)
theory Upstream_Push
  imports View_Tables "HOL-Library.Multiset"
begin

section \<open>Rows that are pushed upstream\<close>

text \<open>
  An agent sends the rows of its tables to an upstream server (\<^verbatim>\<open>upstream/upstream.go\<close>): the message, how
  rows are sorted into it, and what the receiver changes in it; and the part of the tables
  (\<^verbatim>\<open>models/config.go\<close>, \<^verbatim>\<open>models/checks.go\<close>, \<^verbatim>\<open>models/components.go\<close>, \<^verbatim>\<open>models/view.go\<close> and others) that
  selects the rows that were not pushed, marks those that were, and marks the parents of rows that
  failed. A row keeps the columns that this code reads or writes; the others are one opaque text.
\<close>

subsection \<open>Rows\<close>

record canary_row = cn_id :: string cn_agent :: string cn_labels :: "(string, string) gomap" cn_data :: string
record check_row = ck_id :: string ck_canary :: string ck_agent :: string ck_labels :: "(string, string) gomap" ck_data :: string
record component_row =
  cp_id :: string cp_agent :: string cp_topology :: "string option" cp_parent :: "string option" cp_path :: string
  cp_labels :: "(string, string) gomap" cp_data :: string
record scraper_row = sr_id :: string sr_agent :: string sr_data :: string
record analysis_row = an_id :: string an_config :: string an_data :: string
record change_row = ch_id :: string ch_config :: string ch_data :: string
record config_row =
  cf_id :: string cf_agent :: string cf_type :: "string option" cf_name :: "string option" cf_scraper :: "string option"
  cf_parent :: "string option" cf_path :: "string" cf_data :: string
record check_status_row = cs_check :: string cs_time :: string cs_data :: string
record config_relation_row =
  cr_config :: string cr_related :: string cr_relation :: string cr_scraper :: "string option" cr_data :: string
record component_relation_row = rl_component :: string rl_related :: string rl_selector :: string rl_data :: string
record config_component_row = cc_component :: string cc_config :: string cc_data :: string
record check_config_row = kc_config :: string kc_check :: string kc_canary :: string kc_selector :: string kc_data :: string
record last_scraped_row = ls_config :: string ls_data :: string
record unlogged_row = ul_check :: string ul_canary :: string ul_data :: string
record topology_row = tp_id :: string tp_agent :: string tp_labels :: "(string, string) gomap" tp_data :: string
record action_row = pa_id :: string pa_data :: string
record artifact_row = ar_id :: string ar_data :: string
record history_row = jr_id :: string jr_agent :: string jr_status :: string jr_data :: string
record panel_row = vp_view :: string vp_fingerprint :: string vp_agent :: string vp_data :: string
record 'f generated_row = vr_table :: string vr_keys :: "string list" vr_row :: "(string, 'f any_value) gomap"
record check_component_row = kp_component :: string kp_check :: string kp_canary :: string kp_selector :: string kp_data :: string

datatype 'f db_item =
    Canary canary_row | Check check_row | Component component_row | ConfigScraper scraper_row | ConfigAnalysis analysis_row
  | ConfigChange change_row | ConfigItem config_row | CheckStatus check_status_row | ConfigRelationship config_relation_row
  | ComponentRelationship component_relation_row | ConfigComponentRelationship config_component_row
  | CheckConfigRelationship check_config_row | ConfigItemLastScrapedTime last_scraped_row | ChecksUnlogged unlogged_row
  | TopologyRow topology_row | PlaybookRunAction action_row | ArtifactRow artifact_row | JobHistoryRow history_row
  | ViewPanel panel_row | GeneratedViewRow "'f generated_row" | CheckComponentRelationship check_component_row

abbreviation zero_uuid :: string where
  "zero_uuid \<equiv> ''00000000-0000-0000-0000-000000000000''"

text \<open>\<^verbatim>\<open>TableName\<close>\<close>

fun table_name :: "'f db_item \<Rightarrow> string" where
  "table_name (Canary r) = ''canaries''"
| "table_name (Check r) = ''checks''"
| "table_name (Component r) = ''components''"
| "table_name (ConfigScraper r) = ''config_scrapers''"
| "table_name (ConfigAnalysis r) = ''config_analysis''"
| "table_name (ConfigChange r) = ''config_changes''"
| "table_name (ConfigItem r) = ''config_items''"
| "table_name (CheckStatus r) = ''check_statuses''"
| "table_name (ConfigRelationship r) = ''config_relationships''"
| "table_name (ComponentRelationship r) = ''component_relationships''"
| "table_name (ConfigComponentRelationship r) = ''config_component_relationships''"
| "table_name (CheckConfigRelationship r) = ''check_config_relationships''"
| "table_name (ConfigItemLastScrapedTime r) = ''config_items_last_scraped_time''"
| "table_name (ChecksUnlogged r) = ''checks_unlogged''"
| "table_name (TopologyRow r) = ''topologies''"
| "table_name (PlaybookRunAction r) = ''playbook_run_actions''"
| "table_name (ArtifactRow r) = ''artifacts''"
| "table_name (JobHistoryRow r) = ''job_history''"
| "table_name (ViewPanel r) = ''view_panels''"
| "table_name (GeneratedViewRow r) = vr_table r"
| "table_name (CheckComponentRelationship r) = ''check_component_relationships''"

text \<open>\<^verbatim>\<open>PK\<close>: what a row is called in a list of foreign key errors. An unset scraper prints as the zero id.\<close>

fun pk :: "'f db_item \<Rightarrow> string" where
  "pk (Canary r) = cn_id r"
| "pk (Check r) = ck_id r"
| "pk (Component r) = cp_id r"
| "pk (ConfigScraper r) = sr_id r"
| "pk (ConfigAnalysis r) = an_id r"
| "pk (ConfigChange r) = ch_id r"
| "pk (ConfigItem r) = cf_id r"
| "pk (CheckStatus r) = cs_check r @ cs_time r"
| "pk (ConfigRelationship r) = cr_related r @ '','' @ cr_config r @ '','' @ cr_relation r @ '',''
     @ (case cr_scraper r of Some s \<Rightarrow> s | None \<Rightarrow> zero_uuid)"
| "pk (ComponentRelationship r) = rl_component r @ '','' @ rl_related r @ '','' @ rl_selector r"
| "pk (ConfigComponentRelationship r) = cc_component r @ '','' @ cc_config r"
| "pk (CheckConfigRelationship r) = kc_config r @ '','' @ kc_check r @ '','' @ kc_canary r @ '','' @ kc_selector r"
| "pk (ConfigItemLastScrapedTime r) = ls_config r"
| "pk (ChecksUnlogged r) = ''check_id''"
| "pk (TopologyRow r) = tp_id r"
| "pk (PlaybookRunAction r) = pa_id r"
| "pk (ArtifactRow r) = ar_id r"
| "pk (JobHistoryRow r) = jr_id r"
| "pk (ViewPanel r) = (if vp_fingerprint r = [] then vp_view r else vp_view r @ '':'' @ vp_fingerprint r)"
| "pk (GeneratedViewRow r) = ''not-implemented''"
| "pk (CheckComponentRelationship r) = kp_component r @ '','' @ kp_check r @ '','' @ kp_canary r @ '','' @ kp_selector r"

subsection \<open>The agent's tables\<close>

text \<open>A table to push: one of the fixed tables, or the table of a view with its key columns and types.\<close>

datatype pushable = Table string | ViewTable string "string list" "(string, model_column) gomap"

fun pushable_name :: "pushable \<Rightarrow> string" where
  "pushable_name (Table n) = n"
| "pushable_name (ViewTable n ks cols) = n"

text \<open>The rows of all tables, each with its \<^verbatim>\<open>is_pushed\<close>.\<close>

type_synonym 'f agent_db = "('f db_item \<times> bool) list"

text \<open>The joins of the queries: whether the row a row refers to exists and has no agent, that is, was made by
  this installation.\<close>

definition local_check :: "'f agent_db \<Rightarrow> string \<Rightarrow> bool" where
  "local_check db i \<longleftrightarrow> (\<exists>x \<in> set db. case fst x of Check r \<Rightarrow> ck_id r = i \<and> ck_agent r = zero_uuid | _ \<Rightarrow> False)"

definition local_canary :: "'f agent_db \<Rightarrow> string \<Rightarrow> bool" where
  "local_canary db i \<longleftrightarrow> (\<exists>x \<in> set db. case fst x of Canary r \<Rightarrow> cn_id r = i \<and> cn_agent r = zero_uuid | _ \<Rightarrow> False)"

definition local_component :: "'f agent_db \<Rightarrow> string \<Rightarrow> bool" where
  "local_component db i \<longleftrightarrow> (\<exists>x \<in> set db. case fst x of Component r \<Rightarrow> cp_id r = i \<and> cp_agent r = zero_uuid | _ \<Rightarrow> False)"

definition local_config :: "'f agent_db \<Rightarrow> string \<Rightarrow> bool" where
  "local_config db i \<longleftrightarrow> (\<exists>x \<in> set db. case fst x of ConfigItem r \<Rightarrow> cf_id r = i \<and> cf_agent r = zero_uuid | _ \<Rightarrow> False)"

definition final_statuses :: "string list" where
  "final_statuses = [''FAILED'', ''WARNING'', ''SUCCESS'']"

text \<open>The conditions of \<^verbatim>\<open>GetUnpushed\<close> besides \<^verbatim>\<open>is_pushed\<close>.\<close>

fun pushes :: "'f agent_db \<Rightarrow> 'f db_item \<Rightarrow> bool" where
  "pushes db (ConfigScraper r) = (sr_id r \<noteq> zero_uuid)"
| "pushes db (ConfigAnalysis r) = local_config db (an_config r)"
| "pushes db (ConfigChange r) = local_config db (ch_config r)"
| "pushes db (CheckStatus r) = local_check db (cs_check r)"
| "pushes db (ConfigRelationship r) = local_config db (cr_config r)"
| "pushes db (ComponentRelationship r) = (local_component db (rl_component r) \<and> local_component db (rl_related r))"
| "pushes db (ConfigComponentRelationship r) = (local_component db (cc_component r) \<and> local_config db (cc_config r))"
| "pushes db (CheckConfigRelationship r) = local_config db (kc_config r)"
| "pushes db (ConfigItemLastScrapedTime r) = local_config db (ls_config r)"
| "pushes db (ChecksUnlogged r) = local_check db (ul_check r)"
| "pushes db (JobHistoryRow r) = (jr_status r \<in> set final_statuses)"
| "pushes db (CheckComponentRelationship r) = (local_component db (kp_component r) \<and> local_canary db (kp_canary r))"
| "pushes db _ = True"

text \<open>The order of components and config items: parents have shorter paths. Other tables have none, so their
  rows come in the order the database chooses, \<open>arrange\<close>.\<close>

fun order_key :: "'f db_item \<Rightarrow> nat" where
  "order_key (Component r) = length (cp_path r)"
| "order_key (ConfigItem r) = length (cf_path r)"
| "order_key _ = 0"

text \<open>The rows of a view are converted to native values, and are given the key of the table.\<close>

definition fetched :: "'f go_values \<Rightarrow> pushable \<Rightarrow> 'f db_item \<Rightarrow> 'f db_item" where
  "fetched g t i = (case (t, i) of
      (ViewTable n ks cols, GeneratedViewRow r) \<Rightarrow>
        GeneratedViewRow \<lparr>vr_table = n, vr_keys = ks,
          vr_row = (if cols \<noteq> [] then fst (convert_row_to_native_types g cols (vr_row r)) else vr_row r)\<rparr>
    | _ \<Rightarrow> i)"

definition unpushed :: "pushable \<Rightarrow> 'f agent_db \<Rightarrow> 'f db_item list" where
  "unpushed t db = map fst (filter (\<lambda>x. table_name (fst x) = pushable_name t \<and> \<not> snd x \<and> pushes db (fst x)) db)"

definition get_unpushed :: "'f go_values \<Rightarrow> ('f db_item list \<Rightarrow> 'f db_item list) \<Rightarrow> nat \<Rightarrow> pushable \<Rightarrow> 'f agent_db \<Rightarrow> 'f db_item list" where
  "get_unpushed g arrange n t db = map (fetched g t) (take n (sort_key order_key (arrange (unpushed t db))))"

text \<open>The columns \<^verbatim>\<open>UpdateIsPushed\<close> finds a row by. An unset scraper is found by a test for null; in a table of a
  view a null is equal to nothing. A cell is equal to the native value it was read as.\<close>

fun mark_key :: "pushable \<Rightarrow> 'f db_item \<Rightarrow> 'f any_value list" where
  "mark_key t (CheckStatus r) = [StrV (cs_check r), StrV (cs_time r)]"
| "mark_key t (ConfigRelationship r) = [StrV (cr_related r), StrV (cr_config r), StrV (cr_relation r),
     (case cr_scraper r of Some s \<Rightarrow> StrV s | None \<Rightarrow> NilV)]"
| "mark_key t (ComponentRelationship r) = [StrV (rl_component r), StrV (rl_related r), StrV (rl_selector r)]"
| "mark_key t (ConfigComponentRelationship r) = [StrV (cc_component r), StrV (cc_config r)]"
| "mark_key t (CheckConfigRelationship r) = [StrV (kc_config r), StrV (kc_check r), StrV (kc_canary r), StrV (kc_selector r)]"
| "mark_key t (CheckComponentRelationship r) = [StrV (kp_component r), StrV (kp_check r), StrV (kp_canary r), StrV (kp_selector r)]"
| "mark_key t (ConfigItemLastScrapedTime r) = [StrV (ls_config r)]"
| "mark_key t (ChecksUnlogged r) = [StrV (ul_check r)]"
| "mark_key t (ViewPanel r) = [StrV (vp_view r), StrV (vp_fingerprint r)]"
| "mark_key (ViewTable n ks cols) (GeneratedViewRow r) = map (\<lambda>k. case map_of (vr_row r) k of Some v \<Rightarrow> v | None \<Rightarrow> NilV) ks"
| "mark_key t i = [StrV (pk i)]"

definition null_free :: "pushable \<Rightarrow> 'f db_item \<Rightarrow> bool" where
  "null_free t i \<longleftrightarrow> (case i of GeneratedViewRow r \<Rightarrow> NilV \<notin> set (mark_key t i) | _ \<Rightarrow> True)"

definition marks :: "'f go_values \<Rightarrow> pushable \<Rightarrow> 'f db_item list \<Rightarrow> 'f db_item \<Rightarrow> bool" where
  "marks g t batch i \<longleftrightarrow> table_name i = pushable_name t \<and> null_free t (fetched g t i)
     \<and> mark_key t (fetched g t i) \<in> mark_key t ` set batch"

definition update_is_pushed :: "'f go_values \<Rightarrow> pushable \<Rightarrow> 'f db_item list \<Rightarrow> 'f agent_db \<Rightarrow> string + 'f agent_db" where
  "update_is_pushed g t batch db =
     (case t of
        ViewTable n [] cols \<Rightarrow> Inl (''cannot update is_pushed for table: '' @ n @ '', primary key is empty'')
      | _ \<Rightarrow> Inr (map (\<lambda>x. (fst x, snd x \<or> marks g t batch (fst x))) db))"

subsection \<open>Parents\<close>

text \<open>The statements of \<^verbatim>\<open>UpdateParentsIsPushed\<close>, a table and ids each; \<^term>\<open>None\<close> where it is not implemented.\<close>

definition some_ids :: "string \<Rightarrow> string list \<Rightarrow> (string \<times> string list) list" where
  "some_ids table ids = (if ids = [] then [] else [(table, ids)])"

definition field_of :: "('f db_item \<Rightarrow> string option) \<Rightarrow> 'f db_item list \<Rightarrow> string list" where
  "field_of f items = map (\<lambda>i. the (f i)) (filter (\<lambda>i. f i \<noteq> None) items)"

fun scraper_of :: "'f db_item \<Rightarrow> string option" where
  "scraper_of (ConfigItem r) = cf_scraper r" | "scraper_of _ = None"
fun parent_config_of :: "'f db_item \<Rightarrow> string option" where
  "parent_config_of (ConfigItem r) = cf_parent r" | "parent_config_of _ = None"
fun topology_of :: "'f db_item \<Rightarrow> string option" where
  "topology_of (Component r) = cp_topology r" | "topology_of _ = None"
fun parent_component_of :: "'f db_item \<Rightarrow> string option" where
  "parent_component_of (Component r) = cp_parent r" | "parent_component_of _ = None"
fun canary_of :: "'f db_item \<Rightarrow> string option" where
  "canary_of (Check r) = Some (ck_canary r)" | "canary_of _ = None"
fun check_of :: "'f db_item \<Rightarrow> string option" where
  "check_of (CheckStatus r) = Some (cs_check r)" | "check_of (ChecksUnlogged r) = Some (ul_check r)" | "check_of _ = None"
fun config_of :: "'f db_item \<Rightarrow> string option" where
  "config_of (ConfigChange r) = Some (ch_config r)"
| "config_of (ConfigAnalysis r) = Some (an_config r)"
| "config_of (ConfigItemLastScrapedTime r) = Some (ls_config r)"
| "config_of (ConfigRelationship r) = Some (cr_config r)"
| "config_of (ConfigComponentRelationship r) = Some (cc_config r)"
| "config_of _ = None"
fun related_config_of :: "'f db_item \<Rightarrow> string option" where
  "related_config_of (ConfigRelationship r) = Some (cr_related r)" | "related_config_of _ = None"
fun component_of :: "'f db_item \<Rightarrow> string option" where
  "component_of (ComponentRelationship r) = Some (rl_component r)"
| "component_of (ConfigComponentRelationship r) = Some (cc_component r)"
| "component_of _ = None"
fun related_component_of :: "'f db_item \<Rightarrow> string option" where
  "related_component_of (ComponentRelationship r) = Some (rl_related r)" | "related_component_of _ = None"

definition parent_updates :: "string \<Rightarrow> 'f db_item list \<Rightarrow> (string \<times> string list) list option" where
  "parent_updates table items =
     (if table = ''config_items'' then
        Some (some_ids ''config_scrapers'' (field_of scraper_of items) @ some_ids ''config_items'' (field_of parent_config_of items))
      else if table = ''components'' then
        Some (some_ids ''topologies'' (field_of topology_of items) @ some_ids ''components'' (field_of parent_component_of items))
      else if table = ''checks'' then Some [(''canaries'', field_of canary_of items)]
      else if table = ''check_statuses'' \<or> table = ''checks_unlogged'' then Some [(''checks'', field_of check_of items)]
      else if table = ''config_changes'' \<or> table = ''config_analysis'' \<or> table = ''config_items_last_scraped_time'' then
        Some [(''config_items'', field_of config_of items)]
      else if table = ''config_relationships'' then Some [(''config_items'', field_of config_of items @ field_of related_config_of items)]
      else if table = ''component_relationships'' then
        Some [(''components'', field_of component_of items @ field_of related_component_of items)]
      else if table = ''config_component_relationships'' then
        Some [(''components'', field_of component_of items), (''config_items'', field_of config_of items)]
      else None)"

definition reset_pushed :: "string \<times> string list \<Rightarrow> 'f agent_db \<Rightarrow> 'f agent_db" where
  "reset_pushed u db = map (\<lambda>x. (fst x, snd x \<and> \<not> (table_name (fst x) = fst u \<and> pk (fst x) \<in> set (snd u)))) db"

text \<open>The statements run one by one; \<open>fails\<close> gives those the database fails, by the table.\<close>

fun run_resets :: "(string \<Rightarrow> string option) \<Rightarrow> (string \<times> string list) list \<Rightarrow> 'f agent_db \<Rightarrow> string option \<times> 'f agent_db" where
  "run_resets fails [] db = (None, db)"
| "run_resets fails (u # us) db = (case fails (fst u) of Some e \<Rightarrow> (Some e, db) | None \<Rightarrow> run_resets fails us (reset_pushed u db))"

lemma reset_rows: "map fst (reset_pushed u db) = map fst db"
  by (simp add: reset_pushed_def comp_def)

lemma run_resets_rows: "map fst (snd (run_resets fails us db)) = map fst db"
  by (induction fails us db rule: run_resets.induct) (auto simp: reset_rows split: option.splits)

text \<open>Resetting never marks a row as pushed.\<close>

lemma run_resets_unpushed:
  "(i, True) \<in> set (snd (run_resets fails us db)) \<Longrightarrow> (i, True) \<in> set db"
  by (induction fails us db rule: run_resets.induct) (auto simp: reset_pushed_def split: option.splits)

lemma fetched_id: "(\<And>r. i \<noteq> GeneratedViewRow r) \<Longrightarrow> fetched g t i = i"
  by (cases i; cases t) (auto simp: fetched_def)

text \<open>Conversion of a row of a view is stable on the key, so marking the rows that were fetched marks them.\<close>

lemma update_marks_fetched:
  assumes "update_is_pushed g t (map (fetched g t) batch) db = Inr db'" "(i, p) \<in> set db" "i \<in> set batch"
    "table_name i = pushable_name t" "null_free t (fetched g t i)"
  shows "(i, True) \<in> set db'"
proof -
  have "db' = map (\<lambda>x. (fst x, snd x \<or> marks g t (map (fetched g t) batch) (fst x))) db"
    using assms(1) by (auto simp: update_is_pushed_def split: pushable.splits list.splits)
  moreover have "marks g t (map (fetched g t) batch) i" using assms(3-5) by (auto simp: marks_def)
  ultimately show ?thesis using assms(2) by (force intro!: image_eqI [of _ _ "(i, p)"])
qed

subsection \<open>The message\<close>

record 'f push_data =
  pd_canaries :: "canary_row list"
  pd_checks :: "check_row list"
  pd_components :: "component_row list"
  pd_scrapers :: "scraper_row list"
  pd_analysis :: "analysis_row list"
  pd_changes :: "change_row list"
  pd_configs :: "config_row list"
  pd_statuses :: "check_status_row list"
  pd_config_rels :: "config_relation_row list"
  pd_component_rels :: "component_relation_row list"
  pd_config_component_rels :: "config_component_row list"
  pd_check_config_rels :: "check_config_row list"
  pd_last_scraped :: "last_scraped_row list"
  pd_unlogged :: "unlogged_row list"
  pd_topologies :: "topology_row list"
  pd_actions :: "action_row list"
  pd_artifacts :: "artifact_row list"
  pd_history :: "history_row list"
  pd_panels :: "panel_row list"
  pd_views :: "(string, 'f generated_row list) gomap"

definition empty_push :: "'f push_data" where
  "empty_push = \<lparr>pd_canaries = [], pd_checks = [], pd_components = [], pd_scrapers = [], pd_analysis = [], pd_changes = [], pd_configs = [], pd_statuses = [], pd_config_rels = [], pd_component_rels = [], pd_config_component_rels = [], pd_check_config_rels = [], pd_last_scraped = [], pd_unlogged = [], pd_topologies = [], pd_actions = [], pd_artifacts = [], pd_history = [], pd_panels = [], pd_views = []\<rparr>"

text \<open>A row of a view goes to the rows of its table.\<close>

fun add_view_row :: "'f generated_row \<Rightarrow> (string, 'f generated_row list) gomap \<Rightarrow> (string, 'f generated_row list) gomap" where
  "add_view_row r [] = [(vr_table r, [r])]"
| "add_view_row r ((n, rs) # m) = (if n = vr_table r then (n, rs @ [r]) # m else (n, rs) # add_view_row r m)"

text \<open>The switch over the type of a record has no case for the relationships of checks and components.\<close>

fun add_push :: "'f push_data \<Rightarrow> 'f db_item \<Rightarrow> 'f push_data" where
  "add_push p (Canary r) = p\<lparr>pd_canaries := pd_canaries p @ [r]\<rparr>"
| "add_push p (Check r) = p\<lparr>pd_checks := pd_checks p @ [r]\<rparr>"
| "add_push p (Component r) = p\<lparr>pd_components := pd_components p @ [r]\<rparr>"
| "add_push p (ConfigScraper r) = p\<lparr>pd_scrapers := pd_scrapers p @ [r]\<rparr>"
| "add_push p (ConfigAnalysis r) = p\<lparr>pd_analysis := pd_analysis p @ [r]\<rparr>"
| "add_push p (ConfigChange r) = p\<lparr>pd_changes := pd_changes p @ [r]\<rparr>"
| "add_push p (ConfigItem r) = p\<lparr>pd_configs := pd_configs p @ [r]\<rparr>"
| "add_push p (CheckStatus r) = p\<lparr>pd_statuses := pd_statuses p @ [r]\<rparr>"
| "add_push p (ConfigRelationship r) = p\<lparr>pd_config_rels := pd_config_rels p @ [r]\<rparr>"
| "add_push p (ComponentRelationship r) = p\<lparr>pd_component_rels := pd_component_rels p @ [r]\<rparr>"
| "add_push p (ConfigComponentRelationship r) = p\<lparr>pd_config_component_rels := pd_config_component_rels p @ [r]\<rparr>"
| "add_push p (CheckConfigRelationship r) = p\<lparr>pd_check_config_rels := pd_check_config_rels p @ [r]\<rparr>"
| "add_push p (ConfigItemLastScrapedTime r) = p\<lparr>pd_last_scraped := pd_last_scraped p @ [r]\<rparr>"
| "add_push p (ChecksUnlogged r) = p\<lparr>pd_unlogged := pd_unlogged p @ [r]\<rparr>"
| "add_push p (TopologyRow r) = p\<lparr>pd_topologies := pd_topologies p @ [r]\<rparr>"
| "add_push p (PlaybookRunAction r) = p\<lparr>pd_actions := pd_actions p @ [r]\<rparr>"
| "add_push p (ArtifactRow r) = p\<lparr>pd_artifacts := pd_artifacts p @ [r]\<rparr>"
| "add_push p (JobHistoryRow r) = p\<lparr>pd_history := pd_history p @ [r]\<rparr>"
| "add_push p (ViewPanel r) = p\<lparr>pd_panels := pd_panels p @ [r]\<rparr>"
| "add_push p (GeneratedViewRow r) = p\<lparr>pd_views := add_view_row r (pd_views p)\<rparr>"
| "add_push p (CheckComponentRelationship r) = p"

definition new_push_data :: "'f db_item list \<Rightarrow> 'f push_data" where
  "new_push_data records = foldl add_push empty_push records"

text \<open>\<^verbatim>\<open>Count\<close> counts tables of views, not their rows.\<close>

definition push_count :: "'f push_data \<Rightarrow> nat" where
  "push_count p = length (pd_canaries p)
     + length (pd_checks p)
     + length (pd_components p)
     + length (pd_scrapers p)
     + length (pd_analysis p)
     + length (pd_changes p)
     + length (pd_configs p)
     + length (pd_statuses p)
     + length (pd_config_rels p)
     + length (pd_component_rels p)
     + length (pd_config_component_rels p)
     + length (pd_check_config_rels p)
     + length (pd_last_scraped p)
     + length (pd_unlogged p)
     + length (pd_topologies p)
     + length (pd_actions p)
     + length (pd_artifacts p)
     + length (pd_history p)
     + length (pd_panels p)
     + length (pd_views p)"

definition push_attributes :: "'f push_data \<Rightarrow> (string, nat) gomap" where
  "push_attributes p = filter (\<lambda>x. snd x > 0)
     [(''Topologies'', length (pd_topologies p)),
      (''Canaries'', length (pd_canaries p)),
      (''Checks'', length (pd_checks p)),
      (''Components'', length (pd_components p)),
      (''ConfigAnalysis'', length (pd_analysis p)),
      (''ConfigScrapers'', length (pd_scrapers p)),
      (''ConfigChanges'', length (pd_changes p)),
      (''ConfigItems'', length (pd_configs p)),
      (''CheckStatuses'', length (pd_statuses p)),
      (''ConfigRelationships'', length (pd_config_rels p)),
      (''ComponentRelationships'', length (pd_component_rels p)),
      (''ConfigComponentRelationships'', length (pd_config_component_rels p)),
      (''CheckConfigRelationships'', length (pd_check_config_rels p)),
      (''ConfigItemsLastScrapedTime'', length (pd_last_scraped p)),
      (''ChecksUnlogged'', length (pd_unlogged p)),
      (''Artifacts'', length (pd_artifacts p)),
      (''JobHistory'', length (pd_history p)),
      (''ViewPanels'', length (pd_panels p)),
      (''ViewData'', length (pd_views p))]"

text \<open>The rows a message holds.\<close>

definition push_rows :: "'f push_data \<Rightarrow> 'f db_item list" where
  "push_rows p = map Canary (pd_canaries p)
     @ map Check (pd_checks p)
     @ map Component (pd_components p)
     @ map ConfigScraper (pd_scrapers p)
     @ map ConfigAnalysis (pd_analysis p)
     @ map ConfigChange (pd_changes p)
     @ map ConfigItem (pd_configs p)
     @ map CheckStatus (pd_statuses p)
     @ map ConfigRelationship (pd_config_rels p)
     @ map ComponentRelationship (pd_component_rels p)
     @ map ConfigComponentRelationship (pd_config_component_rels p)
     @ map CheckConfigRelationship (pd_check_config_rels p)
     @ map ConfigItemLastScrapedTime (pd_last_scraped p)
     @ map ChecksUnlogged (pd_unlogged p)
     @ map TopologyRow (pd_topologies p)
     @ map PlaybookRunAction (pd_actions p)
     @ map ArtifactRow (pd_artifacts p)
     @ map JobHistoryRow (pd_history p)
     @ map ViewPanel (pd_panels p)
     @ map GeneratedViewRow (concat (map snd (pd_views p)))"

lemma add_view_row_rows: "mset (concat (map snd (add_view_row r m))) = add_mset r (mset (concat (map snd m)))"
  by (induction r m rule: add_view_row.induct) simp_all

lemma add_view_row_length: "length (add_view_row r m) = length m + (if vr_table r \<in> fst ` set m then 0 else 1)"
  by (induction r m rule: add_view_row.induct) auto

lemma add_view_row_names: "fst ` set (add_view_row r m) = insert (vr_table r) (fst ` set m)"
  by (induction r m rule: add_view_row.induct) auto

definition sent_row :: "'f db_item \<Rightarrow> bool" where
  "sent_row i \<longleftrightarrow> (case i of CheckComponentRelationship r \<Rightarrow> False | _ \<Rightarrow> True)"

lemma add_push_rows:
  "mset (push_rows (add_push p i)) = mset (push_rows p) + (if sent_row i then {#i#} else {#})"
  by (cases i) (simp_all add: push_rows_def sent_row_def add_view_row_rows)

lemma foldl_push_rows:
  "mset (push_rows (foldl add_push p items)) = mset (push_rows p) + mset (filter sent_row items)"
  by (induction items arbitrary: p) (simp_all add: add_push_rows)

text \<open>A message holds the rows it is made of, but not the relationships of checks and components.\<close>

lemma new_push_data_rows: "mset (push_rows (new_push_data items)) = mset (filter sent_row items)"
  by (simp add: new_push_data_def foldl_push_rows) (simp add: push_rows_def empty_push_def)

lemma add_push_count:
  "push_count (add_push p i) = push_count p + (case i of CheckComponentRelationship r \<Rightarrow> 0
     | GeneratedViewRow r \<Rightarrow> if vr_table r \<in> fst ` set (pd_views p) then 0 else 1 | _ \<Rightarrow> 1)"
  by (cases i) (simp_all add: push_count_def add_view_row_length)

lemma foldl_push_none: "(\<And>i. i \<in> set items \<Longrightarrow> \<not> sent_row i) \<Longrightarrow> foldl add_push p items = p"
proof (induction items)
  case (Cons i items)
  then have "\<not> sent_row i" by simp
  then have "add_push p i = p" by (cases i) (simp_all add: sent_row_def)
  then show ?case using Cons by simp
qed simp

lemma push_count_mono: "push_count p \<le> push_count (foldl add_push p items)"
proof (induction items arbitrary: p)
  case (Cons i items)
  have "push_count p \<le> push_count (add_push p i)" by (simp add: add_push_count)
  then show ?case using Cons [of "add_push p i"] by simp
qed simp

lemma new_push_data_count: "push_count (new_push_data items) = 0 \<longleftrightarrow> filter sent_row items = []"
proof
  assume z: "push_count (new_push_data items) = 0"
  have "\<not> sent_row i" if "i \<in> set items" for i
  proof
    assume s: "sent_row i"
    obtain xs ys where "items = xs @ i # ys" using split_list \<open>i \<in> set items\<close> by metis
    then have "push_count (add_push (foldl add_push empty_push xs) i) = 0"
      using z push_count_mono [of "add_push (foldl add_push empty_push xs) i" ys] by (simp add: new_push_data_def)
    then have "push_rows (add_push (foldl add_push empty_push xs) i) = []"
      by (simp add: push_count_def push_rows_def)
    then show False using add_push_rows [of "foldl add_push empty_push xs" i] s by simp
  qed
  then show "filter sent_row items = []" by (simp add: filter_empty_conv)
next
  assume "filter sent_row items = []"
  then show "push_count (new_push_data items) = 0"
    using foldl_push_none [of items empty_push] by (auto simp: new_push_data_def filter_empty_conv push_count_def empty_push_def)
qed

subsection \<open>Changes by the receiver\<close>

definition replace_topology_id :: "string option \<Rightarrow> 'f push_data \<Rightarrow> 'f push_data" where
  "replace_topology_id i p = p\<lparr>pd_components := map (\<lambda>r. r\<lparr>cp_topology := i\<rparr>) (pd_components p)\<rparr>"

text \<open>Every row of a view gets the column of the agent, whether it has it or not.\<close>

definition set_column :: "string \<Rightarrow> 'v \<Rightarrow> (string, 'v) gomap \<Rightarrow> (string, 'v) gomap" where
  "set_column c v m = merge_maps m [(c, v)]"

definition populate_agent_id :: "string \<Rightarrow> 'f push_data \<Rightarrow> 'f push_data" where
  "populate_agent_id a p = p\<lparr>
     pd_canaries := map (\<lambda>r. r\<lparr>cn_agent := a\<rparr>) (pd_canaries p),
     pd_checks := map (\<lambda>r. r\<lparr>ck_agent := a\<rparr>) (pd_checks p),
     pd_components := map (\<lambda>r. r\<lparr>cp_agent := a\<rparr>) (pd_components p),
     pd_configs := map (\<lambda>r. r\<lparr>cf_agent := a\<rparr>) (pd_configs p),
     pd_scrapers := map (\<lambda>r. r\<lparr>sr_agent := a\<rparr>) (pd_scrapers p),
     pd_topologies := map (\<lambda>r. r\<lparr>tp_agent := a\<rparr>) (pd_topologies p),
     pd_history := map (\<lambda>r. r\<lparr>jr_agent := a\<rparr>) (pd_history p),
     pd_panels := map (\<lambda>r. r\<lparr>vp_agent := a\<rparr>) (pd_panels p),
     pd_views := map (\<lambda>x. (fst x, map (\<lambda>r. r\<lparr>vr_row := set_column ''agent_id'' (StrV a) (vr_row r)\<rparr>) (snd x))) (pd_views p)\<rparr>"

definition apply_labels :: "(string, string) gomap \<Rightarrow> 'f push_data \<Rightarrow> 'f push_data" where
  "apply_labels ls p = p\<lparr>
     pd_components := map (\<lambda>r. r\<lparr>cp_labels := merge_maps (cp_labels r) ls\<rparr>) (pd_components p),
     pd_checks := map (\<lambda>r. r\<lparr>ck_labels := merge_maps (ck_labels r) ls\<rparr>) (pd_checks p),
     pd_canaries := map (\<lambda>r. r\<lparr>cn_labels := merge_maps (cn_labels r) ls\<rparr>) (pd_canaries p),
     pd_topologies := map (\<lambda>r. r\<lparr>tp_labels := merge_maps (tp_labels r) ls\<rparr>) (pd_topologies p)\<rparr>"

text \<open>The config item every installation has for itself is not stored; items that stand for an agent become
  the sending agent's, and what refers to the former refers to the agent. The system's scraper is left out.\<close>

definition agent_config :: "string \<Rightarrow> string \<Rightarrow> config_row \<Rightarrow> config_row" where
  "agent_config aid aname r =
     (if cf_type r = Some ''MissionControl::Agent'' then r\<lparr>cf_id := aid, cf_name := Some aname, cf_scraper := Some zero_uuid\<rparr> else r)"

definition local_agent_config_id :: string where
  "local_agent_config_id = ''ffffffff-ffff-ffff-ffff-ffffffffffff''"

definition add_agent_config :: "string \<Rightarrow> string \<Rightarrow> 'f push_data \<Rightarrow> 'f push_data" where
  "add_agent_config aid aname p = p\<lparr>
     pd_configs := map (agent_config aid aname) (filter (\<lambda>r. cf_id r \<noteq> local_agent_config_id) (pd_configs p)),
     pd_changes := map (\<lambda>r. if ch_config r = local_agent_config_id then r\<lparr>ch_config := aid\<rparr> else r) (pd_changes p),
     pd_last_scraped := map (\<lambda>r. if ls_config r = local_agent_config_id then r\<lparr>ls_config := aid\<rparr> else r) (pd_last_scraped p),
     pd_scrapers := filter (\<lambda>r. sr_id r \<noteq> zero_uuid) (pd_scrapers p)\<rparr>"

text \<open>What the handler of pushes stores.\<close>

definition received :: "string \<Rightarrow> string \<Rightarrow> 'f push_data \<Rightarrow> 'f push_data" where
  "received aid aname p = add_agent_config aid aname (populate_agent_id aid p)"

fun agent_of :: "'f db_item \<Rightarrow> string option" where
  "agent_of (Canary r) = Some (cn_agent r)"
| "agent_of (Check r) = Some (ck_agent r)"
| "agent_of (Component r) = Some (cp_agent r)"
| "agent_of (ConfigScraper r) = Some (sr_agent r)"
| "agent_of (ConfigItem r) = Some (cf_agent r)"
| "agent_of (TopologyRow r) = Some (tp_agent r)"
| "agent_of (JobHistoryRow r) = Some (jr_agent r)"
| "agent_of (ViewPanel r) = Some (vp_agent r)"
| "agent_of (GeneratedViewRow r) = (case map_of (vr_row r) ''agent_id'' of Some (StrV a) \<Rightarrow> Some a | _ \<Rightarrow> None)"
| "agent_of i = None"

lemma set_column_lookup: "map_of (set_column c v m) k = (if k = c then Some v else map_of m k)"
  by (simp add: set_column_def merge_maps_lookup)

lemma agent_config_agent [simp]: "cf_agent (agent_config aid aname r) = cf_agent r"
  by (simp add: agent_config_def)

lemma push_rows_cases:
  assumes "i \<in> set (push_rows p)"
  obtains r where "i = Canary r" "r \<in> set (pd_canaries p)" | r where "i = Check r" "r \<in> set (pd_checks p)"
    | r where "i = Component r" "r \<in> set (pd_components p)" | r where "i = ConfigScraper r" "r \<in> set (pd_scrapers p)"
    | r where "i = ConfigItem r" "r \<in> set (pd_configs p)" | r where "i = TopologyRow r" "r \<in> set (pd_topologies p)"
    | r where "i = JobHistoryRow r" "r \<in> set (pd_history p)" | r where "i = ViewPanel r" "r \<in> set (pd_panels p)"
    | r where "i = GeneratedViewRow r" "\<exists>x \<in> set (pd_views p). r \<in> set (snd x)" | "agent_of i = None"
  using assms unfolding push_rows_def set_append set_map by (elim UnE imageE) (auto intro: that)

text \<open>Every stored row of a table that has agents is the sender's, whatever agent the message gave it.\<close>

lemma received_agent:
  assumes "i \<in> set (push_rows (received aid aname p))" "agent_of i \<noteq> None"
  shows "agent_of i = Some aid"
  using assms(1)
proof (cases rule: push_rows_cases)
  case (9 r)
  then obtain r0 where "r = r0\<lparr>vr_row := set_column ''agent_id'' (StrV aid) (vr_row r0)\<rparr>"
    by (auto simp: received_def add_agent_config_def populate_agent_id_def)
  then show ?thesis by (simp add: 9(1) set_column_lookup)
qed (use assms(2) in \<open>auto simp: received_def add_agent_config_def populate_agent_id_def\<close>)

text \<open>Scraped times of the local config are stored under another key than the sender knows.\<close>

lemma received_key_changed:
  "pk (ConfigItemLastScrapedTime r) = local_agent_config_id \<Longrightarrow> ConfigItemLastScrapedTime r' \<in> set (push_rows (received aid aname (new_push_data [ConfigItemLastScrapedTime r])))
   \<Longrightarrow> pk (ConfigItemLastScrapedTime r') = aid"
  by (auto simp: received_def add_agent_config_def populate_agent_id_def new_push_data_def push_rows_def empty_push_def)

subsection \<open>Configuration\<close>

record upstream_config =
  uc_agent :: string
  uc_host :: string
  uc_username :: string
  uc_password :: string
  uc_labels :: "string list"
  uc_jwk :: string

definition config_valid :: "upstream_config \<Rightarrow> bool" where
  "config_valid c \<longleftrightarrow> uc_host c \<noteq> [] \<and> uc_username c \<noteq> [] \<and> uc_password c \<noteq> [] \<and> uc_agent c \<noteq> []"

definition is_partially_filled :: "upstream_config \<Rightarrow> bool \<times> string option" where
  "is_partially_filled c =
     (if \<not> config_valid c \<and> (uc_host c \<noteq> [] \<or> uc_password c \<noteq> [] \<or> uc_agent c \<noteq> [])
      then (True, Some ((if uc_host c = [] then ''UPSTREAM_HOST is empty.'' else []) @
        (if uc_password c = [] then ''UPSTREAM_PASSWORD is empty.'' else []) @
        (if uc_agent c = [] then ''AGENT_NAME is empty.'' else [])))
      else (False, None))"

definition upstream_config_string :: "upstream_config \<Rightarrow> string" where
  "upstream_config_string c = join '' ''
     ((if uc_host c \<noteq> [] then [''host='' @ uc_host c] else []) @
      (if uc_username c \<noteq> [] then [''user='' @ uc_username c] else []) @
      (if uc_password c \<noteq> [] then [''pass='' @ take 1 (uc_password c) @ ''***''] else []) @
      (if uc_agent c \<noteq> [] then [''agent='' @ uc_agent c] else []) @
      (if uc_jwk c \<noteq> [] then [''jwk=configured''] else []) @
      (if uc_labels c \<noteq> [] then [''labels=['' @ join '' '' (uc_labels c) @ '']''] else []))"

text \<open>Without a user name a configuration is not valid and its error is empty; with nothing but a user name it
  is not even partial.\<close>

lemma username_not_reported:
  "is_partially_filled \<lparr>uc_agent = ''a'', uc_host = ''h'', uc_username = [], uc_password = ''p'', uc_labels = [], uc_jwk = []\<rparr> = (True, Some [])"
  "is_partially_filled \<lparr>uc_agent = [], uc_host = [], uc_username = ''u'', uc_password = [], uc_labels = [], uc_jwk = []\<rparr> = (False, None)"
  by (simp_all add: is_partially_filled_def config_valid_def)

text \<open>The description gives away at most the first byte of the password.\<close>

lemma config_string_password:
  assumes "take 1 (uc_password c) = take 1 p'" "uc_password c \<noteq> []" "p' \<noteq> []"
  shows "upstream_config_string (c\<lparr>uc_password := p'\<rparr>) = upstream_config_string c"
  using assms by (simp add: upstream_config_string_def)

end
