(* ===== verification/Upstream_Reconcile.thy ===== *)
theory Upstream_Reconcile
  imports Upstream_Push
begin

section \<open>Reconciling tables with the upstream\<close>

text \<open>
  \<^verbatim>\<open>upstream/jobs.go\<close>: the loop that pushes the rows of a table in batches, marks those the upstream took and
  leaves those whose parents it does not have; the groups of tables and what is skipped after an error; and
  the summary of a run. The answers of the upstream and the failures of the database come from a world that
  the caller chooses. A list of what was sent is kept beside the state for the statements of theorems.
\<close>

subsection \<open>Summaries\<close>

record 'e table_summary =
  ts_success :: nat
  ts_foreign :: "string list"
  ts_skipped :: bool
  ts_error :: "'e option"

type_synonym 'e run_summary = "(string, 'e table_summary) gomap"

definition zero_summary :: "'e table_summary" where
  "zero_summary = \<lparr>ts_success = 0, ts_foreign = [], ts_skipped = False, ts_error = None\<rparr>"

definition summary_of :: "'e run_summary \<Rightarrow> string \<Rightarrow> 'e table_summary" where
  "summary_of s t = (case map_of s t of Some v \<Rightarrow> v | None \<Rightarrow> zero_summary)"

definition set_summary :: "string \<Rightarrow> 'e table_summary \<Rightarrow> 'e run_summary \<Rightarrow> 'e run_summary" where
  "set_summary t v s = merge_maps s [(t, v)]"

definition table_reconciled :: "'e run_summary \<Rightarrow> string \<Rightarrow> bool" where
  "table_reconciled s t = (case map_of s t of None \<Rightarrow> False
     | Some v \<Rightarrow> \<not> ts_skipped v \<and> ts_error v = None \<and> length (ts_foreign v) = 0)"

definition did_reconcile :: "'e run_summary \<Rightarrow> string list \<Rightarrow> bool" where
  "did_reconcile s tables = list_all (table_reconciled s) tables"

definition get_success_failure :: "'e run_summary \<Rightarrow> nat \<times> nat" where
  "get_success_failure s = (sum_list (map (\<lambda>x. ts_success (snd x)) s), sum_list (map (\<lambda>x. length (ts_foreign (snd x))) s))"

definition add_skipped :: "pushable list \<Rightarrow> 'e run_summary \<Rightarrow> 'e run_summary" where
  "add_skipped tables s =
     fold (\<lambda>t s. set_summary (pushable_name t) ((summary_of s (pushable_name t))\<lparr>ts_skipped := True\<rparr>) s) tables s"

definition add_stat :: "string \<Rightarrow> nat \<Rightarrow> string list \<Rightarrow> 'e option \<Rightarrow> 'e run_summary \<Rightarrow> 'e run_summary" where
  "add_stat t success foreign err s =
     (if success = 0 \<and> foreign = [] \<and> err = None then s
      else set_summary t ((summary_of s t)\<lparr>ts_success := success, ts_foreign := foreign,
        ts_error := (if err = None then ts_error (summary_of s t) else err)\<rparr>) s)"

text \<open>The ids that are shown of foreign key errors, and their number.\<close>

definition shown_ids :: "nat \<Rightarrow> string list \<Rightarrow> (string list \<times> nat) option" where
  "shown_ids limit ids =
     (if ids = [] then None
      else Some (if limit \<le> length (take limit ids) then take limit ids @ [''...''] else take limit ids, length ids))"

datatype 'e summary_problem = TableFailed string 'e | ForeignKeys string

definition summary_problems :: "'e run_summary \<Rightarrow> 'e summary_problem list" where
  "summary_problems s = concat (map (\<lambda>x.
     (case ts_error (snd x) of Some e \<Rightarrow> [TableFailed (fst x) e] | None \<Rightarrow> []) @
     (if ts_foreign (snd x) \<noteq> [] then [ForeignKeys (fst x)] else [])) s)"

lemma set_summary_lookup: "map_of (set_summary t v s) u = (if u = t then Some v else map_of s u)"
  by (simp add: set_summary_def merge_maps_lookup)

lemma add_stat_other: "u \<noteq> t \<Longrightarrow> map_of (add_stat t n f e s) u = map_of s u"
  by (simp add: add_stat_def set_summary_lookup)

lemma add_skipped_lookup:
  "map_of (add_skipped ts s) u = (if u \<in> pushable_name ` set ts then Some ((summary_of s u)\<lparr>ts_skipped := True\<rparr>) else map_of s u)"
proof (induction ts arbitrary: s)
  case (Cons t ts)
  let ?s = "set_summary (pushable_name t) ((summary_of s (pushable_name t))\<lparr>ts_skipped := True\<rparr>) s"
  have "summary_of ?s u = (if u = pushable_name t then (summary_of s u)\<lparr>ts_skipped := True\<rparr> else summary_of s u)"
    by (simp add: summary_of_def set_summary_lookup)
  then show ?case using Cons [of ?s] by (auto simp: add_skipped_def set_summary_lookup)
qed (simp add: add_skipped_def)

text \<open>An id list that is not cut is shown as cut when it has exactly as many ids as are shown.\<close>

lemma shown_ids_full: "ids \<noteq> [] \<Longrightarrow> shown_ids (length ids) ids = Some (ids @ [''...''], length ids)"
  by (simp add: shown_ids_def)

subsection \<open>One round of pushing\<close>

datatype push_answer = Accepted | Refused string "string option"

datatype mark_outcome = MarkOk | MarkDeadlock string | MarkError string

datatype reconcile_error =
    FetchFailed string string | PushFailed string string | PushUndecodable string string string | ParentsFailed string
  | MarkFailed string string | PushRefused string | ChunkPanic | ListViewsFailed string | ColumnDefsFailed string string
  | ColumnsPanic

text \<open>The world \<open>'w\<close> moves on with every call. A refusal may carry the data of an HTTP error, from which the
  ids of the rows with missing parents are decoded.\<close>

record ('f, 'w) push_env =
  pe_fetch :: "'w \<Rightarrow> string option \<times> 'w"
  pe_push :: "'f push_data \<Rightarrow> 'w \<Rightarrow> push_answer \<times> 'w"
  pe_decode :: "string \<Rightarrow> string + string list"
  pe_resets :: "'w \<Rightarrow> (string \<Rightarrow> string option) \<times> 'w"
  pe_mark :: "'w \<Rightarrow> mark_outcome \<times> 'w"
  pe_values :: "'f go_values"
  pe_arrange :: "'f db_item list \<Rightarrow> 'f db_item list"
  pe_mark_size :: int

definition client_push :: "('f, 'w) push_env \<Rightarrow> 'f push_data \<Rightarrow> 'w \<Rightarrow> push_answer \<times> 'w" where
  "client_push env msg w = (if push_count msg = 0 then (Accepted, w) else pe_push env msg w)"

record ('f, 'w) push_state =
  ps_count :: nat
  ps_foreign :: "string list"
  ps_db :: "'f agent_db"
  ps_world :: 'w
  ps_sent :: "('f db_item list \<times> push_answer) list"

text \<open>Marking a batch: deadlocks are retried three times.\<close>

fun mark_batch :: "nat \<Rightarrow> ('f, 'w) push_env \<Rightarrow> pushable \<Rightarrow> 'f db_item list \<Rightarrow> ('f, 'w) push_state
    \<Rightarrow> reconcile_error option \<times> ('f, 'w) push_state" where
  "mark_batch retries env t batch s =
     (case pe_mark env (ps_world s) of
        (MarkOk, w) \<Rightarrow>
          (case update_is_pushed (pe_values env) t batch (ps_db s) of
             Inl e \<Rightarrow> (Some (MarkFailed (pushable_name t) e), s\<lparr>ps_world := w\<rparr>)
           | Inr db \<Rightarrow> (None, s\<lparr>ps_world := w, ps_db := db\<rparr>))
      | (MarkError e, w) \<Rightarrow> (Some (MarkFailed (pushable_name t) e), s\<lparr>ps_world := w\<rparr>)
      | (MarkDeadlock e, w) \<Rightarrow>
          (case retries of
             0 \<Rightarrow> (Some (MarkFailed (pushable_name t) e), s\<lparr>ps_world := w\<rparr>)
           | Suc r \<Rightarrow> mark_batch r env t batch (s\<lparr>ps_world := w\<rparr>)))"

fun mark_batches :: "('f, 'w) push_env \<Rightarrow> pushable \<Rightarrow> 'f db_item list list \<Rightarrow> ('f, 'w) push_state
    \<Rightarrow> reconcile_error option \<times> ('f, 'w) push_state" where
  "mark_batches env t [] s = (None, s)"
| "mark_batches env t (b # bs) s =
     (case mark_batch 3 env t b s of
        (Some e, s1) \<Rightarrow> (Some e, s1)
      | (None, s1) \<Rightarrow> mark_batches env t bs s1)"

text \<open>\<^verbatim>\<open>lo.Chunk\<close> panics on a size that is not positive.\<close>

definition mark_items :: "('f, 'w) push_env \<Rightarrow> pushable \<Rightarrow> 'f db_item list \<Rightarrow> ('f, 'w) push_state
    \<Rightarrow> reconcile_error option \<times> ('f, 'w) push_state" where
  "mark_items env t items s =
     (let s1 = s\<lparr>ps_count := ps_count s + length items\<rparr> in
      if pe_mark_size env \<le> 0 then (Some ChunkPanic, s1)
      else mark_batches env t (row_batches (nat (pe_mark_size env)) items) s1)"

text \<open>The rows that failed, noted and their parents marked to be pushed again.\<close>

definition handle_failed :: "('f, 'w) push_env \<Rightarrow> pushable \<Rightarrow> 'f db_item list \<Rightarrow> ('f, 'w) push_state
    \<Rightarrow> reconcile_error option \<times> ('f, 'w) push_state" where
  "handle_failed env t failed s =
     (let s1 = s\<lparr>ps_foreign := ps_foreign s @ map pk failed\<rparr> in
      case (t, parent_updates (pushable_name t) failed) of
        (Table n, Some us) \<Rightarrow>
          if failed = [] then (None, s1)
          else (case pe_resets env (ps_world s1) of (fails, w) \<Rightarrow>
            (case run_resets fails us (ps_db s1) of
               (Some e, db) \<Rightarrow> (Some (ParentsFailed e), s1\<lparr>ps_world := w, ps_db := db\<rparr>)
             | (None, db) \<Rightarrow> (None, s1\<lparr>ps_world := w, ps_db := db\<rparr>)))
      | _ \<Rightarrow> (None, s1))"

text \<open>The end of a round: go on, or return with or without an error.\<close>

datatype round_end = GoOn | Ended "reconcile_error option"

definition push_round :: "('f, 'w) push_env \<Rightarrow> pushable \<Rightarrow> nat \<Rightarrow> ('f, 'w) push_state \<Rightarrow> round_end \<times> ('f, 'w) push_state" where
  "push_round env t n s =
     (case pe_fetch env (ps_world s) of
        (Some e, w) \<Rightarrow> (Ended (Some (FetchFailed (pushable_name t) e)), s\<lparr>ps_world := w\<rparr>)
      | (None, w) \<Rightarrow>
         (let items = get_unpushed (pe_values env) (pe_arrange env) n t (ps_db s) in
          if items = [] then (Ended None, s\<lparr>ps_world := w\<rparr>)
          else case client_push env (new_push_data items) w of (answer, w1) \<Rightarrow>
           (let s1 = s\<lparr>ps_world := w1, ps_sent := ps_sent s @ [(items, answer)]\<rparr> in
            case answer of
              Accepted \<Rightarrow>
                (case mark_items env t items s1 of
                   (Some e, s2) \<Rightarrow> (Ended (Some e), s2)
                 | (None, s2) \<Rightarrow> (GoOn, s2))
            | Refused e None \<Rightarrow> (Ended (Some (PushFailed (pushable_name t) e)), s1)
            | Refused e (Some data) \<Rightarrow>
               (case (if data = [] then Inl [] else pe_decode env data) of
                  Inl d \<Rightarrow> (Ended (Some (if data = [] then PushFailed (pushable_name t) e else PushUndecodable (pushable_name t) d e)), s1)
                | Inr ids \<Rightarrow>
                   (case handle_failed env t (filter (\<lambda>i. pk i \<in> set ids) items) s1 of
                      (Some err, s2) \<Rightarrow> (Ended (Some err), s2)
                    | (None, s2) \<Rightarrow>
                       (case mark_items env t (filter (\<lambda>i. pk i \<notin> set ids) items) s2 of
                          (Some err, s3) \<Rightarrow> (Ended (Some err), s3)
                        | (None, s3) \<Rightarrow> (Ended (if ids \<noteq> [] then None else Some (PushRefused e)), s3)))))))"

text \<open>The loop, \<^term>\<open>None\<close> when the fuel does not suffice.\<close>

fun reconcile_loop :: "nat \<Rightarrow> ('f, 'w) push_env \<Rightarrow> pushable \<Rightarrow> nat \<Rightarrow> ('f, 'w) push_state
    \<Rightarrow> (reconcile_error option \<times> ('f, 'w) push_state) option" where
  "reconcile_loop 0 env t n s = None"
| "reconcile_loop (Suc fuel) env t n s =
     (case push_round env t n s of
        (Ended e, s1) \<Rightarrow> Some (e, s1)
      | (GoOn, s1) \<Rightarrow> reconcile_loop fuel env t n s1)"

definition reconcile_table :: "('f, 'w) push_env \<Rightarrow> pushable \<Rightarrow> nat \<Rightarrow> ('f, 'w) push_state
    \<Rightarrow> (reconcile_error option \<times> ('f, 'w) push_state) option" where
  "reconcile_table env t n s =
     reconcile_loop (Suc (length (unpushed t (ps_db s)))) env t n (s\<lparr>ps_count := 0, ps_foreign := []\<rparr>)"

subsection \<open>What a round does to the tables\<close>

lemma local_cong:
  assumes "map fst db = map fst db'"
  shows "local_check db = local_check db'" "local_canary db = local_canary db'"
    "local_component db = local_component db'" "local_config db = local_config db'"
proof -
  have "(\<exists>x \<in> set db. P (fst x)) \<longleftrightarrow> (\<exists>x \<in> set db'. P (fst x))" for P
  proof -
    have "(\<exists>x \<in> set d. P (fst x)) \<longleftrightarrow> (\<exists>i \<in> set (map fst d). P i)" for d :: "('a db_item \<times> bool) list" by simp
    then show ?thesis using assms by metis
  qed
  then show "local_check db = local_check db'" "local_canary db = local_canary db'"
    "local_component db = local_component db'" "local_config db = local_config db'"
    unfolding local_check_def local_canary_def local_component_def local_config_def by (auto simp: fun_eq_iff)
qed

lemma pushes_cong: "map fst db = map fst db' \<Longrightarrow> pushes db i = pushes db' i"
  using local_cong [of db db'] by (cases i) simp_all

definition mark_rows :: "'f go_values \<Rightarrow> pushable \<Rightarrow> 'f db_item list \<Rightarrow> 'f agent_db \<Rightarrow> 'f agent_db" where
  "mark_rows g t batch db = map (\<lambda>x. (fst x, snd x \<or> marks g t batch (fst x))) db"

lemma mark_rows_items [simp]: "map fst (mark_rows g t b db) = map fst db"
  by (simp add: mark_rows_def comp_def)

lemma mark_rows_append: "mark_rows g t c (mark_rows g t b db) = mark_rows g t (b @ c) db"
  by (auto simp: mark_rows_def marks_def)

lemma mark_rows_Nil: "mark_rows g t [] db = db"
  by (simp add: mark_rows_def marks_def)

lemma update_is_pushed_Inr: "update_is_pushed g t b db = Inr db' \<Longrightarrow> db' = mark_rows g t b db"
  by (auto simp: update_is_pushed_def mark_rows_def split: pushable.splits list.splits)

text \<open>Marking a batch marks it or leaves the tables alone; nothing else but the world changes.\<close>

lemma mark_batch_result:
  "mark_batch n env t b s = (r, s') \<Longrightarrow>
     ps_count s' = ps_count s \<and> ps_foreign s' = ps_foreign s \<and> ps_sent s' = ps_sent s
     \<and> ps_db s' = (if r = None then mark_rows (pe_values env) t b (ps_db s) else ps_db s)"
proof (induction n arbitrary: s)
  case 0
  then show ?case by (auto split: prod.splits mark_outcome.splits sum.splits dest!: update_is_pushed_Inr)
next
  case (Suc n)
  obtain m w where w: "pe_mark env (ps_world s) = (m, w)" by force
  note run = Suc.prems [THEN trans [OF mark_batch.simps [symmetric]], unfolded w prod.case]
  show ?case
  proof (cases m)
    case (MarkDeadlock e)
    then have "mark_batch n env t b (s\<lparr>ps_world := w\<rparr>) = (r, s')" using run by (simp del: mark_batch.simps)
    from Suc.IH [OF this] show ?thesis by simp
  qed (use run in \<open>auto simp del: mark_batch.simps split: sum.splits dest!: update_is_pushed_Inr\<close>)
qed

declare mark_batch.simps [simp del]

lemma mark_batches_result:
  "mark_batches env t bs s = (r, s') \<Longrightarrow>
     ps_count s' = ps_count s \<and> ps_foreign s' = ps_foreign s \<and> ps_sent s' = ps_sent s
     \<and> (\<exists>as bs'. bs = as @ bs' \<and> (r = None \<longrightarrow> bs' = []) \<and> ps_db s' = mark_rows (pe_values env) t (concat as) (ps_db s))"
proof (induction bs arbitrary: s)
  case Nil
  then show ?case by (auto simp: mark_rows_Nil)
next
  case (Cons b bs)
  obtain r1 s1 where m: "mark_batch 3 env t b s = (r1, s1)" by force
  note b = mark_batch_result [OF m]
  show ?case
  proof (cases r1)
    case (Some e)
    then have rs: "r = Some e" "s' = s1" using Cons.prems m by auto
    have "ps_db s' = mark_rows (pe_values env) t (concat []) (ps_db s)" using b Some rs by (simp add: mark_rows_Nil)
    then show ?thesis using b rs by (intro conjI exI [of _ "[]"] exI [of _ "b # bs"]) simp_all
  next
    case None
    then have "mark_batches env t bs s1 = (r, s')" using Cons.prems m by simp
    from Cons.IH [OF this] obtain as bs' where ab: "bs = as @ bs'" "r = None \<longrightarrow> bs' = []"
      "ps_db s' = mark_rows (pe_values env) t (concat as) (ps_db s1)"
      "ps_count s' = ps_count s1" "ps_foreign s' = ps_foreign s1" "ps_sent s' = ps_sent s1" by blast
    have "ps_db s' = mark_rows (pe_values env) t (concat (b # as)) (ps_db s)"
      using ab(3) b None by (simp add: mark_rows_append)
    then show ?thesis using ab b by (intro conjI exI [of _ "b # as"] exI [of _ bs']) simp_all
  qed
qed

lemma mark_items_result:
  assumes "mark_items env t items s = (r, s')"
  shows "ps_count s' = ps_count s + length items" "ps_foreign s' = ps_foreign s" "ps_sent s' = ps_sent s"
    "\<exists>b. set b \<subseteq> set items \<and> (r = None \<longrightarrow> b = items) \<and> ps_db s' = mark_rows (pe_values env) t b (ps_db s)"
proof -
  let ?bs = "row_batches (nat (pe_mark_size env)) items"
  have "ps_count s' = ps_count s + length items \<and> ps_foreign s' = ps_foreign s \<and> ps_sent s' = ps_sent s
    \<and> (\<exists>b. set b \<subseteq> set items \<and> (r = None \<longrightarrow> b = items) \<and> ps_db s' = mark_rows (pe_values env) t b (ps_db s))"
  proof (cases "pe_mark_size env \<le> 0")
    case True
    then show ?thesis using assms by (auto simp: mark_items_def intro!: exI [of _ "[]"] mark_rows_Nil [symmetric])
  next
    case False
    then have "mark_batches env t ?bs (s\<lparr>ps_count := ps_count s + length items\<rparr>) = (r, s')"
      using assms by (simp add: mark_items_def)
    from mark_batches_result [OF this] obtain as bs' where ab: "?bs = as @ bs'" "r = None \<longrightarrow> bs' = []"
      "ps_db s' = mark_rows (pe_values env) t (concat as) (ps_db s)"
      "ps_count s' = ps_count s + length items" "ps_foreign s' = ps_foreign s" "ps_sent s' = ps_sent s" by auto
    have "items = concat as @ concat bs'" using ab(1) concat_batches [of "nat (pe_mark_size env)" items] False by simp
    then have "set (concat as) \<subseteq> set items" "r = None \<longrightarrow> concat as = items" using ab(2) by (auto simp del: set_concat)
    then show ?thesis using ab by blast
  qed
  then show "ps_count s' = ps_count s + length items" "ps_foreign s' = ps_foreign s" "ps_sent s' = ps_sent s"
    "\<exists>b. set b \<subseteq> set items \<and> (r = None \<longrightarrow> b = items) \<and> ps_db s' = mark_rows (pe_values env) t b (ps_db s)" by blast+
qed

lemma handle_failed_result:
  assumes "handle_failed env t failed s = (r, s')"
  shows "ps_count s' = ps_count s" "ps_foreign s' = ps_foreign s @ map pk failed" "ps_sent s' = ps_sent s"
    "\<exists>us. ps_db s' = fold reset_pushed us (ps_db s)"
proof -
  have resets: "\<exists>vs. snd (run_resets fails us db) = fold reset_pushed vs db" for fails us and db :: "'a agent_db"
  proof (induction fails us db rule: run_resets.induct)
    case (2 fails u us db)
    then show ?case
    proof (cases "fails (fst u)")
      case None
      then obtain vs where "snd (run_resets fails us (reset_pushed u db)) = fold reset_pushed vs (reset_pushed u db)" using 2 by blast
      then show ?thesis using None by (intro exI [of _ "u # vs"]) simp
    qed (auto intro: exI [of _ "[]"])
  qed (auto intro: exI [of _ "[]"])
  have "ps_count s' = ps_count s \<and> ps_foreign s' = ps_foreign s @ map pk failed \<and> ps_sent s' = ps_sent s
    \<and> (\<exists>us. ps_db s' = fold reset_pushed us (ps_db s))"
  proof (cases t)
    case (Table n)
    show ?thesis
    proof (cases "parent_updates n failed")
      case None then show ?thesis using assms Table by (auto simp: handle_failed_def intro: exI [of _ "[]"])
    next
      case (Some us)
      obtain fails w where w: "pe_resets env (ps_world s) = (fails, w)" by force
      obtain vs where "snd (run_resets fails us (ps_db s)) = fold reset_pushed vs (ps_db s)" using resets by blast
      then show ?thesis using assms Table Some w
        by (cases "failed = []") (auto simp: handle_failed_def Let_def split: prod.splits option.splits intro: exI [of _ "[]"] exI [of _ vs])
    qed
  next
    case ViewTable then show ?thesis using assms by (auto simp: handle_failed_def intro: exI [of _ "[]"] split: option.splits)
  qed
  then show "ps_count s' = ps_count s" "ps_foreign s' = ps_foreign s @ map pk failed" "ps_sent s' = ps_sent s"
    "\<exists>us. ps_db s' = fold reset_pushed us (ps_db s)" by blast+
qed

text \<open>The rows of a sent batch that the answer does not name as failed, and those it does.\<close>

fun answer_ids :: "('f, 'w) push_env \<Rightarrow> push_answer \<Rightarrow> string list option" where
  "answer_ids env Accepted = Some []"
| "answer_ids env (Refused e None) = None"
| "answer_ids env (Refused e (Some data)) =
     (if data = [] then None else case pe_decode env data of Inl d \<Rightarrow> None | Inr ids \<Rightarrow> Some ids)"

definition taken :: "('f, 'w) push_env \<Rightarrow> 'f db_item list \<times> push_answer \<Rightarrow> 'f db_item list" where
  "taken env x = (case answer_ids env (snd x) of None \<Rightarrow> [] | Some ids \<Rightarrow> filter (\<lambda>i. pk i \<notin> set ids) (fst x))"

definition not_taken :: "('f, 'w) push_env \<Rightarrow> 'f db_item list \<times> push_answer \<Rightarrow> 'f db_item list" where
  "not_taken env x = (case answer_ids env (snd x) of None \<Rightarrow> [] | Some ids \<Rightarrow> filter (\<lambda>i. pk i \<in> set ids) (fst x))"

lemma taken_accepted [simp]: "taken env (items, Accepted) = items" "not_taken env (items, Accepted) = []"
  by (simp_all add: taken_def not_taken_def)

text \<open>A round either sends nothing and ends, or sends the next batch, marks rows of it that were taken,
  and may make parents unpushed; it goes on only when all of an accepted batch is marked.\<close>

definition round_sent :: "('f, 'w) push_env \<Rightarrow> pushable \<Rightarrow> nat \<Rightarrow> ('f, 'w) push_state \<Rightarrow> round_end \<Rightarrow> ('f, 'w) push_state
    \<Rightarrow> 'f db_item list \<Rightarrow> push_answer \<Rightarrow> bool" where
  "round_sent env t n s r s' items answer \<longleftrightarrow>
     items = get_unpushed (pe_values env) (pe_arrange env) n t (ps_db s) \<and> items \<noteq> []
     \<and> ps_sent s' = ps_sent s @ [(items, answer)]
     \<and> (r = GoOn \<longrightarrow> answer = Accepted \<and> ps_db s' = mark_rows (pe_values env) t items (ps_db s))
     \<and> (r = GoOn \<or> r = Ended None \<longrightarrow> ps_count s' = ps_count s + length (taken env (items, answer))
          \<and> ps_foreign s' = ps_foreign s @ map pk (not_taken env (items, answer)))
     \<and> (\<exists>b us. set b \<subseteq> set (taken env (items, answer)) \<and> (r = GoOn \<or> r = Ended None \<longrightarrow> b = taken env (items, answer))
          \<and> ps_db s' = mark_rows (pe_values env) t b (fold reset_pushed us (ps_db s)))"

lemma round_accepted:
  assumes "mark_items env t items (s\<lparr>ps_world := w, ps_sent := ps_sent s @ [(items, Accepted)]\<rparr>) = (e, s')"
    "items = get_unpushed (pe_values env) (pe_arrange env) n t (ps_db s)" "items \<noteq> []"
  shows "round_sent env t n s (case e of None \<Rightarrow> GoOn | Some x \<Rightarrow> Ended (Some x)) s' items Accepted"
proof -
  obtain b where b: "set b \<subseteq> set items" "e = None \<longrightarrow> b = items" "ps_db s' = mark_rows (pe_values env) t b (ps_db s)"
    using mark_items_result(4) [OF assms(1)] by auto
  have "\<exists>b us. set b \<subseteq> set items \<and> (e = None \<longrightarrow> b = items) \<and> ps_db s' = mark_rows (pe_values env) t b (fold reset_pushed us (ps_db s))"
    using b by (intro exI [of _ b] exI [of _ "[]"]) simp
  then show ?thesis
    using assms(2,3) b mark_items_result(1-3) [OF assms(1)] by (cases e) (auto simp: round_sent_def)
qed

lemma round_refused:
  assumes "answer_ids env answer = Some ids" "ids \<noteq> [] \<or> answer \<noteq> Accepted"
    "handle_failed env t (filter (\<lambda>i. pk i \<in> set ids) items) (s\<lparr>ps_world := w, ps_sent := ps_sent s @ [(items, answer)]\<rparr>) = (None, s2)"
    "mark_items env t (filter (\<lambda>i. pk i \<notin> set ids) items) s2 = (e, s')" "r \<noteq> GoOn" "r = Ended None \<longrightarrow> e = None"
    "items = get_unpushed (pe_values env) (pe_arrange env) n t (ps_db s)" "items \<noteq> []"
  shows "round_sent env t n s r s' items answer"
proof -
  obtain us where us: "ps_db s2 = fold reset_pushed us (ps_db s)" using handle_failed_result(4) [OF assms(3)] by auto
  obtain b where b: "set b \<subseteq> set (filter (\<lambda>i. pk i \<notin> set ids) items)" "e = None \<longrightarrow> b = filter (\<lambda>i. pk i \<notin> set ids) items"
    "ps_db s' = mark_rows (pe_values env) t b (ps_db s2)"
    using mark_items_result(4) [OF assms(4)] by blast
  have tk: "taken env (items, answer) = filter (\<lambda>i. pk i \<notin> set ids) items"
    "not_taken env (items, answer) = filter (\<lambda>i. pk i \<in> set ids) items"
    using assms(1) by (simp_all add: taken_def not_taken_def)
  have "\<exists>b us. set b \<subseteq> set (taken env (items, answer)) \<and> (r = GoOn \<or> r = Ended None \<longrightarrow> b = taken env (items, answer))
      \<and> ps_db s' = mark_rows (pe_values env) t b (fold reset_pushed us (ps_db s))"
    using b us assms(5,6) tk by (intro exI [of _ b] exI [of _ us]) auto
  then show ?thesis
    using assms(5-8) mark_items_result(1-3) [OF assms(4)] handle_failed_result(1-3) [OF assms(3)] tk by (simp add: round_sent_def)
qed

lemma round_stopped:
  assumes "ps_sent s' = ps_sent s @ [(items, answer)]" "ps_db s' = fold reset_pushed us (ps_db s)" "r \<noteq> GoOn" "r \<noteq> Ended None"
    "items = get_unpushed (pe_values env) (pe_arrange env) n t (ps_db s)" "items \<noteq> []"
  shows "round_sent env t n s r s' items answer"
  using assms by (auto simp: round_sent_def mark_rows_Nil intro!: exI [of _ "[]"] exI [of _ us])

lemma round_sent_refused:
  assumes "push_round env t n s = (r, s')" "pe_fetch env (ps_world s) = (f, w)" "f = None"
    "get_unpushed (pe_values env) (pe_arrange env) n t (ps_db s) \<noteq> []"
    "client_push env (new_push_data (get_unpushed (pe_values env) (pe_arrange env) n t (ps_db s))) w = (Refused err data, w1)"
    "answer_ids env (Refused err data) = Some ids"
  shows "round_sent env t n s r s' (get_unpushed (pe_values env) (pe_arrange env) n t (ps_db s)) (Refused err data)"
proof -
  let ?items = "get_unpushed (pe_values env) (pe_arrange env) n t (ps_db s)"
  let ?s1 = "s\<lparr>ps_world := w1, ps_sent := ps_sent s @ [(?items, Refused err data)]\<rparr>"
  obtain d where d: "data = Some d" "d \<noteq> []" "pe_decode env d = Inr ids"
    using assms(6) by (cases data) (auto split: if_splits sum.splits)
  obtain h s2 where h: "handle_failed env t (filter (\<lambda>i. pk i \<in> set ids) ?items) ?s1 = (h, s2)" by force
  obtain e s3 where m: "mark_items env t (filter (\<lambda>i. pk i \<notin> set ids) ?items) s2 = (e, s3)" by force
  show ?thesis
  proof (cases h)
    case None
    then have "s' = s3 \<and> r = (case e of Some x \<Rightarrow> Ended (Some x) | None \<Rightarrow> Ended (if ids \<noteq> [] then None else Some (PushRefused err)))"
      using assms(1-5) h d m by (auto simp: push_round_def Let_def split: option.splits)
    then have rs: "s' = s3" "r \<noteq> GoOn" "r = Ended None \<longrightarrow> e = None" by (auto split: option.splits)
    have h0: "handle_failed env t (filter (\<lambda>i. pk i \<in> set ids) ?items) ?s1 = (None, s2)" using h None by simp
    show ?thesis
      using round_refused [OF assms(6) _ h0 m rs(2,3) refl assms(4)] rs(1) by simp
  next
    case (Some x)
    then have rs: "s' = s2" "r = Ended (Some x)" using assms(1-5) h d by (simp_all add: push_round_def Let_def)
    obtain us where "ps_db s2 = fold reset_pushed us (ps_db s)" using handle_failed_result(4) [OF h] by auto
    then show ?thesis
      using handle_failed_result(3) [OF h] assms(4) rs by (intro round_stopped [of s' s ?items _ us]) simp_all
  qed
qed

lemma push_round_result:
  assumes "push_round env t n s = (r, s')"
  shows "(r \<noteq> GoOn \<and> ps_sent s' = ps_sent s \<and> ps_db s' = ps_db s \<and> ps_count s' = ps_count s \<and> ps_foreign s' = ps_foreign s
      \<and> (r = Ended None \<longrightarrow> get_unpushed (pe_values env) (pe_arrange env) n t (ps_db s) = []))
    \<or> (\<exists>items answer. round_sent env t n s r s' items answer)"
proof -
  let ?items = "get_unpushed (pe_values env) (pe_arrange env) n t (ps_db s)"
  obtain f w where f: "pe_fetch env (ps_world s) = (f, w)" by force
  consider (quiet) "f \<noteq> None \<or> ?items = []" | (send) "f = None" "?items \<noteq> []" by blast
  then show ?thesis
  proof cases
    case quiet then show ?thesis using assms f by (cases f) (auto simp: push_round_def)
  next
    case send
    obtain answer w1 where p: "client_push env (new_push_data ?items) w = (answer, w1)" by force
    let ?s1 = "s\<lparr>ps_world := w1, ps_sent := ps_sent s @ [(?items, answer)]\<rparr>"
    have stopped: "round_sent env t n s r s' ?items answer" if "s' = ?s1" "r \<noteq> GoOn" "r \<noteq> Ended None"
      using round_stopped [of s' s ?items answer "[]" r env n t] that send(2) by simp
    show ?thesis
    proof (cases "answer_ids env answer")
      case None
      then have "s' = ?s1 \<and> r \<noteq> GoOn \<and> r \<noteq> Ended None"
        using assms f p send by (cases answer rule: push_answer.exhaust) (auto simp: push_round_def Let_def split: option.splits sum.splits if_splits)
      then show ?thesis using stopped by blast
    next
      case (Some ids)
      show ?thesis
      proof (cases answer)
        case Accepted
        obtain e s2 where m: "mark_items env t ?items ?s1 = (e, s2)" by force
        have "s' = s2 \<and> r = (case e of None \<Rightarrow> GoOn | Some x \<Rightarrow> Ended (Some x))"
          using assms f p send m Accepted by (auto simp: push_round_def Let_def split: option.splits)
        then have "round_sent env t n s r s' ?items Accepted"
          using round_accepted [OF m [unfolded Accepted] refl send(2)] by simp
        then show ?thesis by blast
      next
        case (Refused err data)
        have "round_sent env t n s r s' ?items (Refused err data)"
          using round_sent_refused [OF assms f send p [unfolded Refused] Some [unfolded Refused]] .
        then show ?thesis by blast
      qed
    qed
  qed
qed

subsection \<open>The loop\<close>

text \<open>What a run may have done to the rows: nothing is marked but what the upstream took.\<close>

definition marked_only :: "'f go_values \<Rightarrow> pushable \<Rightarrow> 'f db_item list \<Rightarrow> 'f agent_db \<Rightarrow> 'f agent_db \<Rightarrow> bool" where
  "marked_only g t B db db' \<longleftrightarrow> list_all2 (\<lambda>x y. fst y = fst x \<and> (snd y \<longrightarrow> snd x \<or> marks g t B (fst x))) db db'"

lemma marks_mono: "marks g t b i \<Longrightarrow> set b \<subseteq> set c \<Longrightarrow> marks g t c i"
  by (auto simp: marks_def)

lemma marked_only_refl [simp]: "marked_only g t B db db"
  by (simp add: marked_only_def list_all2_refl)

lemma marked_only_trans:
  assumes "marked_only g t B db db1" "marked_only g t C db1 db2" "set B \<subseteq> set D" "set C \<subseteq> set D"
  shows "marked_only g t D db db2"
  unfolding marked_only_def
  by (rule list_all2_trans [OF _ assms(1) [unfolded marked_only_def] assms(2) [unfolded marked_only_def]])
    (use marks_mono assms(3,4) in metis)

lemma marked_only_mark: "set b \<subseteq> set B \<Longrightarrow> marked_only g t B db (mark_rows g t b db)"
  by (auto simp: marked_only_def mark_rows_def list_all2_map2 intro!: list_all2_refl dest: marks_mono)

lemma marked_only_reset: "marked_only g t B db (fold reset_pushed us db)"
proof (induction us arbitrary: db)
  case (Cons u us)
  have "marked_only g t B db (reset_pushed u db)"
    by (auto simp: marked_only_def reset_pushed_def list_all2_map2 intro!: list_all2_refl)
  then show ?case using Cons [of "reset_pushed u db"] marked_only_trans by force
qed simp

lemma marked_only_items: "marked_only g t B db db' \<Longrightarrow> map fst db' = map fst db"
  unfolding marked_only_def by (induction rule: list_all2_induct) simp_all

definition all_taken :: "('f, 'w) push_env \<Rightarrow> ('f db_item list \<times> push_answer) list \<Rightarrow> 'f db_item list" where
  "all_taken env sent = concat (map (taken env) sent)"

lemma round_sent_marked:
  assumes "round_sent env t n s r s' items answer"
  shows "marked_only (pe_values env) t (taken env (items, answer)) (ps_db s) (ps_db s')"
proof -
  obtain b us where "set b \<subseteq> set (taken env (items, answer))" "ps_db s' = mark_rows (pe_values env) t b (fold reset_pushed us (ps_db s))"
    using assms by (auto simp: round_sent_def)
  then show ?thesis using marked_only_trans [OF marked_only_reset marked_only_mark] by (metis order_refl)
qed

lemma reconcile_loop_marked:
  "reconcile_loop fuel env t n s = Some (e, s') \<Longrightarrow>
     \<exists>sent. ps_sent s' = ps_sent s @ sent \<and> marked_only (pe_values env) t (all_taken env sent) (ps_db s) (ps_db s')"
proof (induction fuel arbitrary: s)
  case (Suc fuel)
  obtain r s1 where r: "push_round env t n s = (r, s1)" by force
  from push_round_result [OF r] consider
      (quiet) "r \<noteq> GoOn" "ps_sent s1 = ps_sent s" "ps_db s1 = ps_db s"
    | (sent) items answer where "round_sent env t n s r s1 items answer" by blast
  then show ?case
  proof cases
    case quiet
    then have "s' = s1" using Suc.prems r by (cases r) auto
    then show ?thesis using quiet by (intro exI [of _ "[]"]) (simp add: all_taken_def)
  next
    case (sent items answer)
    have s1: "ps_sent s1 = ps_sent s @ [(items, answer)]" using sent by (simp add: round_sent_def)
    have m1: "marked_only (pe_values env) t (taken env (items, answer)) (ps_db s) (ps_db s1)" by (rule round_sent_marked [OF sent])
    show ?thesis
    proof (cases r)
      case GoOn
      then have "reconcile_loop fuel env t n s1 = Some (e, s')" using Suc.prems r by simp
      then obtain sent' where s': "ps_sent s' = ps_sent s1 @ sent'" "marked_only (pe_values env) t (all_taken env sent') (ps_db s1) (ps_db s')"
        using Suc.IH by blast
      have "marked_only (pe_values env) t (all_taken env ((items, answer) # sent')) (ps_db s) (ps_db s')"
        by (rule marked_only_trans [OF m1 s'(2)]) (auto simp: all_taken_def)
      then show ?thesis using s1 s'(1) by (intro exI [of _ "(items, answer) # sent'"]) simp
    next
      case Ended
      then have "s' = s1" using Suc.prems r by simp
      then show ?thesis using s1 m1 by (intro exI [of _ "[(items, answer)]"]) (simp add: all_taken_def)
    qed
  qed
qed simp

text \<open>The laws of the order the database chooses, and of the keys of view rows.\<close>

definition arranges :: "('f db_item list \<Rightarrow> 'f db_item list) \<Rightarrow> bool" where
  "arranges f \<longleftrightarrow> (\<forall>xs. mset (f xs) = mset xs)"

definition keys_present :: "'f go_values \<Rightarrow> pushable \<Rightarrow> 'f agent_db \<Rightarrow> bool" where
  "keys_present g t db \<longleftrightarrow> (\<forall>x \<in> set db. table_name (fst x) = pushable_name t \<longrightarrow> null_free t (fetched g t (fst x)))"

lemma keys_present_cong: "map fst db = map fst db' \<Longrightarrow> keys_present g t db = keys_present g t db'"
proof -
  have "keys_present g t d \<longleftrightarrow> (\<forall>i \<in> set (map fst d). table_name i = pushable_name t \<longrightarrow> null_free t (fetched g t i))" for d
    by (simp add: keys_present_def)
  then show "map fst db = map fst db' \<Longrightarrow> keys_present g t db = keys_present g t db'" by (simp only:)
qed

lemma filter_marked:
  "map fst (filter (\<lambda>x. P (fst x) \<and> \<not> snd x \<and> Q (fst x)) (map (\<lambda>x. (fst x, snd x \<or> M (fst x))) db))
   = filter (\<lambda>i. \<not> M i) (map fst (filter (\<lambda>x. P (fst x) \<and> \<not> snd x \<and> Q (fst x)) db))"
  by (induction db) auto

text \<open>The rows that are left after an accepted batch is marked.\<close>

lemma unpushed_mark: "unpushed u (mark_rows g t b db) = filter (\<lambda>i. \<not> marks g t b i) (unpushed u db)"
proof -
  have p: "pushes (mark_rows g t b db) i = pushes db i" for i by (rule pushes_cong) simp
  have "unpushed u (mark_rows g t b db)
      = map fst (filter (\<lambda>x. table_name (fst x) = pushable_name u \<and> \<not> snd x \<and> pushes db (fst x)) (mark_rows g t b db))"
    by (simp only: unpushed_def p)
  also have "\<dots> = filter (\<lambda>i. \<not> marks g t b i) (unpushed u db)"
    unfolding unpushed_def mark_rows_def by (rule filter_marked)
  finally show ?thesis .
qed

lemma unpushed_shrinks:
  assumes "arranges f" "keys_present g t db" "items = get_unpushed g f n t db" "items \<noteq> []"
  shows "length (unpushed t (mark_rows g t items db)) < length (unpushed t db)"
proof -
  let ?batch = "take n (sort_key order_key (f (unpushed t db)))"
  have items: "items = map (fetched g t) ?batch" by (simp add: assms(3) get_unpushed_def)
  then obtain i where i: "i \<in> set ?batch" using assms(4) by (cases ?batch) auto
  have "set (f (unpushed t db)) = set (unpushed t db)" using assms(1) unfolding arranges_def by (metis mset_eq_setD)
  then have u: "i \<in> set (unpushed t db)" using set_take_subset [of n "sort_key order_key (f (unpushed t db))"] i by auto
  then have "marks g t items i" using assms(2) i unfolding items marks_def keys_present_def unpushed_def by auto
  then show ?thesis unfolding unpushed_mark using u by (intro length_filter_less) auto
qed

lemma reconcile_loop_ends:
  assumes "arranges (pe_arrange env)"
  shows "length (unpushed t (ps_db s)) < fuel \<Longrightarrow> keys_present (pe_values env) t (ps_db s) \<Longrightarrow> reconcile_loop fuel env t n s \<noteq> None"
proof (induction fuel arbitrary: s)
  case (Suc fuel)
  obtain r s1 where r: "push_round env t n s = (r, s1)" by force
  show ?case
  proof (cases r)
    case GoOn
    then obtain items answer where "round_sent env t n s r s1 items answer" using push_round_result [OF r] by blast
    then have it: "items = get_unpushed (pe_values env) (pe_arrange env) n t (ps_db s)" "items \<noteq> []"
      "ps_db s1 = mark_rows (pe_values env) t items (ps_db s)" using GoOn unfolding round_sent_def by blast+
    have "length (unpushed t (ps_db s1)) < fuel"
      using unpushed_shrinks [OF assms Suc.prems(2) it(1,2)] Suc.prems(1) it(3) by simp
    moreover have "keys_present (pe_values env) t (ps_db s1)"
      using Suc.prems(2) keys_present_cong [of "ps_db s1" "ps_db s"] it(3) by simp
    ultimately show ?thesis using Suc.IH r GoOn by simp
  qed (use r in simp)
qed simp

lemma ended_refused:
  assumes "push_round env t n s = (Ended None, s')" "round_sent env t n s (Ended None) s' items answer"
  shows "\<exists>e d. answer_ids env answer \<noteq> Some [] \<and> answer = Refused e (Some d)"
proof -
  let ?items = "get_unpushed (pe_values env) (pe_arrange env) n t (ps_db s)"
  have "items = ?items" "items \<noteq> []" "ps_sent s' = ps_sent s @ [(items, answer)]"
    using assms(2) unfolding round_sent_def by blast+
  then have it: "?items \<noteq> []" "ps_sent s' = ps_sent s @ [(?items, answer)]" by metis+
  obtain f w where f: "pe_fetch env (ps_world s) = (f, w)" by force
  then have fn: "f = None" using assms(1) by (cases f) (simp_all add: push_round_def)
  obtain a w1 where p: "client_push env (new_push_data ?items) w = (a, w1)" by force
  let ?s1 = "s\<lparr>ps_world := w1, ps_sent := ps_sent s @ [(?items, a)]\<rparr>"
  show ?thesis
  proof (cases a)
    case Accepted
    then show ?thesis using assms(1) f fn p it(1) by (auto simp: push_round_def Let_def split: prod.splits option.splits)
  next
    case (Refused e data)
    have d: "data \<noteq> None" using assms(1) f fn p it(1) Refused by (cases data) (simp_all add: push_round_def Let_def)
    then obtain d where d: "data = Some d" by blast
    have nonempty: "d \<noteq> []" using assms(1) f fn p it(1) Refused d by (cases "d = []") (simp_all add: push_round_def Let_def)
    then obtain ids where ids: "pe_decode env d = Inr ids"
      using assms(1) f fn p it(1) Refused d by (cases "pe_decode env d") (simp_all add: push_round_def Let_def)
    obtain h s2 where h: "handle_failed env t (filter (\<lambda>i. pk i \<in> set ids) ?items) ?s1 = (h, s2)" by force
    have h0: "h = None" using assms(1) f fn p it(1) Refused d nonempty ids h by (cases h) (simp_all add: push_round_def Let_def)
    obtain e2 s3 where m: "mark_items env t (filter (\<lambda>i. pk i \<notin> set ids) ?items) s2 = (e2, s3)" by force
    have fin: "ids \<noteq> [] \<and> s' = s3"
      using assms(1) f fn p it(1) Refused d nonempty ids h h0 m
      by (cases e2) (simp_all add: push_round_def Let_def split: if_splits)
    have "ps_sent s3 = ps_sent s @ [(?items, a)]"
      using mark_items_result(3) [OF m] handle_failed_result(3) [OF h] by simp
    then have "answer = a" using it(2) fin by simp
    then show ?thesis using Refused d nonempty ids fin by simp
  qed
qed

lemma reconcile_loop_counts:
  "reconcile_loop fuel env t n s = Some (None, s') \<Longrightarrow>
     \<exists>sent. ps_sent s' = ps_sent s @ sent \<and> ps_count s' = ps_count s + length (all_taken env sent)
       \<and> ps_foreign s' = ps_foreign s @ map pk (concat (map (not_taken env) sent))
       \<and> (get_unpushed (pe_values env) (pe_arrange env) n t (ps_db s') = [] \<or> (\<exists>e d. answer_ids env (snd (last sent)) \<noteq> Some [] \<and> sent \<noteq> [] \<and> snd (last sent) = Refused e (Some d)))"
proof (induction fuel arbitrary: s)
  case (Suc fuel)
  obtain r s1 where r: "push_round env t n s = (r, s1)" by force
  show ?case
  proof (cases r)
    case GoOn
    then obtain items answer where it: "round_sent env t n s GoOn s1 items answer" using push_round_result [OF r] by blast
    have loop: "reconcile_loop fuel env t n s1 = Some (None, s')" using Suc.prems r GoOn by simp
    have s1: "ps_sent s1 = ps_sent s @ [(items, answer)]" "ps_count s1 = ps_count s + length (taken env (items, answer))"
      "ps_foreign s1 = ps_foreign s @ map pk (not_taken env (items, answer))"
      using it by (simp_all add: round_sent_def)
    from Suc.IH [OF loop] obtain sent where IH: "ps_sent s' = ps_sent s1 @ sent" "ps_count s' = ps_count s1 + length (all_taken env sent)"
      "ps_foreign s' = ps_foreign s1 @ map pk (concat (map (not_taken env) sent))"
      "get_unpushed (pe_values env) (pe_arrange env) n t (ps_db s') = [] \<or>
        (\<exists>e d. answer_ids env (snd (last sent)) \<noteq> Some [] \<and> sent \<noteq> [] \<and> snd (last sent) = Refused e (Some d))" by blast
    then show ?thesis using s1 by (intro exI [of _ "(items, answer) # sent"]) (auto simp: all_taken_def)
  next
    case (Ended e)
    then have e: "r = Ended None" "s' = s1" using Suc.prems r by simp_all
    from push_round_result [OF r] e show ?thesis
    proof (elim disjE exE)
      fix items answer assume it: "round_sent env t n s r s1 items answer"
      have refused: "\<exists>x d. answer_ids env answer \<noteq> Some [] \<and> answer = Refused x (Some d)"
        using ended_refused [OF r [unfolded e(1)] it [unfolded e(1)]] .
      have "ps_sent s1 = ps_sent s @ [(items, answer)]" "ps_count s1 = ps_count s + length (taken env (items, answer))"
        "ps_foreign s1 = ps_foreign s @ map pk (not_taken env (items, answer))"
        using it e(1) by (simp_all add: round_sent_def)
      then show ?thesis using e(2) refused by (intro exI [of _ "[(items, answer)]"]) (simp add: all_taken_def)
    qed (auto simp: all_taken_def intro!: exI [of _ "[]"])
  qed
qed simp


definition sample_go_values :: "unit go_values" where
  "sample_go_values = \<lparr>gv_parse_duration = (\<lambda>s. None), gv_parse_time = (\<lambda>s. None), gv_truncate = (\<lambda>x. 0), gv_print = go_type,
     gv_zero = (), gv_zero_time = 0\<rparr>"

text \<open>An upstream that takes everything but the canary \<open>c2\<close>, whose parent it does not have.\<close>

definition sample_push_env :: "(unit, unit) push_env" where
  "sample_push_env = \<lparr>pe_fetch = (\<lambda>w. (None, w)),
     pe_push = (\<lambda>msg w. (if ''c2'' \<in> set (map cn_id (pd_canaries msg)) then Refused ''conflict'' (Some ''c2'') else Accepted, w)),
     pe_decode = (\<lambda>d. Inr [d]), pe_resets = (\<lambda>w. (\<lambda>t. None, w)), pe_mark = (\<lambda>w. (MarkOk, w)), pe_values = sample_go_values,
     pe_arrange = (\<lambda>xs. xs), pe_mark_size = 200\<rparr>"

definition sample_canary :: "string \<Rightarrow> unit db_item" where
  "sample_canary i = Canary \<lparr>cn_id = i, cn_agent = zero_uuid, cn_labels = [], cn_data = []\<rparr>"

definition sample_push_state :: "(unit, unit) push_state" where
  "sample_push_state = \<lparr>ps_count = 0, ps_foreign = [],
     ps_db = [(sample_canary ''c1'', False), (sample_canary ''c2'', False), (sample_canary ''c3'', False)],
     ps_world = (), ps_sent = []\<rparr>"

lemma sample_reconcile:
  "map_option (\<lambda>(e, s). (e, map snd (ps_db s), ps_count s, ps_foreign s)) (reconcile_table sample_push_env (Table ''canaries'') 2 sample_push_state)
   = Some (None, [True, False, False], 1, [''c2''])"
  by code_simp


text \<open>C25: Pushing a table ends, however the database orders its rows and whatever the upstream answers: every
  round that goes on marks a row. The rows of a view must have their key, which the table's primary key gives.\<close>

theorem reconcile_table_ends:
  assumes "arranges (pe_arrange env)" "keys_present (pe_values env) t (ps_db s)"
  shows "\<exists>e s'. reconcile_table env t n s = Some (e, s')"
proof -
  have "reconcile_table env t n s \<noteq> None"
    unfolding reconcile_table_def by (rule reconcile_loop_ends [OF assms(1)]) (simp_all add: assms(2))
  then show ?thesis by auto
qed

lemma reconcile_table_ends_witness:
  "\<exists>e s'. reconcile_table sample_push_env (Table ''canaries'') 2 sample_push_state = Some (e, s')"
proof (rule reconcile_table_ends)
  show "arranges (pe_arrange sample_push_env)" by (simp add: arranges_def sample_push_env_def)
  show "keys_present (pe_values sample_push_env) (Table ''canaries'') (ps_db sample_push_state)"
    by (simp add: keys_present_def sample_push_state_def sample_canary_def null_free_def fetched_def)
qed

text \<open>The relationships of checks and components have no case in the message: it is empty, the client sends
  nothing, and the loop marks them as pushed.\<close>

definition never_fails :: "('f, 'w) push_env \<Rightarrow> bool" where
  "never_fails env \<longleftrightarrow> (\<forall>w. pe_fetch env w = (None, w) \<and> pe_mark env w = (MarkOk, w)) \<and> 0 < pe_mark_size env"

lemma mark_items_ok:
  assumes "never_fails env" "t = Table name"
  shows "fst (mark_items env t items s) = None \<and> ps_world (snd (mark_items env t items s)) = ps_world s"
proof -
  have one: "fst (mark_batch 3 env t b s) = None \<and> ps_world (snd (mark_batch 3 env t b s)) = ps_world s" for b s
    using assms by (subst (1 2) mark_batch.simps) (simp add: never_fails_def update_is_pushed_def)
  have "fst (mark_batches env t bs s) = None \<and> ps_world (snd (mark_batches env t bs s)) = ps_world s" for bs s
  proof (induction bs arbitrary: s)
    case (Cons b bs)
    obtain e s1 where b: "mark_batch 3 env t b s = (e, s1)" by force
    then show ?case using one [of b s] Cons [of s1] by simp
  qed simp
  then show ?thesis using assms(1) by (simp add: mark_items_def never_fails_def Let_def)
qed

definition unsendable :: "string \<Rightarrow> 'f agent_db \<Rightarrow> bool" where
  "unsendable name db \<longleftrightarrow> (\<forall>x \<in> set db. table_name (fst x) = name \<longrightarrow> \<not> sent_row (fst x))"

lemma unsendable_round:
  assumes "never_fails env" "unsendable name (ps_db s)" "arranges (pe_arrange env)"
    "get_unpushed (pe_values env) (pe_arrange env) n (Table name) (ps_db s) \<noteq> []"
  shows "\<exists>s1. push_round env (Table name) n s = (GoOn, s1) \<and> ps_world s1 = ps_world s"
proof -
  let ?items = "get_unpushed (pe_values env) (pe_arrange env) n (Table name) (ps_db s)"
  have "\<not> sent_row i" if "i \<in> set ?items" for i
  proof -
    have "set (pe_arrange env xs) = set xs" for xs using assms(3) unfolding arranges_def by (metis mset_eq_setD)
    then have "i \<in> set (unpushed (Table name) (ps_db s))"
      using that set_take_subset by (fastforce simp: get_unpushed_def fetched_def)
    then show ?thesis using assms(2) by (auto simp: unsendable_def unpushed_def)
  qed
  then have "push_count (new_push_data ?items) = 0" by (simp add: new_push_data_count filter_empty_conv)
  then have "client_push env (new_push_data ?items) (ps_world s) = (Accepted, ps_world s)" by (simp add: client_push_def)
  moreover obtain e s1 where m: "mark_items env (Table name) ?items (s\<lparr>ps_world := ps_world s, ps_sent := ps_sent s @ [(?items, Accepted)]\<rparr>) = (e, s1)"
    by force
  moreover have "e = None \<and> ps_world s1 = ps_world s"
    using mark_items_ok [OF assms(1) refl, of name ?items "s\<lparr>ps_world := ps_world s, ps_sent := ps_sent s @ [(?items, Accepted)]\<rparr>"] m by simp
  ultimately show ?thesis using assms(1,4) by (simp add: push_round_def never_fails_def Let_def)
qed

lemma null_free_table: "null_free (Table name) i"
  by (cases i) (simp_all add: null_free_def)

lemma keys_present_table [simp]: "keys_present g (Table name) db"
  by (simp add: keys_present_def null_free_table)

lemma get_unpushed_Nil: "arranges f \<Longrightarrow> 0 < n \<Longrightarrow> get_unpushed g f n t db = [] \<longleftrightarrow> unpushed t db = []"
proof -
  assume f: "arranges f" and n: "0 < n"
  have "mset (sort_key order_key (f (unpushed t db))) = mset (unpushed t db)" using f by (simp add: arranges_def)
  then have "sort_key order_key (f (unpushed t db)) = [] \<longleftrightarrow> unpushed t db = []" by (metis mset_zero_iff)
  then show ?thesis using n by (simp add: get_unpushed_def)
qed

lemma round_go_on:
  assumes "push_round env t n s = (GoOn, s1)"
  shows "ps_db s1 = mark_rows (pe_values env) t (get_unpushed (pe_values env) (pe_arrange env) n t (ps_db s)) (ps_db s)"
    "get_unpushed (pe_values env) (pe_arrange env) n t (ps_db s) \<noteq> []"
proof -
  obtain items answer where it: "round_sent env t n s GoOn s1 items answer" using push_round_result [OF assms] by blast
  have "items = get_unpushed (pe_values env) (pe_arrange env) n t (ps_db s)" "items \<noteq> []" "ps_db s1 = mark_rows (pe_values env) t items (ps_db s)"
    using it unfolding round_sent_def by blast+
  then show "ps_db s1 = mark_rows (pe_values env) t (get_unpushed (pe_values env) (pe_arrange env) n t (ps_db s)) (ps_db s)"
    "get_unpushed (pe_values env) (pe_arrange env) n t (ps_db s) \<noteq> []" by metis+
qed

lemma unsendable_cong: "map fst db = map fst db' \<Longrightarrow> unsendable name db = unsendable name db'"
proof -
  have "unsendable name d \<longleftrightarrow> (\<forall>i \<in> set (map fst d). table_name i = name \<longrightarrow> \<not> sent_row i)" for d :: "'a agent_db"
    by (simp add: unsendable_def)
  then show "map fst db = map fst db' \<Longrightarrow> unsendable name db = unsendable name db'" by (simp only:)
qed

lemma unsendable_loop:
  assumes "never_fails env" "arranges (pe_arrange env)" "0 < n"
  shows "length (unpushed (Table name) (ps_db s)) < fuel \<Longrightarrow> unsendable name (ps_db s) \<Longrightarrow>
    \<exists>s'. reconcile_loop fuel env (Table name) n s = Some (None, s') \<and> unpushed (Table name) (ps_db s') = [] \<and> ps_world s' = ps_world s"
proof (induction fuel arbitrary: s)
  case (Suc fuel)
  show ?case
  proof (cases "get_unpushed (pe_values env) (pe_arrange env) n (Table name) (ps_db s) = []")
    case True
    then have "push_round env (Table name) n s = (Ended None, s\<lparr>ps_world := ps_world s\<rparr>)"
      using assms(1) by (simp add: push_round_def never_fails_def)
    then show ?thesis using True get_unpushed_Nil [OF assms(2,3)] by simp
  next
    case False
    obtain s1 where s1: "push_round env (Table name) n s = (GoOn, s1)" "ps_world s1 = ps_world s"
      using unsendable_round [OF assms(1) Suc.prems(2) assms(2) False] by blast
    note db = round_go_on [OF s1(1)]
    have less: "length (unpushed (Table name) (ps_db s1)) < fuel"
      using unpushed_shrinks [OF assms(2) keys_present_table refl db(2)] Suc.prems(1) db(1) by simp
    have "unsendable name (ps_db s1)"
      using Suc.prems(2) unsendable_cong [of "ps_db s1" "ps_db s"] db(1) by simp
    from Suc.IH [OF less this] s1 show ?thesis by simp
  qed
qed simp

text \<open>C26: The relationships of checks and components are never sent: with a database that never fails, all of
  them are marked as pushed, the table is reported without an error, and the upstream is not called.\<close>

theorem check_components_never_sent:
  assumes "never_fails env" "arranges (pe_arrange env)" "0 < n"
    "\<forall>x \<in> set (ps_db s). table_name (fst x) = ''check_component_relationships'' \<longrightarrow> (\<exists>r. fst x = CheckComponentRelationship r)"
  shows "\<exists>s'. reconcile_table env (Table ''check_component_relationships'') n s = Some (None, s')
    \<and> unpushed (Table ''check_component_relationships'') (ps_db s') = [] \<and> ps_world s' = ps_world s"
proof -
  have "unsendable ''check_component_relationships'' (ps_db s)"
    using assms(4) by (fastforce simp: unsendable_def sent_row_def)
  then show ?thesis
    using unsendable_loop [OF assms(1-3), of "''check_component_relationships''" "s\<lparr>ps_count := 0, ps_foreign := []\<rparr>"
        "Suc (length (unpushed (Table ''check_component_relationships'') (ps_db s)))"]
    by (simp add: reconcile_table_def del: reconcile_loop.simps)
qed

lemma check_components_never_sent_witness:
  "\<exists>s'. reconcile_table sample_push_env (Table ''check_component_relationships'') 5
       \<lparr>ps_count = 0, ps_foreign = [], ps_db = [(CheckComponentRelationship \<lparr>kp_component = ''a'', kp_check = ''b'', kp_canary = ''c'', kp_selector = [], kp_data = []\<rparr>, False)],
        ps_world = (), ps_sent = []\<rparr> = Some (None, s')"
proof -
  have "never_fails sample_push_env" "arranges (pe_arrange sample_push_env)"
    by (simp_all add: never_fails_def sample_push_env_def arranges_def)
  then show ?thesis
    using check_components_never_sent [of sample_push_env 5 "\<lparr>ps_count = 0, ps_foreign = [], ps_db = [(CheckComponentRelationship \<lparr>kp_component = ''a'', kp_check = ''b'', kp_canary = ''c'', kp_selector = [], kp_data = []\<rparr>, False)], ps_world = (), ps_sent = []\<rparr>"]
    by auto
qed

text \<open>A refusal whose data names no row: the whole batch is marked as pushed, and the error is returned.\<close>

lemma refused_without_ids:
  assumes "never_fails env" "items = get_unpushed (pe_values env) (pe_arrange env) n (Table name) (ps_db s)" "items \<noteq> []"
    "pe_push env (new_push_data items) (ps_world s) = (Refused e (Some d), w)" "d \<noteq> []" "pe_decode env d = Inr []"
    "push_count (new_push_data items) \<noteq> 0"
  shows "\<exists>s'. push_round env (Table name) n s = (Ended (Some (PushRefused e)), s') \<and> ps_db s' = mark_rows (pe_values env) (Table name) items (ps_db s)"
proof -
  let ?s1 = "s\<lparr>ps_world := w, ps_sent := ps_sent s @ [(items, Refused e (Some d))]\<rparr>"
  have h: "handle_failed env (Table name) (filter (\<lambda>i. pk i \<in> set []) items) ?s1 = (None, ?s1)"
    by (simp add: handle_failed_def Let_def split: option.splits)
  obtain x s3 where m: "mark_items env (Table name) items ?s1 = (x, s3)" by force
  have "x = None" using mark_items_ok [OF assms(1) refl, of name items ?s1] m by simp
  then have db: "ps_db s3 = mark_rows (pe_values env) (Table name) items (ps_db s)"
    using mark_items_result(4) [OF m] by auto
  have "push_round env (Table name) n s = (Ended (Some (PushRefused e)), s3)"
    using assms m \<open>x = None\<close> h by (simp add: push_round_def never_fails_def client_push_def Let_def)
  then show ?thesis using db by blast
qed

subsection \<open>Groups\<close>

record push_group =
  pg_name :: string
  pg_tables :: "pushable list"
  pg_depends :: "string list"

definition reconcile_table_groups :: "push_group list" where
  "reconcile_table_groups =
     [\<lparr>pg_name = ''configs'', pg_tables = map Table [''config_scrapers'', ''config_items'', ''config_items_last_scraped_time'',
        ''config_changes'', ''config_analysis'', ''config_relationships''], pg_depends = []\<rparr>,
      \<lparr>pg_name = ''topologies'', pg_tables = map Table [''topologies'', ''components'', ''component_relationships''], pg_depends = []\<rparr>,
      \<lparr>pg_name = ''canaries'', pg_tables = map Table [''canaries'', ''checks'', ''check_statuses'', ''checks_unlogged''], pg_depends = []\<rparr>,
      \<lparr>pg_name = ''CheckComponentRelationship'', pg_tables = [Table ''check_component_relationships''], pg_depends = [''checks'', ''components'']\<rparr>,
      \<lparr>pg_name = ''CheckConfigRelationship'', pg_tables = [Table ''check_config_relationships''], pg_depends = [''checks'', ''config_items'']\<rparr>,
      \<lparr>pg_name = ''ConfigComponentRelationship'', pg_tables = [Table ''config_component_relationships''], pg_depends = [''config_items'', ''components'']\<rparr>,
      \<lparr>pg_name = ''JobHistory'', pg_tables = [Table ''job_history''], pg_depends = []\<rparr>,
      \<lparr>pg_name = ''Artifact'', pg_tables = [Table ''artifacts''], pg_depends = []\<rparr>,
      \<lparr>pg_name = ''ViewPanels'', pg_tables = [Table ''view_panels''], pg_depends = []\<rparr>]"

type_synonym ('f, 'w) run_state = "reconcile_error run_summary \<times> ('f, 'w) push_state"

text \<open>The tables of a group in order; after an error the rest are skipped.\<close>

fun reconcile_tables :: "('f, 'w) push_env \<Rightarrow> nat \<Rightarrow> string list \<Rightarrow> pushable list \<Rightarrow> ('f, 'w) run_state \<Rightarrow> ('f, 'w) run_state option" where
  "reconcile_tables env n only [] x = Some x"
| "reconcile_tables env n only (t # ts) (summary, s) =
     (if only \<noteq> [] \<and> pushable_name t \<notin> set only then reconcile_tables env n only ts (summary, s)
      else case reconcile_table env t n s of
        None \<Rightarrow> None
      | Some (e, s1) \<Rightarrow>
         (let summary1 = add_stat (pushable_name t) (ps_count s1) (ps_foreign s1) e summary in
          case e of
            Some _ \<Rightarrow> Some (add_skipped ts summary1, s1)
          | None \<Rightarrow> reconcile_tables env n only ts (summary1, s1)))"

fun reconcile_groups :: "('f, 'w) push_env \<Rightarrow> nat \<Rightarrow> string list \<Rightarrow> push_group list \<Rightarrow> ('f, 'w) run_state \<Rightarrow> ('f, 'w) run_state option" where
  "reconcile_groups env n only [] x = Some x"
| "reconcile_groups env n only (g # gs) (summary, s) =
     (if \<not> did_reconcile summary (pg_depends g) then reconcile_groups env n only gs (add_skipped (pg_tables g) summary, s)
      else case reconcile_tables env n only (pg_tables g) (summary, s) of
        None \<Rightarrow> None
      | Some x \<Rightarrow> reconcile_groups env n only gs x)"

definition reconcile_some :: "('f, 'w) push_env \<Rightarrow> nat \<Rightarrow> string list \<Rightarrow> (reconcile_error + push_group list) \<Rightarrow> ('f, 'w) push_state
    \<Rightarrow> ('f, 'w) run_state option" where
  "reconcile_some env n only groups s =
     (case groups of
        Inl e \<Rightarrow> Some (add_stat ''generated_view_tables'' 0 [] (Some e) [], s)
      | Inr gs \<Rightarrow> reconcile_groups env n only gs ([], s))"

subsubsection \<open>Views\<close>

record view_ident =
  vi_namespace :: string
  vi_name :: string

record view_columns =
  vw_view :: view_ident
  vw_columns :: "column_def list"

text \<open>The list of views of the upstream is cached, whatever was asked for.\<close>

definition list_views :: "(view_ident list \<Rightarrow> string + view_columns list) \<Rightarrow> view_ident list \<Rightarrow> view_columns list option
    \<Rightarrow> (string + view_columns list) \<times> view_columns list option" where
  "list_views ask vs cache =
     (case cache of
        Some r \<Rightarrow> (Inr r, cache)
      | None \<Rightarrow> (case ask vs of Inl e \<Rightarrow> (Inl e, None) | Inr r \<Rightarrow> (Inr r, Some r)))"

text \<open>The columns are compared by position, as far as the local ones go; the upstream having fewer is an index
  out of range.\<close>

fun columns_match :: "column_def list \<Rightarrow> column_def list \<Rightarrow> string list option" where
  "columns_match [] up = Some []"
| "columns_match (l # ls) [] = None"
| "columns_match (l # ls) (u # us) =
     map_option ((@) (if cd_name l \<noteq> cd_name u \<or> cd_type l \<noteq> cd_type u then [cd_name l] else [])) (columns_match ls us)"

definition view_key :: "view_ident \<Rightarrow> string" where
  "view_key v = vi_namespace v @ ''/'' @ vi_name v"

fun view_tables :: "(view_ident \<Rightarrow> string + column_def list) \<Rightarrow> (string, column_def list) gomap \<Rightarrow> view_ident list
    \<Rightarrow> reconcile_error + pushable list" where
  "view_tables defs up [] = Inr []"
| "view_tables defs up (v # vs) =
     (case defs v of
        Inl e \<Rightarrow> Inl (ColumnDefsFailed (view_key v) e)
      | Inr cols \<Rightarrow>
         (case map_of up (view_key v) of
            None \<Rightarrow> view_tables defs up vs
          | Some ucols \<Rightarrow>
             (case columns_match cols ucols of
                None \<Rightarrow> Inl ColumnsPanic
              | Some [] \<Rightarrow> and_then (view_tables defs up vs) (\<lambda>ts.
                  Inr (ViewTable (generated_table_name (vi_namespace v) (vi_name v)) (primary_key cols) (to_column_type_map cols) # ts))
              | Some _ \<Rightarrow> view_tables defs up vs)))"

definition groups_with_views :: "(string + view_ident list) \<Rightarrow> (view_ident \<Rightarrow> string + column_def list)
    \<Rightarrow> (view_ident list \<Rightarrow> string + view_columns list) \<Rightarrow> view_columns list option
    \<Rightarrow> (reconcile_error + push_group list) \<times> view_columns list option" where
  "groups_with_views views defs ask cache =
     (case views of
        Inl e \<Rightarrow> (Inl (ListViewsFailed e), cache)
      | Inr [] \<Rightarrow> (Inr reconcile_table_groups, cache)
      | Inr (v # vs) \<Rightarrow>
         (case list_views ask (v # vs) cache of
            (Inl e, cache1) \<Rightarrow> (Inl (ListViewsFailed e), cache1)
          | (Inr up, cache1) \<Rightarrow>
             (and_then (view_tables defs (rev (map (\<lambda>u. (view_key (vw_view u), vw_columns u)) up)) (v # vs)) (\<lambda>ts.
                Inr (if ts = [] then reconcile_table_groups
                     else reconcile_table_groups @ [\<lparr>pg_name = ''generated_views'', pg_tables = ts, pg_depends = []\<rparr>])), cache1)))"

lemma columns_match_prefix: "columns_match ls us = Some [] \<Longrightarrow>
  length ls \<le> length us \<and> (\<forall>i < length ls. cd_name (ls ! i) = cd_name (us ! i) \<and> cd_type (ls ! i) = cd_type (us ! i))"
proof (induction ls us rule: columns_match.induct)
  case (3 l ls u us)
  then have "columns_match ls us = Some []" "cd_name l = cd_name u \<and> cd_type l = cd_type u"
    by (cases "columns_match ls us"; auto split: if_splits)+
  then show ?case using 3 by (auto simp: nth_Cons split: nat.splits)
qed simp_all

lemma columns_match_panics: "length us < length ls \<Longrightarrow> columns_match ls us = None"
  by (induction ls us rule: columns_match.induct) auto

lemma columns_match_more: "columns_match ls (ls @ us) = Some []"
  by (induction ls) simp_all

text \<open>Once a list is cached, views that were not in the request it answered are not pushed.\<close>

lemma cached_views_not_asked: "fst (list_views ask vs (Some r)) = Inr r"
  by (simp add: list_views_def)

text \<open>The tables of the views that are pushed have keys.\<close>

lemma view_tables_keys: "view_tables defs up vs = Inr ts \<Longrightarrow> t \<in> set ts \<Longrightarrow> \<exists>n cols. t = ViewTable n (primary_key cols) (to_column_type_map cols)"
  by (induction defs up vs arbitrary: ts rule: view_tables.induct)
    (auto simp: and_then_Inr_iff split: sum.splits option.splits list.splits, blast)

subsubsection \<open>What a quiet table does to the groups that depend on it\<close>

definition accepting :: "('f, 'w) push_env \<Rightarrow> bool" where
  "accepting env \<longleftrightarrow> never_fails env \<and> (\<forall>msg w. fst (pe_push env msg w) = Accepted)"

lemma accepting_round:
  assumes "accepting env" "push_round env (Table name) n s = (r, s1)"
  shows "r = GoOn \<or> r = Ended None"
proof -
  let ?items = "get_unpushed (pe_values env) (pe_arrange env) n (Table name) (ps_db s)"
  have nf: "never_fails env" using assms(1) by (simp add: accepting_def)
  obtain answer w where p: "client_push env (new_push_data ?items) (ps_world s) = (answer, w)" by force
  then have "answer = Accepted" using assms(1) by (auto simp: client_push_def accepting_def split: if_splits) (metis fst_conv)
  obtain e s2 where m: "mark_items env (Table name) ?items (s\<lparr>ps_world := w, ps_sent := ps_sent s @ [(?items, Accepted)]\<rparr>) = (e, s2)" by force
  have "e = None" using mark_items_ok [OF nf refl, of name ?items "s\<lparr>ps_world := w, ps_sent := ps_sent s @ [(?items, Accepted)]\<rparr>"] m by simp
  then show ?thesis
    using assms(2) nf p m \<open>answer = Accepted\<close> by (auto simp: push_round_def never_fails_def Let_def split: if_splits)
qed

lemma accepting_never_refuses:
  assumes "accepting env" "push_round env (Table name) n s = (r, s1)" "round_sent env (Table name) n s r s1 items answer"
  shows "answer = Accepted"
proof -
  let ?items = "get_unpushed (pe_values env) (pe_arrange env) n (Table name) (ps_db s)"
  have "items = ?items" "items \<noteq> []" "ps_sent s1 = ps_sent s @ [(items, answer)]"
    using assms(3) unfolding round_sent_def by blast+
  then have it: "?items \<noteq> []" "ps_sent s1 = ps_sent s @ [(?items, answer)]" by metis+
  have nf: "never_fails env" using assms(1) by (simp add: accepting_def)
  obtain a w where p: "client_push env (new_push_data ?items) (ps_world s) = (a, w)" by force
  then have acc: "a = Accepted" using assms(1) by (auto simp: client_push_def accepting_def split: if_splits) (metis fst_conv)
  obtain e s2 where m: "mark_items env (Table name) ?items (s\<lparr>ps_world := w, ps_sent := ps_sent s @ [(?items, Accepted)]\<rparr>) = (e, s2)" by force
  have "s1 = s2" using assms(2) nf p m acc it(1) by (cases e) (auto simp: push_round_def never_fails_def Let_def)
  then show ?thesis using mark_items_result(3) [OF m] it(2) by simp
qed

lemma accepting_loop:
  assumes "accepting env"
  shows "reconcile_loop fuel env (Table name) n s = Some (e, s') \<Longrightarrow>
    e = None \<and> (\<exists>b. ps_db s' = mark_rows (pe_values env) (Table name) b (ps_db s))
    \<and> (get_unpushed (pe_values env) (pe_arrange env) n (Table name) (ps_db s) = [] \<longrightarrow> ps_count s' = ps_count s \<and> ps_foreign s' = ps_foreign s)"
proof (induction fuel arbitrary: s)
  case (Suc fuel)
  obtain r s1 where r: "push_round env (Table name) n s = (r, s1)" by force
  show ?case
  proof (cases r)
    case GoOn
    then have loop: "reconcile_loop fuel env (Table name) n s1 = Some (e, s')" using Suc.prems r by simp
    obtain b where b: "e = None" "ps_db s' = mark_rows (pe_values env) (Table name) b (ps_db s1)" using Suc.IH [OF loop] by blast
    note db = round_go_on [OF r [unfolded GoOn]]
    have "ps_db s' = mark_rows (pe_values env) (Table name) (get_unpushed (pe_values env) (pe_arrange env) n (Table name) (ps_db s) @ b) (ps_db s)"
      unfolding b(2) db(1) by (rule mark_rows_append)
    then show ?thesis using b(1) db(2) by blast
  next
    case (Ended x)
    then have e: "e = x" "s' = s1" "x = None" using Suc.prems r accepting_round [OF assms r] by simp_all
    from push_round_result [OF r]
    show ?thesis
    proof (elim disjE exE)
      fix items answer assume it: "round_sent env (Table name) n s r s1 items answer"
      have "\<exists>y d. answer_ids env answer \<noteq> Some [] \<and> answer = Refused y (Some d)"
        using ended_refused [of env "Table name" n s s1 items answer] r it Ended e(3) by simp
      then have False
        using accepting_never_refuses [OF assms r it] by auto
      then show ?thesis ..
    qed (use e in \<open>auto intro: exI [of _ "[]"] simp: mark_rows_Nil\<close>)
  qed
qed simp

lemma marks_other: "table_name i \<noteq> pushable_name t \<Longrightarrow> \<not> marks g t b i"
  by (simp add: marks_def)

lemma unpushed_other:
  "pushable_name u \<noteq> pushable_name t \<Longrightarrow> unpushed u (mark_rows g t b db) = unpushed u db"
  unfolding unpushed_mark by (rule filter_True) (auto simp: unpushed_def marks_def)

text \<open>With an upstream that takes everything: tables other than one's own keep what they have to push, and a
  table that has nothing to push stays as it was in the summary.\<close>

lemma accepting_tables:
  assumes "accepting env" "arranges (pe_arrange env)" "0 < n"
  shows "reconcile_tables env n only (map Table names) (summary, s) = Some (summary1, s1) \<Longrightarrow>
    (\<forall>u. u \<notin> set names \<longrightarrow> map_of summary1 u = map_of summary u \<and> unpushed (Table u) (ps_db s1) = unpushed (Table u) (ps_db s))
    \<and> (\<forall>u. unpushed (Table u) (ps_db s) = [] \<longrightarrow> map_of summary1 u = map_of summary u \<and> unpushed (Table u) (ps_db s1) = [])"
proof (induction names arbitrary: summary s)
  case (Cons name names)
  show ?case
  proof (cases "only \<noteq> [] \<and> name \<notin> set only")
    case True then show ?thesis using Cons by auto
  next
    case False
    obtain e s2 where t: "reconcile_table env (Table name) n s = Some (e, s2)"
      using Cons.prems False by (auto split: option.splits)
    note loop = accepting_loop [OF assms(1) t [unfolded reconcile_table_def], simplified]
    obtain b where b: "e = None" "ps_db s2 = mark_rows (pe_values env) (Table name) b (ps_db s)"
      "unpushed (Table name) (ps_db s) = [] \<longrightarrow> ps_count s2 = 0 \<and> ps_foreign s2 = []"
      using loop get_unpushed_Nil [OF assms(2,3)] by blast
    let ?sum = "add_stat name (ps_count s2) (ps_foreign s2) None summary"
    have rest: "reconcile_tables env n only (map Table names) (?sum, s2) = Some (summary1, s1)"
      using Cons.prems False t b(1) by (simp add: Let_def)
    note IH = Cons.IH [OF rest]
    have other: "map_of ?sum u = map_of summary u \<and> unpushed (Table u) (ps_db s2) = unpushed (Table u) (ps_db s)" if "u \<noteq> name" for u
      using that by (simp add: add_stat_other b(2) unpushed_other)
    have own: "map_of ?sum name = map_of summary name \<and> unpushed (Table name) (ps_db s2) = []" if "unpushed (Table name) (ps_db s) = []"
      using that b by (simp add: add_stat_def unpushed_mark)
    show ?thesis
    proof (intro conjI allI impI)
      fix u assume "u \<notin> set (name # names)"
      then show "map_of summary1 u = map_of summary u" "unpushed (Table u) (ps_db s1) = unpushed (Table u) (ps_db s)"
        using IH other by simp_all
    next
      fix u assume u: "unpushed (Table u) (ps_db s) = []"
      have "map_of ?sum u = map_of summary u \<and> unpushed (Table u) (ps_db s2) = []"
        using u other own by (cases "u = name") simp_all
      then show "map_of summary1 u = map_of summary u" "unpushed (Table u) (ps_db s1) = []" using IH by simp_all
    qed
  qed
qed simp

definition group_of :: "string \<Rightarrow> string list \<Rightarrow> string list \<Rightarrow> push_group" where
  "group_of name tables deps = \<lparr>pg_name = name, pg_tables = map Table tables, pg_depends = deps\<rparr>"

lemma reconcile_groups_append:
  "reconcile_groups env n only (gs @ hs) x = Option.bind (reconcile_groups env n only gs x) (reconcile_groups env n only hs)"
  by (induction env n only gs x rule: reconcile_groups.induct) (auto split: option.splits)

lemma accepting_groups_other:
  assumes "accepting env" "arranges (pe_arrange env)" "0 < n" "\<forall>g \<in> set gs. \<exists>names. pg_tables g = map Table names \<and> u \<notin> set names"
  shows "reconcile_groups env n only gs (summary, s) = Some (summary1, s1) \<Longrightarrow>
    map_of summary1 u = map_of summary u \<and> unpushed (Table u) (ps_db s1) = unpushed (Table u) (ps_db s)"
  using assms(4)
proof (induction gs arbitrary: summary s)
  case (Cons g gs)
  obtain names where names: "pg_tables g = map Table names" "u \<notin> set names" using Cons.prems(2) by auto
  show ?case
  proof (cases "did_reconcile summary (pg_depends g)")
    case False
    then have "reconcile_groups env n only gs (add_skipped (pg_tables g) summary, s) = Some (summary1, s1)" using Cons.prems(1) by simp
    from Cons.IH [OF this] show ?thesis using Cons.prems(2) names by (auto simp: add_skipped_lookup)
  next
    case True
    then obtain summary2 s2 where t: "reconcile_tables env n only (map Table names) (summary, s) = Some (summary2, s2)"
      "reconcile_groups env n only gs (summary2, s2) = Some (summary1, s1)"
      using Cons.prems(1) names by (auto split: option.splits)
    show ?thesis using accepting_tables [OF assms(1-3) t(1)] names(2) Cons.IH [OF t(2)] Cons.prems(2) by simp
  qed
qed simp

lemma accepting_groups_quiet:
  assumes "accepting env" "arranges (pe_arrange env)" "0 < n" "\<forall>g \<in> set gs. (\<exists>names. pg_tables g = map Table names) \<and> pg_depends g = []"
  shows "reconcile_groups env n only gs (summary, s) = Some (summary1, s1) \<Longrightarrow> unpushed (Table u) (ps_db s) = [] \<Longrightarrow>
    map_of summary1 u = map_of summary u \<and> unpushed (Table u) (ps_db s1) = []"
  using assms(4)
proof (induction gs arbitrary: summary s)
  case (Cons g gs)
  obtain names where names: "pg_tables g = map Table names" "pg_depends g = []" using Cons.prems(3) by auto
  then obtain summary2 s2 where t: "reconcile_tables env n only (map Table names) (summary, s) = Some (summary2, s2)"
    "reconcile_groups env n only gs (summary2, s2) = Some (summary1, s1)"
    using Cons.prems(1) by (auto simp: did_reconcile_def split: option.splits)
  show ?case using accepting_tables [OF assms(1-3) t(1)] Cons.prems(2,3) Cons.IH [OF t(2)] by simp
qed simp

lemma groups_split:
  "reconcile_table_groups = take 3 reconcile_table_groups
     @ [group_of ''CheckComponentRelationship'' [''check_component_relationships''] [''checks'', ''components''],
        group_of ''CheckConfigRelationship'' [''check_config_relationships''] [''checks'', ''config_items'']]
     @ drop 5 reconcile_table_groups"
  by (simp add: reconcile_table_groups_def group_of_def)

lemma group_names:
  "reconcile_table_groups =
     [group_of ''configs'' [''config_scrapers'', ''config_items'', ''config_items_last_scraped_time'', ''config_changes'', ''config_analysis'', ''config_relationships''] [],
      group_of ''topologies'' [''topologies'', ''components'', ''component_relationships''] [],
      group_of ''canaries'' [''canaries'', ''checks'', ''check_statuses'', ''checks_unlogged''] [],
      group_of ''CheckComponentRelationship'' [''check_component_relationships''] [''checks'', ''components''],
      group_of ''CheckConfigRelationship'' [''check_config_relationships''] [''checks'', ''config_items''],
      group_of ''ConfigComponentRelationship'' [''config_component_relationships''] [''config_items'', ''components''],
      group_of ''JobHistory'' [''job_history''] [], group_of ''Artifact'' [''artifacts''] [], group_of ''ViewPanels'' [''view_panels''] []]"
  by (simp add: reconcile_table_groups_def group_of_def)

lemma group_of_tables: "pg_tables (group_of name tables deps) = map Table tables" "pg_depends (group_of name tables deps) = deps"
  by (simp_all add: group_of_def)

lemma group_of_names:
  "(\<exists>names. pg_tables (group_of name tables deps) = map Table names \<and> u \<notin> set names) \<longleftrightarrow> u \<notin> set tables"
proof -
  have "inj Table" by (simp add: inj_on_def)
  then show ?thesis by (auto simp: inj_map_eq_map group_of_tables)
qed

lemma group_of_free: "(\<exists>names. pg_tables (group_of name tables deps) = map Table names) \<and> (pg_depends (group_of name tables deps) = [] \<longleftrightarrow> deps = [])"
  by (auto simp: group_of_tables)

lemma first_groups_names:
  "\<forall>g \<in> set (take 3 reconcile_table_groups). \<exists>names. pg_tables g = map Table names \<and> ''check_config_relationships'' \<notin> set names"
  unfolding group_names by (simp add: group_of_names)

lemma rest_groups_names:
  "\<forall>g \<in> set (drop 5 reconcile_table_groups). \<exists>names. pg_tables g = map Table names \<and> ''check_config_relationships'' \<notin> set names"
  unfolding group_names by (simp add: group_of_names)

lemma first_groups_free: "\<forall>g \<in> set (take 3 reconcile_table_groups). (\<exists>names. pg_tables g = map Table names) \<and> pg_depends g = []"
  unfolding group_names by (simp add: group_of_free)

lemma skipped_group:
  assumes "table_reconciled summary d = False"
  shows "reconcile_groups env n only (group_of name [t] (d # ds) # gs) (summary, s)
    = reconcile_groups env n only gs (add_skipped [Table t] summary, s)"
  using assms by (simp add: group_of_def did_reconcile_def)

lemma reconcile_table_total: "arranges (pe_arrange env) \<Longrightarrow> reconcile_table env (Table t) n s \<noteq> None"
  unfolding reconcile_table_def by (rule reconcile_loop_ends) simp_all

lemma reconcile_tables_end: "arranges (pe_arrange env) \<Longrightarrow> reconcile_tables env n only (map Table names) x \<noteq> None"
proof (induction names arbitrary: x)
  case (Cons name names)
  obtain e s1 where "reconcile_table env (Table name) n (snd x) = Some (e, s1)"
    using reconcile_table_total [OF Cons.prems] by force
  then show ?case using Cons by (cases x; cases e) (simp_all add: Let_def)
qed simp

lemma reconcile_groups_end:
  "arranges (pe_arrange env) \<Longrightarrow> \<forall>g \<in> set gs. \<exists>names. pg_tables g = map Table names \<Longrightarrow> reconcile_groups env n only gs x \<noteq> None"
proof (induction gs arbitrary: x)
  case (Cons g gs)
  obtain names where names: "pg_tables g = map Table names" using Cons.prems(2) by auto
  obtain y where "reconcile_tables env n only (pg_tables g) x = Some y"
    using reconcile_tables_end [OF Cons.prems(1), of n only names x] names by auto
  then show ?case using Cons by (cases x) simp
qed simp

text \<open>C27: A table that has nothing to push is not recorded in the summary, and a group that depends on it counts
  as not reconciled: in a run in which nothing fails and the upstream takes everything, the relationships of
  checks and configs are skipped, and none is pushed, whenever no check happens to be waiting.\<close>

theorem quiet_checks_block_relationships:
  assumes "accepting env" "arranges (pe_arrange env)" "0 < n" "unpushed (Table ''checks'') (ps_db s) = []"
    "reconcile_some env n [] (Inr reconcile_table_groups) s = Some (summary, s')"
  shows "ts_skipped (summary_of summary ''check_config_relationships'')
    \<and> unpushed (Table ''check_config_relationships'') (ps_db s') = unpushed (Table ''check_config_relationships'') (ps_db s)"
proof -
  let ?first = "take 3 reconcile_table_groups" and ?rest = "drop 5 reconcile_table_groups"
  have run: "reconcile_groups env n [] reconcile_table_groups ([], s) = Some (summary, s')" using assms(5) by (simp add: reconcile_some_def)
  obtain sm s1 where first: "reconcile_groups env n [] ?first ([], s) = Some (sm, s1)"
    and rest0: "reconcile_groups env n [] ([group_of ''CheckComponentRelationship'' [''check_component_relationships''] [''checks'', ''components''],
        group_of ''CheckConfigRelationship'' [''check_config_relationships''] [''checks'', ''config_items'']] @ ?rest) (sm, s1) = Some (summary, s')"
    using run by (subst (asm) groups_split) (auto simp only: reconcile_groups_append bind_eq_Some_conv)
  have fg: "\<forall>g \<in> set ?first. (\<exists>names. pg_tables g = map Table names) \<and> pg_depends g = []"
    by (rule first_groups_free)
  have checks: "map_of sm ''checks'' = None" using accepting_groups_quiet [OF assms(1-3) fg first assms(4)] by simp
  have fo: "\<forall>g \<in> set ?first. \<exists>names. pg_tables g = map Table names \<and> ''check_config_relationships'' \<notin> set names"
    by (rule first_groups_names)
  note kept = accepting_groups_other [OF assms(1-3) fo first]
  let ?sm2 = "add_skipped [Table ''check_config_relationships''] (add_skipped [Table ''check_component_relationships''] sm)"
  have rest: "reconcile_groups env n [] ?rest (?sm2, s1) = Some (summary, s')"
  proof -
    have one: "table_reconciled sm ''checks'' = False" using checks by (simp add: table_reconciled_def)
    have two: "table_reconciled (add_skipped [Table ''check_component_relationships''] sm) ''checks'' = False"
      using checks by (simp add: table_reconciled_def add_skipped_lookup)
    show ?thesis using rest0 unfolding append_Cons append_Nil skipped_group [OF one] skipped_group [OF two] .
  qed
  have ro: "\<forall>g \<in> set ?rest. \<exists>names. pg_tables g = map Table names \<and> ''check_config_relationships'' \<notin> set names"
    by (rule rest_groups_names)
  have "map_of summary ''check_config_relationships'' = map_of ?sm2 ''check_config_relationships''
    \<and> unpushed (Table ''check_config_relationships'') (ps_db s') = unpushed (Table ''check_config_relationships'') (ps_db s1)"
    by (rule accepting_groups_other [OF assms(1-3) ro rest])
  then show ?thesis using kept by (simp add: summary_of_def add_skipped_lookup)
qed

lemma all_groups_tables: "\<forall>g \<in> set reconcile_table_groups. \<exists>names. pg_tables g = map Table names"
  unfolding group_names by (simp add: group_of_free)

lemma quiet_checks_block_relationships_witness:
  "\<exists>summary s'. reconcile_some (sample_push_env\<lparr>pe_push := \<lambda>msg w. (Accepted, w)\<rparr>) 5 [] (Inr reconcile_table_groups) sample_push_state = Some (summary, s')
     \<and> ts_skipped (summary_of summary ''check_config_relationships'')"
proof -
  let ?env = "sample_push_env\<lparr>pe_push := \<lambda>msg w. (Accepted, w)\<rparr>"
  have env: "accepting ?env" "arranges (pe_arrange ?env)" by (simp_all add: accepting_def never_fails_def sample_push_env_def arranges_def)
  have quiet: "unpushed (Table ''checks'') (ps_db sample_push_state) = []" by (simp add: unpushed_def sample_push_state_def sample_canary_def)
  have "reconcile_some ?env 5 [] (Inr reconcile_table_groups) sample_push_state \<noteq> None"
    using reconcile_groups_end [OF env(2) all_groups_tables] unfolding reconcile_some_def by simp
  then obtain summary s' where run: "reconcile_some ?env 5 [] (Inr reconcile_table_groups) sample_push_state = Some (summary, s')" by auto
  have "0 < (5 :: nat)" by simp
  then show ?thesis using quiet_checks_block_relationships [OF env _ quiet run] run by blast
qed

subsection \<open>Pushing recent rows again\<close>

text \<open>\<^verbatim>\<open>ResetIsPushed\<close>: \<open>recent i c\<close> says whether column \<open>c\<close> of the row is within the interval, \<open>deleted\<close> whether it has a
  deletion time. The condition on deletion is joined to the default by AND, which binds tighter than its OR.\<close>

definition reset_condition :: "('f db_item \<Rightarrow> string \<Rightarrow> bool) \<Rightarrow> ('f db_item \<Rightarrow> bool) \<Rightarrow> bool \<Rightarrow> string \<Rightarrow> 'f db_item \<Rightarrow> bool" where
  "reset_condition recent deleted ignore_deleted t i =
     (if t = ''config_analysis'' then recent i ''first_observed'' \<or> recent i ''last_observed''
      else if t = ''config_changes'' \<or> t = ''check_statuses'' then recent i ''created_at''
      else if t = ''job_history'' then recent i ''time_start''
      else if t = ''view_panels'' then recent i ''refreshed_at''
      else if t = ''checks_unlogged'' \<or> t = ''config_items_last_scraped_time'' then recent i ''created_at'' \<or> recent i ''updated_at''
      else if ignore_deleted then recent i ''created_at'' \<or> recent i ''updated_at''
      else recent i ''created_at'' \<or> recent i ''updated_at'' \<and> \<not> deleted i)"

definition reset_table :: "('f db_item \<Rightarrow> bool) \<Rightarrow> string \<Rightarrow> 'f agent_db \<Rightarrow> 'f agent_db" where
  "reset_table cond t db = map (\<lambda>x. (fst x, snd x \<and> \<not> (table_name (fst x) = t \<and> cond (fst x)))) db"

fun reset_tables :: "('f db_item \<Rightarrow> string \<Rightarrow> bool) \<Rightarrow> ('f db_item \<Rightarrow> bool) \<Rightarrow> bool \<Rightarrow> (string \<Rightarrow> string option) \<Rightarrow> string list \<Rightarrow> 'f agent_db
    \<Rightarrow> string list \<times> 'f agent_db" where
  "reset_tables recent deleted ignore_deleted fails [] db = ([], db)"
| "reset_tables recent deleted ignore_deleted fails (t # ts) db =
     (case fails t of
        Some e \<Rightarrow> (case reset_tables recent deleted ignore_deleted fails ts db of (es, db1) \<Rightarrow> (e # es, db1))
      | None \<Rightarrow> reset_tables recent deleted ignore_deleted fails ts (reset_table (reset_condition recent deleted ignore_deleted t) t db))"

definition reset_is_pushed :: "('f db_item \<Rightarrow> string \<Rightarrow> bool) \<Rightarrow> ('f db_item \<Rightarrow> bool) \<Rightarrow> bool \<Rightarrow> (string \<Rightarrow> string option) \<Rightarrow> 'f agent_db
    \<Rightarrow> string list \<times> 'f agent_db" where
  "reset_is_pushed recent deleted ignore_deleted fails db =
     reset_tables recent deleted ignore_deleted fails (map pushable_name (concat (map pg_tables reconcile_table_groups))) db"

text \<open>Exactly the recent rows of the tables whose statement did not fail are pushed again; an error stops none of the others.\<close>

lemma reset_tables_result:
  "snd (reset_tables recent deleted ig fails ts db) = map (\<lambda>x. (fst x, snd x \<and>
     \<not> (table_name (fst x) \<in> set ts \<and> fails (table_name (fst x)) = None \<and> reset_condition recent deleted ig (table_name (fst x)) (fst x)))) db"
proof (induction ts arbitrary: db)
  case (Cons t ts)
  show ?case
  proof (cases "fails t")
    case None
    then show ?thesis using Cons by (auto simp: reset_table_def)
  next
    case (Some e)
    then show ?thesis using Cons by (auto simp: case_prod_beta)
  qed
qed simp

lemma reset_tables_errors: "fst (reset_tables recent deleted ig fails ts db) = map (the \<circ> fails) (filter (\<lambda>t. fails t \<noteq> None) ts)"
  by (induction ts arbitrary: db) (auto simp: case_prod_beta split: option.splits)

text \<open>A row that was made within the interval is pushed again although it is deleted.\<close>

lemma reset_deleted:
  "deleted i \<Longrightarrow> recent i ''created_at'' \<Longrightarrow> table_name i = ''components''
   \<Longrightarrow> snd (reset_is_pushed recent deleted False (\<lambda>t. None) [(i, True)]) = [(i, False)]"
  unfolding reset_is_pushed_def reset_tables_result by (simp add: reset_condition_def reconcile_table_groups_def)

end
