(* ===== verification/Api_Errors.thy ===== *)
theory Api_Errors
  imports Duty_Prelude
begin

section \<open>Errors of the API, of the database, and the configuration\<close>

text \<open>
  \<^verbatim>\<open>api/errors.go\<close>, \<^verbatim>\<open>api/http.go\<close> and \<^verbatim>\<open>db/utils.go\<close>: chains of wrapped errors, what is read off them, and
  the response they are answered with; and \<^verbatim>\<open>api/config.go\<close>, the values read from the environment. Errors of
  gorm, of the PostgreSQL driver and of the library of tagged errors are constructors of their own.
\<close>

subsection \<open>Error chains\<close>

record api_error =
  ae_code :: string
  ae_message :: string
  ae_data :: string
  ae_debug :: string

record http_error =
  he_err :: string
  he_message :: string
  he_data :: string

record pg_error =
  pg_code :: string
  pg_text :: string
  pg_detail :: string
  pg_hint :: string
  pg_position :: int

record oops_error =
  oe_code :: "string option"
  oe_tags :: "string list"
  oe_text :: string

text \<open>An error of the source; \<open>Wrapped\<close> is \<^verbatim>\<open>fmt.Errorf\<close> with the text of the whole and the wrapped error.\<close>

datatype go_error =
    ApiErr api_error
  | HttpErr http_error
  | PgErr pg_error
  | DuplicatedKey
  | ForeignKeyViolated
  | PlainErr string
  | OopsErr oops_error "go_error option"
  | Wrapped string go_error

definition api_error_text :: "api_error \<Rightarrow> string" where
  "api_error_text e = ''error: code='' @ ae_code e @ '' message='' @ ae_message e"

definition http_error_text :: "http_error \<Rightarrow> string" where
  "http_error_text e = ''error='' @ he_err e @ '' message='' @ he_message e @ '' data='' @ he_data e @ '' ''"

fun error_text :: "go_error \<Rightarrow> string" where
  "error_text (ApiErr e) = api_error_text e"
| "error_text (HttpErr e) = http_error_text e"
| "error_text (PgErr e) = pg_text e"
| "error_text DuplicatedKey = ''duplicated key not allowed''"
| "error_text ForeignKeyViolated = ''violates foreign key constraint''"
| "error_text (PlainErr s) = s"
| "error_text (OopsErr x e) = oe_text x"
| "error_text (Wrapped s e) = s"

text \<open>\<^verbatim>\<open>errors.As\<close>: the first error of the chain that has the type.\<close>

fun chain :: "go_error \<Rightarrow> go_error list" where
  "chain (OopsErr x None) = [OopsErr x None]"
| "chain (OopsErr x (Some e)) = OopsErr x (Some e) # chain e"
| "chain (Wrapped s e) = Wrapped s e # chain e"
| "chain e = [e]"

fun first_of :: "(go_error \<Rightarrow> 'a option) \<Rightarrow> go_error list \<Rightarrow> 'a option" where
  "first_of f [] = None"
| "first_of f (e # es) = (case f e of Some x \<Rightarrow> Some x | None \<Rightarrow> first_of f es)"

fun is_api :: "go_error \<Rightarrow> api_error option" where "is_api (ApiErr e) = Some e" | "is_api _ = None"
fun is_http :: "go_error \<Rightarrow> http_error option" where "is_http (HttpErr e) = Some e" | "is_http _ = None"
fun is_pg :: "go_error \<Rightarrow> pg_error option" where "is_pg (PgErr e) = Some e" | "is_pg _ = None"
fun is_oops :: "go_error \<Rightarrow> oops_error option" where "is_oops (OopsErr e c) = Some e" | "is_oops _ = None"

definition as_api :: "go_error \<Rightarrow> api_error option" where "as_api e = first_of is_api (chain e)"
definition as_http :: "go_error \<Rightarrow> http_error option" where "as_http e = first_of is_http (chain e)"
definition as_pg :: "go_error \<Rightarrow> pg_error option" where "as_pg e = first_of is_pg (chain e)"
definition as_oops :: "go_error \<Rightarrow> oops_error option" where "as_oops e = first_of is_oops (chain e)"

subsection \<open>Codes, messages and data\<close>

abbreviation conflict_code :: string where "conflict_code \<equiv> ''conflict''"
abbreviation internal_code :: string where "internal_code \<equiv> ''internal''"
abbreviation invalid_code :: string where "invalid_code \<equiv> ''invalid''"

definition errorf :: "string \<Rightarrow> string \<Rightarrow> api_error" where
  "errorf code message = \<lparr>ae_code = code, ae_message = message, ae_data = [], ae_debug = []\<rparr>"

definition with_debug_info :: "string \<Rightarrow> api_error \<Rightarrow> api_error" where
  "with_debug_info d e = e\<lparr>ae_debug := d\<rparr>"

text \<open>The data is a text, or a value that is marshalled; when that fails it stays as it was.\<close>

definition with_data :: "string option \<Rightarrow> api_error \<Rightarrow> api_error" where
  "with_data d e = (case d of Some s \<Rightarrow> e\<lparr>ae_data := s\<rparr> | None \<Rightarrow> e)"

definition error_code :: "go_error option \<Rightarrow> string" where
  "error_code err = (case err of None \<Rightarrow> [] | Some e \<Rightarrow> (case as_api e of Some a \<Rightarrow> ae_code a | None \<Rightarrow> internal_code))"

definition error_message :: "go_error option \<Rightarrow> string" where
  "error_message err = (case err of None \<Rightarrow> [] | Some e \<Rightarrow> (case as_api e of Some a \<Rightarrow> ae_message a | None \<Rightarrow> error_text e))"

definition error_data :: "go_error option \<Rightarrow> string" where
  "error_data err = (case err of None \<Rightarrow> [] | Some e \<Rightarrow> (case as_api e of Some a \<Rightarrow> ae_data a | None \<Rightarrow> []))"

definition error_debug_info :: "go_error option \<Rightarrow> string" where
  "error_debug_info err = (case err of None \<Rightarrow> [] | Some e \<Rightarrow> (case as_api e of Some a \<Rightarrow> ae_debug a | None \<Rightarrow> error_text e))"

definition status_codes :: "(string \<times> nat) list" where
  "status_codes = [(''conflict'', 409), (''invalid'', 400), (''not_found'', 404), (''forbidden'', 403),
     (''not_implemented'', 501), (''unauthorized'', 401), (''internal'', 500)]"

definition error_status_code :: "string \<Rightarrow> nat" where
  "error_status_code code = (case map_of status_codes code of Some n \<Rightarrow> n | None \<Rightarrow> 500)"

abbreviation foreign_key_violation :: string where "foreign_key_violation \<equiv> ''23503''"

definition domain_code_from_pg_code :: "string \<Rightarrow> string option" where
  "domain_code_from_pg_code code =
     (if code = ''23505'' \<or> code = foreign_key_violation then Some conflict_code
      else if code = ''23502'' \<or> code = ''23514'' then Some invalid_code else None)"

definition domain_code_from_db_error :: "go_error \<Rightarrow> string option" where
  "domain_code_from_db_error e =
     (if DuplicatedKey \<in> set (chain e) \<or> ForeignKeyViolated \<in> set (chain e) then Some conflict_code
      else (case as_pg e of Some p \<Rightarrow> domain_code_from_pg_code (pg_code p) | None \<Rightarrow> None))"

subsection \<open>The response\<close>

datatype error_body = OopsBody oops_error | HttpBody http_error

definition write_error :: "go_error \<Rightarrow> nat \<times> error_body" where
  "write_error e =
     (case as_oops e of
        Some x \<Rightarrow> (case domain_code_from_db_error e of
            Some code \<Rightarrow> (error_status_code code, OopsBody x)
          | None \<Rightarrow> (error_status_code (case oe_code x of Some c \<Rightarrow> c | None \<Rightarrow> []), OopsBody x))
      | None \<Rightarrow> (error_status_code (error_code (Some e)),
          HttpBody \<lparr>he_err = error_message (Some e), he_message = [], he_data = error_data (Some e)\<rparr>))"

lemma error_status_range: "400 \<le> error_status_code code \<and> error_status_code code \<le> 501"
proof (cases "map_of status_codes code")
  case (Some n)
  then have "n \<in> snd ` set status_codes" by (metis image_eqI map_of_SomeD snd_conv)
  then show ?thesis using Some by (auto simp: error_status_code_def status_codes_def)
qed (simp add: error_status_code_def)

text \<open>An error is never answered as a success.\<close>

lemma write_error_fails: "400 \<le> fst (write_error e)"
  using error_status_range by (auto simp: write_error_def split: option.splits)

text \<open>What is kept for the log does not reach the response of an error of the application; all of the text of any
  other error does.\<close>

lemma debug_not_written:
  "write_error (ApiErr (with_debug_info d a)) = write_error (ApiErr a)"
  by (simp add: write_error_def with_debug_info_def as_oops_def as_api_def error_code_def error_message_def error_data_def)

lemma plain_written: "write_error (PlainErr s) = (500, HttpBody \<lparr>he_err = s, he_message = [], he_data = []\<rparr>)"
  by (simp add: write_error_def as_oops_def as_api_def error_code_def error_message_def error_data_def error_status_code_def status_codes_def)

text \<open>Wrapping keeps the code, the message and the data; the text of the wrapper is lost.\<close>

lemma wrapped_api:
  assumes "as_oops e = None"
  shows "as_api (Wrapped s e) = as_api e" "as_api e \<noteq> None \<Longrightarrow> write_error (Wrapped s e) = write_error e"
proof -
  show a: "as_api (Wrapped s e) = as_api e" by (simp add: as_api_def)
  have "as_oops (Wrapped s e) = None" using assms by (simp add: as_oops_def)
  then show "as_api e \<noteq> None \<Longrightarrow> write_error (Wrapped s e) = write_error e"
    using a assms by (auto simp: write_error_def error_code_def error_message_def error_data_def)
qed

subsection \<open>Errors of the database\<close>

definition is_foreign_key_error :: "go_error \<Rightarrow> bool" where
  "is_foreign_key_error e = (case as_pg e of Some p \<Rightarrow> pg_code p = foreign_key_violation | None \<Rightarrow> False)"

definition is_deadlock_error :: "go_error \<Rightarrow> bool" where
  "is_deadlock_error e = (case as_pg e of Some p \<Rightarrow> pg_code p = ''40P01'' | None \<Rightarrow> False)"

definition is_db_error :: "go_error \<Rightarrow> bool" where
  "is_db_error e = (case as_oops e of Some x \<Rightarrow> ''db'' \<in> set (oe_tags x) | None \<Rightarrow> False)"

definition error_details :: "go_error option \<Rightarrow> go_error option" where
  "error_details err = (case err of None \<Rightarrow> None | Some e \<Rightarrow>
     (case as_pg e of
        None \<Rightarrow> Some e
      | Some p \<Rightarrow>
          (let parts = (if pg_detail p \<noteq> [] then [''detail: '' @ pg_detail p] else []) @
             (if pg_hint p \<noteq> [] then [''hint: '' @ pg_hint p] else []) @
             (if pg_position p \<noteq> 0 then ['', position: '' @ int_text (pg_position p)] else []) in
           if parts \<noteq> [] then Some (Wrapped (error_text e @ '': '' @ join '', '' parts) e) else Some e)))"

text \<open>Details are only added to the text: what is read off the error is the same.\<close>

lemma error_details_same:
  assumes "error_details (Some e) = Some d"
  shows "as_pg d = as_pg e" "is_foreign_key_error d = is_foreign_key_error e" "is_deadlock_error d = is_deadlock_error e"
    "domain_code_from_db_error d = domain_code_from_db_error e"
proof -
  have "d = e \<or> (\<exists>s. d = Wrapped s e)"
    using assms by (auto simp: error_details_def Let_def split: option.splits if_splits)
  then show "as_pg d = as_pg e" "is_foreign_key_error d = is_foreign_key_error e" "is_deadlock_error d = is_deadlock_error e"
    "domain_code_from_db_error d = domain_code_from_db_error e"
    by (auto simp: as_pg_def is_foreign_key_error_def is_deadlock_error_def domain_code_from_db_error_def)
qed

text \<open>A foreign key error of the driver is a conflict, but gorm's own error of that kind is a foreign key error only for
  the response.\<close>

lemma foreign_key_conflict: "is_foreign_key_error e \<Longrightarrow> domain_code_from_db_error e = Some conflict_code"
  by (auto simp: is_foreign_key_error_def domain_code_from_db_error_def domain_code_from_pg_code_def split: option.splits)

lemma gorm_foreign_key: "\<not> is_foreign_key_error ForeignKeyViolated"
  by (simp add: is_foreign_key_error_def as_pg_def)

text \<open>\<^verbatim>\<open>PGMajorVersion\<close>: asked once, then remembered; version numbers are positive.\<close>

definition pg_major_version :: "int \<Rightarrow> string + int \<Rightarrow> (string + int) \<times> int" where
  "pg_major_version cached asked =
     (if cached \<noteq> 0 then (Inr cached, cached)
      else (case asked of
          Inl e \<Rightarrow> (Inl (''failed to query postgresql version number: '' @ e), cached)
        | Inr n \<Rightarrow> (Inr (n div 10000), n div 10000)))"

lemma version_remembered:
  "pg_major_version 0 (Inr n) = (Inr v, c) \<Longrightarrow> 10000 \<le> n \<Longrightarrow> pg_major_version c asked = (Inr v, c)"
  by (auto simp: pg_major_version_def)

subsection \<open>Configuration\<close>

type_synonym getenv = "string \<Rightarrow> string"

definition read_env :: "getenv \<Rightarrow> string \<Rightarrow> string" where
  "read_env env val = (if env val \<noteq> [] then env val else val)"

record postgrest_config =
  pc_port :: int
  pc_disable :: bool
  pc_log_level :: string
  pc_url :: string
  pc_version :: string
  pc_arch :: string
  pc_jwt_secret :: string
  pc_jwt_aud :: string
  pc_db_role :: string
  pc_anon_role :: string
  pc_admin_port :: int
  pc_max_rows :: int

definition postgrest_read_env :: "getenv \<Rightarrow> postgrest_config \<Rightarrow> postgrest_config" where
  "postgrest_read_env env p =
     p\<lparr>pc_jwt_secret := (let s = read_env env (pc_jwt_secret p) in if s = ''PGRST_JWT_SECRET'' then [] else s),
       pc_log_level := read_env env (pc_log_level p),
       pc_version := (if env ''PGRST_VERSION'' \<noteq> [] then env ''PGRST_VERSION'' else pc_version p),
       pc_arch := (if env ''PGRST_ARCH'' \<noteq> [] then env ''PGRST_ARCH'' else pc_arch p)\<rparr>"

datatype migration_mode = RunByDefault | SkipByDefault

text \<open>The fields that this code reads.\<close>

record db_config =
  dc_connection :: string
  dc_schema :: string
  dc_log_level :: string
  dc_postgrest :: postgrest_config
  dc_run_migrations :: bool
  dc_skip_migrations :: bool
  dc_mode :: migration_mode

definition migrate :: "db_config \<Rightarrow> bool" where
  "migrate c = (case dc_mode c of RunByDefault \<Rightarrow> \<not> dc_skip_migrations c | SkipByDefault \<Rightarrow> dc_run_migrations c)"

definition config_read_env :: "getenv \<Rightarrow> db_config \<Rightarrow> db_config" where
  "config_read_env env c =
     c\<lparr>dc_connection := (let s = read_env env (dc_connection c) in if s = ''DB_URL'' then [] else s),
       dc_schema := read_env env (dc_schema c),
       dc_log_level := read_env env (dc_log_level c),
       dc_postgrest := postgrest_read_env env (dc_postgrest c)\<rparr>"

definition default_postgrest :: "string \<Rightarrow> postgrest_config" where
  "default_postgrest goarch = \<lparr>pc_port = 3000, pc_disable = False, pc_log_level = [], pc_url = [], pc_version = ''v14.6'', pc_arch = goarch,
     pc_jwt_secret = [], pc_jwt_aud = [], pc_db_role = ''postgrest_api'', pc_anon_role = [], pc_admin_port = 3001, pc_max_rows = 2000\<rparr>"

text \<open>\<^verbatim>\<open>init\<close>: the defaults, read from the environment, with an older version on one platform.\<close>

definition init_postgrest :: "getenv \<Rightarrow> string \<Rightarrow> string \<Rightarrow> postgrest_config" where
  "init_postgrest env goos goarch =
     (let p = postgrest_read_env env (default_postgrest goarch); v = pc_version p in
      if has_prefix ''v14'' v \<and> v \<noteq> ''v14.1'' \<and> v \<noteq> ''v14.0'' \<and> goos = ''darwin'' \<and> goarch = ''amd64''
      then p\<lparr>pc_version := ''v14.1''\<rparr> else p)"

text \<open>A variable that is not set leaves no name behind: neither the connection nor the secret is ever the name of
  its variable.\<close>

lemma config_names_cleared:
  "dc_connection (config_read_env env c) \<noteq> ''DB_URL''"
  "pc_jwt_secret (dc_postgrest (config_read_env env c)) \<noteq> ''PGRST_JWT_SECRET''"
  by (simp_all add: config_read_env_def postgrest_read_env_def Let_def)

text \<open>The version asked for by the environment is not used on the one platform, although it is the older version's
  architecture that the warning is about.\<close>

lemma darwin_version: "env ''PGRST_VERSION'' = ''v14.9'' \<Longrightarrow> pc_version (init_postgrest env ''darwin'' ''amd64'') = ''v14.1''"
  by (simp add: init_postgrest_def postgrest_read_env_def Let_def)

end
