(* ===== verification/Upstream_Store.thy ===== *)
theory Upstream_Store
  imports Upstream_Reconcile Api_Errors
begin

section \<open>Storing pushed rows\<close>

text \<open>
  The upstream's side (\<^verbatim>\<open>upstream/commands.go\<close>, \<^verbatim>\<open>upstream/controllers.go\<close>, \<^verbatim>\<open>upstream/views.go\<close>): storing a
  message table by table, retrying or answering which rows lack a parent, and deleting rows. The store is the
  list of rows of all tables; the foreign keys of the schema are checked at the end of a statement, and
  \<open>broken\<close> gives the rows the database refuses for another reason.
\<close>

subsection \<open>The store\<close>

text \<open>The rows a row refers to by the foreign keys of the schema, as far as its columns are modelled.\<close>

fun refs :: "'f db_item \<Rightarrow> (string \<times> string) list" where
  "refs (Check r) = [(''canaries'', ck_canary r)]"
| "refs (Component r) = (case cp_topology r of Some t \<Rightarrow> [(''topologies'', t)] | None \<Rightarrow> [])
     @ (case cp_parent r of Some p \<Rightarrow> [(''components'', p)] | None \<Rightarrow> [])"
| "refs (ConfigItem r) = (case cf_scraper r of Some s \<Rightarrow> [(''config_scrapers'', s)] | None \<Rightarrow> [])
     @ (case cf_parent r of Some p \<Rightarrow> [(''config_items'', p)] | None \<Rightarrow> [])"
| "refs (ConfigAnalysis r) = [(''config_items'', an_config r)]"
| "refs (ConfigChange r) = [(''config_items'', ch_config r)]"
| "refs (CheckStatus r) = [(''checks'', cs_check r)]"
| "refs (ConfigRelationship r) = [(''config_items'', cr_config r), (''config_items'', cr_related r)]
     @ (case cr_scraper r of Some s \<Rightarrow> [(''config_scrapers'', s)] | None \<Rightarrow> [])"
| "refs (ComponentRelationship r) = [(''components'', rl_component r), (''components'', rl_related r)]"
| "refs (ConfigComponentRelationship r) = [(''components'', cc_component r), (''config_items'', cc_config r)]"
| "refs (CheckConfigRelationship r) = [(''canaries'', kc_canary r), (''checks'', kc_check r), (''config_items'', kc_config r)]"
| "refs (ConfigItemLastScrapedTime r) = [(''config_items'', ls_config r)]"
| "refs (ChecksUnlogged r) = [(''checks'', ul_check r)]"
| "refs (CheckComponentRelationship r) = [(''canaries'', kp_canary r), (''checks'', kp_check r), (''components'', kp_component r)]"
| "refs i = []"

definition has_row :: "'f db_item list \<Rightarrow> string \<times> string \<Rightarrow> bool" where
  "has_row store x \<longleftrightarrow> (\<exists>j \<in> set store. table_name j = fst x \<and> pk j = snd x)"

definition parents_present :: "'f db_item list \<Rightarrow> 'f db_item \<Rightarrow> bool" where
  "parents_present store i \<longleftrightarrow> (\<forall>x \<in> set (refs i). has_row store x)"

text \<open>Rows with the same key columns, and with them the same name in a list of errors.\<close>

definition same_row :: "'f db_item \<Rightarrow> 'f db_item \<Rightarrow> bool" where
  "same_row i j \<longleftrightarrow> table_name i = table_name j \<and> mark_key (Table []) i = mark_key (Table []) j \<and> pk i = pk j"

definition is_stored :: "'f db_item list \<Rightarrow> 'f db_item \<Rightarrow> bool" where
  "is_stored store i \<longleftrightarrow> (\<exists>j \<in> set store. same_row i j)"

text \<open>An upsert replaces the row of the same key.\<close>

definition put_row :: "'f db_item \<Rightarrow> 'f db_item list \<Rightarrow> 'f db_item list" where
  "put_row i store = i # filter (\<lambda>j. \<not> same_row i j) store"

datatype 'a save_outcome = Saved 'a | ForeignKeyError | SaveError string

definition save_row :: "('f db_item \<Rightarrow> string option) \<Rightarrow> 'f db_item \<Rightarrow> 'f db_item list \<Rightarrow> 'f db_item list save_outcome" where
  "save_row broken i store =
     (case broken i of Some e \<Rightarrow> SaveError e
      | None \<Rightarrow> if parents_present (put_row i store) i then Saved (put_row i store) else ForeignKeyError)"

text \<open>\<^verbatim>\<open>CreateInBatches\<close>: one statement for each batch, all in one transaction. A row may not occur twice in a
  statement.\<close>

fun batch_saves :: "('f db_item \<Rightarrow> string option) \<Rightarrow> 'f db_item list list \<Rightarrow> 'f db_item list \<Rightarrow> 'f db_item list save_outcome" where
  "batch_saves broken [] store = Saved store"
| "batch_saves broken (b # bs) store =
     (let store1 = fold put_row b store in
      if \<exists>i \<in> set b. broken i \<noteq> None then SaveError ''statement''
      else if \<not> distinct (map (\<lambda>i. (table_name i, mark_key (Table []) i)) b) then SaveError ''cannot affect row a second time''
      else if \<exists>i \<in> set b. \<not> parents_present store1 i then ForeignKeyError
      else batch_saves broken bs store1)"

definition insert_batch_size :: nat where
  "insert_batch_size = 100"

definition create_in_batches :: "('f db_item \<Rightarrow> string option) \<Rightarrow> 'f db_item list \<Rightarrow> 'f db_item list \<Rightarrow> 'f db_item list save_outcome" where
  "create_in_batches broken items store = batch_saves broken (row_batches insert_batch_size items) store"

subsection \<open>Saving one by one\<close>

datatype store_error = Conflict "string list" | StoreFailed string

text \<open>One pass: the rows without a parent, unless another error ends it.\<close>

fun save_pass :: "('f db_item \<Rightarrow> string option) \<Rightarrow> 'f db_item list \<Rightarrow> 'f db_item list
    \<Rightarrow> (store_error + 'f db_item list) \<times> 'f db_item list" where
  "save_pass broken [] store = (Inr [], store)"
| "save_pass broken (i # items) store =
     (case save_row broken i store of
        Saved store1 \<Rightarrow> save_pass broken items store1
      | ForeignKeyError \<Rightarrow>
          (case save_pass broken items store of
             (Inl e, store1) \<Rightarrow> (Inl e, store1)
           | (Inr failed, store1) \<Rightarrow> (Inr (i # failed), store1))
      | SaveError e \<Rightarrow> (Inl (StoreFailed e), store))"

text \<open>The passes that are left after this one.\<close>

fun save_retries :: "nat \<Rightarrow> ('f db_item \<Rightarrow> string option) \<Rightarrow> 'f db_item list \<Rightarrow> 'f db_item list
    \<Rightarrow> store_error option \<times> 'f db_item list" where
  "save_retries k broken items store =
     (case save_pass broken items store of
        (Inl e, store1) \<Rightarrow> (Some e, store1)
      | (Inr failed, store1) \<Rightarrow>
          (if failed = [] then (None, store1)
           else case k of
             0 \<Rightarrow> (Some (Conflict (map pk failed)), store1)
           | Suc k' \<Rightarrow> save_retries k' broken failed store1))"

declare save_retries.simps [simp del]

text \<open>The counter of retries starts at zero and the loop gives up when it is greater than the limit, so there
  are two more passes than the limit.\<close>

definition save_individually_with_retries :: "nat \<Rightarrow> ('f db_item \<Rightarrow> string option) \<Rightarrow> 'f db_item list \<Rightarrow> 'f db_item list
    \<Rightarrow> store_error option \<times> 'f db_item list" where
  "save_individually_with_retries max_retries = save_retries (Suc max_retries)"

definition retry_limit :: nat where
  "retry_limit = 3"

definition handle_upsert_error :: "('f db_item \<Rightarrow> string option) \<Rightarrow> 'f db_item list \<Rightarrow> 'f db_item list save_outcome \<Rightarrow> 'f db_item list
    \<Rightarrow> store_error option \<times> 'f db_item list" where
  "handle_upsert_error broken items outcome store =
     (case outcome of
        Saved store1 \<Rightarrow> (None, store1)
      | SaveError e \<Rightarrow> (Some (StoreFailed e), store)
      | ForeignKeyError \<Rightarrow>
          (case save_pass broken items store of
             (Inl e, store1) \<Rightarrow> (Some e, store1)
           | (Inr failed, store1) \<Rightarrow> (Some (Conflict (remdups (map pk failed))), store1)))"

lemma put_row_stored: "is_stored (put_row i store) i"
  by (auto simp: is_stored_def put_row_def same_row_def)

lemma put_row_keeps: "is_stored store j \<Longrightarrow> is_stored (put_row i store) j"
  by (auto simp: is_stored_def put_row_def same_row_def)

lemma fold_put_keeps: "is_stored store j \<Longrightarrow> is_stored (fold put_row b store) j"
  by (induction b arbitrary: store) (simp_all add: put_row_keeps)

lemma fold_put_stored: "i \<in> set b \<Longrightarrow> is_stored (fold put_row b store) i"
  by (induction b arbitrary: store) (auto simp: fold_put_keeps put_row_stored)

lemma same_row_refl [simp]: "same_row i i"
  by (simp add: same_row_def)

lemma batch_saves_stored:
  "batch_saves broken bs store = Saved store' \<Longrightarrow> (\<forall>j. is_stored store j \<longrightarrow> is_stored store' j) \<and> (\<forall>i \<in> set (concat bs). is_stored store' i)"
proof (induction bs arbitrary: store)
  case (Cons b bs)
  then have rec: "batch_saves broken bs (fold put_row b store) = Saved store'" by (auto simp: Let_def split: if_splits)
  then show ?case using Cons.IH [OF rec] fold_put_stored fold_put_keeps by fastforce
qed simp

lemma save_pass_stored:
  "save_pass broken items store = (r, store') \<Longrightarrow> (\<forall>j. is_stored store j \<longrightarrow> is_stored store' j)
     \<and> (\<forall>failed. r = Inr failed \<longrightarrow> set failed \<subseteq> set items \<and> (\<forall>i \<in> set items. i \<in> set failed \<or> is_stored store' i))"
proof (induction items arbitrary: store r store')
  case (Cons i items)
  show ?case
  proof (cases "save_row broken i store")
    case (Saved store1)
    have s1: "store1 = put_row i store" using Saved by (auto simp: save_row_def split: option.splits if_splits)
    have "save_pass broken items store1 = (r, store')" using Cons.prems Saved by simp
    then show ?thesis using Cons.IH [of store1 r store'] s1 put_row_keeps [of store _ i] put_row_stored [of i store] by auto
  next
    case ForeignKeyError
    obtain q store1 where q: "save_pass broken items store = (q, store1)" by force
    then show ?thesis using Cons.IH [OF q] Cons.prems ForeignKeyError by (cases q) auto
  qed (use Cons.prems in auto)
qed simp

subsubsection \<open>How many passes are enough\<close>

lemma has_row_put_iff: "has_row (put_row i store) x \<longleftrightarrow> x = (table_name i, pk i) \<or> has_row store x"
  by (cases x) (auto simp: has_row_def put_row_def same_row_def)

lemma has_row_put: "has_row store x \<Longrightarrow> has_row (put_row i store) x"
  by (simp add: has_row_put_iff)

lemma stored_has_row: "is_stored store i \<Longrightarrow> has_row store (table_name i, pk i)"
  by (auto simp: is_stored_def has_row_def same_row_def)

definition grown :: "'f db_item list \<Rightarrow> 'f db_item list \<Rightarrow> bool" where
  "grown store store' \<longleftrightarrow> (\<forall>x. has_row store x \<longrightarrow> has_row store' x)"

lemma parents_present_grown: "grown store store' \<Longrightarrow> parents_present store i \<Longrightarrow> parents_present store' i"
  unfolding grown_def parents_present_def by blast

lemma grown_put: "grown store store' \<Longrightarrow> grown (put_row i store) (put_row i store')"
  unfolding grown_def has_row_put_iff by blast

lemma save_pass_sound:
  assumes "\<forall>i \<in> set items. broken i = None"
  shows "\<exists>failed store'. save_pass broken items store = (Inr failed, store') \<and> set failed \<subseteq> set items \<and> grown store store'
    \<and> (\<forall>i \<in> set items. i \<in> set failed \<or> is_stored store' i) \<and> (\<forall>i \<in> set failed. \<not> parents_present (put_row i store) i)"
  using assms
proof (induction items arbitrary: store)
  case (Cons i items)
  have ok: "\<forall>j \<in> set items. broken j = None" "broken i = None" using Cons.prems by simp_all
  show ?case
  proof (cases "parents_present (put_row i store) i")
    case True
    obtain failed store' where IH: "save_pass broken items (put_row i store) = (Inr failed, store')" "set failed \<subseteq> set items"
      "grown (put_row i store) store'" "\<forall>j \<in> set items. j \<in> set failed \<or> is_stored store' j"
      "\<forall>j \<in> set failed. \<not> parents_present (put_row j (put_row i store)) j"
      using Cons.IH [OF ok(1)] by blast
    have g: "grown store (put_row i store)" using has_row_put by (auto simp: grown_def)
    have st: "is_stored store' i" using save_pass_stored [OF IH(1)] put_row_stored by blast
    have "\<not> parents_present (put_row j store) j" if "j \<in> set failed" for j
      using IH(5) that parents_present_grown [OF grown_put [OF g]] by blast
    moreover have "grown store store'" using g IH(3) by (simp add: grown_def)
    ultimately show ?thesis using IH True ok(2) st by (auto simp: save_row_def)
  next
    case False
    obtain failed store' where IH: "save_pass broken items store = (Inr failed, store')" "set failed \<subseteq> set items" "grown store store'"
      "\<forall>j \<in> set items. j \<in> set failed \<or> is_stored store' j" "\<forall>j \<in> set failed. \<not> parents_present (put_row j store) j"
      using Cons.IH [OF ok(1)] by blast
    then show ?thesis using False ok(2) by (auto simp: save_row_def)
  qed
qed (simp add: grown_def)

lemma save_pass_no_conflict: "save_pass broken items store = (Inl e, store') \<Longrightarrow> \<exists>m. e = StoreFailed m"
  by (induction items arbitrary: store) (auto split: save_outcome.splits prod.splits sum.splits)

lemma save_retries_result:
  "save_retries k broken items store = (r, store') \<Longrightarrow> (\<forall>j. is_stored store j \<longrightarrow> is_stored store' j)
     \<and> (r = None \<longrightarrow> (\<forall>i \<in> set items. is_stored store' i))
     \<and> (\<forall>ids. r = Some (Conflict ids) \<longrightarrow> (\<forall>i \<in> set items. pk i \<in> set ids \<or> is_stored store' i))"
proof (induction k arbitrary: items store)
  case 0
  obtain q store1 where q: "save_pass broken items store = (q, store1)" by force
  show ?case
  proof (cases q)
    case (Inl e)
    then show ?thesis using 0 q save_pass_no_conflict [OF q [unfolded Inl]] save_pass_stored [OF q] by (auto simp: save_retries.simps)
  next
    case (Inr failed)
    then show ?thesis using 0 q save_pass_stored [OF q] by (auto simp: save_retries.simps split: if_splits)
  qed
next
  case (Suc k)
  obtain q store1 where q: "save_pass broken items store = (q, store1)" by force
  note st = save_pass_stored [OF q]
  show ?case
  proof (cases q)
    case (Inl e)
    then have "r = Some e" "store' = store1" using Suc.prems q by (simp_all add: save_retries.simps [of "Suc k"])
    then show ?thesis using save_pass_no_conflict [OF q [unfolded Inl]] st by auto
  next
    case (Inr failed)
    show ?thesis
    proof (cases "failed = []")
      case True
      then have "r = None" "store' = store1" using Suc.prems q Inr by (simp_all add: save_retries.simps [of "Suc k"])
      then show ?thesis using st Inr True by auto
    next
      case False
      then have "save_retries k broken failed store1 = (r, store')" using Suc.prems q Inr by (simp add: save_retries.simps [of "Suc k"])
      from Suc.IH [OF this] show ?thesis using st Inr by blast
    qed
  qed
qed

lemma save_retries_keeps: "is_stored store j \<Longrightarrow> is_stored (snd (save_retries k broken items store)) j"
  using save_retries_result [of k broken items store] by (cases "save_retries k broken items store") simp

lemma save_retries_ranked:
  assumes "\<forall>i \<in> set items. broken i = None" "\<forall>i \<in> set items. rank i \<le> k"
    "\<forall>i \<in> set items. \<forall>x \<in> set (refs i). has_row store x \<or> x = (table_name i, pk i)
       \<or> (\<exists>j \<in> set items. (table_name j, pk j) = x \<and> rank j < rank i)"
  shows "\<exists>store'. save_retries k broken items store = (None, store') \<and> (\<forall>i \<in> set items. is_stored store' i) \<and> grown store store'"
  using assms
proof (induction k arbitrary: items store rank)
  case 0
  obtain failed store' where pass: "save_pass broken items store = (Inr failed, store')" "set failed \<subseteq> set items" "grown store store'"
    "\<forall>i \<in> set items. i \<in> set failed \<or> is_stored store' i" "\<forall>i \<in> set failed. \<not> parents_present (put_row i store) i"
    using save_pass_sound [OF 0(1)] by blast
  have "parents_present (put_row i store) i" if "i \<in> set items" for i
    using 0(2,3) that unfolding parents_present_def has_row_put_iff by fastforce
  then have "failed = []" using pass(2,5) by (cases failed) auto
  then show ?case using pass by (subst save_retries.simps) simp
next
  case (Suc k)
  obtain failed store1 where pass: "save_pass broken items store = (Inr failed, store1)" "set failed \<subseteq> set items" "grown store store1"
    "\<forall>i \<in> set items. i \<in> set failed \<or> is_stored store1 i" "\<forall>i \<in> set failed. \<not> parents_present (put_row i store) i"
    using save_pass_sound [OF Suc.prems(1)] by blast
  have pos: "0 < rank i" if "i \<in> set failed" for i
  proof (rule ccontr)
    assume "\<not> 0 < rank i"
    then have "has_row (put_row i store) x" if "x \<in> set (refs i)" for x
      using Suc.prems(3) pass(2) \<open>i \<in> set failed\<close> that \<open>\<not> 0 < rank i\<close> unfolding has_row_put_iff by fastforce
    then show False using pass(5) \<open>i \<in> set failed\<close> unfolding parents_present_def by blast
  qed
  have fresh: "\<forall>i \<in> set failed. \<forall>x \<in> set (refs i). has_row store1 x \<or> x = (table_name i, pk i)
       \<or> (\<exists>j \<in> set failed. (table_name j, pk j) = x \<and> rank j - 1 < rank i - 1)"
  proof (intro ballI)
    fix i x assume i: "i \<in> set failed" and x: "x \<in> set (refs i)"
    consider "has_row store x" | "x = (table_name i, pk i)" | j where "j \<in> set items" "(table_name j, pk j) = x" "rank j < rank i"
      using Suc.prems(3) i x pass(2) by blast
    then show "has_row store1 x \<or> x = (table_name i, pk i) \<or> (\<exists>j \<in> set failed. (table_name j, pk j) = x \<and> rank j - 1 < rank i - 1)"
    proof cases
      case (3 j)
      show ?thesis
      proof (cases "j \<in> set failed")
        case True
        then have "rank j - 1 < rank i - 1" using pos [OF True] 3(3) by linarith
        then show ?thesis using True 3(2) by blast
      next
        case False then show ?thesis using pass(4) 3 stored_has_row by blast
      qed
    next
      case 1 then show ?thesis using pass(3) unfolding grown_def by blast
    next
      case 2 then show ?thesis by blast
    qed
  qed
  have "\<forall>i \<in> set failed. broken i = None" "\<forall>i \<in> set failed. rank i - 1 \<le> k"
    using Suc.prems(1,2) pass(2) by (auto simp: subset_iff le_diff_conv)
  from Suc.IH [OF this fresh] obtain store' where s': "save_retries k broken failed store1 = (None, store')"
    "\<forall>i \<in> set failed. is_stored store' i" "grown store1 store'" by blast
  have kept: "is_stored store1 j \<Longrightarrow> is_stored store' j" for j
    using save_retries_keeps [of store1 j k broken failed] s'(1) by simp
  have run: "save_retries (Suc k) broken items store = (None, store')" if "failed \<noteq> []"
    using pass(1) s'(1) that by (subst save_retries.simps) simp
  show ?case
  proof (cases "failed = []")
    case True then show ?thesis using pass by (subst save_retries.simps) simp
  next
    case False
    have "grown store store'" using pass(3) s'(3) by (simp add: grown_def)
    then show ?thesis using run [OF False] pass(4) s'(2) kept by blast
  qed
qed

subsection \<open>Views\<close>

definition view_row_key :: "'f generated_row \<Rightarrow> 'f any_value list" where
  "view_row_key r = map (\<lambda>k. case map_of (vr_row r) k of Some v \<Rightarrow> v | None \<Rightarrow> NilV) (vr_keys r)"

text \<open>The rows to insert have the columns of the first row. The statement is a plain insert: a key that is in
  the table, or twice in the message, is an error.\<close>

definition inserted_rows :: "'f generated_row list \<Rightarrow> 'f generated_row list" where
  "inserted_rows rows = (case rows of [] \<Rightarrow> []
     | r0 # _ \<Rightarrow> map (\<lambda>r. r\<lparr>vr_table := vr_table r0,
         vr_row := map (\<lambda>c. (fst c, case map_of (vr_row r) (fst c) of Some v \<Rightarrow> v | None \<Rightarrow> NilV)) (vr_row r0)\<rparr>) rows)"

definition view_rows_of :: "string \<Rightarrow> 'f db_item list \<Rightarrow> 'f generated_row list" where
  "view_rows_of t store = concat (map (\<lambda>i. case i of GeneratedViewRow r \<Rightarrow> if vr_table r = t then [r] else [] | _ \<Rightarrow> []) store)"

definition upsert_view_data :: "'f generated_row list \<Rightarrow> 'f db_item list \<Rightarrow> store_error option \<times> 'f db_item list" where
  "upsert_view_data rows store =
     (case inserted_rows rows of
        [] \<Rightarrow> (None, store)
      | r # rs \<Rightarrow>
         if distinct (map view_row_key (r # rs)) \<and> set (map view_row_key (r # rs)) \<inter> set (map view_row_key (view_rows_of (vr_table r) store)) = {}
         then (None, map GeneratedViewRow (r # rs) @ store)
         else (Some (StoreFailed ''duplicate key''), store))"

text \<open>Deleting: every row adds a condition on the single column of its key, and the conditions are joined by AND.\<close>

fun deletes_row :: "'f generated_row list \<Rightarrow> string \<Rightarrow> 'f db_item \<Rightarrow> bool" where
  "deletes_row rows t (GeneratedViewRow s) = (vr_table s = t \<and>
     list_all (\<lambda>r. map_of (vr_row s) (hd (vr_keys r)) = map_of (vr_row r) (hd (vr_keys r))
       \<and> map_of (vr_row s) (hd (vr_keys r)) \<notin> {None, Some NilV}) rows)"
| "deletes_row rows t i = False"

definition delete_view_data :: "'f generated_row list \<Rightarrow> 'f db_item list \<Rightarrow> store_error option \<times> 'f db_item list" where
  "delete_view_data rows store =
     (case rows of
        [] \<Rightarrow> (None, store)
      | r0 # _ \<Rightarrow>
         if \<not> has_prefix ''view_'' (vr_table r0) then (Some (StoreFailed ''not a view generated table''), store)
         else if \<exists>r \<in> set rows. length (vr_keys r) \<noteq> 1 then (Some (StoreFailed ''primary key''), store)
         else (None, filter (\<lambda>i. \<not> deletes_row rows (vr_table r0) i) store))"

lemma delete_two_deletes_none:
  assumes "r1 \<in> set rows" "r2 \<in> set rows" "vr_keys r1 = [k]" "vr_keys r2 = [k]" "map_of (vr_row r1) k \<noteq> map_of (vr_row r2) k"
  shows "snd (delete_view_data rows store) = store"
proof -
  have no: "\<not> deletes_row rows t i" for t i
  proof
    assume "deletes_row rows t i"
    then obtain s where s: "i = GeneratedViewRow s" by (cases i) simp_all
    have "map_of (vr_row s) (hd (vr_keys r)) = map_of (vr_row r) (hd (vr_keys r))" if "r \<in> set rows" for r
      using that \<open>deletes_row rows t i\<close> s by (auto simp: list_all_iff)
    from this [OF assms(1)] this [OF assms(2)] show False using assms(3-5) by simp
  qed
  show ?thesis
  proof (cases rows)
    case (Cons r rs)
    show ?thesis using no [unfolded Cons] unfolding delete_view_data_def Cons by simp
  qed (simp add: delete_view_data_def)
qed

text \<open>Every view has the fingerprint of the request in its key: with a key of its own, nothing can be deleted.\<close>

lemma delete_keyed_view_fails:
  assumes "r \<in> set rows" "vr_keys r = primary_key cols" "filter cd_primary cols \<noteq> []"
  shows "fst (delete_view_data rows store) \<noteq> None"
proof -
  have "length (vr_keys r) \<noteq> 1" using assms(2,3) by (simp add: primary_key_def)
  then show ?thesis using assms(1) by (auto simp: delete_view_data_def split: list.splits)
qed

text \<open>A row of a view that was stored cannot be pushed again.\<close>

lemma view_row_once:
  assumes "upsert_view_data [r] store = (None, store')"
  shows "fst (upsert_view_data [r] store') \<noteq> None"
proof -
  obtain i where i: "inserted_rows [r] = [i]" by (simp add: inserted_rows_def)
  then have "store' = GeneratedViewRow i # store" using assms by (auto simp: upsert_view_data_def split: if_splits)
  then have "i \<in> set (view_rows_of (vr_table i) store')" by (simp add: view_rows_of_def)
  then show ?thesis using i by (auto simp: upsert_view_data_def)
qed

subsection \<open>Storing a message\<close>

text \<open>The state: the rows of the tables, and the actions whose runs were scheduled, in order.\<close>

record 'f up_state =
  up_rows :: "'f db_item list"
  up_scheduled :: "string list"

datatype 'f insert_step =
    EachRow "'f db_item list" | WithRetries "'f db_item list" | Handled "'f db_item list" | Plain "'f db_item list"

fun save_each :: "('f db_item \<Rightarrow> string option) \<Rightarrow> 'f db_item list \<Rightarrow> 'f db_item list \<Rightarrow> store_error option \<times> 'f db_item list" where
  "save_each broken [] store = (None, store)"
| "save_each broken (i # items) store =
     (case save_row broken i store of
        Saved store1 \<Rightarrow> save_each broken items store1
      | ForeignKeyError \<Rightarrow> (Some (StoreFailed ''foreign key''), store)
      | SaveError e \<Rightarrow> (Some (StoreFailed e), store))"

fun run_step :: "('f db_item \<Rightarrow> string option) \<Rightarrow> 'f insert_step \<Rightarrow> 'f db_item list \<Rightarrow> store_error option \<times> 'f db_item list" where
  "run_step broken (EachRow items) store = save_each broken items store"
| "run_step broken (WithRetries items) store = save_individually_with_retries retry_limit broken items store"
| "run_step broken (Handled items) store = handle_upsert_error broken items (create_in_batches broken items store) store"
| "run_step broken (Plain items) store =
     (case create_in_batches broken items store of
        Saved store1 \<Rightarrow> (None, store1)
      | ForeignKeyError \<Rightarrow> (Some (StoreFailed ''foreign key''), store)
      | SaveError e \<Rightarrow> (Some (StoreFailed e), store))"

fun run_steps :: "('f db_item \<Rightarrow> string option) \<Rightarrow> 'f insert_step list \<Rightarrow> 'f db_item list \<Rightarrow> store_error option \<times> 'f db_item list" where
  "run_steps broken [] store = (None, store)"
| "run_steps broken (s # ss) store =
     (case run_step broken s store of
        (Some e, store1) \<Rightarrow> (Some e, store1)
      | (None, store1) \<Rightarrow> run_steps broken ss store1)"

definition first_steps :: "'f push_data \<Rightarrow> 'f insert_step list" where
  "first_steps p =
     [EachRow (map TopologyRow (pd_topologies p)), EachRow (map Canary (pd_canaries p)), WithRetries (map Component (pd_components p)),
      Handled (map ComponentRelationship (pd_component_rels p)), EachRow (map ConfigScraper (pd_scrapers p)),
      Handled (map ConfigItem (pd_configs p)), Handled (map ConfigRelationship (pd_config_rels p)),
      Handled (map ConfigComponentRelationship (pd_config_component_rels p)), Handled (map CheckConfigRelationship (pd_check_config_rels p)),
      Handled (map ConfigItemLastScrapedTime (pd_last_scraped p)), Plain (map ChecksUnlogged (pd_unlogged p)),
      Handled (map ConfigChange (pd_changes p)), Handled (map ConfigAnalysis (pd_analysis p)), Handled (map Check (pd_checks p)),
      Plain (map ArtifactRow (pd_artifacts p)), Plain (map JobHistoryRow (pd_history p)), Plain (map ViewPanel (pd_panels p))]"

fun upsert_views :: "(string \<times> 'f generated_row list) list \<Rightarrow> 'f db_item list \<Rightarrow> store_error option \<times> 'f db_item list" where
  "upsert_views [] store = (None, store)"
| "upsert_views (v # vs) store =
     (case upsert_view_data (snd v) store of
        (Some e, store1) \<Rightarrow> (Some e, store1)
      | (None, store1) \<Rightarrow> upsert_views vs store1)"

text \<open>The result of an action is written to the columns of the stored action that hold it, \<open>merge\<close> of what is
  stored and what was sent; then its run is scheduled. Nothing happens for an action that is not stored.\<close>

definition update_stored_action :: "(string \<Rightarrow> string \<Rightarrow> string) \<Rightarrow> action_row \<Rightarrow> 'f db_item list \<Rightarrow> 'f db_item list" where
  "update_stored_action merge r = map (\<lambda>i. case i of
      PlaybookRunAction s \<Rightarrow> if pa_id s = pa_id r then PlaybookRunAction (s\<lparr>pa_data := merge (pa_data s) (pa_data r)\<rparr>) else i
    | _ \<Rightarrow> i)"

fun update_actions :: "(string \<Rightarrow> string \<Rightarrow> string) \<Rightarrow> (action_row \<Rightarrow> string option) \<Rightarrow> action_row list \<Rightarrow> 'f up_state
    \<Rightarrow> store_error option \<times> 'f up_state" where
  "update_actions merge fails [] st = (None, st)"
| "update_actions merge fails (r # rs) st =
     (case fails r of
        Some m \<Rightarrow> (Some (StoreFailed m), st)
      | None \<Rightarrow> update_actions merge fails rs
          (st\<lparr>up_rows := update_stored_action merge r (up_rows st),
             up_scheduled := (if has_row (up_rows st) (''playbook_run_actions'', pa_id r)
               then up_scheduled st @ [pa_id r] else up_scheduled st)\<rparr>))"

definition insert_upstream_msg :: "(string \<Rightarrow> string \<Rightarrow> string) \<Rightarrow> ('f db_item \<Rightarrow> string option) \<Rightarrow> 'f push_data \<Rightarrow> 'f up_state \<Rightarrow> store_error option \<times> 'f up_state" where
  "insert_upstream_msg merge broken p st =
     (case run_steps broken (first_steps p) (up_rows st) of
        (Some e, rows) \<Rightarrow> (Some e, st\<lparr>up_rows := rows\<rparr>)
      | (None, rows) \<Rightarrow>
         (case upsert_views (pd_views p) rows of
            (Some e, rows1) \<Rightarrow> (Some e, st\<lparr>up_rows := rows1\<rparr>)
          | (None, rows1) \<Rightarrow>
             (case run_step broken (Handled (map CheckStatus (pd_statuses p))) rows1 of
                (Some e, rows2) \<Rightarrow> (Some e, st\<lparr>up_rows := rows2\<rparr>)
              | (None, rows2) \<Rightarrow> update_actions merge (\<lambda>r. broken (PlaybookRunAction r)) (pd_actions p) (st\<lparr>up_rows := rows2\<rparr>))))"

subsection \<open>What a message leaves stored\<close>

text \<open>The rows a message stores as rows of their own: those of views are inserted under the names of their
  tables, and results of actions are written to actions that are stored already.\<close>

fun stored_kind :: "'f db_item \<Rightarrow> bool" where
  "stored_kind (GeneratedViewRow r) = False"
| "stored_kind (PlaybookRunAction r) = False"
| "stored_kind (CheckComponentRelationship r) = False"
| "stored_kind i = True"

definition all_kept :: "'f db_item list \<Rightarrow> 'f db_item list \<Rightarrow> bool" where
  "all_kept store store' \<longleftrightarrow> (\<forall>j. is_stored store j \<longrightarrow> is_stored store' j)"

lemma all_kept_refl [simp]: "all_kept store store"
  by (simp add: all_kept_def)

lemma all_kept_trans: "all_kept a b \<Longrightarrow> all_kept b c \<Longrightarrow> all_kept a c"
  by (simp add: all_kept_def)

fun step_rows :: "'f insert_step \<Rightarrow> 'f db_item list" where
  "step_rows (EachRow items) = items"
| "step_rows (WithRetries items) = items"
| "step_rows (Handled items) = items"
| "step_rows (Plain items) = items"

lemma save_row_Saved: "save_row broken i store = Saved store' \<Longrightarrow> store' = put_row i store"
  by (auto simp: save_row_def split: option.splits if_splits)

lemma save_each_result:
  "save_each broken items store = (r, store') \<Longrightarrow>
     all_kept store store' \<and> (r = None \<longrightarrow> (\<forall>i \<in> set items. is_stored store' i)) \<and> (\<forall>ids. r \<noteq> Some (Conflict ids))"
proof (induction items arbitrary: store)
  case (Cons i items)
  show ?case
  proof (cases "save_row broken i store")
    case (Saved store1)
    then have run: "save_each broken items store1 = (r, store')" and s1: "store1 = put_row i store"
      using Cons.prems save_row_Saved by auto
    have "all_kept store store1" unfolding s1 all_kept_def using put_row_keeps by blast
    then show ?thesis using Cons.IH [OF run] put_row_stored [of i store] s1 unfolding all_kept_def by auto
  qed (use Cons.prems in auto)
qed simp

lemma create_in_batches_stored:
  assumes "create_in_batches broken items store = Saved store'"
  shows "all_kept store store'" "\<forall>i \<in> set items. is_stored store' i"
proof -
  have c: "concat (row_batches insert_batch_size items) = items" by (rule concat_batches) (simp add: insert_batch_size_def)
  show "all_kept store store'" "\<forall>i \<in> set items. is_stored store' i"
    using batch_saves_stored [OF assms [unfolded create_in_batches_def], unfolded c] unfolding all_kept_def by blast+
qed

lemma run_step_result:
  assumes "run_step broken s store = (r, store')"
  shows "all_kept store store' \<and> (r = None \<longrightarrow> (\<forall>i \<in> set (step_rows s). is_stored store' i))
    \<and> (\<forall>ids. r = Some (Conflict ids) \<longrightarrow> (\<forall>i \<in> set (step_rows s). pk i \<in> set ids \<or> is_stored store' i))"
proof (cases s)
  case (EachRow items)
  then show ?thesis using save_each_result [of broken items store r store'] assms by auto
next
  case (WithRetries items)
  then show ?thesis using save_retries_result [of "Suc retry_limit" broken items store r store'] assms
    by (simp add: save_individually_with_retries_def all_kept_def)
next
  case (Handled items)
  show ?thesis
  proof (cases "create_in_batches broken items store")
    case (Saved store1)
    then show ?thesis using create_in_batches_stored [OF Saved] assms Handled by (auto simp: handle_upsert_error_def)
  next
    case ForeignKeyError
    obtain q store1 where q: "save_pass broken items store = (q, store1)" by force
    note st = save_pass_stored [OF q]
    show ?thesis
    proof (cases q)
      case (Inl e)
      then obtain m where "e = StoreFailed m" using save_pass_no_conflict q by blast
      then show ?thesis using assms Handled ForeignKeyError q Inl st by (auto simp: handle_upsert_error_def all_kept_def)
    next
      case (Inr failed)
      then have "r = Some (Conflict (remdups (map pk failed)))" "store' = store1"
        using assms Handled ForeignKeyError q by (simp_all add: handle_upsert_error_def)
      then show ?thesis using st Inr Handled by (auto simp: all_kept_def)
    qed
  next
    case (SaveError e)
    then show ?thesis using assms Handled by (auto simp: handle_upsert_error_def)
  qed
next
  case (Plain items)
  then show ?thesis using assms create_in_batches_stored [of broken items store]
    by (cases "create_in_batches broken items store") auto
qed

text \<open>A step that ends in a conflict had rows.\<close>

lemma run_step_conflict:
  "run_step broken s store = (Some (Conflict ids), store') \<Longrightarrow> step_rows s \<noteq> []"
proof
  assume conflict: "run_step broken s store = (Some (Conflict ids), store')" and none: "step_rows s = []"
  have "save_retries k broken [] st = (None, st)" for k st by (subst save_retries.simps) simp
  moreover have "create_in_batches broken [] st = Saved st" for st by (simp add: create_in_batches_def row_batches.simps [of _ "[]"])
  ultimately show False
    using conflict none by (cases s) (simp_all add: save_individually_with_retries_def handle_upsert_error_def)
qed

lemma run_steps_result:
  assumes "run_steps broken ss store = (r, store')"
  shows "all_kept store store' \<and> (r = None \<longrightarrow> (\<forall>s \<in> set ss. \<forall>i \<in> set (step_rows s). is_stored store' i))
    \<and> (\<forall>ids. r = Some (Conflict ids) \<longrightarrow> (\<exists>s \<in> set ss. step_rows s \<noteq> [] \<and> (\<forall>i \<in> set (step_rows s). pk i \<in> set ids \<or> is_stored store' i)))"
  using assms
proof (induction ss arbitrary: store)
  case (Cons s ss)
  obtain r1 store1 where s: "run_step broken s store = (r1, store1)" by force
  note st = run_step_result [OF s]
  show ?case
  proof (cases r1)
    case None
    then have run: "run_steps broken ss store1 = (r, store')" using Cons.prems s by simp
    note IH = Cons.IH [OF run]
    have kept: "is_stored store' i" if "i \<in> set (step_rows s)" for i
      using st None that IH unfolding all_kept_def by blast
    have "all_kept store store'" using st IH all_kept_trans by blast
    then show ?thesis using kept IH by (auto 0 3)
  next
    case (Some e)
    then have "r = Some e" "store' = store1" using Cons.prems s by simp_all
    then show ?thesis using st Some s run_step_conflict [of broken s store _ store1] by auto
  qed
qed simp

lemma first_steps_rows:
  assumes "i \<in> set (push_rows p)" "stored_kind i" "\<nexists>r. i = CheckStatus r"
  shows "\<exists>s \<in> set (first_steps p). i \<in> set (step_rows s)"
proof -
  have "i \<in> set (concat (map step_rows (first_steps p)))"
    using assms unfolding push_rows_def first_steps_def by (cases i rule: db_item.exhaust) auto
  then show ?thesis by auto
qed

lemma step_rows_sent: "s \<in> set (first_steps p) \<Longrightarrow> set (step_rows s) \<subseteq> set (push_rows p)"
  unfolding first_steps_def push_rows_def by auto

text \<open>All rows of a step are of one table, and no two steps are of the same.\<close>

definition step_tables :: "string list" where
  "step_tables = [''topologies'', ''canaries'', ''components'', ''component_relationships'', ''config_scrapers'', ''config_items'',
     ''config_relationships'', ''config_component_relationships'', ''check_config_relationships'', ''config_items_last_scraped_time'',
     ''checks_unlogged'', ''config_changes'', ''config_analysis'', ''checks'', ''artifacts'', ''job_history'', ''view_panels'']"

lemma step_tables_distinct: "distinct step_tables"
  by (simp add: step_tables_def)

lemma step_rows_table:
  "list_all2 (\<lambda>s n. \<forall>i \<in> set (step_rows s). table_name i = n) (first_steps p) step_tables"
  by (simp add: first_steps_def step_tables_def)

lemma step_complete:
  assumes "s \<in> set (first_steps p)" "j \<in> set (step_rows s)" "i \<in> set (push_rows p)" "stored_kind i" "\<nexists>r. i = CheckStatus r"
    "table_name i = table_name j"
  shows "i \<in> set (step_rows s)"
proof -
  obtain u where u: "u \<in> set (first_steps p)" "i \<in> set (step_rows u)" using first_steps_rows [OF assms(3,4,5)] by blast
  obtain a b where a: "a < length (first_steps p)" "first_steps p ! a = u" and b: "b < length (first_steps p)" "first_steps p ! b = s"
    using u(1) assms(1) by (meson in_set_conv_nth)
  have "table_name i = step_tables ! a" "table_name j = step_tables ! b"
    using list_all2_nthD [OF step_rows_table a(1)] list_all2_nthD [OF step_rows_table b(1)] a(2) b(2) u(2) assms(2) by auto
  moreover have "length (first_steps p) = length step_tables" using step_rows_table by (rule list_all2_lengthD)
  ultimately have "a = b" using assms(6) step_tables_distinct a(1) b(1) by (simp add: nth_eq_iff_index_eq)
  then show ?thesis using a(2) b(2) u(2) by simp
qed

lemma upsert_view_data_result:
  "upsert_view_data rows store = (r, store') \<Longrightarrow> all_kept store store' \<and> (\<forall>ids. r \<noteq> Some (Conflict ids))"
  by (auto simp: upsert_view_data_def all_kept_def is_stored_def Let_def split: list.splits if_splits)

lemma upsert_views_result:
  "upsert_views vs store = (r, store') \<Longrightarrow> all_kept store store' \<and> (\<forall>ids. r \<noteq> Some (Conflict ids))"
proof (induction vs arbitrary: store)
  case (Cons v vs)
  obtain r1 store1 where v: "upsert_view_data (snd v) store = (r1, store1)" by force
  note st = upsert_view_data_result [OF v]
  show ?case
  proof (cases r1)
    case None
    then have "upsert_views vs store1 = (r, store')" using Cons.prems v by simp
    from Cons.IH [OF this] show ?thesis using st all_kept_trans by blast
  qed (use Cons.prems v st in auto)
qed simp

lemma update_stored_action_kept: "all_kept store (update_stored_action merge r store)"
  unfolding all_kept_def is_stored_def
proof (intro allI impI)
  fix j assume "\<exists>k \<in> set store. same_row j k"
  then obtain k where k: "k \<in> set store" "same_row j k" by blast
  let ?f = "\<lambda>i. case i of PlaybookRunAction s \<Rightarrow> if pa_id s = pa_id r then PlaybookRunAction (s\<lparr>pa_data := merge (pa_data s) (pa_data r)\<rparr>) else i | _ \<Rightarrow> i"
  have "same_row j (?f k)" using k(2) by (cases k) (auto simp: same_row_def)
  then show "\<exists>k \<in> set (update_stored_action merge r store). same_row j k" using k(1) by (auto simp: update_stored_action_def)
qed

lemma update_actions_result:
  "update_actions merge fails rs st = (r, st') \<Longrightarrow> all_kept (up_rows st) (up_rows st') \<and> (\<forall>ids. r \<noteq> Some (Conflict ids))"
proof (induction rs arbitrary: st)
  case (Cons x rs)
  show ?case
  proof (cases "fails x")
    case None
    let ?st = "st\<lparr>up_rows := update_stored_action merge x (up_rows st),
      up_scheduled := (if has_row (up_rows st) (''playbook_run_actions'', pa_id x) then up_scheduled st @ [pa_id x] else up_scheduled st)\<rparr>"
    have "update_actions merge fails rs ?st = (r, st')" using Cons.prems None by simp
    from Cons.IH [OF this] show ?thesis
      using update_stored_action_kept all_kept_trans by (metis (no_types, lifting) up_state.select_convs(1) up_state.surjective up_state.update_convs(1,2))
  qed (use Cons.prems in auto)
qed simp

lemma insert_upstream_msg_result:
  assumes "insert_upstream_msg merge broken p st = (r, st')"
  shows "all_kept (up_rows st) (up_rows st')"
    "r = None \<Longrightarrow> i \<in> set (push_rows p) \<Longrightarrow> stored_kind i \<Longrightarrow> is_stored (up_rows st') i"
    "r = Some (Conflict ids) \<Longrightarrow> \<forall>j \<in> set (push_rows p). table_name j = table_name i \<Longrightarrow> i \<in> set (push_rows p) \<Longrightarrow> stored_kind i
       \<Longrightarrow> pk i \<in> set ids \<or> is_stored (up_rows st') i"
proof -
  let ?statuses = "Handled (map CheckStatus (pd_statuses p))"
  obtain r1 rows1 where one: "run_steps broken (first_steps p) (up_rows st) = (r1, rows1)" by force
  obtain r2 rows2 where two: "upsert_views (pd_views p) rows1 = (r2, rows2)" by force
  obtain r3 rows3 where three: "run_step broken ?statuses rows2 = (r3, rows3)" by force
  obtain r4 st4 where four: "update_actions merge (\<lambda>r. broken (PlaybookRunAction r)) (pd_actions p) (st\<lparr>up_rows := rows3\<rparr>) = (r4, st4)" by force
  note k1 = run_steps_result [OF one] and k2 = upsert_views_result [OF two] and k3 = run_step_result [OF three]
  have k4: "all_kept rows3 (up_rows st4)" "\<forall>ids. r4 \<noteq> Some (Conflict ids)" using update_actions_result [OF four] by simp_all
  have status_conflict: "pd_statuses p \<noteq> []" if "r3 = Some (Conflict ids)" for ids
    using run_step_conflict [of broken ?statuses rows2 ids rows3] three that by simp
  consider (first) x where "r1 = Some x" "r = r1" "up_rows st' = rows1" | (views) x where "r1 = None" "r2 = Some x" "r = r2" "up_rows st' = rows2"
    | (statuses) x where "r1 = None" "r2 = None" "r3 = Some x" "r = r3" "up_rows st' = rows3"
    | (actions) "r1 = None" "r2 = None" "r3 = None" "r = r4" "st' = st4"
    using assms one two three four by (cases r1; cases r2; cases r3) (auto simp: insert_upstream_msg_def)
  note how = this
  have k12: "all_kept (up_rows st) rows2" by (rule all_kept_trans [OF k1 [THEN conjunct1] k2 [THEN conjunct1]])
  have k13: "all_kept (up_rows st) rows3" by (rule all_kept_trans [OF k12 k3 [THEN conjunct1]])
  show "all_kept (up_rows st) (up_rows st')"
    using how
  proof cases
    case actions
    then show ?thesis using all_kept_trans [OF k13 k4(1)] by simp
  qed (use k1 k12 k13 in simp_all)
  show "is_stored (up_rows st') i" if "r = None" and i: "i \<in> set (push_rows p)" "stored_kind i"
  proof -
    have n: "r1 = None" "r3 = None" "st' = st4" by (rule how; use \<open>r = None\<close> in simp)+
    show ?thesis
    proof (cases "\<exists>c. i = CheckStatus c")
      case True
      then have "i \<in> set (step_rows ?statuses)" using i(1) unfolding push_rows_def by auto
      then show ?thesis using k3 k4(1) n unfolding all_kept_def by blast
    next
      case False
      then obtain s where "s \<in> set (first_steps p)" "i \<in> set (step_rows s)" using first_steps_rows i by blast
      then have "is_stored rows1 i" using k1 n by blast
      then show ?thesis using k2 k3 k4(1) n unfolding all_kept_def by blast
    qed
  qed
  show "pk i \<in> set ids \<or> is_stored (up_rows st') i"
    if conflict: "r = Some (Conflict ids)" and t: "\<forall>j \<in> set (push_rows p). table_name j = table_name i" and i: "i \<in> set (push_rows p)" "stored_kind i"
    using how
  proof cases
    case (first x)
    then obtain s j where s: "s \<in> set (first_steps p)" "j \<in> set (step_rows s)" "\<forall>i \<in> set (step_rows s). pk i \<in> set ids \<or> is_stored rows1 i"
      using k1 conflict by (metis last_in_set)
    have j: "table_name j = table_name i" using t step_rows_sent s(1,2) by blast
    have "\<nexists>c. i = CheckStatus c" using j s(1,2) unfolding first_steps_def by auto
    then have "i \<in> set (step_rows s)" using step_complete [OF s(1,2) i] j by simp
    then show ?thesis using s(3) first by blast
  next
    case (statuses x)
    then obtain c where "c \<in> set (pd_statuses p)" using status_conflict conflict by (cases "pd_statuses p") auto
    then have "table_name i = ''check_statuses''" using t unfolding push_rows_def by force
    then have "\<exists>c. i = CheckStatus c" using i(2) by (cases i) simp_all
    then have "i \<in> set (step_rows ?statuses)" using i(1) unfolding push_rows_def by auto
    then show ?thesis using k3 statuses conflict by metis
  qed (use conflict k2 k4(2) in auto)
qed

subsection \<open>The handler of pushes\<close>

text \<open>The error of a message: a conflict has the ids of the rows as its data, which \<open>encode\<close> marshals; any other is
  an error of the database with a text around it.\<close>

definition foreign_key_error :: string where
  "foreign_key_error = ''foreign key error''"

definition store_failure :: "(string list \<Rightarrow> string) \<Rightarrow> store_error \<Rightarrow> go_error" where
  "store_failure encode e =
     (case e of
        Conflict ids \<Rightarrow> ApiErr (with_data (Some (encode ids)) (errorf conflict_code foreign_key_error))
      | StoreFailed m \<Rightarrow> PlainErr m)"

record 'f server_state = "'f up_state" +
  sv_rings :: "(string \<times> history_row) list"
  sv_received :: "string list"
  sv_seen :: "string list"

text \<open>A message that is stored: its histories go to the rings of the agent, when there are rings, and the agent was
  heard of, unless the database fails that, which is only logged.\<close>

definition handle_push :: "(string list \<Rightarrow> string) \<Rightarrow> (string \<Rightarrow> string \<Rightarrow> string) \<Rightarrow> ('f db_item \<Rightarrow> string option) \<Rightarrow> bool \<Rightarrow> bool
    \<Rightarrow> string \<Rightarrow> string \<Rightarrow> string + 'f push_data \<Rightarrow> 'f server_state \<Rightarrow> (nat \<times> error_body option) \<times> 'f server_state" where
  "handle_push encode merge broken rings touched aid aname body st =
     (case body of
        Inl e \<Rightarrow> ((400, Some (HttpBody \<lparr>he_err = e, he_message = ''invalid json request'', he_data = []\<rparr>)), st)
      | Inr p \<Rightarrow>
         (case insert_upstream_msg merge broken (received aid aname p) (up_state.truncate st) of
            (Some err, u) \<Rightarrow>
              (case write_error (store_failure encode err) of
                 (code, b) \<Rightarrow> ((code, Some b), st\<lparr>up_rows := up_rows u, up_scheduled := up_scheduled u\<rparr>))
          | (None, u) \<Rightarrow>
              ((200, None), st\<lparr>up_rows := up_rows u, up_scheduled := up_scheduled u,
                 sv_rings := (if rings then sv_rings st @ map (\<lambda>h. (aid, h)) (pd_history (received aid aname p)) else sv_rings st),
                 sv_received := (if touched then sv_received st @ [aid] else sv_received st),
                 sv_seen := (if touched then sv_seen st @ [aid] else sv_seen st)\<rparr>)))"

text \<open>The agent's client: a response that is not a success is an HTTP error when its body is one.\<close>

definition parse_response :: "string \<Rightarrow> string" where
  "parse_response body = (if length body > 200 then take 200 body else body)"

definition push_response :: "nat \<Rightarrow> string \<Rightarrow> http_error option \<Rightarrow> push_answer" where
  "push_response status raw decoded =
     (if 200 \<le> status \<and> status < 300 then Accepted
      else case decoded of
        Some h \<Rightarrow> Refused (http_error_text h) (Some (he_data h))
      | None \<Rightarrow> Refused (''upstream server returned error status['' @ nat_text status @ '']: '' @ parse_response raw) None)"

definition response_error :: "error_body option \<Rightarrow> http_error option" where
  "response_error b = (case b of Some (HttpBody h) \<Rightarrow> Some h | _ \<Rightarrow> None)"

lemma handle_push_conflict:
  assumes "insert_upstream_msg merge broken (received aid aname p) (up_state.truncate st) = (Some (Conflict ids), u)"
  shows "\<exists>st1. handle_push encode merge broken rings touched aid aname (Inr p) st
    = ((409, Some (HttpBody \<lparr>he_err = foreign_key_error, he_message = [], he_data = encode ids\<rparr>)), st1) \<and> up_rows st1 = up_rows u"
  using assms by (simp add: handle_push_def store_failure_def write_error_def as_oops_def as_api_def error_code_def error_message_def
      error_data_def with_data_def errorf_def error_status_code_def status_codes_def)

lemma handle_push_failed:
  assumes "insert_upstream_msg merge broken (received aid aname p) (up_state.truncate st) = (Some (StoreFailed m), u)"
  shows "\<exists>st1. handle_push encode merge broken rings touched aid aname (Inr p) st
    = ((500, Some (HttpBody \<lparr>he_err = m, he_message = [], he_data = []\<rparr>)), st1) \<and> up_rows st1 = up_rows u"
  using assms by (simp add: handle_push_def store_failure_def plain_written)

lemma handle_push_stored:
  assumes "insert_upstream_msg merge broken (received aid aname p) (up_state.truncate st) = (None, u)"
  shows "\<exists>st1. handle_push encode merge broken rings touched aid aname (Inr p) st = ((200, None), st1) \<and> up_rows st1 = up_rows u"
  using assms by (simp add: handle_push_def)

text \<open>The rows whose keys the handler leaves as they are.\<close>

fun kept_key :: "'f db_item \<Rightarrow> bool" where
  "kept_key (ConfigItem r) = (cf_id r \<noteq> local_agent_config_id \<and> cf_type r \<noteq> Some ''MissionControl::Agent'')"
| "kept_key (ConfigItemLastScrapedTime r) = (ls_config r \<noteq> local_agent_config_id)"
| "kept_key (ConfigScraper r) = (sr_id r \<noteq> zero_uuid)"
| "kept_key i = stored_kind i"

lemma kept_stored: "kept_key i \<Longrightarrow> stored_kind i"
  by (cases i) simp_all

fun receive_row :: "string \<Rightarrow> 'f db_item \<Rightarrow> 'f db_item" where
  "receive_row a (Canary r) = Canary (r\<lparr>cn_agent := a\<rparr>)"
| "receive_row a (Check r) = Check (r\<lparr>ck_agent := a\<rparr>)"
| "receive_row a (Component r) = Component (r\<lparr>cp_agent := a\<rparr>)"
| "receive_row a (ConfigScraper r) = ConfigScraper (r\<lparr>sr_agent := a\<rparr>)"
| "receive_row a (ConfigItem r) = ConfigItem (r\<lparr>cf_agent := a\<rparr>)"
| "receive_row a (ConfigChange r) = ConfigChange (if ch_config r = local_agent_config_id then r\<lparr>ch_config := a\<rparr> else r)"
| "receive_row a (TopologyRow r) = TopologyRow (r\<lparr>tp_agent := a\<rparr>)"
| "receive_row a (JobHistoryRow r) = JobHistoryRow (r\<lparr>jr_agent := a\<rparr>)"
| "receive_row a (ViewPanel r) = ViewPanel (r\<lparr>vp_agent := a\<rparr>)"
| "receive_row a i = i"

lemma receive_row_same: "same_row (receive_row a i) i" "stored_kind (receive_row a i) = stored_kind i"
  by (cases i; simp add: same_row_def)+

lemma received_row:
  assumes "i \<in> set (push_rows p)" "kept_key i"
  shows "receive_row aid i \<in> set (push_rows (received aid aname p))"
  using assms unfolding push_rows_def set_append set_map
  by (elim UnE imageE) (simp_all add: image_iff received_def add_agent_config_def populate_agent_id_def agent_config_def, force+)

lemma received_keeps:
  assumes "i \<in> set (push_rows p)" "kept_key i"
  shows "\<exists>j \<in> set (push_rows (received aid aname p)). same_row j i \<and> stored_kind j"
  using received_row [OF assms] receive_row_same kept_stored [OF assms(2)] by blast

lemma received_tables:
  assumes "\<forall>j \<in> set (push_rows p). table_name j = t"
  shows "\<forall>j \<in> set (push_rows (received aid aname p)). table_name j = t"
  using assms unfolding push_rows_def
  by (simp add: ball_Un received_def add_agent_config_def populate_agent_id_def) blast

subsection \<open>Agent and upstream\<close>

text \<open>What the agent relies on: the rows that are stored stay stored while it works, a success answers for all rows
  of a message and a conflict for those it does not name. \<open>store\<close> reads the upstream's rows off the world.\<close>

definition keeps_rows :: "('f, 'w) push_env \<Rightarrow> ('w \<Rightarrow> 'f db_item list) \<Rightarrow> bool" where
  "keeps_rows env store \<longleftrightarrow> (\<forall>w. all_kept (store w) (store (snd (pe_fetch env w))) \<and> all_kept (store w) (store (snd (pe_resets env w)))
     \<and> all_kept (store w) (store (snd (pe_mark env w))))"

definition answers_for :: "('f, 'w) push_env \<Rightarrow> ('w \<Rightarrow> 'f db_item list) \<Rightarrow> bool" where
  "answers_for env store \<longleftrightarrow> (\<forall>msg w. all_kept (store w) (store (snd (pe_push env msg w)))
     \<and> (\<forall>i \<in> set (push_rows msg). kept_key i \<longrightarrow> (\<forall>j \<in> set (push_rows msg). table_name j = table_name i) \<longrightarrow>
          (\<forall>ids. answer_ids env (fst (pe_push env msg w)) = Some ids \<longrightarrow>
             pk i \<in> set ids \<or> is_stored (store (snd (pe_push env msg w))) i)))"

lemma is_stored_same: "is_stored store j \<Longrightarrow> same_row j i \<Longrightarrow> is_stored store i"
  by (auto simp: is_stored_def same_row_def)

text \<open>The handler of the model is such an upstream, over the network or not: an answer that was lost is an error that
  is not decoded.\<close>

definition upstream_push :: "(string list \<Rightarrow> string) \<Rightarrow> (string \<Rightarrow> string \<Rightarrow> string) \<Rightarrow> ('f db_item \<Rightarrow> string option) \<Rightarrow> bool \<Rightarrow> bool
    \<Rightarrow> string \<Rightarrow> string \<Rightarrow> string \<Rightarrow> (nat \<Rightarrow> bool \<times> bool) \<Rightarrow> 'f push_data \<Rightarrow> nat \<times> 'f server_state
    \<Rightarrow> push_answer \<times> nat \<times> 'f server_state" where
  "upstream_push encode merge broken rings touched aid aname raw network msg w =
     (case network (fst w) of
        (False, _) \<Rightarrow> (Refused ''error pushing to upstream'' None, Suc (fst w), snd w)
      | (True, answered) \<Rightarrow>
         (case handle_push encode merge broken rings touched aid aname (Inr msg) (snd w) of
            ((status, b), st) \<Rightarrow>
              (if answered then push_response status raw (response_error b) else Refused ''error pushing to upstream'' None,
               Suc (fst w), st)))"

definition codes_ids :: "(string list \<Rightarrow> string) \<Rightarrow> (string \<Rightarrow> string + string list) \<Rightarrow> bool" where
  "codes_ids encode decode \<longleftrightarrow> (\<forall>ids. decode (encode ids) = Inr ids)"

lemma handler_answers:
  assumes "pe_push env = upstream_push encode merge broken rings touched aid aname raw network" "codes_ids encode (pe_decode env)"
  shows "answers_for env (\<lambda>w. up_rows (snd w))"
  unfolding answers_for_def
proof (intro allI conjI)
  fix msg and w :: "nat \<times> 'a server_state"
  obtain r u where u: "insert_upstream_msg merge broken (received aid aname msg) (up_state.truncate (snd w)) = (r, u)" by force
  have rows: "up_rows (up_state.truncate (snd w)) = up_rows (snd w)" by (simp add: up_state.truncate_def)
  note ins = insert_upstream_msg_result [OF u, unfolded rows]
  obtain a st where push: "pe_push env msg w = (a, Suc (fst w), st)"
    and st: "st = snd w \<and> answer_ids env a = None \<or> up_rows st = up_rows u \<and>
      (answer_ids env a = None \<or> r = None \<and> answer_ids env a = Some []
        \<or> (\<exists>ids. r = Some (Conflict ids) \<and> answer_ids env a = Some ids))"
  proof -
    obtain sent answered where n: "network (fst w) = (sent, answered)" by force
    show ?thesis
    proof (cases sent)
      case False
      then show ?thesis using that [of "Refused ''error pushing to upstream'' None" "snd w"] n by (simp add: assms(1) upstream_push_def)
    next
      case True
      show ?thesis
      proof (cases r)
        case None
        obtain st1 where "handle_push encode merge broken rings touched aid aname (Inr msg) (snd w) = ((200, None), st1)" "up_rows st1 = up_rows u"
          using handle_push_stored [OF u [unfolded None]] by blast
        then show ?thesis
          using that [of "if answered then Accepted else Refused ''error pushing to upstream'' None" st1] n True None
          by (simp add: assms(1) upstream_push_def push_response_def)
      next
        case (Some e)
        show ?thesis
        proof (cases e)
          case (Conflict ids)
          obtain st1 where h: "handle_push encode merge broken rings touched aid aname (Inr msg) (snd w)
              = ((409, Some (HttpBody \<lparr>he_err = foreign_key_error, he_message = [], he_data = encode ids\<rparr>)), st1)" "up_rows st1 = up_rows u"
            using handle_push_conflict [OF u [unfolded Some Conflict]] by blast
          show ?thesis
            using that [of "fst (pe_push env msg w)" st1] n True Some Conflict h assms(2)
            by (simp add: assms(1) upstream_push_def push_response_def response_error_def codes_ids_def)
        next
          case (StoreFailed m)
          obtain st1 where h: "handle_push encode merge broken rings touched aid aname (Inr msg) (snd w)
              = ((500, Some (HttpBody \<lparr>he_err = m, he_message = [], he_data = []\<rparr>)), st1)" "up_rows st1 = up_rows u"
            using handle_push_failed [OF u [unfolded Some StoreFailed]] by blast
          show ?thesis
            using that [of "fst (pe_push env msg w)" st1] n True Some StoreFailed h
            by (simp add: assms(1) upstream_push_def push_response_def response_error_def)
        qed
      qed
    qed
  qed
  show "all_kept (up_rows (snd w)) (up_rows (snd (snd (pe_push env msg w))))" using push st ins(1) by auto
  show "\<forall>i \<in> set (push_rows msg). kept_key i \<longrightarrow> (\<forall>j \<in> set (push_rows msg). table_name j = table_name i) \<longrightarrow>
    (\<forall>ids. answer_ids env (fst (pe_push env msg w)) = Some ids \<longrightarrow> pk i \<in> set ids \<or> is_stored (up_rows (snd (snd (pe_push env msg w)))) i)"
  proof (intro ballI impI allI)
    fix i ids assume i: "i \<in> set (push_rows msg)" "kept_key i" and t: "\<forall>j \<in> set (push_rows msg). table_name j = table_name i"
      and ans: "answer_ids env (fst (pe_push env msg w)) = Some ids"
    obtain j where j: "j \<in> set (push_rows (received aid aname msg))" "same_row j i" "stored_kind j" using received_keeps [OF i] by blast
    have tj: "\<forall>k \<in> set (push_rows (received aid aname msg)). table_name k = table_name j"
      using received_tables [OF t] j(1) by simp
    have "pk j \<in> set ids \<or> is_stored (up_rows u) j" using st push ans ins(2) [OF _ j(1,3)] ins(3) [OF _ tj j(1,3)] by auto
    then show "pk i \<in> set ids \<or> is_stored (up_rows (snd (snd (pe_push env msg w)))) i"
      using st push ans j(2) is_stored_same [of _ j i] by (auto simp: same_row_def)
  qed
qed

lemma mark_batch_world:
  "keeps_rows env store \<Longrightarrow> all_kept (store (ps_world s)) (store (ps_world (snd (mark_batch n env t b s))))"
proof (induction n arbitrary: s)
  case 0
  have "all_kept (store (ps_world s)) (store (snd (pe_mark env (ps_world s))))" using 0 by (simp add: keeps_rows_def)
  then show ?case by (subst mark_batch.simps) (auto split: prod.splits mark_outcome.splits sum.splits)
next
  case (Suc n)
  have k: "all_kept (store (ps_world s)) (store (snd (pe_mark env (ps_world s))))" using Suc.prems by (simp add: keeps_rows_def)
  then show ?case
    using all_kept_trans [OF k] Suc.IH [OF Suc.prems, of "s\<lparr>ps_world := snd (pe_mark env (ps_world s))\<rparr>"]
    by (subst mark_batch.simps) (auto split: prod.splits mark_outcome.splits sum.splits)
qed

lemma mark_batches_world:
  "keeps_rows env store \<Longrightarrow> all_kept (store (ps_world s)) (store (ps_world (snd (mark_batches env t bs s))))"
proof (induction bs arbitrary: s)
  case (Cons b bs)
  obtain r s1 where b: "mark_batch 3 env t b s = (r, s1)" by force
  have k: "all_kept (store (ps_world s)) (store (ps_world s1))" using mark_batch_world [OF Cons.prems, of s 3 t b] b by simp
  show ?case using all_kept_trans [OF k Cons.IH [OF Cons.prems]] k b by (cases r) simp_all
qed simp

lemma mark_items_world:
  "keeps_rows env store \<Longrightarrow> all_kept (store (ps_world s)) (store (ps_world (snd (mark_items env t items s))))"
  using mark_batches_world [of env store "s\<lparr>ps_count := ps_count s + length items\<rparr>" t] by (simp add: mark_items_def Let_def)

lemma handle_failed_world:
  assumes "keeps_rows env store"
  shows "all_kept (store (ps_world s)) (store (ps_world (snd (handle_failed env t failed s))))"
proof -
  have k: "all_kept (store (ps_world s)) (store (snd (pe_resets env (ps_world s))))" using assms by (simp add: keeps_rows_def)
  then show ?thesis
    by (cases t) (auto simp: handle_failed_def Let_def split: option.splits prod.splits)
qed

text \<open>The rows of a batch are all of the table.\<close>

lemma batch_table:
  assumes "arranges (pe_arrange env)" "items = get_unpushed (pe_values env) (pe_arrange env) n (Table name) db" "i \<in> set items"
  shows "table_name i = name" "i \<in> fst ` set db"
proof -
  have "set (pe_arrange env xs) = set xs" for xs using assms(1) unfolding arranges_def by (metis mset_eq_setD)
  then have "i \<in> set (unpushed (Table name) db)"
    using assms(2,3) set_take_subset by (fastforce simp: get_unpushed_def fetched_def)
  then show "table_name i = name" "i \<in> fst ` set db" by (auto simp: unpushed_def)
qed

lemma set_new_push_data: "set (push_rows (new_push_data items)) = set (filter sent_row items)"
  using new_push_data_rows [of items] by (metis mset_eq_setD)

lemma kept_sent: "kept_key i \<Longrightarrow> sent_row i"
  by (cases i) (simp_all add: sent_row_def)

text \<open>What is known after a batch was answered.\<close>

lemma push_answered:
  assumes "answers_for env store" "client_push env (new_push_data items) w = (a, w1)" "\<forall>i \<in> set items. table_name i = name"
  shows "all_kept (store w) (store w1)" "\<forall>i \<in> set (taken env (items, a)). kept_key i \<longrightarrow> is_stored (store w1) i"
proof -
  let ?msg = "new_push_data items"
  show "all_kept (store w) (store w1)"
    using assms(1,2) by (auto simp: client_push_def answers_for_def split: if_splits) (metis snd_conv)
  show "\<forall>i \<in> set (taken env (items, a)). kept_key i \<longrightarrow> is_stored (store w1) i"
  proof (intro ballI impI)
    fix i assume i: "i \<in> set (taken env (items, a))" "kept_key i"
    then obtain ids where ids: "answer_ids env a = Some ids" "i \<in> set items" "pk i \<notin> set ids"
      by (cases "answer_ids env a") (auto simp: taken_def)
    have "i \<in> set (push_rows ?msg)" using ids(2) kept_sent [OF i(2)] by (simp add: set_new_push_data)
    moreover from this have "push_count ?msg \<noteq> 0" using ids(2) kept_sent [OF i(2)] by (auto simp: new_push_data_count filter_empty_conv)
    then have "pe_push env ?msg w = (a, w1)" using assms(2) by (simp add: client_push_def)
    moreover have "\<forall>j \<in> set (push_rows ?msg). table_name j = table_name i"
      using assms(3) ids(2) by (auto simp: set_new_push_data)
    ultimately show "is_stored (store w1) i"
      using assms(1) i(2) ids(1,3) unfolding answers_for_def by (metis fst_conv snd_conv)
  qed
qed

lemma push_round_stored:
  assumes "keeps_rows env store" "answers_for env store" "arranges (pe_arrange env)" "push_round env (Table name) n s = (r, s')"
  shows "\<exists>sent. ps_sent s' = ps_sent s @ sent \<and> all_kept (store (ps_world s)) (store (ps_world s'))
    \<and> (\<forall>i \<in> set (all_taken env sent). table_name i = name \<and> i \<in> fst ` set (ps_db s) \<and> (kept_key i \<longrightarrow> is_stored (store (ps_world s')) i))"
proof -
  let ?items = "get_unpushed (pe_values env) (pe_arrange env) n (Table name) (ps_db s)"
  obtain f w where f: "pe_fetch env (ps_world s) = (f, w)" by force
  have kw: "all_kept (store (ps_world s)) (store w)" using assms(1) f by (auto simp: keeps_rows_def) (metis snd_conv)
  consider (quiet) "f \<noteq> None \<or> ?items = []" | (send) "f = None" "?items \<noteq> []" by blast
  then show ?thesis
  proof cases
    case quiet
    then have "s' = s\<lparr>ps_world := w\<rparr>" using assms(4) f by (cases f) (auto simp: push_round_def)
    then show ?thesis using kw by (intro exI [of _ "[]"]) (simp add: all_taken_def)
  next
    case send
    obtain a w1 where p: "client_push env (new_push_data ?items) w = (a, w1)" by force
    let ?s1 = "s\<lparr>ps_world := w1, ps_sent := ps_sent s @ [(?items, a)]\<rparr>"
    have tab: "\<forall>i \<in> set ?items. table_name i = name" using batch_table(1) [OF assms(3) refl] by blast
    have rows: "i \<in> fst ` set (ps_db s)" if "i \<in> set ?items" for i using batch_table(2) [OF assms(3) refl that] .
    note ans = push_answered [OF assms(2) p tab]
    have later: "all_kept (store w1) (store (ps_world s')) \<and> ps_sent s' = ps_sent s @ [(?items, a)]"
    proof -
      have m: "all_kept (store w1) (store (ps_world s2)) \<and> ps_sent s2 = ps_sent s @ [(?items, a)]"
        if "mark_items env (Table name) xs s1 = (e, s2)" "all_kept (store w1) (store (ps_world s1))" "ps_sent s1 = ps_sent s @ [(?items, a)]" for xs s1 e s2
        using mark_items_world [OF assms(1), of s1 "Table name" xs] mark_items_result(3) [OF that(1)] that all_kept_trans by (metis snd_conv)
      show ?thesis
      proof (cases "\<exists>e d ids. a = Refused e (Some d) \<and> d \<noteq> [] \<and> pe_decode env d = Inr ids")
        case True
        then obtain e d ids where a: "a = Refused e (Some d)" "d \<noteq> []" "pe_decode env d = Inr ids" by blast
        obtain h s2 where h: "handle_failed env (Table name) (filter (\<lambda>i. pk i \<in> set ids) ?items) ?s1 = (h, s2)" by force
        obtain e3 s3 where m3: "mark_items env (Table name) (filter (\<lambda>i. pk i \<notin> set ids) ?items) s2 = (e3, s3)" by force
        have s2: "all_kept (store w1) (store (ps_world s2))" "ps_sent s2 = ps_sent s @ [(?items, a)]"
          using handle_failed_world [OF assms(1), of ?s1 "Table name" "filter (\<lambda>i. pk i \<in> set ids) ?items"] h handle_failed_result(3) [OF h]
          by simp_all
        have "s' = s2 \<or> s' = s3" using assms(4) f p send a h m3 by (auto simp: push_round_def Let_def split: option.splits)
        then show ?thesis using s2 m [OF m3 s2] by blast
      next
        case False
        show ?thesis
        proof (cases a)
          case Accepted
          obtain e s2 where m2: "mark_items env (Table name) ?items ?s1 = (e, s2)" by force
          have "s' = s2" using assms(4) f p send m2 Accepted by (auto simp: push_round_def Let_def split: option.splits)
          then show ?thesis using m [OF m2] by simp
        next
          case (Refused e d)
          then have "s' = ?s1" using assms(4) f p send False
            by (cases d) (auto simp: push_round_def Let_def split: option.splits sum.splits if_splits)
          then show ?thesis by simp
        qed
      qed
    qed
    have "all_kept (store (ps_world s)) (store (ps_world s'))" using all_kept_trans [OF all_kept_trans [OF kw ans(1)]] later by blast
    moreover have "\<forall>i \<in> set (taken env (?items, a)). table_name i = name \<and> i \<in> fst ` set (ps_db s) \<and> (kept_key i \<longrightarrow> is_stored (store (ps_world s')) i)"
    proof (intro ballI conjI impI)
      fix i assume i: "i \<in> set (taken env (?items, a))"
      then have "i \<in> set ?items" by (auto simp: taken_def split: option.splits)
      then show "table_name i = name" "i \<in> fst ` set (ps_db s)" using tab rows by blast+
      show "is_stored (store (ps_world s')) i" if "kept_key i" using i that ans(2) later unfolding all_kept_def by blast
    qed
    ultimately show ?thesis using later by (intro exI [of _ "[(?items, a)]"]) (simp add: all_taken_def)
  qed
qed

lemma push_round_rows:
  assumes "push_round env t n s = (r, s')"
  shows "map fst (ps_db s') = map fst (ps_db s)"
proof -
  have r: "map fst (fold reset_pushed us db) = map fst db" for us and db :: "'a agent_db"
    by (induction us arbitrary: db) (simp_all add: reset_rows)
  show ?thesis using push_round_result [OF assms] by (auto simp: round_sent_def r)
qed

lemma loop_stored:
  assumes "keeps_rows env store" "answers_for env store" "arranges (pe_arrange env)"
  shows "reconcile_loop fuel env (Table name) n s = Some (e, s') \<Longrightarrow>
    \<exists>sent. ps_sent s' = ps_sent s @ sent \<and> all_kept (store (ps_world s)) (store (ps_world s'))
    \<and> (\<forall>i \<in> set (all_taken env sent). table_name i = name \<and> i \<in> fst ` set (ps_db s) \<and> (kept_key i \<longrightarrow> is_stored (store (ps_world s')) i))"
proof (induction fuel arbitrary: s)
  case (Suc fuel)
  obtain r s1 where r: "push_round env (Table name) n s = (r, s1)" by force
  obtain sent where one: "ps_sent s1 = ps_sent s @ sent" "all_kept (store (ps_world s)) (store (ps_world s1))"
    "\<forall>i \<in> set (all_taken env sent). table_name i = name \<and> i \<in> fst ` set (ps_db s) \<and> (kept_key i \<longrightarrow> is_stored (store (ps_world s1)) i)"
    using push_round_stored [OF assms r] by blast
  show ?case
  proof (cases r)
    case GoOn
    then have "reconcile_loop fuel env (Table name) n s1 = Some (e, s')" using Suc.prems r by simp
    from Suc.IH [OF this] obtain rest where rest: "ps_sent s' = ps_sent s1 @ rest" "all_kept (store (ps_world s1)) (store (ps_world s'))"
      "\<forall>i \<in> set (all_taken env rest). table_name i = name \<and> i \<in> fst ` set (ps_db s1) \<and> (kept_key i \<longrightarrow> is_stored (store (ps_world s')) i)"
      by blast
    have "fst ` set (ps_db s1) = fst ` set (ps_db s)" using push_round_rows [OF r] by (metis list.set_map)
    moreover have "all_taken env (sent @ rest) = all_taken env sent @ all_taken env rest" by (simp add: all_taken_def)
    ultimately have "\<forall>i \<in> set (all_taken env (sent @ rest)). table_name i = name \<and> i \<in> fst ` set (ps_db s)
        \<and> (kept_key i \<longrightarrow> is_stored (store (ps_world s')) i)"
      using one(3) rest(2,3) unfolding all_kept_def by auto
    then show ?thesis using one(1,2) rest(1,2) all_kept_trans by (intro exI [of _ "sent @ rest"]) auto
  next
    case Ended
    then show ?thesis using one Suc.prems r by auto
  qed
qed simp

lemma mark_key_same:
  "table_name i = table_name j \<Longrightarrow> kept_key i \<Longrightarrow> kept_key j \<Longrightarrow> mark_key (Table name) i = mark_key (Table name) j \<Longrightarrow> same_row i j"
  by (cases i; cases j; simp add: same_row_def split: option.splits)


text \<open>An example: the second check's canary is not at the upstream.\<close>

fun write_ids :: "string list \<Rightarrow> string" where
  "write_ids ids = CHR ''i'' # concat (map (\<lambda>s. concat (map (\<lambda>c. [CHR ''c'', c]) s) @ ''e'') ids)"

fun split_ids :: "string \<Rightarrow> string \<Rightarrow> string list" where
  "split_ids acc [] = []"
| "split_ids acc (b # s) = (if b = CHR ''e'' then rev acc # split_ids [] s else case s of [] \<Rightarrow> [] | c # s' \<Rightarrow> split_ids (c # acc) s')"

definition read_ids :: "string \<Rightarrow> string + string list" where
  "read_ids s = Inr (split_ids [] (drop 1 s))"

lemma sample_codes: "codes_ids write_ids read_ids"
proof -
  have "split_ids acc (concat (map (\<lambda>c. [CHR ''c'', c]) s) @ ''e'' @ rest) = (rev acc @ s) # split_ids [] rest" for acc s rest
    by (induction s arbitrary: acc) simp_all
  then have "split_ids [] (concat (map (\<lambda>s. concat (map (\<lambda>c. [CHR ''c'', c]) s) @ ''e'') ids)) = ids" for ids
    by (induction ids) simp_all
  then show ?thesis by (simp add: codes_ids_def read_ids_def)
qed

definition sample_check :: "string \<Rightarrow> string \<Rightarrow> unit db_item" where
  "sample_check i c = Check \<lparr>ck_id = i, ck_canary = c, ck_agent = zero_uuid, ck_labels = [], ck_data = []\<rparr>"

definition sample_server :: "unit server_state" where
  "sample_server = \<lparr>up_rows = [sample_canary ''c1''], up_scheduled = [], sv_rings = [], sv_received = [], sv_seen = []\<rparr>"

definition sample_store_env :: "(unit, nat \<times> unit server_state) push_env" where
  "sample_store_env = \<lparr>pe_fetch = (\<lambda>w. (None, w)),
     pe_push = upstream_push write_ids (\<lambda>a b. b) (\<lambda>i. None) True True ''agent-1'' ''edge'' [] (\<lambda>n. (True, True)),
     pe_decode = read_ids, pe_resets = (\<lambda>w. (\<lambda>t. None, w)), pe_mark = (\<lambda>w. (MarkOk, w)), pe_values = sample_go_values,
     pe_arrange = (\<lambda>xs. xs), pe_mark_size = 200\<rparr>"

definition sample_store_state :: "(unit, nat \<times> unit server_state) push_state" where
  "sample_store_state = \<lparr>ps_count = 0, ps_foreign = [],
     ps_db = [(sample_check ''k1'' ''c1'', False), (sample_check ''k2'' ''c9'', False)], ps_world = (0, sample_server), ps_sent = []\<rparr>"

lemma sample_store_run:
  "map_option (\<lambda>(e, s). (e, map snd (ps_db s), ps_foreign s)) (reconcile_table sample_store_env (Table ''checks'') 10 sample_store_state)
   = Some (None, [True, False], [''k2''])"
  by code_simp


text \<open>The condition on keys is needed: times of the local config are stored for the agent. When the agent has no
  config yet, the answer names the agent's id, which is no row of the batch, and all of it is marked.\<close>

lemma local_times_lost:
  "map_option (\<lambda>(e, s). (e, map snd (ps_db s), ps_foreign s, up_rows (snd (ps_world s))))
     (reconcile_table sample_store_env (Table ''config_items_last_scraped_time'') 10
       (sample_store_state\<lparr>ps_db := [(ConfigItem \<lparr>cf_id = local_agent_config_id, cf_agent = zero_uuid, cf_type = None, cf_name = None,
            cf_scraper = None, cf_parent = None, cf_path = [], cf_data = []\<rparr>, True),
          (ConfigItemLastScrapedTime \<lparr>ls_config = local_agent_config_id, ls_data = []\<rparr>, False)]\<rparr>))
   = Some (None, [True, True], [], [sample_canary ''c1''])"
  by code_simp

subsection \<open>Retries\<close>

text \<open>C13: Components may come in any order: with the limit of retries of the source, a hierarchy of up to five levels
  whose other parents are present is stored as a whole; \<open>rank\<close> is the level of a row. A sixth level, sent children
  first, is refused although nothing is missing.\<close>

theorem component_levels:
  fixes rank :: "'f db_item \<Rightarrow> nat"
  assumes "\<forall>i \<in> set items. broken i = None" "\<forall>i \<in> set items. rank i \<le> 4"
    "\<forall>i \<in> set items. \<forall>x \<in> set (refs i). has_row store x \<or> x = (table_name i, pk i)
       \<or> (\<exists>j \<in> set items. (table_name j, pk j) = x \<and> rank j < rank i)"
  shows "(\<exists>store'. save_individually_with_retries retry_limit broken items store = (None, store') \<and> (\<forall>i \<in> set items. is_stored store' i))
    \<and> (\<exists>chain. (\<forall>i \<in> set chain. \<forall>x \<in> set (refs i). \<exists>j \<in> set chain. (table_name j, pk j) = x)
         \<and> fst (save_individually_with_retries retry_limit (\<lambda>i :: unit db_item. None) chain []) = Some (Conflict [''6'']))"
proof (intro conjI)
  show "\<exists>store'. save_individually_with_retries retry_limit broken items store = (None, store') \<and> (\<forall>i \<in> set items. is_stored store' i)"
    using save_retries_ranked [OF assms] by (auto simp: save_individually_with_retries_def retry_limit_def eval_nat_numeral)
  let ?c = "\<lambda>i p. Component \<lparr>cp_id = i, cp_agent = [], cp_topology = None, cp_parent = p, cp_path = [], cp_labels = [], cp_data = []\<rparr> :: unit db_item"
  let ?chain = "[?c ''6'' (Some ''5''), ?c ''5'' (Some ''4''), ?c ''4'' (Some ''3''), ?c ''3'' (Some ''2''), ?c ''2'' (Some ''1''), ?c ''1'' None]"
  have closed: "\<forall>i \<in> set ?chain. \<forall>x \<in> set (refs i). \<exists>j \<in> set ?chain. (table_name j, pk j) = x" by simp
  have refused: "fst (save_individually_with_retries retry_limit (\<lambda>i. None) ?chain []) = Some (Conflict [''6''])" by code_simp
  show "\<exists>chain. (\<forall>i \<in> set chain. \<forall>x \<in> set (refs i). \<exists>j \<in> set chain. (table_name j, pk j) = x)
      \<and> fst (save_individually_with_retries retry_limit (\<lambda>i :: unit db_item. None) chain []) = Some (Conflict [''6''])"
    by (intro exI [of _ ?chain] conjI) (use closed refused in simp_all)
qed

lemma component_levels_witness:
  "\<exists>store'. save_individually_with_retries retry_limit (\<lambda>i. None)
      [Component \<lparr>cp_id = ''b'', cp_agent = [], cp_topology = None, cp_parent = Some ''a'', cp_path = [], cp_labels = [], cp_data = []\<rparr>,
       Component \<lparr>cp_id = ''a'', cp_agent = [], cp_topology = None, cp_parent = None, cp_path = [], cp_labels = [], cp_data = []\<rparr>] ([] :: unit db_item list)
     = (None, store')"
proof -
  let ?items = "[Component \<lparr>cp_id = ''b'', cp_agent = [], cp_topology = None, cp_parent = Some ''a'', cp_path = [], cp_labels = [], cp_data = []\<rparr>,
     Component \<lparr>cp_id = ''a'', cp_agent = [], cp_topology = None, cp_parent = None, cp_path = [], cp_labels = [], cp_data = []\<rparr>] :: unit db_item list"
  have "(\<exists>store'. save_individually_with_retries retry_limit (\<lambda>i. None) ?items [] = (None, store') \<and> (\<forall>i \<in> set ?items. is_stored store' i))
    \<and> (\<exists>chain. (\<forall>i \<in> set chain. \<forall>x \<in> set (refs i). \<exists>j \<in> set chain. (table_name j, pk j) = x)
         \<and> fst (save_individually_with_retries retry_limit (\<lambda>i :: unit db_item. None) chain []) = Some (Conflict [''6'']))"
    by (rule component_levels [where rank = "\<lambda>i. if pk i = ''a'' then 0 else 1 :: nat"]) simp_all
  then show ?thesis by blast
qed

subsection \<open>Deleting\<close>

text \<open>The rows of a table that a message names, by the columns of its key; relations of configs one by one.\<close>

datatype 'f delete_step = Deletes "'f db_item list" | LoggedDeletes "'f db_item list"

fun delete_items :: "'f delete_step \<Rightarrow> 'f db_item list" where
  "delete_items (Deletes items) = items"
| "delete_items (LoggedDeletes items) = items"

definition delete_steps :: "'f push_data \<Rightarrow> 'f delete_step list" where
  "delete_steps p =
     [Deletes (map ComponentRelationship (pd_component_rels p))] @ map (\<lambda>r. Deletes [ConfigRelationship r]) (pd_config_rels p)
     @ [Deletes (map ConfigComponentRelationship (pd_config_component_rels p)), Deletes (map CheckConfigRelationship (pd_check_config_rels p)),
        Deletes (map ConfigItemLastScrapedTime (pd_last_scraped p)), Deletes (map ChecksUnlogged (pd_unlogged p)),
        Deletes (map ConfigChange (pd_changes p)), Deletes (map ConfigAnalysis (pd_analysis p)), Deletes (map CheckStatus (pd_statuses p)),
        LoggedDeletes (map Component (pd_components p)), LoggedDeletes (map ConfigItem (pd_configs p)), Deletes (map Check (pd_checks p)),
        Deletes (map ConfigScraper (pd_scrapers p)), Deletes (map Canary (pd_canaries p)), Deletes (map TopologyRow (pd_topologies p)),
        Deletes (map JobHistoryRow (pd_history p)), Deletes (map ViewPanel (pd_panels p))]"

text \<open>The foreign keys of the schema that are not deleted along: the parents of components and config items, their
  topologies and scrapers, and the scrapers of relations. The others cascade, from canaries over checks to what refers
  to checks, so two rounds are enough. \<open>fails\<close> gives the statements that the database refuses for another reason.\<close>

definition held_refs :: "'f db_item \<Rightarrow> (string \<times> string) list" where
  "held_refs i = (case i of
      Component r \<Rightarrow> refs i
    | ConfigItem r \<Rightarrow> refs i
    | ConfigRelationship r \<Rightarrow> (case cr_scraper r of Some s \<Rightarrow> [(''config_scrapers'', s)] | None \<Rightarrow> [])
    | _ \<Rightarrow> [])"

definition lost :: "'f db_item list \<Rightarrow> 'f db_item list \<Rightarrow> string \<times> string \<Rightarrow> bool" where
  "lost store store' x \<longleftrightarrow> has_row store x \<and> \<not> has_row store' x"

definition cascade_round :: "'f db_item list \<Rightarrow> 'f db_item list \<Rightarrow> 'f db_item list" where
  "cascade_round store store' = filter (\<lambda>j. \<not> list_ex (\<lambda>x. x \<notin> set (held_refs j) \<and> lost store store' x) (refs j)) store'"

definition remove_rows :: "'f db_item list \<Rightarrow> 'f db_item list \<Rightarrow> 'f db_item list" where
  "remove_rows items store =
     (let left = filter (\<lambda>j. \<not> list_ex (\<lambda>i. same_row i j) items) store in cascade_round store (cascade_round store left))"

definition still_referred :: "'f db_item list \<Rightarrow> 'f db_item list \<Rightarrow> bool" where
  "still_referred store store' \<longleftrightarrow> list_ex (\<lambda>j. list_ex (lost store store') (held_refs j)) store'"

fun run_deletes :: "('f db_item list \<Rightarrow> string option) \<Rightarrow> 'f delete_step list \<Rightarrow> 'f db_item list \<Rightarrow> string option \<times> 'f db_item list" where
  "run_deletes fails [] store = (None, store)"
| "run_deletes fails (d # ds) store =
     (let store1 = remove_rows (delete_items d) store;
          err = (case fails (delete_items d) of Some e \<Rightarrow> Some e
            | None \<Rightarrow> if still_referred store store1 then Some ''foreign key'' else None) in
      if delete_items d = [] then run_deletes fails ds store
      else case err of
        None \<Rightarrow> run_deletes fails ds store1
      | Some e \<Rightarrow> (case d of Deletes items \<Rightarrow> (Some e, store) | LoggedDeletes items \<Rightarrow> run_deletes fails ds store))"

fun delete_views :: "(string \<times> 'f generated_row list) list \<Rightarrow> 'f db_item list \<Rightarrow> string option \<times> 'f db_item list" where
  "delete_views [] store = (None, store)"
| "delete_views (v # vs) store =
     (case delete_view_data (snd v) store of
        (Some (StoreFailed m), store1) \<Rightarrow> (Some m, store1)
      | (Some (Conflict ids), store1) \<Rightarrow> (Some foreign_key_error, store1)
      | (None, store1) \<Rightarrow> delete_views vs store1)"

definition delete_on_upstream :: "('f db_item list \<Rightarrow> string option) \<Rightarrow> 'f push_data \<Rightarrow> 'f db_item list \<Rightarrow> string option \<times> 'f db_item list" where
  "delete_on_upstream fails p store =
     (case run_deletes fails (delete_steps p) store of
        (Some e, store1) \<Rightarrow> (Some e, store1)
      | (None, store1) \<Rightarrow> delete_views (pd_views p) store1)"

definition handle_delete :: "('f db_item list \<Rightarrow> string option) \<Rightarrow> bool \<Rightarrow> string \<Rightarrow> string + 'f push_data \<Rightarrow> 'f server_state
    \<Rightarrow> (nat \<times> http_error option) \<times> 'f server_state" where
  "handle_delete fails touched aid body st =
     (case body of
        Inl e \<Rightarrow> ((400, Some \<lparr>he_err = e, he_message = ''invalid json request'', he_data = []\<rparr>), st)
      | Inr p \<Rightarrow>
         (case delete_on_upstream fails (populate_agent_id aid p) (up_rows st) of
            (Some e, store1) \<Rightarrow> ((500, Some \<lparr>he_err = e, he_message = ''failed to delete items'', he_data = []\<rparr>), st\<lparr>up_rows := store1\<rparr>)
          | (None, store1) \<Rightarrow> ((200, None), st\<lparr>up_rows := store1, sv_received := (if touched then sv_received st @ [aid] else sv_received st),
                 sv_seen := (if touched then sv_seen st @ [aid] else sv_seen st)\<rparr>)))"

definition handle_ping :: "string option \<Rightarrow> string \<Rightarrow> 'f server_state \<Rightarrow> string option \<times> 'f server_state" where
  "handle_ping fails aid st =
     (case fails of Some e \<Rightarrow> (Some (''failed to update agent last_seen: '' @ e), st)
      | None \<Rightarrow> (None, st\<lparr>sv_seen := sv_seen st @ [aid]\<rparr>))"

subsubsection \<open>Foreign keys\<close>

definition refs_closed :: "'f db_item list \<Rightarrow> bool" where
  "refs_closed store \<longleftrightarrow> (\<forall>j \<in> set store. parents_present store j)"

lemma cascade_target:
  "x \<in> set (refs j) \<Longrightarrow> x \<notin> set (held_refs j) \<Longrightarrow> fst x \<in> {''canaries'', ''checks'', ''config_items'', ''components''}"
  by (cases j) (auto simp: held_refs_def)

lemma cascade_from_parent:
  "table_name k \<in> {''canaries'', ''checks'', ''config_items'', ''components''} \<Longrightarrow> x \<in> set (refs k) \<Longrightarrow> x \<notin> set (held_refs k)
    \<Longrightarrow> fst x = ''canaries'' \<and> table_name k = ''checks''"
  by (cases k) (auto simp: held_refs_def)

lemma cascade_round_sub: "set (cascade_round store store') \<subseteq> set store'"
  by (auto simp: cascade_round_def)

lemma cascade_dropped:
  assumes "k \<in> set store'" "k \<notin> set (cascade_round store store')"
  obtains x where "x \<in> set (refs k)" "x \<notin> set (held_refs k)" "lost store store' x"
  using assms by (auto simp: cascade_round_def list_ex_iff)

text \<open>After two rounds no row refers to a row that is gone.\<close>

lemma two_rounds:
  assumes "j \<in> set (cascade_round store (cascade_round store left))" "x \<in> set (refs j)" "x \<notin> set (held_refs j)"
  shows "\<not> lost store (cascade_round store (cascade_round store left)) x"
proof
  let ?one = "cascade_round store left"
  let ?two = "cascade_round store ?one"
  assume l: "lost store ?two x"
  have "\<not> lost store ?one x" using assms by (auto simp: cascade_round_def list_ex_iff)
  then obtain k where k: "k \<in> set ?one" "table_name k = fst x" "pk k = snd x" using l by (auto simp: lost_def has_row_def)
  then have "k \<notin> set ?two" using l by (auto simp: lost_def has_row_def)
  then obtain y where y: "y \<in> set (refs k)" "y \<notin> set (held_refs k)" "lost store ?one y" using cascade_dropped k(1) by metis
  have fy: "fst y = ''canaries''" using cascade_from_parent [OF _ y(1,2)] cascade_target [OF assms(2,3)] k(2) by simp
  have "\<not> lost store left y" using k(1) y(1,2) by (auto simp: cascade_round_def list_ex_iff)
  then obtain m where m: "m \<in> set left" "table_name m = fst y" "pk m = snd y" using y(3) by (auto simp: lost_def has_row_def)
  then have "m \<notin> set ?one" using y(3) by (auto simp: lost_def has_row_def)
  then obtain z where "z \<in> set (refs m)" "z \<notin> set (held_refs m)" using cascade_dropped m(1) by metis
  then show False using cascade_from_parent [of m z] m(2) fy by simp
qed

lemma remove_rows_closed:
  assumes "refs_closed store" "\<not> still_referred store (remove_rows items store)"
  shows "refs_closed (remove_rows items store)"
  unfolding refs_closed_def parents_present_def
proof (intro ballI)
  fix j x assume j: "j \<in> set (remove_rows items store)" and x: "x \<in> set (refs j)"
  have "j \<in> set store" using j by (simp add: remove_rows_def cascade_round_def Let_def)
  then have h: "has_row store x" using assms(1) x by (simp add: refs_closed_def parents_present_def)
  show "has_row (remove_rows items store) x"
  proof (cases "x \<in> set (held_refs j)")
    case True
    then show ?thesis using assms(2) j h by (auto simp: still_referred_def list_ex_iff lost_def)
  next
    case False
    then show ?thesis using two_rounds j x h unfolding remove_rows_def Let_def lost_def by blast
  qed
qed

lemma run_deletes_closed: "refs_closed store \<Longrightarrow> refs_closed (snd (run_deletes fails ds store))"
proof (induction ds arbitrary: store)
  case (Cons d ds)
  let ?new = "remove_rows (delete_items d) store"
  show ?case
  proof (cases "delete_items d \<noteq> [] \<and> fails (delete_items d) = None \<and> \<not> still_referred store ?new")
    case True
    then show ?thesis using Cons.IH [of ?new] remove_rows_closed [OF Cons.prems, of "delete_items d"] by simp
  next
    case False
    then show ?thesis using Cons.IH [OF Cons.prems] Cons.prems by (cases d) (auto simp: Let_def split: option.splits)
  qed
qed simp

text \<open>Rows of views are referred to by none.\<close>

lemma delete_view_closed:
  assumes "refs_closed store"
  shows "refs_closed (snd (delete_view_data rows store))"
proof -
  have "refs_closed (filter (\<lambda>i. \<not> deletes_row rows t i) store)" if t: "has_prefix ''view_'' t" for t
    unfolding refs_closed_def parents_present_def
  proof (intro ballI)
    fix j x assume j: "j \<in> set (filter (\<lambda>i. \<not> deletes_row rows t i) store)" and x: "x \<in> set (refs j)"
    then obtain k where k: "k \<in> set store" "table_name k = fst x" "pk k = snd x"
      using assms by (auto simp: refs_closed_def parents_present_def has_row_def)
    have "fst x \<in> {''canaries'', ''checks'', ''config_items'', ''components'', ''topologies'', ''config_scrapers''}"
      using x by (cases j) (auto split: option.splits)
    then have "\<not> deletes_row rows t k" using t k(2) by (cases k) (auto simp: has_prefix_def)
    then show "has_row (filter (\<lambda>i. \<not> deletes_row rows t i) store) x" using k by (auto simp: has_row_def)
  qed
  then show ?thesis using assms by (auto simp: delete_view_data_def split: list.splits)
qed

lemma delete_views_closed: "refs_closed store \<Longrightarrow> refs_closed (snd (delete_views vs store))"
proof (induction vs arbitrary: store)
  case (Cons v vs)
  obtain e store1 where v: "delete_view_data (snd v) store = (e, store1)" by force
  then have "refs_closed store1" using delete_view_closed [OF Cons.prems, of "snd v"] by simp
  then show ?case using Cons.IH v by (auto split: option.splits store_error.splits)
qed simp

lemma put_row_closed: "refs_closed store \<Longrightarrow> parents_present (put_row i store) i \<Longrightarrow> refs_closed (put_row i store)"
  unfolding refs_closed_def parents_present_def has_row_put_iff by (auto simp: put_row_def)

lemma refs_closed_iff_batch:
  "refs_closed store \<Longrightarrow> \<forall>i \<in> set b. parents_present (fold put_row b store) i \<Longrightarrow> refs_closed (fold put_row b store)"
proof -
  assume c: "refs_closed store" and b: "\<forall>i \<in> set b. parents_present (fold put_row b store) i"
  have sub: "set (fold put_row b s) \<subseteq> set b \<union> set s" for s :: "'a db_item list"
  proof (induction b arbitrary: s)
    case (Cons a b)
    have "set (put_row a s) \<subseteq> insert a (set s)" by (auto simp: put_row_def)
    then show ?case using Cons [of "put_row a s"] by auto
  qed simp
  have grow: "has_row s x \<Longrightarrow> has_row (fold put_row b s) x" for s :: "'a db_item list" and x
    by (induction b arbitrary: s) (simp_all add: has_row_put)
  show ?thesis using c b sub [of store] grow [of store] unfolding refs_closed_def parents_present_def by blast
qed

lemma save_row_closed: "refs_closed store \<Longrightarrow> save_row broken i store = Saved store' \<Longrightarrow> refs_closed store'"
  by (auto simp: save_row_def put_row_closed split: option.splits if_splits)

lemma save_pass_closed: "refs_closed store \<Longrightarrow> refs_closed (snd (save_pass broken items store))"
  by (induction broken items store rule: save_pass.induct)
    (auto dest: save_row_closed split: save_outcome.splits prod.splits sum.splits)

lemma save_retries_closed: "refs_closed store \<Longrightarrow> refs_closed (snd (save_retries k broken items store))"
proof (induction k arbitrary: items store)
  case 0
  then show ?case using save_pass_closed [of store broken items]
    by (subst save_retries.simps) (auto split: prod.splits sum.splits)
next
  case (Suc k)
  obtain q store1 where q: "save_pass broken items store = (q, store1)" by force
  have c: "refs_closed store1" using save_pass_closed [OF Suc.prems, of broken items] q by simp
  then show ?case using q Suc.IH [OF c] by (subst save_retries.simps) (auto split: sum.splits)
qed

lemma batch_saves_closed: "refs_closed store \<Longrightarrow> batch_saves broken bs store = Saved store' \<Longrightarrow> refs_closed store'"
proof (induction bs arbitrary: store)
  case (Cons b bs)
  then have "\<forall>i \<in> set b. parents_present (fold put_row b store) i" "batch_saves broken bs (fold put_row b store) = Saved store'"
    by (auto simp: Let_def split: if_splits)
  then show ?case using Cons.IH refs_closed_iff_batch Cons.prems(1) by blast
qed simp

lemma save_each_closed: "refs_closed store \<Longrightarrow> refs_closed (snd (save_each broken items store))"
  by (induction broken items store rule: save_each.induct) (auto dest: save_row_closed split: save_outcome.splits)

lemma run_step_closed: "refs_closed store \<Longrightarrow> refs_closed (snd (run_step broken s store))"
proof (cases s)
  case (Handled items)
  assume c: "refs_closed store"
  show ?thesis
  proof (cases "create_in_batches broken items store")
    case (Saved store1)
    then show ?thesis using Handled batch_saves_closed [OF c] by (simp add: handle_upsert_error_def create_in_batches_def)
  next
    case ForeignKeyError
    then show ?thesis using Handled save_pass_closed [OF c, of broken items]
      by (auto simp: handle_upsert_error_def split: prod.splits sum.splits)
  qed (use Handled c in \<open>simp add: handle_upsert_error_def\<close>)
qed (auto simp: save_each_closed save_retries_closed save_individually_with_retries_def create_in_batches_def
    dest: batch_saves_closed split: save_outcome.splits)

lemma run_steps_closed: "refs_closed store \<Longrightarrow> refs_closed (snd (run_steps broken ss store))"
proof (induction ss arbitrary: store)
  case (Cons s ss)
  obtain r store1 where s: "run_step broken s store = (r, store1)" by force
  then have "refs_closed store1" using run_step_closed [OF Cons.prems, of broken s] by simp
  then show ?case using s Cons.IH by (cases r) simp_all
qed simp

lemma upsert_view_closed: "refs_closed store \<Longrightarrow> refs_closed (snd (upsert_view_data rows store))"
proof -
  assume c: "refs_closed store"
  have "refs_closed (map GeneratedViewRow vs @ store)" for vs
  proof -
    have "has_row (map GeneratedViewRow vs @ store) x" if "has_row store x" for x using that by (auto simp: has_row_def)
    then show ?thesis using c by (auto simp: refs_closed_def parents_present_def)
  qed
  from this [of "inserted_rows rows"] show ?thesis
    using c by (cases "inserted_rows rows") (auto simp: upsert_view_data_def simp del: list.map)
qed

lemma upsert_views_closed: "refs_closed store \<Longrightarrow> refs_closed (snd (upsert_views vs store))"
proof (induction vs arbitrary: store)
  case (Cons v vs)
  obtain e store1 where v: "upsert_view_data (snd v) store = (e, store1)" by force
  then have "refs_closed store1" using upsert_view_closed [OF Cons.prems, of "snd v"] by simp
  then show ?case using Cons.IH v by (auto split: option.splits)
qed simp

lemma update_stored_closed: "refs_closed store \<Longrightarrow> refs_closed (update_stored_action merge r store)"
proof -
  let ?f = "\<lambda>i. case i of PlaybookRunAction s \<Rightarrow> if pa_id s = pa_id r then PlaybookRunAction (s\<lparr>pa_data := merge (pa_data s) (pa_data r)\<rparr>) else i | _ \<Rightarrow> i"
  have f: "refs (?f i) = refs i" "table_name (?f i) = table_name i" "pk (?f i) = pk i" for i :: "'a db_item" by (cases i; simp)+
  have "has_row (map ?f store) x = has_row store x" for x by (simp add: has_row_def f)
  then show "refs_closed store \<Longrightarrow> refs_closed (update_stored_action merge r store)"
    by (simp add: refs_closed_def parents_present_def update_stored_action_def f)
qed

lemma update_actions_closed: "refs_closed (up_rows st) \<Longrightarrow> refs_closed (up_rows (snd (update_actions merge fails rs st)))"
  by (induction merge fails rs st rule: update_actions.induct) (auto simp: update_stored_closed split: option.splits)

lemma insert_closed:
  assumes "refs_closed (up_rows st)"
  shows "refs_closed (up_rows (snd (insert_upstream_msg merge broken p st)))"
proof -
  obtain r1 rows1 where one: "run_steps broken (first_steps p) (up_rows st) = (r1, rows1)" by force
  obtain r2 rows2 where two: "upsert_views (pd_views p) rows1 = (r2, rows2)" by force
  obtain r3 rows3 where three: "run_step broken (Handled (map CheckStatus (pd_statuses p))) rows2 = (r3, rows3)" by force
  have c: "refs_closed rows1" "refs_closed rows2" "refs_closed rows3"
    using run_steps_closed [OF assms, of broken "first_steps p"] one two three
      upsert_views_closed [of rows1 "pd_views p"] run_step_closed [of rows2 broken "Handled (map CheckStatus (pd_statuses p))"] by simp_all
  then have "refs_closed (up_rows (snd (update_actions merge (\<lambda>r. broken (PlaybookRunAction r)) (pd_actions p) (st\<lparr>up_rows := rows3\<rparr>))))"
    by (intro update_actions_closed) simp
  then show ?thesis using c one two three by (cases r1; cases r2; cases r3) (simp_all add: insert_upstream_msg_def)
qed

text \<open>The requests of agents, each with what the database does to it.\<close>

datatype 'f request = PushRequest "string + 'f push_data" | DeleteRequest "string + 'f push_data"

fun serve :: "(string list \<Rightarrow> string) \<Rightarrow> (string \<Rightarrow> string \<Rightarrow> string) \<Rightarrow> ('f db_item \<Rightarrow> string option) \<Rightarrow> ('f db_item list \<Rightarrow> string option)
    \<Rightarrow> string \<Rightarrow> string \<Rightarrow> 'f request \<Rightarrow> 'f server_state \<Rightarrow> 'f server_state" where
  "serve encode merge broken fails aid aname (PushRequest body) st = snd (handle_push encode merge broken True True aid aname body st)"
| "serve encode merge broken fails aid aname (DeleteRequest body) st = snd (handle_delete fails True aid body st)"

lemma serve_closed: "refs_closed (up_rows st) \<Longrightarrow> refs_closed (up_rows (serve encode merge broken fails aid aname q st))"
proof (cases q)
  case (PushRequest body)
  assume c: "refs_closed (up_rows st)"
  have t: "up_rows (up_state.truncate st) = up_rows st" by (simp add: up_state.truncate_def)
  show ?thesis
  proof (cases body)
    case (Inr p)
    obtain r u where u: "insert_upstream_msg merge broken (received aid aname p) (up_state.truncate st) = (r, u)" by force
    then have "refs_closed (up_rows u)"
      using insert_closed [of "up_state.truncate st" merge broken "received aid aname p"] c t by simp
    then show ?thesis using PushRequest Inr u by (auto simp: handle_push_def split: option.splits prod.splits)
  qed (use c PushRequest in \<open>simp add: handle_push_def\<close>)
next
  case (DeleteRequest body)
  assume c: "refs_closed (up_rows st)"
  show ?thesis
  proof (cases body)
    case (Inr p)
    let ?p = "populate_agent_id aid p"
    obtain e store1 where d: "run_deletes fails (delete_steps ?p) (up_rows st) = (e, store1)" by force
    have "refs_closed store1" using run_deletes_closed [OF c, of fails "delete_steps ?p"] d by simp
    then have "refs_closed (snd (delete_on_upstream fails ?p (up_rows st)))"
      using d delete_views_closed [of store1] by (cases e) (simp_all add: delete_on_upstream_def)
    then show ?thesis using DeleteRequest Inr by (auto simp: handle_delete_def split: option.splits prod.splits)
  qed (use c DeleteRequest in \<open>simp add: handle_delete_def\<close>)
qed



text \<open>Nothing in deleting looks at the agent: a row of another agent goes with its id. The same holds for pushing, where
  the row becomes the sender's.\<close>

lemma other_agents_rows:
  assumes "up_rows st = [Canary \<lparr>cn_id = ''c'', cn_agent = ''other'', cn_labels = [], cn_data = []\<rparr>]"
    "q = new_push_data [Canary \<lparr>cn_id = ''c'', cn_agent = [], cn_labels = [], cn_data = []\<rparr>]"
  shows "up_rows (serve encode merge (\<lambda>i. None) (\<lambda>ds. None) ''mine'' aname (DeleteRequest (Inr q)) st) = []"
    "up_rows (serve encode merge (\<lambda>i. None) (\<lambda>ds. None) ''mine'' aname (PushRequest (Inr q)) st)
       = [Canary \<lparr>cn_id = ''c'', cn_agent = ''mine'', cn_labels = [], cn_data = []\<rparr>]"
proof -
  have q: "q = empty_push\<lparr>pd_canaries := [\<lparr>cn_id = ''c'', cn_agent = [], cn_labels = [], cn_data = []\<rparr>]\<rparr>"
    using assms(2) by (simp add: new_push_data_def empty_push_def)
  show "up_rows (serve encode merge (\<lambda>i. None) (\<lambda>ds. None) ''mine'' aname (DeleteRequest (Inr q)) st) = []"
    by (simp add: q assms(1) handle_delete_def delete_on_upstream_def populate_agent_id_def empty_push_def delete_steps_def
        remove_rows_def cascade_round_def still_referred_def same_row_def Let_def)
  have none: "save_retries k broken [] s = (None, s)" for k broken and s :: "'c db_item list" by (subst save_retries.simps) simp
  have batches: "row_batches n [] = []" for n by (subst row_batches.simps) simp
  show "up_rows (serve encode merge (\<lambda>i. None) (\<lambda>ds. None) ''mine'' aname (PushRequest (Inr q)) st)
      = [Canary \<lparr>cn_id = ''c'', cn_agent = ''mine'', cn_labels = [], cn_data = []\<rparr>]"
    by (simp add: q assms(1) handle_push_def insert_upstream_msg_def received_def add_agent_config_def populate_agent_id_def empty_push_def
        first_steps_def up_state.truncate_def save_row_def parents_present_def put_row_def same_row_def none batches
        save_individually_with_retries_def handle_upsert_error_def create_in_batches_def)
qed

subsection \<open>Agents\<close>

record agent_row =
  ag_id :: string
  ag_name :: string
  ag_deleted :: bool

text \<open>A new agent has no deletion time; \<open>next_id\<close> is the id the database gives it.\<close>

definition get_agent :: "string \<Rightarrow> agent_row list \<Rightarrow> agent_row option" where
  "get_agent name agents = find (\<lambda>a. ag_name a = name \<and> \<not> ag_deleted a) agents"

definition get_or_create_agent :: "string option \<Rightarrow> string option \<Rightarrow> string \<Rightarrow> string \<Rightarrow> agent_row list \<Rightarrow> (string + agent_row) \<times> agent_row list" where
  "get_or_create_agent read_fails create_fails next_id name agents =
     (case read_fails of
        Some e \<Rightarrow> (Inl e, agents)
      | None \<Rightarrow> (case get_agent name agents of
          Some a \<Rightarrow> (Inr a, agents)
        | None \<Rightarrow> (case create_fails of
            Some e \<Rightarrow> (Inl (''failed to create agent: '' @ e), agents)
          | None \<Rightarrow> (let a = \<lparr>ag_id = next_id, ag_name = name, ag_deleted = False\<rparr> in (Inr a, agents @ [a])))))"

text \<open>The middleware: the agent of the request, or by name from a cache or the table. \<open>Inl\<close> is the response, \<open>Inr\<close> the
  agent the next handler gets; \<open>set_agent\<close> is what authentication put into the context.\<close>

definition agent_auth :: "agent_row option \<Rightarrow> string \<Rightarrow> string option \<Rightarrow> string option \<Rightarrow> string
    \<Rightarrow> (string, agent_row) gomap \<times> agent_row list \<Rightarrow> ((nat \<times> http_error) + agent_row) \<times> (string, agent_row) gomap \<times> agent_row list" where
  "agent_auth set_agent name read_fails create_fails next_id st =
     (case set_agent of
        Some a \<Rightarrow> (Inr a, st)
      | None \<Rightarrow>
         if name = [] then (Inl (400, \<lparr>he_err = ''agent name is required'', he_message = [], he_data = []\<rparr>), st)
         else (case map_of (fst st) name of
            Some a \<Rightarrow> (Inr a, st)
          | None \<Rightarrow>
             (case get_or_create_agent read_fails create_fails next_id name (snd st) of
                (Inl e, agents) \<Rightarrow> (Inl (400, \<lparr>he_err = ''failed to create/fetch agent: '' @ e, he_message = [], he_data = []\<rparr>), (fst st, agents))
              | (Inr a, agents) \<Rightarrow> (Inr a, (merge_maps (fst st) [(name, a)], agents)))))"

definition agents_agree :: "(string, agent_row) gomap \<times> agent_row list \<Rightarrow> bool" where
  "agents_agree st \<longleftrightarrow> (\<forall>n a. map_of (fst st) n = Some a \<longrightarrow> get_agent n (snd st) = Some a)"

lemma find_append: "find P (xs @ ys) = (case find P xs of Some x \<Rightarrow> Some x | None \<Rightarrow> find P ys)"
  by (induction xs) simp_all

text \<open>As long as no agent is deleted, a name stands for one agent: the first request makes it, every later one, cached or
  not, gets the same.\<close>

lemma agent_auth_same:
  assumes "agents_agree st" "agent_auth None name rf cf i st = (Inr a, st1)"
  shows "agents_agree st1" "get_agent name (snd st1) = Some a" "agent_auth None name None cf' i' st1 = (Inr a, st1)"
proof -
  have name: "name \<noteq> []" using assms(2) by (auto simp: agent_auth_def)
  show agree: "agents_agree st1" and got: "get_agent name (snd st1) = Some a"
  proof -
    have "agents_agree st1 \<and> get_agent name (snd st1) = Some a"
    proof (cases "map_of (fst st) name")
      case (Some b)
      then show ?thesis using assms name by (auto simp: agent_auth_def agents_agree_def)
    next
      case None
      obtain r agents where g: "get_or_create_agent rf cf i name (snd st) = (r, agents)" by force
      then have st1: "r = Inr a" "st1 = (merge_maps (fst st) [(name, a)], agents)"
        using assms(2) name None by (auto simp: agent_auth_def split: sum.splits)
      have "get_agent name agents = Some a \<and> (\<forall>n b. get_agent n (snd st) = Some b \<longrightarrow> get_agent n agents = Some b)"
        using g st1(1) by (auto simp: get_or_create_agent_def get_agent_def find_append Let_def split: option.splits)
      then show ?thesis using assms(1) st1(2) by (auto simp: agents_agree_def merge_maps_lookup)
    qed
    then show "agents_agree st1" "get_agent name (snd st1) = Some a" by simp_all
  qed
  show "agent_auth None name None cf' i' st1 = (Inr a, st1)"
  proof (cases "map_of (fst st1) name")
    case (Some b)
    then show ?thesis using agree got name by (auto simp: agent_auth_def agents_agree_def)
  next
    case None
    have False
    proof (cases "map_of (fst st) name")
      case (Some b) then show ?thesis using None assms(2) name by (auto simp: agent_auth_def)
    next
      case none: None
      obtain r agents where g: "get_or_create_agent rf cf i name (snd st) = (r, agents)" by force
      then have "st1 = (merge_maps (fst st) [(name, a)], agents)"
        using assms(2) name none by (auto simp: agent_auth_def split: sum.splits)
      then show ?thesis using None by (simp add: merge_maps_lookup)
    qed
    then show ?thesis ..
  qed
qed

text \<open>A deleted agent is still let in, as itself, while the cache holds it; afterwards a new one is made.\<close>

lemma deleted_agent_cached:
  "name \<noteq> [] \<Longrightarrow> map_of cache name = Some a \<Longrightarrow> agent_auth None name rf cf i (cache, agents) = (Inr a, (cache, agents))"
  by (simp add: agent_auth_def)

subsection \<open>Listing views\<close>

text \<open>\<open>find_view\<close> is the database's answer for an identifier, whether there is such a view; \<open>defs\<close> its column definitions.\<close>

fun list_views_on_upstream :: "(view_ident \<Rightarrow> string + bool) \<Rightarrow> (view_ident \<Rightarrow> string + column_def list) \<Rightarrow> view_ident list
    \<Rightarrow> string + (view_ident \<times> column_def list) list" where
  "list_views_on_upstream find_view defs [] = Inr []"
| "list_views_on_upstream find_view defs (v # vs) =
     (case find_view v of
        Inl e \<Rightarrow> Inl (''database error: '' @ e)
      | Inr False \<Rightarrow> list_views_on_upstream find_view defs vs
      | Inr True \<Rightarrow>
         (case defs v of
            Inl e \<Rightarrow> Inl e
          | Inr cols \<Rightarrow> and_then (list_views_on_upstream find_view defs vs) (\<lambda>rest. Inr ((v, cols) # rest))))"

text \<open>What is listed are the views that exist, in the order asked for.\<close>

lemma list_views_result:
  "list_views_on_upstream find_view defs vs = Inr out \<Longrightarrow>
     map fst out = filter (\<lambda>v. find_view v = Inr True) vs \<and> (\<forall>x \<in> set out. defs (fst x) = Inr (snd x))"
proof (induction vs arbitrary: out)
  case (Cons v vs)
  show ?case
  proof (cases "find_view v = Inr True")
    case True
    then obtain cols rest where d: "defs v = Inr cols" "list_views_on_upstream find_view defs vs = Inr rest" "out = (v, cols) # rest"
      using Cons.prems by (auto simp: and_then_Inr_iff split: sum.splits)
    then show ?thesis using Cons.IH [OF d(2)] True by simp
  next
    case False
    then have "find_view v = Inr False" "list_views_on_upstream find_view defs vs = Inr out"
      using Cons.prems by (auto split: sum.splits bool.splits)
    then show ?thesis using Cons.IH by simp
  qed
qed simp

end
