(* ===== verification/Spec2Isabelle.thy ===== *)
theory Spec2Isabelle
  imports Duty_Prelude Label_Normal Filters Resource_Matching Config_Build Event_Queue Change_Dedup Model_Labels
    Context_Properties Job_Run Playbook_Runs Topology
    Permission_Objects Permissions Row_Security Log_Parse Query_Aggregation Upstream_Store
begin

section \<open>The development\<close>

text \<open>
  A model of the core logic of duty, the Go library (under \<^verbatim>\<open>src/\<close>) that a control plane for cloud
  resources is built on: it keeps configs, components, checks, playbooks and permissions in PostgreSQL,
  selects them with label selectors and a query language, builds trees of them, queues events, runs
  jobs and playbooks, and decides who may see and do what.

  \<^bold>\<open>Parts and theories.\<close> Every theory opens with what it holds; definitions keep the names of the
  source in lower case with underscores.

  \<^item> \<open>Duty_Prelude\<close>: the functions of the Go library the source calls, fallible results (a sum, with
    \<open>and_then\<close> for the early return), maps that are iterated (association lists whose order is the
    runtime's choice) and the locale \<open>unstable_sort\<close> of what \<^verbatim>\<open>sort.Sort\<close> promises.
  \<^item> Selecting by labels (\<^verbatim>\<open>pkg/kube/labels/\<close>): \<open>Label_Set\<close>, \<open>Label_Selector\<close>, \<open>Label_Parser\<close>,
    with the proofs that printing and parsing are inverse in \<open>Label_Roundtrip\<close> and \<open>Label_Normal\<close>.
  \<^item> Queries and resource selectors (\<^verbatim>\<open>query/grammar/\<close>, \<^verbatim>\<open>types/resource_selector.go\<close>): \<open>Filters\<close> turns
    the fields of a query into SQL clauses, \<open>Resource_Canonical\<close> normalises a selector,
    \<open>Resource_Matching\<close> decides it on an object in memory, using the label selectors. The parser of
    queries is the generated recogniser: \<open>Peg_Engine\<close> is its engine, \<open>Query_Grammar\<close> its rules and
    actions, \<open>Query_Types\<close> shows that it ends and what its actions are given.
  \<^item> Queries to the database (\<^verbatim>\<open>query/\<close>): \<open>Query_Models\<close> applies a parsed query to a table of columns,
    aliases and JSON paths, \<open>Selector_Query\<close> builds and runs the statement of a resource selector and
    caches its answers, \<open>Query_Aggregation\<close> builds aggregations.
  \<^item> Trees (\<^verbatim>\<open>query/config_tree.go\<close>, \<^verbatim>\<open>query/topology.go\<close>, \<^verbatim>\<open>models/components.go\<close>, \<^verbatim>\<open>types/component.go\<close>):
    \<open>Config_Merge\<close>, \<open>Config_Build\<close>, \<open>Component_Summary\<close>, \<open>Topology\<close>. Nodes that share pointers live in
    a heap, a list indexed by address.
  \<^item> Events and changes (\<^verbatim>\<open>models/event_queue.go\<close>, \<^verbatim>\<open>postq/\<close>, \<^verbatim>\<open>models/config_change_dedupe.go\<close>):
    \<open>Event_Queue\<close>, \<open>Change_Dedup\<close>.
  \<^item> Jobs and playbooks (\<^verbatim>\<open>job/\<close>, \<^verbatim>\<open>models/job_history.go\<close>, \<^verbatim>\<open>models/playbooks.go\<close>): \<open>Job_History\<close>,
    \<open>Status_Ring\<close>, \<open>Job_Run\<close>, \<open>Playbook_Runs\<close>; their settings are read from \<open>Context_Properties\<close>.
  \<^item> Permissions (\<^verbatim>\<open>rbac/\<close>, \<^verbatim>\<open>rls/\<close>, \<^verbatim>\<open>models/permission.go\<close>): \<open>Permissions\<close>, \<open>Permission_Objects\<close>,
    \<open>Row_Security\<close>; a permission's object selectors are the resource selectors above.
  \<^item> Logs (\<^verbatim>\<open>logs/\<close>, \<^verbatim>\<open>pkg/tokenizer/\<close>): \<open>Log_Lines\<close>, \<open>Log_Parse\<close>.
  \<^item> Views (\<^verbatim>\<open>view/\<close>, \<^verbatim>\<open>models/common.go\<close>): \<open>View_Tables\<close>, the tables generated for views.
  \<^item> Agents and upstream (\<^verbatim>\<open>upstream/\<close>, \<^verbatim>\<open>models/\<close>): \<open>Upstream_Push\<close> has the rows and messages of an agent,
    \<open>Upstream_Reconcile\<close> the loop that pushes its tables, \<open>Upstream_Store\<close> the handlers that store and
    delete rows, with what holds of both sides together; \<open>Api_Errors\<close> the errors they answer with
    (\<^verbatim>\<open>api/\<close>, \<^verbatim>\<open>db/utils.go\<close>).
  \<^item> Values (\<^verbatim>\<open>types/properties.go\<close>, \<^verbatim>\<open>models/labels.go\<close>): \<open>Properties\<close>, \<open>Model_Labels\<close>.

  \<^bold>\<open>State and effects.\<close> A struct is a record, a table a list of rows or a map from ids, a transaction a
  function from tables to a sum of an error and tables. Calls that can fail outside the program take
  their outcomes as arguments, so a theorem over all outcomes covers every error path. Code that panics
  gives \<^term>\<open>None\<close>. Concurrent parts are step relations: the consumers of the event queue, the locks of
  singleton jobs, the operations on playbook runs.

  \<^bold>\<open>What is shown.\<close> Each component has the lemmas that describe its operations on every branch; the
  properties build on them. Selectors: the parser inverts the printer and never reads outside its
  tokens, matching is the documented meaning, canonical forms are fixed points and keep the meaning,
  filters select the rows they should. Trees: they hold exactly the nodes and edges they should, each
  node once, and building them returns on every input, cycles included. Queue: an event is held by one
  consumer at most and none is lost or duplicated, whatever fails. Jobs: a run frees what it took, two
  runs of a singleton do not overlap, histories are retained up to their limits (a refinement of bounded
  queues by rings). Playbooks: the invariant of runs and actions under every operation. Permissions:
  rules for objects and for resources do not mix, denials override, errors refuse, searches are exact.
  Logs: grouping and deduplication partition the lines and conserve their counts. Queries: parsing ends,
  texts of SQL and values stay apart, a selector's statement keeps its default conditions. Upstream: a row
  is marked as pushed only when the upstream stored it, over a network that loses messages, pushing ends,
  and the upstream's foreign keys hold after any requests.
  Some theorems state behaviour that is not what the code or its comments intend; the findings of the
  manifest name them.

  \<^bold>\<open>Bounds and fuel.\<close> Loops are structural recursions or have a decreasing measure where they end by
  themselves. \<open>to_tree\<close> (config trees) runs with one more unit of fuel than there are nodes: each level
  marks a node as visited, so a path cannot be longer. \<open>generate_tree\<close> (topologies) runs with one more
  unit than there are components: a component has one parent, so the paths from the roots do not meet a
  cycle; \<^term>\<open>None\<close> stands for a recursion that does not end, and that it is not met is a theorem.
  The parser's recursion is bounded by 40 for each rune, which is a theorem. \<open>reconcile_loop\<close> runs with
  one more round than there are rows to push; that every round that goes on marks a row is a theorem.
  \<open>consume_until_empty\<close> runs with as many rounds as it is given, and
  the liveness theorem gives a number that is enough. Integers are unbounded where the source's cannot
  overflow on any input that fits into memory, and words where they can (\<open>priority\<close> of a syslog line).

  \<^bold>\<open>Not modelled.\<close> Generated copies of types; what PostgreSQL computes from the SQL text it is given, and
  the queries of catalogs, components and topologies, which are such text; migrations; clients of cloud
  providers, Kubernetes, file stores and log services; the other HTTP handlers, tracing, telemetry; JSON and YAML
  encodings; rendering for terminals. They are calls to third-party packages or I/O: where modelled code
  depends on their results they are parameters. Time is a number given by the caller, random identifiers
  are arguments, and strings are lists of bytes with case folding and trimming for ASCII.
\<close>

end
